(* ===== verification/Prelude.thy ===== *)
theory Prelude
  imports Main "HOL-Library.Word" "HOL-Library.AList" "HOL-Library.Multiset"
begin

text \<open>
  What every component of the model shares: Go's outcomes (a value or a panic), Go maps with
  their unspecified iteration order, byte slices and the fixed-width encodings of
  encoding/binary, and the lemma collections the component theories hand to simp and auto.
\<close>

unbundle bit_operations_syntax

section \<open>Names and collections\<close>

type_synonym u8 = "8 word"
type_synonym u32 = "32 word"
type_synonym u64 = "64 word"
type_synonym bytes = "8 word list"

named_theorems slice_simps \<open>lengths, prefixes and suffixes of written byte slices\<close>
named_theorems gomap_simps \<open>lookup, update, delete and keys of Go maps\<close>

section \<open>Outcomes of Go code\<close>

text \<open>
  A Go function either returns or panics (an index out of range, a slice with its bounds in the
  wrong order, an explicit panic). Errors are ordinary values of the returned type.
\<close>

datatype 'a outcome = Ret 'a | Panic

fun bind_outcome :: "'a outcome \<Rightarrow> ('a \<Rightarrow> 'b outcome) \<Rightarrow> 'b outcome" where
  "bind_outcome (Ret x) f = f x"
| "bind_outcome Panic f = Panic"

lemma bind_outcome_Ret [simp]:
  "bind_outcome m f = Ret y \<longleftrightarrow> (\<exists>x. m = Ret x \<and> f x = Ret y)"
  by (cases m) auto

section \<open>Resources\<close>

text \<open>The phases of a resource of the COSI runtime.\<close>

datatype ResourcePhase = PhaseRunning | PhaseTearingDown

section \<open>Go maps\<close>

text \<open>
  A Go map is an association list with distinct keys. The list order stands for nothing: a
  \<open>for k, v := range m\<close> loop may visit the entries in any order, so an operation with such a
  loop takes the visiting order as an argument, and the theorems hold for every order that is a
  permutation of the entries (\<open>range_order\<close>).
\<close>

type_synonym ('k, 'v) gomap = "('k \<times> 'v) list"

definition gm_wf :: "('k, 'v) gomap \<Rightarrow> bool" where
  "gm_wf m \<longleftrightarrow> distinct (map fst m)"

definition gm_get :: "('k, 'v) gomap \<Rightarrow> 'k \<Rightarrow> 'v option" where
  "gm_get m k = map_of m k"

definition gm_has :: "('k, 'v) gomap \<Rightarrow> 'k \<Rightarrow> bool" where
  "gm_has m k \<longleftrightarrow> k \<in> set (map fst m)"

definition gm_set :: "('k, 'v) gomap \<Rightarrow> 'k \<Rightarrow> 'v \<Rightarrow> ('k, 'v) gomap" where
  "gm_set m k v = AList.update k v m"

definition gm_del :: "('k, 'v) gomap \<Rightarrow> 'k \<Rightarrow> ('k, 'v) gomap" where
  "gm_del m k = AList.delete k m"

definition gm_keys :: "('k, 'v) gomap \<Rightarrow> 'k list" where
  "gm_keys m = map fst m"

definition range_order :: "('k, 'v) gomap \<Rightarrow> ('k, 'v) gomap \<Rightarrow> bool" where
  "range_order m it \<longleftrightarrow> mset it = mset m"

lemma gm_wf_empty [gomap_simps]: "gm_wf []"
  by (simp add: gm_wf_def)

lemma gm_wf_set [gomap_simps]: "gm_wf m \<Longrightarrow> gm_wf (gm_set m k v)"
  by (simp add: gm_wf_def gm_set_def distinct_update)

lemma gm_wf_del [gomap_simps]: "gm_wf m \<Longrightarrow> gm_wf (gm_del m k)"
  by (simp add: gm_wf_def gm_del_def distinct_delete)

lemma gm_get_set [gomap_simps]: "gm_get (gm_set m k v) k' = (if k' = k then Some v else gm_get m k')"
  by (simp add: gm_get_def gm_set_def update_conv')

lemma gm_get_del [gomap_simps]: "gm_get (gm_del m k) k' = (if k' = k then None else gm_get m k')"
  by (simp add: gm_get_def gm_del_def delete_conv')

lemma gm_get_empty [gomap_simps]: "gm_get [] k = None"
  by (simp add: gm_get_def)

lemma gm_has_get: "gm_has m k \<longleftrightarrow> gm_get m k \<noteq> None"
  by (simp add: gm_has_def gm_get_def map_of_eq_None_iff)

lemma gm_keys_get: "k \<in> set (gm_keys m) \<longleftrightarrow> gm_get m k \<noteq> None"
  by (simp add: gm_keys_def gm_get_def map_of_eq_None_iff)

lemma gm_keys_set_set: "set (gm_keys (gm_set m k v)) = insert k (set (gm_keys m))"
  by (auto simp: gm_keys_get gm_get_set split: if_splits)

lemma gm_keys_set_del: "set (gm_keys (gm_del m k)) = set (gm_keys m) - {k}"
  by (auto simp: gm_keys_get gm_get_del split: if_splits)

lemma range_order_refl [simp]: "range_order m m"
  by (simp add: range_order_def)

lemma range_order_wf: "range_order m it \<Longrightarrow> gm_wf m \<Longrightarrow> gm_wf it"
  unfolding range_order_def gm_wf_def
  by (rule mset_eq_imp_distinct_iff [THEN iffD2]) simp_all

lemma range_order_set: "range_order m it \<Longrightarrow> set it = set m"
  unfolding range_order_def by (metis set_mset_mset)

lemma range_order_keys: "range_order m it \<Longrightarrow> set (gm_keys it) = set (gm_keys m)"
  by (simp add: gm_keys_def range_order_set)

lemma range_order_get: "range_order m it \<Longrightarrow> gm_wf m \<Longrightarrow> gm_get it k = gm_get m k"
  using map_of_inject_set [of it m] range_order_set [of m it] range_order_wf [of m it]
  by (simp add: gm_get_def gm_wf_def)

lemma range_order_sum:
  "range_order m it \<Longrightarrow> sum_list (map f it) = (sum_list (map f m) :: 'b::comm_monoid_add)"
  unfolding range_order_def by (metis mset_map sum_mset_sum_list)

lemma gm_del_absent: "gm_get m k = None \<Longrightarrow> gm_del m k = m"
  by (simp add: gm_get_def gm_del_def map_of_eq_None_iff delete_idem)

lemma sum_update_absent:
  "gm_get m k = None \<Longrightarrow>
     sum_list (map f (gm_set m k v)) = (sum_list (map f m) :: nat) + f (k, v)"
  unfolding gm_get_def gm_set_def by (induction m) (auto split: if_splits)

lemma sum_update_present:
  "gm_wf m \<Longrightarrow> gm_get m k = Some old \<Longrightarrow>
     sum_list (map f (gm_set m k v)) + f (k, old) = (sum_list (map f m) :: nat) + f (k, v)"
  unfolding gm_get_def gm_set_def gm_wf_def
  by (induction m) (auto split: if_splits)

section \<open>Byte slices\<close>

text \<open>
  \<open>put_at i src dst\<close> overwrites \<open>dst\<close> from index \<open>i\<close> with all of \<open>src\<close>; it models
  \<open>copy(dst[i:], src)\<close> and \<open>PutUint32(dst[i:i+4], w)\<close> where \<open>src\<close> fits. \<open>sub_slice i j xs\<close>
  is \<open>xs[i:j]\<close>.
\<close>

definition put_at :: "nat \<Rightarrow> 'a list \<Rightarrow> 'a list \<Rightarrow> 'a list" where
  "put_at i src dst = take i dst @ src @ drop (i + length src) dst"

definition sub_slice :: "nat \<Rightarrow> nat \<Rightarrow> 'a list \<Rightarrow> 'a list" where
  "sub_slice i j xs = take (j - i) (drop i xs)"

text \<open>Go's \<open>copy(dst[i:], src)\<close>: as many elements as both sides have.\<close>

definition copy_at :: "nat \<Rightarrow> 'a list \<Rightarrow> 'a list \<Rightarrow> 'a list" where
  "copy_at i src dst = put_at i (take (length dst - i) src) dst"

lemma length_put_at [slice_simps]:
  "i + length src \<le> length dst \<Longrightarrow> length (put_at i src dst) = length dst"
  by (simp add: put_at_def)

lemma take_put_at [slice_simps]:
  "n \<le> i \<Longrightarrow> i + length src \<le> length dst \<Longrightarrow> take n (put_at i src dst) = take n dst"
  by (simp add: put_at_def)

lemma drop_put_at [slice_simps]:
  "i + length src \<le> n \<Longrightarrow> i + length src \<le> length dst \<Longrightarrow>
     drop n (put_at i src dst) = drop n dst"
  by (simp add: put_at_def)

lemma sub_slice_put_at_same [slice_simps]:
  "i + length src \<le> length dst \<Longrightarrow> j = i + length src \<Longrightarrow> sub_slice i j (put_at i src dst) = src"
  by (simp add: sub_slice_def put_at_def)

lemma sub_slice_put_at_before [slice_simps]:
  "j \<le> i \<Longrightarrow> i + length src \<le> length dst \<Longrightarrow> sub_slice k j (put_at i src dst) = sub_slice k j dst"
  unfolding sub_slice_def
  by (metis drop_take take_put_at)

lemma sub_slice_put_at_after [slice_simps]:
  "i + length src \<le> k \<Longrightarrow> i + length src \<le> length dst \<Longrightarrow>
     sub_slice k j (put_at i src dst) = sub_slice k j dst"
  by (simp add: sub_slice_def drop_put_at)

lemma length_sub_slice [slice_simps]: "length (sub_slice i j xs) = min (j - i) (length xs - i)"
  by (simp add: sub_slice_def)

lemma nth_put_at_before: "k < i \<Longrightarrow> i + length src \<le> length dst \<Longrightarrow> put_at i src dst ! k = dst ! k"
  by (simp add: put_at_def nth_append)

lemma nth_put_at_in:
  "i \<le> k \<Longrightarrow> k < i + length src \<Longrightarrow> i + length src \<le> length dst \<Longrightarrow>
     put_at i src dst ! k = src ! (k - i)"
  by (auto simp: put_at_def nth_append)

lemma nth_put_at_after:
  "i + length src \<le> k \<Longrightarrow> i + length src \<le> length dst \<Longrightarrow> put_at i src dst ! k = dst ! k"
  by (auto simp: put_at_def nth_append)

lemma put_at_empty [simp]: "put_at i [] dst = dst"
  by (simp add: put_at_def)

lemma put_at_put_at:
  "i + length s1 = j \<Longrightarrow> j + length s2 \<le> length dst \<Longrightarrow>
     put_at j s2 (put_at i s1 dst) = put_at i (s1 @ s2) dst"
  by (auto simp: put_at_def min_absorb2 algebra_simps)

section \<open>encoding/binary\<close>

definition put_be32 :: "u32 \<Rightarrow> bytes" where
  "put_be32 w = [ucast (drop_bit 24 w), ucast (drop_bit 16 w), ucast (drop_bit 8 w), ucast w]"

definition put_le32 :: "u32 \<Rightarrow> bytes" where
  "put_le32 w = [ucast w, ucast (drop_bit 8 w), ucast (drop_bit 16 w), ucast (drop_bit 24 w)]"

text \<open>Reading needs four bytes; the callers check or fix the length, so the other case is never
  reached.\<close>

fun get_be32 :: "bytes \<Rightarrow> u32" where
  "get_be32 (a # b # c # d # _) =
     ucast d OR push_bit 8 (ucast c) OR push_bit 16 (ucast b) OR push_bit 24 (ucast a)"
| "get_be32 _ = 0"

fun get_le32 :: "bytes \<Rightarrow> u32" where
  "get_le32 (a # b # c # d # _) =
     ucast a OR push_bit 8 (ucast b) OR push_bit 16 (ucast c) OR push_bit 24 (ucast d)"
| "get_le32 _ = 0"

lemma length_put_be32 [simp, slice_simps]: "length (put_be32 w) = 4"
  by (simp add: put_be32_def)

lemma length_put_le32 [simp, slice_simps]: "length (put_le32 w) = 4"
  by (simp add: put_le32_def)

lemma byte_index: "8 \<le> n - 8 \<Longrightarrow> bit (w :: u32) (24 + (n - 24)) \<longleftrightarrow> (if n - 16 < 8 then bit w 24 else bit w n)"
  by auto

lemma get_put_be32 [simp]: "get_be32 (put_be32 w @ rest) = w"
  unfolding put_be32_def
  by (simp, rule bit_word_eqI) (auto simp: bit_simps not_less byte_index split: if_splits)

lemma get_put_le32 [simp]: "get_le32 (put_le32 w @ rest) = w"
  unfolding put_le32_def
  by (simp, rule bit_word_eqI) (auto simp: bit_simps not_less byte_index split: if_splits)

lemma get_put_be32_nil [simp]: "get_be32 (put_be32 w) = w"
  using get_put_be32 [of w "[]"] by simp

lemma get_put_le32_nil [simp]: "get_le32 (put_le32 w) = w"
  using get_put_le32 [of w "[]"] by simp

lemma unat_of_nat_32 [simp]: "n < 4294967296 \<Longrightarrow> unat (of_nat n :: u32) = n"
  by (simp add: unat_of_nat)

lemma ucast_8_32_inverse [simp]: "ucast (ucast (x :: u8) :: u32) = x"
  by (rule bit_word_eqI) (auto simp: bit_simps)

lemma ucast_8_32_eq_0 [simp]: "ucast (x :: u8) = (0 :: u32) \<longleftrightarrow> x = 0"
  by (metis ucast_8_32_inverse unsigned_0)

end
