(* ===== verification/AdvInterface.thy ===== *)
theory AdvInterface
  imports Prelude
begin

text \<open>
  The ADV interface of internal/pkg/meta/internal/adv/adv.go as locales. \<open>adv_reader\<close> is the part
  both formats keep (which tags are listed and what reading them returns); \<open>adv_store\<close> adds the
  laws of a tag-value store for SetTagBytes and DeleteTag. META uses a store for the current format
  and a reader for the legacy one.
\<close>

locale adv_reader =
  fixes inv :: "'a \<Rightarrow> bool"
    and read :: "'a \<Rightarrow> u8 \<Rightarrow> bytes option"
    and tags :: "'a \<Rightarrow> u8 list"
  assumes tags_read: "inv a \<Longrightarrow> t \<in> set (tags a) \<longleftrightarrow> read a t \<noteq> None"
begin

lemma read_listed: "inv a \<Longrightarrow> t \<in> set (tags a) \<Longrightarrow> \<exists>v. read a t = Some v"
  using tags_read by blast

lemma read_unlisted: "inv a \<Longrightarrow> t \<notin> set (tags a) \<Longrightarrow> read a t = None"
  using tags_read by blast

end

locale adv_store = adv_reader inv read tags
  for inv :: "'a \<Rightarrow> bool" and read :: "'a \<Rightarrow> u8 \<Rightarrow> bytes option" and tags :: "'a \<Rightarrow> u8 list" +
  fixes set_tag :: "'a \<Rightarrow> u8 \<Rightarrow> bytes \<Rightarrow> bool \<times> 'a"
    and delete_tag :: "'a \<Rightarrow> u8 \<Rightarrow> bool \<times> 'a"
  assumes set_inv: "inv a \<Longrightarrow> set_tag a t v = (ok, a') \<Longrightarrow> inv a'"
    and set_read: "inv a \<Longrightarrow> set_tag a t v = (True, a') \<Longrightarrow>
           read a' t' = (if t' = t then Some v else read a t')"
    and set_refused: "inv a \<Longrightarrow> set_tag a t v = (False, a') \<Longrightarrow> a' = a"
    and delete_inv: "inv a \<Longrightarrow> delete_tag a t = (ok, a') \<Longrightarrow> inv a'"
    and delete_read: "inv a \<Longrightarrow> delete_tag a t = (ok, a') \<Longrightarrow>
           read a' t' = (if t' = t then None else read a t')"
    and delete_ok: "inv a \<Longrightarrow> delete_tag a t = (ok, a') \<Longrightarrow> ok \<longleftrightarrow> read a t \<noteq> None"
begin

text \<open>Writing a list of tag-value pairs one after the other: what the copy loop of Meta.Reload
  does with the in-memory tags.\<close>

lemma fold_set_inv:
  "inv a \<Longrightarrow> inv (foldl (\<lambda>a (t, v). snd (set_tag a t v)) a kvs)"
proof (induction kvs arbitrary: a)
  case Nil
  then show ?case by simp
next
  case (Cons kv kvs)
  obtain t v where kv: "kv = (t, v)" by (cases kv)
  have "inv (snd (set_tag a t v))"
    using Cons.prems set_inv [of a t v] by (metis prod.collapse)
  with Cons.IH kv show ?case by simp
qed

text \<open>A tag that is not written keeps its value.\<close>

lemma fold_set_other:
  "inv a \<Longrightarrow> t \<notin> fst ` set kvs \<Longrightarrow>
     read (foldl (\<lambda>a (t, v). snd (set_tag a t v)) a kvs) t = read a t"
proof (induction kvs arbitrary: a)
  case Nil
  then show ?case by simp
next
  case (Cons kv kvs)
  obtain t' v where kv: "kv = (t', v)" by (cases kv)
  obtain ok a' where set: "set_tag a t' v = (ok, a')" by (cases "set_tag a t' v")
  have "inv a'" using Cons.prems(1) set by (rule set_inv)
  moreover have "read a' t = read a t"
    using Cons.prems set kv set_read [OF Cons.prems(1), of t' v a' t] set_refused [OF Cons.prems(1), of t' v a']
    by (cases ok) auto
  ultimately show ?case using Cons.IH [of a'] Cons.prems(2) kv set by simp
qed

lemma set_then_delete:
  assumes "inv a" and "set_tag a t v = (True, a1)" and "delete_tag a1 t = (ok, a2)"
  shows "ok \<and> read a2 t = None \<and> (\<forall>t'. t' \<noteq> t \<longrightarrow> read a2 t' = read a t')"
proof -
  have "inv a1" using assms(1,2) by (rule set_inv)
  with assms show ?thesis
    using delete_read [OF _ assms(3)] delete_ok [OF _ assms(3)] set_read [OF assms(1,2)] by auto
qed

end

end
