(* ===== verification/AdvChubo.thy ===== *)
theory AdvChubo
  imports AdvInterface
begin

text \<open>
  The current META format, internal/pkg/meta/internal/adv/chubo/chubo.go. A block of Length bytes is
  magic1, then (tag, size, value) entries, then a SHA-256 of the block with the checksum field
  zeroed, then magic2; the block is written twice. The hash function comes from crypto/sha256 and is
  the parameter \<open>sha\<close>; all that is used of it is that it returns 32 bytes. The loop over the
  tag map takes the order of the visit as its argument.
\<close>

section \<open>Constants and state\<close>

definition Length :: nat where
  "Length = 256 * 1024"

definition DataLength :: nat where
  "DataLength = Length - 40"

definition Magic1 :: u32 where
  "Magic1 = 0x5a4b3c2d"

definition Magic2 :: u32 where
  "Magic2 = 0xa5b4c3d2"

datatype adv_error =
    BadMagic u32 u32
  | ChecksumMismatch bytes bytes
  | ValueBeyondEnd u32 u32
  | Overflow nat
  | ShortRead1
  | ShortRead2 adv_error

type_synonym tag_map = "(u8, bytes) gomap"

record adv =
  Tags :: tag_map

section \<open>Reading a block\<close>

text \<open>
  The loop of Unmarshal over the entries. The size is a uint32, so \<open>size + 8\<close> wraps around;
  when it does, the slice expression \<open>data[8:8+size]\<close> has its bounds in the wrong order and the
  code panics. The result is the error, if any, and the tags read so far (they stay in the ADV).
\<close>

function unmarshal_tags :: "bytes \<Rightarrow> tag_map \<Rightarrow> (adv_error option \<times> tag_map) outcome" where
  "unmarshal_tags data tags =
     (if length data < 8 then Ret (None, tags)
      else
        (let tag = get_be32 (sub_slice 0 4 data)
         in if tag = 0 then Ret (None, tags)
            else
              (let size = get_be32 (sub_slice 4 8 data)
               in if (of_nat (length data) :: u32) < size + 8
                  then Ret (Some (ValueBeyondEnd tag size), tags)
                  else if unat (8 + size) < 8 then Panic
                  else unmarshal_tags (drop (unat (8 + size)) data)
                         (gm_set tags (ucast tag) (sub_slice 8 (unat (8 + size)) data)))))"
  by pat_completeness auto
termination
  by (relation "measure (\<lambda>(data, tags). length data)") auto

declare unmarshal_tags.simps [simp del]

definition Unmarshal ::
    "(bytes \<Rightarrow> bytes) \<Rightarrow> tag_map \<Rightarrow> bytes \<Rightarrow> (adv_error option \<times> tag_map) outcome" where
  "Unmarshal sha tags buf =
     (let n = length buf;
          magic1 = get_be32 (sub_slice 0 4 buf)
      in if magic1 \<noteq> Magic1 then Ret (Some (BadMagic magic1 Magic1), tags)
         else
           (let magic2 = get_be32 (drop (n - 4) buf)
            in if magic2 \<noteq> Magic2 then Ret (Some (BadMagic magic2 Magic2), tags)
               else
                 (let checksum = sub_slice (n - 36) (n - 4) buf;
                      zeroed = put_at (n - 36) (replicate 32 0) buf;
                      actualChecksum = sha zeroed
                  in if checksum \<noteq> actualChecksum
                     then Ret (Some (ChecksumMismatch checksum actualChecksum), tags)
                     else unmarshal_tags (sub_slice 4 (n - 36) zeroed) tags)))"

text \<open>
  NewADV on a reader with the given bytes left (\<open>None\<close> is the nil reader): the ADV (nil as None)
  and the error. \<open>io.ReadFull\<close> fails when fewer than Length bytes are left. The second copy is
  decoded into the same map as the first.
\<close>

definition NewADV ::
    "(bytes \<Rightarrow> bytes) \<Rightarrow> bytes option \<Rightarrow> (adv option \<times> adv_error option) outcome" where
  "NewADV sha r =
     (case r of
        None \<Rightarrow> Ret (Some \<lparr>Tags = []\<rparr>, None)
      | Some input \<Rightarrow>
          if length input < Length then Ret (None, Some ShortRead1)
          else bind_outcome (Unmarshal sha [] (take Length input)) (\<lambda>(err, tags).
            case err of
              None \<Rightarrow> Ret (Some \<lparr>Tags = tags\<rparr>, None)
            | Some e \<Rightarrow>
                if length input < 2 * Length then Ret (None, Some (ShortRead2 e))
                else bind_outcome (Unmarshal sha tags (take Length (drop Length input)))
                  (\<lambda>(err2, tags2). Ret (Some \<lparr>Tags = tags2\<rparr>, err2))))"

section \<open>Writing a block\<close>

text \<open>
  The loop of Marshal: \<open>data\<close> of the code is \<open>buf[off : len(buf)-36]\<close>. The entry is written into
  the block, or the loop stops with an error when it does not fit.
\<close>

fun marshal_tags :: "tag_map \<Rightarrow> nat \<Rightarrow> bytes \<Rightarrow> adv_error + bytes" where
  "marshal_tags [] off buf = Inr buf"
| "marshal_tags ((tag, value) # rest) off buf =
     (let avail = length buf - 36 - off
      in if length value + 8 > avail then Inl (Overflow (length value + 8 - avail))
         else marshal_tags rest (off + 8 + length value)
                (put_at (off + 8) value
                  (put_at (off + 4) (put_be32 (of_nat (length value)))
                    (put_at off (put_be32 (ucast tag)) buf))))"

definition Marshal :: "(bytes \<Rightarrow> bytes) \<Rightarrow> tag_map \<Rightarrow> adv_error + bytes" where
  "Marshal sha it =
     (let buf = replicate Length 0;
          buf = put_at 0 (put_be32 Magic1) buf;
          buf = put_at (Length - 4) (put_be32 Magic2) buf
      in case marshal_tags it 4 buf of
           Inl e \<Rightarrow> Inl e
         | Inr buf \<Rightarrow> Inr (put_at (Length - 36) (sha buf) buf))"

definition Bytes :: "(bytes \<Rightarrow> bytes) \<Rightarrow> tag_map \<Rightarrow> adv_error + bytes" where
  "Bytes sha it = (case Marshal sha it of Inl e \<Rightarrow> Inl e | Inr m \<Rightarrow> Inr (m @ m))"

section \<open>The tag operations\<close>

definition ReadTagBytes :: "adv \<Rightarrow> u8 \<Rightarrow> bytes option" where
  "ReadTagBytes a t = gm_get (Tags a) t"

text \<open>ListTags returns the keys in the order of a visit of the map.\<close>

definition ListTags :: "tag_map \<Rightarrow> u8 list" where
  "ListTags it = map fst it"

definition SetTagBytes :: "adv \<Rightarrow> u8 \<Rightarrow> bytes \<Rightarrow> bool \<times> adv" where
  "SetTagBytes a t val =
     (let size = 20 + sum_list (map (\<lambda>(k, v). int (length v) + 8) (Tags a));
          oldVal = (case gm_get (Tags a) t of Some v \<Rightarrow> v | None \<Rightarrow> []);
          size = size + (int (length val) - int (length oldVal))
      in if size > int DataLength then (False, a)
         else (True, a\<lparr>Tags := gm_set (Tags a) t val\<rparr>))"

definition DeleteTag :: "adv \<Rightarrow> u8 \<Rightarrow> bool \<times> adv" where
  "DeleteTag a t = (gm_has (Tags a) t, a\<lparr>Tags := gm_del (Tags a) t\<rparr>)"

section \<open>Size of the encoded tags and the invariant\<close>

definition body_size :: "tag_map \<Rightarrow> nat" where
  "body_size m = sum_list (map (\<lambda>(k, v). length v + 8) m)"

definition adv_inv :: "adv \<Rightarrow> bool" where
  "adv_inv a \<longleftrightarrow> gm_wf (Tags a) \<and> body_size (Tags a) \<le> DataLength"

definition encode_tag :: "u8 \<times> bytes \<Rightarrow> bytes" where
  "encode_tag = (\<lambda>(t, v). put_be32 (ucast t) @ put_be32 (of_nat (length v)) @ v)"

definition encode_tags :: "tag_map \<Rightarrow> bytes" where
  "encode_tags it = concat (map encode_tag it)"

lemma Length_bounds: "100 \<le> Length" "Length < 4294967296" "DataLength + 40 = Length"
  by (simp_all add: Length_def DataLength_def)

lemma body_size_simps [simp]:
  "body_size [] = 0" "body_size ((t, v) # m) = length v + 8 + body_size m"
  by (simp_all add: body_size_def)

lemma length_encode_tags [simp]: "length (encode_tags it) = body_size it"
  by (induction it) (auto simp: encode_tags_def encode_tag_def body_size_def)

lemma encode_tags_simps [simp]:
  "encode_tags [] = []" "encode_tags (kv # it) = encode_tag kv @ encode_tags it"
  by (simp_all add: encode_tags_def)

lemma body_size_order: "range_order m it \<Longrightarrow> body_size it = body_size m"
  unfolding body_size_def by (rule range_order_sum)

lemma body_size_set: "body_size (gm_set m k v) \<le> body_size m + length v + 8"
  unfolding gm_set_def body_size_def by (induction m) auto

lemma body_size_set_absent:
  "gm_get m k = None \<Longrightarrow> body_size (gm_set m k v) = body_size m + length v + 8"
  using sum_update_absent [of m k "\<lambda>(k, v). length v + 8" v] by (simp add: body_size_def)

lemma body_size_set_present:
  "gm_wf m \<Longrightarrow> gm_get m k = Some old \<Longrightarrow>
     body_size (gm_set m k v) + length old = body_size m + length v"
  using sum_update_present [of m k old "\<lambda>(k, v). length v + 8" v] by (simp add: body_size_def)

lemma body_size_del: "body_size (gm_del m k) \<le> body_size m"
  unfolding gm_del_def body_size_def by (induction m) auto

lemma sum_int_body_size:
  "sum_list (map (\<lambda>(k, v). int (length v) + 8) m) = int (body_size m)"
  by (induction m) auto

lemma encode_entry_put:
  assumes "off + 8 + length v \<le> length buf"
  shows "put_at (off + 8) v (put_at (off + 4) (put_be32 (of_nat (length v)))
           (put_at off (put_be32 (ucast t)) buf)) = put_at off (encode_tag (t, v)) buf"
  using assms by (simp add: put_at_put_at encode_tag_def)

lemma marshal_tags_fits:
  "off + 36 \<le> length buf \<Longrightarrow> body_size it \<le> length buf - 36 - off \<Longrightarrow>
     marshal_tags it off buf = Inr (put_at off (encode_tags it) buf)"
proof (induction it off buf rule: marshal_tags.induct)
  case (1 off buf)
  then show ?case by simp
next
  case (2 tag val rest off buf)
  let ?b = "put_at off (encode_tag (tag, val)) buf"
  have fits: "off + 8 + length val + body_size rest + 36 \<le> length buf"
    using "2.prems" by simp
  then have b: "put_at (off + 8) val (put_at (off + 4) (put_be32 (of_nat (length val)))
      (put_at off (put_be32 (ucast tag)) buf)) = ?b"
    by (intro encode_entry_put) simp
  have len: "length (encode_tag (tag, val)) = 8 + length val" by (simp add: encode_tag_def)
  have "marshal_tags rest (off + 8 + length val) ?b =
      Inr (put_at (off + 8 + length val) (encode_tags rest) ?b)"
    using "2.IH" [OF refl _ ] fits len by (simp add: b length_put_at)
  also have "\<dots> = Inr (put_at off (encode_tags ((tag, val) # rest)) buf)"
    using fits len by (simp add: put_at_put_at)
  finally show ?case
    using fits by (simp add: b Let_def)
qed

lemma marshal_tags_overflow:
  "length buf - 36 - off < body_size it \<Longrightarrow> off + 36 \<le> length buf \<Longrightarrow>
     \<exists>n. marshal_tags it off buf = Inl (Overflow n)"
proof (induction it off buf rule: marshal_tags.induct)
  case (1 off buf)
  then show ?case by simp
next
  case (2 tag val rest off buf)
  show ?case
  proof (cases "length val + 8 > length buf - 36 - off")
    case True
    then show ?thesis by (simp add: Let_def)
  next
    case False
    then show ?thesis
      using "2.IH" [OF refl] "2.prems" by (simp add: Let_def length_put_at)
  qed
qed

lemma slice_prefix [slice_simps]: "n = length xs \<Longrightarrow> sub_slice 0 n (xs @ ys) = xs"
  by (simp add: sub_slice_def)

lemma slice_append_skip [slice_simps]:
  "length xs \<le> i \<Longrightarrow> sub_slice i j (xs @ ys) = sub_slice (i - length xs) (j - length xs) ys"
  by (simp add: sub_slice_def)

lemma gm_set_absent: "gm_get m k = None \<Longrightarrow> gm_set m k v = m @ [(k, v)]"
  unfolding gm_get_def gm_set_def by (induction m) (auto split: if_splits)

lemma gm_get_append: "gm_get (m @ n) k = (case gm_get m k of Some v \<Rightarrow> Some v | None \<Rightarrow> gm_get n k)"
  by (simp add: gm_get_def map_add_def split: option.splits)

lemma unmarshal_pad:
  "length pad < 8 \<or> get_be32 (sub_slice 0 4 pad) = 0 \<Longrightarrow> unmarshal_tags pad tags = Ret (None, tags)"
  by (subst unmarshal_tags.simps) (auto simp: Let_def)

lemma unmarshal_encode:
  assumes "body_size it + length pad < 4294967296"
    and "gm_wf (tags @ it)" and "gm_get it 0 = None"
    and "length pad < 8 \<or> get_be32 (sub_slice 0 4 pad) = 0"
  shows "unmarshal_tags (encode_tags it @ pad) tags = Ret (None, tags @ it)"
  using assms
proof (induction it arbitrary: tags)
  case Nil
  then show ?case by (simp add: unmarshal_pad)
next
  case (Cons kv it)
  obtain t v where kv: "kv = (t, v)" by (cases kv)
  let ?rest = "encode_tags it @ pad"
  let ?data = "put_be32 (ucast t) @ put_be32 (of_nat (length v)) @ v @ ?rest"
  have t0: "t \<noteq> 0" using Cons.prems(3) kv by (auto simp: gm_get_def split: if_splits)
  have small: "length v + 8 + body_size it + length pad < 4294967296"
    using Cons.prems(1) kv by simp
  then have size: "unat (8 + of_nat (length v) :: u32) = 8 + length v"
    by (simp add: unat_word_ariths unat_of_nat)
  have enough: "\<not> (of_nat (length ?data) :: u32) < of_nat (length v) + 8"
    using small by (simp add: word_less_nat_alt unat_word_ariths unat_of_nat)
  have long: "\<not> length ?data < 8" by simp
  have head: "sub_slice 0 4 ?data = put_be32 (ucast t)" "sub_slice 4 8 ?data = put_be32 (of_nat (length v))"
    "sub_slice 8 (8 + length v) ?data = v" "drop (8 + length v) ?data = ?rest"
    by (simp_all add: slice_simps) 
  have absent: "gm_get tags t = None"
    using Cons.prems(2) kv by (auto simp: gm_wf_def gm_get_def map_of_eq_None_iff)
  have "unmarshal_tags ?data tags = unmarshal_tags ?rest (tags @ [(t, v)])"
    using t0 enough long unfolding unmarshal_tags.simps [of ?data]
    by (simp only: Let_def head size gm_set_absent [OF absent] get_put_be32_nil if_False
        ucast_8_32_eq_0 ucast_8_32_inverse) simp
  also have "\<dots> = Ret (None, (tags @ [(t, v)]) @ it)"
    using Cons.prems kv by (intro Cons.IH) (auto simp: gm_get_def split: if_splits)
  finally show ?case using kv by (simp add: encode_tag_def)
qed

section \<open>The block: layout, checksum, round trip\<close>

definition raw_block :: "tag_map \<Rightarrow> bytes" where
  "raw_block it = put_at 4 (encode_tags it)
     (put_at (Length - 4) (put_be32 Magic2) (put_at 0 (put_be32 Magic1) (replicate Length 0)))"

lemma length_raw_block [simp]: "body_size it \<le> DataLength \<Longrightarrow> length (raw_block it) = Length"
  using Length_bounds by (simp add: raw_block_def slice_simps)

lemma Marshal_fits:
  "body_size it \<le> DataLength \<Longrightarrow>
     Marshal sha it = Inr (put_at (Length - 36) (sha (raw_block it)) (raw_block it))"
  using Length_bounds
  by (simp add: Marshal_def Let_def marshal_tags_fits slice_simps raw_block_def)

lemma Marshal_overflow:
  "DataLength < body_size it \<Longrightarrow> \<exists>n. Marshal sha it = Inl (Overflow n)"
  using Length_bounds marshal_tags_overflow [of "put_at (Length - 4) (put_be32 Magic2)
      (put_at 0 (put_be32 Magic1) (replicate Length 0))" 4 it]
  by (fastforce simp: Marshal_def Let_def slice_simps)

lemma Marshal_Inr_fits: "Marshal sha it = Inr buf \<Longrightarrow> body_size it \<le> DataLength"
  using Marshal_overflow [of it sha] by (cases "body_size it \<le> DataLength") auto

lemma raw_block_fields:
  assumes "body_size it \<le> DataLength"
  shows "sub_slice 0 4 (raw_block it) = put_be32 Magic1"
    and "drop (Length - 4) (raw_block it) = put_be32 Magic2"
    and "sub_slice (Length - 36) (Length - 4) (raw_block it) = replicate 32 0"
    and "sub_slice 4 (Length - 36) (raw_block it)
           = encode_tags it @ replicate (DataLength - body_size it) 0"
proof -
  have L: "Length = DataLength + 40" using Length_bounds by simp
  show "sub_slice 0 4 (raw_block it) = put_be32 Magic1"
    using assms by (simp add: raw_block_def L slice_simps)
  show "drop (Length - 4) (raw_block it) = put_be32 Magic2"
    using assms by (simp add: raw_block_def L drop_put_at length_put_at) (simp add: put_at_def)
  show "sub_slice (Length - 36) (Length - 4) (raw_block it) = replicate 32 0"
    using assms by (simp add: raw_block_def L slice_simps) (simp add: sub_slice_def)
  show "sub_slice 4 (Length - 36) (raw_block it)
      = encode_tags it @ replicate (DataLength - body_size it) 0"
    using assms by (simp add: raw_block_def L sub_slice_def put_at_def min_def)
qed

lemma get_be32_zeros: "get_be32 (sub_slice 0 4 (replicate n 0)) = 0"
proof (cases "4 \<le> n")
  case True
  then have "sub_slice 0 4 (replicate n (0 :: u8)) = [0, 0, 0, 0]"
    by (simp add: sub_slice_def min_absorb1 numeral_eq_Suc)
  then show ?thesis by simp
next
  case False
  then have "n = 0 \<or> n = 1 \<or> n = 2 \<or> n = 3" by auto
  then show ?thesis by (auto simp: sub_slice_def numeral_eq_Suc)
qed

lemma put_at_twice:
  "length x = length y \<Longrightarrow> i + length y \<le> length b \<Longrightarrow> put_at i x (put_at i y b) = put_at i x b"
  by (simp add: put_at_def)

lemma put_at_same: "i + length x \<le> length b \<Longrightarrow> sub_slice i (i + length x) b = x \<Longrightarrow> put_at i x b = b"
  by (simp add: put_at_def sub_slice_def) (metis append_take_drop_id drop_drop add.commute)

text \<open>Decoding what Marshal wrote decodes the encoded tags.\<close>

lemma Unmarshal_written:
  assumes sha: "\<And>b. length (sha b) = 32" and fits: "body_size it \<le> DataLength"
  shows "Unmarshal sha [] (put_at (Length - 36) (sha (raw_block it)) (raw_block it)) =
    unmarshal_tags (encode_tags it @ replicate (DataLength - body_size it) 0) []"
proof -
  let ?raw = "raw_block it" and ?sum = "sha (raw_block it)"
  let ?buf = "put_at (Length - 36) ?sum ?raw"
  note raw = raw_block_fields [OF fits]
  have len: "length ?raw = Length" "length ?buf = Length"
    using fits sha Length_bounds by (simp_all add: length_put_at)
  have m1: "sub_slice 0 4 ?buf = put_be32 Magic1"
    using raw(1) sha len Length_bounds by (simp add: sub_slice_put_at_before)
  have m2: "drop (Length - 4) ?buf = put_be32 Magic2"
    using raw(2) sha len Length_bounds by (simp add: drop_put_at)
  have sum: "sub_slice (Length - 36) (Length - 4) ?buf = ?sum"
    using sha len Length_bounds by (simp add: sub_slice_put_at_same)
  have zeroed: "put_at (Length - 36) (replicate 32 0) ?buf = ?raw"
  proof -
    have "put_at (Length - 36) (replicate 32 0) ?buf = put_at (Length - 36) (replicate 32 0) ?raw"
      using sha len Length_bounds by (intro put_at_twice) simp_all
    also have "\<dots> = ?raw"
      using raw(3) len Length_bounds by (intro put_at_same) simp_all
    finally show ?thesis .
  qed
  have "Unmarshal sha [] ?buf = unmarshal_tags (sub_slice 4 (Length - 36) ?raw) []"
    by (simp add: Unmarshal_def len m1 m2 sum zeroed)
  then show ?thesis unfolding raw(4) .
qed

text \<open>It returns the tags in the order they were written, when none of them is the end tag.\<close>

lemma Unmarshal_block:
  assumes "\<And>b. length (sha b) = 32"
    and fits: "body_size it \<le> DataLength" and wf: "gm_wf it" and zero: "gm_get it 0 = None"
  shows "Unmarshal sha [] (put_at (Length - 36) (sha (raw_block it)) (raw_block it)) = Ret (None, it)"
proof -
  have "unmarshal_tags (encode_tags it @ replicate (DataLength - body_size it) 0) [] = Ret (None, [] @ it)"
    using wf zero fits Length_bounds by (intro unmarshal_encode) (simp_all add: get_be32_zeros)
  then show ?thesis using Unmarshal_written [of sha it] assms(1) fits by simp
qed

section \<open>The operations keep the invariant\<close>

lemma adv_inv_empty: "adv_inv \<lparr>Tags = []\<rparr>"
  by (simp add: adv_inv_def gomap_simps)

lemma SetTagBytes_cases:
  assumes "SetTagBytes a t v = (ok, a')"
  shows "(ok \<and> a' = a\<lparr>Tags := gm_set (Tags a) t v\<rparr> \<and>
            20 + body_size (Tags a) + length v
              \<le> DataLength + length (case gm_get (Tags a) t of Some v \<Rightarrow> v | None \<Rightarrow> []))
       \<or> (\<not> ok \<and> a' = a \<and>
            DataLength + length (case gm_get (Tags a) t of Some v \<Rightarrow> v | None \<Rightarrow> [])
              < 20 + body_size (Tags a) + length v)"
  using assms by (auto simp: SetTagBytes_def Let_def sum_int_body_size split: if_splits)

lemma adv_inv_set:
  assumes inv: "adv_inv a" and set: "SetTagBytes a t v = (ok, a')"
  shows "adv_inv a'"
proof (cases ok)
  case True
  with SetTagBytes_cases [OF set]
  have a': "a' = a\<lparr>Tags := gm_set (Tags a) t v\<rparr>"
    and size: "20 + body_size (Tags a) + length v
      \<le> DataLength + length (case gm_get (Tags a) t of Some v \<Rightarrow> v | None \<Rightarrow> [])" by auto
  have "body_size (gm_set (Tags a) t v) \<le> DataLength"
  proof (cases "gm_get (Tags a) t")
    case None
    with size show ?thesis by (simp add: body_size_set_absent)
  next
    case (Some old)
    with size inv body_size_set_present [of "Tags a" t old v] show ?thesis
      by (simp add: adv_inv_def)
  qed
  with inv a' show ?thesis by (simp add: adv_inv_def gomap_simps)
next
  case False
  with SetTagBytes_cases [OF set] inv show ?thesis by auto
qed

lemma adv_inv_delete: "adv_inv a \<Longrightarrow> DeleteTag a t = (ok, a') \<Longrightarrow> adv_inv a'"
  using body_size_del [of "Tags a" t]
  by (auto simp: adv_inv_def DeleteTag_def gomap_simps intro: order_trans)

lemma SetTagBytes_read:
  "SetTagBytes a t v = (True, a') \<Longrightarrow>
     ReadTagBytes a' t' = (if t' = t then Some v else ReadTagBytes a t')"
  by (drule SetTagBytes_cases) (simp add: ReadTagBytes_def gomap_simps)

interpretation chubo: adv_store adv_inv ReadTagBytes "\<lambda>a. ListTags (Tags a)" SetTagBytes DeleteTag
proof unfold_locales
  fix a a' :: adv and t t' :: u8 and v :: bytes and ok
  show "t \<in> set (ListTags (Tags a)) \<longleftrightarrow> ReadTagBytes a t \<noteq> None"
    using gm_keys_get [of t "Tags a"] by (simp add: ListTags_def ReadTagBytes_def gm_keys_def)
  show "adv_inv a \<Longrightarrow> SetTagBytes a t v = (ok, a') \<Longrightarrow> adv_inv a'"
    by (rule adv_inv_set)
  show "SetTagBytes a t v = (True, a') \<Longrightarrow>
      ReadTagBytes a' t' = (if t' = t then Some v else ReadTagBytes a t')"
    by (rule SetTagBytes_read)
  show "SetTagBytes a t v = (False, a') \<Longrightarrow> a' = a"
    by (drule SetTagBytes_cases) simp
  show "adv_inv a \<Longrightarrow> DeleteTag a t = (ok, a') \<Longrightarrow> adv_inv a'"
    by (rule adv_inv_delete)
  show "DeleteTag a t = (ok, a') \<Longrightarrow>
      ReadTagBytes a' t' = (if t' = t then None else ReadTagBytes a t')"
    by (auto simp: DeleteTag_def ReadTagBytes_def gomap_simps)
  show "DeleteTag a t = (ok, a') \<Longrightarrow> ok \<longleftrightarrow> ReadTagBytes a t \<noteq> None"
    by (auto simp: DeleteTag_def ReadTagBytes_def gm_has_get)
qed

text \<open>What a block can hold is bounded, so the tags of a decoded block satisfy the invariant.\<close>

lemma unmarshal_tags_inv:
  "unmarshal_tags data tags = Ret (e, tags') \<Longrightarrow> gm_wf tags \<Longrightarrow> length data < 4294967296 \<Longrightarrow>
     gm_wf tags' \<and> body_size tags' \<le> body_size tags + length data"
proof (induction data tags arbitrary: e tags' rule: unmarshal_tags.induct)
  case (1 data tags)
  let ?tag = "get_be32 (sub_slice 0 4 data)" and ?size = "get_be32 (sub_slice 4 8 data)"
  let ?stop = "unat (8 + ?size)"
  let ?next = "gm_set tags (ucast ?tag) (sub_slice 8 ?stop data)"
  show ?case
  proof (cases "length data < 8 \<or> ?tag = 0 \<or> (of_nat (length data) :: u32) < ?size + 8")
    case True
    with "1.prems" show ?thesis by (auto simp: unmarshal_tags.simps [of data tags] Let_def split: if_splits)
  next
    case False
    with "1.prems"(1) have pos: "8 \<le> ?stop"
      and rec: "unmarshal_tags (drop ?stop data) ?next = Ret (e, tags')"
      by (auto simp: unmarshal_tags.simps [of data tags] Let_def not_less split: if_splits)
    have le: "?stop \<le> length data"
    proof -
      have "8 + ?size \<le> (of_nat (length data) :: u32)" using False by (simp add: add.commute not_less)
      then show ?thesis using "1.prems"(3) by (simp add: word_le_nat_alt)
    qed
    have "gm_wf tags' \<and> body_size tags' \<le> body_size ?next + length (drop ?stop data)"
      using False pos "1.prems"(2,3) by (intro "1.IH" [OF _ refl _ refl _ _ rec]) (auto simp: gomap_simps)
    moreover have "body_size ?next \<le> body_size tags + (?stop - 8) + 8"
      using body_size_set [of tags "ucast ?tag" "sub_slice 8 ?stop data"] le
      by (simp add: length_sub_slice)
    moreover have "length (drop ?stop data) + ?stop = length data" using le by simp
    ultimately show ?thesis using pos by linarith
  qed
qed

lemma Unmarshal_inv:
  assumes "Unmarshal sha tags buf = Ret (e, tags')" and "gm_wf tags" and "length buf = Length"
  shows "gm_wf tags' \<and> body_size tags' \<le> body_size tags + DataLength"
proof -
  let ?data = "sub_slice 4 (Length - 36) (put_at (Length - 36) (replicate 32 0) buf)"
  have len: "length ?data = DataLength" "DataLength < 4294967296"
    using Length_bounds assms(3) by (simp_all add: length_sub_slice length_put_at)
  have "gm_wf tags' \<and> body_size tags' \<le> body_size tags + length ?data"
    if "unmarshal_tags ?data tags = Ret (e, tags')"
    using that assms(2) by (rule unmarshal_tags_inv) (simp add: len)
  with assms len show ?thesis
    by (auto simp: Unmarshal_def Let_def simp del: length_sub_slice split: if_splits)
qed

lemma unat_less_bound: "unat (w :: u32) < 4294967296"
  using unsigned_less [of w] by simp

section \<open>Properties\<close>

text \<open>What Marshal writes, Unmarshal reads back: for every order in which the range loop may
  visit the tags, decoding the block gives a map with exactly the stored values, provided that no
  tag is adv.End (0), which the format uses as the terminator.\<close>

theorem marshal_roundtrip:
  assumes "\<forall>b. length (sha b) = 32" and "gm_wf (Tags a)" and "gm_get (Tags a) 0 = None"
    and "range_order (Tags a) it" and "Marshal sha it = Inr buf"
  shows "\<exists>tags'. Unmarshal sha [] buf = Ret (None, tags') \<and> gm_wf tags' \<and>
           (\<forall>t. gm_get tags' t = ReadTagBytes a t)"
proof -
  have fits: "body_size it \<le> DataLength" using assms(5) by (rule Marshal_Inr_fits)
  have wf: "gm_wf it" using assms(4,2) by (rule range_order_wf)
  have get: "gm_get it t = gm_get (Tags a) t" for t using assms(4,2) by (rule range_order_get)
  have "Unmarshal sha [] buf = Ret (None, it)"
    using Unmarshal_block [OF _ fits wf, of sha] assms(1,3,5) get Marshal_fits [OF fits, of sha] by simp
  with wf get show ?thesis by (simp add: ReadTagBytes_def)
qed

text \<open>A value accepted by SetTagBytes can always be saved: from an ADV that fits its block,
  setting a tag gives an ADV that fits, whose Marshal returns a block of Length bytes in every
  visiting order. The size check of SetTagBytes is strong enough for the overflow check of Marshal.\<close>

theorem set_tag_always_marshals:
  assumes "adv_inv a" and "SetTagBytes a t v = (ok, a')" and "range_order (Tags a') it"
    and "\<forall>b. length (sha b) = 32"
  shows "adv_inv a' \<and> (\<exists>buf. Marshal sha it = Inr buf \<and> length buf = Length)"
proof -
  have inv: "adv_inv a'" using assms(1,2) by (rule chubo.set_inv)
  then have fits: "body_size it \<le> DataLength"
    using body_size_order [OF assms(3)] by (simp add: adv_inv_def)
  with inv assms(4) show ?thesis
    using Length_bounds by (simp add: Marshal_fits length_put_at)
qed

text \<open>The redundancy of the two copies: when the first block of the partition is damaged so
  that its magic or its checksum does not match, NewADV still returns the tags of the second
  copy.\<close>

theorem second_copy_recovers:
  assumes "\<forall>b. length (sha b) = 32" and "gm_wf (Tags a)" and "gm_get (Tags a) 0 = None"
    and "range_order (Tags a) it" and "Marshal sha it = Inr buf"
    and "length bad = Length" and "Unmarshal sha [] bad = Ret (Some e, [])"
  shows "\<exists>a'. NewADV sha (Some (bad @ buf)) = Ret (Some a', None) \<and>
           (\<forall>t. ReadTagBytes a' t = ReadTagBytes a t)"
proof -
  have fits: "body_size it \<le> DataLength" using assms(5) by (rule Marshal_Inr_fits)
  have wf: "gm_wf it" using assms(4,2) by (rule range_order_wf)
  have get: "gm_get it t = gm_get (Tags a) t" for t using assms(4,2) by (rule range_order_get)
  have dec: "Unmarshal sha [] buf = Ret (None, it)"
    using Unmarshal_block [OF _ fits wf, of sha] assms(1,3,5) get Marshal_fits [OF fits, of sha] by simp
  have len: "length buf = Length"
    using assms(1,5) fits Length_bounds by (auto simp: Marshal_fits length_put_at)
  have "NewADV sha (Some (bad @ buf)) = Ret (Some \<lparr>Tags = it\<rparr>, None)"
    using assms(6,7) len dec by (simp add: NewADV_def)
  with get show ?thesis by (simp add: ReadTagBytes_def)
qed

text \<open>The bounds check of Unmarshal is done in uint32 arithmetic and wraps around: an entry
  whose size field is at least 0xfffffff8 passes the check and panics in the slice expression,
  whatever the rest of the block holds.\<close>

theorem unmarshal_size_wraps:
  assumes "tag \<noteq> 0" and "0xfffffff8 \<le> (sz :: u32)" and "length rest < 4294967000"
  shows "unmarshal_tags (put_be32 tag @ put_be32 sz @ rest) tags = Panic"
proof -
  let ?data = "put_be32 tag @ put_be32 sz @ rest"
  have f: "sub_slice 0 4 ?data = put_be32 tag" "sub_slice 4 8 ?data = put_be32 sz"
    "\<not> length ?data < 8" by (simp_all add: slice_simps)
  have big: "4294967288 \<le> unat sz" using assms(2) by (simp add: word_le_nat_alt)
  have wrap: "unat (8 + sz) = unat sz - 4294967288"
    using big unat_less_bound [of sz] by (simp add: unat_word_ariths mod_if)
  then have lt: "unat (8 + sz) < 8" using unat_less_bound [of sz] by simp
  moreover have "\<not> (of_nat (length ?data) :: u32) < sz + 8"
  proof -
    have "length ?data = 8 + length rest" by simp
    moreover have "unat (of_nat (8 + length rest) :: u32) = 8 + length rest"
      using assms(3) by (intro unat_of_nat_32) simp
    ultimately show ?thesis using lt by (simp only: word_less_nat_alt add.commute [of sz])
  qed
  ultimately show ?thesis
    using assms(1) by (simp only: unmarshal_tags.simps [of ?data] f get_put_be32_nil Let_def if_False if_True)
qed

text \<open>Witnesses. A hash of 32 zero bytes stands for SHA-256.\<close>

lemma small_adv_fits: "body_size [(6, [65, 66])] \<le> DataLength"
  using Length_bounds by simp

theorem marshal_roundtrip_witness:
  "\<exists>buf tags'. Marshal (\<lambda>_. replicate 32 0) [(6, [65, 66])] = Inr buf \<and>
     Unmarshal (\<lambda>_. replicate 32 0) [] buf = Ret (None, tags') \<and> gm_get tags' 6 = Some [65, 66]"
proof -
  let ?sha = "\<lambda>_ :: bytes. replicate 32 (0 :: u8)" and ?a = "\<lparr>Tags = [(6 :: u8, [65 :: u8, 66])]\<rparr>"
  obtain buf where m: "Marshal ?sha [(6, [65, 66])] = Inr buf"
    using Marshal_fits [OF small_adv_fits] by blast
  from marshal_roundtrip [of ?sha ?a "[(6, [65, 66])]" buf] m
  show ?thesis by (auto simp: gm_wf_def gm_get_def ReadTagBytes_def)
qed

theorem set_tag_always_marshals_witness:
  "\<exists>buf. Marshal (\<lambda>_. replicate 32 0) (Tags (snd (SetTagBytes \<lparr>Tags = []\<rparr> 6 [65]))) = Inr buf \<and>
     length buf = Length"
proof -
  obtain ok a' where s: "SetTagBytes \<lparr>Tags = []\<rparr> 6 [65] = (ok, a')"
    by (cases "SetTagBytes \<lparr>Tags = []\<rparr> 6 [65]")
  from set_tag_always_marshals [OF adv_inv_empty s, of "Tags a'" "\<lambda>_. replicate 32 0"]
  show ?thesis by (simp add: s)
qed

theorem second_copy_recovers_witness:
  "\<exists>buf a'. NewADV (\<lambda>_. replicate 32 0) (Some (replicate Length 0 @ buf)) = Ret (Some a', None) \<and>
     ReadTagBytes a' 6 = Some [65, 66]"
proof -
  let ?sha = "\<lambda>_ :: bytes. replicate 32 (0 :: u8)" and ?a = "\<lparr>Tags = [(6 :: u8, [65 :: u8, 66])]\<rparr>"
  obtain buf where m: "Marshal ?sha [(6, [65, 66])] = Inr buf"
    using Marshal_fits [OF small_adv_fits] by blast
  have bad: "Unmarshal ?sha [] (replicate Length 0) = Ret (Some (BadMagic 0 Magic1), [])"
    by (simp add: Unmarshal_def get_be32_zeros Magic1_def)
  from second_copy_recovers [of ?sha ?a "[(6, [65, 66])]" buf "replicate Length 0" "BadMagic 0 Magic1"] m bad
  obtain a' where "NewADV ?sha (Some (replicate Length 0 @ buf)) = Ret (Some a', None)"
    and "\<forall>t. ReadTagBytes a' t = ReadTagBytes ?a t"
    by (auto simp: gm_wf_def gm_get_def)
  moreover from this(2) have "ReadTagBytes a' 6 = Some [65, 66]" by (simp add: ReadTagBytes_def gm_get_def)
  ultimately show ?thesis by blast
qed

theorem unmarshal_size_wraps_witness:
  "unmarshal_tags (put_be32 6 @ put_be32 0xffffffff @ [1, 2, 3]) [] = Panic"
  using unmarshal_size_wraps [of 6 "0xffffffff" "[1, 2, 3]" "[]"] by simp

end
