(* ===== verification/AdvSyslinux.thy ===== *)
theory AdvSyslinux
  imports AdvInterface
begin

text \<open>
  The legacy META format, internal/pkg/meta/internal/adv/syslinux/syslinux.go: two copies of a
  512-byte block with a head magic, a checksum, a chain of (tag, size, value) entries from byte 8 and
  a tail magic. An ADV is the byte slice of both copies, 1024 bytes; the loops index into it. The
  writing operations work on the slice in place, so they return the new slice; DeleteTag can panic
  in a slice expression, which the model keeps as an outcome.
\<close>

section \<open>Constants and the read loops\<close>

definition AdvSize :: nat where
  "AdvSize = 512"

definition AdvMagic1 :: u32 where
  "AdvMagic1 = 0x5a2d2fa5"

definition AdvMagic2 :: u32 where
  "AdvMagic2 = 0xa3041767"

definition AdvMagic3 :: u32 where
  "AdvMagic3 = 0xdd28bf64"

text \<open>The loops run while \<open>i < AdvSize - 4 - 2\<close>.\<close>

definition chain_end :: nat where
  "chain_end = AdvSize - 4 - 2"

lemma AdvSize_simps [simp]: "AdvSize = 512" "chain_end = 506"
  by (simp_all add: AdvSize_def chain_end_def)

text \<open>NewADV on a reader of a whole device (None for the nil reader): the last two blocks.\<close>

definition NewADV_legacy :: "bytes option \<Rightarrow> bytes option" where
  "NewADV_legacy r =
     (case r of
        None \<Rightarrow> Some (replicate (2 * AdvSize) 0)
      | Some input \<Rightarrow>
          if length input < 2 * AdvSize then None
          else Some (drop (length input - 2 * AdvSize) input))"

function read_loop :: "bytes \<Rightarrow> u8 \<Rightarrow> nat \<Rightarrow> bytes option" where
  "read_loop a t i =
     (if i < chain_end then
        (let tag = a ! i; size = unat (a ! (i + 1))
         in if tag = 0 then None
            else if tag \<noteq> t then read_loop a t (i + 2 + size)
            else Some (sub_slice (i + 2) (size + i + 2) a))
      else None)"
  by pat_completeness auto
termination
  by (relation "measure (\<lambda>(a, t, i). chain_end - i)") auto

function list_loop :: "bytes \<Rightarrow> nat \<Rightarrow> u8 list" where
  "list_loop a i =
     (if i < chain_end then
        (let tag = a ! i; size = unat (a ! (i + 1))
         in if tag = 0 then [] else tag # list_loop a (i + 2 + size))
      else [])"
  by pat_completeness auto
termination
  by (relation "measure (\<lambda>(a, i). chain_end - i)") auto

declare read_loop.simps [simp del] list_loop.simps [simp del]

definition ReadTagBytes_legacy :: "bytes \<Rightarrow> u8 \<Rightarrow> bytes option" where
  "ReadTagBytes_legacy a t = read_loop a t 8"

definition ListTags_legacy :: "bytes \<Rightarrow> u8 list" where
  "ListTags_legacy a = list_loop a 8"

section \<open>cleanup: magics, checksum and the second copy\<close>

definition head :: "bytes \<Rightarrow> bytes" where
  "head a = put_at 0 (put_le32 AdvMagic1) a"

text \<open>The sum of the 32-bit words from byte 8 up to the tail, subtracted from AdvMagic2.\<close>

function csum_loop :: "bytes \<Rightarrow> nat \<Rightarrow> u32 \<Rightarrow> u32" where
  "csum_loop a i csum =
     (if i < AdvSize - 4 then csum_loop a (i + 4) (csum - get_le32 (sub_slice i (i + 4) a)) else csum)"
  by pat_completeness auto
termination
  by (relation "measure (\<lambda>(a, i, c). AdvSize - i)") auto

declare csum_loop.simps [simp del]

definition total :: "bytes \<Rightarrow> bytes" where
  "total a = put_at 4 (put_le32 (csum_loop a 8 AdvMagic2)) a"

definition tail :: "bytes \<Rightarrow> bytes" where
  "tail a = put_at (AdvSize - 4) (put_le32 AdvMagic3) a"

definition cleanup :: "bytes \<Rightarrow> bytes" where
  "cleanup a = (let a = tail (total (head a)) in copy_at AdvSize (take AdvSize a) a)"

section \<open>DeleteTag and SetTagBytes\<close>

text \<open>
  \<open>end := a[AdvSize-4]\<close> reads a byte of the slice, where an index is meant: the code takes the
  value stored in the tail magic as the end of the data. The zeroing loop runs from \<open>i\<close> while
  \<open>j < length\<close>, with \<open>length\<close> a count and not a position.
\<close>

definition zero_range :: "nat \<Rightarrow> nat \<Rightarrow> bytes \<Rightarrow> bytes" where
  "zero_range i len a = (if i < len then put_at i (replicate (len - i) 0) a else a)"

function delete_loop :: "bytes \<Rightarrow> u8 \<Rightarrow> nat \<Rightarrow> (bool \<times> bytes) outcome" where
  "delete_loop a t i =
     (if i < chain_end then
        (let tag = a ! i; size = unat (a ! (i + 1))
         in if tag = 0 then Ret (False, a)
            else if tag \<noteq> t then delete_loop a t (i + 2 + size)
            else
              (let start = i + 2 + size;
                   stop = unat (a ! (AdvSize - 4))
               in if stop < start then Panic
                  else
                    (let data = sub_slice start stop a;
                         len = 2 + length data
                     in Ret (True, copy_at i data (zero_range i len a)))))
      else Ret (False, a))"
  by pat_completeness auto
termination
  by (relation "measure (\<lambda>(a, t, i). chain_end - i)") auto

declare delete_loop.simps [simp del]

definition DeleteTag_legacy :: "bytes \<Rightarrow> u8 \<Rightarrow> (bool \<times> bytes) outcome" where
  "DeleteTag_legacy a t =
     bind_outcome (delete_loop a t 8) (\<lambda>(ok, a'). Ret (ok, if ok then cleanup a' else a'))"

function set_loop :: "bytes \<Rightarrow> u8 \<Rightarrow> bytes \<Rightarrow> nat \<Rightarrow> bool \<times> bytes" where
  "set_loop a t val i =
     (if i < chain_end then
        (let tag = a ! i; size = unat (a ! (i + 1))
         in if tag \<noteq> 0 then set_loop a t val (i + 2 + size)
            else if i + 2 + length val > AdvSize - 4 - 2 then (False, a)
            else (True, put_at (i + 2) val (put_at i [t, of_nat (length val)] a)))
      else (False, a))"
  by pat_completeness auto
termination
  by (relation "measure (\<lambda>(a, t, val, i). chain_end - i)") auto

declare set_loop.simps [simp del]

definition SetTagBytes_legacy :: "bytes \<Rightarrow> u8 \<Rightarrow> bytes \<Rightarrow> (bool \<times> bytes) outcome" where
  "SetTagBytes_legacy a t val =
     (if length val > 255 then Ret (False, a)
      else bind_outcome (DeleteTag_legacy a t) (\<lambda>(_, a1).
        (case set_loop a1 t val 8 of
           (ok, a2) \<Rightarrow> Ret (ok, if ok then cleanup a2 else a2))))"

section \<open>Lemmas on the chain\<close>

lemma list_read_iff: "t \<in> set (list_loop a i) \<longleftrightarrow> read_loop a t i \<noteq> None"
proof (induction a i rule: list_loop.induct)
  case (1 a i)
  show ?case
    using "1.IH" by (subst list_loop.simps, subst read_loop.simps) (auto simp: Let_def)
qed

interpretation syslinux: adv_reader "\<lambda>a. length a = 2 * AdvSize" ReadTagBytes_legacy ListTags_legacy
  by unfold_locales (simp add: list_read_iff ReadTagBytes_legacy_def ListTags_legacy_def)

text \<open>A well-formed chain: every entry ends before the end of the chain area, and the area after the
  last entry is zero.\<close>

function chain_ok :: "bytes \<Rightarrow> nat \<Rightarrow> bool" where
  "chain_ok a i =
     (if i < chain_end then
        (if a ! i = 0 then (\<forall>k \<in> {i..<chain_end}. a ! k = 0)
         else i + 2 + unat (a ! (i + 1)) \<le> chain_end \<and> chain_ok a (i + 2 + unat (a ! (i + 1))))
      else True)"
  by pat_completeness auto
termination
  by (relation "measure (\<lambda>(a, i). chain_end - i)") auto

declare chain_ok.simps [simp del]

definition sys_wf :: "bytes \<Rightarrow> bool" where
  "sys_wf a \<longleftrightarrow> length a = 2 * AdvSize \<and> chain_ok a 8"

text \<open>The chain is determined by the bytes of the chain area.\<close>

lemma sub_slice_cong:
  "length a = length b \<Longrightarrow> (\<And>k. i \<le> k \<Longrightarrow> k < j \<Longrightarrow> a ! k = b ! k) \<Longrightarrow> sub_slice i j a = sub_slice i j b"
  by (rule nth_equalityI) (auto simp: sub_slice_def)

lemma chain_cong:
  assumes "length a = length b" and "\<And>k. i \<le> k \<Longrightarrow> k < chain_end \<Longrightarrow> a ! k = b ! k" and "chain_ok a i"
  shows "chain_ok b i \<and> read_loop b t i = read_loop a t i"
  using assms
proof (induction a i rule: chain_ok.induct)
  case (1 a i)
  show ?case
  proof (cases "i < chain_end \<and> a ! i \<noteq> 0")
    case False
    show ?thesis
    proof (cases "i < chain_end")
      case outside: False
      then show ?thesis
        by (simp add: chain_ok.simps [of b i] read_loop.simps [of b t i] read_loop.simps [of a t i])
    next
      case inside: True
      with False have zero: "a ! i = 0" by simp
      moreover have "b ! k = 0" if "i \<le> k" "k < chain_end" for k
        using that inside zero "1.prems"(2,3) by (simp add: chain_ok.simps [of a i])
      ultimately show ?thesis
        using inside by (simp add: chain_ok.simps [of b i] read_loop.simps [of b t i] read_loop.simps [of a t i])
    qed
  next
    case True
    let ?n = "i + 2 + unat (a ! (i + 1))"
    have n: "?n \<le> chain_end" "chain_ok a ?n" using True "1.prems"(3) by (simp_all add: chain_ok.simps [of a i])
    have same: "b ! i = a ! i" "b ! (i + 1) = a ! (i + 1)" using True n "1.prems"(2) by simp_all
    have eq: "b ! k = a ! k" if "i \<le> k" "k < ?n" for k
      using that n(1) "1.prems"(2) [of k] by simp
    have "chain_ok b ?n \<and> read_loop b t ?n = read_loop a t ?n"
      using True n "1.prems" by (intro "1.IH") auto
    moreover have "sub_slice (i + 2) ?n b = sub_slice (i + 2) ?n a"
      using eq "1.prems"(1) by (intro sub_slice_cong) simp_all
    ultimately show ?thesis
      using True n(1) same
      by (simp add: chain_ok.simps [of b i] read_loop.simps [of b t i] read_loop.simps [of a t i] Let_def
          add.commute add.left_commute)
  qed
qed

lemma zero_chain: "(\<And>k. i \<le> k \<Longrightarrow> k < chain_end \<Longrightarrow> a ! k = 0) \<Longrightarrow> chain_ok a i \<and> read_loop a t i = None"
  by (subst chain_ok.simps, subst read_loop.simps) auto

text \<open>Writing a new tag: the first free entry takes it, the entries before it stay.\<close>

lemma set_loop_spec:
  assumes "set_loop a t v i = (ok, a')" and "chain_ok a i" and "read_loop a t i = None"
    and "length a = 1024" and "t \<noteq> 0" and "length v \<le> 255"
  shows "(\<not> ok \<longrightarrow> a' = a) \<and>
    (ok \<longrightarrow> length a' = 1024 \<and> chain_ok a' i \<and> (\<forall>k < i. a' ! k = a ! k) \<and>
       (\<forall>k. chain_end \<le> k \<longrightarrow> k < 1024 \<longrightarrow> a' ! k = a ! k) \<and>
       (\<forall>t'. read_loop a' t' i = (if t' = t then Some v else read_loop a t' i)))"
  using assms
proof (induction a t v i arbitrary: ok a' rule: set_loop.induct)
  case (1 a t v i)
  show ?case
  proof (cases "i < chain_end")
    case False
    with "1.prems"(1) show ?thesis by (simp add: set_loop.simps [of a t v i])
  next
    case inside: True
    let ?n = "i + 2 + unat (a ! (i + 1))"
    show ?thesis
    proof (cases "a ! i = 0")
      case True
      then have zero: "\<And>k. i \<le> k \<Longrightarrow> k < chain_end \<Longrightarrow> a ! k = 0"
        using "1.prems"(2) inside by (simp add: chain_ok.simps [of a i])
      show ?thesis
      proof (cases "i + 2 + length v > 506")
        case True
        with inside zero "1.prems"(1) show ?thesis by (auto simp: set_loop.simps [of a t v i])
      next
        case False
        obtain b where b_def: "b = put_at (i + 2) v (put_at i [t, of_nat (length v)] a)" by simp
        have b: "ok" "a' = b" using inside True False "1.prems"(1) by (auto simp: set_loop.simps [of a t v i] b_def)
        have len: "length (put_at i [t, of_nat (length v)] a) = 1024" "length b = 1024"
          unfolding b_def using False "1.prems"(4) by (simp_all add: length_put_at)
        have whole: "b = put_at i ([t, of_nat (length v)] @ v) a"
          unfolding b_def using False "1.prems"(4) by (intro put_at_put_at) simp_all
        have at: "b ! i = t" "b ! (i + 1) = of_nat (length v)"
          unfolding whole using False "1.prems"(4) by (simp_all add: nth_put_at_in)
        have val: "sub_slice (i + 2) (i + 2 + length v) b = v"
          unfolding b_def using False len "1.prems"(4) by (intro sub_slice_put_at_same) simp_all
        have out: "b ! k = a ! k" if "k < i \<or> i + 2 + length v \<le> k" for k
          unfolding whole using that False "1.prems"(4)
          by (auto simp: nth_put_at_before nth_put_at_after)
        have rest: "chain_ok b (i + 2 + length v)" "\<And>t'. read_loop b t' (i + 2 + length v) = None"
          using zero_chain [of "i + 2 + length v" b] out zero by auto
        have small: "unat (of_nat (length v) :: u8) = length v"
          using "1.prems"(6) by (simp add: unat_of_nat)
        have "chain_ok b i"
          using inside at rest False "1.prems"(5) small by (simp add: chain_ok.simps [of b i])
        moreover have "read_loop b t' i = (if t' = t then Some v else read_loop a t' i)" for t'
          using inside at rest val True "1.prems"(5) small
          by (simp add: read_loop.simps [of b t' i] read_loop.simps [of a t' i] Let_def add.commute add.left_commute)
        ultimately show ?thesis using b len out False by auto
      qed
    next
      case False
      have n: "?n \<le> chain_end" "chain_ok a ?n" using inside False "1.prems"(2) by (simp_all add: chain_ok.simps [of a i])
      have ti: "a ! i \<noteq> t" "read_loop a t ?n = None"
        using inside False "1.prems"(3) by (auto simp: read_loop.simps [of a t i] Let_def split: if_splits)
      have set: "set_loop a t v ?n = (ok, a')"
        using inside False "1.prems"(1) by (simp add: set_loop.simps [of a t v i] Let_def)
      note IH = "1.IH" [OF inside refl refl False set n(2) ti(2) "1.prems"(4-6)]
      show ?thesis
      proof (cases ok)
        case False
        with IH show ?thesis by simp
      next
        case True
        with IH have a': "length a' = 1024" "chain_ok a' ?n" "\<And>k. k < ?n \<Longrightarrow> a' ! k = a ! k"
          "\<And>k. chain_end \<le> k \<Longrightarrow> k < 1024 \<Longrightarrow> a' ! k = a ! k"
          "\<And>t'. read_loop a' t' ?n = (if t' = t then Some v else read_loop a t' ?n)" by auto
        have same: "a' ! i = a ! i" "a' ! (i + 1) = a ! (i + 1)" using a'(3) by simp_all
        have sl: "sub_slice (i + 2) ?n a' = sub_slice (i + 2) ?n a"
          using a'(1,3) "1.prems"(4) by (intro sub_slice_cong) auto
        have "chain_ok a' i" using inside False n(1) same a'(2) by (simp add: chain_ok.simps [of a' i])
        moreover have "read_loop a' t' i = (if t' = t then Some v else read_loop a t' i)" for t'
          using inside False same sl a'(5) ti(1)
          by (simp add: read_loop.simps [of a' t' i] read_loop.simps [of a t' i] Let_def add.commute add.left_commute)
        ultimately show ?thesis using True a' by auto
      qed
    qed
  qed
qed

section \<open>cleanup leaves the chain alone\<close>

lemma cleanup_form:
  assumes "length a = 1024"
  shows "cleanup a = take 512 (tail (total (head a))) @ take 512 (tail (total (head a)))"
  using assms
  by (simp add: cleanup_def Let_def copy_at_def put_at_def tail_def total_def head_def min_def)

lemma length_steps:
  assumes "length a = 1024"
  shows "length (head a) = 1024" "length (total a) = 1024" "length (tail a) = 1024"
  using assms by (simp_all add: head_def total_def tail_def length_put_at)

lemma length_cleanup: "length a = 1024 \<Longrightarrow> length (cleanup a) = 1024"
  by (simp add: cleanup_form length_steps)

lemma cleanup_chain_byte:
  assumes "length a = 1024" and "8 \<le> k" and "k < 508"
  shows "cleanup a ! k = a ! k"
proof -
  have "tail (total (head a)) ! k = a ! k"
    using assms length_steps [OF assms(1)] length_steps [of "head a"]
    unfolding tail_def total_def by (simp add: nth_put_at_before nth_put_at_after length_put_at head_def)
  with assms show ?thesis by (simp add: cleanup_form length_steps nth_append)
qed

lemma cleanup_chain:
  "length a = 1024 \<Longrightarrow> chain_ok a 8 \<Longrightarrow>
     chain_ok (cleanup a) 8 \<and> read_loop (cleanup a) t 8 = read_loop a t 8"
  by (rule chain_cong) (simp_all add: length_cleanup cleanup_chain_byte)

text \<open>The byte the delete loop takes for the end of the data.\<close>

lemma cleanup_end_byte: "length a = 1024 \<Longrightarrow> cleanup a ! 508 = 0x64"
  using length_steps [of a] length_steps [of "head a"]
  by (simp add: cleanup_form nth_append tail_def length_put_at nth_put_at_in length_steps)
     (simp add: put_le32_def AdvMagic3_def)

text \<open>The checksum loop subtracts every word of the data area.\<close>

definition le_word :: "bytes \<Rightarrow> nat \<Rightarrow> u32" where
  "le_word a k = get_le32 (sub_slice (4 * k) (4 * k + 4) a)"

lemma csum_loop_sum: "j \<le> 127 \<Longrightarrow> csum_loop a (4 * j) c = c - (\<Sum>k = j..<127. le_word a k)"
proof (induction "127 - j" arbitrary: j c)
  case 0
  then show ?case by (simp add: csum_loop.simps [of a 508])
next
  case (Suc n)
  then have j: "j < 127" by simp
  have "csum_loop a (4 * j) c = csum_loop a (4 * Suc j) (c - le_word a j)"
    using j by (simp add: csum_loop.simps [of a "4 * j"] le_word_def add.commute)
  also have "\<dots> = c - le_word a j - (\<Sum>k = Suc j..<127. le_word a k)"
    using Suc.hyps(2) j by (intro Suc.hyps(1)) simp_all
  also have "(\<Sum>k = Suc j..<127. le_word a k) = (\<Sum>k = j..<127. le_word a k) - le_word a j"
    using j by (simp add: sum.atLeast_Suc_lessThan)
  finally show ?case by simp
qed

lemma le_word_cong:
  "length a = length b \<Longrightarrow> (\<And>i. 4 * k \<le> i \<Longrightarrow> i < 4 * k + 4 \<Longrightarrow> a ! i = b ! i) \<Longrightarrow> le_word a k = le_word b k"
  unfolding le_word_def by (metis sub_slice_cong)

text \<open>Deleting a tag that is not stored does nothing.\<close>

lemma delete_loop_absent: "read_loop a t i = None \<Longrightarrow> delete_loop a t i = Ret (False, a)"
proof (induction a t i rule: read_loop.induct)
  case (1 a t i)
  then show ?case
    by (simp add: delete_loop.simps [of a t i] read_loop.simps [of a t i] Let_def split: if_splits)
qed

lemma DeleteTag_absent: "ReadTagBytes_legacy a t = None \<Longrightarrow> DeleteTag_legacy a t = Ret (False, a)"
  by (simp add: DeleteTag_legacy_def ReadTagBytes_legacy_def delete_loop_absent)

lemma fresh_chain: "chain_ok (replicate 1024 0) 8 \<and> read_loop (replicate 1024 0) t 8 = None"
  by (rule zero_chain) simp

section \<open>Properties\<close>

text \<open>Writing a tag that is not stored yet into a well-formed legacy ADV never panics; it keeps
  the chain well-formed; when it reports success the tag reads back as written and every other tag
  is unchanged; when it refuses the ADV is unchanged.\<close>

theorem legacy_set_new_tag:
  assumes "sys_wf a" and "ReadTagBytes_legacy a t = None" and "t \<noteq> 0"
  shows "\<exists>ok a'. SetTagBytes_legacy a t v = Ret (ok, a') \<and> sys_wf a' \<and>
           (if ok then \<forall>t'. ReadTagBytes_legacy a' t' = (if t' = t then Some v else ReadTagBytes_legacy a t')
            else a' = a)"
proof (cases "length v > 255")
  case True
  then have "SetTagBytes_legacy a t v = Ret (False, a)" by (simp add: SetTagBytes_legacy_def)
  with assms(1) show ?thesis by (intro exI [of _ False] exI [of _ a]) simp
next
  case False
  obtain ok a2 where set: "set_loop a t v 8 = (ok, a2)" by (cases "set_loop a t v 8")
  have len: "length a = 1024" and ch: "chain_ok a 8" using assms(1) by (simp_all add: sys_wf_def)
  have run: "SetTagBytes_legacy a t v = Ret (ok, if ok then cleanup a2 else a2)"
    using False set DeleteTag_absent [OF assms(2)] by (simp add: SetTagBytes_legacy_def)
  note spec = set_loop_spec [OF set ch _ len assms(3)]
  show ?thesis
  proof (cases ok)
    case True
    with spec False assms(2) have a2: "length a2 = 1024" "chain_ok a2 8"
      "\<forall>t'. read_loop a2 t' 8 = (if t' = t then Some v else read_loop a t' 8)"
      by (simp_all add: ReadTagBytes_legacy_def)
    with cleanup_chain [OF a2(1,2)] length_cleanup [OF a2(1)] run True show ?thesis
      by (intro exI [of _ True] exI [of _ "cleanup a2"]) (simp add: sys_wf_def ReadTagBytes_legacy_def)
  next
    case ok: False
    with spec False assms(2) have "a2 = a" by (simp add: ReadTagBytes_legacy_def)
    with run ok have "SetTagBytes_legacy a t v = Ret (False, a)" by simp
    with assms(1) show ?thesis by (intro exI [of _ False] exI [of _ a]) simp
  qed
qed

text \<open>Cleanup seals the block: both copies are equal, the head and tail magics are in place, and
  the checksum together with the data words sums up to AdvMagic2.\<close>

theorem cleanup_seals:
  assumes "length a = 2 * AdvSize"
  shows "drop AdvSize (cleanup a) = take AdvSize (cleanup a) \<and>
         le_word (cleanup a) 0 = AdvMagic1 \<and> le_word (cleanup a) 127 = AdvMagic3 \<and>
         (\<Sum>k = 1..<127. le_word (cleanup a) k) = AdvMagic2"
proof -
  have len: "length a = 1024" using assms by simp
  let ?b = "tail (total (head a))"
  have lb: "length ?b = 1024" using len by (simp add: length_steps)
  have form: "cleanup a = take 512 ?b @ take 512 ?b" using len by (rule cleanup_form)
  have word: "le_word (cleanup a) k = le_word ?b k" if "k < 128" for k
    by (rule le_word_cong) (use that lb in \<open>auto simp: form nth_append\<close>)
  have tl: "le_word ?b k = le_word (total (head a)) k" if "k < 127" for k
    unfolding tail_def by (rule le_word_cong) (use that len in \<open>auto simp: length_steps length_put_at nth_put_at_before\<close>)
  have tt: "le_word (total (head a)) k = le_word (head a) k" if "k = 0 \<or> 2 \<le> k" "k < 127" for k
    unfolding total_def
    by (rule le_word_cong) (use that len in \<open>auto simp: length_steps length_put_at nth_put_at_before nth_put_at_after\<close>)
  have w0: "le_word (head a) 0 = AdvMagic1"
    unfolding le_word_def head_def using len by (simp add: sub_slice_put_at_same)
  have w127: "le_word ?b 127 = AdvMagic3"
    unfolding le_word_def tail_def using len by (simp add: sub_slice_put_at_same length_steps)
  have w1: "le_word (total (head a)) 1 = csum_loop (head a) (4 * 2) AdvMagic2"
    unfolding le_word_def total_def using len by (simp add: sub_slice_put_at_same length_steps)
  have "(\<Sum>k = 1..<127. le_word (cleanup a) k) = (\<Sum>k = 1..<127. le_word (total (head a)) k)"
    by (intro sum.cong) (simp_all add: word tl)
  also have "\<dots> = le_word (total (head a)) 1 + (\<Sum>k = 2..<127. le_word (total (head a)) k)"
    by (simp add: sum.atLeast_Suc_lessThan numeral_2_eq_2)
  also have "(\<Sum>k = 2..<127. le_word (total (head a)) k) = (\<Sum>k = 2..<127. le_word (head a) k)"
    by (intro sum.cong) (simp_all add: tt)
  also have "le_word (total (head a)) 1 + (\<Sum>k = 2..<127. le_word (head a) k) = AdvMagic2"
    unfolding w1 by (subst csum_loop_sum) simp_all
  finally have sum: "(\<Sum>k = 1..<127. le_word (cleanup a) k) = AdvMagic2" .
  have "drop AdvSize (cleanup a) = take AdvSize (cleanup a)" using lb by (simp add: form)
  with sum word [of 0] word [of 127] tl [of 0] tt [of 0] w0 w127 show ?thesis by simp
qed

text \<open>DeleteTag takes a byte of the tail magic for the end of the data, so it panics on a tag
  the ADV holds: on a fresh ADV, storing any value of 91 to 255 bytes succeeds and reads back, and
  deleting it (or storing it again) panics in a slice expression.\<close>

theorem legacy_delete_panics:
  assumes "t \<noteq> 0" and "91 \<le> length v" and "length v \<le> 255"
  shows "\<exists>a. SetTagBytes_legacy (replicate 1024 0) t v = Ret (True, a) \<and>
           ReadTagBytes_legacy a t = Some v \<and> DeleteTag_legacy a t = Panic \<and>
           SetTagBytes_legacy a t w = (if length w > 255 then Ret (False, a) else Panic)"
proof -
  let ?z = "replicate 1024 (0 :: u8)"
  have wf: "sys_wf ?z" using fresh_chain by (simp add: sys_wf_def)
  have none: "ReadTagBytes_legacy ?z t = None" using fresh_chain by (simp add: ReadTagBytes_legacy_def)
  let ?b = "put_at 10 v (put_at 8 [t, of_nat (length v)] ?z)"
  have set: "set_loop ?z t v 8 = (True, ?b)"
    using assms(3) by (simp add: set_loop.simps [of ?z t v 8])
  have run: "SetTagBytes_legacy ?z t v = Ret (True, cleanup ?b)"
    using assms(3) set DeleteTag_absent [OF none] by (simp add: SetTagBytes_legacy_def)
  have len: "length ?z = 1024" "length v \<le> 255" using assms(3) by simp_all
  have rd: "read_loop ?z t 8 = None" using fresh_chain by blast
  from set_loop_spec [OF set _ rd len(1) assms(1) len(2)] fresh_chain
  have b: "length ?b = 1024" "chain_ok ?b 8" "read_loop ?b t 8 = Some v" by auto
  have read: "ReadTagBytes_legacy (cleanup ?b) t = Some v"
    using cleanup_chain [OF b(1,2)] b(3) by (simp add: ReadTagBytes_legacy_def)
  have whole: "?b = put_at 8 ([t, of_nat (length v)] @ v) ?z"
    using assms(3) by (intro put_at_put_at) simp_all
  have at: "cleanup ?b ! 8 = t" "cleanup ?b ! 9 = of_nat (length v)"
    using b(1) assms(3) by (simp_all add: cleanup_chain_byte) (simp_all add: whole nth_put_at_in)
  have "delete_loop (cleanup ?b) t 8 = Panic"
    using at cleanup_end_byte [OF b(1)] assms by (simp add: delete_loop.simps [of "cleanup ?b" t 8] unat_of_nat)
  then have "DeleteTag_legacy (cleanup ?b) t = Panic" by (simp add: DeleteTag_legacy_def)
  with run read show ?thesis by (auto simp: SetTagBytes_legacy_def)
qed

text \<open>Witnesses.\<close>

theorem legacy_set_new_tag_witness:
  "\<exists>a'. SetTagBytes_legacy (replicate 1024 0) 6 [65] = Ret (True, a') \<and> sys_wf a' \<and>
     ReadTagBytes_legacy a' 6 = Some [65]"
proof -
  let ?z = "replicate 1024 (0 :: u8)"
  have wf: "sys_wf ?z" and none: "ReadTagBytes_legacy ?z 6 = None"
    using fresh_chain by (simp_all add: sys_wf_def ReadTagBytes_legacy_def)
  have "fst (set_loop ?z 6 [65] 8)" by (simp add: set_loop.simps [of ?z 6 "[65]" 8])
  with legacy_set_new_tag [OF wf none, of "[65]"] show ?thesis
    by (auto simp: SetTagBytes_legacy_def DeleteTag_absent [OF none] split: prod.splits if_splits)
qed

theorem cleanup_seals_witness:
  "le_word (cleanup (replicate 1024 7)) 127 = AdvMagic3"
  using cleanup_seals [of "replicate 1024 7"] by simp

theorem legacy_delete_panics_witness:
  "\<exists>a. ReadTagBytes_legacy a 6 = Some (replicate 100 65) \<and> DeleteTag_legacy a 6 = Panic"
  using legacy_delete_panics [of 6 "replicate 100 65" "[]"] by auto

end
