(* ===== verification/BlockTypes.thy ===== *)
theory BlockTypes
  imports Prelude
begin

text \<open>
  The resources of the block subsystem, pkg/machinery/resources/block: phases and types of volumes,
  the specs of VolumeConfig and VolumeStatus, and ResolveMaxSize. Sizes are uint64 and stay 64-bit
  words; PrettySize is left out (a rendering of Size). A CEL expression is opaque: None is the zero
  expression, and its evaluation is a parameter of the operations.
\<close>

section \<open>Enumerations\<close>

datatype VolumePhase =
    VolumePhaseWaiting
  | VolumePhaseFailed
  | VolumePhaseMissing
  | VolumePhaseLocated
  | VolumePhaseProvisioned
  | VolumePhasePrepared
  | VolumePhaseReady
  | VolumePhaseClosed

datatype VolumeType =
    VolumeTypePartition
  | VolumeTypeDisk
  | VolumeTypeTmpfs
  | VolumeTypeDirectory
  | VolumeTypeSymlink
  | VolumeTypeOverlay
  | VolumeTypeExternal

datatype FilesystemType =
    FilesystemTypeNone
  | FilesystemTypeXFS
  | FilesystemTypeVFAT
  | FilesystemTypeEXT4
  | FilesystemTypeISO9660
  | FilesystemTypeSwap
  | FilesystemTypeVirtiofs

datatype EncryptionProviderType = EncryptionProviderNone | EncryptionProviderLUKS2

datatype EncryptionKeyType = EncryptionKeyStatic | EncryptionKeyNodeID | EncryptionKeyKMS | EncryptionKeyTPM

text \<open>The labels of the system partitions, which are the identifiers of their volumes as well.\<close>

definition MetaPartitionLabel :: string where
  "MetaPartitionLabel = ''META''"

definition StatePartitionLabel :: string where
  "StatePartitionLabel = ''STATE''"

definition EphemeralPartitionLabel :: string where
  "EphemeralPartitionLabel = ''EPHEMERAL''"

text \<open>The String methods, from the line comments of the constants.\<close>

fun fs_name :: "FilesystemType \<Rightarrow> string" where
  "fs_name FilesystemTypeNone = ''none''"
| "fs_name FilesystemTypeXFS = ''xfs''"
| "fs_name FilesystemTypeVFAT = ''vfat''"
| "fs_name FilesystemTypeEXT4 = ''ext4''"
| "fs_name FilesystemTypeISO9660 = ''iso9660''"
| "fs_name FilesystemTypeSwap = ''swapi''"
| "fs_name FilesystemTypeVirtiofs = ''virtiofs''"

fun key_name :: "EncryptionKeyType \<Rightarrow> string" where
  "key_name EncryptionKeyStatic = ''static''"
| "key_name EncryptionKeyNodeID = ''nodeID''"
| "key_name EncryptionKeyKMS = ''kms''"
| "key_name EncryptionKeyTPM = ''tpm''"

text \<open>FilesystemTypeString: the type with the given name, FilesystemTypeNone (0) when there is none.
  Names that differ only in letter case are also accepted by the code; blkid reports lower case.\<close>

definition fs_of_name :: "string \<Rightarrow> FilesystemType" where
  "fs_of_name s =
     (case List.find (\<lambda>t. fs_name t = s)
             [FilesystemTypeNone, FilesystemTypeXFS, FilesystemTypeVFAT, FilesystemTypeEXT4,
              FilesystemTypeISO9660, FilesystemTypeSwap, FilesystemTypeVirtiofs] of
        Some t \<Rightarrow> t
      | None \<Rightarrow> FilesystemTypeNone)"

section \<open>VolumeConfigSpec\<close>

type_synonym expr = "string option"

record DiskSelector =
  SelMatch :: expr
  External :: string

record PartitionSpec =
  MinSize :: u64
  MaxSize :: u64
  RelativeMaxSize :: u64
  NegativeMaxSize :: bool
  PGrow :: bool
  PLabel :: string
  TypeUUID :: string

record FilesystemSpec =
  FsType :: FilesystemType
  FsLabel :: string

record ProvisioningSpec =
  Wave :: int
  DiskSel :: DiskSelector
  PartSpec :: PartitionSpec
  FsSpec :: FilesystemSpec

record LocatorSpec =
  Match :: expr
  DiskMatch :: expr

record EncryptionKey =
  Slot :: int
  KeyType :: EncryptionKeyType
  LockToSTATE :: bool
  TPMPCRs :: "int list"
  TPMPubKeyPCRs :: "int list"

record EncryptionSpec =
  Provider :: EncryptionProviderType
  Keys :: "EncryptionKey list"

datatype FSParameterType = FSParameterTypeStringValue | FSParameterTypeBooleanValue | FSParameterTypeBinaryValue

record ParameterSpec =
  ParamType :: FSParameterType
  ParamName :: string
  ParamString :: "string option"
  ParamBinary :: "u8 list option"

record MountSpec =
  TargetPath :: string
  SelinuxLabel :: string
  ProjectQuotaSupport :: bool
  MountParentID :: string
  FileMode :: "32 word"
  MountUID :: int
  MountGID :: int
  RecursiveRelabel :: bool
  BindTarget :: "string option"
  Parameters :: "ParameterSpec list"

record SymlinkProvisioningSpec =
  SymlinkTargetPath :: string
  ForceSymlink :: bool

record VolumeConfigSpec =
  CfgParentID :: string
  CfgType :: VolumeType
  Provisioning :: ProvisioningSpec
  Encryption :: EncryptionSpec
  Locator :: LocatorSpec
  Mount :: MountSpec
  CfgSymlink :: SymlinkProvisioningSpec

definition zero_DiskSelector :: DiskSelector where
  "zero_DiskSelector = \<lparr>SelMatch = None, External = ''''\<rparr>"

definition zero_PartitionSpec :: PartitionSpec where
  "zero_PartitionSpec = \<lparr>MinSize = 0, MaxSize = 0, RelativeMaxSize = 0, NegativeMaxSize = False,
     PGrow = False, PLabel = '''', TypeUUID = ''''\<rparr>"

definition zero_FilesystemSpec :: FilesystemSpec where
  "zero_FilesystemSpec = \<lparr>FsType = FilesystemTypeNone, FsLabel = ''''\<rparr>"

definition zero_ProvisioningSpec :: ProvisioningSpec where
  "zero_ProvisioningSpec = \<lparr>Wave = 0, DiskSel = zero_DiskSelector, PartSpec = zero_PartitionSpec,
     FsSpec = zero_FilesystemSpec\<rparr>"

definition zero_LocatorSpec :: LocatorSpec where
  "zero_LocatorSpec = \<lparr>Match = None, DiskMatch = None\<rparr>"

section \<open>ResolveMaxSize\<close>

definition ResolveMaxSize :: "PartitionSpec \<Rightarrow> u64 \<Rightarrow> u64 option" where
  "ResolveMaxSize ps available =
     (let sz = (if RelativeMaxSize ps \<noteq> 0 then available * RelativeMaxSize ps div 100 else MaxSize ps)
      in if NegativeMaxSize ps then (if sz > available then None else Some (available - sz))
         else Some sz)"

section \<open>VolumeStatusSpec\<close>

definition zero_MountSpec :: MountSpec where
  "zero_MountSpec = \<lparr>TargetPath = '''', SelinuxLabel = '''', ProjectQuotaSupport = False, MountParentID = '''', FileMode = 0,
     MountUID = 0, MountGID = 0, RecursiveRelabel = False, BindTarget = None, Parameters = []\<rparr>"

record VolumeStatusSpec =
  Phase :: VolumePhase
  PreFailPhase :: VolumePhase
  StType :: VolumeType
  StParentID :: string
  Location :: string
  MountLocation :: string
  PartitionIndex :: int
  ParentLocation :: string
  UUID :: string
  PartitionUUID :: string
  VSize :: u64
  Filesystem :: FilesystemType
  EncryptionProvider :: EncryptionProviderType
  EncryptionFailedSyncs :: "string list"
  ConfiguredEncryptionKeys :: "string list"
  EncryptionLockedToState :: bool
  EncryptionSlot :: "int option"
  TPMEncryptionOptions :: "int list \<times> int list"
  StMount :: MountSpec
  StSymlink :: SymlinkProvisioningSpec
  ErrorMessage :: string

definition zero_VolumeStatusSpec :: VolumeStatusSpec where
  "zero_VolumeStatusSpec =
     \<lparr>Phase = VolumePhaseWaiting, PreFailPhase = VolumePhaseWaiting, StType = VolumeTypePartition,
      StParentID = '''', Location = '''', MountLocation = '''', PartitionIndex = 0,
      ParentLocation = '''', UUID = '''', PartitionUUID = '''', VSize = 0,
      Filesystem = FilesystemTypeNone, EncryptionProvider = EncryptionProviderNone,
      EncryptionFailedSyncs = [], ConfiguredEncryptionKeys = [], EncryptionLockedToState = False,
      EncryptionSlot = None, TPMEncryptionOptions = ([], []),
      StMount = zero_MountSpec, StSymlink = \<lparr>SymlinkTargetPath = '''', ForceSymlink = False\<rparr>, ErrorMessage = ''''\<rparr>"

section \<open>Bounds of the resolved size\<close>

lemma unat64_less: "unat (w :: u64) < 18446744073709551616"
  using unsigned_less [of w] by simp

lemma unat_mult_div_100:
  assumes "unat (a :: u64) * unat r < 18446744073709551616"
  shows "unat (a * r div 100) = unat a * unat r div 100"
proof -
  have "unat (a * r) = unat a * unat r" using assms by (simp add: unat_word_ariths)
  then show ?thesis by (simp add: unat_div)
qed

end
