(* ===== verification/Meta.thy ===== *)
theory Meta
  imports AdvChubo AdvSyslinux BlockTypes
begin

text \<open>
  The META store, internal/pkg/meta/meta.go, and the staged upgrade that is kept in it,
  MachineState of v1alpha1_state.go. A Meta keeps the current ADV and the legacy ADV in memory,
  mirrors the current one into MetaKey resources, and reads and writes both on the META partition.

  Parameters of the model: SHA-256 (\<open>sha\<close>), the visiting order of a Go map (\<open>ord\<close>), the COSI state
  (\<open>cosi\<close>, over any type of states), and the answers of the kernel (\<open>kernel\<close>): whether locks are
  granted and how many bytes of a write reach the device. A Go string is its bytes.
\<close>

section \<open>The environment\<close>

datatype store_error = StoreNotFound | StoreFailed

record 'r cosi =
  wait_meta_volume :: "'r \<Rightarrow> (store_error + VolumeStatusSpec) \<times> 'r"
  add_finalizer :: "'r \<Rightarrow> store_error option \<times> 'r"
  update_key :: "'r \<Rightarrow> string \<Rightarrow> bytes \<Rightarrow> store_error option \<times> 'r"
  create_key :: "'r \<Rightarrow> string \<Rightarrow> bytes \<Rightarrow> store_error option \<times> 'r"
  destroy_key :: "'r \<Rightarrow> string \<Rightarrow> store_error option \<times> 'r"
  list_keys :: "'r \<Rightarrow> store_error + string list"

record kernel =
  parent_lock :: "string \<Rightarrow> bool"
  flock :: "string \<Rightarrow> bool"
  bytes_written :: "string \<Rightarrow> nat \<Rightarrow> bytes \<Rightarrow> nat"
  fsync :: "string \<Rightarrow> bool"

record 'r meta_world =
  Res :: 'r
  Files :: "string \<Rightarrow> bytes option"

datatype meta_error =
    NotExist
  | StoreError store_error
  | ParentLockFailed
  | OpenFailed
  | FlockFailed
  | LoadFailed adv_error
  | LegacyLoadFailed
  | MarshalFailed adv_error
  | WriteFailed
  | SeekFailed
  | SyncFailed

section \<open>State\<close>

record meta =
  Legacy :: bytes
  AdvState :: adv
  HasState :: bool
  FixedPath :: string

text \<open>MetaKeyTagToID, the format 0x%02x.\<close>

definition hex_digits :: string where
  "hex_digits = ''0123456789abcdef''"

definition MetaKeyTagToID :: "u8 \<Rightarrow> string" where
  "MetaKeyTagToID t = ''0x'' @ [hex_digits ! (unat t div 16), hex_digits ! (unat t mod 16)]"

section \<open>Resources\<close>

definition updateTagResource :: "'r cosi \<Rightarrow> bool \<Rightarrow> 'r \<Rightarrow> u8 \<Rightarrow> bytes \<Rightarrow> store_error option \<times> 'r" where
  "updateTagResource c st r t val =
     (if \<not> st then (None, r)
      else
        (case update_key c r (MetaKeyTagToID t) val of
           (Some StoreNotFound, r) \<Rightarrow> create_key c r (MetaKeyTagToID t) val
         | (err, r) \<Rightarrow> (err, r)))"

text \<open>The two loops of syncState: over the tags of the ADV, and over the listed resources.\<close>

fun update_tags :: "'r cosi \<Rightarrow> adv \<Rightarrow> u8 list \<Rightarrow> 'r \<Rightarrow> store_error option \<times> 'r" where
  "update_tags c a [] r = (None, r)"
| "update_tags c a (t # ts) r =
     (let val = (case ReadTagBytes a t of Some v \<Rightarrow> v | None \<Rightarrow> [])
      in case updateTagResource c True r t val of
           (Some e, r) \<Rightarrow> (Some e, r)
         | (None, r) \<Rightarrow> update_tags c a ts r)"

fun destroy_items :: "'r cosi \<Rightarrow> string set \<Rightarrow> string list \<Rightarrow> 'r \<Rightarrow> store_error option \<times> 'r" where
  "destroy_items c existing [] r = (None, r)"
| "destroy_items c existing (i # ids) r =
     (if i \<in> existing then destroy_items c existing ids r
      else
        (case destroy_key c r i of
           (Some e, r) \<Rightarrow> (Some e, r)
         | (None, r) \<Rightarrow> destroy_items c existing ids r))"

definition syncState :: "'r cosi \<Rightarrow> (tag_map \<Rightarrow> tag_map) \<Rightarrow> meta \<Rightarrow> 'r \<Rightarrow> store_error option \<times> 'r" where
  "syncState c ord m r =
     (if \<not> HasState m then (None, r)
      else
        (let ts = ListTags (ord (Tags (AdvState m)))
         in case update_tags c (AdvState m) ts r of
              (Some e, r) \<Rightarrow> (Some e, r)
            | (None, r) \<Rightarrow>
                (case list_keys c r of
                   Inl e \<Rightarrow> (Some e, r)
                 | Inr ids \<Rightarrow> destroy_items c (MetaKeyTagToID ` set ts) ids r)))"

section \<open>Paths, loading and saving\<close>

definition getPath :: "'r cosi \<Rightarrow> meta \<Rightarrow> 'r \<Rightarrow> (meta_error + string \<times> string) \<times> 'r" where
  "getPath c m r =
     (if FixedPath m \<noteq> '''' then (Inr (FixedPath m, ''''), r)
      else if \<not> HasState m then (Inl NotExist, r)
      else
        (case wait_meta_volume c r of
           (Inl e, r) \<Rightarrow> (Inl (StoreError e), r)
         | (Inr metaStatus, r) \<Rightarrow>
             (case add_finalizer c r of
                (Some e, r) \<Rightarrow> (Inl (StoreError e), r)
              | (None, r) \<Rightarrow>
                  if Phase metaStatus = VolumePhaseMissing then (Inl NotExist, r)
                  else if Phase metaStatus = VolumePhaseClosed \<and> MountLocation metaStatus = '''' then (Inl NotExist, r)
                  else (Inr (MountLocation metaStatus, ParentLocation metaStatus), r))))"

text \<open>The prefix that Reload and Flush share: the path, the lock on the parent device, the file and
  its flock.\<close>

definition open_meta ::
    "'r cosi \<Rightarrow> kernel \<Rightarrow> meta \<Rightarrow> 'r meta_world \<Rightarrow> (meta_error + string \<times> bytes) \<times> 'r meta_world" where
  "open_meta c k m w =
     (case getPath c m (Res w) of
        (Inl e, r) \<Rightarrow> (Inl e, w\<lparr>Res := r\<rparr>)
      | (Inr (path, parentPath), r) \<Rightarrow>
          (let w = w\<lparr>Res := r\<rparr>
           in if parentPath \<noteq> '''' \<and> \<not> parent_lock k parentPath then (Inl ParentLockFailed, w)
              else
                (case Files w path of
                   None \<Rightarrow> (Inl OpenFailed, w)
                 | Some data \<Rightarrow> if \<not> flock k path then (Inl FlockFailed, w) else (Inr (path, data), w))))"

text \<open>The copy loop of Reload: the results of ReadTagBytes and SetTagBytes are dropped.\<close>

fun copy_tags :: "adv \<Rightarrow> u8 list \<Rightarrow> adv \<Rightarrow> adv" where
  "copy_tags mem [] a = a"
| "copy_tags mem (t # ts) a =
     (let val = (case ReadTagBytes mem t of Some v \<Rightarrow> v | None \<Rightarrow> [])
      in copy_tags mem ts (snd (SetTagBytes a t val)))"

definition Reload ::
    "(bytes \<Rightarrow> bytes) \<Rightarrow> (tag_map \<Rightarrow> tag_map) \<Rightarrow> 'r cosi \<Rightarrow> kernel \<Rightarrow> meta \<Rightarrow> 'r meta_world \<Rightarrow>
       (meta_error option \<times> meta \<times> 'r meta_world) outcome" where
  "Reload sha ord c k m w =
     (case open_meta c k m w of
        (Inl e, w) \<Rightarrow> Ret (Some e, m, w)
      | (Inr (path, data), w) \<Rightarrow>
          bind_outcome (NewADV sha (Some data)) (\<lambda>(adv, err).
            (case adv of
               None \<Rightarrow> Ret (map_option LoadFailed err, m, w)
             | Some adv \<Rightarrow>
                 (case NewADV_legacy (Some data) of
                    None \<Rightarrow> Ret (Some LegacyLoadFailed, m, w)
                  | Some legacyAdv \<Rightarrow>
                      (let adv = copy_tags (AdvState m) (ListTags (ord (Tags (AdvState m)))) adv;
                           m = m\<lparr>AdvState := adv, Legacy := legacyAdv\<rparr>;
                           (err, r) = syncState c ord m (Res w)
                       in Ret (map_option StoreError err, m, w\<lparr>Res := r\<rparr>))))))"

text \<open>New starts from the empty ADVs; a Meta is returned even when the first Reload fails.\<close>

definition New ::
    "(bytes \<Rightarrow> bytes) \<Rightarrow> (tag_map \<Rightarrow> tag_map) \<Rightarrow> 'r cosi \<Rightarrow> kernel \<Rightarrow> bool \<Rightarrow> string \<Rightarrow> 'r meta_world \<Rightarrow>
       (meta_error option \<times> meta \<times> 'r meta_world) outcome" where
  "New sha ord c k st path w =
     Reload sha ord c k
       \<lparr>Legacy = replicate (2 * AdvSize) 0, AdvState = \<lparr>Tags = []\<rparr>, HasState = st, FixedPath = path\<rparr> w"

text \<open>WriteAt of the kernel: the bytes that reach the file, and whether all of them did.\<close>

definition WriteAt :: "kernel \<Rightarrow> string \<Rightarrow> nat \<Rightarrow> bytes \<Rightarrow> bytes \<Rightarrow> bool \<times> bytes" where
  "WriteAt k path off src data =
     (let n = min (bytes_written k path off src) (length src)
      in (n = length src, put_at off (take n src) data))"

definition Flush ::
    "(bytes \<Rightarrow> bytes) \<Rightarrow> (tag_map \<Rightarrow> tag_map) \<Rightarrow> 'r cosi \<Rightarrow> kernel \<Rightarrow> meta \<Rightarrow> 'r meta_world \<Rightarrow>
       meta_error option \<times> 'r meta_world" where
  "Flush sha ord c k m w =
     (case open_meta c k m w of
        (Inl e, w) \<Rightarrow> (Some e, w)
      | (Inr (path, data), w) \<Rightarrow>
          (case Bytes sha (ord (Tags (AdvState m))) of
             Inl e \<Rightarrow> (Some (MarshalFailed e), w)
           | Inr serialized \<Rightarrow>
               (let (ok, data) = WriteAt k path 0 serialized data;
                    w = w\<lparr>Files := (Files w)(path \<mapsto> data)\<rparr>
                in if \<not> ok then (Some WriteFailed, w)
                   else if length data < length (Legacy m) then (Some SeekFailed, w)
                   else
                     (let (ok, data) = WriteAt k path (length data - length (Legacy m)) (Legacy m) data;
                          w = w\<lparr>Files := (Files w)(path \<mapsto> data)\<rparr>
                      in if \<not> ok then (Some WriteFailed, w)
                         else if fsync k path then (None, w) else (Some SyncFailed, w)))))"

section \<open>Tags\<close>

definition ReadTag :: "meta \<Rightarrow> u8 \<Rightarrow> bytes option" where
  "ReadTag m t =
     (case ReadTagBytes (AdvState m) t of
        Some v \<Rightarrow> Some v
      | None \<Rightarrow> ReadTagBytes_legacy (Legacy m) t)"

definition SetTag ::
    "'r cosi \<Rightarrow> meta \<Rightarrow> u8 \<Rightarrow> bytes \<Rightarrow> 'r \<Rightarrow> (bool \<times> store_error option) \<times> meta \<times> 'r" where
  "SetTag c m t val r =
     (let (ok, adv) = SetTagBytes (AdvState m) t val; m = m\<lparr>AdvState := adv\<rparr>
      in if \<not> ok then ((False, None), m, r)
         else
           (case updateTagResource c (HasState m) r t val of
              (Some e, r) \<Rightarrow> ((False, Some e), m, r)
            | (None, r) \<Rightarrow> ((True, None), m, r)))"

definition meta_DeleteTag ::
    "'r cosi \<Rightarrow> meta \<Rightarrow> u8 \<Rightarrow> 'r \<Rightarrow> ((bool \<times> store_error option) \<times> meta \<times> 'r) outcome" where
  "meta_DeleteTag c m t r =
     (let (ok, adv) = DeleteTag (AdvState m) t; m = m\<lparr>AdvState := adv\<rparr>
      in bind_outcome
           (if ok then Ret (True, m)
            else bind_outcome (DeleteTag_legacy (Legacy m) t) (\<lambda>(ok, legacy). Ret (ok, m\<lparr>Legacy := legacy\<rparr>)))
           (\<lambda>(ok, m).
             if \<not> HasState m then Ret ((ok, None), m, r)
             else
               (case destroy_key c r (MetaKeyTagToID t) of
                  (Some StoreNotFound, r) \<Rightarrow> Ret ((ok, None), m, r)
                | (err, r) \<Rightarrow> Ret ((ok, err), m, r))))"

section \<open>The staged upgrade\<close>

definition StagedUpgradeImageRef :: u8 where
  "StagedUpgradeImageRef = 7"

definition StagedUpgradeInstallOptions :: u8 where
  "StagedUpgradeInstallOptions = 8"

record machine_state =
  StMeta :: meta
  StContainer :: bool
  StagedInstall :: bool
  StagedInstallImageRef :: bytes
  StagedInstallOptions :: bytes

definition probeMeta ::
    "(bytes \<Rightarrow> bytes) \<Rightarrow> (tag_map \<Rightarrow> tag_map) \<Rightarrow> 'r cosi \<Rightarrow> kernel \<Rightarrow> machine_state \<Rightarrow> 'r meta_world \<Rightarrow>
       (machine_state \<times> 'r meta_world) outcome" where
  "probeMeta sha ord c k s w =
     (case (ReadTag (StMeta s) StagedUpgradeImageRef, ReadTag (StMeta s) StagedUpgradeInstallOptions) of
        (Some ref, Some opts) \<Rightarrow>
          bind_outcome (meta_DeleteTag c (StMeta s) StagedUpgradeImageRef (Res w)) (\<lambda>((ok1, err1), m, r).
          bind_outcome (meta_DeleteTag c m StagedUpgradeInstallOptions r) (\<lambda>((ok2, err2), m, r).
            (let (err, w) = Flush sha ord c k m (w\<lparr>Res := r\<rparr>)
             in Ret (s\<lparr>StMeta := m, StagedInstall := (err = None \<and> err1 = None \<and> err2 = None),
                       StagedInstallImageRef := ref, StagedInstallOptions := opts\<rparr>, w))))
      | _ \<Rightarrow> Ret (s\<lparr>StagedInstall := False\<rparr>, w))"

text \<open>The wrappers of MachineState: a container has no META.\<close>

definition state_ReadTag :: "machine_state \<Rightarrow> u8 \<Rightarrow> bytes option" where
  "state_ReadTag s t = (if StContainer s then None else ReadTag (StMeta s) t)"

definition state_SetTag ::
    "'r cosi \<Rightarrow> machine_state \<Rightarrow> u8 \<Rightarrow> bytes \<Rightarrow> 'r \<Rightarrow> (bool \<times> store_error option) \<times> machine_state \<times> 'r" where
  "state_SetTag c s t val r =
     (if StContainer s then ((False, None), s, r)
      else (let (res, m, r) = SetTag c (StMeta s) t val r in (res, s\<lparr>StMeta := m\<rparr>, r)))"

definition state_DeleteTag ::
    "'r cosi \<Rightarrow> machine_state \<Rightarrow> u8 \<Rightarrow> 'r \<Rightarrow> ((bool \<times> store_error option) \<times> machine_state \<times> 'r) outcome" where
  "state_DeleteTag c s t r =
     (if StContainer s then Ret ((False, None), s, r)
      else bind_outcome (meta_DeleteTag c (StMeta s) t r) (\<lambda>(res, m, r). Ret (res, s\<lparr>StMeta := m\<rparr>, r)))"

definition state_Reload ::
    "(bytes \<Rightarrow> bytes) \<Rightarrow> (tag_map \<Rightarrow> tag_map) \<Rightarrow> 'r cosi \<Rightarrow> kernel \<Rightarrow> machine_state \<Rightarrow> 'r meta_world \<Rightarrow>
       (meta_error option \<times> machine_state \<times> 'r meta_world) outcome" where
  "state_Reload sha ord c k s w =
     (if StContainer s then Ret (None, s, w)
      else bind_outcome (Reload sha ord c k (StMeta s) w) (\<lambda>(err, m, w).
        (case err of
           Some e \<Rightarrow> Ret (Some e, s\<lparr>StMeta := m\<rparr>, w)
         | None \<Rightarrow> bind_outcome (probeMeta sha ord c k (s\<lparr>StMeta := m\<rparr>) w) (\<lambda>(s, w). Ret (None, s, w)))))"

definition state_Flush ::
    "(bytes \<Rightarrow> bytes) \<Rightarrow> (tag_map \<Rightarrow> tag_map) \<Rightarrow> 'r cosi \<Rightarrow> kernel \<Rightarrow> machine_state \<Rightarrow> 'r meta_world \<Rightarrow>
       meta_error option \<times> 'r meta_world" where
  "state_Flush sha ord c k s w = (if StContainer s then (None, w) else Flush sha ord c k (StMeta s) w)"

text \<open>The first call of Meta(): the store is loaded and probed. The wrapper returned by it answers the
  next Reload with the result of this load.\<close>

definition state_Meta ::
    "(bytes \<Rightarrow> bytes) \<Rightarrow> (tag_map \<Rightarrow> tag_map) \<Rightarrow> 'r cosi \<Rightarrow> kernel \<Rightarrow> bool \<Rightarrow> machine_state \<Rightarrow> 'r meta_world \<Rightarrow>
       (meta_error option \<times> machine_state \<times> 'r meta_world) outcome" where
  "state_Meta sha ord c k st s w =
     (if StContainer s then Ret (None, s, w)
      else bind_outcome (New sha ord c k st '''' w) (\<lambda>(err, m, w).
        (case err of
           Some e \<Rightarrow> Ret (Some e, s\<lparr>StMeta := m\<rparr>, w)
         | None \<Rightarrow> bind_outcome (probeMeta sha ord c k (s\<lparr>StMeta := m\<rparr>) w) (\<lambda>(s, w). Ret (None, s, w)))))"

section \<open>Lemmas on the tag identifiers\<close>

lemma hex_digits_inj: "i < 16 \<Longrightarrow> j < 16 \<Longrightarrow> hex_digits ! i = hex_digits ! j \<Longrightarrow> i = j"
proof -
  have "distinct hex_digits" "length hex_digits = 16" by (simp_all add: hex_digits_def)
  then show "i < 16 \<Longrightarrow> j < 16 \<Longrightarrow> hex_digits ! i = hex_digits ! j \<Longrightarrow> i = j"
    by (simp add: nth_eq_iff_index_eq)
qed

lemma MetaKeyTagToID_inj [simp]: "MetaKeyTagToID s = MetaKeyTagToID t \<longleftrightarrow> s = t"
proof
  assume eq: "MetaKeyTagToID s = MetaKeyTagToID t"
  have byte: "unat x < 256" for x :: u8 using unsigned_less [of x] by simp
  have bound: "unat x div 16 < 16" "unat x mod 16 < 16" for x :: u8
    using byte [of x] by simp_all
  from eq have "unat s div 16 = unat t div 16" "unat s mod 16 = unat t mod 16"
    by (auto simp: MetaKeyTagToID_def intro: hex_digits_inj bound)
  then have "unat s = unat t" by (metis div_mult_mod_eq)
  then show "s = t" by (simp only: word_unat_eq_iff)
qed simp

section \<open>Copying tags\<close>

text \<open>Every write of a tag either stores the value or leaves the ADV as it is.\<close>

lemma copy_tags_other: "t \<notin> set ts \<Longrightarrow> ReadTagBytes (copy_tags mem ts a) t = ReadTagBytes a t"
proof (induction ts arbitrary: a)
  case Nil
  then show ?case by simp
next
  case (Cons s ts)
  let ?v = "case ReadTagBytes mem s of Some v \<Rightarrow> v | None \<Rightarrow> []"
  obtain ok a' where set: "SetTagBytes a s ?v = (ok, a')" by (cases "SetTagBytes a s ?v")
  have "ReadTagBytes a' t = ReadTagBytes a t"
    using Cons.prems set SetTagBytes_read [of a s ?v a' t] SetTagBytes_cases [OF set] by (cases ok) auto
  with Cons set show ?case by (simp add: Let_def)
qed

lemma copy_tags_cases:
  "ReadTagBytes (copy_tags mem ts a) t = ReadTagBytes a t \<or>
   ReadTagBytes (copy_tags mem ts a) t = Some (case ReadTagBytes mem t of Some v \<Rightarrow> v | None \<Rightarrow> [])"
proof (induction ts arbitrary: a)
  case Nil
  then show ?case by simp
next
  case (Cons s ts)
  let ?v = "case ReadTagBytes mem s of Some v \<Rightarrow> v | None \<Rightarrow> []"
  obtain ok a' where set: "SetTagBytes a s ?v = (ok, a')" by (cases "SetTagBytes a s ?v")
  have step: "ReadTagBytes a' t = ReadTagBytes a t \<or> t = s \<and> ReadTagBytes a' t = Some ?v"
    using set SetTagBytes_read [of a s ?v a' t] SetTagBytes_cases [OF set] by (cases ok) auto
  have "copy_tags mem (s # ts) a = copy_tags mem ts a'" using set by (simp add: Let_def)
  with Cons.IH [of a'] step show ?case by auto
qed

lemma copy_tags_fits:
  assumes "distinct ts" and "t \<in> set ts"
    and "20 + body_size (Tags a) + sum_list (map (\<lambda>t. length (case ReadTagBytes mem t of Some v \<Rightarrow> v | None \<Rightarrow> []) + 8) ts)
           \<le> DataLength"
  shows "ReadTagBytes (copy_tags mem ts a) t = Some (case ReadTagBytes mem t of Some v \<Rightarrow> v | None \<Rightarrow> [])"
  using assms
proof (induction ts arbitrary: a)
  case Nil
  then show ?case by simp
next
  case (Cons s ts)
  let ?v = "\<lambda>s. case ReadTagBytes mem s of Some v \<Rightarrow> v | None \<Rightarrow> []"
  obtain ok a' where set: "SetTagBytes a s (?v s) = (ok, a')" by (cases "SetTagBytes a s (?v s)")
  have ok: "ok" "Tags a' = gm_set (Tags a) s (?v s)"
    using SetTagBytes_cases [OF set] Cons.prems(3) by auto
  then have read: "ReadTagBytes a' s = Some (?v s)" using SetTagBytes_read [of a s "?v s" a' s] set by simp
  have size: "20 + body_size (Tags a') + sum_list (map (\<lambda>t. length (?v t) + 8) ts) \<le> DataLength"
    using Cons.prems(3) body_size_set [of "Tags a" s "?v s"] ok(2) by simp
  show ?case
  proof (cases "t = s")
    case True
    then have "t \<notin> set ts" using Cons.prems(1) by simp
    with True read set show ?thesis by (simp add: copy_tags_other Let_def)
  next
    case False
    with Cons.prems set show ?thesis by (simp add: Cons.IH [OF _ _ size] Let_def)
  qed
qed

text \<open>The visiting order of a map is a permutation of its entries.\<close>

definition fair_order :: "(tag_map \<Rightarrow> tag_map) \<Rightarrow> bool" where
  "fair_order ord \<longleftrightarrow> (\<forall>m. range_order m (ord m))"

lemma fair_listed:
  "fair_order ord \<Longrightarrow> t \<in> set (ListTags (ord (Tags a))) \<longleftrightarrow> ReadTagBytes a t \<noteq> None"
  using range_order_keys [of "Tags a" "ord (Tags a)"] gm_keys_get [of t "Tags a"]
  by (simp add: fair_order_def ListTags_def gm_keys_def ReadTagBytes_def)

lemma fair_distinct:
  "fair_order ord \<Longrightarrow> gm_wf (Tags a) \<Longrightarrow> distinct (ListTags (ord (Tags a)))"
  using range_order_wf [of "Tags a" "ord (Tags a)"] by (simp add: fair_order_def ListTags_def gm_wf_def)

lemma fair_sum:
  assumes "fair_order ord" and "gm_wf (Tags a)"
  shows "sum_list (map (\<lambda>t. length (case ReadTagBytes a t of Some v \<Rightarrow> v | None \<Rightarrow> []) + 8) (ListTags (ord (Tags a))))
           = body_size (Tags a)"
proof -
  let ?it = "ord (Tags a)"
  have order: "range_order (Tags a) ?it" using assms(1) by (simp add: fair_order_def)
  have wf: "gm_wf ?it" using order assms(2) by (rule range_order_wf)
  have "ReadTagBytes a t = Some v" if "(t, v) \<in> set ?it" for t v
    using that wf range_order_get [OF order assms(2), of t]
    by (simp add: ReadTagBytes_def gm_get_def gm_wf_def)
  then have "map ((\<lambda>t. length (case ReadTagBytes a t of Some v \<Rightarrow> v | None \<Rightarrow> []) + 8) \<circ> fst) ?it = map (\<lambda>(t, v). length v + 8) ?it"
    by (intro map_cong refl) auto
  then show ?thesis
    using body_size_order [OF order] by (simp only: ListTags_def body_size_def map_map)
qed

section \<open>What Flush leaves on the device\<close>

lemma Bytes_Inr:
  "Bytes sha it = Inr s \<longleftrightarrow> (\<exists>b. Marshal sha it = Inr b \<and> s = b @ b)"
  by (auto simp: Bytes_def split: sum.splits)

lemma Marshal_length: "Marshal sha it = Inr b \<Longrightarrow> (\<And>b. length (sha b) = 32) \<Longrightarrow> length b = Length"
  using Marshal_Inr_fits [of sha it b] Length_bounds by (auto simp: Marshal_fits length_put_at)

text \<open>A device that starts with the two copies of the block decodes to the tags of the block.\<close>

lemma NewADV_blocks:
  assumes sha: "\<And>b. length (sha b) = 32" and "Marshal sha it = Inr b" and "gm_wf it" and "gm_get it 0 = None"
    and "take Length data = b"
  shows "NewADV sha (Some data) = Ret (Some \<lparr>Tags = it\<rparr>, None)"
proof -
  have fits: "body_size it \<le> DataLength" using assms(2) by (rule Marshal_Inr_fits)
  have "Unmarshal sha [] b = Ret (None, it)"
    using Unmarshal_block [of sha, OF _ fits assms(3,4)] sha assms(2) Marshal_fits [OF fits, of sha] by simp
  moreover have "length data \<ge> Length"
    using assms(5) Marshal_length [OF assms(2) sha] by (metis length_take min.absorb_iff2)
  ultimately show ?thesis using assms(5) by (simp add: NewADV_def)
qed

text \<open>The writes of a successful Flush, and the file they leave.\<close>

definition flushed :: "bytes \<Rightarrow> bytes \<Rightarrow> bytes \<Rightarrow> bytes" where
  "flushed block legacy data =
     put_at (length data - length legacy) legacy (put_at 0 (block @ block) data)"

lemma WriteAt_ok: "WriteAt k path off src data = (True, data') \<Longrightarrow> data' = put_at off src data"
  by (auto simp: WriteAt_def Let_def min_def split: if_splits)

lemma Flush_ok:
  assumes "Flush sha ord c k m w = (None, w1)"
  obtains path data w0 b where "open_meta c k m w = (Inr (path, data), w0)"
    and "Marshal sha (ord (Tags (AdvState m))) = Inr b"
    and "2 * length b \<le> length data \<longrightarrow> w1 = w0\<lparr>Files := (Files w0)(path \<mapsto> flushed b (Legacy m) data)\<rparr>"
    and "flock k path"
proof -
  from assms obtain path data w0 where op: "open_meta c k m w = (Inr (path, data), w0)"
    by (cases "open_meta c k m w"; cases "fst (open_meta c k m w)") (auto simp: Flush_def)
  from assms op obtain b where b: "Marshal sha (ord (Tags (AdvState m))) = Inr b"
    by (cases "Marshal sha (ord (Tags (AdvState m)))") (auto simp: Flush_def Bytes_def)
  have fl: "flock k path"
    using op by (auto simp: open_meta_def Let_def split: prod.splits sum.splits if_splits option.splits)
  obtain ok1 d1 where w1: "WriteAt k path 0 (b @ b) data = (ok1, d1)" by (cases "WriteAt k path 0 (b @ b) data")
  obtain ok2 d2 where w2: "WriteAt k path (length d1 - length (Legacy m)) (Legacy m) d1 = (ok2, d2)"
    by (cases "WriteAt k path (length d1 - length (Legacy m)) (Legacy m) d1")
  from assms op b w1 w2 have oks: "ok1" "ok2" "w1 = w0\<lparr>Files := (Files w0)(path \<mapsto> d2)\<rparr>"
    by (auto simp: Flush_def Bytes_def Let_def split: if_splits)
  have "d2 = flushed b (Legacy m) data" if "2 * length b \<le> length data"
  proof -
    have d1: "d1 = put_at 0 (b @ b) data" using WriteAt_ok w1 oks(1) by simp
    have "length d1 = length data" unfolding d1 using that by (intro length_put_at) simp
    moreover have "d2 = put_at (length d1 - length (Legacy m)) (Legacy m) d1" using WriteAt_ok w2 oks(2) by simp
    ultimately show ?thesis by (simp add: flushed_def d1)
  qed
  with op b oks(3) fl that show ?thesis by blast
qed

lemma flushed_parts:
  assumes "2 * length b + length l \<le> length data"
  shows "take (length b) (flushed b l data) = b"
    and "length (flushed b l data) = length data"
    and "drop (length data - length l) (flushed b l data) = l"
proof -
  have len: "length (put_at 0 (b @ b) data) = length data" using assms by (intro length_put_at) simp
  have "take (length b) (flushed b l data) = take (length b) (put_at 0 (b @ b) data)"
    unfolding flushed_def using assms len by (intro take_put_at) simp_all
  then show "take (length b) (flushed b l data) = b" by (simp add: put_at_def)
  show "length (flushed b l data) = length data"
    unfolding flushed_def using assms len by (subst length_put_at) simp_all
  show "drop (length data - length l) (flushed b l data) = l"
    unfolding flushed_def put_at_def [of "length data - length l"] using assms len by simp
qed

text \<open>A successful load: the result before the resources are synchronised.\<close>

definition loaded :: "(tag_map \<Rightarrow> tag_map) \<Rightarrow> meta \<Rightarrow> adv \<Rightarrow> bytes \<Rightarrow> meta" where
  "loaded ord m a data =
     m\<lparr>AdvState := copy_tags (AdvState m) (ListTags (ord (Tags (AdvState m)))) a,
       Legacy := drop (length data - 1024) data\<rparr>"

lemma Reload_loaded:
  assumes "open_meta c k m w = (Inr (path, data), w1)" and "NewADV sha (Some data) = Ret (Some a, e)"
    and "1024 \<le> length data"
  shows "Reload sha ord c k m w =
    (let (err, r) = syncState c ord (loaded ord m a data) (Res w1)
     in Ret (map_option StoreError err, loaded ord m a data, w1\<lparr>Res := r\<rparr>))"
  using assms by (simp add: Reload_def NewADV_legacy_def Let_def loaded_def)

lemma open_fixed:
  "FixedPath m \<noteq> '''' \<Longrightarrow> flock k (FixedPath m) \<Longrightarrow> Files w (FixedPath m) = Some data \<Longrightarrow>
     open_meta c k m w = (Inr (FixedPath m, data), w)"
  by (simp add: open_meta_def getPath_def)

text \<open>Loading from a fixed path into an empty Meta.\<close>

lemma New_fixed:
  assumes "path \<noteq> ''''" and "flock k path" and "Files w path = Some data"
    and "NewADV sha (Some data) = Ret (Some a, None)" and "1024 \<le> length data" and "fair_order ord"
  obtains err r m where "New sha ord c k st path w = Ret (err, m, w\<lparr>Res := r\<rparr>)"
    and "AdvState m = a" and "Legacy m = drop (length data - 1024) data"
    and "FixedPath m = path" and "HasState m = st"
proof -
  define m0 where "m0 = \<lparr>Legacy = replicate (2 * AdvSize) 0, AdvState = \<lparr>Tags = []\<rparr>, HasState = st, FixedPath = path\<rparr>"
  have m0: "FixedPath m0 = path" "HasState m0 = st" "AdvState m0 = \<lparr>Tags = []\<rparr>" by (simp_all add: m0_def)
  have empty: "ord [] = []" using assms(6) unfolding fair_order_def range_order_def by (metis mset_zero_iff)
  have "New sha ord c k st path w = Reload sha ord c k m0 w" by (simp add: New_def m0_def)
  moreover have "open_meta c k m0 w = (Inr (path, data), w)" using open_fixed [of m0 k w data c] assms(1-3) m0 by simp
  moreover have l: "AdvState (loaded ord m0 a data) = a" "Legacy (loaded ord m0 a data) = drop (length data - 1024) data"
    "FixedPath (loaded ord m0 a data) = path" "HasState (loaded ord m0 a data) = st"
    by (simp_all add: loaded_def m0 empty ListTags_def)
  ultimately have "New sha ord c k st path w =
      Ret (map_option StoreError (fst (syncState c ord (loaded ord m0 a data) (Res w))), loaded ord m0 a data,
        w\<lparr>Res := snd (syncState c ord (loaded ord m0 a data) (Res w))\<rparr>)"
    using Reload_loaded [OF _ assms(4,5), of c k m0 w path w ord] by (simp add: Let_def case_prod_beta)
  then show ?thesis using l by (rule that)
qed

section \<open>The MetaKey resources\<close>

text \<open>What the COSI state documents of its operations, over the view \<open>keys\<close> of the MetaKey resources
  of a state: an operation that fails changes nothing, update and destroy report a missing resource,
  and list returns the resources that exist.\<close>

definition cosi_lawful :: "'r cosi \<Rightarrow> ('r \<Rightarrow> string \<Rightarrow> bytes option) \<Rightarrow> bool" where
  "cosi_lawful c keys \<longleftrightarrow>
     (\<forall>r i v r' e. update_key c r i v = (e, r') \<longrightarrow>
        (e = None \<longrightarrow> keys r' = (keys r)(i \<mapsto> v)) \<and> (e \<noteq> None \<longrightarrow> keys r' = keys r)) \<and>
     (\<forall>r i v r' e. create_key c r i v = (e, r') \<longrightarrow>
        (e = None \<longrightarrow> keys r' = (keys r)(i \<mapsto> v)) \<and> (e \<noteq> None \<longrightarrow> keys r' = keys r)) \<and>
     (\<forall>r i r' e. destroy_key c r i = (e, r') \<longrightarrow>
        (e = None \<longrightarrow> keys r' = (keys r)(i := None)) \<and> (e \<noteq> None \<longrightarrow> keys r' = keys r) \<and>
        (e = Some StoreNotFound \<longrightarrow> keys r i = None)) \<and>
     (\<forall>r ids. list_keys c r = Inr ids \<longrightarrow> set ids = dom (keys r))"

lemma cosi_laws:
  assumes "cosi_lawful c keys"
  shows cosi_update: "update_key c r i v = (e, r') \<Longrightarrow> keys r' = (if e = None then (keys r)(i \<mapsto> v) else keys r)"
    and cosi_create: "create_key c r i v = (e, r') \<Longrightarrow> keys r' = (if e = None then (keys r)(i \<mapsto> v) else keys r)"
    and cosi_destroy: "destroy_key c r i = (e, r') \<Longrightarrow>
      keys r' = (if e = None then (keys r)(i := None) else keys r) \<and> (e = Some StoreNotFound \<longrightarrow> keys r i = None)"
    and cosi_list: "list_keys c r = Inr ids \<Longrightarrow> set ids = dom (keys r)"
  using assms unfolding cosi_lawful_def by auto

lemma updateTagResource_ok:
  assumes "cosi_lawful c keys" and "updateTagResource c True r t v = (None, r')"
  shows "keys r' = (keys r)(MetaKeyTagToID t \<mapsto> v)"
proof -
  obtain e r1 where u: "update_key c r (MetaKeyTagToID t) v = (e, r1)"
    by (cases "update_key c r (MetaKeyTagToID t) v")
  show ?thesis
    using assms(2) u cosi_update [OF assms(1) u] cosi_create [OF assms(1), of r1 "MetaKeyTagToID t" v None r']
    by (cases e) (auto simp: updateTagResource_def split: store_error.splits)
qed

lemma update_tags_ok:
  assumes "cosi_lawful c keys" and "\<forall>t \<in> set ts. ReadTagBytes a t \<noteq> None"
  shows "update_tags c a ts r = (None, r') \<Longrightarrow>
    keys r' = (\<lambda>i. if i \<in> MetaKeyTagToID ` set ts then ReadTagBytes a (inv MetaKeyTagToID i) else keys r i)"
  using assms(2)
proof (induction ts arbitrary: r)
  case Nil
  then show ?case by simp
next
  case (Cons t ts)
  let ?v = "case ReadTagBytes a t of Some v \<Rightarrow> v | None \<Rightarrow> []"
  obtain e r1 where u: "updateTagResource c True r t ?v = (e, r1)" by (cases "updateTagResource c True r t ?v")
  with Cons.prems(1) have e: "e = None" and rest: "update_tags c a ts r1 = (None, r')"
    by (auto simp: Let_def split: option.splits)
  have "keys r1 = (keys r)(MetaKeyTagToID t \<mapsto> ?v)" using u e by (intro updateTagResource_ok [OF assms(1)]) simp
  moreover have "Some ?v = ReadTagBytes a t" using Cons.prems(2) by auto
  moreover have "inv MetaKeyTagToID (MetaKeyTagToID t) = t" by (intro inv_f_f injI) simp
  ultimately show ?case using Cons.IH [OF rest] Cons.prems(2) by (auto simp: fun_eq_iff)
qed

lemma destroy_items_ok:
  assumes "cosi_lawful c keys"
  shows "destroy_items c ex ids r = (None, r') \<Longrightarrow>
    keys r' = (\<lambda>i. if i \<in> set ids \<and> i \<notin> ex then None else keys r i)"
proof (induction ids arbitrary: r)
  case Nil
  then show ?case by simp
next
  case (Cons i ids)
  show ?case
  proof (cases "i \<in> ex")
    case True
    with Cons show ?thesis by (auto simp: fun_eq_iff)
  next
    case False
    obtain e r1 where d: "destroy_key c r i = (e, r1)" by (cases "destroy_key c r i")
    with Cons.prems False have "e = None" "destroy_items c ex ids r1 = (None, r')" by (auto split: option.splits)
    with Cons.IH [of r1] cosi_destroy [OF assms d] False show ?thesis by (auto simp: fun_eq_iff)
  qed
qed

text \<open>The resources mirror the current ADV: one resource per tag, with its value, and no other.\<close>

definition mirrors :: "('r \<Rightarrow> string \<Rightarrow> bytes option) \<Rightarrow> 'r \<Rightarrow> adv \<Rightarrow> bool" where
  "mirrors keys r a \<longleftrightarrow>
     (\<forall>t. keys r (MetaKeyTagToID t) = ReadTagBytes a t) \<and>
     (\<forall>i. keys r i \<noteq> None \<longrightarrow> i \<in> range MetaKeyTagToID)"

lemma syncState_mirrors:
  assumes "cosi_lawful c keys" and "fair_order ord" and "HasState m" and "syncState c ord m r = (None, r')"
  shows "mirrors keys r' (AdvState m)"
proof -
  let ?a = "AdvState m"
  let ?ts = "ListTags (ord (Tags ?a))"
  have listed: "t \<in> set ?ts \<longleftrightarrow> ReadTagBytes ?a t \<noteq> None" for t using assms(2) by (rule fair_listed)
  obtain e r1 where u: "update_tags c ?a ?ts r = (e, r1)" by (cases "update_tags c ?a ?ts r")
  with assms(3,4) have "e = None" by (auto simp: syncState_def Let_def split: option.splits)
  with u assms(3,4) obtain ids where l: "list_keys c r1 = Inr ids"
    and d: "destroy_items c (MetaKeyTagToID ` set ?ts) ids r1 = (None, r')"
    by (auto simp: syncState_def Let_def split: sum.splits)
  have k1: "keys r1 = (\<lambda>i. if i \<in> MetaKeyTagToID ` set ?ts then ReadTagBytes ?a (inv MetaKeyTagToID i) else keys r i)"
    using u \<open>e = None\<close> listed by (intro update_tags_ok [OF assms(1)]) auto
  have k2: "keys r' = (\<lambda>i. if i \<in> set ids \<and> i \<notin> MetaKeyTagToID ` set ?ts then None else keys r1 i)"
    using d by (rule destroy_items_ok [OF assms(1)])
  have ids: "i \<in> set ids \<longleftrightarrow> keys r1 i \<noteq> None" for i using cosi_list [OF assms(1) l] by auto
  have inv: "inv MetaKeyTagToID (MetaKeyTagToID t) = t" for t by (intro inv_f_f injI) simp
  have member: "MetaKeyTagToID t \<in> MetaKeyTagToID ` set ?ts \<longleftrightarrow> t \<in> set ?ts" for t by auto
  show ?thesis
    unfolding mirrors_def
  proof (intro conjI allI impI)
    fix t
    show "keys r' (MetaKeyTagToID t) = ReadTagBytes ?a t"
      using listed [of t] ids [of "MetaKeyTagToID t"] by (simp add: k2 k1 member inv)
  next
    fix i
    assume "keys r' i \<noteq> None"
    then have "i \<in> MetaKeyTagToID ` set ?ts" using ids [of i] by (auto simp: k2 split: if_splits)
    then show "i \<in> range MetaKeyTagToID" by blast
  qed
qed

lemma SetTag_mirrors:
  assumes "cosi_lawful c keys" and "HasState m" and "mirrors keys r (AdvState m)"
    and "SetTag c m t v r = ((ok, None), m', r')"
  shows "mirrors keys r' (AdvState m')"
proof -
  obtain ok1 a1 where s: "SetTagBytes (AdvState m) t v = (ok1, a1)" by (cases "SetTagBytes (AdvState m) t v")
  show ?thesis
  proof (cases ok1)
    case True
    with assms(2,4) s have u: "updateTagResource c True r t v = (None, r')" and m': "AdvState m' = a1"
      by (auto simp: SetTag_def Let_def split: prod.splits option.splits)
    have "keys r' = (keys r)(MetaKeyTagToID t \<mapsto> v)" using u by (rule updateTagResource_ok [OF assms(1)])
    moreover have "ReadTagBytes a1 t' = (if t' = t then Some v else ReadTagBytes (AdvState m) t')" for t'
      using s True by (intro SetTagBytes_read) simp
    ultimately show ?thesis using assms(3) m' by (auto simp: mirrors_def)
  next
    case False
    with assms(4) s SetTagBytes_cases [OF s] have "r' = r" "AdvState m' = AdvState m"
      by (auto simp: SetTag_def Let_def)
    with assms(3) show ?thesis by simp
  qed
qed

lemma DeleteTag_mirrors:
  assumes "cosi_lawful c keys" and "HasState m" and "mirrors keys r (AdvState m)"
    and "meta_DeleteTag c m t r = Ret ((ok, None), m', r')"
  shows "mirrors keys r' (AdvState m')"
proof -
  obtain ok1 a1 where s: "DeleteTag (AdvState m) t = (ok1, a1)" by (cases "DeleteTag (AdvState m) t")
  obtain e r1 where d: "destroy_key c r (MetaKeyTagToID t) = (e, r1)" by (cases "destroy_key c r (MetaKeyTagToID t)")
  have "AdvState m' = a1 \<and> (e = None \<or> e = Some StoreNotFound) \<and> r' = r1"
  proof (cases e)
    case None
    with assms(2,4) s d show ?thesis by (cases ok1) (auto simp: meta_DeleteTag_def Let_def)
  next
    case (Some x)
    with assms(2,4) s d show ?thesis by (cases ok1; cases x) (auto simp: meta_DeleteTag_def Let_def)
  qed
  then have m': "AdvState m' = a1" and e: "e = None \<or> e = Some StoreNotFound" and r': "r' = r1" by blast+
  have "keys r1 = (keys r)(MetaKeyTagToID t := None)"
    using cosi_destroy [OF assms(1) d] e by (auto simp: fun_eq_iff)
  moreover have "ReadTagBytes a1 t' = (if t' = t then None else ReadTagBytes (AdvState m) t')" for t'
    using s by (auto simp: DeleteTag_def ReadTagBytes_def gomap_simps)
  ultimately show ?thesis using assms(3) m' r' by (auto simp: mirrors_def)
qed

section \<open>Crashes while saving\<close>

lemma Unmarshal_mismatch:
  "sub_slice (length h - 36) (length h - 4) h \<noteq> sha (put_at (length h - 36) (replicate 32 0) h) \<Longrightarrow>
     \<exists>e. Unmarshal sha tags h = Ret (Some e, tags)"
  by (simp add: Unmarshal_def Let_def)

text \<open>The hash tells a block that is partly old and partly new from both: the collision resistance
  that the format relies on, for one pair of blocks.\<close>

definition detects_tears :: "(bytes \<Rightarrow> bytes) \<Rightarrow> bytes \<Rightarrow> bytes \<Rightarrow> bool" where
  "detects_tears sha old new \<longleftrightarrow>
     (\<forall>n < Length. let h = take n new @ drop n old in
        h = old \<or> h = new \<or>
        sub_slice (Length - 36) (Length - 4) h \<noteq> sha (put_at (Length - 36) (replicate 32 0) h))"

text \<open>A write of the two new copies over the two old ones that stops after n bytes.\<close>

lemma NewADV_torn:
  assumes sha: "\<And>b. length (sha b) = 32"
    and old: "Marshal sha it1 = Inr old" "gm_wf it1" "gm_get it1 0 = None"
    and new: "Marshal sha it2 = Inr new" "gm_wf it2" "gm_get it2 0 = None"
    and "detects_tears sha old new"
    and "take (2 * Length) data = take n (new @ new) @ drop n (old @ old)" and "2 * Length \<le> length data"
  shows "\<exists>it. NewADV sha (Some data) = Ret (Some \<lparr>Tags = it\<rparr>, None) \<and> (it = it1 \<or> it = it2) \<and>
    (Length \<le> n \<longrightarrow> it = it2)"
proof -
  have len: "length old = Length" "length new = Length"
    using Marshal_length [OF old(1)] Marshal_length [OF new(1)] sha by auto
  have first: "take Length data = take Length (take n (new @ new) @ drop n (old @ old))"
    using assms(9) by (metis take_take min.absorb1 le_add2 mult_2)
  show ?thesis
  proof (cases "Length \<le> n")
    case True
    then have "take Length data = new" using first len by simp
    with NewADV_blocks [OF sha new] True show ?thesis by blast
  next
    case False
    let ?h = "take n new @ drop n old"
    have h: "take Length data = ?h" using first False len by simp
    consider "?h = old" | "?h = new"
      | "sub_slice (Length - 36) (Length - 4) ?h \<noteq> sha (put_at (Length - 36) (replicate 32 0) ?h)"
      using assms(8) False unfolding detects_tears_def by (metis not_less)
    then show ?thesis
    proof cases
      case 1
      with h NewADV_blocks [OF sha old] False show ?thesis by auto
    next
      case 2
      with h NewADV_blocks [OF sha new] False show ?thesis by auto
    next
      case 3
      have lh: "length ?h = Length" using len False by simp
      from 3 Unmarshal_mismatch [of ?h sha "[]"] lh obtain e where bad: "Unmarshal sha [] ?h = Ret (Some e, [])" by auto
      have "take Length (drop Length data) = drop Length (take (2 * Length) data)" by (simp add: take_drop mult_2)
      also have "\<dots> = old" using assms(9) False len by simp
      finally have "take Length (drop Length data) = old" .
      moreover have "Unmarshal sha [] old = Ret (None, it1)"
      proof -
        have fits: "body_size it1 \<le> DataLength" using old(1) by (rule Marshal_Inr_fits)
        then show ?thesis
          using Unmarshal_block [of sha, OF _ fits old(2,3)] sha old(1) Marshal_fits [OF fits, of sha] by simp
      qed
      ultimately have "NewADV sha (Some data) = Ret (Some \<lparr>Tags = it1\<rparr>, None)"
        using h bad assms(10) by (simp add: NewADV_def)
      with False show ?thesis by auto
    qed
  qed
qed

lemma take_prefix_written:
  assumes "length old2 + 1024 \<le> length data" and "take (length old2) data = old2" and "length src = length old2" and "n \<le> length src"
  shows "take (length old2) (put_at 0 (take n src) data) = take n src @ drop n old2"
proof -
  have "put_at 0 (take n src) data = take n src @ drop n data" using assms(3,4) by (simp add: put_at_def min_absorb2)
  then have "take (length old2) (put_at 0 (take n src) data) = take n src @ take (length old2 - n) (drop n data)"
    using assms(3,4) by (simp add: min_absorb2)
  also have "take (length old2 - n) (drop n data) = drop n (take (length old2) data)" by (simp add: drop_take)
  finally show ?thesis using assms(2) by simp
qed

text \<open>Every way in which Flush can end leaves such a device.\<close>

lemma Flush_device:
  assumes op: "open_meta c k m w = (Inr (path, data), w0)" and fl: "Flush sha ord c k m w = (err, w1)"
    and b: "Marshal sha (ord (Tags (AdvState m))) = Inr b"
    and size: "2 * length b + 1024 \<le> length data" and legacy: "length (Legacy m) = 1024"
  shows "\<exists>data' n. Files w1 path = Some data' \<and> length data' = length data \<and> n \<le> 2 * length b \<and>
    take (2 * length b) data' = take n (b @ b) @ drop n (take (2 * length b) data) \<and> (err = None \<longrightarrow> n = 2 * length b)"
proof -
  obtain ok1 d1 where w1: "WriteAt k path 0 (b @ b) data = (ok1, d1)" by (cases "WriteAt k path 0 (b @ b) data")
  define n where "n = min (bytes_written k path 0 (b @ b)) (length (b @ b))"
  have n: "n \<le> 2 * length b" "ok1 \<longleftrightarrow> n = 2 * length b" "d1 = put_at 0 (take n (b @ b)) data"
    using w1 by (auto simp: WriteAt_def n_def Let_def)
  have len1: "length d1 = length data" unfolding n(3) using size n(1) by (intro length_put_at) simp
  have pre: "take (2 * length b) d1 = take n (b @ b) @ drop n (take (2 * length b) data)"
    unfolding n(3) using take_prefix_written [of "take (2 * length b) data" data "b @ b" n] size n(1) by simp
  obtain ok2 d2 where w2: "WriteAt k path (length d1 - 1024) (Legacy m) d1 = (ok2, d2)"
    by (cases "WriteAt k path (length d1 - 1024) (Legacy m) d1")
  then have d2: "d2 = put_at (length d1 - 1024) (take (min (bytes_written k path (length d1 - 1024) (Legacy m)) 1024) (Legacy m)) d1"
    using legacy by (auto simp: WriteAt_def Let_def)
  have len2: "length d2 = length data" unfolding d2 using len1 size legacy by (subst length_put_at) auto
  have pre2: "take (2 * length b) d2 = take (2 * length b) d1"
    unfolding d2 using len1 size legacy by (intro take_put_at) auto
  show ?thesis
  proof (cases ok1)
    case False
    with fl op b w1 have "Files w1 path = Some d1" "err \<noteq> None" by (auto simp: Flush_def Bytes_def Let_def)
    with len1 n(1) pre show ?thesis by auto
  next
    case True
    with fl op b w1 w2 len1 size legacy have "Files w1 path = Some d2"
      by (auto simp: Flush_def Bytes_def Let_def split: if_splits)
    with len2 n True pre pre2 show ?thesis by auto
  qed
qed


section \<open>Properties\<close>

definition meta_wf :: "meta \<Rightarrow> bool" where
  "meta_wf m \<longleftrightarrow> gm_wf (Tags (AdvState m)) \<and> ReadTagBytes (AdvState m) 0 = None \<and> length (Legacy m) = 1024"

lemma fair_read:
  assumes "fair_order ord" and "gm_wf (Tags a)"
  shows "gm_wf (ord (Tags a))" and "gm_get (ord (Tags a)) t = ReadTagBytes a t"
  using assms range_order_wf [of "Tags a" "ord (Tags a)"] range_order_get [of "Tags a" "ord (Tags a)" t]
  by (simp_all add: fair_order_def ReadTagBytes_def)

text \<open>What a load finds after a successful Flush.\<close>

lemma Flush_New:
  assumes sha: "\<forall>b. length (sha b) = 32" and fair: "fair_order ord" and wf: "meta_wf m"
    and op: "open_meta c k m w = (Inr (path, data), w0)" and size: "2 * Length + 1024 \<le> length data"
    and fl: "Flush sha ord c k m w = (None, w1)" and path: "path \<noteq> ''''"
  obtains err m' w2 where "New sha ord c k st path w1 = Ret (err, m', w2)"
    and "\<And>t. ReadTagBytes (AdvState m') t = ReadTagBytes (AdvState m) t" and "Legacy m' = Legacy m"
proof -
  from fl obtain path' data' w0' b where op': "open_meta c k m w = (Inr (path', data'), w0')"
    and b: "Marshal sha (ord (Tags (AdvState m))) = Inr b"
    and w1: "2 * length b \<le> length data' \<longrightarrow> w1 = w0'\<lparr>Files := (Files w0')(path' \<mapsto> flushed b (Legacy m) data')\<rparr>"
    and lock: "flock k path'" by (rule Flush_ok)
  from op op' have eqs: "path' = path" "data' = data" "w0' = w0" by simp_all
  have len: "length b = Length" using Marshal_length [OF b] sha by simp
  let ?d = "flushed b (Legacy m) data"
  from wf have legacy: "length (Legacy m) = 1024" by (simp add: meta_wf_def)
  note parts = flushed_parts [of b "Legacy m" data]
  have d: "take Length ?d = b" "length ?d = length data" "drop (length data - 1024) ?d = Legacy m"
    using parts size legacy len by auto
  have wf': "gm_wf (Tags (AdvState m))" using wf by (simp add: meta_wf_def)
  note order = fair_read [OF fair wf']
  have "NewADV sha (Some ?d) = Ret (Some \<lparr>Tags = ord (Tags (AdvState m))\<rparr>, None)"
    using NewADV_blocks [of sha, OF _ b order(1) _ d(1)] sha wf order(2) by (simp add: meta_wf_def)
  moreover have "Files w1 path = Some ?d" using w1 size len eqs by simp
  ultimately obtain err r m' where new: "New sha ord c k st path w1 = Ret (err, m', w1\<lparr>Res := r\<rparr>)"
    and adv: "AdvState m' = \<lparr>Tags = ord (Tags (AdvState m))\<rparr>" and leg: "Legacy m' = drop (length ?d - 1024) ?d"
    using path lock eqs fair d(2) size
    by (elim New_fixed [where c = c and st = st, rotated 3]) auto
  have "ReadTagBytes (AdvState m') t = ReadTagBytes (AdvState m) t" for t
    using adv order(2) by (simp add: ReadTagBytes_def)
  with new leg d(2,3) show ?thesis using that by simp
qed

text \<open>C17: what is saved is loaded again: when Flush succeeds on a partition that has room for both
  formats, a store opened on that partition reads every tag, current and legacy, as before.\<close>

theorem flush_new_roundtrip:
  assumes "\<forall>b. length (sha b) = 32" and "fair_order ord" and "meta_wf m"
    and "open_meta c k m w = (Inr (path, data), w0)" and "2 * Length + 1024 \<le> length data"
    and "Flush sha ord c k m w = (None, w1)" and "path \<noteq> ''''"
  shows "\<exists>err m' w2. New sha ord c k st path w1 = Ret (err, m', w2) \<and> (\<forall>t. ReadTag m' t = ReadTag m t)"
  using Flush_New [OF assms, of st] by (metis ReadTag_def)

text \<open>C5: saving is atomic: over a partition that holds two copies of an older block, however many
  bytes of its writes Flush gets onto the device before it fails, loading the device gives all the
  old tags or all the new ones, and the new ones when Flush reports success. The hash has to tell a
  torn block from the old and the new block.\<close>

theorem torn_flush_atomic:
  assumes "\<forall>b. length (sha b) = 32" and "fair_order ord" and "meta_wf m"
    and "open_meta c k m w = (Inr (path, old @ old @ rest), w0)" and "1024 \<le> length rest"
    and "Marshal sha it = Inr old" and "gm_wf it" and "gm_get it 0 = None"
    and "Marshal sha (ord (Tags (AdvState m))) = Inr new" and "detects_tears sha old new"
    and "Flush sha ord c k m w = (err, w1)"
  shows "\<exists>data a. Files w1 path = Some data \<and> NewADV sha (Some data) = Ret (Some a, None) \<and>
    ((\<forall>t. ReadTagBytes a t = gm_get it t) \<and> err \<noteq> None \<or> (\<forall>t. ReadTagBytes a t = ReadTagBytes (AdvState m) t))"
proof -
  have len: "length old = Length" "length new = Length"
    using Marshal_length [OF assms(6)] Marshal_length [OF assms(9)] assms(1) by auto
  have wf: "gm_wf (Tags (AdvState m))" and legacy: "length (Legacy m) = 1024" and zero: "ReadTagBytes (AdvState m) 0 = None"
    using assms(3) by (simp_all add: meta_wf_def)
  note order = fair_read [OF assms(2) wf]
  have size: "2 * length new + 1024 \<le> length (old @ old @ rest)" using assms(5) len by simp
  from Flush_device [OF assms(4,11,9) size legacy] obtain data n where
    stored: "Files w1 path = Some data" and l: "length data = length (old @ old @ rest)" and n: "n \<le> 2 * length new"
    and pre: "take (2 * length new) data = take n (new @ new) @ drop n (take (2 * length new) (old @ old @ rest))"
    and ok: "err = None \<longrightarrow> n = 2 * length new" by blast
  have "take (2 * length new) (old @ old @ rest) = old @ old" using len by simp
  with pre len have pre': "take (2 * Length) data = take n (new @ new) @ drop n (old @ old)" by simp
  have "2 * Length \<le> length data" using l len by simp
  from NewADV_torn [of sha, OF _ assms(6-9) order(1) _ assms(10) pre' this] order(2) zero assms(1)
  obtain it' where it': "NewADV sha (Some data) = Ret (Some \<lparr>Tags = it'\<rparr>, None)"
    "it' = it \<or> it' = ord (Tags (AdvState m))" "Length \<le> n \<longrightarrow> it' = ord (Tags (AdvState m))" by auto
  have "(\<forall>t. ReadTagBytes \<lparr>Tags = it'\<rparr> t = gm_get it t) \<and> err \<noteq> None \<or> (\<forall>t. ReadTagBytes \<lparr>Tags = it'\<rparr> t = ReadTagBytes (AdvState m) t)"
  proof (cases "it' = ord (Tags (AdvState m))")
    case True
    then show ?thesis using order(2) by (simp add: ReadTagBytes_def)
  next
    case False
    then have "it' = it" "err \<noteq> None" using it'(2,3) ok len by auto
    then show ?thesis by (simp add: ReadTagBytes_def)
  qed
  with stored it'(1) show ?thesis by blast
qed

text \<open>Loading merges: a tag that is not in memory is taken from the partition; for a tag that is,
  the value is the one in memory or the one on the partition, and the one in memory whenever both
  stores fit into the block together.\<close>

theorem reload_merges:
  assumes "fair_order ord" and "gm_wf (Tags (AdvState m))"
    and "open_meta c k m w = (Inr (path, data), w1)" and "NewADV sha (Some data) = Ret (Some a, e)"
    and "1024 \<le> length data"
  shows "\<exists>err m' w2. Reload sha ord c k m w = Ret (err, m', w2) \<and> Legacy m' = drop (length data - 1024) data \<and>
    (\<forall>t. ReadTagBytes (AdvState m) t = None \<longrightarrow> ReadTagBytes (AdvState m') t = ReadTagBytes a t) \<and>
    (\<forall>t v. ReadTagBytes (AdvState m) t = Some v \<longrightarrow>
       ReadTagBytes (AdvState m') t \<in> {Some v, ReadTagBytes a t} \<and>
       (20 + body_size (Tags a) + body_size (Tags (AdvState m)) \<le> DataLength \<longrightarrow> ReadTagBytes (AdvState m') t = Some v))"
proof -
  let ?ts = "ListTags (ord (Tags (AdvState m)))"
  let ?m = "loaded ord m a data"
  have adv: "AdvState ?m = copy_tags (AdvState m) ?ts a" by (simp add: loaded_def)
  have "ReadTagBytes (AdvState ?m) t = ReadTagBytes a t" if "ReadTagBytes (AdvState m) t = None" for t
    using that fair_listed [OF assms(1), of t "AdvState m"] by (simp add: adv copy_tags_other)
  moreover have "ReadTagBytes (AdvState ?m) t \<in> {Some v, ReadTagBytes a t}" if "ReadTagBytes (AdvState m) t = Some v" for t v
    using that copy_tags_cases [of "AdvState m" ?ts a t] by (auto simp: adv)
  moreover have "ReadTagBytes (AdvState ?m) t = Some v"
    if "ReadTagBytes (AdvState m) t = Some v" and "20 + body_size (Tags a) + body_size (Tags (AdvState m)) \<le> DataLength" for t v
    using that copy_tags_fits [OF fair_distinct [OF assms(1,2)], of t a "AdvState m"] fair_sum [OF assms(1,2)]
      fair_listed [OF assms(1), of t "AdvState m"] by (simp add: adv)
  moreover have "Legacy ?m = drop (length data - 1024) data" by (simp add: loaded_def)
  moreover have "\<exists>err w2. Reload sha ord c k m w = Ret (err, ?m, w2)"
    using Reload_loaded [OF assms(3-5), of ord] by (simp add: Let_def case_prod_beta)
  ultimately show ?thesis by blast
qed

text \<open>The MetaKey resources mirror the current tags: a synchronisation that succeeds makes them
  exactly the tags, and SetTag and DeleteTag keep them so whenever they return no error.\<close>

theorem resources_mirror:
  assumes "cosi_lawful c keys" and "fair_order ord" and "HasState m"
  shows "(\<forall>r r'. syncState c ord m r = (None, r') \<longrightarrow> mirrors keys r' (AdvState m)) \<and>
    (\<forall>r r' t v ok m'. mirrors keys r (AdvState m) \<longrightarrow> SetTag c m t v r = ((ok, None), m', r') \<longrightarrow> mirrors keys r' (AdvState m')) \<and>
    (\<forall>r r' t ok m'. mirrors keys r (AdvState m) \<longrightarrow> meta_DeleteTag c m t r = Ret ((ok, None), m', r') \<longrightarrow> mirrors keys r' (AdvState m'))"
  using syncState_mirrors [OF assms(1-3)] SetTag_mirrors [OF assms(1,3)] DeleteTag_mirrors [OF assms(1,3)] by blast

text \<open>DeleteTag removes a tag from one of the two formats: when the legacy one has it too, DeleteTag
  reports success and the tag still reads, with its legacy value.\<close>

lemma delete_uncovers_legacy:
  assumes "\<not> HasState m" and "ReadTagBytes (AdvState m) t \<noteq> None" and "ReadTagBytes_legacy (Legacy m) t = Some old"
  shows "\<exists>m'. meta_DeleteTag c m t r = Ret ((True, None), m', r) \<and> ReadTag m' t = Some old"
proof -
  obtain a where d: "DeleteTag (AdvState m) t = (True, a)"
    using assms(2) by (simp add: DeleteTag_def gm_has_get ReadTagBytes_def)
  then have "ReadTagBytes a t = None" by (auto simp: DeleteTag_def ReadTagBytes_def gomap_simps)
  with d assms show ?thesis by (simp add: meta_DeleteTag_def ReadTag_def)
qed

lemma meta_DeleteTag_present:
  assumes "ReadTagBytes (AdvState m) t \<noteq> None"
  obtains err r' where "meta_DeleteTag c m t r = Ret ((True, err), m\<lparr>AdvState := snd (DeleteTag (AdvState m) t)\<rparr>, r')"
proof -
  have ok: "fst (DeleteTag (AdvState m) t)" using assms by (simp add: DeleteTag_def gm_has_get ReadTagBytes_def)
  then have "\<exists>err r'. meta_DeleteTag c m t r = Ret ((True, err), m\<lparr>AdvState := snd (DeleteTag (AdvState m) t)\<rparr>, r')"
    by (auto simp: meta_DeleteTag_def Let_def case_prod_beta split: option.splits store_error.splits)
  then show ?thesis using that by blast
qed

lemma DeleteTag_read: "ReadTagBytes (snd (DeleteTag a t)) t' = (if t' = t then None else ReadTagBytes a t')"
  by (simp add: DeleteTag_def ReadTagBytes_def gomap_simps)

lemma meta_wf_delete: "meta_wf m \<Longrightarrow> meta_wf (m\<lparr>AdvState := snd (DeleteTag (AdvState m) t)\<rparr>)"
  by (simp add: meta_wf_def DeleteTag_read) (simp add: DeleteTag_def gomap_simps)

text \<open>A staged upgrade runs once: when a machine finds a staged upgrade and goes ahead with it,
  its image reference and options are those that were stored, and a machine that loads the same
  partition afterwards finds no staged upgrade, so an upgrade that fails does not loop. The legacy
  format must not hold the two tags, which DeleteTag would leave there.\<close>

theorem staged_upgrade_once:
  assumes "\<forall>b. length (sha b) = 32" and "fair_order ord" and "meta_wf (StMeta s)"
    and "FixedPath (StMeta s) = path" and "path \<noteq> ''''" and "flock k path"
    and "Files w path = Some data" and "2 * Length + 1024 \<le> length data"
    and "ReadTagBytes_legacy (Legacy (StMeta s)) StagedUpgradeImageRef = None"
    and "ReadTagBytes_legacy (Legacy (StMeta s)) StagedUpgradeInstallOptions = None"
    and "probeMeta sha ord c k s w = Ret (s', w')" and "StagedInstall s'"
  shows "ReadTag (StMeta s) StagedUpgradeImageRef = Some (StagedInstallImageRef s') \<and>
    ReadTag (StMeta s) StagedUpgradeInstallOptions = Some (StagedInstallOptions s') \<and>
    (\<exists>err m w2. New sha ord c k st path w' = Ret (err, m, w2) \<and>
       (\<forall>s2. StMeta s2 = m \<longrightarrow> probeMeta sha ord c k s2 w2 = Ret (s2\<lparr>StagedInstall := False\<rparr>, w2)))"
proof -
  let ?m = "StMeta s"
  from assms(11,12) obtain ref opts where tags: "ReadTag ?m StagedUpgradeImageRef = Some ref"
    "ReadTag ?m StagedUpgradeInstallOptions = Some opts"
    by (auto simp: probeMeta_def split: option.splits)
  have adv: "ReadTagBytes (AdvState ?m) StagedUpgradeImageRef \<noteq> None"
    "ReadTagBytes (AdvState ?m) StagedUpgradeInstallOptions \<noteq> None"
    using tags assms(9,10) by (auto simp: ReadTag_def split: option.splits)
  let ?m1 = "?m\<lparr>AdvState := snd (DeleteTag (AdvState ?m) StagedUpgradeImageRef)\<rparr>"
  let ?m2 = "?m1\<lparr>AdvState := snd (DeleteTag (AdvState ?m1) StagedUpgradeInstallOptions)\<rparr>"
  obtain err1 r1 where d1: "meta_DeleteTag c ?m StagedUpgradeImageRef (Res w) = Ret ((True, err1), ?m1, r1)"
    using adv(1) by (rule meta_DeleteTag_present)
  have "ReadTagBytes (AdvState ?m1) StagedUpgradeInstallOptions \<noteq> None"
    using adv(2) by (simp add: DeleteTag_read StagedUpgradeImageRef_def StagedUpgradeInstallOptions_def)
  then obtain err2 r2 where d2: "meta_DeleteTag c ?m1 StagedUpgradeInstallOptions r1 = Ret ((True, err2), ?m2, r2)"
    by (rule meta_DeleteTag_present)
  obtain err w1 where fl: "Flush sha ord c k ?m2 (w\<lparr>Res := r2\<rparr>) = (err, w1)"
    by (cases "Flush sha ord c k ?m2 (w\<lparr>Res := r2\<rparr>)")
  have "probeMeta sha ord c k s w = Ret (s\<lparr>StMeta := ?m2, StagedInstall := (err = None \<and> err1 = None \<and> err2 = None),
      StagedInstallImageRef := ref, StagedInstallOptions := opts\<rparr>, w1)"
    using tags d1 d2 fl by (simp add: probeMeta_def)
  with assms(11,12) have res: "err = None" "w' = w1" "StagedInstallImageRef s' = ref" "StagedInstallOptions s' = opts"
    by auto
  have op: "open_meta c k ?m2 (w\<lparr>Res := r2\<rparr>) = (Inr (path, data), w\<lparr>Res := r2\<rparr>)"
    using open_fixed [of ?m2 k "w\<lparr>Res := r2\<rparr>" data c] assms(4-7) by simp
  have wf: "meta_wf ?m2" using meta_wf_delete [OF meta_wf_delete [OF assms(3)]] by simp
  from Flush_New [OF assms(1,2) wf op assms(8) fl [unfolded res] assms(5), of st]
  obtain e m w2 where new: "New sha ord c k st path w1 = Ret (e, m, w2)"
    and read: "\<And>t. ReadTagBytes (AdvState m) t = ReadTagBytes (AdvState ?m2) t" and leg: "Legacy m = Legacy ?m2" by metis
  have "ReadTag m StagedUpgradeImageRef = None"
    using read [of StagedUpgradeImageRef] leg assms(9)
    by (simp add: ReadTag_def DeleteTag_read StagedUpgradeImageRef_def StagedUpgradeInstallOptions_def)
  then have "probeMeta sha ord c k s2 w2 = Ret (s2\<lparr>StagedInstall := False\<rparr>, w2)" if "StMeta s2 = m" for s2
    using that by (simp add: probeMeta_def)
  with new res tags show ?thesis by blast
qed

section \<open>Witnesses\<close>

text \<open>A store of resources as a map, a kernel that grants everything, a hash of zeros, and a blank
  partition.\<close>

definition demo_cosi :: "((string, bytes) gomap) cosi" where
  "demo_cosi =
     \<lparr>wait_meta_volume = (\<lambda>r. (Inl StoreFailed, r)),
      add_finalizer = (\<lambda>r. (None, r)),
      update_key = (\<lambda>r i v. if gm_has r i then (None, gm_set r i v) else (Some StoreNotFound, r)),
      create_key = (\<lambda>r i v. (None, gm_set r i v)),
      destroy_key = (\<lambda>r i. if gm_has r i then (None, gm_del r i) else (Some StoreNotFound, r)),
      list_keys = (\<lambda>r. Inr (gm_keys r))\<rparr>"

definition demo_kernel :: kernel where
  "demo_kernel = \<lparr>parent_lock = (\<lambda>_. True), flock = (\<lambda>_. True), bytes_written = (\<lambda>_ _ bs. length bs), fsync = (\<lambda>_. True)\<rparr>"

definition torn_kernel :: kernel where
  "torn_kernel = demo_kernel\<lparr>bytes_written := (\<lambda>_ _ _. 5)\<rparr>"

definition demo_sha :: "bytes \<Rightarrow> bytes" where
  "demo_sha = (\<lambda>_. replicate 32 0)"

definition demo_meta :: "tag_map \<Rightarrow> meta" where
  "demo_meta m = \<lparr>Legacy = replicate 1024 0, AdvState = \<lparr>Tags = m\<rparr>, HasState = False, FixedPath = ''m''\<rparr>"

definition demo_disk :: "bytes \<Rightarrow> ((string, bytes) gomap) meta_world" where
  "demo_disk data = \<lparr>Res = [], Files = [''m'' \<mapsto> data]\<rparr>"

definition blank :: bytes where
  "blank = replicate (2 * Length + 1024) 0"

lemma demo_facts:
  "\<forall>b. length (demo_sha b) = 32" "fair_order (\<lambda>m. m)" "flock demo_kernel p" "flock torn_kernel p"
  "length blank = 2 * Length + 1024"
  by (simp_all add: demo_sha_def fair_order_def demo_kernel_def torn_kernel_def blank_def)

lemma demo_wf: "gm_wf m \<Longrightarrow> gm_get m 0 = None \<Longrightarrow> meta_wf (demo_meta m)"
  by (simp add: meta_wf_def demo_meta_def ReadTagBytes_def)

lemma demo_open: "flock k ''m'' \<Longrightarrow> open_meta demo_cosi k (demo_meta m) (demo_disk data) = (Inr (''m'', data), demo_disk data)"
  by (simp add: open_meta_def getPath_def demo_meta_def demo_disk_def)

lemma demo_lawful: "cosi_lawful demo_cosi gm_get"
  by (auto simp: cosi_lawful_def demo_cosi_def gm_has_get fun_eq_iff gomap_simps gm_keys_get split: if_splits)

lemma demo_flush:
  assumes "open_meta demo_cosi demo_kernel m w = (Inr (path, data), w0)" and "body_size (Tags (AdvState m)) \<le> DataLength"
    and "length (Legacy m) = 1024" and "length data = 2 * Length + 1024"
  shows "\<exists>w1. Flush demo_sha (\<lambda>m. m) demo_cosi demo_kernel m w = (None, w1)"
proof -
  obtain b where b: "Marshal demo_sha (Tags (AdvState m)) = Inr b" using Marshal_fits [OF assms(2)] by blast
  have len: "length b = Length" using Marshal_length [OF b] demo_facts(1) by blast
  have "length (put_at 0 (b @ b) data) = length data" using len assms(4) by (intro length_put_at) simp
  then show ?thesis
    using assms b len by (simp add: Flush_def Bytes_def WriteAt_def demo_kernel_def Let_def)
qed

theorem flush_new_roundtrip_witness:
  "\<exists>w1 err m' w2. Flush demo_sha (\<lambda>m. m) demo_cosi demo_kernel (demo_meta [(6, [65])]) (demo_disk blank) = (None, w1) \<and>
     New demo_sha (\<lambda>m. m) demo_cosi demo_kernel True ''m'' w1 = Ret (err, m', w2) \<and> ReadTag m' 6 = Some [65]"
proof -
  let ?m = "demo_meta [(6, [65])]"
  have wf: "meta_wf ?m" by (rule demo_wf) (simp_all add: gm_wf_def gm_get_def)
  note op = demo_open [of demo_kernel "[(6, [65])]" blank, OF demo_facts(3)]
  have "body_size (Tags (AdvState ?m)) \<le> DataLength" using Length_bounds by (simp add: demo_meta_def)
  then obtain w1 where fl: "Flush demo_sha (\<lambda>m. m) demo_cosi demo_kernel ?m (demo_disk blank) = (None, w1)"
    using demo_flush [OF op] demo_facts(5) by (auto simp: demo_meta_def)
  have "ReadTag ?m 6 = Some [65]" by (simp add: ReadTag_def demo_meta_def ReadTagBytes_def gm_get_def)
  with fl flush_new_roundtrip [OF demo_facts(1,2) wf op _ fl, of True] demo_facts(5) show ?thesis by auto
qed

text \<open>Two blocks that differ in one byte: every torn block is one of the two.\<close>

lemma one_byte_tear:
  "take n (xs @ v # ys) @ drop n (xs @ u # ys) = xs @ u # ys \<or> take n (xs @ v # ys) @ drop n (xs @ u # ys) = xs @ v # ys"
proof (cases "n \<le> length xs")
  case True
  then have "n - length xs = 0" by simp
  then have "take n (xs @ v # ys) @ drop n (xs @ u # ys) = (take n xs @ drop n xs) @ u # ys"
    by (simp only: take_append drop_append take_0 drop_0 append_Nil2 append_assoc)
  also have "\<dots> = xs @ u # ys" by simp
  finally have "take n (xs @ v # ys) @ drop n (xs @ u # ys) = xs @ u # ys" .
  then show ?thesis ..
next
  case False
  then obtain j where "n - length xs = Suc j" by (metis Suc_diff_Suc not_le)
  then show ?thesis using False by simp
qed

lemma one_byte_blocks:
  "\<exists>xs ys. \<forall>v. Marshal demo_sha [(6, [v])] = Inr (xs @ v # ys)"
proof -
  define base where "base = put_at (Length - 4) (put_be32 Magic2) (put_at 0 (put_be32 Magic1) (replicate Length (0 :: u8)))"
  have base: "length base = Length" using Length_bounds by (simp add: base_def length_put_at)
  define xs where "xs = take 4 base @ [0, 0, 0, 6, 0, 0, 0, 1]"
  define ys where "ys = drop 13 base"
  have raw: "raw_block [(6, [v])] = xs @ v # ys" for v
    unfolding raw_block_def base_def [symmetric]
    by (simp add: put_at_def encode_tag_def put_be32_def xs_def ys_def)
  have lx: "length xs = 12" using base Length_bounds by (simp add: xs_def)
  obtain q where q: "Length = q + 49"
    by (rule that [of "Length - 49"]) (use Length_bounds in simp)
  have "put_at (q + 13) (replicate 32 0) (xs @ v # ys) = xs @ v # (take q ys @ replicate 32 0 @ drop (q + 32) ys)" for v
    using lx by (simp add: put_at_def drop_Cons' add.commute)
  then have "put_at (Length - 36) (replicate 32 0) (xs @ v # ys) = xs @ v # (take q ys @ replicate 32 0 @ drop (q + 32) ys)" for v
    by (simp add: q add.commute)
  moreover have "Marshal demo_sha [(6, [v])] = Inr (put_at (Length - 36) (replicate 32 0) (raw_block [(6, [v])]))" for v
    using Marshal_fits [of "[(6, [v])]" demo_sha] Length_bounds by (simp add: demo_sha_def)
  ultimately show ?thesis by (auto simp: raw)
qed

theorem torn_flush_atomic_witness:
  "\<exists>old w1 err data a. Flush demo_sha (\<lambda>m. m) demo_cosi torn_kernel (demo_meta [(6, [66])]) (demo_disk (old @ old @ replicate 1024 0)) = (err, w1) \<and>
     Files w1 ''m'' = Some data \<and> NewADV demo_sha (Some data) = Ret (Some a, None) \<and> ReadTagBytes a 6 \<in> {Some [65], Some [66]}"
proof -
  let ?m = "demo_meta [(6, [66])]"
  obtain xs ys where blocks: "\<And>v. Marshal demo_sha [(6, [v])] = Inr (xs @ v # ys)" using one_byte_blocks by blast
  let ?old = "xs @ 65 # ys" and ?new = "xs @ 66 # ys"
  let ?data = "?old @ ?old @ replicate 1024 0"
  obtain err w1 where fl: "Flush demo_sha (\<lambda>m. m) demo_cosi torn_kernel ?m (demo_disk ?data) = (err, w1)"
    by (cases "Flush demo_sha (\<lambda>m. m) demo_cosi torn_kernel ?m (demo_disk ?data)")
  have wf: "meta_wf ?m" by (rule demo_wf) (simp_all add: gm_wf_def gm_get_def)
  have tears: "detects_tears demo_sha ?old ?new"
    unfolding detects_tears_def Let_def
    using one_byte_tear [of _ xs 66 ys 65] by (intro allI impI) (elim disjE meta_allE; blast)
  have marshal: "Marshal demo_sha (Tags (AdvState ?m)) = Inr ?new" using blocks by (simp add: demo_meta_def)
  from torn_flush_atomic [OF demo_facts(1,2) wf demo_open [OF demo_facts(4)] _ blocks _ _ marshal tears fl]
  obtain data a where "Files w1 ''m'' = Some data" "NewADV demo_sha (Some data) = Ret (Some a, None)"
    "ReadTagBytes a 6 = gm_get [(6, [65])] 6 \<or> ReadTagBytes a 6 = ReadTagBytes (AdvState ?m) 6"
    by (auto simp: gm_wf_def gm_get_def)
  then show ?thesis using fl by (fastforce simp: gm_get_def ReadTagBytes_def demo_meta_def)
qed

theorem reload_merges_witness:
  "\<exists>b err m' w2. Reload demo_sha (\<lambda>m. m) demo_cosi demo_kernel (demo_meta [(6, [65])]) (demo_disk (b @ blank)) = Ret (err, m', w2) \<and>
     ReadTagBytes (AdvState m') 6 = Some [65] \<and> ReadTagBytes (AdvState m') 7 = Some [66]"
proof -
  have fits: "body_size [(7, [66])] \<le> DataLength" using Length_bounds by simp
  obtain b where b: "Marshal demo_sha [(7, [66])] = Inr b" using Marshal_fits [OF fits] by blast
  have len: "length b = Length" using Marshal_length [OF b] demo_facts(1) by blast
  have new: "NewADV demo_sha (Some (b @ blank)) = Ret (Some \<lparr>Tags = [(7, [66])]\<rparr>, None)"
    by (rule NewADV_blocks [OF _ b]) (use demo_facts(1) len in \<open>auto simp: gm_wf_def gm_get_def\<close>)
  have room: "20 + body_size (Tags \<lparr>Tags = [(7, [66])]\<rparr>) + body_size (Tags (AdvState (demo_meta [(6, [65])]))) \<le> DataLength"
    by (simp add: demo_meta_def DataLength_def Length_def)
  have "gm_wf (Tags (AdvState (demo_meta [(6, [65])])))" by (simp add: demo_meta_def gm_wf_def)
  from reload_merges [OF demo_facts(2) this demo_open [OF demo_facts(3)] new] demo_facts(5)
  obtain err m' w2 where "Reload demo_sha (\<lambda>m. m) demo_cosi demo_kernel (demo_meta [(6, [65])]) (demo_disk (b @ blank)) = Ret (err, m', w2)"
    and none: "\<forall>t. ReadTagBytes (AdvState (demo_meta [(6, [65])])) t = None \<longrightarrow> ReadTagBytes (AdvState m') t = ReadTagBytes \<lparr>Tags = [(7, [66])]\<rparr> t"
    and some: "\<forall>t v. ReadTagBytes (AdvState (demo_meta [(6, [65])])) t = Some v \<longrightarrow> ReadTagBytes (AdvState m') t = Some v"
    using room by fastforce
  moreover have "ReadTagBytes (AdvState m') 6 = Some [65]" "ReadTagBytes (AdvState m') 7 = Some [66]"
    using spec [OF none, of 7] spec [OF spec [OF some, of 6], of "[65]"] by (simp_all add: demo_meta_def ReadTagBytes_def gm_get_def)
  ultimately show ?thesis by blast
qed

theorem resources_mirror_witness:
  "mirrors gm_get (snd (syncState demo_cosi (\<lambda>m. m) ((demo_meta [(6, [65])])\<lparr>HasState := True\<rparr>) [(''0x07'', [1])])) \<lparr>Tags = [(6, [65])]\<rparr>"
proof -
  let ?m = "(demo_meta [(6, [65])])\<lparr>HasState := True\<rparr>"
  have "syncState demo_cosi (\<lambda>m. m) ?m [(''0x07'', [1])] = (None, [(''0x06'', [65])])"
    by (simp add: syncState_def demo_meta_def demo_cosi_def ListTags_def updateTagResource_def MetaKeyTagToID_def
        hex_digits_def ReadTagBytes_def gm_get_def gm_has_def gm_set_def gm_keys_def gm_del_def)
  with resources_mirror [OF demo_lawful demo_facts(2), of ?m] show ?thesis by (auto simp: demo_meta_def)
qed

theorem staged_upgrade_once_witness:
  "\<exists>w1 s'. probeMeta demo_sha (\<lambda>m. m) demo_cosi demo_kernel
      \<lparr>StMeta = demo_meta [(7, [65]), (8, [66])], StContainer = False, StagedInstall = False, StagedInstallImageRef = [], StagedInstallOptions = []\<rparr>
      (demo_disk blank) = Ret (s', w1) \<and> StagedInstallImageRef s' = [65] \<and>
      (\<exists>err m w2. New demo_sha (\<lambda>m. m) demo_cosi demo_kernel False ''m'' w1 = Ret (err, m, w2))"
proof -
  let ?m = "demo_meta [(7, [65]), (8, [66])]"
  let ?s = "\<lparr>StMeta = ?m, StContainer = False, StagedInstall = False, StagedInstallImageRef = [], StagedInstallOptions = []\<rparr>"
  have tags: "ReadTag ?m StagedUpgradeImageRef = Some [65]" "ReadTag ?m StagedUpgradeInstallOptions = Some [66]"
    by (simp_all add: ReadTag_def demo_meta_def ReadTagBytes_def gm_get_def StagedUpgradeImageRef_def StagedUpgradeInstallOptions_def)
  have legacy: "ReadTagBytes_legacy (Legacy ?m) t = None" for t
    using fresh_chain [of t] by (simp add: demo_meta_def ReadTagBytes_legacy_def)
  have del: "meta_DeleteTag demo_cosi ?m StagedUpgradeImageRef [] = Ret ((True, None), demo_meta [(8, [66])], [])"
    "meta_DeleteTag demo_cosi (demo_meta [(8, [66])]) StagedUpgradeInstallOptions [] = Ret ((True, None), demo_meta [], [])"
    by (simp_all add: meta_DeleteTag_def demo_meta_def DeleteTag_def gm_has_def gm_del_def StagedUpgradeImageRef_def StagedUpgradeInstallOptions_def)
  have op: "open_meta demo_cosi demo_kernel (demo_meta []) (demo_disk blank) = (Inr (''m'', blank), demo_disk blank)"
    by (rule demo_open) (rule demo_facts)
  obtain w1 where fl: "Flush demo_sha (\<lambda>m. m) demo_cosi demo_kernel (demo_meta []) (demo_disk blank) = (None, w1)"
    using demo_flush [OF op] demo_facts(5) by (auto simp: demo_meta_def)
  have res: "(demo_disk blank)\<lparr>Res := []\<rparr> = demo_disk blank" "Res (demo_disk blank) = []" by (simp_all add: demo_disk_def)
  let ?s' = "?s\<lparr>StMeta := demo_meta [], StagedInstall := True, StagedInstallImageRef := [65], StagedInstallOptions := [66]\<rparr>"
  have probe: "probeMeta demo_sha (\<lambda>m. m) demo_cosi demo_kernel ?s (demo_disk blank) = Ret (?s', w1)"
    using tags del fl by (simp add: probeMeta_def res)
  have wf: "meta_wf ?m" by (rule demo_wf) (simp_all add: gm_wf_def gm_get_def)
  have "\<exists>err m w2. New demo_sha (\<lambda>m. m) demo_cosi demo_kernel False ''m'' w1 = Ret (err, m, w2)"
    using staged_upgrade_once [OF demo_facts(1,2) _ _ _ demo_facts(3) _ _ _ _ probe, of "''m''" blank False] wf legacy demo_facts(5)
    by (auto simp: demo_meta_def demo_disk_def)
  with probe show ?thesis by auto
qed

end
