(* ===== verification/VolumeOps.thy ===== *)
theory VolumeOps
  imports BlockTypes "HOL-Library.State_Monad"
begin

text \<open>
  The volume operations of internal/app/machined/pkg/controllers/block/internal/volumes: locate and
  provision, partition, grow, encrypt, format and close. An operation updates the volume status and
  may fail in the middle, so it runs in a state of the status and the history of the calls it made
  outside of the repository (block devices, blkid, GPT, mkfs, LUKS). The answers to these calls are
  the parameter \<open>env\<close>; an answer may depend on the whole history. The deferred Close, Unlock and
  Unmount calls, whose errors the code drops, and log lines are left out.
\<close>

section \<open>Calls, answers and the state of an operation\<close>

datatype call =
    OpenDev string bool
  | LockDev string
  | TryLockDev string
  | ProbePath string
  | GptDevice string
  | GptRead string
  | GptNew string
  | LargestFree string
  | AvailableGrowth string int
  | AllocatePartition string u64 string
  | GrowPartition string int u64
  | WriteGPT string
  | WipeDev string
  | MkfsXFS string bool string
  | MkfsExt4 string string
  | MkSwap string string
  | MkdirTemp
  | MountXFS string
  | XFSGrow
  | Ext4Resize string
  | FormatAndEncrypt string
  | OpenLUKS string string
  | CloseLUKS string
  | EvalSymlinks string
  | CheckCtx

record blkid_info =
  InfoName :: string
  InfoSize :: u64
  InfoSectorSize :: u64

record Disk =
  DevPath :: string
  Readonly :: bool

record DiskContext =
  DiskOf :: Disk
  SystemDisk :: "bool option"

record DiscoveredVolume =
  DvDevPath :: string
  DvParentDevPath :: string
  DvPartitionIndex :: int
  DvUuid :: string
  DvPartitionUuid :: string
  DvSize :: u64

text \<open>The answers: whether a call without a result succeeds, the results of the others (None for an
  error), and the pure functions of CEL, uuid and partitioning.\<close>

record vol_env =
  call_ok :: "call list \<Rightarrow> call \<Rightarrow> bool"
  probe :: "call list \<Rightarrow> string \<Rightarrow> blkid_info option"
  largest_free :: "call list \<Rightarrow> string \<Rightarrow> u64"
  avail_growth :: "call list \<Rightarrow> string \<Rightarrow> int \<Rightarrow> u64 option"
  allocate :: "call list \<Rightarrow> string \<Rightarrow> u64 \<Rightarrow> string \<Rightarrow> (int \<times> string) option"
  luks_open :: "call list \<Rightarrow> string \<Rightarrow> string \<Rightarrow> (string \<times> int \<times> string list) option"
  eval_symlinks :: "call list \<Rightarrow> string \<Rightarrow> string option"
  match_volume :: "expr \<Rightarrow> DiscoveredVolume \<Rightarrow> Disk option \<Rightarrow> bool option"
  match_volume_disk :: "expr \<Rightarrow> Disk option \<Rightarrow> bool option"
  match_disk :: "expr \<Rightarrow> Disk \<Rightarrow> bool \<Rightarrow> bool option"
  dev_name :: "string \<Rightarrow> int \<Rightarrow> string"
  uuid_ok :: "string \<Rightarrow> bool"
  handler_ok :: "EncryptionSpec \<Rightarrow> string \<Rightarrow> bool"

record ManagerContext =
  CfgID :: string
  Cfg :: VolumeConfigSpec
  DiscoveredVolumes :: "DiscoveredVolume list"
  Disks :: "DiskContext list"
  DevicesReady :: bool
  PreviousWaveProvisioned :: bool
  ShouldCloseVolume :: bool

text \<open>An error and whether it is tagged Retryable; a panic; the step bound of the automaton.\<close>

datatype vol_error = VErr bool string | VPanic | VSteps

record world =
  status :: VolumeStatusSpec
  history :: "call list"

type_synonym 'a io = "(world, vol_error + 'a) state"

definition ok :: "'a \<Rightarrow> 'a io" where
  "ok x = State_Monad.return (Inr x)"

definition fail :: "vol_error \<Rightarrow> 'a io" where
  "fail e = State_Monad.return (Inl e)"

definition andThen :: "'a io \<Rightarrow> ('a \<Rightarrow> 'b io) \<Rightarrow> 'b io" where
  "andThen m f = State_Monad.bind m (\<lambda>r. case r of Inl e \<Rightarrow> fail e | Inr x \<Rightarrow> f x)"

definition orElse :: "'a io \<Rightarrow> 'a \<Rightarrow> 'a io" where
  "orElse m x = State_Monad.bind m (\<lambda>r. case r of Inl VPanic \<Rightarrow> fail VPanic | Inl e \<Rightarrow> ok x | Inr y \<Rightarrow> ok y)"

definition query :: "call \<Rightarrow> (call list \<Rightarrow> 'a) \<Rightarrow> 'a io" where
  "query c q = State (\<lambda>w. (Inr (q (history w)), w\<lparr>history := history w @ [c]\<rparr>))"

definition try_query :: "call \<Rightarrow> (call list \<Rightarrow> 'a option) \<Rightarrow> vol_error \<Rightarrow> 'a io" where
  "try_query c q e = andThen (query c q) (\<lambda>r. case r of None \<Rightarrow> fail e | Some x \<Rightarrow> ok x)"

definition do_call :: "vol_env \<Rightarrow> call \<Rightarrow> vol_error \<Rightarrow> unit io" where
  "do_call env c e = andThen (query c (\<lambda>h. call_ok env h c)) (\<lambda>b. if b then ok () else fail e)"

definition get_status :: "VolumeStatusSpec io" where
  "get_status = State (\<lambda>w. (Inr (status w), w))"

definition set_status :: "(VolumeStatusSpec \<Rightarrow> VolumeStatusSpec) \<Rightarrow> unit io" where
  "set_status f = State (\<lambda>w. (Inr (), w\<lparr>status := f (status w)\<rparr>))"

section \<open>Checking a disk and creating a partition\<close>

datatype DiskRejectedReason = GeneralError | NotEnoughSpace | WrongFormat

record CheckDiskResult =
  CanProvision :: bool
  HasGPT :: bool
  DiskSize :: u64
  RejectedReason :: DiskRejectedReason

definition zero_CheckDiskResult :: CheckDiskResult where
  "zero_CheckDiskResult = \<lparr>CanProvision = False, HasGPT = False, DiskSize = 0, RejectedReason = GeneralError\<rparr>"

text \<open>Every error of the check returns the zero result, which rejects the disk.\<close>

definition check_gpt :: "vol_env \<Rightarrow> string \<Rightarrow> VolumeConfigSpec \<Rightarrow> blkid_info \<Rightarrow> CheckDiskResult io" where
  "check_gpt env disk cfg info =
     andThen (do_call env (OpenDev disk False) (VErr False ''error opening disk'')) (\<lambda>_.
     andThen (do_call env (TryLockDev disk) (VErr False ''error locking disk'')) (\<lambda>_.
     andThen (do_call env (GptDevice disk) (VErr False ''error getting GPT device'')) (\<lambda>_.
     andThen (do_call env (GptRead disk) (VErr False ''error reading GPT'')) (\<lambda>_.
     andThen (query (LargestFree disk) (\<lambda>h. largest_free env h disk)) (\<lambda>available.
       ok \<lparr>CanProvision = available \<ge> MinSize (PartSpec (Provisioning cfg)), HasGPT = True,
           DiskSize = InfoSize info, RejectedReason = NotEnoughSpace\<rparr>)))))"

definition CheckDiskForProvisioning :: "vol_env \<Rightarrow> string \<Rightarrow> VolumeConfigSpec \<Rightarrow> CheckDiskResult io" where
  "CheckDiskForProvisioning env disk cfg =
     orElse
       (andThen (try_query (ProbePath disk) (\<lambda>h. probe env h disk) (VErr False ''error probing disk'')) (\<lambda>info.
          case CfgType cfg of
            VolumeTypeDisk \<Rightarrow>
              ok \<lparr>CanProvision = (InfoName info = ''''), HasGPT = False, DiskSize = InfoSize info,
                  RejectedReason = WrongFormat\<rparr>
          | VolumeTypePartition \<Rightarrow>
              if InfoName info = '''' then
                (let overhead = InfoSectorSize info * 67
                 in ok \<lparr>CanProvision = InfoSize info \<ge> MinSize (PartSpec (Provisioning cfg)) + overhead,
                        HasGPT = False, DiskSize = InfoSize info, RejectedReason = NotEnoughSpace\<rparr>)
              else if InfoName info \<noteq> ''gpt'' then
                ok (zero_CheckDiskResult\<lparr>RejectedReason := WrongFormat\<rparr>)
              else check_gpt env disk cfg info
          | _ \<Rightarrow> fail VPanic))
       zero_CheckDiskResult"

record CreatePartitionResult =
  PartitionIdx :: int
  PartGUID :: string
  CreatedSize :: u64

text \<open>The size of the new partition, from the space available and the resolved maximum.\<close>

definition partition_size :: "u64 \<Rightarrow> u64 \<Rightarrow> u64" where
  "partition_size available maxSize = (if maxSize = 0 \<or> maxSize \<ge> available then available else maxSize)"

text \<open>CreatePartition from the size computation on, given the space available.\<close>

definition create_in :: "vol_env \<Rightarrow> string \<Rightarrow> VolumeConfigSpec \<Rightarrow> u64 \<Rightarrow> CreatePartitionResult io" where
  "create_in env disk cfg available =
     (let ps = PartSpec (Provisioning cfg) in
      case ResolveMaxSize ps available of
        None \<Rightarrow> fail (VErr False ''error resolving max size'')
      | Some maxSize \<Rightarrow>
          if available < MinSize ps then fail (VErr False ''not enough space on disk'')
          else if \<not> uuid_ok env (TypeUUID ps) then fail (VErr False ''error parsing type UUID'')
          else
            (let sz = partition_size available maxSize in
             andThen (try_query (AllocatePartition disk sz (PLabel ps)) (\<lambda>h. allocate env h disk sz (PLabel ps))
                        (VErr False ''error allocating partition'')) (\<lambda>(idx, guid).
             andThen (do_call env (WriteGPT disk) (VErr False ''error writing GPT'')) (\<lambda>_.
             andThen (do_call env (OpenDev (dev_name env disk idx) True) (VErr True ''error opening partition'')) (\<lambda>_.
             andThen (do_call env (WipeDev (dev_name env disk idx)) (VErr True ''error wiping partition'')) (\<lambda>_.
               ok \<lparr>PartitionIdx = idx, PartGUID = guid, CreatedSize = sz\<rparr>))))))"

definition CreatePartition :: "vol_env \<Rightarrow> string \<Rightarrow> VolumeConfigSpec \<Rightarrow> bool \<Rightarrow> CreatePartitionResult io" where
  "CreatePartition env disk cfg hasPT =
     andThen (do_call env (OpenDev disk True) (VErr True ''error opening disk'')) (\<lambda>_.
     andThen (do_call env (LockDev disk) (VErr True ''error locking disk'')) (\<lambda>_.
     andThen (do_call env (GptDevice disk) (VErr False ''error getting GPT device'')) (\<lambda>_.
     andThen (do_call env (if hasPT then GptRead disk else GptNew disk) (VErr False ''error initializing GPT'')) (\<lambda>_.
     andThen (query (LargestFree disk) (\<lambda>h. largest_free env h disk)) (\<lambda>available.
       create_in env disk cfg available)))))"

section \<open>LocateAndProvision\<close>

text \<open>The disk added to the CEL context of a discovered volume: the parent, or the device itself.\<close>

definition context_disk :: "DiskContext list \<Rightarrow> DiscoveredVolume \<Rightarrow> Disk option" where
  "context_disk disks dv =
     map_option DiskOf
       (List.find (\<lambda>d. (DvParentDevPath dv \<noteq> '''' \<and> DevPath (DiskOf d) = DvParentDevPath dv) \<or>
                       (DvParentDevPath dv = '''' \<and> DevPath (DiskOf d) = DvDevPath dv)) disks)"

fun locate_loop ::
    "vol_env \<Rightarrow> LocatorSpec \<Rightarrow> DiskContext list \<Rightarrow> DiscoveredVolume list \<Rightarrow> vol_error + DiscoveredVolume option" where
  "locate_loop env loc disks [] = Inr None"
| "locate_loop env loc disks (dv # dvs) =
     (if Match loc = None \<and> DiskMatch loc = None then Inl (VErr False ''no locator expression set for volume'')
      else
        (case (if Match loc \<noteq> None then match_volume env (Match loc) dv (context_disk disks dv)
               else match_volume_disk env (DiskMatch loc) (context_disk disks dv)) of
           None \<Rightarrow> Inl (VErr False ''error evaluating volume locator'')
         | Some True \<Rightarrow> Inr (Some dv)
         | Some False \<Rightarrow> locate_loop env loc disks dvs))"

text \<open>ToCELContext: an unknown system disk counts as false.\<close>

definition cel_system_disk :: "DiskContext \<Rightarrow> bool" where
  "cel_system_disk d = (case SystemDisk d of Some v \<Rightarrow> v | None \<Rightarrow> False)"

fun select_disks :: "vol_env \<Rightarrow> expr \<Rightarrow> DiskContext list \<Rightarrow> vol_error + string list" where
  "select_disks env sel [] = Inr []"
| "select_disks env sel (d # ds) =
     (if Readonly (DiskOf d) then select_disks env sel ds
      else
        (case match_disk env sel (DiskOf d) (cel_system_disk d) of
           None \<Rightarrow> Inl (VErr False ''error evaluating disk locator'')
         | Some b \<Rightarrow>
             (case select_disks env sel ds of
                Inl e \<Rightarrow> Inl e
              | Inr ps \<Rightarrow> Inr (if b then DevPath (DiskOf d) # ps else ps))))"

fun pick_disk :: "vol_env \<Rightarrow> VolumeConfigSpec \<Rightarrow> string list \<Rightarrow> (string \<times> CheckDiskResult) option io" where
  "pick_disk env cfg [] = ok None"
| "pick_disk env cfg (d # ds) =
     andThen (CheckDiskForProvisioning env d cfg) (\<lambda>r.
       if CanProvision r then ok (Some (d, r)) else pick_disk env cfg ds)"

text \<open>The status of a located volume.\<close>

definition located :: "DiscoveredVolume \<Rightarrow> VolumeStatusSpec \<Rightarrow> VolumeStatusSpec" where
  "located dv s = s\<lparr>Phase := VolumePhaseLocated, Location := DvDevPath dv,
     PartitionIndex := DvPartitionIndex dv, ParentLocation := DvParentDevPath dv, UUID := DvUuid dv,
     PartitionUUID := DvPartitionUuid dv, VSize := DvSize dv\<rparr>"

definition provision_on :: "vol_env \<Rightarrow> VolumeConfigSpec \<Rightarrow> string \<Rightarrow> CheckDiskResult \<Rightarrow> unit io" where
  "provision_on env cfg disk r =
     (case CfgType cfg of
        VolumeTypeDisk \<Rightarrow>
          set_status (\<lambda>s. s\<lparr>Phase := VolumePhaseProvisioned, Location := disk, ParentLocation := '''',
            VSize := DiskSize r\<rparr>)
      | VolumeTypePartition \<Rightarrow>
          andThen (CreatePartition env disk cfg (HasGPT r)) (\<lambda>p.
            set_status (\<lambda>s. s\<lparr>Phase := VolumePhaseProvisioned,
              Location := dev_name env disk (PartitionIdx p), PartitionIndex := PartitionIdx p,
              ParentLocation := disk, PartitionUUID := PartGUID p, VSize := CreatedSize p\<rparr>))
      | _ \<Rightarrow> fail VPanic)"

definition provision :: "vol_env \<Rightarrow> ManagerContext \<Rightarrow> unit io" where
  "provision env c =
     (let cfg = Cfg c in
      case select_disks env (SelMatch (DiskSel (Provisioning cfg))) (Disks c) of
        Inl e \<Rightarrow> fail e
      | Inr [] \<Rightarrow> fail (VErr False ''no disks matched selector for volume'')
      | Inr matched \<Rightarrow>
          if CfgType cfg = VolumeTypeDisk \<and> length matched > 1
          then fail (VErr False ''multiple disks matched selector for disk volume'')
          else andThen (pick_disk env cfg matched) (\<lambda>picked.
            case picked of
              None \<Rightarrow> fail (VErr True ''no disks matched for volume'')
            | Some (disk, r) \<Rightarrow> provision_on env cfg disk r))"

text \<open>The part for disk and partition volumes.\<close>

definition locate_or_provision :: "vol_env \<Rightarrow> ManagerContext \<Rightarrow> unit io" where
  "locate_or_provision env c =
     (if Locator (Cfg c) = zero_LocatorSpec then fail (VErr False ''volume locator is not set'')
      else
        (case locate_loop env (Locator (Cfg c)) (Disks c) (DiscoveredVolumes c) of
           Inl e \<Rightarrow> fail e
         | Inr (Some dv) \<Rightarrow> set_status (located dv)
         | Inr None \<Rightarrow>
             if \<not> DevicesReady c then set_status (\<lambda>s. s\<lparr>Phase := VolumePhaseWaiting\<rparr>)
             else if Provisioning (Cfg c) = zero_ProvisioningSpec
             then set_status (\<lambda>s. s\<lparr>Phase := VolumePhaseMissing\<rparr>)
             else if \<not> PreviousWaveProvisioned c then set_status (\<lambda>s. s\<lparr>Phase := VolumePhaseWaiting\<rparr>)
             else provision env c))"

definition LocateAndProvision :: "vol_env \<Rightarrow> ManagerContext \<Rightarrow> unit io" where
  "LocateAndProvision env c =
     (let cfg = Cfg c in
      andThen (set_status (\<lambda>s. s\<lparr>StMount := Mount cfg, StSymlink := CfgSymlink cfg\<rparr>)) (\<lambda>_.
        if CfgType cfg \<in> {VolumeTypeTmpfs, VolumeTypeDirectory, VolumeTypeSymlink, VolumeTypeOverlay}
        then set_status (\<lambda>s. s\<lparr>Phase := VolumePhaseReady\<rparr>)
        else if CfgType cfg = VolumeTypeExternal
        then set_status (\<lambda>s. s\<lparr>Phase := VolumePhaseReady,
               Filesystem := FsType (FsSpec (Provisioning cfg)),
               Location := External (DiskSel (Provisioning cfg)),
               MountLocation := External (DiskSel (Provisioning cfg))\<rparr>)
        else locate_or_provision env c))"

section \<open>Grow\<close>

definition Grow :: "vol_env \<Rightarrow> ManagerContext \<Rightarrow> unit io" where
  "Grow env c =
     andThen get_status (\<lambda>s.
     let ps = PartSpec (Provisioning (Cfg c));
         parent = ParentLocation s;
         provisioned = set_status (\<lambda>s. s\<lparr>Phase := VolumePhaseProvisioned\<rparr>)
     in if \<not> (CfgType (Cfg c) = VolumeTypePartition \<and> PGrow ps) then provisioned
        else if MaxSize ps > 0 \<and> VSize s \<ge> MaxSize ps then provisioned
        else
          andThen (do_call env (OpenDev parent True) (VErr True ''error opening disk'')) (\<lambda>_.
          andThen (do_call env (LockDev parent) (VErr True ''error locking disk'')) (\<lambda>_.
          andThen (do_call env (GptDevice parent) (VErr False ''error getting GPT device'')) (\<lambda>_.
          andThen (do_call env (GptRead parent) (VErr False ''error initializing GPT'')) (\<lambda>_.
          andThen (try_query (AvailableGrowth parent (PartitionIndex s - 1))
                     (\<lambda>h. avail_growth env h parent (PartitionIndex s - 1))
                     (VErr False ''error getting available partition growth'')) (\<lambda>avail.
            if avail \<le> 1024 * 1024 then provisioned
            else
              (let g = (if MaxSize ps > 0 \<and> avail > MaxSize ps - VSize s then MaxSize ps - VSize s else avail) in
               andThen (do_call env (GrowPartition parent (PartitionIndex s - 1) g) (VErr False ''error growing partition'')) (\<lambda>_.
               andThen (do_call env (WriteGPT parent) (VErr False ''error writing GPT'')) (\<lambda>_.
                 set_status (\<lambda>s. s\<lparr>Phase := VolumePhaseProvisioned, VSize := VSize s + g\<rparr>))))))))))"

section \<open>HandleEncryption\<close>

text \<open>The loop over the configured keys; a provider name is added once.\<close>

fun key_loop :: "int \<Rightarrow> EncryptionKey list \<Rightarrow> VolumeStatusSpec \<Rightarrow> VolumeStatusSpec" where
  "key_loop usedSlot [] s = s"
| "key_loop usedSlot (k # ks) s =
     (let provider = key_name (KeyType k);
          s = (if Slot k = usedSlot
               then (let s = s\<lparr>EncryptionLockedToState := LockToSTATE k\<rparr>
                     in if provider = ''tpm'' then s\<lparr>TPMEncryptionOptions := (TPMPCRs k, TPMPubKeyPCRs k)\<rparr> else s)
               else s);
          s = (if provider \<in> set (ConfiguredEncryptionKeys s) then s
               else s\<lparr>ConfiguredEncryptionKeys := ConfiguredEncryptionKeys s @ [provider]\<rparr>)
      in key_loop usedSlot ks s)"

text \<open>slices.Sort on strings: byte order, as the code points of the names are below 128.\<close>

fun string_le :: "string \<Rightarrow> string \<Rightarrow> bool" where
  "string_le [] _ = True"
| "string_le (_ # _) [] = False"
| "string_le (a # as) (b # bs) =
     ((of_char a :: nat) < of_char b \<or> (a = b \<and> string_le as bs))"

fun insert_string :: "string \<Rightarrow> string list \<Rightarrow> string list" where
  "insert_string x [] = [x]"
| "insert_string x (y # ys) = (if string_le x y then x # y # ys else y # insert_string x ys)"

definition sort_strings :: "string list \<Rightarrow> string list" where
  "sort_strings xs = foldr insert_string xs []"

definition mapped_name :: "ManagerContext \<Rightarrow> string" where
  "mapped_name c = ''luks2-'' @ CfgID c"

definition HandleEncryptionWithHandler :: "vol_env \<Rightarrow> ManagerContext \<Rightarrow> unit io" where
  "HandleEncryptionWithHandler env c =
     andThen get_status (\<lambda>s.
     let devPath = (if ParentLocation s = '''' then Location s else ParentLocation s);
         loc = Location s
     in
     andThen (do_call env (OpenDev devPath True) (VErr True ''error opening disk'')) (\<lambda>_.
     andThen (do_call env (LockDev devPath) (VErr True ''error locking disk'')) (\<lambda>_.
     andThen (try_query (ProbePath loc) (\<lambda>h. probe env h loc) (VErr True ''error probing disk'')) (\<lambda>info.
     andThen (if InfoName info = ''''
              then do_call env (FormatAndEncrypt loc) (VErr True ''error formatting and encrypting volume'')
              else if InfoName info = ''luks'' then ok ()
              else fail (VErr False ''block dev type mismatch'')) (\<lambda>_.
     andThen (try_query (OpenLUKS loc (mapped_name c)) (\<lambda>h. luks_open env h loc (mapped_name c))
                (VErr True ''error opening encrypted volume'')) (\<lambda>(mappedPath, usedSlot, failedSyncs).
     andThen (try_query (EvalSymlinks mappedPath) (\<lambda>h. eval_symlinks env h mappedPath)
                (VErr False ''error resolving symlink'')) (\<lambda>resolvedPath.
       set_status (\<lambda>s.
         let s = s\<lparr>Phase := VolumePhasePrepared, MountLocation := resolvedPath,
                   EncryptionProvider := Provider (Encryption (Cfg c)), EncryptionFailedSyncs := failedSyncs,
                   ConfiguredEncryptionKeys := [], EncryptionSlot := Some usedSlot\<rparr>;
             s = key_loop usedSlot (Keys (Encryption (Cfg c))) s
         in s\<lparr>ConfiguredEncryptionKeys := sort_strings (ConfiguredEncryptionKeys s)\<rparr>))))))))"

definition HandleEncryption :: "vol_env \<Rightarrow> ManagerContext \<Rightarrow> unit io" where
  "HandleEncryption env c =
     (case Provider (Encryption (Cfg c)) of
        EncryptionProviderNone \<Rightarrow>
          set_status (\<lambda>s. s\<lparr>Phase := VolumePhasePrepared, MountLocation := Location s,
            EncryptionProvider := EncryptionProviderNone, EncryptionFailedSyncs := [],
            ConfiguredEncryptionKeys := []\<rparr>)
      | EncryptionProviderLUKS2 \<Rightarrow>
          if \<not> handler_ok env (Encryption (Cfg c)) (CfgID c)
          then fail (VErr False ''failed to create encryption handler'')
          else HandleEncryptionWithHandler env c)"

section \<open>Format and GrowFilesystem\<close>

definition GrowFilesystem :: "vol_env \<Rightarrow> ManagerContext \<Rightarrow> unit io" where
  "GrowFilesystem env c =
     andThen get_status (\<lambda>s.
       case FsType (FsSpec (Provisioning (Cfg c))) of
         FilesystemTypeXFS \<Rightarrow>
           andThen (do_call env MkdirTemp (VErr False ''error creating temporary directory'')) (\<lambda>_.
           andThen (do_call env (MountXFS (MountLocation s)) (VErr False ''error mounting partition'')) (\<lambda>_.
             do_call env XFSGrow (VErr False ''error growing XFS'')))
       | FilesystemTypeEXT4 \<Rightarrow> do_call env (Ext4Resize (MountLocation s)) (VErr False ''error growing ext4'')
       | FilesystemTypeSwap \<Rightarrow> ok ()
       | _ \<Rightarrow> fail (VErr False ''unsupported filesystem type to grow''))"

text \<open>The second half of Format, which makes a new filesystem.\<close>

definition make_filesystem :: "vol_env \<Rightarrow> ManagerContext \<Rightarrow> unit io" where
  "make_filesystem env c =
     (let fs = FsSpec (Provisioning (Cfg c)) in
      andThen get_status (\<lambda>s.
      andThen (case FsType fs of
                 FilesystemTypeXFS \<Rightarrow>
                   do_call env (MkfsXFS (MountLocation s) (VSize s \<le> 300 * 1024 * 1024) (FsLabel fs))
                     (VErr True ''error formatting XFS'')
               | FilesystemTypeEXT4 \<Rightarrow>
                   do_call env (MkfsExt4 (MountLocation s) (FsLabel fs)) (VErr True ''error formatting ext4'')
               | FilesystemTypeSwap \<Rightarrow>
                   do_call env (MkSwap (MountLocation s) (FsLabel fs)) (VErr True ''error formatting swap'')
               | _ \<Rightarrow> fail (VErr False ''unsupported filesystem type'')) (\<lambda>_.
        set_status (\<lambda>s. s\<lparr>Phase := VolumePhaseReady, Filesystem := FsType fs\<rparr>))))"

definition Format :: "vol_env \<Rightarrow> ManagerContext \<Rightarrow> unit io" where
  "Format env c =
     (let fs = FsSpec (Provisioning (Cfg c)) in
      andThen get_status (\<lambda>s.
      let devPath = (if ParentLocation s = '''' then Location s else ParentLocation s);
          loc = MountLocation s
      in
      andThen (do_call env (OpenDev devPath False) (VErr True ''error opening disk'')) (\<lambda>_.
      andThen (do_call env (LockDev devPath) (VErr True ''error locking disk'')) (\<lambda>_.
      andThen (try_query (ProbePath loc) (\<lambda>h. probe env h loc) (VErr True ''error probing disk'')) (\<lambda>info.
        if FsType fs = FilesystemTypeNone then
          andThen (set_status (\<lambda>s. s\<lparr>Filesystem := fs_of_name (InfoName info)\<rparr>)) (\<lambda>_.
            if TargetPath (Mount (Cfg c)) \<noteq> '''' \<and> InfoName info = ''''
            then fail (VErr False ''filesystem not found'')
            else if TargetPath (Mount (Cfg c)) \<noteq> '''' \<and> InfoName info = ''luks''
            then andThen (set_status (\<lambda>s. s\<lparr>Phase := VolumePhaseProvisioned\<rparr>)) (\<lambda>_.
                   fail (VErr False ''volume is encrypted, but no encryption config provided''))
            else set_status (\<lambda>s. s\<lparr>Phase := VolumePhaseReady\<rparr>))
        else if InfoName info = '''' \<or> InfoName info = ''swap'' then make_filesystem env c
        else if InfoName info = fs_name (FsType fs) then
          andThen (if PGrow (PartSpec (Provisioning (Cfg c))) then GrowFilesystem env c else ok ()) (\<lambda>_.
            set_status (\<lambda>s. s\<lparr>Phase := VolumePhaseReady, Filesystem := FsType fs\<rparr>))
        else fail (VErr False ''filesystem type mismatch''))))))"

section \<open>Close\<close>

definition CloseWithHandler :: "vol_env \<Rightarrow> ManagerContext \<Rightarrow> unit io" where
  "CloseWithHandler env c =
     andThen (do_call env (CloseLUKS (mapped_name c)) (VErr True ''error closing encrypted volume'')) (\<lambda>_.
       set_status (\<lambda>s. s\<lparr>Phase := VolumePhaseClosed\<rparr>))"

definition Close :: "vol_env \<Rightarrow> ManagerContext \<Rightarrow> unit io" where
  "Close env c =
     (if CfgType (Cfg c) \<notin> {VolumeTypeDisk, VolumeTypePartition}
      then set_status (\<lambda>s. s\<lparr>Phase := VolumePhaseClosed\<rparr>)
      else
        (case Provider (Encryption (Cfg c)) of
           EncryptionProviderNone \<Rightarrow> set_status (\<lambda>s. s\<lparr>Phase := VolumePhaseClosed\<rparr>)
         | EncryptionProviderLUKS2 \<Rightarrow>
             if \<not> handler_ok env (Encryption (Cfg c)) (CfgID c)
             then fail (VErr False ''failed to create encryption handler'')
             else CloseWithHandler env c))"

section \<open>The automaton: processVolumeConfig\<close>

text \<open>One turn of each state machine; the result tells whether the loop returns.\<close>

definition continue :: "unit io \<Rightarrow> bool io" where
  "continue m = andThen m (\<lambda>_. ok False)"

definition recover_phase :: "unit io" where
  "recover_phase = set_status (\<lambda>s. s\<lparr>Phase := PreFailPhase s\<rparr>)"

definition build_step :: "vol_env \<Rightarrow> ManagerContext \<Rightarrow> bool io" where
  "build_step env c =
     andThen get_status (\<lambda>s.
       case Phase s of
         VolumePhaseReady \<Rightarrow> ok True
       | VolumePhaseWaiting \<Rightarrow> continue (LocateAndProvision env c)
       | VolumePhaseMissing \<Rightarrow> continue (LocateAndProvision env c)
       | VolumePhaseLocated \<Rightarrow> continue (Grow env c)
       | VolumePhaseProvisioned \<Rightarrow> continue (HandleEncryption env c)
       | VolumePhasePrepared \<Rightarrow> continue (Format env c)
       | VolumePhaseFailed \<Rightarrow> continue recover_phase
       | VolumePhaseClosed \<Rightarrow> ok True)"

definition close_step :: "vol_env \<Rightarrow> ManagerContext \<Rightarrow> bool io" where
  "close_step env c =
     andThen get_status (\<lambda>s.
       case Phase s of
         VolumePhaseReady \<Rightarrow> continue (Close env c)
       | VolumePhasePrepared \<Rightarrow> continue (Close env c)
       | VolumePhaseClosed \<Rightarrow> ok True
       | VolumePhaseFailed \<Rightarrow> continue recover_phase
       | _ \<Rightarrow> continue (set_status (\<lambda>s. s\<lparr>Phase := VolumePhaseClosed\<rparr>)))"

text \<open>The loop, with a bound on the number of turns. A turn is followed by the test for progress and
  by the test for a cancelled context.\<close>

fun process_loop :: "nat \<Rightarrow> vol_env \<Rightarrow> ManagerContext \<Rightarrow> VolumePhase \<Rightarrow> unit io" where
  "process_loop 0 env c prevPhase = fail VSteps"
| "process_loop (Suc n) env c prevPhase =
     andThen (if ShouldCloseVolume c then close_step env c else build_step env c) (\<lambda>stop.
       if stop then ok ()
       else
         andThen get_status (\<lambda>s.
           if Phase s = prevPhase then ok ()
           else andThen (query CheckCtx (\<lambda>h. call_ok env h CheckCtx)) (\<lambda>alive.
             if alive then process_loop n env c (Phase s) else ok ())))"

text \<open>Eight turns are enough for every run: a recovery, a location, and the phases from Located to
  Ready take six (theorem \<open>process_settles\<close> of VolumeProps).\<close>

definition processVolumeConfig :: "vol_env \<Rightarrow> ManagerContext \<Rightarrow> unit io" where
  "processVolumeConfig env c = andThen get_status (\<lambda>s. process_loop 8 env c (Phase s))"

end
