(* ===== verification/VolumeProps.thy ===== *)
theory VolumeProps
  imports VolumeOps
begin

text \<open>
  What the volume operations and the automaton of processVolumeConfig guarantee: the phase each
  operation leads to, termination in a settled phase, and which calls to the outside world are made
  under which conditions (nothing is provisioned or formatted unless the code has checked first).
\<close>

section \<open>Symbolic execution\<close>

text \<open>What holds after a run, computed through the combinators. The rules are equations, so simp
  executes an operation along all of its paths.\<close>

named_theorems wp_rules \<open>weakest preconditions of the combinators\<close>

definition wp :: "'a io \<Rightarrow> (vol_error + 'a \<Rightarrow> world \<Rightarrow> bool) \<Rightarrow> world \<Rightarrow> bool" where
  "wp m Q w = (case run_state m w of (r, w') \<Rightarrow> Q r w')"

lemma wp_iff: "wp m Q w \<longleftrightarrow> (\<forall>r w'. run_state m w = (r, w') \<longrightarrow> Q r w')"
  by (auto simp: wp_def split: prod.splits)

lemma wpI: "(\<And>r w'. run_state m w = (r, w') \<Longrightarrow> Q r w') \<Longrightarrow> wp m Q w"
  by (simp add: wp_iff)

lemma wpD: "wp m Q w \<Longrightarrow> run_state m w = (r, w') \<Longrightarrow> Q r w'"
  by (simp add: wp_iff)

lemma wp_mono: "wp m Q w \<Longrightarrow> (\<And>r w'. Q r w' \<Longrightarrow> R r w') \<Longrightarrow> wp m R w"
  by (auto simp: wp_iff)

lemma wp_ok [wp_rules]: "wp (ok x) Q w = Q (Inr x) w"
  by (simp add: wp_def ok_def)

lemma wp_fail [wp_rules]: "wp (fail e) Q w = Q (Inl e) w"
  by (simp add: wp_def fail_def)

lemma wp_andThen [wp_rules]:
  "wp (andThen m f) Q w = wp m (\<lambda>r w'. case r of Inl e \<Rightarrow> Q (Inl e) w' | Inr x \<Rightarrow> wp (f x) Q w') w"
  by (auto simp: wp_def andThen_def fail_def split: prod.splits sum.splits)

lemma wp_query [wp_rules]:
  "wp (query c q) Q w = Q (Inr (q (history w))) (w\<lparr>history := history w @ [c]\<rparr>)"
  by (simp add: wp_def query_def)

lemma wp_try_query [wp_rules]:
  "wp (try_query c q e) Q w =
     (case q (history w) of None \<Rightarrow> Q (Inl e) (w\<lparr>history := history w @ [c]\<rparr>)
      | Some x \<Rightarrow> Q (Inr x) (w\<lparr>history := history w @ [c]\<rparr>))"
  by (simp add: try_query_def wp_rules split: option.splits)

lemma wp_do_call [wp_rules]:
  "wp (do_call env c e) Q w =
     (if call_ok env (history w) c then Q (Inr ()) (w\<lparr>history := history w @ [c]\<rparr>)
      else Q (Inl e) (w\<lparr>history := history w @ [c]\<rparr>))"
  by (simp add: do_call_def wp_rules)

lemma wp_get_status [wp_rules]: "wp get_status Q w = Q (Inr (status w)) w"
  by (simp add: wp_def get_status_def)

lemma wp_set_status [wp_rules]: "wp (set_status f) Q w = Q (Inr ()) (w\<lparr>status := f (status w)\<rparr>)"
  by (simp add: wp_def set_status_def)

lemma wp_if [wp_rules]: "wp (if b then m else n) Q w = (if b then wp m Q w else wp n Q w)"
  by simp

lemma wp_continue [wp_rules]:
  "wp (continue m) Q w = wp m (\<lambda>r w'. case r of Inl e \<Rightarrow> Q (Inl e) w' | Inr _ \<Rightarrow> Q (Inr False) w') w"
  by (simp add: continue_def wp_rules cong: sum.case_cong)

lemma wp_orElse [wp_rules]:
  "wp (orElse m x) Q w =
     wp m (\<lambda>r w'. case r of Inl e \<Rightarrow> if e = VPanic then Q (Inl VPanic) w' else Q (Inr x) w'
             | Inr y \<Rightarrow> Q (Inr y) w') w"
  by (auto simp: wp_def orElse_def ok_def fail_def split: prod.splits sum.splits vol_error.splits)

lemmas wp_splits = option.splits sum.splits bool.splits prod.splits

section \<open>What each operation does to the phase\<close>

text \<open>The phase in which the location of a volume stops, when it neither finds nor provisions it.\<close>

definition locate_wait :: "vol_env \<Rightarrow> ManagerContext \<Rightarrow> VolumePhase option" where
  "locate_wait env c =
     (if CfgType (Cfg c) \<notin> {VolumeTypeDisk, VolumeTypePartition} \<or> Locator (Cfg c) = zero_LocatorSpec then None
      else if locate_loop env (Locator (Cfg c)) (Disks c) (DiscoveredVolumes c) \<noteq> Inr None then None
      else if \<not> DevicesReady c then Some VolumePhaseWaiting
      else if Provisioning (Cfg c) = zero_ProvisioningSpec then Some VolumePhaseMissing
      else if \<not> PreviousWaveProvisioned c then Some VolumePhaseWaiting
      else None)"

lemma locate_wait_cases: "locate_wait env c = Some p \<Longrightarrow> p \<in> {VolumePhaseWaiting, VolumePhaseMissing}"
  by (auto simp: locate_wait_def split: if_splits)

lemma locate_loop_no_steps: "locate_loop env l ds dvs \<noteq> Inl VSteps"
  by (induction dvs) (auto split: option.splits bool.splits)

lemma select_disks_no_steps: "select_disks env e ds \<noteq> Inl VSteps"
  by (induction ds) (auto split: option.splits sum.splits)

text \<open>An operation succeeds into its next phase, and never runs out of steps. The rules are
  compositional, so the proofs follow the structure of the operation.\<close>

definition no_steps :: "'a io \<Rightarrow> bool" where
  "no_steps m \<longleftrightarrow> (\<forall>w. fst (run_state m w) \<noteq> Inl VSteps)"

definition leads_to :: "unit io \<Rightarrow> VolumePhase set \<Rightarrow> bool" where
  "leads_to m P \<longleftrightarrow> no_steps m \<and> (\<forall>w w'. run_state m w = (Inr (), w') \<longrightarrow> Phase (status w') \<in> P)"

named_theorems leads_intros \<open>rules for no_steps and leads_to\<close>

lemma no_steps_ok [leads_intros]: "no_steps (ok x)"
  by (simp add: no_steps_def ok_def)

lemma no_steps_fail [leads_intros]: "e \<noteq> VSteps \<Longrightarrow> no_steps (fail e)"
  by (simp add: no_steps_def fail_def)

lemma no_steps_andThen [leads_intros]: "no_steps m \<Longrightarrow> (\<And>x. no_steps (f x)) \<Longrightarrow> no_steps (andThen m f)"
  unfolding no_steps_def andThen_def
  by (auto simp: fail_def split: prod.splits sum.splits) (metis fst_conv)+

lemma no_steps_orElse [leads_intros]: "no_steps m \<Longrightarrow> no_steps (orElse m x)"
  by (auto simp: no_steps_def orElse_def ok_def fail_def split: prod.splits sum.splits vol_error.splits)

lemma no_steps_query [leads_intros]: "no_steps (query c q)"
  by (simp add: no_steps_def query_def)

lemma no_steps_try_query [leads_intros]: "e \<noteq> VSteps \<Longrightarrow> no_steps (try_query c q e)"
  unfolding try_query_def by (auto intro!: leads_intros split: option.splits)

lemma no_steps_do_call [leads_intros]: "e \<noteq> VSteps \<Longrightarrow> no_steps (do_call env c e)"
  unfolding do_call_def by (auto intro!: leads_intros)

lemma no_steps_get [leads_intros]: "no_steps get_status"
  by (simp add: no_steps_def get_status_def)

lemma no_steps_set [leads_intros]: "no_steps (set_status f)"
  by (simp add: no_steps_def set_status_def)

lemma leads_set [leads_intros]: "(\<And>s. Phase (f s) \<in> P) \<Longrightarrow> leads_to (set_status f) P"
  by (simp add: leads_to_def no_steps_set) (simp add: set_status_def)

lemma leads_fail [leads_intros]: "e \<noteq> VSteps \<Longrightarrow> leads_to (fail e) P"
  by (simp add: leads_to_def no_steps_fail) (simp add: fail_def)

lemma leads_andThen [leads_intros]:
  "no_steps m \<Longrightarrow> (\<And>x. leads_to (f x) P) \<Longrightarrow> leads_to (andThen m f) P"
  unfolding leads_to_def
  by (auto intro!: no_steps_andThen) (auto simp: andThen_def fail_def split: prod.splits sum.splits)

lemma no_steps_if [leads_intros]: "no_steps m \<Longrightarrow> no_steps n \<Longrightarrow> no_steps (if b then m else n)"
  by simp

lemma leads_if [leads_intros]:
  "leads_to m P \<Longrightarrow> leads_to n P \<Longrightarrow> leads_to (if b then m else n) P"
  by simp

lemma leads_prod [leads_intros]: "(\<And>a b. leads_to (f a b) P) \<Longrightarrow> leads_to (case x of (a, b) \<Rightarrow> f a b) P"
  by (cases x) simp

lemma check_disk_steps [leads_intros]: "no_steps (CheckDiskForProvisioning env d cfg)"
  unfolding CheckDiskForProvisioning_def check_gpt_def
  by (auto intro!: leads_intros split: VolumeType.splits)

lemma pick_disk_steps [leads_intros]: "no_steps (pick_disk env cfg ds)"
  by (induction ds) (auto intro!: leads_intros)

lemma create_partition_steps [leads_intros]: "no_steps (CreatePartition env d cfg b)"
  unfolding CreatePartition_def create_in_def Let_def by (auto intro!: leads_intros split: option.splits)

lemma provision_on_phase: "leads_to (provision_on env cfg d r) {VolumePhaseProvisioned}"
  unfolding provision_on_def by (auto intro!: leads_intros split: VolumeType.splits)

lemma provision_phase: "leads_to (provision env c) {VolumePhaseProvisioned}"
  using select_disks_no_steps [of env "SelMatch (DiskSel (Provisioning (Cfg c)))" "Disks c"]
  unfolding provision_def Let_def
  by (auto intro!: leads_intros provision_on_phase split: sum.splits list.splits option.splits)

lemma leads_mono: "leads_to m P \<Longrightarrow> P \<subseteq> Q \<Longrightarrow> leads_to m Q"
  by (auto simp: leads_to_def)

definition locate_phases :: "vol_env \<Rightarrow> ManagerContext \<Rightarrow> VolumePhase set" where
  "locate_phases env c =
     (case locate_wait env c of Some p \<Rightarrow> {p}
      | None \<Rightarrow> {VolumePhaseReady, VolumePhaseLocated, VolumePhaseProvisioned})"

lemma locate_or_provision_phase:
  assumes "CfgType (Cfg c) \<in> {VolumeTypeDisk, VolumeTypePartition}"
  shows "leads_to (locate_or_provision env c) (locate_phases env c)"
proof (cases "Locator (Cfg c) \<noteq> zero_LocatorSpec \<and>
    locate_loop env (Locator (Cfg c)) (Disks c) (DiscoveredVolumes c) = Inr None \<and> DevicesReady c \<and>
    Provisioning (Cfg c) \<noteq> zero_ProvisioningSpec \<and> PreviousWaveProvisioned c")
  case True
  then have "locate_or_provision env c = provision env c" "locate_wait env c = None"
    by (simp_all add: locate_or_provision_def locate_wait_def)
  with leads_mono [OF provision_phase] show ?thesis by (simp add: locate_phases_def)
next
  case False
  with assms locate_loop_no_steps [of env "Locator (Cfg c)" "Disks c" "DiscoveredVolumes c"] show ?thesis
    by (auto simp: locate_or_provision_def locate_wait_def locate_phases_def located_def
        intro!: leads_intros split: sum.splits option.splits)
qed

lemma locate_phase: "leads_to (LocateAndProvision env c) (locate_phases env c)"
proof (cases "CfgType (Cfg c) \<in> {VolumeTypeDisk, VolumeTypePartition}")
  case True
  with locate_or_provision_phase [OF this, of env] show ?thesis
    unfolding LocateAndProvision_def Let_def by (auto intro!: leads_intros)
next
  case False
  then have "locate_phases env c = {VolumePhaseReady, VolumePhaseLocated, VolumePhaseProvisioned}"
    by (simp add: locate_phases_def locate_wait_def)
  with False show ?thesis
    by (cases "CfgType (Cfg c)") (simp_all add: LocateAndProvision_def Let_def, (intro leads_intros; simp)+)
qed

lemma grow_phase: "leads_to (Grow env c) {VolumePhaseProvisioned}"
  unfolding Grow_def Let_def by (intro leads_intros) simp_all

lemma key_loop_phase [simp]: "Phase (key_loop u ks s) = Phase s"
  by (induction ks arbitrary: s) (simp_all add: Let_def)

lemma encryption_phase: "leads_to (HandleEncryption env c) {VolumePhasePrepared}"
  unfolding HandleEncryption_def HandleEncryptionWithHandler_def Let_def
  by (cases "Provider (Encryption (Cfg c))"; simp only: EncryptionProviderType.case; intro leads_intros) simp_all

lemma grow_fs_steps [leads_intros]: "no_steps (GrowFilesystem env c)"
  unfolding GrowFilesystem_def by (auto intro!: leads_intros split: FilesystemType.splits)

lemma make_fs_phase [leads_intros]: "leads_to (make_filesystem env c) {VolumePhaseReady}"
  unfolding make_filesystem_def Let_def by (auto intro!: leads_intros split: FilesystemType.splits)

lemma format_phase: "leads_to (Format env c) {VolumePhaseReady}"
  unfolding Format_def Let_def by (intro leads_intros) simp_all

lemma close_phase: "leads_to (Close env c) {VolumePhaseClosed}"
  unfolding Close_def CloseWithHandler_def
  by (auto intro!: leads_intros split: EncryptionProviderType.splits)

section \<open>The automaton settles\<close>

definition turns :: "vol_env \<Rightarrow> ManagerContext \<Rightarrow> VolumePhase \<Rightarrow> nat" where
  "turns env c p =
     (case p of
        VolumePhaseClosed \<Rightarrow> 1 | VolumePhaseReady \<Rightarrow> 2 | VolumePhasePrepared \<Rightarrow> 3
      | VolumePhaseProvisioned \<Rightarrow> 4 | VolumePhaseLocated \<Rightarrow> 5 | VolumePhaseFailed \<Rightarrow> 7
      | _ \<Rightarrow> if locate_wait env c = Some p then 2 else 6)"

definition settled :: "ManagerContext \<Rightarrow> VolumeStatusSpec \<Rightarrow> bool" where
  "settled c s \<longleftrightarrow>
     (if ShouldCloseVolume c then Phase s = VolumePhaseClosed
      else Phase s \<in> {VolumePhaseReady, VolumePhaseWaiting, VolumePhaseMissing, VolumePhaseClosed}) \<or>
     (Phase s = VolumePhaseFailed \<and> PreFailPhase s = VolumePhaseFailed)"

text \<open>One turn of the building machine: it returns, stays, or moves to a phase with fewer turns left.\<close>

lemma leads_wp: "leads_to m P \<Longrightarrow> wp m (\<lambda>r w'. r \<noteq> Inl VSteps \<and> (r = Inr () \<longrightarrow> Phase (status w') \<in> P)) w"
  by (auto simp: leads_to_def no_steps_def wp_iff) (metis fst_conv)

definition turn_ok :: "vol_env \<Rightarrow> ManagerContext \<Rightarrow> VolumePhase \<Rightarrow> vol_error + bool \<Rightarrow> world \<Rightarrow> bool" where
  "turn_ok env c p r w \<longleftrightarrow>
     r \<noteq> Inl VSteps \<and>
     (r = Inr True \<longrightarrow> settled c (status w)) \<and>
     (r = Inr False \<longrightarrow>
        (if Phase (status w) = p then settled c (status w)
         else turns env c (Phase (status w)) < turns env c p))"

lemma continue_turn:
  assumes "leads_to m P"
    and "\<And>w'. Phase (status w') \<in> P \<Longrightarrow> turn_ok env c p (Inr False) w'"
  shows "wp (continue m) (turn_ok env c p) w"
  unfolding wp_rules
  by (rule wp_mono [OF leads_wp [OF assms(1)]]) (auto split: sum.splits simp: assms(2), auto simp: turn_ok_def)

lemma locate_turn:
  assumes "p \<in> {VolumePhaseWaiting, VolumePhaseMissing}" and "\<not> ShouldCloseVolume c"
  shows "wp (continue (LocateAndProvision env c)) (turn_ok env c p) w"
proof (rule continue_turn [OF locate_phase])
  fix w' :: world
  assume P: "Phase (status w') \<in> locate_phases env c"
  show "turn_ok env c p (Inr False) w'"
  proof (cases "locate_wait env c")
    case None
    with P assms show ?thesis by (auto simp: locate_phases_def turn_ok_def turns_def)
  next
    case (Some q)
    with P assms locate_wait_cases [OF Some] show ?thesis
      by (auto simp: locate_phases_def turn_ok_def turns_def settled_def)
  qed
qed

lemma recover_turn:
  "Phase (status w) = VolumePhaseFailed \<Longrightarrow> wp (continue recover_phase) (turn_ok env c VolumePhaseFailed) w"
  by (auto simp: recover_phase_def wp_rules turn_ok_def settled_def turns_def split: VolumePhase.splits)

lemma build_turn:
  assumes "\<not> ShouldCloseVolume c"
  shows "wp (build_step env c) (turn_ok env c (Phase (status w))) w"
proof (cases "Phase (status w)")
  case VolumePhaseReady
  with assms show ?thesis by (simp add: build_step_def wp_rules turn_ok_def settled_def)
next
  case VolumePhaseClosed
  with assms show ?thesis by (simp add: build_step_def wp_rules turn_ok_def settled_def)
next
  case VolumePhaseWaiting
  with assms locate_turn [of VolumePhaseWaiting c env w] show ?thesis
    by (simp add: build_step_def wp_andThen wp_get_status)
next
  case VolumePhaseMissing
  with assms locate_turn [of VolumePhaseMissing c env w] show ?thesis
    by (simp add: build_step_def wp_andThen wp_get_status)
next
  case VolumePhaseFailed
  with recover_turn [of w env c] show ?thesis by (simp add: build_step_def wp_andThen wp_get_status)
next
  case VolumePhaseLocated
  with continue_turn [OF grow_phase, of env c VolumePhaseLocated env c w] show ?thesis
    by (simp add: build_step_def wp_andThen wp_get_status turn_ok_def turns_def)
next
  case VolumePhaseProvisioned
  with continue_turn [OF encryption_phase, of env c VolumePhaseProvisioned env c w] show ?thesis
    by (simp add: build_step_def wp_andThen wp_get_status turn_ok_def turns_def)
next
  case VolumePhasePrepared
  with continue_turn [OF format_phase, of env c VolumePhasePrepared env c w] show ?thesis
    by (simp add: build_step_def wp_andThen wp_get_status turn_ok_def turns_def)
qed

lemma set_closed_leads: "leads_to (set_status (\<lambda>s. s\<lparr>Phase := VolumePhaseClosed\<rparr>)) {VolumePhaseClosed}"
  by (intro leads_intros) simp

lemma close_turn:
  assumes "ShouldCloseVolume c"
  shows "wp (close_step env c) (turn_ok env c (Phase (status w))) w"
proof (cases "Phase (status w)")
  case VolumePhaseFailed
  with recover_turn [of w env c] show ?thesis by (simp add: close_step_def wp_andThen wp_get_status)
next
  case VolumePhaseClosed
  with assms show ?thesis by (simp add: close_step_def wp_rules turn_ok_def settled_def)
next
  case VolumePhaseReady
  with assms continue_turn [OF close_phase, of env c VolumePhaseReady env c w] show ?thesis
    by (simp add: close_step_def wp_andThen wp_get_status turn_ok_def turns_def)
next
  case VolumePhasePrepared
  with assms continue_turn [OF close_phase, of env c VolumePhasePrepared env c w] show ?thesis
    by (simp add: close_step_def wp_andThen wp_get_status turn_ok_def turns_def)
next
  case VolumePhaseWaiting
  with assms show ?thesis by (simp add: close_step_def wp_rules turn_ok_def turns_def)
next
  case VolumePhaseMissing
  with assms show ?thesis by (simp add: close_step_def wp_rules turn_ok_def turns_def)
next
  case VolumePhaseLocated
  with assms show ?thesis by (simp add: close_step_def wp_rules turn_ok_def turns_def)
next
  case VolumePhaseProvisioned
  with assms show ?thesis by (simp add: close_step_def wp_rules turn_ok_def turns_def)
qed

lemma wp_andThenI:
  assumes "wp m R w" and "\<And>e w'. R (Inl e) w' \<Longrightarrow> Q (Inl e) w'" and "\<And>x w'. R (Inr x) w' \<Longrightarrow> wp (f x) Q w'"
  shows "wp (andThen m f) Q w"
  unfolding wp_andThen
proof (rule wp_mono [OF assms(1)])
  fix r w'
  assume "R r w'"
  with assms(2,3) show "case r of Inl e \<Rightarrow> Q (Inl e) w' | Inr x \<Rightarrow> wp (f x) Q w'" by (cases r) simp_all
qed

lemma loop_turns:
  assumes alive: "\<And>h. call_ok env h CheckCtx"
  shows "turns env c (Phase (status w)) \<le> n \<Longrightarrow>
    wp (process_loop n env c (Phase (status w)))
      (\<lambda>r w'. r \<noteq> Inl VSteps \<and> (r = Inr () \<longrightarrow> settled c (status w'))) w"
proof (induction n arbitrary: w)
  case 0
  then show ?case by (simp add: turns_def split: VolumePhase.splits if_splits)
next
  case (Suc n)
  let ?p = "Phase (status w)" and ?Q = "\<lambda>r w'. r \<noteq> Inl VSteps \<and> (r = Inr () \<longrightarrow> settled c (status w'))"
  have turn: "wp (if ShouldCloseVolume c then close_step env c else build_step env c) (turn_ok env c ?p) w"
    by (simp add: build_turn close_turn)
  have after: "wp (if stop then ok () else
      andThen get_status (\<lambda>s. if Phase s = ?p then ok ()
        else andThen (query CheckCtx (\<lambda>h. call_ok env h CheckCtx)) (\<lambda>alive.
          if alive then process_loop n env c (Phase s) else ok ()))) ?Q w'"
    if "turn_ok env c ?p (Inr stop) w'" for stop w'
  proof (cases "stop \<or> Phase (status w') = ?p")
    case True
    with that show ?thesis by (auto simp: wp_rules turn_ok_def)
  next
    case False
    with that Suc.prems have "turns env c (Phase (status w')) \<le> n" by (simp add: turn_ok_def)
    with Suc.IH [of "w'\<lparr>history := history w' @ [CheckCtx]\<rparr>"] False show ?thesis
      by (simp add: wp_rules alive)
  qed
  show ?case
    unfolding process_loop.simps
  proof (rule wp_andThenI [OF turn])
    show "turn_ok env c ?p (Inl e) w' \<Longrightarrow> ?Q (Inl e) w'" for e w' by (simp add: turn_ok_def)
  qed (rule after)
qed

lemma turns_bound: "turns env c p \<le> 8"
  by (simp add: turns_def split: VolumePhase.splits)

section \<open>Properties of the automaton\<close>

text \<open>C14: processVolumeConfig terminates: for every answer of the outside world, eight turns are
  enough, and when it returns without an error (and the context is not cancelled) the volume has
  settled: when building, it is Ready, Closed, Missing or Waiting; when closing, it is Closed; or it
  is Failed with no phase to go back to.\<close>

theorem process_settles:
  assumes "\<forall>h. call_ok env h CheckCtx" and "run_state (processVolumeConfig env c) w = (r, w')"
  shows "r \<noteq> Inl VSteps \<and> (r = Inr () \<longrightarrow> settled c (status w'))"
proof -
  have "wp (processVolumeConfig env c) (\<lambda>r w'. r \<noteq> Inl VSteps \<and> (r = Inr () \<longrightarrow> settled c (status w'))) w"
    using loop_turns [of env c w 8] turns_bound assms(1) by (simp add: processVolumeConfig_def wp_rules)
  from wpD [OF this assms(2)] show ?thesis .
qed

section \<open>Invariants of the call history\<close>

definition keeps :: "(call list \<Rightarrow> bool) \<Rightarrow> 'a io \<Rightarrow> bool" where
  "keeps I m \<longleftrightarrow> (\<forall>w. I (history w) \<longrightarrow> I (history (snd (run_state m w))))"

named_theorems keeps_intros \<open>rules for invariants of the history\<close>

lemma keeps_ok [keeps_intros]: "keeps I (ok x)"
  by (simp add: keeps_def ok_def)

lemma keeps_fail [keeps_intros]: "keeps I (fail e)"
  by (simp add: keeps_def fail_def)

lemma keeps_get [keeps_intros]: "keeps I get_status"
  by (simp add: keeps_def get_status_def)

lemma keeps_set [keeps_intros]: "keeps I (set_status f)"
  by (simp add: keeps_def set_status_def)

lemma keeps_andThen_result:
  "keeps I m \<Longrightarrow> (\<And>x w w'. run_state m w = (Inr x, w') \<Longrightarrow> keeps I (f x)) \<Longrightarrow> keeps I (andThen m f)"
  unfolding keeps_def andThen_def
  by (auto simp: fail_def split: prod.splits sum.splits)

lemma keeps_andThen [keeps_intros]: "keeps I m \<Longrightarrow> (\<And>x. keeps I (f x)) \<Longrightarrow> keeps I (andThen m f)"
  by (rule keeps_andThen_result)

lemma keeps_orElse [keeps_intros]: "keeps I m \<Longrightarrow> keeps I (orElse m x)"
  unfolding keeps_def orElse_def
  by (auto simp: ok_def fail_def split: prod.splits sum.splits vol_error.splits)

lemma keeps_query [keeps_intros]: "(\<And>h. I h \<Longrightarrow> I (h @ [c])) \<Longrightarrow> keeps I (query c q)"
  by (simp add: keeps_def query_def)

lemma keeps_option [keeps_intros]: "keeps I m \<Longrightarrow> (\<And>x. keeps I (f x)) \<Longrightarrow> keeps I (case y of None \<Rightarrow> m | Some x \<Rightarrow> f x)"
  by (cases y) simp_all

lemma keeps_try_query [keeps_intros]: "(\<And>h. I h \<Longrightarrow> I (h @ [c])) \<Longrightarrow> keeps I (try_query c q e)"
  unfolding try_query_def by (intro keeps_intros)

lemma keeps_if [keeps_intros]: "keeps I m \<Longrightarrow> keeps I n \<Longrightarrow> keeps I (if b then m else n)"
  by simp

lemma keeps_do_call [keeps_intros]: "(\<And>h. I h \<Longrightarrow> I (h @ [c])) \<Longrightarrow> keeps I (do_call env c e)"
  unfolding do_call_def by (intro keeps_intros)

lemma keeps_prod [keeps_intros]: "(\<And>a b. keeps I (f a b)) \<Longrightarrow> keeps I (case x of (a, b) \<Rightarrow> f a b)"
  by (cases x) simp

lemma keeps_continue [keeps_intros]: "keeps I m \<Longrightarrow> keeps I (continue m)"
  unfolding continue_def by (intro keeps_intros)

lemma keepsD: "keeps I m \<Longrightarrow> run_state m w = (r, w') \<Longrightarrow> I (history w) \<Longrightarrow> I (history w')"
  unfolding keeps_def by (metis snd_conv)

text \<open>The calls made since a point in the history all satisfy \<open>A\<close>.\<close>

definition since :: "call list \<Rightarrow> (call \<Rightarrow> bool) \<Rightarrow> call list \<Rightarrow> bool" where
  "since h0 A h \<longleftrightarrow> (\<exists>l. h = h0 @ l \<and> (\<forall>x \<in> set l. A x))"

lemma since_refl [simp]: "since h A h"
  by (simp add: since_def)

lemma since_snoc: "since h0 A h \<Longrightarrow> A c \<Longrightarrow> since h0 A (h @ [c])"
  by (auto simp: since_def)

lemma sinceD: "since h0 A h \<Longrightarrow> h = h0 @ l \<Longrightarrow> x \<in> set l \<Longrightarrow> A x"
  by (auto simp: since_def)

lemma keeps_loop:
  assumes "keeps I (if ShouldCloseVolume c then close_step env c else build_step env c)"
    and "\<And>h. I h \<Longrightarrow> I (h @ [CheckCtx])"
  shows "keeps I (process_loop n env c p)"
proof (induction n arbitrary: p)
  case 0
  show ?case by (simp add: keeps_fail)
next
  case (Suc n)
  show ?case unfolding process_loop.simps by (intro keeps_intros assms Suc.IH)
qed

lemma keeps_process:
  assumes "keeps I (if ShouldCloseVolume c then close_step env c else build_step env c)"
    and "\<And>h. I h \<Longrightarrow> I (h @ [CheckCtx])"
  shows "keeps I (processVolumeConfig env c)"
  unfolding processVolumeConfig_def by (intro keeps_intros keeps_loop assms)

section \<open>Closing only closes\<close>

lemma close_step_calls:
  assumes "A (CloseLUKS (mapped_name c))"
  shows "keeps (since h0 A) (close_step env c)"
  unfolding close_step_def Close_def CloseWithHandler_def recover_phase_def
  by (auto intro!: keeps_intros since_snoc assms split: VolumePhase.splits EncryptionProviderType.splits)

text \<open>Tearing a volume down touches no data: the closing machine makes no call except closing the
  volume's own LUKS mapping (and the test for cancellation); it never opens, partitions, formats or
  encrypts anything.\<close>

theorem closing_only_closes:
  assumes "ShouldCloseVolume c" and "run_state (processVolumeConfig env c) w = (r, w')"
  shows "\<exists>l. history w' = history w @ l \<and> set l \<subseteq> {CheckCtx, CloseLUKS (mapped_name c)}"
proof -
  let ?A = "\<lambda>x. x \<in> {CheckCtx, CloseLUKS (mapped_name c)}"
  have "keeps (since (history w) ?A) (processVolumeConfig env c)"
    using assms(1) by (intro keeps_process) (simp_all add: close_step_calls since_snoc)
  from keepsD [OF this assms(2)] have "since (history w) ?A (history w')" by simp
  then show ?thesis by (auto simp: since_def)
qed

section \<open>Where partitions are allocated\<close>

definition provisionable_disk :: "vol_env \<Rightarrow> ManagerContext \<Rightarrow> string \<Rightarrow> bool" where
  "provisionable_disk env c d \<longleftrightarrow>
     (\<exists>dc \<in> set (Disks c). DevPath (DiskOf dc) = d \<and> \<not> Readonly (DiskOf dc) \<and>
        match_disk env (SelMatch (DiskSel (Provisioning (Cfg c)))) (DiskOf dc) (cel_system_disk dc) = Some True)"

definition may_provision :: "vol_env \<Rightarrow> ManagerContext \<Rightarrow> bool" where
  "may_provision env c \<longleftrightarrow>
     CfgType (Cfg c) = VolumeTypePartition \<and> DevicesReady c \<and> PreviousWaveProvisioned c \<and>
     locate_loop env (Locator (Cfg c)) (Disks c) (DiscoveredVolumes c) = Inr None \<and>
     Provisioning (Cfg c) \<noteq> zero_ProvisioningSpec"

text \<open>A call that is an allocation only where \<open>D\<close> allows it.\<close>

fun allocates_only :: "(string \<Rightarrow> bool) \<Rightarrow> call \<Rightarrow> bool" where
  "allocates_only D (AllocatePartition d s l) = D d"
| "allocates_only D _ = True"

lemma select_disks_sound:
  "select_disks env sel ds = Inr ps \<Longrightarrow> d \<in> set ps \<Longrightarrow>
     \<exists>dc \<in> set ds. DevPath (DiskOf dc) = d \<and> \<not> Readonly (DiskOf dc) \<and>
       match_disk env sel (DiskOf dc) (cel_system_disk dc) = Some True"
  by (induction ds arbitrary: ps) (auto split: if_splits option.splits sum.splits)

lemma pick_disk_in:
  "run_state (pick_disk env cfg ds) w = (Inr (Some (d, r)), w') \<Longrightarrow> d \<in> set ds"
proof (induction ds arbitrary: w)
  case Nil
  then show ?case by (simp add: ok_def)
next
  case (Cons x xs)
  from Cons.prems show ?case
    by (auto simp: andThen_def ok_def fail_def split: prod.splits sum.splits if_splits dest: Cons.IH)
qed

lemma check_disk_calls: "keeps (since h0 (allocates_only D)) (CheckDiskForProvisioning env d cfg)"
  unfolding CheckDiskForProvisioning_def check_gpt_def Let_def
  by (auto intro!: keeps_intros since_snoc split: VolumeType.splits)

lemma pick_disk_calls: "keeps (since h0 (allocates_only D)) (pick_disk env cfg ds)"
  by (induction ds) (auto intro!: keeps_intros check_disk_calls)

lemma provision_on_calls:
  assumes "CfgType cfg = VolumeTypePartition \<Longrightarrow> D d"
  shows "keeps (since h0 (allocates_only D)) (provision_on env cfg d r)"
  unfolding provision_on_def CreatePartition_def create_in_def Let_def
  by (cases "CfgType cfg"; simp only: VolumeType.case; intro keeps_intros) (simp_all add: since_snoc assms)

lemma provision_calls:
  assumes "\<And>d. CfgType (Cfg c) = VolumeTypePartition \<Longrightarrow> provisionable_disk env c d \<Longrightarrow> D d"
  shows "keeps (since h0 (allocates_only D)) (provision env c)"
proof (cases "select_disks env (SelMatch (DiskSel (Provisioning (Cfg c)))) (Disks c)")
  case (Inl e)
  then show ?thesis by (simp add: provision_def keeps_fail)
next
  case (Inr ps)
  have picked: "keeps (since h0 (allocates_only D)) (provision_on env (Cfg c) d r)"
    if "d \<in> set ps" for d r
    using select_disks_sound [OF Inr that] assms
    by (intro provision_on_calls) (auto simp: provisionable_disk_def)
  have "keeps (since h0 (allocates_only D)) (andThen (pick_disk env (Cfg c) ps) (\<lambda>picked.
          case picked of None \<Rightarrow> fail (VErr True ''no disks matched for volume'')
          | Some (disk, r) \<Rightarrow> provision_on env (Cfg c) disk r))"
    by (rule keeps_andThen_result [OF pick_disk_calls])
       (auto split: option.splits intro: keeps_fail dest: pick_disk_in intro!: picked)
  with Inr show ?thesis
    by (auto simp: provision_def Let_def split: list.splits intro: keeps_fail)
qed

lemma locate_calls:
  assumes "\<And>d. may_provision env c \<Longrightarrow> provisionable_disk env c d \<Longrightarrow> D d"
  shows "keeps (since h0 (allocates_only D)) (LocateAndProvision env c)"
proof -
  have "keeps (since h0 (allocates_only D)) (locate_or_provision env c)"
    if "CfgType (Cfg c) \<in> {VolumeTypeDisk, VolumeTypePartition}"
    using that assms
    by (auto simp: locate_or_provision_def may_provision_def split: sum.splits option.splits
        intro!: keeps_set keeps_fail provision_calls)
  then show ?thesis
    by (cases "CfgType (Cfg c)") (simp_all add: LocateAndProvision_def Let_def keeps_andThen keeps_set)
qed

lemma build_step_calls:
  assumes "\<And>d. may_provision env c \<Longrightarrow> provisionable_disk env c d \<Longrightarrow> D d"
  shows "keeps (since h0 (allocates_only D)) (build_step env c)"
proof -
  have grow: "keeps (since h0 (allocates_only D)) (Grow env c)"
    unfolding Grow_def Let_def by (intro keeps_intros) (simp_all add: since_snoc)
  have enc: "keeps (since h0 (allocates_only D)) (HandleEncryption env c)"
    unfolding HandleEncryption_def HandleEncryptionWithHandler_def Let_def
    by (cases "Provider (Encryption (Cfg c))"; simp only: EncryptionProviderType.case; intro keeps_intros)
       (simp_all add: since_snoc)
  have fs: "keeps (since h0 (allocates_only D)) (GrowFilesystem env c)"
    "keeps (since h0 (allocates_only D)) (make_filesystem env c)"
    unfolding GrowFilesystem_def make_filesystem_def Let_def
    by (auto intro!: keeps_intros since_snoc split: FilesystemType.splits)
  have fmt: "keeps (since h0 (allocates_only D)) (Format env c)"
    unfolding Format_def Let_def by (intro keeps_intros fs) (simp_all add: since_snoc)
  show ?thesis
    unfolding build_step_def recover_phase_def
    by (auto intro!: keeps_intros grow enc fmt locate_calls assms split: VolumePhase.splits)
qed

lemma allocation_conditions:
  assumes "run_state (processVolumeConfig env c) w = (r, w')" and "history w' = history w @ l"
    and "AllocatePartition d sz lbl \<in> set l"
  shows "\<not> ShouldCloseVolume c \<and> may_provision env c \<and> provisionable_disk env c d"
proof (cases "ShouldCloseVolume c")
  case True
  have "keeps (since (history w) (allocates_only (\<lambda>_. False))) (processVolumeConfig env c)"
    using True by (intro keeps_process) (simp_all add: close_step_calls since_snoc)
  from sinceD [OF keepsD [OF this assms(1)] assms(2,3)] show ?thesis by simp
next
  case False
  let ?D = "\<lambda>d. may_provision env c \<and> provisionable_disk env c d"
  have "keeps (since (history w) (allocates_only ?D)) (processVolumeConfig env c)"
    using False by (intro keeps_process) (simp_all add: build_step_calls since_snoc)
  from sinceD [OF keepsD [OF this assms(1)] assms(2,3)] False show ?thesis by simp
qed

text \<open>C2: a partition is allocated only when it has to be: if a run of the automaton allocates a
  partition on a disk, then the volume is a partition volume with provisioning instructions that is
  not being closed, no discovered volume matches its locator, all devices are ready, the previous
  waves are provisioned, and the disk is a writable disk that the selector of the volume accepts.\<close>

theorem allocation_guarded:
  assumes "run_state (processVolumeConfig env c) w = (r, w')" and "history w' = history w @ l"
    and "AllocatePartition d sz lbl \<in> set l"
  shows "\<not> ShouldCloseVolume c \<and> may_provision env c \<and> provisionable_disk env c d"
  using assms by (rule allocation_conditions)

section \<open>A small machine for the witnesses\<close>

text \<open>One empty writable disk of 1 GiB, every call succeeds, and the only discovered volume does not
  match; a partition volume of at least 256 MiB with an XFS filesystem.\<close>

definition demo_env :: vol_env where
  "demo_env = \<lparr>call_ok = \<lambda>h c. True,
     probe = \<lambda>h p. Some \<lparr>InfoName = '''', InfoSize = 0x40000000, InfoSectorSize = 512\<rparr>,
     largest_free = \<lambda>h p. 0x3ff00000, avail_growth = \<lambda>h p i. Some 0,
     allocate = \<lambda>h d s l. Some (1, ''guid''), luks_open = \<lambda>h p m. Some (''/dev/mapper/x'', 0, []),
     eval_symlinks = \<lambda>h p. Some p, match_volume = \<lambda>e dv d. Some False, match_volume_disk = \<lambda>e d. Some False,
     match_disk = \<lambda>e d s. Some True, dev_name = \<lambda>d i. d @ ''1'', uuid_ok = \<lambda>u. True, handler_ok = \<lambda>e i. True\<rparr>"

definition demo_cfg :: VolumeConfigSpec where
  "demo_cfg = \<lparr>CfgParentID = '''', CfgType = VolumeTypePartition,
     Provisioning = zero_ProvisioningSpec\<lparr>PartSpec := zero_PartitionSpec\<lparr>MinSize := 0x10000000\<rparr>,
       FsSpec := \<lparr>FsType = FilesystemTypeXFS, FsLabel = ''EPHEMERAL''\<rparr>\<rparr>,
     Encryption = \<lparr>Provider = EncryptionProviderNone, Keys = []\<rparr>,
     Locator = \<lparr>Match = Some ''volume.label'', DiskMatch = None\<rparr>,
     Mount = zero_MountSpec\<lparr>TargetPath := ''/var''\<rparr>, CfgSymlink = \<lparr>SymlinkTargetPath = '''', ForceSymlink = False\<rparr>\<rparr>"

definition demo_ctx :: "bool \<Rightarrow> ManagerContext" where
  "demo_ctx closing = \<lparr>CfgID = ''EPHEMERAL'', Cfg = demo_cfg, DiscoveredVolumes = [],
     Disks = [\<lparr>DiskOf = \<lparr>DevPath = ''/dev/sda'', Readonly = False\<rparr>, SystemDisk = None\<rparr>],
     DevicesReady = True, PreviousWaveProvisioned = True, ShouldCloseVolume = closing\<rparr>"

definition demo_world :: "VolumePhase \<Rightarrow> world" where
  "demo_world p = \<lparr>status = zero_VolumeStatusSpec\<lparr>Phase := p\<rparr>, history = []\<rparr>"

lemma demo_build:
  "fst (run_state (processVolumeConfig demo_env (demo_ctx False)) (demo_world VolumePhaseWaiting)) = Inr ()"
  by code_simp

lemma demo_allocates:
  "AllocatePartition ''/dev/sda'' 0x3ff00000 '''' \<in>
     set (history (snd (run_state (processVolumeConfig demo_env (demo_ctx False)) (demo_world VolumePhaseWaiting))))"
  by code_simp

lemma demo_world_history [simp]: "history (demo_world p) = []"
  by (simp add: demo_world_def)

theorem process_settles_witness:
  "settled (demo_ctx False)
     (status (snd (run_state (processVolumeConfig demo_env (demo_ctx False)) (demo_world VolumePhaseWaiting))))"
  using process_settles [of demo_env "demo_ctx False" "demo_world VolumePhaseWaiting", OF _ prod.collapse [symmetric]]
    demo_build by (simp add: demo_env_def)

theorem closing_only_closes_witness:
  "set (history (snd (run_state (processVolumeConfig demo_env (demo_ctx True)) (demo_world VolumePhaseReady))))
     \<subseteq> {CheckCtx, CloseLUKS ''luks2-EPHEMERAL''}"
  using closing_only_closes [of "demo_ctx True" demo_env "demo_world VolumePhaseReady", OF _ prod.collapse [symmetric]]
  by (simp add: demo_ctx_def mapped_name_def)

theorem allocation_guarded_witness:
  "may_provision demo_env (demo_ctx False) \<and> provisionable_disk demo_env (demo_ctx False) ''/dev/sda''"
  using allocation_guarded [of demo_env "demo_ctx False" "demo_world VolumePhaseWaiting", OF prod.collapse [symmetric]]
    demo_allocates by simp

section \<open>Filesystems are made on blank devices only\<close>

text \<open>The device was probed earlier in the history and the probe found one of the names in \<open>N\<close>.\<close>

definition probed :: "vol_env \<Rightarrow> call list \<Rightarrow> string \<Rightarrow> string set \<Rightarrow> bool" where
  "probed env h p N \<longleftrightarrow>
     (\<exists>h1 h2 info. h = h1 @ ProbePath p # h2 \<and> probe env h1 p = Some info \<and> InfoName info \<in> N)"

fun safe_call :: "vol_env \<Rightarrow> call list \<Rightarrow> call \<Rightarrow> bool" where
  "safe_call env h (MkfsXFS p small l) = probed env h p {'''', ''swap''}"
| "safe_call env h (MkfsExt4 p l) = probed env h p {'''', ''swap''}"
| "safe_call env h (MkSwap p l) = probed env h p {'''', ''swap''}"
| "safe_call env h (FormatAndEncrypt p) = probed env h p {''''}"
| "safe_call env h _ = True"

definition guarded :: "vol_env \<Rightarrow> call list \<Rightarrow> bool" where
  "guarded env h \<longleftrightarrow> (\<forall>h1 c h2. h = h1 @ c # h2 \<longrightarrow> safe_call env h1 c)"

lemma guarded_Nil [simp]: "guarded env []"
  by (simp add: guarded_def)

lemma guarded_snoc [simp]: "guarded env (h @ [c]) \<longleftrightarrow> guarded env h \<and> safe_call env h c"
proof
  assume g: "guarded env (h @ [c])"
  then have "safe_call env h1 c1" if "h = h1 @ c1 # h2" for h1 c1 h2
    using that unfolding guarded_def by auto
  moreover have "safe_call env h c" using g unfolding guarded_def by blast
  ultimately show "guarded env h \<and> safe_call env h c" by (simp add: guarded_def)
next
  assume g: "guarded env h \<and> safe_call env h c"
  show "guarded env (h @ [c])"
    unfolding guarded_def
  proof (intro allI impI)
    fix h1 c1 h2
    assume eq: "h @ [c] = h1 @ c1 # h2"
    with g show "safe_call env h1 c1"
      unfolding guarded_def by (cases h2 rule: rev_cases) auto
  qed
qed

lemma probed_new: "probe env h p = Some info \<Longrightarrow> InfoName info \<in> N \<Longrightarrow> probed env (h @ [ProbePath p]) p N"
  unfolding probed_def by blast

lemma wp_keeps: "keeps I m \<Longrightarrow> I (history w) \<Longrightarrow> wp m (\<lambda>r w'. I (history w')) w"
  by (auto simp: wp_iff dest: keepsD)

lemma keeps_wp: "(\<And>w. I (history w) \<Longrightarrow> wp m (\<lambda>r w'. I (history w')) w) \<Longrightarrow> keeps I m"
  by (simp add: wp_def keeps_def case_prod_beta)

lemma make_fs_guarded:
  "guarded env (history w) \<Longrightarrow> probed env (history w) (MountLocation (status w)) {'''', ''swap''} \<Longrightarrow>
     wp (make_filesystem env c) (\<lambda>r w'. guarded env (history w')) w"
  by (simp add: make_filesystem_def Let_def wp_rules split: FilesystemType.splits sum.splits)

lemma grow_fs_guarded: "keeps (guarded env) (GrowFilesystem env c)"
  unfolding GrowFilesystem_def by (auto intro!: keeps_intros split: FilesystemType.splits)

lemma format_guarded: "keeps (guarded env) (Format env c)"
proof (rule keeps_wp)
  fix w :: world
  assume g: "guarded env (history w)"
  have gfs: "wp (GrowFilesystem env c) (\<lambda>r w'. case r of Inl e \<Rightarrow> guarded env (history w')
      | Inr x \<Rightarrow> wp (set_status f) (\<lambda>r w'. guarded env (history w')) w') w'"
    if "guarded env (history w')" for w' f
    by (rule wp_mono [OF wp_keeps [OF grow_fs_guarded that]]) (simp add: wp_set_status split: sum.split)
  show "wp (Format env c) (\<lambda>r w'. guarded env (history w')) w"
    unfolding Format_def Let_def wp_andThen wp_get_status sum.case wp_do_call
    using g by (simp add: wp_rules probed_new make_fs_guarded gfs del: append_assoc split: option.split)
qed

lemma encrypt_guarded: "keeps (guarded env) (HandleEncryption env c)"
proof (rule keeps_wp)
  fix w :: world
  assume g: "guarded env (history w)"
  have "wp (HandleEncryptionWithHandler env c) (\<lambda>r w'. guarded env (history w')) w"
    unfolding HandleEncryptionWithHandler_def Let_def wp_andThen wp_get_status sum.case wp_do_call
    using g by (simp add: wp_rules probed_new del: append_assoc split: option.split)
  then show "wp (HandleEncryption env c) (\<lambda>r w'. guarded env (history w')) w"
    using g by (simp add: HandleEncryption_def wp_rules split: EncryptionProviderType.split)
qed

lemma locate_guarded: "keeps (guarded env) (LocateAndProvision env c)"
proof -
  have check: "keeps (guarded env) (CheckDiskForProvisioning env d cfg)" for d cfg
    unfolding CheckDiskForProvisioning_def check_gpt_def Let_def
    by (auto intro!: keeps_intros split: VolumeType.splits)
  have pick: "keeps (guarded env) (pick_disk env cfg ds)" for cfg ds
    by (induction ds) (auto intro!: keeps_intros check)
  have on: "keeps (guarded env) (provision_on env cfg d r)" for cfg d r
    unfolding provision_on_def CreatePartition_def create_in_def Let_def
    by (cases "CfgType cfg"; simp only: VolumeType.case; intro keeps_intros) simp_all
  have "keeps (guarded env) (provision env c)"
    unfolding provision_def Let_def
    by (auto intro!: keeps_intros check pick on split: sum.splits list.splits)
  then have "keeps (guarded env) (locate_or_provision env c)"
    unfolding locate_or_provision_def by (auto intro!: keeps_intros split: sum.splits)
  then show ?thesis unfolding LocateAndProvision_def Let_def by (intro keeps_intros)
qed

lemma build_step_guarded: "keeps (guarded env) (build_step env c)"
proof -
  have "keeps (guarded env) (Grow env c)"
    unfolding Grow_def Let_def by (intro keeps_intros) simp_all
  then show ?thesis
    unfolding build_step_def recover_phase_def
    by (auto intro!: keeps_intros locate_guarded encrypt_guarded format_guarded split: VolumePhase.splits)
qed

lemma close_step_guarded: "keeps (guarded env) (close_step env c)"
  unfolding close_step_def Close_def CloseWithHandler_def recover_phase_def
  by (auto intro!: keeps_intros split: VolumePhase.splits EncryptionProviderType.splits)

text \<open>C1: no data is overwritten: in every run of the automaton, each filesystem is made on a device
  that an earlier probe of the same run has found blank or holding a swap signature, and a device is
  formatted for encryption only after a probe has found it blank.\<close>

theorem formats_only_blank:
  assumes "run_state (processVolumeConfig env c) w = (r, w')" and "history w = []"
    and "history w' = h1 @ call # h2"
  shows "safe_call env h1 call"
proof -
  have "keeps (guarded env) (processVolumeConfig env c)"
    by (rule keeps_process) (simp_all add: build_step_guarded close_step_guarded)
  from keepsD [OF this assms(1)] assms(2,3) show ?thesis by (simp add: guarded_def)
qed

lemma demo_formats:
  "\<exists>h1 h2. history (snd (run_state (processVolumeConfig demo_env (demo_ctx False)) (demo_world VolumePhaseWaiting))) =
     h1 @ MkfsXFS ''/dev/sda1'' False ''EPHEMERAL'' # h2"
proof -
  have "MkfsXFS ''/dev/sda1'' False ''EPHEMERAL'' \<in>
     set (history (snd (run_state (processVolumeConfig demo_env (demo_ctx False)) (demo_world VolumePhaseWaiting))))"
    by code_simp
  then show ?thesis by (rule split_list)
qed

theorem formats_only_blank_witness: "\<exists>h. probed demo_env h ''/dev/sda1'' {'''', ''swap''}"
  using demo_formats formats_only_blank [of demo_env "demo_ctx False" "demo_world VolumePhaseWaiting", OF prod.collapse [symmetric]]
  by fastforce

section \<open>Successful runs\<close>

text \<open>Inversion of a run that succeeds: every call on the way has succeeded.\<close>

named_theorems run_Inr \<open>inversion of successful runs\<close>

lemma andThen_Inr [run_Inr]:
  "run_state (andThen m f) w = (Inr y, w') \<longleftrightarrow>
     (\<exists>x w1. run_state m w = (Inr x, w1) \<and> run_state (f x) w1 = (Inr y, w'))"
  by (auto simp: andThen_def fail_def split: prod.splits sum.splits)

lemma ok_Inr [run_Inr]: "run_state (ok x) w = (Inr y, w') \<longleftrightarrow> y = x \<and> w' = w"
  by (auto simp: ok_def)

lemma fail_Inr [run_Inr]: "\<not> run_state (fail e) w = (Inr y, w')"
  by (simp add: fail_def)

lemma query_Inr [run_Inr]:
  "run_state (query c q) w = (Inr y, w') \<longleftrightarrow> y = q (history w) \<and> w' = w\<lparr>history := history w @ [c]\<rparr>"
  by (auto simp: query_def)

lemma try_query_Inr [run_Inr]:
  "run_state (try_query c q e) w = (Inr y, w') \<longleftrightarrow> q (history w) = Some y \<and> w' = w\<lparr>history := history w @ [c]\<rparr>"
  by (auto simp: try_query_def run_Inr split: option.splits)

lemma do_call_Inr [run_Inr]:
  "run_state (do_call env c e) w = (Inr y, w') \<longleftrightarrow>
     call_ok env (history w) c \<and> w' = w\<lparr>history := history w @ [c]\<rparr>"
  by (auto simp: do_call_def run_Inr)

lemma get_status_Inr [run_Inr]: "run_state get_status w = (Inr y, w') \<longleftrightarrow> y = status w \<and> w' = w"
  by (auto simp: get_status_def)

lemma set_status_Inr [run_Inr]:
  "run_state (set_status f) w = (Inr y, w') \<longleftrightarrow> w' = w\<lparr>status := f (status w)\<rparr>"
  by (auto simp: set_status_def)

lemma create_in_Inr:
  assumes "run_state (create_in env d cfg available) w = (Inr p, w')"
  shows "\<exists>maxSize. ResolveMaxSize (PartSpec (Provisioning cfg)) available = Some maxSize \<and>
    \<not> available < MinSize (PartSpec (Provisioning cfg)) \<and>
    CreatedSize p = partition_size available maxSize \<and>
    AllocatePartition d (CreatedSize p) (PLabel (PartSpec (Provisioning cfg))) \<in> set (history w')"
proof (cases "ResolveMaxSize (PartSpec (Provisioning cfg)) available")
  case None
  with assms show ?thesis by (simp add: create_in_def run_Inr Let_def)
next
  case (Some maxSize)
  let ?P = "available < MinSize (PartSpec (Provisioning cfg)) \<or> \<not> uuid_ok env (TypeUUID (PartSpec (Provisioning cfg)))"
  have n: "\<not> ?P" using assms Some
    by (auto simp: create_in_def run_Inr Let_def split: if_splits)
  then have "\<not> available < MinSize (PartSpec (Provisioning cfg))"
    "uuid_ok env (TypeUUID (PartSpec (Provisioning cfg)))" by simp_all
  with assms Some show ?thesis by (auto simp: create_in_def Let_def run_Inr split: prod.splits)
qed

lemma CreatePartition_Inr:
  assumes "run_state (CreatePartition env d cfg b) w = (Inr p, w')"
  shows "\<exists>h w1. run_state (create_in env d cfg (largest_free env h d)) w1 = (Inr p, w')"
  using assms unfolding CreatePartition_def by (auto simp only: run_Inr)

section \<open>Sizes\<close>

text \<open>ResolveMaxSize is exact: as long as the product with the percentage does not wrap around,
  a relative maximum of at most 100 percent resolves to that share of the space, or, when negative,
  to what the share leaves free; it never exceeds the space and never fails.\<close>

theorem resolve_relative_exact:
  assumes "RelativeMaxSize ps \<noteq> 0" and "RelativeMaxSize ps \<le> 100"
    and "unat available * unat (RelativeMaxSize ps) < 2 ^ 64"
  shows "\<exists>m. ResolveMaxSize ps available = Some m \<and> m \<le> available \<and>
    unat m = (let share = unat available * unat (RelativeMaxSize ps) div 100
              in if NegativeMaxSize ps then unat available - share else share)"
proof -
  let ?m = "available * RelativeMaxSize ps div 100"
  have m: "unat ?m = unat available * unat (RelativeMaxSize ps) div 100"
    using assms(3) by (intro unat_mult_div_100) simp
  have "unat (RelativeMaxSize ps) \<le> 100" using assms(2) by (simp add: word_le_nat_alt)
  then have "unat available * unat (RelativeMaxSize ps) div 100 \<le> unat available * 100 div 100"
    by (intro div_le_mono mult_le_mono2)
  then have le: "?m \<le> available" by (simp add: word_le_nat_alt m)
  then have sub: "unat (available - ?m) = unat available - unat ?m" by (simp add: unat_sub)
  have "available - ?m \<le> available" using sub by (simp add: word_le_nat_alt)
  with le sub assms(1) m show ?thesis by (auto simp: ResolveMaxSize_def Let_def not_less)
qed

text \<open>The size of a created partition: a successful CreatePartition allocates the space available
  on the disk or a smaller maximum resolved from the configuration, and never starts when the space
  is below the minimum.\<close>

theorem created_partition_size:
  assumes "run_state (CreatePartition env d cfg b) w = (Inr p, w')"
  shows "\<exists>h available maxSize.
    available = largest_free env h d \<and> MinSize (PartSpec (Provisioning cfg)) \<le> available \<and>
    ResolveMaxSize (PartSpec (Provisioning cfg)) available = Some maxSize \<and>
    CreatedSize p = partition_size available maxSize \<and> CreatedSize p \<le> available \<and>
    AllocatePartition d (CreatedSize p) (PLabel (PartSpec (Provisioning cfg))) \<in> set (history w')"
proof -
  from CreatePartition_Inr [OF assms] obtain h w1
    where run: "run_state (create_in env d cfg (largest_free env h d)) w1 = (Inr p, w')" by blast
  from create_in_Inr [OF run] obtain maxSize
    where m: "ResolveMaxSize (PartSpec (Provisioning cfg)) (largest_free env h d) = Some maxSize"
      "\<not> largest_free env h d < MinSize (PartSpec (Provisioning cfg))"
      "CreatedSize p = partition_size (largest_free env h d) maxSize"
      "AllocatePartition d (CreatedSize p) (PLabel (PartSpec (Provisioning cfg))) \<in> set (history w')" by blast
  have "partition_size (largest_free env h d) maxSize \<le> largest_free env h d"
    by (auto simp: partition_size_def not_le)
  with m show ?thesis
    by (intro exI [of _ h] exI [of _ "largest_free env h d"] exI [of _ maxSize]) (simp add: not_less)
qed

text \<open>MinSize is not a lower bound of the partition: the space available is compared with
  MinSize, but a resolved maximum below MinSize is used as the size, so with a relative maximum that
  resolves below the minimum the partition is created smaller than MinSize.\<close>

theorem partition_below_min:
  assumes "\<forall>h. largest_free env h d = available" and "MinSize (PartSpec (Provisioning cfg)) \<le> available"
    and "ResolveMaxSize (PartSpec (Provisioning cfg)) available = Some m" and "0 < m"
    and "m < MinSize (PartSpec (Provisioning cfg))"
    and "run_state (CreatePartition env d cfg b) w = (Inr p, w')"
  shows "CreatedSize p = m \<and> CreatedSize p < MinSize (PartSpec (Provisioning cfg))"
proof -
  from CreatePartition_Inr [OF assms(6)] assms(1) obtain w1
    where "run_state (create_in env d cfg available) w1 = (Inr p, w')" by auto
  from create_in_Inr [OF this] assms(3) have "CreatedSize p = partition_size available m" by simp
  moreover have "m < available" using assms(5,2) by (rule less_le_trans)
  ultimately show ?thesis using assms(4,5) by (auto simp: partition_size_def not_le [symmetric])
qed

text \<open>Growing a partition stays within the absolute maximum: when MaxSize is set and the volume
  is not larger than it, it is not larger after Grow, and the new size does not wrap around.\<close>

theorem grow_within_max:
  assumes "run_state (Grow env c) w = (Inr (), w')"
    and "0 < MaxSize (PartSpec (Provisioning (Cfg c)))"
    and "VSize (status w) \<le> MaxSize (PartSpec (Provisioning (Cfg c)))"
  shows "VSize (status w) \<le> VSize (status w') \<and> VSize (status w') \<le> MaxSize (PartSpec (Provisioning (Cfg c)))"
proof -
  let ?max = "MaxSize (PartSpec (Provisioning (Cfg c)))" and ?size = "VSize (status w)"
  have bound: "?size \<le> ?size + g \<and> ?size + g \<le> ?max" if "g \<le> ?max - ?size" for g
  proof -
    have "unat (?max - ?size) = unat ?max - unat ?size" using assms(3) by (simp add: unat_sub)
    then have g: "unat g \<le> unat ?max - unat ?size" using that by (simp add: word_le_nat_alt)
    moreover have "unat ?size \<le> unat ?max" using assms(3) by (simp add: word_le_nat_alt)
    ultimately have "unat ?size + unat g \<le> unat ?max" by simp
    moreover from this have "unat (?size + g) = unat ?size + unat g"
      using unat64_less [of ?max] by (simp add: unat_word_ariths)
    ultimately show ?thesis by (simp add: word_le_nat_alt)
  qed
  have "wp (Grow env c) (\<lambda>r w'. ?size \<le> VSize (status w') \<and> VSize (status w') \<le> ?max) w"
    unfolding Grow_def Let_def wp_andThen wp_get_status wp_if wp_do_call sum.case
    using assms(2,3) bound by (auto simp: wp_rules not_less split: option.splits)
  from wpD [OF this assms(1)] show ?thesis .
qed

text \<open>Grow knows only the absolute maximum: for a growing partition without MaxSize, whatever
  RelativeMaxSize and NegativeMaxSize say, a successful Grow with more than 1 MiB to gain takes all of
  the space that the partition table offers.\<close>

theorem grow_ignores_relative_max:
  assumes "CfgType (Cfg c) = VolumeTypePartition" and "PGrow (PartSpec (Provisioning (Cfg c)))"
    and "MaxSize (PartSpec (Provisioning (Cfg c))) = 0"
    and "\<forall>h. avail_growth env h (ParentLocation (status w)) (PartitionIndex (status w) - 1) = Some avail"
    and "1024 * 1024 < avail" and "run_state (Grow env c) w = (Inr (), w')"
  shows "VSize (status w') = VSize (status w) + avail"
proof -
  have "wp (Grow env c) (\<lambda>r w'. r = Inr () \<longrightarrow> VSize (status w') = VSize (status w) + avail) w"
    unfolding Grow_def Let_def wp_andThen wp_get_status wp_if wp_do_call sum.case
    using assms(1-5) by (auto simp: wp_rules)
  from wpD [OF this assms(6)] show ?thesis by simp
qed

section \<open>Witnesses for the sizes\<close>

theorem resolve_relative_exact_witness:
  "\<exists>m. ResolveMaxSize (zero_PartitionSpec\<lparr>RelativeMaxSize := 25\<rparr>) 1000 = Some m \<and> unat m = 250"
  using resolve_relative_exact [of "zero_PartitionSpec\<lparr>RelativeMaxSize := 25\<rparr>" 1000]
  by (auto simp: zero_PartitionSpec_def Let_def)

definition demo_create :: "VolumeConfigSpec \<Rightarrow> CreatePartitionResult" where
  "demo_create cfg = projr (fst (run_state (CreatePartition demo_env ''/dev/sda'' cfg False) (demo_world VolumePhaseWaiting)))"

definition demo_created :: "VolumeConfigSpec \<Rightarrow> world" where
  "demo_created cfg = snd (run_state (CreatePartition demo_env ''/dev/sda'' cfg False) (demo_world VolumePhaseWaiting))"

text \<open>A tenth of the disk, with a minimum of 256 MiB.\<close>

definition demo_small :: VolumeConfigSpec where
  "demo_small = demo_cfg\<lparr>Provisioning := Provisioning demo_cfg\<lparr>PartSpec := (PartSpec (Provisioning demo_cfg))\<lparr>RelativeMaxSize := 10\<rparr>\<rparr>\<rparr>"

lemma demo_run:
  "run_state (CreatePartition demo_env ''/dev/sda'' demo_cfg False) (demo_world VolumePhaseWaiting) = (Inr (demo_create demo_cfg), demo_created demo_cfg)"
  "run_state (CreatePartition demo_env ''/dev/sda'' demo_small False) (demo_world VolumePhaseWaiting) = (Inr (demo_create demo_small), demo_created demo_small)"
proof -
  have "fst (run_state (CreatePartition demo_env ''/dev/sda'' demo_cfg False) (demo_world VolumePhaseWaiting)) = Inr \<lparr>PartitionIdx = 1, PartGUID = ''guid'', CreatedSize = 0x3ff00000\<rparr>"
    by code_simp
  then show "run_state (CreatePartition demo_env ''/dev/sda'' demo_cfg False) (demo_world VolumePhaseWaiting) = (Inr (demo_create demo_cfg), demo_created demo_cfg)"
    unfolding demo_create_def demo_created_def by (metis prod.collapse sum.sel(2))
  have "fst (run_state (CreatePartition demo_env ''/dev/sda'' demo_small False) (demo_world VolumePhaseWaiting)) = Inr \<lparr>PartitionIdx = 1, PartGUID = ''guid'', CreatedSize = 107269324\<rparr>"
    by code_simp
  then show "run_state (CreatePartition demo_env ''/dev/sda'' demo_small False) (demo_world VolumePhaseWaiting) = (Inr (demo_create demo_small), demo_created demo_small)"
    unfolding demo_create_def demo_created_def by (metis prod.collapse sum.sel(2))
qed

theorem created_partition_size_witness:
  "\<exists>l. AllocatePartition ''/dev/sda'' (CreatedSize (demo_create demo_cfg)) l \<in> set (history (demo_created demo_cfg))"
  using created_partition_size [OF demo_run(1)] by blast

theorem partition_below_min_witness:
  "CreatedSize (demo_create demo_small) < MinSize (PartSpec (Provisioning demo_small))"
proof -
  have "ResolveMaxSize (PartSpec (Provisioning demo_small)) 0x3ff00000 = Some 107269324" by code_simp
  moreover have "MinSize (PartSpec (Provisioning demo_small)) = 0x10000000" by code_simp
  ultimately show ?thesis
    using partition_below_min [where available = "0x3ff00000" and m = "107269324", OF _ _ _ _ _ demo_run(2)] by (simp add: demo_env_def)
qed

text \<open>A growing partition of 256 MiB with 512 MiB free behind it.\<close>

definition grow_ctx :: "u64 \<Rightarrow> ManagerContext" where
  "grow_ctx mx = (demo_ctx False)\<lparr>Cfg := demo_cfg\<lparr>Provisioning := Provisioning demo_cfg\<lparr>
     PartSpec := (PartSpec (Provisioning demo_cfg))\<lparr>MaxSize := mx, RelativeMaxSize := 10, PGrow := True\<rparr>\<rparr>\<rparr>\<rparr>"

definition grow_env :: vol_env where
  "grow_env = demo_env\<lparr>avail_growth := \<lambda>h p i. Some 0x20000000\<rparr>"

definition grow_world :: world where
  "grow_world = \<lparr>status = zero_VolumeStatusSpec\<lparr>Phase := VolumePhaseLocated, VSize := 0x10000000\<rparr>, history = []\<rparr>"

lemma grow_run:
  "fst (run_state (Grow grow_env (grow_ctx 0x18000000)) grow_world) = Inr ()"
  "fst (run_state (Grow grow_env (grow_ctx 0)) grow_world) = Inr ()"
  by code_simp+

lemma grow_ctx_fields [simp]:
  "MaxSize (PartSpec (Provisioning (Cfg (grow_ctx m)))) = m" "PGrow (PartSpec (Provisioning (Cfg (grow_ctx m))))"
  "CfgType (Cfg (grow_ctx m)) = VolumeTypePartition" "VSize (status grow_world) = 0x10000000"
  by (simp_all add: grow_ctx_def grow_world_def demo_ctx_def demo_cfg_def)

theorem grow_within_max_witness:
  "VSize (status (snd (run_state (Grow grow_env (grow_ctx 0x18000000)) grow_world))) \<le> 0x18000000"
  using grow_within_max [of grow_env "grow_ctx 0x18000000" grow_world, OF prod_eqI] grow_run(1) by simp

theorem grow_ignores_relative_max_witness:
  "VSize (status (snd (run_state (Grow grow_env (grow_ctx 0)) grow_world))) = 0x30000000"
proof -
  have "avail_growth grow_env h p i = Some 0x20000000" for h p i by (simp add: grow_env_def)
  moreover have "run_state (Grow grow_env (grow_ctx 0)) grow_world =
      (Inr (), snd (run_state (Grow grow_env (grow_ctx 0)) grow_world))"
    by (metis grow_run(2) prod.collapse)
  ultimately show ?thesis
    using grow_ignores_relative_max [of "grow_ctx 0" grow_env grow_world "0x20000000"
      "snd (run_state (Grow grow_env (grow_ctx 0)) grow_world)"] by simp
qed

end
