(* ===== verification/VolumeManager.thy ===== *)
theory VolumeManager
  imports VolumeProps "HOL-Library.Product_Lexorder"
begin

text \<open>
  The volume manager controller, volume_manager.go and CompareVolumeConfigs of volumes.go: one pass of
  Run over the volume configurations, in the order of provisioning waves, with the finalizers that tie
  volumes, parents and the volume lifecycle together. The calls of the COSI runtime (AddFinalizer,
  RemoveFinalizer, Teardown, Destroy, Modify) are kept in a history of their own and may fail; the
  resources of a pass are the snapshot that Run has read at its start.
\<close>

section \<open>The order of provisioning\<close>

definition cmp_compare :: "'a::linorder \<Rightarrow> 'a \<Rightarrow> int" where
  "cmp_compare a b = (if a < b then -1 else if a = b then 0 else 1)"

definition cmpBool :: "bool \<Rightarrow> bool \<Rightarrow> int" where
  "cmpBool a b = (if a = b then 0 else if a then 1 else -1)"

definition desired_size :: "VolumeConfigSpec \<Rightarrow> u64" where
  "desired_size s = (if MaxSize (PartSpec (Provisioning s)) \<noteq> 0 then MaxSize (PartSpec (Provisioning s)) else - 1)"

definition CompareVolumeConfigs :: "VolumeConfigSpec \<Rightarrow> VolumeConfigSpec \<Rightarrow> int" where
  "CompareVolumeConfigs a b =
     (let c = cmp_compare (Wave (Provisioning a)) (Wave (Provisioning b)) in
      if c \<noteq> 0 then c
      else
        (let c = cmpBool (PGrow (PartSpec (Provisioning a))) (PGrow (PartSpec (Provisioning b))) in
         if c \<noteq> 0 then c else cmp_compare (desired_size a) (desired_size b)))"

text \<open>slices.SortStableFunc with this comparison is the stable sort by the lexicographic key
  (property \<open>compare_is_key_order\<close>).\<close>

definition provision_key :: "VolumeConfigSpec \<Rightarrow> int \<times> bool \<times> u64" where
  "provision_key s = (Wave (Provisioning s), PGrow (PartSpec (Provisioning s)), desired_size s)"

section \<open>Resources and the state of a pass\<close>

record VolumeConfig =
  VcID :: string
  VcPhase :: ResourcePhase
  VcFinalizers :: "string list"
  VcSpec :: VolumeConfigSpec

record VolumeStatus =
  VsPhase :: ResourcePhase
  VsFinalizers :: "string list"
  VsSpec :: VolumeStatusSpec

record VolumeLifecycle =
  LcPhase :: ResourcePhase
  LcFinalizers :: "string list"

datatype rt_call =
    AddFinalizer string string string
  | RemoveFinalizer string string string
  | Teardown string
  | Destroy string
  | ModifyStatus string VolumeStatusSpec
  | RefreshRequest
  | RtCheckCtx

text \<open>The kinds of resources a finalizer call names.\<close>

abbreviation (input) "CONFIG \<equiv> ''VolumeConfig''"
abbreviation (input) "STATUS \<equiv> ''VolumeStatus''"
abbreviation (input) "LIFECYCLE \<equiv> ''VolumeLifecycle''"

definition ctrl_name :: string where
  "ctrl_name = ''block.VolumeManagerController''"

text \<open>fullyProvisionedWave starts as math.MaxInt; None stands for it.\<close>

record pass =
  Statuses :: "(string, VolumeStatus) gomap"
  FullyProvisionedWave :: "int option"
  AllClosed :: bool
  ShouldRetry :: bool
  RtCalls :: "rt_call list"
  VolCalls :: "call list"

text \<open>What a pass has read: the answers of the runtime and of the volume operations, the disks, the
  discovered volumes, and whether the lifecycle requires a global teardown.\<close>

record inputs =
  rt_ok :: "rt_call list \<Rightarrow> rt_call \<Rightarrow> bool"
  VolEnv :: vol_env
  InDisks :: "DiskContext list"
  InDiscovered :: "DiscoveredVolume list"
  InDevicesReady :: bool
  LifecycleTearingDown :: bool

text \<open>How the pass goes on: with the next volume, or out of Run with or without an error.\<close>

datatype run_result = RunReturns | RunFails rt_call

definition rt :: "inputs \<Rightarrow> rt_call \<Rightarrow> pass \<Rightarrow> run_result + pass" where
  "rt inp c p =
     (if rt_ok inp (RtCalls p) c then Inr (p\<lparr>RtCalls := RtCalls p @ [c]\<rparr>) else Inl (RunFails c))"

definition bindR :: "run_result + 'a \<Rightarrow> ('a \<Rightarrow> run_result + 'b) \<Rightarrow> run_result + 'b" where
  "bindR m f = (case m of Inl r \<Rightarrow> Inl r | Inr x \<Rightarrow> f x)"

definition rt_when :: "bool \<Rightarrow> inputs \<Rightarrow> rt_call \<Rightarrow> pass \<Rightarrow> run_result + pass" where
  "rt_when b inp c p = (if b then rt inp c p else Inr p)"

section \<open>One volume\<close>

definition parent_finalizer :: "VolumeConfig \<Rightarrow> string" where
  "parent_finalizer vc = ctrl_name @ ''-'' @ VcID vc"

definition parent_status :: "pass \<Rightarrow> VolumeConfig \<Rightarrow> VolumeStatus option" where
  "parent_status p vc =
     (if CfgParentID (VcSpec vc) \<noteq> '''' then gm_get (Statuses p) (CfgParentID (VcSpec vc)) else None)"

definition tearing_down :: "inputs \<Rightarrow> pass \<Rightarrow> VolumeConfig \<Rightarrow> bool" where
  "tearing_down inp p vc \<longleftrightarrow>
     (case gm_get (Statuses p) (VcID vc) of Some vs \<Rightarrow> VsPhase vs = PhaseTearingDown | None \<Rightarrow> False) \<or>
     VcPhase vc = PhaseTearingDown \<or>
     (case parent_status p vc of Some ps \<Rightarrow> VsPhase ps = PhaseTearingDown | None \<Rightarrow> False) \<or>
     LifecycleTearingDown inp"

text \<open>Releasing the parent, when it still holds the finalizer of this volume.\<close>

definition release_parent :: "inputs \<Rightarrow> VolumeConfig \<Rightarrow> VolumeStatus option \<Rightarrow> pass \<Rightarrow> run_result + pass" where
  "release_parent inp vc parent p =
     (case parent of
        None \<Rightarrow> Inr p
      | Some ps \<Rightarrow>
          rt_when (parent_finalizer vc \<in> set (VsFinalizers ps)) inp
            (RemoveFinalizer STATUS (CfgParentID (VcSpec vc)) (parent_finalizer vc)) p)"

text \<open>progressVolumeConfig: the error of the volume, its new status, and the pass with the calls made.\<close>

definition progressVolumeConfig ::
    "inputs \<Rightarrow> VolumeConfig \<Rightarrow> VolumeStatus option \<Rightarrow> ManagerContext \<Rightarrow> VolumeStatusSpec \<Rightarrow> pass \<Rightarrow>
     (vol_error option \<times> VolumeStatusSpec) \<times> pass" where
  "progressVolumeConfig inp vc parent c st p =
     (let process = (\<lambda>p.
            case run_state (processVolumeConfig (VolEnv inp) c) \<lparr>status = st, history = VolCalls p\<rparr> of
              (r, w) \<Rightarrow> ((case r of Inl e \<Rightarrow> Some e | Inr _ \<Rightarrow> None, status w), p\<lparr>VolCalls := history w\<rparr>))
      in if ShouldCloseVolume c \<or> CfgParentID (VcSpec vc) = '''' then process p
         else
           (case parent of
              None \<Rightarrow> ((None, st), p)
            | Some ps \<Rightarrow>
                if parent_finalizer vc \<in> set (VsFinalizers ps) then process p
                else
                  (let call = AddFinalizer STATUS (CfgParentID (VcSpec vc)) (parent_finalizer vc) in
                   if rt_ok inp (RtCalls p) call then process (p\<lparr>RtCalls := RtCalls p @ [call]\<rparr>)
                   else ((Some (VErr False ''error adding finalizer to parent volume configuration''), st),
                         p\<lparr>RtCalls := RtCalls p @ [call]\<rparr>))))"

fun error_text :: "vol_error \<Rightarrow> string" where
  "error_text (VErr retryable msg) = msg"
| "error_text VPanic = ''unexpected volume type''"
| "error_text VSteps = ''''"

fun retryable :: "vol_error \<Rightarrow> bool" where
  "retryable (VErr b msg) = b"
| "retryable _ = False"

text \<open>The status after a run of the automaton: Failed with the phase to go back to, or the error
  cleared.\<close>

definition record_result :: "vol_error option \<Rightarrow> VolumeStatusSpec \<Rightarrow> VolumeStatusSpec" where
  "record_result err st =
     (case err of
        Some e \<Rightarrow> st\<lparr>PreFailPhase := Phase st, Phase := VolumePhaseFailed, ErrorMessage := error_text e\<rparr>
      | None \<Rightarrow> st\<lparr>ErrorMessage := '''', PreFailPhase := VolumePhaseWaiting\<rparr>)"

definition manager_context :: "inputs \<Rightarrow> VolumeConfig \<Rightarrow> bool \<Rightarrow> pass \<Rightarrow> ManagerContext" where
  "manager_context inp vc close p =
     \<lparr>CfgID = VcID vc, Cfg = VcSpec vc, DiscoveredVolumes = InDiscovered inp, Disks = InDisks inp,
      DevicesReady = InDevicesReady inp,
      PreviousWaveProvisioned =
        (case FullyProvisionedWave p of None \<Rightarrow> True | Some w \<Rightarrow> Wave (Provisioning (VcSpec vc)) \<le> w),
      ShouldCloseVolume = close\<rparr>"

definition stub_status :: "VolumeConfig \<Rightarrow> VolumeStatus" where
  "stub_status vc =
     \<lparr>VsPhase = PhaseRunning, VsFinalizers = [],
      VsSpec = zero_VolumeStatusSpec\<lparr>Phase := VolumePhaseWaiting, StType := CfgType (VcSpec vc),
        StParentID := CfgParentID (VcSpec vc)\<rparr>\<rparr>"

text \<open>The rest of the loop body, from the existing (or new) status on.\<close>

definition process_status ::
    "inputs \<Rightarrow> VolumeConfig \<Rightarrow> VolumeStatus option \<Rightarrow> bool \<Rightarrow> VolumeStatus \<Rightarrow> pass \<Rightarrow> run_result + pass" where
  "process_status inp vc parent tearing vs p =
     bindR (rt_when (tearing \<and> VsPhase vs \<noteq> PhaseTearingDown) inp (Teardown (VcID vc)) p) (\<lambda>p.
       let close = (tearing \<and> VsFinalizers vs = []);
           ((err, st), p) = progressVolumeConfig inp vc parent (manager_context inp vc close p) (VsSpec vs) p;
           st = record_result err st;
           p = p\<lparr>Statuses := gm_set (Statuses p) (VcID vc) (vs\<lparr>VsSpec := st\<rparr>),
                 ShouldRetry := (ShouldRetry p \<or> (case err of Some e \<Rightarrow> retryable e | None \<Rightarrow> False)),
                 FullyProvisionedWave :=
                   (if Phase st \<noteq> VolumePhaseReady then Some (Wave (Provisioning (VcSpec vc)) - 1)
                    else FullyProvisionedWave p),
                 AllClosed := (AllClosed p \<and> (Phase st = VolumePhaseClosed \<or> VcID vc = MetaPartitionLabel))\<rparr>
       in if close \<and> Phase st = VolumePhaseClosed then
            bindR (release_parent inp vc parent p) (\<lambda>p.
            bindR (rt inp (Destroy (VcID vc)) p) (\<lambda>p.
              Inr (p\<lparr>Statuses := gm_del (Statuses p) (VcID vc)\<rparr>)))
          else Inr p)"

definition process_volume :: "inputs \<Rightarrow> VolumeConfig \<Rightarrow> pass \<Rightarrow> run_result + pass" where
  "process_volume inp vc p =
     (if \<not> rt_ok inp (RtCalls p) RtCheckCtx then Inl RunReturns
      else
        (let parent = parent_status p vc; tearing = tearing_down inp p vc in
         case gm_get (Statuses p) (VcID vc) of
           Some vs \<Rightarrow> process_status inp vc parent tearing vs p
         | None \<Rightarrow>
             if tearing then
               bindR (release_parent inp vc parent p) (\<lambda>p.
                 rt_when (ctrl_name \<in> set (VcFinalizers vc)) inp (RemoveFinalizer CONFIG (VcID vc) ctrl_name) p)
             else process_status inp vc parent tearing (stub_status vc)
                    (p\<lparr>Statuses := gm_set (Statuses p) (VcID vc) (stub_status vc)\<rparr>)))"

fun process_volumes :: "inputs \<Rightarrow> VolumeConfig list \<Rightarrow> pass \<Rightarrow> run_result + pass" where
  "process_volumes inp [] p = Inr p"
| "process_volumes inp (vc # vcs) p = bindR (process_volume inp vc p) (process_volumes inp vcs)"

section \<open>The pass\<close>

text \<open>Whether the devices are ready: udevd has reported so, and the discovery that the controller then
  requests has caught up. The state is deviceReadyObserved and deviceReadyRequest.\<close>

record device_state =
  DeviceReadyObserved :: bool
  DeviceReadyRequest :: int

definition devices_ready ::
    "bool option \<Rightarrow> int option \<Rightarrow> int \<Rightarrow> device_state \<Rightarrow> bool \<times> int \<times> device_state" where
  "devices_ready devicesStatus refreshStatus request ds =
     (let ready = (devicesStatus = Some True);
          fire = (ready \<and> \<not> DeviceReadyObserved ds);
          request = (if fire then request + 1 else request);
          ds = (if fire then ds\<lparr>DeviceReadyObserved := True, DeviceReadyRequest := request\<rparr> else ds)
      in (ready \<and> refreshStatus = Some (DeviceReadyRequest ds), request, ds))"

text \<open>The system disk: the recorded one, or the configured install disk while there is none.\<close>

definition disk_context :: "string option \<Rightarrow> string \<Rightarrow> string \<Rightarrow> Disk \<Rightarrow> DiskContext" where
  "disk_context systemDisk installDisk diskID d =
     \<lparr>DiskOf = d,
      SystemDisk =
        (case systemDisk of
           Some i \<Rightarrow> Some (diskID = i)
         | None \<Rightarrow> Some (installDisk \<noteq> '''' \<and> DevPath d = installDisk))\<rparr>"

definition lifecycle_tearing_down :: "VolumeLifecycle \<Rightarrow> bool" where
  "lifecycle_tearing_down lc \<longleftrightarrow>
     LcPhase lc = PhaseTearingDown \<and> (\<forall>f \<in> set (LcFinalizers lc). f = ctrl_name)"

fun add_finalizers :: "inputs \<Rightarrow> VolumeConfig list \<Rightarrow> pass \<Rightarrow> run_result + pass" where
  "add_finalizers inp [] p = Inr p"
| "add_finalizers inp (vc # vcs) p =
     bindR (rt_when (VcPhase vc = PhaseRunning \<and> ctrl_name \<notin> set (VcFinalizers vc)) inp
              (AddFinalizer CONFIG (VcID vc) ctrl_name) p)
       (add_finalizers inp vcs)"

text \<open>The update of the status resources, in the order in which the range loop visits them.\<close>

fun write_statuses :: "inputs \<Rightarrow> (string, VolumeStatus) gomap \<Rightarrow> pass \<Rightarrow> run_result + pass" where
  "write_statuses inp [] p = Inr p"
| "write_statuses inp ((i, vs) # rest) p =
     bindR (rt inp (ModifyStatus i (VsSpec vs)) p) (write_statuses inp rest)"

definition start_pass :: "(string, VolumeStatus) gomap \<Rightarrow> bool \<Rightarrow> pass" where
  "start_pass statuses retry =
     \<lparr>Statuses = statuses, FullyProvisionedWave = None, AllClosed = True, ShouldRetry = retry,
      RtCalls = [], VolCalls = []\<rparr>"

definition sort_configs :: "VolumeConfig list \<Rightarrow> VolumeConfig list" where
  "sort_configs vcs = sort_key (\<lambda>vc. provision_key (VcSpec vc)) vcs"

text \<open>One turn of the loop of Run after the resources are read; \<open>order\<close> is the visiting order of the
  final range loop. Without a lifecycle the turn ends at once.\<close>

definition run_pass ::
    "inputs \<Rightarrow> VolumeLifecycle option \<Rightarrow> VolumeConfig list \<Rightarrow> (string, VolumeStatus) gomap \<Rightarrow> bool \<Rightarrow>
     ((string, VolumeStatus) gomap \<Rightarrow> (string, VolumeStatus) gomap) \<Rightarrow> run_result + pass" where
  "run_pass inp lifecycle configs statuses retry order =
     (let p = start_pass statuses retry in
      case lifecycle of
        None \<Rightarrow> Inr p
      | Some lc \<Rightarrow>
          bindR (rt_when (LcPhase lc = PhaseRunning) inp (AddFinalizer LIFECYCLE '''' ctrl_name) p) (\<lambda>p.
          bindR (add_finalizers inp configs p) (\<lambda>p.
          bindR (process_volumes (inp\<lparr>LifecycleTearingDown := lifecycle_tearing_down lc\<rparr>) (sort_configs configs) p) (\<lambda>p.
          bindR (write_statuses inp (order (Statuses p)) p) (\<lambda>p.
            rt_when (LcPhase lc = PhaseTearingDown \<and> AllClosed p) inp
              (RemoveFinalizer LIFECYCLE '''' ctrl_name) p)))))"

section \<open>Frame lemmas\<close>

lemma rt_Inr [simp]: "rt inp c p = Inr p' \<longleftrightarrow> rt_ok inp (RtCalls p) c \<and> p' = p\<lparr>RtCalls := RtCalls p @ [c]\<rparr>"
  by (auto simp: rt_def)

lemma rt_when_Inr [simp]:
  "rt_when b inp c p = Inr p' \<longleftrightarrow>
     (if b then rt_ok inp (RtCalls p) c \<and> p' = p\<lparr>RtCalls := RtCalls p @ [c]\<rparr> else p' = p)"
  by (auto simp: rt_when_def)

lemma bindR_Inr [simp]: "bindR m f = Inr y \<longleftrightarrow> (\<exists>x. m = Inr x \<and> f x = Inr y)"
  by (cases m) (auto simp: bindR_def)

text \<open>The fields of a pass that only the volumes themselves change.\<close>

definition same_volumes :: "pass \<Rightarrow> pass \<Rightarrow> bool" where
  "same_volumes p p' \<longleftrightarrow>
     Statuses p' = Statuses p \<and> FullyProvisionedWave p' = FullyProvisionedWave p \<and> AllClosed p' = AllClosed p"

lemma release_parent_same: "release_parent inp vc parent p = Inr p' \<Longrightarrow> same_volumes p p' \<and> VolCalls p' = VolCalls p"
  by (auto simp: release_parent_def same_volumes_def split: option.splits if_splits)

lemma process_extends:
  "run_state (processVolumeConfig env c) w = (r, w') \<Longrightarrow> \<exists>l. history w' = history w @ l"
proof -
  assume run: "run_state (processVolumeConfig env c) w = (r, w')"
  have "keeps (since (history w) (allocates_only (\<lambda>_. True))) (processVolumeConfig env c)"
    by (rule keeps_process) (simp_all add: close_step_calls build_step_calls since_snoc)
  from keepsD [OF this run] show ?thesis by (auto simp: since_def)
qed

lemma progress_same:
  assumes "progressVolumeConfig inp vc parent c st p = ((err, st'), p')"
  shows "same_volumes p p' \<and>
    (\<exists>l. VolCalls p' = VolCalls p @ l \<and>
       (\<forall>d sz lb. AllocatePartition d sz lb \<in> set l \<longrightarrow> may_provision (VolEnv inp) c))"
proof -
  have run: "\<exists>l. history w = VolCalls q @ l \<and>
      (\<forall>d sz lb. AllocatePartition d sz lb \<in> set l \<longrightarrow> may_provision (VolEnv inp) c)"
    if "run_state (processVolumeConfig (VolEnv inp) c) \<lparr>status = st, history = VolCalls q\<rparr> = (r, w)" for q r w
  proof -
    from process_extends [OF that] obtain l where l: "history w = VolCalls q @ l" by auto
    have "may_provision (VolEnv inp) c" if "AllocatePartition d sz lb \<in> set l" for d sz lb
      using allocation_conditions [OF \<open>run_state _ _ = _\<close>, of l d sz lb] l that by simp
    with l show ?thesis by blast
  qed
  show ?thesis
    using assms run
    by (fastforce simp: progressVolumeConfig_def same_volumes_def Let_def
        split: if_splits option.splits prod.splits)
qed


lemma same_volumes_simps:
  "same_volumes p p' \<Longrightarrow> Statuses p' = Statuses p"
  "same_volumes p p' \<Longrightarrow> FullyProvisionedWave p' = FullyProvisionedWave p"
  "same_volumes p p' \<Longrightarrow> AllClosed p' = AllClosed p"
  by (simp_all add: same_volumes_def)

text \<open>What one volume does to the pass.\<close>

definition volume_wave :: "VolumeConfig \<Rightarrow> int" where
  "volume_wave vc = Wave (Provisioning (VcSpec vc))"

definition volume_effect :: "VolumeConfig \<Rightarrow> pass \<Rightarrow> pass \<Rightarrow> bool" where
  "volume_effect vc p p' \<longleftrightarrow>
     (\<forall>i. i \<noteq> VcID vc \<longrightarrow> gm_get (Statuses p') i = gm_get (Statuses p) i) \<and>
     (case gm_get (Statuses p') (VcID vc) of
        Some vs \<Rightarrow>
          FullyProvisionedWave p' =
            (if Phase (VsSpec vs) \<noteq> VolumePhaseReady then Some (volume_wave vc - 1) else FullyProvisionedWave p) \<and>
          (AllClosed p' \<longrightarrow> AllClosed p \<and> (Phase (VsSpec vs) = VolumePhaseClosed \<or> VcID vc = MetaPartitionLabel))
      | None \<Rightarrow>
          FullyProvisionedWave p' \<in> {FullyProvisionedWave p, Some (volume_wave vc - 1)} \<and>
          (AllClosed p' \<longrightarrow> AllClosed p)) \<and>
     (\<exists>l. VolCalls p' = VolCalls p @ l \<and>
        (\<forall>d sz lb. AllocatePartition d sz lb \<in> set l \<longrightarrow>
           (case FullyProvisionedWave p of None \<Rightarrow> True | Some w \<Rightarrow> volume_wave vc \<le> w)))"

lemma process_status_effect:
  assumes "process_status inp vc parent tearing vs p = Inr p'"
  shows "volume_effect vc p p'"
proof -
  from assms obtain p1 where p1: "rt_when (tearing \<and> VsPhase vs \<noteq> PhaseTearingDown) inp (Teardown (VcID vc)) p = Inr p1"
    by (auto simp: process_status_def)
  let ?close = "tearing \<and> VsFinalizers vs = []"
  obtain err st p2 where prog: "progressVolumeConfig inp vc parent (manager_context inp vc ?close p1) (VsSpec vs) p1 = ((err, st), p2)"
    by (metis prod.exhaust)
  let ?st = "record_result err st"
  let ?p3 = "p2\<lparr>Statuses := gm_set (Statuses p2) (VcID vc) (vs\<lparr>VsSpec := ?st\<rparr>),
                 ShouldRetry := (ShouldRetry p2 \<or> (case err of Some e \<Rightarrow> retryable e | None \<Rightarrow> False)),
                 FullyProvisionedWave :=
                   (if Phase ?st \<noteq> VolumePhaseReady then Some (Wave (Provisioning (VcSpec vc)) - 1)
                    else FullyProvisionedWave p2),
                 AllClosed := (AllClosed p2 \<and> (Phase ?st = VolumePhaseClosed \<or> VcID vc = MetaPartitionLabel))\<rparr>"
  have s1: "same_volumes p p1" "VolCalls p1 = VolCalls p"
    using p1 by (auto simp: same_volumes_def split: if_splits)
  from progress_same [OF prog] obtain l where s2: "same_volumes p1 p2" "VolCalls p2 = VolCalls p1 @ l"
    and al: "\<And>d sz lb. AllocatePartition d sz lb \<in> set l \<Longrightarrow> may_provision (VolEnv inp) (manager_context inp vc ?close p1)"
    by blast
  have flag: "case FullyProvisionedWave p of None \<Rightarrow> True | Some w \<Rightarrow> volume_wave vc \<le> w"
    if "AllocatePartition d sz lb \<in> set l" for d sz lb
    using al [OF that] s1(1)
    by (simp add: may_provision_def manager_context_def same_volumes_def volume_wave_def split: option.splits)
  have mid: "volume_effect vc p ?p3"
    using s1 s2 flag by (auto simp: volume_effect_def same_volumes_def volume_wave_def gomap_simps)
  have body: "(if ?close \<and> Phase ?st = VolumePhaseClosed then
      bindR (release_parent inp vc parent ?p3) (\<lambda>p. bindR (rt inp (Destroy (VcID vc)) p) (\<lambda>p.
        Inr (p\<lparr>Statuses := gm_del (Statuses p) (VcID vc)\<rparr>))) else Inr ?p3) = Inr p'"
    using assms by (simp only: process_status_def p1 bindR_def [of "Inr p1"] sum.case Let_def prog prod.case)
  show ?thesis
  proof (cases "?close \<and> Phase ?st = VolumePhaseClosed")
    case False
    with body have "p' = ?p3" by (simp only: if_False sum.inject)
    with mid show ?thesis by simp
  next
    case True
    with body obtain p4 where rel: "release_parent inp vc parent ?p3 = Inr p4"
      and p': "p' = p4\<lparr>RtCalls := RtCalls p4 @ [Destroy (VcID vc)], Statuses := gm_del (Statuses p4) (VcID vc)\<rparr>"
      by (simp only: if_True simp_thms) auto
    from release_parent_same [OF rel] have s4: "same_volumes ?p3 p4" "VolCalls p4 = VolCalls ?p3" by simp_all
    have "FullyProvisionedWave p' = Some (volume_wave vc - 1)"
      using s4(1) True by (simp add: p' same_volumes_def volume_wave_def)
    moreover have "\<forall>i. i \<noteq> VcID vc \<longrightarrow> gm_get (Statuses p') i = gm_get (Statuses p) i"
      using s1 s2 s4 by (simp add: p' same_volumes_def gomap_simps)
    moreover have "AllClosed p' \<longrightarrow> AllClosed p" "gm_get (Statuses p') (VcID vc) = None" "VolCalls p' = VolCalls p @ l"
      using s1 s2 s4 by (simp_all add: p' same_volumes_def gomap_simps)
    ultimately show ?thesis using flag by (auto simp: volume_effect_def)
  qed
qed

lemma volume_effect_stub:
  "volume_effect vc (p\<lparr>Statuses := gm_set (Statuses p) (VcID vc) vs\<rparr>) p' \<Longrightarrow> volume_effect vc p p'"
  by (auto simp: volume_effect_def gomap_simps split: option.splits)

lemma process_volume_effect:
  assumes "process_volume inp vc p = Inr p'"
  shows "volume_effect vc p p'"
proof (cases "gm_get (Statuses p) (VcID vc)")
  case (Some vs)
  with assms show ?thesis
    by (auto simp: process_volume_def Let_def split: if_splits intro: process_status_effect)
next
  case None
  show ?thesis
  proof (cases "tearing_down inp p vc")
    case True
    with assms None obtain p1 where rel: "release_parent inp vc (parent_status p vc) p = Inr p1"
      and last: "rt_when (ctrl_name \<in> set (VcFinalizers vc)) inp (RemoveFinalizer CONFIG (VcID vc) ctrl_name) p1 = Inr p'"
      by (auto simp: process_volume_def Let_def split: if_splits)
    have "same_volumes p p'" "VolCalls p' = VolCalls p"
      using release_parent_same [OF rel] last by (auto simp: same_volumes_def split: if_splits)
    with None show ?thesis by (simp add: volume_effect_def same_volumes_def)
  next
    case False
    with assms None have "process_status inp vc (parent_status p vc) False (stub_status vc)
        (p\<lparr>Statuses := gm_set (Statuses p) (VcID vc) (stub_status vc)\<rparr>) = Inr p'"
      by (auto simp: process_volume_def Let_def split: if_splits)
    from volume_effect_stub [OF process_status_effect [OF this]] show ?thesis .
  qed
qed


section \<open>Waves\<close>

text \<open>An unfinished volume: its status exists and is not Ready.\<close>

definition unfinished :: "pass \<Rightarrow> VolumeConfig \<Rightarrow> bool" where
  "unfinished p vc \<longleftrightarrow> (\<exists>vs. gm_get (Statuses p) (VcID vc) = Some vs \<and> Phase (VsSpec vs) \<noteq> VolumePhaseReady)"

definition wave_inv :: "VolumeConfig set \<Rightarrow> pass \<Rightarrow> bool" where
  "wave_inv S p \<longleftrightarrow> (\<exists>u \<in> S. unfinished p u) \<longrightarrow> (\<exists>u \<in> S. FullyProvisionedWave p = Some (volume_wave u - 1))"

lemma wave_inv_step:
  assumes "volume_effect vc p p'" and "wave_inv S p" and "VcID vc \<notin> VcID ` S"
  shows "wave_inv (insert vc S) p'"
proof -
  have other: "unfinished p' u \<longleftrightarrow> unfinished p u" if "u \<in> S" for u
  proof -
    have "VcID u \<noteq> VcID vc" using that assms(3) by (metis imageI)
    with assms(1) show ?thesis by (simp add: volume_effect_def unfinished_def)
  qed
  show ?thesis
  proof (cases "FullyProvisionedWave p' = Some (volume_wave vc - 1)")
    case True
    then show ?thesis by (auto simp: wave_inv_def)
  next
    case False
    with assms(1) have "FullyProvisionedWave p' = FullyProvisionedWave p" "\<not> unfinished p' vc"
      by (auto simp: volume_effect_def unfinished_def split: option.splits if_splits)
    with other assms(2) show ?thesis by (auto simp: wave_inv_def)
  qed
qed

lemma wave_inv_volumes:
  "process_volumes inp vcs p = Inr p' \<Longrightarrow> wave_inv S p \<Longrightarrow> distinct (map VcID vcs) \<Longrightarrow>
     VcID ` S \<inter> VcID ` set vcs = {} \<Longrightarrow> wave_inv (S \<union> set vcs) p'"
proof (induction vcs arbitrary: p S)
  case Nil
  then show ?case by simp
next
  case (Cons vc vcs)
  then obtain p1 where step: "process_volume inp vc p = Inr p1" and rest: "process_volumes inp vcs p1 = Inr p'" by auto
  have "wave_inv (insert vc S) p1"
    using process_volume_effect [OF step] Cons.prems by (intro wave_inv_step) auto
  then have "wave_inv (insert vc S \<union> set vcs) p'"
    using rest Cons.prems by (intro Cons.IH) auto
  then show ?case by simp
qed

lemma sorted_waves:
  assumes "sort_configs configs = pre @ vc # post" and "u \<in> set pre"
  shows "volume_wave u \<le> volume_wave vc"
proof -
  have "sorted (map (\<lambda>vc. provision_key (VcSpec vc)) (pre @ vc # post))"
    using assms(1) by (metis sort_configs_def sorted_sort_key)
  then have "provision_key (VcSpec u) \<le> provision_key (VcSpec vc)"
    using assms(2) by (auto simp: sorted_append)
  then show ?thesis by (auto simp: provision_key_def volume_wave_def less_eq_prod_def)
qed

text \<open>CompareVolumeConfigs is the comparison of the keys (wave, grows, maximum size), so it is a
  total preorder, and sorting with it is sorting by that key: smaller waves first, then partitions
  that do not grow, then smaller maximum sizes.\<close>

theorem compare_is_key_order:
  "CompareVolumeConfigs a b =
     (if provision_key a < provision_key b then -1 else if provision_key a = provision_key b then 0 else 1)"
  by (auto simp: CompareVolumeConfigs_def cmp_compare_def cmpBool_def provision_key_def Let_def
      less_bool_def less_prod_def)

text \<open>C25: provisioning waves: when a volume allocates a partition in a pass, every volume before it in
  the provisioning order (in particular every volume of a smaller wave) that still has a status is
  Ready at that moment.\<close>

theorem allocation_after_earlier_waves:
  assumes "distinct (map VcID configs)" and "sort_configs configs = pre @ vc # post"
    and "FullyProvisionedWave p0 = None" and "process_volumes inp pre p0 = Inr p1"
    and "process_volume inp vc p1 = Inr p2" and "VolCalls p2 = VolCalls p1 @ l"
    and "AllocatePartition d sz lb \<in> set l" and "u \<in> set pre"
    and "gm_get (Statuses p1) (VcID u) = Some vs"
  shows "Phase (VsSpec vs) = VolumePhaseReady"
proof (rule ccontr)
  assume "Phase (VsSpec vs) \<noteq> VolumePhaseReady"
  with assms(8,9) have "\<exists>u \<in> set pre. unfinished p1 u" by (auto simp: unfinished_def)
  moreover have "wave_inv ({} \<union> set pre) p1"
  proof (rule wave_inv_volumes [OF assms(4)])
    have "distinct (map VcID (sort_configs configs))"
      using assms(1) by (simp add: sort_configs_def distinct_map)
    then show "distinct (map VcID pre)" using assms(2) by simp
  qed (simp_all add: wave_inv_def)
  ultimately obtain v where v: "v \<in> set pre" "FullyProvisionedWave p1 = Some (volume_wave v - 1)"
    by (auto simp: wave_inv_def)
  from process_volume_effect [OF assms(5)] assms(6,7)
  have "case FullyProvisionedWave p1 of None \<Rightarrow> True | Some w \<Rightarrow> volume_wave vc \<le> w"
    by (auto simp: volume_effect_def)
  with v sorted_waves [OF assms(2) v(1)] show False by simp
qed

text \<open>An unfinished volume holds back its own wave too: once a volume of a wave is not Ready, a
  missing partition volume that comes later in the same wave is not provisioned in this pass, although
  all previous waves are done.\<close>

theorem same_wave_held_back:
  assumes "process_volume inp u p = Inr p1" and "unfinished p1 u"
    and "volume_wave v = volume_wave u" and "process_volume inp v p1 = Inr p2"
    and "VolCalls p2 = VolCalls p1 @ l"
  shows "AllocatePartition d sz lb \<notin> set l"
proof
  assume "AllocatePartition d sz lb \<in> set l"
  with process_volume_effect [OF assms(4)] assms(5)
  have "case FullyProvisionedWave p1 of None \<Rightarrow> True | Some w \<Rightarrow> volume_wave v \<le> w"
    by (auto simp: volume_effect_def)
  moreover have "FullyProvisionedWave p1 = Some (volume_wave u - 1)"
    using process_volume_effect [OF assms(1)] assms(2)
    by (auto simp: volume_effect_def unfinished_def split: option.splits)
  ultimately show False using assms(3) by simp
qed

section \<open>The lifecycle\<close>

definition closed_or_meta :: "pass \<Rightarrow> VolumeConfig \<Rightarrow> bool" where
  "closed_or_meta p vc \<longleftrightarrow>
     (\<forall>vs. gm_get (Statuses p) (VcID vc) = Some vs \<longrightarrow> Phase (VsSpec vs) = VolumePhaseClosed \<or> VcID vc = MetaPartitionLabel)"

lemma all_closed_volumes:
  "process_volumes inp vcs p = Inr p' \<Longrightarrow> AllClosed p' \<Longrightarrow> \<forall>u \<in> S. closed_or_meta p u \<Longrightarrow>
     distinct (map VcID vcs) \<Longrightarrow> VcID ` S \<inter> VcID ` set vcs = {} \<Longrightarrow>
     AllClosed p \<and> (\<forall>u \<in> S \<union> set vcs. closed_or_meta p' u)"
proof (induction vcs arbitrary: p S)
  case Nil
  then show ?case by simp
next
  case (Cons vc vcs)
  then obtain p1 where step: "process_volume inp vc p = Inr p1" and rest: "process_volumes inp vcs p1 = Inr p'" by auto
  note eff = process_volume_effect [OF step]
  have "closed_or_meta p1 u" if "u \<in> S" for u
  proof -
    have "VcID u \<noteq> VcID vc" using imageI [OF that, of VcID] Cons.prems(5) by auto
    with eff Cons.prems(3) that show ?thesis by (simp add: volume_effect_def closed_or_meta_def)
  qed
  moreover have "AllClosed p1 \<Longrightarrow> AllClosed p \<and> closed_or_meta p1 vc"
    using eff by (auto simp: volume_effect_def closed_or_meta_def split: option.splits)
  moreover have "AllClosed p1"
    using Cons.IH [of p1 "{}"] rest Cons.prems(2,4) by simp
  ultimately have "\<forall>u \<in> insert vc S. closed_or_meta p1 u" "AllClosed p" by auto
  with Cons.IH [of p1 "insert vc S"] rest Cons.prems show ?case by auto
qed

definition no_release :: "pass \<Rightarrow> bool" where
  "no_release p \<longleftrightarrow> (\<forall>i f. RemoveFinalizer LIFECYCLE i f \<notin> set (RtCalls p))"

lemma rt_when_no_release:
  "rt_when b inp c p = Inr p' \<Longrightarrow> no_release p \<Longrightarrow> (\<And>i f. c \<noteq> RemoveFinalizer LIFECYCLE i f) \<Longrightarrow> no_release p'"
  by (auto simp: no_release_def split: if_splits)

lemma release_parent_no_release: "release_parent inp vc parent p = Inr p' \<Longrightarrow> no_release p \<Longrightarrow> no_release p'"
  by (auto simp: release_parent_def no_release_def split: option.splits if_splits)

lemma progress_no_release: "progressVolumeConfig inp vc parent c st p = (r, p') \<Longrightarrow> no_release p \<Longrightarrow> no_release p'"
  by (auto simp: progressVolumeConfig_def no_release_def Let_def split: option.splits if_splits prod.splits)

lemma process_status_no_release:
  assumes "process_status inp vc parent tearing vs p = Inr p'" and "no_release p"
  shows "no_release p'"
proof -
  from assms(1) obtain p1 where p1: "rt_when (tearing \<and> VsPhase vs \<noteq> PhaseTearingDown) inp (Teardown (VcID vc)) p = Inr p1"
    by (auto simp: process_status_def)
  then have n1: "no_release p1" using assms(2) by (rule rt_when_no_release) simp
  let ?close = "tearing \<and> VsFinalizers vs = []"
  obtain err st p2 where prog: "progressVolumeConfig inp vc parent (manager_context inp vc ?close p1) (VsSpec vs) p1 = ((err, st), p2)"
    by (metis prod.exhaust)
  have n2: "no_release p2" using prog n1 by (rule progress_no_release)
  show ?thesis
    using assms(1) n2
    by (simp only: process_status_def p1 bindR_def [of "Inr p1"] sum.case Let_def prog prod.case split: if_splits)
       (auto simp: no_release_def dest!: release_parent_no_release [unfolded no_release_def])
qed

lemma process_volume_no_release: "process_volume inp vc p = Inr p' \<Longrightarrow> no_release p \<Longrightarrow> no_release p'"
  unfolding process_volume_def Let_def
  by (auto split: option.splits if_splits dest!: release_parent_no_release process_status_no_release
      simp: no_release_def)

lemma process_volumes_no_release: "process_volumes inp vcs p = Inr p' \<Longrightarrow> no_release p \<Longrightarrow> no_release p'"
  by (induction vcs arbitrary: p) (auto dest: process_volume_no_release)

lemma add_finalizers_no_release: "add_finalizers inp vcs p = Inr p' \<Longrightarrow> no_release p \<Longrightarrow> no_release p'"
proof (induction vcs arbitrary: p)
  case Nil
  then show ?case by simp
next
  case (Cons vc vcs)
  then obtain p1 where first: "rt_when (VcPhase vc = PhaseRunning \<and> ctrl_name \<notin> set (VcFinalizers vc)) inp
      (AddFinalizer CONFIG (VcID vc) ctrl_name) p = Inr p1" and rest: "add_finalizers inp vcs p1 = Inr p'"
    by (auto simp: bindR_def split: sum.splits)
  from Cons.IH [OF rest] rt_when_no_release [OF first Cons.prems(2)] show ?case by simp
qed

lemma write_statuses_same:
  "write_statuses inp it p = Inr p' \<Longrightarrow> same_volumes p p' \<and> (no_release p \<longrightarrow> no_release p')"
  by (induction inp it p rule: write_statuses.induct) (force simp: same_volumes_def no_release_def)+

text \<open>C26: the volume lifecycle is released only at the end: if a turn removes the finalizer of the
  controller from the lifecycle, the lifecycle is being torn down and every configured volume that
  still has a status is Closed, with the one exception of META.\<close>

theorem lifecycle_released_when_closed:
  assumes "run_pass inp (Some lc) configs statuses retry order = Inr p'"
    and "RemoveFinalizer LIFECYCLE i f \<in> set (RtCalls p')" and "distinct (map VcID configs)"
  shows "LcPhase lc = PhaseTearingDown \<and> (\<forall>vc \<in> set configs. closed_or_meta p' vc)"
proof -
  let ?inp = "inp\<lparr>LifecycleTearingDown := lifecycle_tearing_down lc\<rparr>"
  from assms(1) obtain p1 p2 p3 p4 where
    1: "rt_when (LcPhase lc = PhaseRunning) inp (AddFinalizer LIFECYCLE '''' ctrl_name) (start_pass statuses retry) = Inr p1"
    and 2: "add_finalizers inp configs p1 = Inr p2"
    and 3: "process_volumes ?inp (sort_configs configs) p2 = Inr p3"
    and 4: "write_statuses inp (order (Statuses p3)) p3 = Inr p4"
    and 5: "rt_when (LcPhase lc = PhaseTearingDown \<and> AllClosed p4) inp (RemoveFinalizer LIFECYCLE '''' ctrl_name) p4 = Inr p'"
    unfolding run_pass_def Let_def option.case bindR_Inr by blast
  have "no_release (start_pass statuses retry)" by (simp add: no_release_def start_pass_def)
  with 1 have "no_release p1" by (rule rt_when_no_release) simp
  with 2 3 have "no_release p3" by (metis add_finalizers_no_release process_volumes_no_release)
  with 4 have same: "same_volumes p3 p4" "no_release p4" by (metis write_statuses_same)+
  with 5 assms(2) have td: "LcPhase lc = PhaseTearingDown" "AllClosed p4"
    by (auto simp: no_release_def split: if_splits)
  have "AllClosed p3" using same(1) td(2) by (simp add: same_volumes_def)
  then have "\<forall>u \<in> {} \<union> set (sort_configs configs). closed_or_meta p3 u"
    using all_closed_volumes [OF 3, of "{}"] assms(3) by (simp add: sort_configs_def distinct_map)
  then have "\<forall>u \<in> set configs. closed_or_meta p' u"
    using same(1) 5 by (auto simp: sort_configs_def closed_or_meta_def same_volumes_def split: if_splits)
  with td show ?thesis by simp
qed

section \<open>Recovery from failures\<close>

text \<open>A failed volume resumes where it failed: record_result keeps the phase of the failure, and
  the next run of the automaton (context alive) goes on from that phase, with the rest of the status
  unchanged.\<close>

theorem failure_resumes:
  assumes "\<forall>h. call_ok env h CheckCtx" and "Phase st \<noteq> VolumePhaseFailed"
    and "\<not> ShouldCloseVolume c" and "failed = record_result (Some e) st"
  shows "run_state (processVolumeConfig env c) \<lparr>status = failed, history = h\<rparr> =
         run_state (process_loop 7 env c (Phase st))
           \<lparr>status = failed\<lparr>Phase := Phase st\<rparr>, history = h @ [CheckCtx]\<rparr>"
proof -
  have f: "Phase failed = VolumePhaseFailed" "PreFailPhase failed = Phase st"
    using assms(4) by (simp_all add: record_result_def)
  have "process_loop 8 env c VolumePhaseFailed = process_loop (Suc 7) env c VolumePhaseFailed" by simp
  with assms(1-3) f show ?thesis
    unfolding processVolumeConfig_def
    by (simp only: process_loop.simps) (simp add: build_step_def continue_def recover_phase_def andThen_def
      get_status_def set_status_def ok_def query_def)
qed

section \<open>Witnesses\<close>

text \<open>A directory volume of the system wave and a partition volume of the user wave, with nothing
  provisioned yet; every call of the runtime succeeds.\<close>

definition demo_inputs :: inputs where
  "demo_inputs = \<lparr>rt_ok = \<lambda>h c. True, VolEnv = demo_env, InDisks = Disks (demo_ctx False), InDiscovered = [],
     InDevicesReady = True, LifecycleTearingDown = False\<rparr>"

definition demo_dir :: VolumeConfig where
  "demo_dir = \<lparr>VcID = ''run'', VcPhase = PhaseRunning, VcFinalizers = [],
     VcSpec = demo_cfg\<lparr>CfgType := VolumeTypeDirectory, Provisioning := zero_ProvisioningSpec\<lparr>Wave := -1\<rparr>\<rparr>\<rparr>"

definition demo_part :: VolumeConfig where
  "demo_part = \<lparr>VcID = ''EPHEMERAL'', VcPhase = PhaseRunning, VcFinalizers = [], VcSpec = demo_cfg\<rparr>"

text \<open>A partition volume of the user wave without a locator, which fails.\<close>

definition demo_bad :: VolumeConfig where
  "demo_bad = \<lparr>VcID = ''bad'', VcPhase = PhaseRunning, VcFinalizers = [], VcSpec = demo_cfg\<lparr>Locator := zero_LocatorSpec\<rparr>\<rparr>"

definition after_dir :: pass where
  "after_dir = projr (process_volumes demo_inputs [demo_dir] (start_pass [] False))"

definition after_part :: pass where
  "after_part = projr (process_volume demo_inputs demo_part after_dir)"

definition after_bad :: pass where
  "after_bad = projr (process_volume demo_inputs demo_bad (start_pass [] False))"

definition after_bad_part :: pass where
  "after_bad_part = projr (process_volume demo_inputs demo_part after_bad)"

lemma is_Inr: "\<not> isl x \<Longrightarrow> x = Inr (projr x)"
  by (cases x) simp_all

lemma demo_steps:
  "process_volumes demo_inputs [demo_dir] (start_pass [] False) = Inr after_dir"
  "process_volume demo_inputs demo_part after_dir = Inr after_part"
  "process_volume demo_inputs demo_bad (start_pass [] False) = Inr after_bad"
  "process_volume demo_inputs demo_part after_bad = Inr after_bad_part"
  unfolding after_dir_def after_part_def after_bad_def after_bad_part_def
  by (rule is_Inr, code_simp)+

lemma demo_part_allocates:
  "AllocatePartition ''/dev/sda'' 0x3ff00000 '''' \<in> set (VolCalls after_part)" "VolCalls after_dir = [CheckCtx]"
  by code_simp+

theorem allocation_after_earlier_waves_witness:
  "\<exists>vs. gm_get (Statuses after_dir) ''run'' = Some vs \<and> Phase (VsSpec vs) = VolumePhaseReady"
proof -
  obtain l where l: "VolCalls after_part = VolCalls after_dir @ l"
    using process_volume_effect [OF demo_steps(2)] by (auto simp: volume_effect_def)
  have "gm_has (Statuses after_dir) ''run''" by code_simp
  then obtain vs where vs: "gm_get (Statuses after_dir) (VcID demo_dir) = Some vs"
    by (auto simp: gm_has_get demo_dir_def)
  have "sort_configs [demo_part, demo_dir] = [demo_dir] @ demo_part # []"
    by (simp add: sort_configs_def provision_key_def demo_dir_def demo_part_def demo_cfg_def zero_ProvisioningSpec_def less_eq_prod_def)
  from allocation_after_earlier_waves [OF _ this _ demo_steps(1,2) l _ _ vs] demo_part_allocates l vs
  show ?thesis by (simp add: demo_dir_def demo_part_def start_pass_def)
qed

theorem same_wave_held_back_witness:
  "AllocatePartition ''/dev/sda'' 0x3ff00000 '''' \<notin> set (VolCalls after_bad_part)"
proof -
  obtain l where l: "VolCalls after_bad_part = VolCalls after_bad @ l"
    using process_volume_effect [OF demo_steps(4)] by (auto simp: volume_effect_def)
  have "VolCalls after_bad = []" by code_simp
  moreover have "unfinished after_bad demo_bad"
  proof -
    have "map_option (\<lambda>vs. Phase (VsSpec vs)) (gm_get (Statuses after_bad) ''bad'') = Some VolumePhaseFailed" by code_simp
    then show ?thesis by (auto simp: unfinished_def demo_bad_def)
  qed
  moreover have "volume_wave demo_part = volume_wave demo_bad"
    by (simp add: volume_wave_def demo_part_def demo_bad_def)
  ultimately show ?thesis
    using same_wave_held_back [OF demo_steps(3) _ _ demo_steps(4) l] l by simp
qed

text \<open>The lifecycle is torn down with a ready directory volume: it is closed and the lifecycle is
  released in the same turn.\<close>

definition demo_lifecycle :: VolumeLifecycle where
  "demo_lifecycle = \<lparr>LcPhase = PhaseTearingDown, LcFinalizers = [ctrl_name]\<rparr>"

definition demo_teardown :: pass where
  "demo_teardown = projr (run_pass demo_inputs (Some demo_lifecycle) [demo_dir] (Statuses after_dir) False (\<lambda>m. m))"

lemma demo_teardown_run:
  "run_pass demo_inputs (Some demo_lifecycle) [demo_dir] (Statuses after_dir) False (\<lambda>m. m) = Inr demo_teardown"
  "RemoveFinalizer LIFECYCLE '''' ctrl_name \<in> set (RtCalls demo_teardown)"
  unfolding demo_teardown_def by (rule is_Inr, code_simp) code_simp

theorem lifecycle_released_when_closed_witness: "closed_or_meta demo_teardown demo_dir"
  using lifecycle_released_when_closed [OF demo_teardown_run] by simp

theorem failure_resumes_witness:
  "run_state (processVolumeConfig demo_env (demo_ctx False))
     \<lparr>status = record_result (Some (VErr True ''busy'')) (zero_VolumeStatusSpec\<lparr>Phase := VolumePhaseLocated\<rparr>), history = []\<rparr> =
   run_state (process_loop 7 demo_env (demo_ctx False) VolumePhaseLocated)
     \<lparr>status = (record_result (Some (VErr True ''busy'')) (zero_VolumeStatusSpec\<lparr>Phase := VolumePhaseLocated\<rparr>))\<lparr>Phase := VolumePhaseLocated\<rparr>,
      history = [CheckCtx]\<rparr>"
  using failure_resumes [of demo_env "zero_VolumeStatusSpec\<lparr>Phase := VolumePhaseLocated\<rparr>" "demo_ctx False" _ "VErr True ''busy''" "[]", OF _ _ _ refl]
  by (simp add: demo_env_def demo_ctx_def)

end
