(* ===== verification/Sequences.thy ===== *)
theory Sequences
  imports Prelude
begin

text \<open>
  The sequences and modes of machined, internal/app/machined/pkg/runtime/sequencer.go and mode.go: the
  names of the sequences, which sequence may take over which running one, and the capabilities of a
  mode. Both Go types are integers; the model has their declared constants only.
\<close>

section \<open>Sequences\<close>

datatype Sequence =
    SequenceNoop
  | SequenceBoot
  | SequenceInitialize
  | SequenceInstall
  | SequenceShutdown
  | SequenceUpgrade
  | SequenceStageUpgrade
  | SequenceMaintenanceUpgrade
  | SequenceReset
  | SequenceReboot

fun seq_index :: "Sequence \<Rightarrow> nat" where
  "seq_index SequenceNoop = 0"
| "seq_index SequenceBoot = 1"
| "seq_index SequenceInitialize = 2"
| "seq_index SequenceInstall = 3"
| "seq_index SequenceShutdown = 4"
| "seq_index SequenceUpgrade = 5"
| "seq_index SequenceStageUpgrade = 6"
| "seq_index SequenceMaintenanceUpgrade = 7"
| "seq_index SequenceReset = 8"
| "seq_index SequenceReboot = 9"

lemma seq_index_inj: "seq_index a = seq_index b \<Longrightarrow> a = b"
  by (cases a; cases b) simp_all

text \<open>Sequences are ordered by their constants, which gives them the library's linear order.\<close>

instantiation Sequence :: linorder
begin

definition less_eq_Sequence :: "Sequence \<Rightarrow> Sequence \<Rightarrow> bool" where
  "less_eq_Sequence a b \<longleftrightarrow> seq_index a \<le> seq_index b"

definition less_Sequence :: "Sequence \<Rightarrow> Sequence \<Rightarrow> bool" where
  "less_Sequence a b \<longleftrightarrow> seq_index a < seq_index b"

instance
  by standard (auto simp: less_eq_Sequence_def less_Sequence_def intro: seq_index_inj)

end

text \<open>String indexes an array of names with the constant.\<close>

definition seq_names :: "string list" where
  "seq_names = [''noop'', ''boot'', ''initialize'', ''install'', ''shutdown'', ''upgrade'',
     ''stageUpgrade'', ''maintenanceUpgrade'', ''reset'', ''reboot'']"

definition SequenceString :: "Sequence \<Rightarrow> string" where
  "SequenceString s = seq_names ! seq_index s"

definition sequenceTakeOver :: "(Sequence \<times> Sequence list) list" where
  "sequenceTakeOver =
     [(SequenceInitialize, [SequenceMaintenanceUpgrade]),
      (SequenceBoot, [SequenceReboot, SequenceReset, SequenceUpgrade]),
      (SequenceReboot, [SequenceReboot]),
      (SequenceReset, [SequenceReboot])]"

definition CanTakeOver :: "Sequence \<Rightarrow> Sequence \<Rightarrow> bool" where
  "CanTakeOver s running \<longleftrightarrow>
     running = SequenceNoop \<or>
     (case map_of sequenceTakeOver running of Some ss \<Rightarrow> s \<in> set ss | None \<Rightarrow> False)"

definition ParseSequence :: "string \<Rightarrow> Sequence option" where
  "ParseSequence s =
     (if s = ''boot'' then Some SequenceBoot
      else if s = ''initialize'' then Some SequenceInitialize
      else if s = ''install'' then Some SequenceInstall
      else if s = ''shutdown'' then Some SequenceShutdown
      else if s = ''upgrade'' then Some SequenceUpgrade
      else if s = ''stageUpgrade'' then Some SequenceStageUpgrade
      else if s = ''maintenanceUpgrade'' then Some SequenceMaintenanceUpgrade
      else if s = ''reset'' then Some SequenceReset
      else if s = ''reboot'' then Some SequenceReboot
      else if s = ''noop'' then Some SequenceNoop
      else None)"

section \<open>Modes\<close>

datatype Mode = ModeCloud | ModeContainer | ModeMetal | ModeMetalAgent

fun mode_index :: "Mode \<Rightarrow> nat" where
  "mode_index ModeCloud = 0"
| "mode_index ModeContainer = 1"
| "mode_index ModeMetal = 2"
| "mode_index ModeMetalAgent = 3"

definition mode_names :: "string list" where
  "mode_names = [''cloud'', ''container'', ''metal'', ''metal-agent'']"

definition ModeString :: "Mode \<Rightarrow> string" where
  "ModeString m = mode_names ! mode_index m"

definition RequiresInstall :: "Mode \<Rightarrow> bool" where
  "RequiresInstall m \<longleftrightarrow> m = ModeMetal"

definition InContainer :: "Mode \<Rightarrow> bool" where
  "InContainer m \<longleftrightarrow> m = ModeContainer"

definition IsAgent :: "Mode \<Rightarrow> bool" where
  "IsAgent m \<longleftrightarrow> m = ModeMetalAgent"

definition ParseMode :: "string \<Rightarrow> Mode option" where
  "ParseMode s =
     (if s = ''cloud'' then Some ModeCloud
      else if s = ''container'' then Some ModeContainer
      else if s = ''metal'' then Some ModeMetal
      else if s = ''metal-agent'' then Some ModeMetalAgent
      else None)"

text \<open>The capability flags, 1 shifted by iota.\<close>

definition CapReboot :: u64 where "CapReboot = 1"
definition CapRollback :: u64 where "CapRollback = 2"
definition CapShutdown :: u64 where "CapShutdown = 4"
definition CapUpgrade :: u64 where "CapUpgrade = 8"
definition CapMetaKV :: u64 where "CapMetaKV = 16"

text \<open>capabilities indexes an array of three entries with the mode, and panics out of its range.\<close>

definition capability_table :: "u64 list" where
  "capability_table =
     [- 1, (- 1) XOR (CapReboot OR CapShutdown OR CapUpgrade OR CapRollback OR CapMetaKV), - 1]"

definition capabilities :: "Mode \<Rightarrow> u64 outcome" where
  "capabilities m =
     (if mode_index m < length capability_table then Ret (capability_table ! mode_index m) else Panic)"

definition Supports :: "Mode \<Rightarrow> u64 \<Rightarrow> bool outcome" where
  "Supports m feature = bind_outcome (capabilities m) (\<lambda>c. Ret (c AND feature \<noteq> 0))"

section \<open>Properties\<close>

text \<open>A sequence name round-trips: ParseSequence of String gives the sequence back, and
  ParseSequence accepts no other string.\<close>

theorem sequence_roundtrip:
  "ParseSequence (SequenceString s) = Some s \<and> (ParseSequence n = Some s \<longleftrightarrow> n = SequenceString s)"
  by (cases s) (auto simp: ParseSequence_def SequenceString_def seq_names_def split: if_splits)

text \<open>The take-over table: everything takes over an idle machine; of the running sequences only
  Initialize, Boot, Reboot and Reset are interrupted, Initialize by MaintenanceUpgrade, Boot by Reboot,
  Reset and Upgrade, Reboot and Reset by Reboot; nothing interrupts an upgrade, an installation or a
  shutdown.\<close>

theorem take_over_table:
  "CanTakeOver s r \<longleftrightarrow>
     r = SequenceNoop \<or>
     (s, r) \<in> {(SequenceMaintenanceUpgrade, SequenceInitialize), (SequenceReboot, SequenceBoot),
       (SequenceReset, SequenceBoot), (SequenceUpgrade, SequenceBoot), (SequenceReboot, SequenceReboot),
       (SequenceReboot, SequenceReset)}"
  by (cases r; cases s) (simp_all add: CanTakeOver_def sequenceTakeOver_def)

text \<open>The capability table has no entry for the metal agent: asking whether that mode supports
  anything panics; in every other mode a capability is answered, and a container supports none of
  reboot, rollback, shutdown, upgrade and META.\<close>

theorem mode_capabilities:
  "Supports ModeMetalAgent f = Panic \<and>
   (m \<in> {ModeCloud, ModeMetal} \<longrightarrow> Supports m f = Ret (f \<noteq> 0)) \<and>
   (f \<in> {CapReboot, CapRollback, CapShutdown, CapUpgrade, CapMetaKV} \<longrightarrow> Supports ModeContainer f = Ret False)"
proof -
  have "Supports ModeContainer f = Ret False"
    if "f \<in> {CapReboot, CapRollback, CapShutdown, CapUpgrade, CapMetaKV}"
    using that by (auto simp: Supports_def capabilities_def capability_table_def CapReboot_def
        CapRollback_def CapShutdown_def CapUpgrade_def CapMetaKV_def)
  moreover have "Supports m f = Ret (f \<noteq> 0)" if "m \<in> {ModeCloud, ModeMetal}"
    using that by (auto simp: Supports_def capabilities_def capability_table_def)
  ultimately show ?thesis by (simp add: Supports_def capabilities_def capability_table_def)
qed

theorem mode_capabilities_witness:
  "Supports ModeMetalAgent CapReboot = Panic \<and> Supports ModeMetal CapReboot = Ret True \<and>
   Supports ModeContainer CapReboot = Ret False"
  using mode_capabilities [of CapReboot ModeMetal] by (simp add: CapReboot_def)

end
