(* ===== verification/PriorityLock.thy ===== *)
theory PriorityLock
  imports Sequences
begin

text \<open>
  The priority lock that serialises the sequences, v1alpha1_priority_lock.go, as a transition system:
  any number of goroutines call Lock and Unlock, and every channel operation, critical section and
  cancellation is a step of its own, so all interleavings are covered. A timer may fire at any wait.
\<close>

section \<open>The interface\<close>

text \<open>The type constraint Priority: a zero value (nothing is running) that everything can take over.\<close>

locale priority =
  fixes zero :: 'p and can_take_over :: "'p \<Rightarrow> 'p \<Rightarrow> bool"
  assumes idle_free: "can_take_over p zero"

section \<open>State and steps\<close>

datatype lock_error = ErrLocked | ErrTimeout

text \<open>Where a goroutine is: not in Lock, waiting to enter takeoverCh, holding it, having read the
  running priority and its cancel function, waiting for runningCh, running its process, between the two
  statements of Unlock, done, or returned with an error. One index is one call of Lock with its
  Unlock: a process that locks again is a new index, as it has a new context.\<close>

datatype 'p pc =
    Idle
  | WaitTakeover
  | HoldTakeover
  | Checked 'p "nat option"
  | WaitRunning
  | Running
  | Unlocking
  | Finished
  | Refused lock_error

text \<open>\<open>token\<close>: runningCh holds its token; \<open>takeover\<close>: who occupies takeoverCh; \<open>cancel\<close>: the process
  whose context cancelCtx cancels (None for nil); \<open>cancelled\<close>: the processes whose context is done.\<close>

record 'p lock_state =
  token :: bool
  takeover :: "nat option"
  runningPriority :: 'p
  cancelCtx :: "nat option"
  cancelled :: "nat set"
  pcs :: "nat \<Rightarrow> 'p pc"
  seqs :: "nat \<Rightarrow> 'p"
  takes :: "nat \<Rightarrow> bool"

definition NewPriorityLock :: "'p \<Rightarrow> 'p lock_state" where
  "NewPriorityLock zero =
     \<lparr>token = True, takeover = None, runningPriority = zero, cancelCtx = None, cancelled = {},
      pcs = (\<lambda>_. Idle), seqs = (\<lambda>_. zero), takes = (\<lambda>_. False)\<rparr>"

definition goto :: "nat \<Rightarrow> 'p pc \<Rightarrow> 'p lock_state \<Rightarrow> 'p lock_state" where
  "goto i c s = s\<lparr>pcs := (pcs s)(i := c)\<rparr>"

definition cancel_ctx :: "nat option \<Rightarrow> 'p lock_state \<Rightarrow> 'p lock_state" where
  "cancel_ctx c s = (case c of None \<Rightarrow> s | Some j \<Rightarrow> s\<lparr>cancelled := insert j (cancelled s)\<rparr>)"

definition setRunningPriority :: "'p \<Rightarrow> 'p \<Rightarrow> nat option \<Rightarrow> 'p lock_state \<Rightarrow> 'p lock_state" where
  "setRunningPriority zero seq c s =
     (let s = (if seq = zero then cancel_ctx (cancelCtx s) s else s)
      in s\<lparr>runningPriority := seq, cancelCtx := c\<rparr>)"

inductive lock_step ::
    "'p \<Rightarrow> ('p \<Rightarrow> 'p \<Rightarrow> bool) \<Rightarrow> 'p lock_state \<Rightarrow> 'p lock_state \<Rightarrow> bool"
  for zero can where
  request: "pcs s i = Idle \<Longrightarrow>
     lock_step zero can s (goto i WaitTakeover (s\<lparr>seqs := (seqs s)(i := q), takes := (takes s)(i := t)\<rparr>))"
| enter: "pcs s i = WaitTakeover \<Longrightarrow> takeover s = None \<Longrightarrow>
     lock_step zero can s (goto i HoldTakeover (s\<lparr>takeover := Some i\<rparr>))"
| enter_timeout: "pcs s i = WaitTakeover \<Longrightarrow> lock_step zero can s (goto i (Refused ErrTimeout) s)"
| check: "pcs s i = HoldTakeover \<Longrightarrow>
     lock_step zero can s (goto i (Checked (runningPriority s) (cancelCtx s)) s)"
| refuse: "pcs s i = Checked p c \<Longrightarrow> \<not> can (seqs s i) p \<Longrightarrow> \<not> takes s i \<Longrightarrow>
     lock_step zero can s (goto i (Refused ErrLocked) (s\<lparr>takeover := None\<rparr>))"
| cancel: "pcs s i = Checked p c \<Longrightarrow> can (seqs s i) p \<or> takes s i \<Longrightarrow>
     lock_step zero can s (goto i WaitRunning (cancel_ctx c s))"
| acquire: "pcs s i = WaitRunning \<Longrightarrow> token s \<Longrightarrow>
     lock_step zero can s
       (goto i Running ((setRunningPriority zero (seqs s i) (Some i) (s\<lparr>token := False\<rparr>))\<lparr>takeover := None\<rparr>))"
| wait_timeout: "pcs s i = WaitRunning \<Longrightarrow>
     lock_step zero can s (goto i (Refused ErrTimeout) (s\<lparr>takeover := None\<rparr>))"
| unlock: "pcs s i = Running \<Longrightarrow>
     lock_step zero can s (goto i Unlocking (setRunningPriority zero zero None s))"
| release: "pcs s i = Unlocking \<Longrightarrow> lock_step zero can s (goto i Finished (s\<lparr>token := True\<rparr>))"

inductive reachable :: "'p \<Rightarrow> ('p \<Rightarrow> 'p \<Rightarrow> bool) \<Rightarrow> 'p lock_state \<Rightarrow> bool" for zero can where
  start: "reachable zero can (NewPriorityLock zero)"
| step: "reachable zero can s \<Longrightarrow> lock_step zero can s s' \<Longrightarrow> reachable zero can s'"

inductive_cases lock_stepE: "lock_step zero can s s'"

section \<open>The invariant\<close>

text \<open>The goroutines at a kind of place, and what a step does to that set.\<close>

definition at :: "('p pc \<Rightarrow> bool) \<Rightarrow> 'p lock_state \<Rightarrow> nat set" where
  "at P s = {i. P (pcs s i)}"

fun holding :: "'p pc \<Rightarrow> bool" where
  "holding Running = True"
| "holding Unlocking = True"
| "holding _ = False"

fun running :: "'p pc \<Rightarrow> bool" where
  "running Running = True"
| "running _ = False"

fun served :: "'p pc \<Rightarrow> bool" where
  "served Running = True"
| "served Unlocking = True"
| "served Finished = True"
| "served _ = False"

fun in_takeover :: "'p pc \<Rightarrow> bool" where
  "in_takeover HoldTakeover = True"
| "in_takeover (Checked p c) = True"
| "in_takeover WaitRunning = True"
| "in_takeover _ = False"

named_theorems lock_simps \<open>fields and places after a step\<close>

lemma goto_fields [lock_simps]:
  "token (goto i c s) = token s" "takeover (goto i c s) = takeover s"
  "runningPriority (goto i c s) = runningPriority s" "cancelCtx (goto i c s) = cancelCtx s"
  "cancelled (goto i c s) = cancelled s" "seqs (goto i c s) = seqs s" "takes (goto i c s) = takes s"
  "pcs (goto i c s) = (pcs s)(i := c)"
  by (simp_all add: goto_def)

lemma cancel_fields [lock_simps]:
  "token (cancel_ctx c s) = token s" "takeover (cancel_ctx c s) = takeover s"
  "runningPriority (cancel_ctx c s) = runningPriority s" "cancelCtx (cancel_ctx c s) = cancelCtx s"
  "cancelled (cancel_ctx c s) = cancelled s \<union> set_option c"
  "seqs (cancel_ctx c s) = seqs s" "takes (cancel_ctx c s) = takes s" "pcs (cancel_ctx c s) = pcs s"
  by (simp_all add: cancel_ctx_def split: option.splits)

lemma set_fields [lock_simps]:
  "token (setRunningPriority z q c s) = token s" "takeover (setRunningPriority z q c s) = takeover s"
  "runningPriority (setRunningPriority z q c s) = q" "cancelCtx (setRunningPriority z q c s) = c"
  "cancelled (setRunningPriority z q c s) = (if q = z then cancelled s \<union> set_option (cancelCtx s) else cancelled s)"
  "seqs (setRunningPriority z q c s) = seqs s" "takes (setRunningPriority z q c s) = takes s"
  "pcs (setRunningPriority z q c s) = pcs s"
  by (simp_all add: setRunningPriority_def Let_def lock_simps)

lemma at_goto [lock_simps]: "at P (goto i c s) = (if P c then insert i (at P s) else at P s - {i})"
  by (auto simp: at_def goto_def)

lemma at_same [lock_simps]:
  "at P (s\<lparr>token := b\<rparr>) = at P s" "at P (s\<lparr>takeover := t\<rparr>) = at P s"
  "at P (s\<lparr>seqs := q, takes := x\<rparr>) = at P s"
  "at P (cancel_ctx c s) = at P s" "at P (setRunningPriority z q' c' s) = at P s"
  by (simp_all add: at_def lock_simps)

lemma in_at: "i \<in> at P s \<longleftrightarrow> P (pcs s i)"
  by (simp add: at_def)

definition token_inv :: "'p lock_state \<Rightarrow> bool" where
  "token_inv s \<longleftrightarrow> (token s \<longleftrightarrow> at holding s = {}) \<and> (\<exists>k. at holding s \<subseteq> {k})"

definition takeover_inv :: "'p lock_state \<Rightarrow> bool" where
  "takeover_inv s \<longleftrightarrow> set_option (takeover s) = at in_takeover s"

definition priority_inv :: "'p \<Rightarrow> 'p lock_state \<Rightarrow> bool" where
  "priority_inv zero s \<longleftrightarrow>
     (at running s = {} \<and> runningPriority s = zero \<and> cancelCtx s = None) \<or>
     (\<exists>i. at running s = {i} \<and> runningPriority s = seqs s i \<and> cancelCtx s = Some i)"

lemma remove_absent [simp]: "i \<notin> A \<Longrightarrow> A - {i} = A"
  by simp

lemma at_insert: "P (pcs s i) \<Longrightarrow> insert i (at P s) = at P s"
  by (auto simp: at_def)

lemma at_remove: "\<not> P (pcs s i) \<Longrightarrow> at P s - {i} = at P s"
  by (auto simp: at_def)

lemma token_inv_step: "lock_step zero can s s' \<Longrightarrow> token_inv s \<Longrightarrow> token_inv s'"
proof (induction rule: lock_step.induct)
  case (unlock s i)
  then have "insert i (at holding s) = at holding s" by (intro at_insert) simp
  with unlock show ?case by (simp add: token_inv_def lock_simps)
next
  case (release s i)
  then have "i \<in> at holding s" by (simp add: in_at)
  with release show ?case by (auto simp: token_inv_def lock_simps)
next
  case (acquire s i)
  then show ?case by (auto simp: token_inv_def lock_simps)
qed (simp_all add: token_inv_def lock_simps at_remove)

lemma takeover_holder: "takeover_inv s \<Longrightarrow> in_takeover (pcs s i) \<Longrightarrow> at in_takeover s = {i}"
proof -
  assume inv: "takeover_inv s" and "in_takeover (pcs s i)"
  then have "i \<in> set_option (takeover s)" by (simp add: takeover_inv_def in_at)
  then have "takeover s = Some i" by simp
  with inv show ?thesis by (simp add: takeover_inv_def)
qed

lemma takeover_inv_step: "lock_step zero can s s' \<Longrightarrow> takeover_inv s \<Longrightarrow> takeover_inv s'"
proof (induction rule: lock_step.induct)
  case (refuse s i p c)
  with takeover_holder [of s i] show ?case by (simp add: takeover_inv_def lock_simps)
next
  case (acquire s i)
  with takeover_holder [of s i] show ?case by (simp add: takeover_inv_def lock_simps)
next
  case (wait_timeout s i)
  with takeover_holder [of s i] show ?case by (simp add: takeover_inv_def lock_simps)
next
  case (check s i)
  then have "insert i (at in_takeover s) = at in_takeover s" by (intro at_insert) simp
  with check show ?case by (simp add: takeover_inv_def lock_simps)
next
  case (cancel s i p c)
  then have "insert i (at in_takeover s) = at in_takeover s" by (intro at_insert) simp
  with cancel show ?case by (simp add: takeover_inv_def lock_simps)
qed (simp_all add: takeover_inv_def lock_simps at_remove)

lemma running_holding: "at running s \<subseteq> at holding s"
  by (auto simp: at_def elim: running.elims)

lemma priority_inv_step:
  "lock_step zero can s s' \<Longrightarrow> token_inv s \<Longrightarrow> priority_inv zero s \<Longrightarrow> priority_inv zero s'"
proof (induction rule: lock_step.induct)
  case (request s i q t)
  then have "i \<notin> at running s" by (simp add: in_at)
  with request show ?case by (auto simp: priority_inv_def lock_simps)
next
  case (acquire s i)
  then have "at running s = {}" using running_holding [of s] by (auto simp: token_inv_def)
  then show ?case by (simp add: priority_inv_def lock_simps)
next
  case (unlock s i)
  then have "i \<in> at running s" by (simp add: in_at)
  with unlock show ?case by (auto simp: priority_inv_def lock_simps)
qed (simp_all add: priority_inv_def lock_simps at_remove)


text \<open>A goroutine that has read the running priority: the process it has read about has been served.\<close>

definition checked_ok :: "'p \<Rightarrow> 'p lock_state \<Rightarrow> nat \<Rightarrow> 'p \<Rightarrow> nat option \<Rightarrow> bool" where
  "checked_ok zero s i p c \<longleftrightarrow>
     (case c of None \<Rightarrow> p = zero | Some j \<Rightarrow> j \<noteq> i \<and> seqs s j = p \<and> served (pcs s j))"

definition checked_inv :: "'p \<Rightarrow> 'p lock_state \<Rightarrow> bool" where
  "checked_inv zero s \<longleftrightarrow> (\<forall>i p c. pcs s i = Checked p c \<longrightarrow> checked_ok zero s i p c)"

text \<open>Served processes stay served and keep their sequence and option.\<close>

definition grows :: "'p lock_state \<Rightarrow> 'p lock_state \<Rightarrow> bool" where
  "grows s s' \<longleftrightarrow>
     (\<forall>j. pcs s j \<noteq> Idle \<longrightarrow> pcs s' j \<noteq> Idle \<and> seqs s' j = seqs s j \<and> takes s' j = takes s j) \<and>
     (\<forall>j. served (pcs s j) \<longrightarrow> served (pcs s' j))"

lemma lock_step_grows: "lock_step zero can s s' \<Longrightarrow> grows s s'"
  by (induction rule: lock_step.induct) (simp_all add: grows_def lock_simps)

lemma served_not_idle: "served c \<Longrightarrow> c \<noteq> Idle"
  by auto

lemma checked_ok_grows: "grows s s' \<Longrightarrow> checked_ok zero s i p c \<Longrightarrow> checked_ok zero s' i p c"
  by (auto simp: checked_ok_def grows_def dest: served_not_idle split: option.splits)

text \<open>A step leaves every other goroutine where it is, and checks only in the step check.\<close>

lemma checked_step:
  "lock_step zero can s s' \<Longrightarrow> pcs s' i = Checked p c \<Longrightarrow>
     pcs s i = Checked p c \<or> (pcs s i = HoldTakeover \<and> p = runningPriority s \<and> c = cancelCtx s)"
  by (induction rule: lock_step.induct) (auto simp: lock_simps split: if_splits)

lemma checked_inv_step:
  assumes step: "lock_step zero can s s'" and prio: "priority_inv zero s" and inv: "checked_inv zero s"
  shows "checked_inv zero s'"
  unfolding checked_inv_def
proof (intro allI impI)
  fix i p c
  assume "pcs s' i = Checked p c"
  from checked_step [OF step this] show "checked_ok zero s' i p c"
  proof
    assume "pcs s i = Checked p c"
    with inv have "checked_ok zero s i p c" by (simp add: checked_inv_def)
    with lock_step_grows [OF step] show ?thesis by (rule checked_ok_grows)
  next
    assume a: "pcs s i = HoldTakeover \<and> p = runningPriority s \<and> c = cancelCtx s"
    have "checked_ok zero s i p c"
    proof (cases "at running s = {}")
      case True
      with a prio show ?thesis by (simp add: priority_inv_def checked_ok_def)
    next
      case False
      with prio obtain j where j: "at running s = {j}" "runningPriority s = seqs s j" "cancelCtx s = Some j"
        by (auto simp: priority_inv_def)
      then have "pcs s j = Running" using in_at [of j running s] by (cases "pcs s j") auto
      with a j show ?thesis by (auto simp: checked_ok_def)
    qed
    with lock_step_grows [OF step] show ?thesis by (rule checked_ok_grows)
  qed
qed

text \<open>Who may be interrupted, and why.\<close>

definition justified :: "('p \<Rightarrow> 'p \<Rightarrow> bool) \<Rightarrow> 'p lock_state \<Rightarrow> nat \<Rightarrow> bool" where
  "justified can s j \<longleftrightarrow>
     served (pcs s j) \<and> (pcs s j = Running \<longrightarrow> (\<exists>i. i \<noteq> j \<and> pcs s i \<noteq> Idle \<and> (can (seqs s i) (seqs s j) \<or> takes s i)))"

definition cancel_inv :: "('p \<Rightarrow> 'p \<Rightarrow> bool) \<Rightarrow> 'p lock_state \<Rightarrow> bool" where
  "cancel_inv can s \<longleftrightarrow> (\<forall>j \<in> cancelled s. justified can s j)"

lemma running_served: "lock_step zero can s s' \<Longrightarrow> pcs s' j = Running \<Longrightarrow> served (pcs s j) \<Longrightarrow> pcs s j = Running"
  by (induction rule: lock_step.induct) (auto simp: lock_simps split: if_splits)

lemma justified_step:
  assumes step: "lock_step zero can s s'" and "justified can s j"
  shows "justified can s' j"
proof -
  note g = lock_step_grows [OF step, unfolded grows_def]
  have "served (pcs s' j)" using assms(2) g by (simp add: justified_def)
  moreover have "\<exists>i. i \<noteq> j \<and> pcs s' i \<noteq> Idle \<and> (can (seqs s' i) (seqs s' j) \<or> takes s' i)"
    if "pcs s' j = Running"
  proof -
    have r: "pcs s j = Running" using running_served [OF step that] assms(2) by (simp add: justified_def)
    with assms(2) obtain i where i: "i \<noteq> j" "pcs s i \<noteq> Idle" "can (seqs s i) (seqs s j) \<or> takes s i"
      by (auto simp: justified_def)
    with g r show ?thesis by (intro exI [of _ i]) simp
  qed
  ultimately show ?thesis by (simp add: justified_def)
qed

lemma cancelled_step:
  "lock_step zero can s s' \<Longrightarrow> j \<in> cancelled s' \<Longrightarrow> priority_inv zero s \<Longrightarrow> token_inv s \<Longrightarrow>
     j \<in> cancelled s \<or>
     (\<exists>i p. pcs s i = Checked p (Some j) \<and> (can (seqs s i) p \<or> takes s i)) \<or>
     (served (pcs s' j) \<and> pcs s' j \<noteq> Running)"
proof (induction rule: lock_step.induct)
  case (cancel s i p c)
  then show ?case by (auto simp: lock_simps)
next
  case (acquire s i)
  then have "at running s = {}" using running_holding [of s] by (auto simp: token_inv_def)
  with acquire show ?case by (auto simp: priority_inv_def lock_simps split: if_splits)
next
  case (unlock s i)
  then have "i \<in> at running s" by (simp add: in_at)
  with unlock.prems(2) have "cancelCtx s = Some i" by (auto simp: priority_inv_def)
  with unlock show ?case by (auto simp: lock_simps)
qed (simp_all add: lock_simps)

lemma cancel_inv_step:
  assumes step: "lock_step zero can s s'" and inv: "priority_inv zero s" "token_inv s" "checked_inv zero s" "cancel_inv can s"
  shows "cancel_inv can s'"
  unfolding cancel_inv_def
proof
  fix j
  assume "j \<in> cancelled s'"
  from cancelled_step [OF step this inv(1,2)] consider
      "j \<in> cancelled s"
    | i p where "pcs s i = Checked p (Some j)" "can (seqs s i) p \<or> takes s i"
    | "served (pcs s' j)" "pcs s' j \<noteq> Running" by blast
  then show "justified can s' j"
  proof cases
    case 1
    with inv(4) have "justified can s j" by (simp add: cancel_inv_def)
    with step show ?thesis by (rule justified_step)
  next
    case 2
    with inv(3) have "checked_ok zero s i p (Some j)" by (simp add: checked_inv_def)
    with 2 have "j \<noteq> i" "pcs s i \<noteq> Idle" "served (pcs s j)" "can (seqs s i) (seqs s j) \<or> takes s i"
      by (auto simp: checked_ok_def)
    then have "justified can s j" unfolding justified_def by metis
    with step show ?thesis by (rule justified_step)
  next
    case 3
    then show ?thesis by (simp add: justified_def)
  qed
qed

text \<open>Why a request was refused.\<close>

definition refused_ok :: "'p \<Rightarrow> ('p \<Rightarrow> 'p \<Rightarrow> bool) \<Rightarrow> 'p lock_state \<Rightarrow> nat \<Rightarrow> bool" where
  "refused_ok zero can s i \<longleftrightarrow>
     \<not> takes s i \<and> pcs s i \<noteq> Idle \<and>
     (\<not> can (seqs s i) zero \<or> (\<exists>j. j \<noteq> i \<and> served (pcs s j) \<and> \<not> can (seqs s i) (seqs s j)))"

definition refused_inv :: "'p \<Rightarrow> ('p \<Rightarrow> 'p \<Rightarrow> bool) \<Rightarrow> 'p lock_state \<Rightarrow> bool" where
  "refused_inv zero can s \<longleftrightarrow> (\<forall>i. pcs s i = Refused ErrLocked \<longrightarrow> refused_ok zero can s i)"

lemma refused_ok_grows:
  assumes g: "grows s s'" and ok: "refused_ok zero can s i"
  shows "refused_ok zero can s' i"
proof -
  have i: "takes s' i = takes s i" "seqs s' i = seqs s i" "pcs s' i \<noteq> Idle"
    using g ok by (auto simp: grows_def refused_ok_def)
  have "served (pcs s' j) \<and> seqs s' j = seqs s j" if "served (pcs s j)" for j
    using g that served_not_idle [OF that] by (simp add: grows_def)
  with i ok show ?thesis by (auto simp: refused_ok_def)
qed

lemma refused_step:
  "lock_step zero can s s' \<Longrightarrow> pcs s' i = Refused ErrLocked \<Longrightarrow>
     pcs s i = Refused ErrLocked \<or> (\<exists>p c. pcs s i = Checked p c \<and> \<not> can (seqs s i) p \<and> \<not> takes s i)"
  by (induction rule: lock_step.induct) (auto simp: lock_simps split: if_splits)

lemma refused_inv_step:
  assumes step: "lock_step zero can s s'" and inv: "checked_inv zero s" "refused_inv zero can s"
  shows "refused_inv zero can s'"
  unfolding refused_inv_def
proof (intro allI impI)
  fix i
  assume "pcs s' i = Refused ErrLocked"
  from refused_step [OF step this] have "refused_ok zero can s i"
  proof
    assume "pcs s i = Refused ErrLocked"
    with inv(2) show ?thesis by (simp add: refused_inv_def)
  next
    assume "\<exists>p c. pcs s i = Checked p c \<and> \<not> can (seqs s i) p \<and> \<not> takes s i"
    then obtain p c where c: "pcs s i = Checked p c" "\<not> can (seqs s i) p" "\<not> takes s i" by blast
    with inv(1) have "checked_ok zero s i p c" by (simp add: checked_inv_def)
    with c show ?thesis by (auto simp: checked_ok_def refused_ok_def split: option.splits)
  qed
  with lock_step_grows [OF step] show "refused_ok zero can s' i" by (rule refused_ok_grows)
qed

definition lock_inv :: "'p \<Rightarrow> ('p \<Rightarrow> 'p \<Rightarrow> bool) \<Rightarrow> 'p lock_state \<Rightarrow> bool" where
  "lock_inv zero can s \<longleftrightarrow>
     token_inv s \<and> takeover_inv s \<and> priority_inv zero s \<and> checked_inv zero s \<and> cancel_inv can s \<and>
     refused_inv zero can s"

lemma lock_inv_start: "lock_inv zero can (NewPriorityLock zero)"
  by (simp add: lock_inv_def token_inv_def takeover_inv_def priority_inv_def checked_inv_def cancel_inv_def
      refused_inv_def at_def NewPriorityLock_def)

lemma lock_inv_step: "lock_step zero can s s' \<Longrightarrow> lock_inv zero can s \<Longrightarrow> lock_inv zero can s'"
  unfolding lock_inv_def
  by (intro conjI; elim conjE)
     (erule (1) token_inv_step takeover_inv_step, erule (1) takeover_inv_step, erule (2) priority_inv_step,
      erule (2) checked_inv_step, erule (4) cancel_inv_step, erule (2) refused_inv_step)

lemma reachable_inv: "reachable zero can s \<Longrightarrow> lock_inv zero can s"
  by (induction rule: reachable.induct) (auto intro: lock_inv_start lock_inv_step)

section \<open>What every priority lock guarantees\<close>

context priority begin

lemma one_holder: "reachable zero can_take_over s \<Longrightarrow> holding (pcs s i) \<Longrightarrow> holding (pcs s j) \<Longrightarrow> i = j"
  using reachable_inv [of zero can_take_over s] in_at [of i holding s] in_at [of j holding s]
  by (auto simp: lock_inv_def token_inv_def)

lemma token_kept: "reachable zero can_take_over s \<Longrightarrow> token s \<longleftrightarrow> (\<forall>i. \<not> holding (pcs s i))"
  using reachable_inv [of zero can_take_over s] by (auto simp: lock_inv_def token_inv_def at_def)

lemma interrupted_for_reason:
  "reachable zero can_take_over s \<Longrightarrow> j \<in> cancelled s \<Longrightarrow> pcs s j = Running \<Longrightarrow>
     \<exists>i. i \<noteq> j \<and> pcs s i \<noteq> Idle \<and> (can_take_over (seqs s i) (seqs s j) \<or> takes s i)"
  using reachable_inv [of zero can_take_over s] by (auto simp: lock_inv_def cancel_inv_def justified_def)

lemma refused_for_reason:
  "reachable zero can_take_over s \<Longrightarrow> pcs s i = Refused ErrLocked \<Longrightarrow>
     \<not> takes s i \<and> (\<exists>j. j \<noteq> i \<and> served (pcs s j) \<and> \<not> can_take_over (seqs s i) (seqs s j))"
  using reachable_inv [of zero can_take_over s] idle_free [of "seqs s i"]
  by (auto simp: lock_inv_def refused_inv_def refused_ok_def)

end

interpretation sequence: priority SequenceNoop CanTakeOver
  by unfold_locales (simp add: CanTakeOver_def)


section \<open>Properties\<close>

text \<open>C6: mutual exclusion: whatever the interleaving of Lock and Unlock calls, at most one sequence
  runs (or is in the middle of Unlock), and the channel runningCh holds its token exactly when no
  sequence does, so the lock is never lost.\<close>

theorem one_sequence_runs:
  assumes "reachable SequenceNoop CanTakeOver s"
  shows "(pcs s i = Running \<longrightarrow> pcs s j = Running \<longrightarrow> i = j) \<and> (token s \<longleftrightarrow> (\<forall>k. \<not> holding (pcs s k)))"
  using sequence.one_holder [OF assms, of i j] sequence.token_kept [OF assms] by auto

text \<open>C27: a running sequence is interrupted for a reason only: if the context of a running sequence is
  cancelled, there is another caller of Lock whose sequence may take over this one by the take-over
  table, or which has asked for the takeover explicitly.\<close>

theorem interrupted_only_by_takeover:
  assumes "reachable SequenceNoop CanTakeOver s" and "j \<in> cancelled s" and "pcs s j = Running"
  shows "\<exists>i. i \<noteq> j \<and> pcs s i \<noteq> Idle \<and> (CanTakeOver (seqs s i) (seqs s j) \<or> takes s i)"
  using assms by (rule sequence.interrupted_for_reason)

text \<open>A sequence is refused with ErrLocked only when it has met another sequence that it may not
  take over, and it has not asked for the takeover; an idle machine refuses nothing.\<close>

theorem refused_only_when_locked:
  assumes "reachable SequenceNoop CanTakeOver s" and "pcs s i = Refused ErrLocked"
  shows "\<not> takes s i \<and> (\<exists>j. j \<noteq> i \<and> served (pcs s j) \<and> \<not> CanTakeOver (seqs s i) (seqs s j))"
  using assms by (rule sequence.refused_for_reason)

text \<open>Witnesses: Boot runs as process 0 and process 1 asks for Reboot, or for Install.\<close>

definition boot_running :: "Sequence lock_state" where
  "boot_running = \<lparr>token = False, takeover = None, runningPriority = SequenceBoot, cancelCtx = Some 0,
     cancelled = {}, pcs = (\<lambda>_. Idle)(0 := Running), seqs = (\<lambda>_. SequenceNoop)(0 := SequenceBoot), takes = (\<lambda>_. False)\<rparr>"

definition second_checked :: "Sequence \<Rightarrow> Sequence lock_state" where
  "second_checked q = boot_running\<lparr>takeover := Some 1,
     pcs := (pcs boot_running)(1 := Checked SequenceBoot (Some 0)), seqs := (seqs boot_running)(1 := q)\<rparr>"

lemmas lock_state_eqs = goto_def cancel_ctx_def setRunningPriority_def NewPriorityLock_def boot_running_def
  second_checked_def fun_upd_idem fun_upd_twist

lemma boot_reachable: "reachable SequenceNoop CanTakeOver boot_running"
proof -
  let ?s0 = "NewPriorityLock SequenceNoop"
  let ?s1 = "goto 0 WaitTakeover (?s0\<lparr>seqs := (seqs ?s0)(0 := SequenceBoot), takes := (takes ?s0)(0 := False)\<rparr>)"
  let ?s2 = "goto 0 HoldTakeover (?s1\<lparr>takeover := Some 0\<rparr>)"
  let ?s3 = "goto 0 (Checked (runningPriority ?s2) (cancelCtx ?s2)) ?s2"
  let ?s4 = "goto 0 WaitRunning (cancel_ctx None ?s3)"
  let ?s5 = "goto 0 Running ((setRunningPriority SequenceNoop (seqs ?s4 0) (Some 0) (?s4\<lparr>token := False\<rparr>))\<lparr>takeover := None\<rparr>)"
  have "reachable SequenceNoop CanTakeOver ?s0" by (rule reachable.start)
  then have "reachable SequenceNoop CanTakeOver ?s1" by (rule reachable.step) (rule lock_step.request, simp add: NewPriorityLock_def)
  then have "reachable SequenceNoop CanTakeOver ?s2" by (rule reachable.step) (rule lock_step.enter, simp_all add: lock_state_eqs)
  then have "reachable SequenceNoop CanTakeOver ?s3" by (rule reachable.step) (rule lock_step.check, simp add: lock_state_eqs)
  then have "reachable SequenceNoop CanTakeOver ?s4"
    by (rule reachable.step) (rule lock_step.cancel [where p = SequenceNoop], simp_all add: lock_state_eqs CanTakeOver_def)
  then have "reachable SequenceNoop CanTakeOver ?s5" by (rule reachable.step) (rule lock_step.acquire, simp_all add: lock_state_eqs)
  moreover have "?s5 = boot_running" by (simp add: lock_state_eqs)
  ultimately show ?thesis by simp
qed

lemma second_reachable: "reachable SequenceNoop CanTakeOver (second_checked q)"
proof -
  let ?s0 = "boot_running"
  let ?s1 = "goto 1 WaitTakeover (?s0\<lparr>seqs := (seqs ?s0)(1 := q), takes := (takes ?s0)(1 := False)\<rparr>)"
  let ?s2 = "goto 1 HoldTakeover (?s1\<lparr>takeover := Some 1\<rparr>)"
  let ?s3 = "goto 1 (Checked (runningPriority ?s2) (cancelCtx ?s2)) ?s2"
  have "reachable SequenceNoop CanTakeOver ?s1" using boot_reachable
    by (rule reachable.step) (rule lock_step.request, simp add: boot_running_def)
  then have "reachable SequenceNoop CanTakeOver ?s2" by (rule reachable.step) (rule lock_step.enter, simp_all add: lock_state_eqs)
  then have "reachable SequenceNoop CanTakeOver ?s3" by (rule reachable.step) (rule lock_step.check, simp add: lock_state_eqs)
  moreover have "?s3 = second_checked q" by (simp add: lock_state_eqs)
  ultimately show ?thesis by simp
qed

theorem one_sequence_runs_witness: "pcs boot_running 0 = Running \<and> \<not> token boot_running"
  using one_sequence_runs [OF boot_reachable, of 0 0] by (auto simp: boot_running_def)

theorem interrupted_only_by_takeover_witness:
  "\<exists>i. i \<noteq> 0 \<and> CanTakeOver (seqs (goto 1 WaitRunning (cancel_ctx (Some 0) (second_checked SequenceReboot))) i) SequenceBoot"
proof -
  let ?s = "goto 1 WaitRunning (cancel_ctx (Some 0) (second_checked SequenceReboot))"
  have "reachable SequenceNoop CanTakeOver ?s" using second_reachable
    by (rule reachable.step)
       (rule lock_step.cancel [where p = SequenceBoot], simp_all add: second_checked_def boot_running_def CanTakeOver_def sequenceTakeOver_def)
  moreover have "0 \<in> cancelled ?s" "pcs ?s 0 = Running" "seqs ?s 0 = SequenceBoot" "\<And>i. \<not> takes ?s i"
    by (simp_all add: lock_simps) (simp_all add: second_checked_def boot_running_def)
  ultimately show ?thesis
    using interrupted_only_by_takeover [of ?s 0] by metis
qed

theorem refused_only_when_locked_witness:
  "\<exists>j. \<not> CanTakeOver SequenceInstall (seqs (goto 1 (Refused ErrLocked) ((second_checked SequenceInstall)\<lparr>takeover := None\<rparr>)) j)"
proof -
  let ?s = "goto 1 (Refused ErrLocked) ((second_checked SequenceInstall)\<lparr>takeover := None\<rparr>)"
  have "reachable SequenceNoop CanTakeOver ?s" using second_reachable
    by (rule reachable.step)
       (rule lock_step.refuse [where p = SequenceBoot], simp_all add: second_checked_def boot_running_def CanTakeOver_def sequenceTakeOver_def)
  moreover have "pcs ?s 1 = Refused ErrLocked" "seqs ?s 1 = SequenceInstall"
    by (simp_all add: lock_simps) (simp_all add: second_checked_def)
  ultimately show ?thesis
    using refused_only_when_locked [of ?s 1] by metis
qed

end
