(* ===== verification/Sequencer.thy ===== *)
theory Sequencer
  imports Sequences
begin

text \<open>
  The phase lists of the sequences, v1alpha1_sequencer.go (with the build-tag variants
  sequence_surface_*.go and v1alpha1_sequencer_leave_phase_*.go), and the task wrappers of
  v1alpha1_sequencer_tasks.go. A task is its name: what a task does (mounting, services, reboot) is
  outside of the model, and its result is a parameter of the execution in Controller.
\<close>

section \<open>Tasks and phases\<close>

datatype task =
    StartMachined | StartContainerd | LoadConfig | EnforceKSPPRequirements | StartUdevd | StartAuditd
  | StartSyslogd | WaitForUSB | ReloadMeta | CleanupBootloader | StartDashboard
  | ResetSystemDiskPartitions | HaltIfInstalled | SetUserEnvVars | InstallTask | FlushMeta
  | TeardownVolumeLifecycle | StopAllServices | KexecPrepare | RebootTask | MemorySizeCheck
  | DiskSizeCheck | WaitForCARoots | StartDBus | SetupSharedFilesystems | MountEphemeralPartition
  | WriteUdevRules | MountUserDisks | WriteUserFiles | StartAllServices | StopAllPods | StopDBus
  | CordonAndDrainNode | RemoveAllPods | LeaveClusterMembership | SendResetSignal | ForceCleanup
  | ResetSystemDisk | ResetSystemDiskSpec | ResetUserDisks | ShutdownTask | StoreShutdownEmergency
  | UpgradeTask | StopServicesEphemeral | UnmountPodMounts | UnmountSystemDiskBindMounts
  | UnmountEphemeralPartition

text \<open>A task, with the wrappers of the code around it: pauseOnFailure with its timeout in minutes, and
  taskErrorHandler with the only handler the sequences use, logError.\<close>

datatype task_setup =
    Plain task
  | PauseOnFailure task_setup nat
  | TaskErrorHandler task_setup

fun task_of :: "task_setup \<Rightarrow> task" where
  "task_of (Plain t) = t"
| "task_of (PauseOnFailure s m) = task_of s"
| "task_of (TaskErrorHandler s) = task_of s"

text \<open>FailurePauseTimeout of the constants package, in minutes.\<close>

definition FailurePauseTimeout :: nat where
  "FailurePauseTimeout = 35"

text \<open>The deferred checks of Initialize.\<close>

datatype check = CheckDualBoot | CheckDashboard | CheckWipe | CheckHalt

record phase =
  PhaseName :: string
  PhaseTasks :: "task_setup list"
  CheckFunc :: "check option"

type_synonym phase_list = "phase list"

definition Append :: "phase_list \<Rightarrow> string \<Rightarrow> task_setup list \<Rightarrow> phase_list" where
  "Append p name ts = p @ [\<lparr>PhaseName = name, PhaseTasks = ts, CheckFunc = None\<rparr>]"

definition AppendWhen :: "phase_list \<Rightarrow> bool \<Rightarrow> string \<Rightarrow> task_setup list \<Rightarrow> phase_list" where
  "AppendWhen p b name ts = (if b then Append p name ts else p)"

definition AppendWithDeferredCheck :: "phase_list \<Rightarrow> check \<Rightarrow> string \<Rightarrow> task_setup list \<Rightarrow> phase_list" where
  "AppendWithDeferredCheck p c name ts = p @ [\<lparr>PhaseName = name, PhaseTasks = ts, CheckFunc = Some c\<rparr>]"

definition AppendList :: "phase_list \<Rightarrow> phase_list \<Rightarrow> phase_list" where
  "AppendList p q = p @ q"

definition phaseListErrorHandler :: "phase_list \<Rightarrow> phase_list" where
  "phaseListErrorHandler ps = map (\<lambda>p. p\<lparr>PhaseTasks := map TaskErrorHandler (PhaseTasks p)\<rparr>) ps"

section \<open>The runtime as the sequences see it\<close>

record machine =
  MachineMode :: Mode
  Installed :: bool
  InstallStaged :: bool
  WorkerType :: bool
  ChuboBuild :: bool
  BootloaderTag :: "string option"
  WipeParam :: "string option"
  HaltParam :: "string option"
  DashboardDisabledParam :: "string option"

datatype reboot_mode = RebootDefault | RebootPowercycle | RebootForce
datatype upgrade_reboot_mode = UpgradeDefault | UpgradePowercycle
datatype wipe_mode = WipeAll | WipeSystemDisk | WipeUserDisks

record reset_options =
  Graceful :: bool
  ResetReboot :: bool
  WipeMode :: wipe_mode
  UserDisksToWipe :: "string list"
  SystemDiskTargets :: "string list"

text \<open>strconv.ParseBool, with false for an error, as the callers drop the error.\<close>

definition parse_bool :: "string \<Rightarrow> bool" where
  "parse_bool s \<longleftrightarrow> s \<in> {''1'', ''t'', ''T'', ''TRUE'', ''true'', ''True''}"

definition SafeDeref :: "string option \<Rightarrow> string" where
  "SafeDeref s = (case s of Some x \<Rightarrow> x | None \<Rightarrow> '''')"

definition shouldStartDashboard :: "machine \<Rightarrow> bool" where
  "shouldStartDashboard r =
     (if ChuboBuild r then False
      else if MachineMode r = ModeMetalAgent then False
      else \<not> parse_bool (SafeDeref (DashboardDisabledParam r)))"

definition shouldRunLeavePhase :: "machine \<Rightarrow> bool" where
  "shouldRunLeavePhase r = (if ChuboBuild r then True else \<not> WorkerType r)"

fun run_check :: "machine \<Rightarrow> check \<Rightarrow> bool" where
  "run_check r CheckDualBoot =
     (case BootloaderTag r of None \<Rightarrow> False | Some val \<Rightarrow> Installed r \<and> val = ''dual-boot'')"
| "run_check r CheckDashboard = shouldStartDashboard r"
| "run_check r CheckWipe = (SafeDeref (WipeParam r) \<noteq> '''')"
| "run_check r CheckHalt = (Installed r \<and> parse_bool (SafeDeref (HaltParam r)))"

definition initializeEarlyServicesTasks :: "task_setup list" where
  "initializeEarlyServicesTasks =
     map Plain [StartUdevd, StartMachined, StartAuditd, StartSyslogd, StartContainerd]"

section \<open>The sequences\<close>

definition BootPartitionLabel :: string where
  "BootPartitionLabel = ''BOOT''"

definition bootPartitionInTargets :: "string list \<Rightarrow> bool" where
  "bootPartitionInTargets targets = list_ex (\<lambda>t. t = BootPartitionLabel) targets"

definition stopAllPhaselist :: "machine \<Rightarrow> bool \<Rightarrow> phase_list" where
  "stopAllPhaselist r enableKexec =
     (if MachineMode r = ModeContainer then Append [] ''stopEverything'' [Plain StopAllServices]
      else
        (let p = [];
             p = Append p ''stopServices'' [Plain StopServicesEphemeral];
             p = Append p ''umount'' [Plain UnmountPodMounts];
             p = Append p ''unmountBind'' [Plain UnmountSystemDiskBindMounts];
             p = Append p ''unmountSystem'' [Plain UnmountEphemeralPartition];
             p = Append p ''volumeFinalize'' [Plain TeardownVolumeLifecycle];
             p = AppendWhen p enableKexec ''kexec'' [Plain KexecPrepare]
         in Append p ''stopEverything'' [Plain StopAllServices]))"

definition Initialize :: "machine \<Rightarrow> phase_list" where
  "Initialize r =
     (if MachineMode r = ModeContainer then
        Append (Append [] ''machined'' [Plain StartMachined, Plain StartContainerd]) ''config'' [Plain LoadConfig]
      else
        (let p = Append [] ''systemRequirements'' [Plain EnforceKSPPRequirements];
             p = Append p ''earlyServices'' initializeEarlyServicesTasks;
             p = Append p ''usb'' [Plain WaitForUSB];
             p = Append p ''meta'' [Plain ReloadMeta];
             p = AppendWithDeferredCheck p CheckDualBoot ''cleanupBootloader'' [Plain CleanupBootloader];
             p = AppendWithDeferredCheck p CheckDashboard ''dashboard'' [Plain StartDashboard];
             p = AppendWithDeferredCheck p CheckWipe ''wipeDisks'' [Plain ResetSystemDiskPartitions];
             p = AppendWithDeferredCheck p CheckHalt ''haltIfInstalled'' [Plain HaltIfInstalled]
         in Append p ''config'' [Plain LoadConfig]))"

definition Install :: "machine \<Rightarrow> phase_list" where
  "Install r =
     (if MachineMode r = ModeContainer then []
      else if \<not> Installed r \<or> InstallStaged r then
        (let p = Append [] ''env'' [Plain SetUserEnvVars];
             p = Append p ''install'' [Plain InstallTask];
             p = Append p ''meta'' [Plain ReloadMeta];
             p = Append p ''saveMeta'' [Plain FlushMeta];
             p = Append p ''volumeFinalize'' [Plain TeardownVolumeLifecycle];
             p = Append p ''stopEverything'' [Plain StopAllServices];
             p = Append p ''kexec'' [Plain KexecPrepare]
         in Append p ''reboot'' [Plain RebootTask])
      else [])"

definition Boot :: "machine \<Rightarrow> phase_list" where
  "Boot r =
     (let container = (MachineMode r = ModeContainer);
          p = Append [] ''memorySizeCheck'' [Plain MemorySizeCheck];
          p = Append p ''diskSizeCheck'' [Plain DiskSizeCheck];
          p = Append p ''env'' [Plain SetUserEnvVars, Plain WaitForCARoots];
          p = Append p ''dbus'' [Plain StartDBus];
          p = AppendWhen p container ''sharedFilesystems'' [Plain SetupSharedFilesystems];
          p = Append p ''ephemeral'' [Plain MountEphemeralPartition];
          p = AppendWhen p (\<not> container) ''udevSetup'' [Plain WriteUdevRules];
          p = AppendWhen p (\<not> container) ''userDisks'' [PauseOnFailure (Plain MountUserDisks) FailurePauseTimeout];
          p = Append p ''userSetup'' [PauseOnFailure (Plain WriteUserFiles) FailurePauseTimeout]
      in Append p ''startEverything'' [Plain StartAllServices])"

definition Reboot :: "machine \<Rightarrow> reboot_mode \<Rightarrow> phase_list" where
  "Reboot r m =
     (let p = [];
          p = (if m \<noteq> RebootForce then
                 AppendList (Append (Append p ''cleanup'' [Plain StopAllPods]) ''dbus'' [Plain StopDBus])
                   (stopAllPhaselist r True)
               else p)
      in Append p ''reboot'' [Plain RebootTask])"

definition Reset :: "machine \<Rightarrow> reset_options \<Rightarrow> phase_list" where
  "Reset r opts =
     (let withKexec = (SystemDiskTargets opts \<noteq> [] \<and> \<not> bootPartitionInTargets (SystemDiskTargets opts));
          resetUserDisks = (WipeMode opts = WipeAll \<or> WipeMode opts = WipeUserDisks);
          resetSystemDisk = (WipeMode opts = WipeAll \<or> WipeMode opts = WipeSystemDisk)
      in if MachineMode r = ModeContainer then
           Append (AppendList [] (stopAllPhaselist r False)) ''shutdown'' [Plain ShutdownTask]
         else
           (let p = AppendWhen [] (Graceful opts) ''drain'' [TaskErrorHandler (Plain CordonAndDrainNode)];
                p = AppendWhen p (Graceful opts) ''cleanup'' [TaskErrorHandler (Plain RemoveAllPods)];
                p = AppendWhen p (\<not> Graceful opts) ''cleanup'' [TaskErrorHandler (Plain StopAllPods)];
                p = Append p ''dbus'' [Plain StopDBus];
                p = AppendWhen p (Graceful opts \<and> shouldRunLeavePhase r) ''leave'' [Plain LeaveClusterMembership];
                p = Append p ''preReset'' [Plain SendResetSignal];
                p = AppendList p (phaseListErrorHandler (stopAllPhaselist r withKexec));
                p = Append p ''forceCleanup'' [Plain ForceCleanup];
                p = AppendWhen p (SystemDiskTargets opts = [] \<and> resetSystemDisk) ''reset'' [Plain ResetSystemDisk];
                p = AppendWhen p (SystemDiskTargets opts \<noteq> [] \<and> resetSystemDisk) ''resetSpec'' [Plain ResetSystemDiskSpec];
                p = AppendWhen p (UserDisksToWipe opts \<noteq> [] \<and> resetUserDisks) ''resetUserDisks'' [Plain ResetUserDisks];
                p = AppendWhen p (ResetReboot opts) ''reboot'' [Plain RebootTask]
            in AppendWhen p (\<not> ResetReboot opts) ''shutdown'' [Plain ShutdownTask]))"

definition Shutdown :: "machine \<Rightarrow> bool \<Rightarrow> phase_list" where
  "Shutdown r force =
     (let p = Append [] ''storeShutdown'' [Plain StoreShutdownEmergency];
          p = AppendWhen p (\<not> force) ''drain'' [Plain CordonAndDrainNode];
          p = Append p ''cleanup'' [Plain StopAllPods];
          p = Append p ''dbus'' [Plain StopDBus];
          p = AppendList p (stopAllPhaselist r False)
      in Append p ''shutdown'' [Plain ShutdownTask])"

definition StageUpgrade :: "machine \<Rightarrow> upgrade_reboot_mode \<Rightarrow> phase_list" where
  "StageUpgrade r m =
     (if MachineMode r = ModeContainer then []
      else
        (let p = Append [] ''cleanup'' [Plain StopAllPods];
             p = Append p ''dbus'' [Plain StopDBus];
             p = AppendList p (stopAllPhaselist r (m = UpgradeDefault))
         in Append p ''reboot'' [Plain RebootTask]))"

definition MaintenanceUpgrade :: "machine \<Rightarrow> upgrade_reboot_mode \<Rightarrow> phase_list" where
  "MaintenanceUpgrade r m =
     (if MachineMode r = ModeContainer then []
      else
        (let p = Append [] ''upgrade'' [Plain UpgradeTask];
             p = Append p ''meta'' [Plain ReloadMeta];
             p = AppendWhen p (m = UpgradeDefault) ''kexec'' [Plain KexecPrepare];
             p = Append p ''stopEverything'' [Plain StopAllServices]
         in Append p ''reboot'' [Plain RebootTask]))"

definition Upgrade :: "machine \<Rightarrow> upgrade_reboot_mode \<Rightarrow> phase_list" where
  "Upgrade r m =
     (if MachineMode r = ModeContainer then []
      else
        (let p = Append [] ''drain'' [Plain CordonAndDrainNode];
             p = Append p ''cleanup'' [Plain StopAllPods];
             p = Append p ''dbus'' [Plain StopDBus];
             p = Append p ''stopServices'' [Plain StopServicesEphemeral];
             p = Append p ''unmount'' [Plain UnmountPodMounts];
             p = Append p ''unmountBind'' [Plain UnmountSystemDiskBindMounts];
             p = Append p ''unmountSystem'' [Plain UnmountEphemeralPartition];
             p = Append p ''volumeFinalize'' [Plain TeardownVolumeLifecycle];
             p = Append p ''upgrade'' [Plain UpgradeTask];
             p = Append p ''meta'' [Plain ReloadMeta];
             p = AppendWhen p (m = UpgradeDefault) ''kexec'' [Plain KexecPrepare];
             p = Append p ''stopEverything'' [Plain StopAllServices]
         in Append p ''reboot'' [Plain RebootTask]))"

text \<open>The data of a sequence and the switch of Controller.phases: None is ErrInvalidSequenceData. A
  Reboot without a request counts as the default mode.\<close>

datatype seq_data =
    NoData
  | ShutdownRequest bool
  | RebootRequest reboot_mode
  | UpgradeRequest upgrade_reboot_mode
  | ResetData reset_options

definition phases_of :: "machine \<Rightarrow> Sequence \<Rightarrow> seq_data \<Rightarrow> phase_list option" where
  "phases_of r seq data =
     (case seq of
        SequenceBoot \<Rightarrow> Some (Boot r)
      | SequenceInitialize \<Rightarrow> Some (Initialize r)
      | SequenceInstall \<Rightarrow> Some (Install r)
      | SequenceShutdown \<Rightarrow> (case data of ShutdownRequest force \<Rightarrow> Some (Shutdown r force) | _ \<Rightarrow> None)
      | SequenceReboot \<Rightarrow> (case data of RebootRequest m \<Rightarrow> Some (Reboot r m) | _ \<Rightarrow> Some (Reboot r RebootDefault))
      | SequenceUpgrade \<Rightarrow> (case data of UpgradeRequest m \<Rightarrow> Some (Upgrade r m) | _ \<Rightarrow> None)
      | SequenceStageUpgrade \<Rightarrow> (case data of UpgradeRequest m \<Rightarrow> Some (StageUpgrade r m) | _ \<Rightarrow> None)
      | SequenceMaintenanceUpgrade \<Rightarrow> (case data of UpgradeRequest m \<Rightarrow> Some (MaintenanceUpgrade r m) | _ \<Rightarrow> None)
      | SequenceReset \<Rightarrow> (case data of ResetData opts \<Rightarrow> Some (Reset r opts) | _ \<Rightarrow> None)
      | SequenceNoop \<Rightarrow> Some [])"

section \<open>The tasks of a sequence\<close>

definition tasks_of :: "phase_list \<Rightarrow> task list" where
  "tasks_of ps = concat (map (\<lambda>p. map task_of (PhaseTasks p)) ps)"

named_theorems phase_simps \<open>tasks of the phase combinators\<close>

lemma tasks_Nil [phase_simps]: "tasks_of [] = []"
  by (simp add: tasks_of_def)

lemma tasks_Append [phase_simps]: "tasks_of (Append p n ts) = tasks_of p @ map task_of ts"
  by (simp add: tasks_of_def Append_def)

lemma tasks_AppendWhen [phase_simps]:
  "tasks_of (AppendWhen p b n ts) = tasks_of p @ (if b then map task_of ts else [])"
  by (simp add: AppendWhen_def phase_simps)

lemma tasks_Deferred [phase_simps]:
  "tasks_of (AppendWithDeferredCheck p c n ts) = tasks_of p @ map task_of ts"
  by (simp add: tasks_of_def AppendWithDeferredCheck_def)

lemma tasks_AppendList [phase_simps]: "tasks_of (AppendList p q) = tasks_of p @ tasks_of q"
  by (simp add: tasks_of_def AppendList_def)

lemma tasks_handler [phase_simps]: "tasks_of (phaseListErrorHandler ps) = tasks_of ps"
  by (simp add: tasks_of_def phaseListErrorHandler_def comp_def)

lemma tasks_stopAll [phase_simps]:
  "tasks_of (stopAllPhaselist r k) =
     (if MachineMode r = ModeContainer then [StopAllServices]
      else [StopServicesEphemeral, UnmountPodMounts, UnmountSystemDiskBindMounts, UnmountEphemeralPartition,
            TeardownVolumeLifecycle] @ (if k then [KexecPrepare] else []) @ [StopAllServices])"
  by (simp add: stopAllPhaselist_def Let_def phase_simps)

lemmas sequence_defs = Install_def Boot_def Initialize_def Reboot_def Reset_def Shutdown_def StageUpgrade_def
  MaintenanceUpgrade_def Upgrade_def initializeEarlyServicesTasks_def

text \<open>The tasks of every sequence, as plain lists.\<close>

lemma tasks_Install [phase_simps]:
  "tasks_of (Install r) =
     (if MachineMode r \<noteq> ModeContainer \<and> (\<not> Installed r \<or> InstallStaged r)
      then [SetUserEnvVars, InstallTask, ReloadMeta, FlushMeta, TeardownVolumeLifecycle, StopAllServices,
            KexecPrepare, RebootTask] else [])"
  by (simp add: Install_def Let_def phase_simps)

lemma tasks_Reboot [phase_simps]:
  "tasks_of (Reboot r m) =
     (if m \<noteq> RebootForce then [StopAllPods, StopDBus] @ tasks_of (stopAllPhaselist r True) else []) @ [RebootTask]"
  by (simp add: Reboot_def Let_def phase_simps)

lemma tasks_Shutdown [phase_simps]:
  "tasks_of (Shutdown r force) =
     StoreShutdownEmergency # (if force then [] else [CordonAndDrainNode]) @ [StopAllPods, StopDBus] @
     tasks_of (stopAllPhaselist r False) @ [ShutdownTask]"
  by (simp add: Shutdown_def Let_def phase_simps)

lemma tasks_StageUpgrade [phase_simps]:
  "tasks_of (StageUpgrade r m) =
     (if MachineMode r = ModeContainer then []
      else [StopAllPods, StopDBus] @ tasks_of (stopAllPhaselist r (m = UpgradeDefault)) @ [RebootTask])"
  by (simp add: StageUpgrade_def Let_def phase_simps)

lemma tasks_MaintenanceUpgrade [phase_simps]:
  "tasks_of (MaintenanceUpgrade r m) =
     (if MachineMode r = ModeContainer then []
      else [UpgradeTask, ReloadMeta] @ (if m = UpgradeDefault then [KexecPrepare] else []) @ [StopAllServices, RebootTask])"
  by (simp add: MaintenanceUpgrade_def Let_def phase_simps)

lemma tasks_Upgrade [phase_simps]:
  "tasks_of (Upgrade r m) =
     (if MachineMode r = ModeContainer then []
      else [CordonAndDrainNode, StopAllPods, StopDBus, StopServicesEphemeral, UnmountPodMounts,
            UnmountSystemDiskBindMounts, UnmountEphemeralPartition, TeardownVolumeLifecycle, UpgradeTask, ReloadMeta] @
           (if m = UpgradeDefault then [KexecPrepare] else []) @ [StopAllServices, RebootTask])"
  by (simp add: Upgrade_def Let_def phase_simps)

definition reset_kexec :: "reset_options \<Rightarrow> bool" where
  "reset_kexec opts \<longleftrightarrow> SystemDiskTargets opts \<noteq> [] \<and> \<not> bootPartitionInTargets (SystemDiskTargets opts)"

definition reset_wipes :: "reset_options \<Rightarrow> task list" where
  "reset_wipes opts =
     (if SystemDiskTargets opts = [] \<and> WipeMode opts \<noteq> WipeUserDisks then [ResetSystemDisk] else []) @
     (if SystemDiskTargets opts \<noteq> [] \<and> WipeMode opts \<noteq> WipeUserDisks then [ResetSystemDiskSpec] else []) @
     (if UserDisksToWipe opts \<noteq> [] \<and> WipeMode opts \<noteq> WipeSystemDisk then [ResetUserDisks] else [])"

lemma tasks_Reset [phase_simps]:
  "tasks_of (Reset r opts) =
     (if MachineMode r = ModeContainer then [StopAllServices, ShutdownTask]
      else (if Graceful opts then [CordonAndDrainNode, RemoveAllPods] else [StopAllPods]) @ [StopDBus] @
           (if Graceful opts \<and> shouldRunLeavePhase r then [LeaveClusterMembership] else []) @ [SendResetSignal] @
           tasks_of (stopAllPhaselist r (reset_kexec opts)) @ [ForceCleanup] @ reset_wipes opts @
           [if ResetReboot opts then RebootTask else ShutdownTask])"
  by (cases "WipeMode opts") (simp_all add: Reset_def Let_def phase_simps reset_kexec_def reset_wipes_def)

lemma tasks_Boot [phase_simps]:
  "tasks_of (Boot r) =
     [MemorySizeCheck, DiskSizeCheck, SetUserEnvVars, WaitForCARoots, StartDBus] @
     (if MachineMode r = ModeContainer then [SetupSharedFilesystems, MountEphemeralPartition]
      else [MountEphemeralPartition, WriteUdevRules, MountUserDisks]) @ [WriteUserFiles, StartAllServices]"
  by (simp add: Boot_def Let_def phase_simps)

lemma tasks_Initialize [phase_simps]:
  "tasks_of (Initialize r) =
     (if MachineMode r = ModeContainer then [StartMachined, StartContainerd, LoadConfig]
      else [EnforceKSPPRequirements, StartUdevd, StartMachined, StartAuditd, StartSyslogd, StartContainerd,
            WaitForUSB, ReloadMeta, CleanupBootloader, StartDashboard, ResetSystemDiskPartitions, HaltIfInstalled, LoadConfig])"
  by (simp add: Initialize_def Let_def phase_simps initializeEarlyServicesTasks_def)

section \<open>Properties of the sequences\<close>

text \<open>The stages of taking the machine down.\<close>

fun teardown_rank :: "task \<Rightarrow> nat option" where
  "teardown_rank StopServicesEphemeral = Some 1"
| "teardown_rank UnmountPodMounts = Some 2"
| "teardown_rank UnmountSystemDiskBindMounts = Some 3"
| "teardown_rank UnmountEphemeralPartition = Some 4"
| "teardown_rank TeardownVolumeLifecycle = Some 5"
| "teardown_rank ResetSystemDisk = Some 6"
| "teardown_rank ResetSystemDiskSpec = Some 6"
| "teardown_rank ResetUserDisks = Some 6"
| "teardown_rank UpgradeTask = Some 6"
| "teardown_rank RebootTask = Some 7"
| "teardown_rank ShutdownTask = Some 7"
| "teardown_rank _ = None"

definition ranks :: "task list \<Rightarrow> nat list" where
  "ranks ts = List.map_filter teardown_rank ts"

lemma ranks_simps [simp]:
  "ranks [] = []" "ranks (t # ts) = (case teardown_rank t of None \<Rightarrow> ranks ts | Some n \<Rightarrow> n # ranks ts)"
  "ranks (xs @ ys) = ranks xs @ ranks ys"
  by (simp_all add: ranks_def map_filter_simps split: option.splits)
     (induction xs, simp_all add: map_filter_simps split: option.splits)

text \<open>Every sequence takes the machine down in the same order: services, pod mounts, bind mounts,
  the ephemeral partition, the volumes, then the destructive step (wiping or upgrading), then reboot or
  shutdown; and Reset and Upgrade on a machine that is not a container go through all five teardown
  stages before the destructive step.\<close>

theorem teardown_order:
  assumes "phases_of r seq data = Some ps"
  shows "sorted (ranks (tasks_of ps)) \<and>
    (seq \<in> {SequenceReset, SequenceUpgrade} \<longrightarrow> MachineMode r \<noteq> ModeContainer \<longrightarrow> take 5 (ranks (tasks_of ps)) = [1, 2, 3, 4, 5])"
  using assms
  by (cases seq; cases data)
     (auto simp: phases_of_def phase_simps reset_wipes_def)

text \<open>A sequence that ends the machine's run ends it once: in the sequences Install, Reboot, Reset,
  Shutdown and the three upgrades, unless they are empty, the last task is the reboot or the shutdown and
  no earlier task is either.\<close>

theorem ends_machine_once:
  assumes "phases_of r seq data = Some ps" and "ps \<noteq> []"
    and "seq \<notin> {SequenceNoop, SequenceBoot, SequenceInitialize}"
  shows "\<exists>ts t. tasks_of ps = ts @ [t] \<and> t \<in> {RebootTask, ShutdownTask} \<and>
           RebootTask \<notin> set ts \<and> ShutdownTask \<notin> set ts"
proof -
  have last: "tasks_of ps \<noteq> [] \<and> last (tasks_of ps) \<in> {RebootTask, ShutdownTask} \<and>
      RebootTask \<notin> set (butlast (tasks_of ps)) \<and> ShutdownTask \<notin> set (butlast (tasks_of ps))"
    using assms
    by (cases seq; cases data)
       (auto simp: phases_of_def phase_simps reset_wipes_def butlast_append Install_def Upgrade_def StageUpgrade_def
          MaintenanceUpgrade_def split: if_splits)
  then show ?thesis
    by (intro exI [of _ "butlast (tasks_of ps)"] exI [of _ "last (tasks_of ps)"]) simp
qed

text \<open>The flags of a request are honoured: a forced reboot does nothing but reboot; the node is
  drained exactly on an unforced shutdown, a graceful reset and an upgrade; kexec is prepared on a reset
  exactly when some partitions, but not BOOT, are wiped, and on a staged upgrade exactly in the default
  reboot mode (none of this in a container, which has no kexec).\<close>

theorem request_flags:
  "tasks_of (Reboot r RebootForce) = [RebootTask] \<and>
   (CordonAndDrainNode \<in> set (tasks_of (Shutdown r force)) \<longleftrightarrow> \<not> force) \<and>
   (CordonAndDrainNode \<in> set (tasks_of (Reset r opts)) \<longleftrightarrow> MachineMode r \<noteq> ModeContainer \<and> Graceful opts) \<and>
   (CordonAndDrainNode \<in> set (tasks_of (Upgrade r m)) \<longleftrightarrow> MachineMode r \<noteq> ModeContainer) \<and>
   (KexecPrepare \<in> set (tasks_of (Reset r opts)) \<longleftrightarrow>
      MachineMode r \<noteq> ModeContainer \<and> SystemDiskTargets opts \<noteq> [] \<and> BootPartitionLabel \<notin> set (SystemDiskTargets opts)) \<and>
   (KexecPrepare \<in> set (tasks_of (StageUpgrade r m)) \<longleftrightarrow> MachineMode r \<noteq> ModeContainer \<and> m = UpgradeDefault)"
proof -
  have "bootPartitionInTargets ls \<longleftrightarrow> BootPartitionLabel \<in> set ls" for ls
    by (auto simp: bootPartitionInTargets_def list_ex_iff)
  then show ?thesis by (auto simp: phase_simps reset_wipes_def reset_kexec_def)
qed

theorem teardown_order_witness:
  "take 5 (ranks (tasks_of (Upgrade \<lparr>MachineMode = ModeMetal, Installed = True, InstallStaged = False, WorkerType = True,
      ChuboBuild = True, BootloaderTag = None, WipeParam = None, HaltParam = None, DashboardDisabledParam = None\<rparr> UpgradeDefault))) = [1, 2, 3, 4, 5]"
  using teardown_order [of "\<lparr>MachineMode = ModeMetal, Installed = True, InstallStaged = False, WorkerType = True,
      ChuboBuild = True, BootloaderTag = None, WipeParam = None, HaltParam = None, DashboardDisabledParam = None\<rparr>"
      SequenceUpgrade "UpgradeRequest UpgradeDefault"]
  by (simp add: phases_of_def)

theorem ends_machine_once_witness:
  "\<exists>ts t. tasks_of (Shutdown \<lparr>MachineMode = ModeMetal, Installed = True, InstallStaged = False, WorkerType = True,
      ChuboBuild = True, BootloaderTag = None, WipeParam = None, HaltParam = None, DashboardDisabledParam = None\<rparr> True) = ts @ [t] \<and>
      t \<in> {RebootTask, ShutdownTask}"
  using ends_machine_once [of "\<lparr>MachineMode = ModeMetal, Installed = True, InstallStaged = False, WorkerType = True,
      ChuboBuild = True, BootloaderTag = None, WipeParam = None, HaltParam = None, DashboardDisabledParam = None\<rparr>"
      SequenceShutdown "ShutdownRequest True"]
  by (simp add: phases_of_def Shutdown_def Let_def Append_def) blast

end
