(* ===== verification/Controller.thy ===== *)
theory Controller
  imports Sequencer
begin

text \<open>
  How the controller runs a sequence, v1alpha1_controller.go, with the execution of the task wrappers of
  v1alpha1_sequencer_tasks.go. The tasks of a phase run concurrently; the order in which they finish is
  a parameter, as are the results of the tasks (which may depend on everything that has finished before)
  and the moments at which the context is cancelled. Log lines are left out.
\<close>

section \<open>Running a task\<close>

datatype event =
    SequenceStart Sequence
  | SequenceStop Sequence
  | SequenceNoopEvent Sequence
  | PhaseStart string
  | PhaseStop string
  | TaskRan task_setup

text \<open>The results of the tasks, the finishing order of a phase, the deferred checks and whether the
  context is still alive after a phase. The history given to them is the events so far.\<close>

record 'e task_world =
  task_result :: "event list \<Rightarrow> task \<Rightarrow> 'e option"
  finish_order :: "event list \<Rightarrow> task_setup list \<Rightarrow> task_setup list"
  check_result :: "event list \<Rightarrow> check \<Rightarrow> bool"
  ctx_alive :: "event list \<Rightarrow> bool"

datatype 'e run_error = TaskFailed 'e | ContextDone

text \<open>logError, the handler that drops the error after logging it.\<close>

definition logError :: "'e \<Rightarrow> 'e option" where
  "logError e = None"

text \<open>What pauseOnFailure does on a failure: the minutes it announces until the reboot and the minutes
  its timer runs.\<close>

definition pauseOnFailure :: "nat \<Rightarrow> 'e option \<Rightarrow> 'e option \<times> (nat \<times> nat) option" where
  "pauseOnFailure timeout err = (err, case err of None \<Rightarrow> None | Some e \<Rightarrow> Some (timeout, 5))"

definition taskErrorHandler :: "('e \<Rightarrow> 'e option) \<Rightarrow> 'e option \<Rightarrow> 'e option" where
  "taskErrorHandler handler err = (case err of None \<Rightarrow> None | Some e \<Rightarrow> handler e)"

fun run_setup :: "(task \<Rightarrow> 'e option) \<Rightarrow> task_setup \<Rightarrow> 'e option" where
  "run_setup res (Plain t) = res t"
| "run_setup res (PauseOnFailure s m) = fst (pauseOnFailure m (run_setup res s))"
| "run_setup res (TaskErrorHandler s) = taskErrorHandler logError (run_setup res s)"

section \<open>Running a phase\<close>

text \<open>The errgroup: every task runs, and the first error in the order of finishing is the result.\<close>

fun wait_group :: "'e task_world \<Rightarrow> task_setup list \<Rightarrow> event list \<Rightarrow> 'e option \<Rightarrow> 'e option \<times> event list" where
  "wait_group w [] h err = (err, h)"
| "wait_group w (s # ss) h err =
     (let r = run_setup (task_result w h) s;
          err = (case err of None \<Rightarrow> r | Some e \<Rightarrow> Some e)
      in wait_group w ss (h @ [TaskRan s]) err)"

definition runPhase :: "'e task_world \<Rightarrow> phase \<Rightarrow> event list \<Rightarrow> 'e option \<times> event list" where
  "runPhase w p h =
     (let h = h @ [PhaseStart (PhaseName p)];
          (err, h) = wait_group w (finish_order w h (PhaseTasks p)) h None
      in (err, h @ [PhaseStop (PhaseName p)]))"

section \<open>Running a sequence\<close>

fun run_phases :: "'e task_world \<Rightarrow> phase_list \<Rightarrow> event list \<Rightarrow> 'e run_error option \<times> event list" where
  "run_phases w [] h = (None, h)"
| "run_phases w (p # ps) h =
     (if (case CheckFunc p of None \<Rightarrow> False | Some c \<Rightarrow> \<not> check_result w h c) then run_phases w ps h
      else
        (let (err, h) = runPhase w p h in
         case err of
           Some e \<Rightarrow> (Some (TaskFailed e), h)
         | None \<Rightarrow> if ctx_alive w h then run_phases w ps h else (Some ContextDone, h)))"

definition run :: "'e task_world \<Rightarrow> Sequence \<Rightarrow> phase_list \<Rightarrow> event list \<Rightarrow> 'e run_error option \<times> event list" where
  "run w seq ps h =
     (let (err, h) = run_phases w ps (h @ [SequenceStart seq]) in (err, h @ [SequenceStop seq]))"

datatype 'e control_error = InvalidSequenceData | SequenceFailed "'e run_error"

text \<open>Run, with the lock held: the phases of the sequence, then their execution; a failure is
  published as an event of its own.\<close>

definition Run :: "'e task_world \<Rightarrow> machine \<Rightarrow> Sequence \<Rightarrow> seq_data \<Rightarrow> event list \<Rightarrow> 'e control_error option \<times> event list" where
  "Run w r seq data h =
     (case phases_of r seq data of
        None \<Rightarrow> (Some InvalidSequenceData, h)
      | Some ps \<Rightarrow>
          (case run w seq ps h of
             (None, h) \<Rightarrow> (None, h)
           | (Some e, h) \<Rightarrow> (Some (SequenceFailed e), h @ [SequenceNoopEvent seq])))"

section \<open>The tasks that ran\<close>

definition ran :: "event list \<Rightarrow> task_setup list" where
  "ran h = List.map_filter (\<lambda>e. case e of TaskRan s \<Rightarrow> Some s | _ \<Rightarrow> None) h"

lemma map_filter_append: "List.map_filter f (xs @ ys) = List.map_filter f xs @ List.map_filter f ys"
  by (induction xs) (simp_all add: map_filter_simps split: option.splits)

lemma ran_simps [simp]:
  "ran [] = []" "ran (h @ h') = ran h @ ran h'" "ran [TaskRan s] = [s]" "ran [PhaseStart n] = []"
  "ran [PhaseStop n] = []" "ran [SequenceStart q] = []" "ran [SequenceStop q] = []" "ran [SequenceNoopEvent q] = []"
  by (simp_all add: ran_def map_filter_append map_filter_simps)

text \<open>A finishing order is a permutation of the tasks of the phase.\<close>

definition fair_world :: "'e task_world \<Rightarrow> bool" where
  "fair_world w \<longleftrightarrow> (\<forall>h ts. mset (finish_order w h ts) = mset ts)"

lemma wait_group_ran: "ran (snd (wait_group w ss h err)) = ran h @ ss"
  by (induction ss arbitrary: h err) (simp_all add: Let_def)

text \<open>The error of a group: none exactly when no task of it fails at its turn.\<close>

lemma wait_group_keeps: "fst (wait_group w ss h (Some e)) = Some e"
  by (induction ss arbitrary: h) (simp_all add: Let_def)

lemma wait_group_none:
  "(\<And>h s. s \<in> set ss \<Longrightarrow> run_setup (task_result w h) s = None) \<Longrightarrow> fst (wait_group w ss h None) = None"
  by (induction ss arbitrary: h) (simp_all add: Let_def)

lemma runPhase_ran:
  assumes "fair_world w"
  shows "\<exists>ss. mset ss = mset (PhaseTasks p) \<and> ran (snd (runPhase w p h)) = ran h @ ss"
proof -
  let ?h = "h @ [PhaseStart (PhaseName p)]"
  let ?ss = "finish_order w ?h (PhaseTasks p)"
  have "ran (snd (runPhase w p h)) = ran h @ ?ss"
    using wait_group_ran [of w ?ss ?h None] by (simp add: runPhase_def Let_def case_prod_beta)
  with assms show ?thesis by (auto simp: fair_world_def)
qed

lemma runPhase_error:
  assumes "fair_world w" and "fst (runPhase w p h) = Some e"
  shows "\<exists>s \<in> set (PhaseTasks p). \<exists>h0. run_setup (task_result w h0) s = Some e"
proof -
  have group: "fst (wait_group w ss h0 None) = Some e \<Longrightarrow> \<exists>s \<in> set ss. \<exists>h0. run_setup (task_result w h0) s = Some e" for ss h0
  proof (induction ss arbitrary: h0)
    case Nil
    then show ?case by simp
  next
    case (Cons s ss)
    then show ?case
      by (cases "run_setup (task_result w h0) s") (auto simp: Let_def wait_group_keeps)
  qed
  let ?h = "h @ [PhaseStart (PhaseName p)]"
  have "fst (wait_group w (finish_order w ?h (PhaseTasks p)) ?h None) = Some e"
    using assms(2) by (simp add: runPhase_def Let_def case_prod_beta)
  from group [OF this] assms(1) show ?thesis
    unfolding fair_world_def by (metis mset_eq_setD)
qed

text \<open>The phases up to the end of the run.\<close>

lemma run_phases_prefix:
  assumes "fair_world w"
  shows "run_phases w ps h = (err, h') \<Longrightarrow>
    \<exists>pre rest ss. ps = pre @ rest \<and> ran h' = ran h @ ss \<and> (ps \<noteq> [] \<longrightarrow> pre \<noteq> []) \<and>
      set ss \<subseteq> (\<Union>p \<in> set pre. set (PhaseTasks p)) \<and>
      (\<forall>p \<in> set pre. CheckFunc p = None \<longrightarrow> set (PhaseTasks p) \<subseteq> set ss) \<and>
      (err = None \<longrightarrow> rest = []) \<and>
      (\<forall>e. err = Some (TaskFailed e) \<longrightarrow>
         pre \<noteq> [] \<and> (\<exists>s \<in> set (PhaseTasks (last pre)). \<exists>h0. run_setup (task_result w h0) s = Some e))"
proof (induction ps arbitrary: h)
  case Nil
  then show ?case by simp
next
  case (Cons p ps)
  show ?case
  proof (cases "case CheckFunc p of None \<Rightarrow> False | Some c \<Rightarrow> \<not> check_result w h c")
    case True
    with Cons.prems have "run_phases w ps h = (err, h')" by simp
    from Cons.IH [OF this] obtain pre rest ss where *:
      "ps = pre @ rest" "ran h' = ran h @ ss" "set ss \<subseteq> (\<Union>p \<in> set pre. set (PhaseTasks p))"
      "\<forall>p \<in> set pre. CheckFunc p = None \<longrightarrow> set (PhaseTasks p) \<subseteq> set ss" "err = None \<longrightarrow> rest = []"
      "\<forall>e. err = Some (TaskFailed e) \<longrightarrow> pre \<noteq> [] \<and> (\<exists>s \<in> set (PhaseTasks (last pre)). \<exists>h0. run_setup (task_result w h0) s = Some e)"
      by blast
    moreover have "CheckFunc p \<noteq> None" using True by (auto split: option.splits)
    ultimately show ?thesis
      by (intro exI [of _ "p # pre"] exI [of _ rest] exI [of _ ss]) auto
  next
    case False
    obtain perr h1 where ph: "runPhase w p h = (perr, h1)" by (cases "runPhase w p h")
    from runPhase_ran [OF assms, of p h] ph obtain s1
      where s1: "mset s1 = mset (PhaseTasks p)" "ran h1 = ran h @ s1" by auto
    from s1(1) have set1: "set s1 = set (PhaseTasks p)" by (rule mset_eq_setD)
    show ?thesis
    proof (cases "perr = None \<and> ctx_alive w h1")
      case True
      with Cons.prems False ph have "run_phases w ps h1 = (err, h')" by simp
      from Cons.IH [OF this] obtain pre rest ss where *:
        "ps = pre @ rest" "ran h' = ran h1 @ ss" "set ss \<subseteq> (\<Union>p \<in> set pre. set (PhaseTasks p))"
        "\<forall>p \<in> set pre. CheckFunc p = None \<longrightarrow> set (PhaseTasks p) \<subseteq> set ss" "err = None \<longrightarrow> rest = []"
        "\<forall>e. err = Some (TaskFailed e) \<longrightarrow> pre \<noteq> [] \<and> (\<exists>s \<in> set (PhaseTasks (last pre)). \<exists>h0. run_setup (task_result w h0) s = Some e)"
        by blast
      with s1(2) set1 show ?thesis
        by (intro exI [of _ "p # pre"] exI [of _ rest] exI [of _ "s1 @ ss"]) auto
    next
      case stop: False
      with Cons.prems False ph have "h' = h1" "err \<noteq> None"
        "\<forall>e. err = Some (TaskFailed e) \<longrightarrow> perr = Some e" by (auto split: option.splits if_splits)
      with s1(2) set1 ph runPhase_error [OF assms, of p h] show ?thesis
        by (intro exI [of _ "[p]"] exI [of _ ps] exI [of _ s1]) auto
    qed
  qed
qed

text \<open>A phase is reached when every phase before it is without a check and cannot fail.\<close>

lemma runPhase_ok:
  assumes "fair_world w" and "\<And>h s. s \<in> set (PhaseTasks p) \<Longrightarrow> run_setup (task_result w h) s = None"
  shows "fst (runPhase w p h) = None"
proof -
  let ?h = "h @ [PhaseStart (PhaseName p)]"
  have "set (finish_order w ?h (PhaseTasks p)) = set (PhaseTasks p)"
    using assms(1) unfolding fair_world_def by (metis mset_eq_setD)
  then have "fst (wait_group w (finish_order w ?h (PhaseTasks p)) ?h None) = None"
    by (intro wait_group_none) (auto intro: assms(2))
  then show ?thesis by (simp add: runPhase_def Let_def case_prod_beta)
qed

lemma run_phases_reaches:
  assumes "fair_world w" and "\<And>h. ctx_alive w h"
  shows "\<forall>q \<in> set xs. CheckFunc q = None \<and> (\<forall>h. \<forall>s \<in> set (PhaseTasks q). run_setup (task_result w h) s = None) \<Longrightarrow>
    CheckFunc p = None \<Longrightarrow> set (PhaseTasks p) \<subseteq> set (ran (snd (run_phases w (xs @ p # ys) h)))"
proof (induction xs arbitrary: h)
  case Nil
  obtain err h' where run: "run_phases w (p # ys) h = (err, h')" by (cases "run_phases w (p # ys) h")
  from run_phases_prefix [OF assms(1) run] obtain pre rest ss where
    *: "p # ys = pre @ rest" "ran h' = ran h @ ss" "\<forall>p \<in> set pre. CheckFunc p = None \<longrightarrow> set (PhaseTasks p) \<subseteq> set ss"
    "pre \<noteq> []"
    by blast
  with Nil run show ?case by (cases pre) auto
next
  case (Cons q xs)
  then have "fst (runPhase w q h) = None" by (intro runPhase_ok assms(1)) auto
  with Cons assms(2) show ?case by (simp add: case_prod_beta Let_def)
qed


section \<open>Properties\<close>

text \<open>A sequence stops at the first failing phase: the tasks that run are those of an initial part
  of the phase list, all tasks of each of its unconditional phases included; when the run succeeds this
  is the whole list; when a task fails, the error comes from a task of the last phase of that part, so
  no task of a later phase has run.\<close>

theorem run_stops_at_failure:
  assumes "fair_world w" and "run w seq ps [] = (err, h)"
  shows "\<exists>pre rest. ps = pre @ rest \<and> set (ran h) \<subseteq> (\<Union>p \<in> set pre. set (PhaseTasks p)) \<and>
    (\<forall>p \<in> set pre. CheckFunc p = None \<longrightarrow> set (PhaseTasks p) \<subseteq> set (ran h)) \<and>
    (err = None \<longrightarrow> rest = []) \<and>
    (\<forall>e. err = Some (TaskFailed e) \<longrightarrow>
       pre \<noteq> [] \<and> (\<exists>s \<in> set (PhaseTasks (last pre)). \<exists>h0. run_setup (task_result w h0) s = Some e))"
proof -
  let ?start = "[SequenceStart seq]"
  have run: "run_phases w ps ?start = (err, snd (run_phases w ps ?start))"
    and h: "ran h = ran (snd (run_phases w ps ?start))"
    using assms(2) by (cases "run_phases w ps ?start"; auto simp: run_def)+
  from run_phases_prefix [OF assms(1) run] obtain pre rest ss where
    *: "ps = pre @ rest" "ran (snd (run_phases w ps ?start)) = ran ?start @ ss"
      "set ss \<subseteq> (\<Union>p \<in> set pre. set (PhaseTasks p))"
      "\<forall>p \<in> set pre. CheckFunc p = None \<longrightarrow> set (PhaseTasks p) \<subseteq> set ss" "err = None \<longrightarrow> rest = []"
      "\<forall>e. err = Some (TaskFailed e) \<longrightarrow> pre \<noteq> [] \<and> (\<exists>s \<in> set (PhaseTasks (last pre)). \<exists>h0. run_setup (task_result w h0) s = Some e)"
    by blast
  from *(2) h have "ran h = ss" by simp
  with * show ?thesis by blast
qed

text \<open>The tasks whose failure a reset tolerates are wrapped with logError; four tasks before the wipe are
  not.\<close>

definition reset_mandatory :: "task set" where
  "reset_mandatory = {StopDBus, LeaveClusterMembership, SendResetSignal, ForceCleanup}"

lemma tolerated: "run_setup res (TaskErrorHandler s) = None"
  by (simp add: taskErrorHandler_def logError_def split: option.splits)

text \<open>The phases of a reset before the wipe.\<close>

definition reset_prefix :: "machine \<Rightarrow> reset_options \<Rightarrow> phase_list" where
  "reset_prefix r opts =
     (let p = AppendWhen [] (Graceful opts) ''drain'' [TaskErrorHandler (Plain CordonAndDrainNode)];
          p = AppendWhen p (Graceful opts) ''cleanup'' [TaskErrorHandler (Plain RemoveAllPods)];
          p = AppendWhen p (\<not> Graceful opts) ''cleanup'' [TaskErrorHandler (Plain StopAllPods)];
          p = Append p ''dbus'' [Plain StopDBus];
          p = AppendWhen p (Graceful opts \<and> shouldRunLeavePhase r) ''leave'' [Plain LeaveClusterMembership];
          p = Append p ''preReset'' [Plain SendResetSignal];
          p = AppendList p (phaseListErrorHandler (stopAllPhaselist r (SystemDiskTargets opts \<noteq> [] \<and> \<not> bootPartitionInTargets (SystemDiskTargets opts))))
      in Append p ''forceCleanup'' [Plain ForceCleanup])"

lemma AppendWhen_const: "AppendWhen p True n ts = Append p n ts" "AppendWhen p False n ts = p"
  by (simp_all add: AppendWhen_def)

lemma Reset_wipe_phase:
  assumes "MachineMode r \<noteq> ModeContainer" and "SystemDiskTargets opts = []" and "WipeMode opts \<noteq> WipeUserDisks"
  shows "\<exists>ys. Reset r opts =
    reset_prefix r opts @ \<lparr>PhaseName = ''reset'', PhaseTasks = [Plain ResetSystemDisk], CheckFunc = None\<rparr> # ys"
proof -
  have wipes: "WipeMode opts = WipeAll \<or> WipeMode opts = WipeSystemDisk" using assms(3) by (cases "WipeMode opts") auto
  have "Reset r opts = AppendWhen (AppendWhen (AppendWhen (Append (reset_prefix r opts) ''reset'' [Plain ResetSystemDisk])
      (UserDisksToWipe opts \<noteq> [] \<and> (WipeMode opts = WipeAll \<or> WipeMode opts = WipeUserDisks)) ''resetUserDisks'' [Plain ResetUserDisks])
      (ResetReboot opts) ''reboot'' [Plain RebootTask]) (\<not> ResetReboot opts) ''shutdown'' [Plain ShutdownTask]"
    using assms wipes by (simp add: Reset_def reset_prefix_def Let_def AppendWhen_const)
  then show ?thesis by (auto simp: Append_def AppendWhen_def)
qed

lemma reset_prefix_tolerant:
  "\<forall>q \<in> set (reset_prefix r opts). CheckFunc q = None \<and>
     (\<forall>s \<in> set (PhaseTasks q). (\<exists>s'. s = TaskErrorHandler s') \<or> (\<exists>t \<in> reset_mandatory. s = Plain t))"
proof -
  have handled: "\<forall>q \<in> set (phaseListErrorHandler (stopAllPhaselist r k)). CheckFunc q = None \<and> (\<forall>s \<in> set (PhaseTasks q). \<exists>s'. s = TaskErrorHandler s')" for k
    by (auto simp: phaseListErrorHandler_def stopAllPhaselist_def Append_def AppendWhen_def Let_def)
  show ?thesis
    using handled by (auto simp: reset_prefix_def Let_def Append_def AppendWhen_def AppendList_def reset_mandatory_def split: if_splits)
qed

text \<open>A reset reaches the wipe: outside of a container, whatever fails of draining, stopping pods and
  services, unmounting, tearing down the volumes and preparing kexec, the system disk is wiped when that
  is what the request asks for, provided that stopping D-Bus, leaving the cluster, the reset signal and
  the forced cleanup succeed.\<close>

theorem reset_reaches_wipe:
  assumes "fair_world w" and "\<forall>h. ctx_alive w h" and "MachineMode r \<noteq> ModeContainer"
    and "\<forall>h. \<forall>t \<in> reset_mandatory. task_result w h t = None"
    and "SystemDiskTargets opts = []" and "WipeMode opts \<noteq> WipeUserDisks"
  shows "Plain ResetSystemDisk \<in> set (ran (snd (run w SequenceReset (Reset r opts) [])))"
proof -
  let ?wipe = "\<lparr>PhaseName = ''reset'', PhaseTasks = [Plain ResetSystemDisk], CheckFunc = None\<rparr>"
  from Reset_wipe_phase [OF assms(3,5,6)] obtain ys where eq: "Reset r opts = reset_prefix r opts @ ?wipe # ys" by blast
  let ?xs = "reset_prefix r opts"
  have "\<forall>q \<in> set ?xs. CheckFunc q = None \<and> (\<forall>h. \<forall>s \<in> set (PhaseTasks q). run_setup (task_result w h) s = None)"
  proof (intro ballI conjI allI)
    fix q assume q: "q \<in> set ?xs"
    with reset_prefix_tolerant show "CheckFunc q = None" by blast
    fix h s assume "s \<in> set (PhaseTasks q)"
    with q reset_prefix_tolerant consider s' where "s = TaskErrorHandler s'" | t where "t \<in> reset_mandatory" "s = Plain t" by blast
    then show "run_setup (task_result w h) s = None" by cases (use assms(4) in \<open>auto simp: tolerated simp del: run_setup.simps(3)\<close>)
  qed
  from run_phases_reaches [OF assms(1) _ this, of ?wipe ys "[SequenceStart SequenceReset]"] assms(2) eq
  show ?thesis by (simp add: run_def case_prod_beta)
qed

text \<open>PauseOnFailure keeps the error of its task but not its promise: a failed task of Boot is
  announced to reboot in FailurePauseTimeout (35) minutes, and the timer runs 5 minutes whatever the
  timeout is.\<close>

theorem pause_ignores_timeout:
  "pauseOnFailure timeout (Some e) = (Some e, Some (timeout, 5)) \<and>
   pauseOnFailure FailurePauseTimeout (Some e) = (Some e, Some (35, 5)) \<and>
   (\<forall>res t. run_setup res (PauseOnFailure (Plain t) timeout) = res t)"
  by (simp add: pauseOnFailure_def FailurePauseTimeout_def)

text \<open>Witnesses: a world in which everything that a reset tolerates fails.\<close>

definition failing_world :: "string task_world" where
  "failing_world = \<lparr>task_result = (\<lambda>h t. if t \<in> reset_mandatory then None else Some ''failed''),
     finish_order = (\<lambda>h ts. ts), check_result = (\<lambda>h c. True), ctx_alive = (\<lambda>h. True)\<rparr>"

definition demo_machine :: machine where
  "demo_machine = \<lparr>MachineMode = ModeMetal, Installed = True, InstallStaged = False, WorkerType = False,
     ChuboBuild = True, BootloaderTag = None, WipeParam = None, HaltParam = None, DashboardDisabledParam = None\<rparr>"

definition demo_reset :: reset_options where
  "demo_reset = \<lparr>Graceful = True, ResetReboot = True, WipeMode = WipeAll, UserDisksToWipe = [], SystemDiskTargets = []\<rparr>"

lemma failing_fair: "fair_world failing_world"
  by (simp add: fair_world_def failing_world_def)

theorem run_stops_at_failure_witness:
  "Plain RebootTask \<notin> set (ran (snd (run failing_world SequenceInstall
      [\<lparr>PhaseName = ''install'', PhaseTasks = [Plain InstallTask], CheckFunc = None\<rparr>,
       \<lparr>PhaseName = ''reboot'', PhaseTasks = [Plain RebootTask], CheckFunc = None\<rparr>] [])))"
proof -
  let ?ps = "[\<lparr>PhaseName = ''install'', PhaseTasks = [Plain InstallTask], CheckFunc = None\<rparr>,
       \<lparr>PhaseName = ''reboot'', PhaseTasks = [Plain RebootTask], CheckFunc = None\<rparr>]"
  have run: "run failing_world SequenceInstall ?ps [] = (Some (TaskFailed ''failed''),
      [SequenceStart SequenceInstall, PhaseStart ''install'', TaskRan (Plain InstallTask), PhaseStop ''install'', SequenceStop SequenceInstall])"
    by (simp add: run_def runPhase_def failing_world_def reset_mandatory_def)
  from run_stops_at_failure [OF failing_fair run] run show ?thesis
    by (simp add: ran_def map_filter_simps)
qed

theorem reset_reaches_wipe_witness:
  "Plain ResetSystemDisk \<in> set (ran (snd (run failing_world SequenceReset (Reset demo_machine demo_reset) [])))"
  using reset_reaches_wipe [OF failing_fair, of demo_machine demo_reset]
  by (simp add: failing_world_def demo_machine_def demo_reset_def)

end
