(* ===== verification/ServiceEvents.thy ===== *)
theory ServiceEvents
  imports Prelude
begin

text \<open>
  The bookkeeping of one service: its health (system/health/status.go and check.go) and the ring of its
  last events (system/events/events.go). Times are numbers given to the operations; a channel is a
  number, and what a non-blocking send does to it depends on the room in its buffer.
\<close>

section \<open>Channels and lists of subscribers\<close>

text \<open>A buffered channel and a send in a select with a default case.\<close>

definition try_send :: "nat \<Rightarrow> (nat \<Rightarrow> 'm list) \<Rightarrow> nat \<Rightarrow> 'm \<Rightarrow> (nat \<Rightarrow> 'm list)" where
  "try_send cap chans ch m = (if length (chans ch) < cap then chans(ch := chans ch @ [m]) else chans)"

fun send_all :: "nat \<Rightarrow> (nat \<Rightarrow> 'm list) \<Rightarrow> nat list \<Rightarrow> 'm \<Rightarrow> (nat \<Rightarrow> 'm list)" where
  "send_all cap chans [] m = chans"
| "send_all cap chans (ch # chs) m = send_all cap (try_send cap chans ch m) chs m"

text \<open>The loop of Unsubscribe: a match is overwritten with the last element and the list shrinks;
  the index stays where it is.\<close>

function unsubscribe_loop :: "'c \<Rightarrow> nat \<Rightarrow> 'c list \<Rightarrow> 'c list" where
  "unsubscribe_loop ch i subs =
     (if i < length subs then
        (if subs ! i = ch then unsubscribe_loop ch i (butlast (subs[i := last subs]))
         else unsubscribe_loop ch (i + 1) subs)
      else subs)"
  by pat_completeness auto
termination
  by (relation "measure (\<lambda>(ch, i, subs). length subs - i)") auto

declare unsubscribe_loop.simps [simp del]

section \<open>Health\<close>

record status =
  Healthy :: "bool option"
  LastChange :: nat
  LastMessage :: string

record state_change =
  Old :: status
  New :: status

record health_state =
  HStatus :: status
  Subscribers :: "nat list"

definition health_Update ::
    "nat \<Rightarrow> nat \<Rightarrow> bool \<Rightarrow> string \<Rightarrow> health_state \<Rightarrow> (nat \<Rightarrow> state_change list) \<Rightarrow>
       health_state \<times> (nat \<Rightarrow> state_change list)" where
  "health_Update now cap healthy message st chans =
     (let oldStatus = HStatus st;
          notify = (Healthy (HStatus st) \<noteq> Some healthy);
          status = (if notify then (HStatus st)\<lparr>Healthy := Some healthy, LastChange := now\<rparr> else HStatus st);
          newStatus = status\<lparr>LastMessage := message\<rparr>;
          subscribers = (if notify then Subscribers st else [])
      in (st\<lparr>HStatus := newStatus\<rparr>,
          if notify then send_all cap chans subscribers \<lparr>Old = oldStatus, New = newStatus\<rparr> else chans))"

definition health_Subscribe :: "nat \<Rightarrow> health_state \<Rightarrow> health_state" where
  "health_Subscribe ch st = st\<lparr>Subscribers := Subscribers st @ [ch]\<rparr>"

definition health_Unsubscribe :: "nat \<Rightarrow> health_state \<Rightarrow> health_state" where
  "health_Unsubscribe ch st = st\<lparr>Subscribers := unsubscribe_loop ch 0 (Subscribers st)\<rparr>"

definition health_Init :: "nat \<Rightarrow> health_state \<Rightarrow> health_state" where
  "health_Init now st = st\<lparr>HStatus := \<lparr>Healthy = None, LastChange = now, LastMessage = ''Unknown''\<rparr>\<rparr>"

text \<open>health.Run up to the cancellation of its context: the checks it gets to do, each with its time
  and its error, if any.\<close>

fun health_checks ::
    "nat \<Rightarrow> (nat \<times> string option) list \<Rightarrow> health_state \<Rightarrow> (nat \<Rightarrow> state_change list) \<Rightarrow>
       health_state \<times> (nat \<Rightarrow> state_change list)" where
  "health_checks cap [] st chans = (st, chans)"
| "health_checks cap ((now, err) # checks) st chans =
     (let healthy = (err = None);
          message = (case err of None \<Rightarrow> '''' | Some e \<Rightarrow> e);
          (st, chans) = health_Update now cap healthy message st chans
      in health_checks cap checks st chans)"

definition health_Run ::
    "nat \<Rightarrow> nat \<Rightarrow> (nat \<times> string option) list \<Rightarrow> health_state \<Rightarrow> (nat \<Rightarrow> state_change list) \<Rightarrow>
       health_state \<times> (nat \<Rightarrow> state_change list)" where
  "health_Run now cap checks st chans = health_checks cap checks (health_Init now st) chans"

section \<open>Service states and events\<close>

datatype ServiceState =
    StateInitialized
  | StatePreparing
  | StateWaiting
  | StateRunning
  | StateStopping
  | StateFinished
  | StateFailed
  | StateSkipped
  | StateStarting

fun StateString :: "ServiceState \<Rightarrow> string" where
  "StateString StateInitialized = ''Initialized''"
| "StateString StateStarting = ''Starting''"
| "StateString StatePreparing = ''Preparing''"
| "StateString StateWaiting = ''Waiting''"
| "StateString StateRunning = ''Running''"
| "StateString StateStopping = ''Stopping''"
| "StateString StateFinished = ''Finished''"
| "StateString StateFailed = ''Failed''"
| "StateString StateSkipped = ''Skipped''"

record service_event =
  Message :: string
  EvState :: ServiceState
  EvHealth :: status
  Timestamp :: nat

text \<open>The zero values of Go.\<close>

definition zero_status :: status where
  "zero_status = \<lparr>Healthy = None, LastChange = 0, LastMessage = ''''\<rparr>"

definition zero_event :: service_event where
  "zero_event = \<lparr>Message = '''', EvState = StateInitialized, EvHealth = zero_status, Timestamp = 0\<rparr>"

definition MaxEventsToKeep :: nat where
  "MaxEventsToKeep = 64"

record service_events =
  Ring :: "service_event list"
  Pos :: nat
  Discarded :: u64

definition no_events :: service_events where
  "no_events = \<lparr>Ring = [], Pos = 0, Discarded = 0\<rparr>"

definition Push :: "service_event \<Rightarrow> service_events \<Rightarrow> service_events" where
  "Push event s =
     (let es = (if Ring s = [] then replicate MaxEventsToKeep zero_event else Ring s);
          d = (if Message (es ! Pos s) \<noteq> '''' then Discarded s + 1 else Discarded s)
      in s\<lparr>Ring := es[Pos s := event], Pos := (Pos s + 1) mod length es, Discarded := d\<rparr>)"

fun get_loop :: "service_event list \<Rightarrow> nat \<Rightarrow> nat \<Rightarrow> service_event list" where
  "get_loop es i 0 = []"
| "get_loop es i (Suc cnt) =
     (if Message (es ! i) \<noteq> '''' then [es ! i] else []) @ get_loop es ((i + 1) mod length es) cnt"

definition Get :: "int \<Rightarrow> service_events \<Rightarrow> service_event list" where
  "Get cnt s =
     (if Ring s = [] then []
      else
        (let cnt = (if cnt > int MaxEventsToKeep then int MaxEventsToKeep else cnt);
             n = length (Ring s)
         in get_loop (Ring s) (nat ((int (Pos s) - cnt + int n) mod int n)) (nat cnt)))"

text \<open>AsProto: the message, the name of the state and the time of every event.\<close>

definition AsProto :: "int \<Rightarrow> service_events \<Rightarrow> (string \<times> string \<times> nat) list" where
  "AsProto cnt s = map (\<lambda>e. (Message e, StateString (EvState e), Timestamp e)) (Get cnt s)"

section \<open>Lemmas\<close>

lemma butlast_overwrite:
  assumes "i < length xs"
  shows "mset (butlast (xs[i := last xs])) + {#xs ! i#} = mset xs"
proof -
  from assms obtain ys y where xs: "xs = ys @ [y]" by (metis append_butlast_last_id length_greater_0_conv not_less_zero list.size(3))
  show ?thesis
  proof (cases "i = length ys")
    case True
    with xs show ?thesis by (simp add: list_update_append)
  next
    case False
    with assms xs have "i < length ys" by simp
    with xs show ?thesis by (simp add: list_update_append mset_update nth_append)
  qed
qed

text \<open>Unsubscribe removes every occurrence of the channel and nothing else.\<close>

lemma unsubscribe_loop_mset:
  "(\<forall>j < i. j < length subs \<longrightarrow> subs ! j \<noteq> ch) \<Longrightarrow>
     mset (unsubscribe_loop ch i subs) = filter_mset (\<lambda>c. c \<noteq> ch) (mset subs)"
proof (induction ch i subs rule: unsubscribe_loop.induct)
  case (1 ch i subs)
  show ?case
  proof (cases "i < length subs")
    case False
    have "c \<noteq> ch" if "c \<in> set subs" for c
    proof -
      from that obtain j where "j < length subs" "subs ! j = c" by (auto simp: in_set_conv_nth)
      moreover have "j < i" using False \<open>j < length subs\<close> by simp
      ultimately show ?thesis using "1.prems" by auto
    qed
    then have "filter_mset (\<lambda>c. c \<noteq> ch) (mset subs) = mset subs"
      by (auto simp: filter_mset_eq_conv)
    with False show ?thesis by (simp add: unsubscribe_loop.simps [of ch i subs])
  next
    case True
    show ?thesis
    proof (cases "subs ! i = ch")
      case same: True
      let ?subs = "butlast (subs[i := last subs])"
      have prefix: "\<forall>j < i. j < length ?subs \<longrightarrow> ?subs ! j \<noteq> ch"
        using "1.prems" by (auto simp: nth_butlast)
      have "mset (unsubscribe_loop ch i subs) = filter_mset (\<lambda>c. c \<noteq> ch) (mset ?subs)"
        using True same "1.IH"(1) [OF True same prefix] by (simp add: unsubscribe_loop.simps [of ch i subs])
      also have "\<dots> = filter_mset (\<lambda>c. c \<noteq> ch) (mset ?subs + {#subs ! i#})" using same by simp
      finally show ?thesis by (simp only: butlast_overwrite [OF True])
    next
      case other: False
      have "\<forall>j < i + 1. j < length subs \<longrightarrow> subs ! j \<noteq> ch"
        using "1.prems" other by (auto simp: less_Suc_eq)
      with True other "1.IH"(2) show ?thesis by (simp add: unsubscribe_loop.simps [of ch i subs])
    qed
  qed
qed

lemma unsubscribe_all: "mset (unsubscribe_loop ch 0 subs) = filter_mset (\<lambda>c. c \<noteq> ch) (mset subs)"
  by (rule unsubscribe_loop_mset) simp

lemma unsubscribe_set: "set (unsubscribe_loop ch 0 subs) = set subs - {ch}"
  using arg_cong [OF unsubscribe_all [of ch subs], of set_mset] by auto

text \<open>The ring, rotated to its position, is the tail of the history padded with zero events.\<close>

lemma rotate_push:
  assumes "p < length xs"
  shows "rotate (Suc p) (xs[p := v]) = tl (rotate p xs) @ [v]"
proof -
  have drop: "drop p (xs[p := v]) = v # drop (Suc p) xs"
    using assms Cons_nth_drop_Suc [of p "xs[p := v]"] by simp
  have "rotate p (xs[p := v]) = v # drop (Suc p) xs @ take p xs"
    using assms drop by (simp add: rotate_drop_take)
  moreover have "rotate p xs = xs ! p # drop (Suc p) xs @ take p xs"
    using assms by (simp add: rotate_drop_take Cons_nth_drop_Suc [symmetric])
  ultimately show ?thesis by (simp add: rotate1_hd_tl)
qed

definition ring_of :: "service_event list \<Rightarrow> service_events \<Rightarrow> bool" where
  "ring_of hist s \<longleftrightarrow>
     (Ring s = [] \<and> hist = [] \<and> Pos s = 0) \<or>
     (length (Ring s) = MaxEventsToKeep \<and> Pos s < MaxEventsToKeep \<and>
      rotate (Pos s) (Ring s) = drop (length hist) (replicate MaxEventsToKeep zero_event @ hist))"

lemma ring_of_Push:
  assumes "ring_of hist s"
  shows "ring_of (hist @ [e]) (Push e s)"
proof -
  let ?es = "if Ring s = [] then replicate MaxEventsToKeep zero_event else Ring s"
  have len: "length ?es = MaxEventsToKeep" and pos: "Pos s < MaxEventsToKeep"
    and rot: "rotate (Pos s) ?es = drop (length hist) (replicate MaxEventsToKeep zero_event @ hist)"
    using assms by (auto simp: ring_of_def MaxEventsToKeep_def)
  have "rotate ((Pos s + 1) mod length ?es) (?es[Pos s := e]) = rotate (Suc (Pos s)) (?es[Pos s := e])"
    using rotate_conv_mod [of "Suc (Pos s)" "?es[Pos s := e]"] by simp
  also have "\<dots> = tl (rotate (Pos s) ?es) @ [e]" using pos len by (intro rotate_push) simp
  also have "\<dots> = drop (length (hist @ [e])) (replicate MaxEventsToKeep zero_event @ hist @ [e])"
  proof -
    let ?L = "replicate MaxEventsToKeep zero_event @ hist"
    have "tl (drop (length hist) ?L) = drop (Suc (length hist)) ?L" by (simp only: drop_Suc tl_drop)
    moreover have "Suc (length hist) \<le> length ?L" by (simp add: MaxEventsToKeep_def)
    then have "drop (Suc (length hist)) (?L @ [e]) = drop (Suc (length hist)) ?L @ [e]" by (simp only: drop_append diff_is_0_eq' drop_0)
    ultimately show ?thesis using rot by (simp del: drop_append)
  qed
  finally show ?thesis
    using len by (simp add: ring_of_def Push_def Let_def MaxEventsToKeep_def)
qed

lemma ring_of_history: "ring_of hist (foldl (\<lambda>s e. Push e s) no_events hist)"
proof (induction hist rule: rev_induct)
  case Nil
  then show ?case by (simp add: ring_of_def no_events_def)
next
  case (snoc e hist)
  then show ?case by (simp add: ring_of_Push)
qed

lemma get_loop_rotate:
  "i < length es \<Longrightarrow> k \<le> length es \<Longrightarrow>
     get_loop es i k = filter (\<lambda>e. Message e \<noteq> '''') (take k (rotate i es))"
proof (induction k arbitrary: i)
  case 0
  then show ?case by simp
next
  case (Suc k)
  have ne: "es \<noteq> []" using Suc.prems by auto
  have head: "rotate i es = es ! i # tl (rotate i es)"
    using Suc.prems ne hd_rotate_conv_nth [OF ne, of i] by (metis hd_Cons_tl mod_less rotate_is_Nil_conv)
  have "rotate ((i + 1) mod length es) es = tl (rotate i es) @ [es ! i]"
    using rotate_conv_mod [of "Suc i" es] head by (metis Suc_eq_plus1 list.sel(1,3) rotate1.simps(2) rotate_Suc)
  moreover have "k \<le> length (tl (rotate i es))" using Suc.prems by simp
  ultimately have tail: "take k (rotate ((i + 1) mod length es) es) = take k (tl (rotate i es))" by simp
  have "get_loop es ((i + 1) mod length es) k = filter (\<lambda>e. Message e \<noteq> '''') (take k (tl (rotate i es)))"
    using Suc.IH [of "(i + 1) mod length es"] Suc.prems ne tail by simp
  moreover have "take (Suc k) (rotate i es) = es ! i # take k (tl (rotate i es))" by (subst head) simp
  ultimately show ?case by simp
qed


text \<open>The slot that the next event overwrites holds the event 64 before it, or nothing.\<close>

lemma overwritten:
  assumes "ring_of hist s"
  shows "(if Ring s = [] then replicate MaxEventsToKeep zero_event else Ring s) ! Pos s =
    (if length hist < MaxEventsToKeep then zero_event else hist ! (length hist - MaxEventsToKeep))"
proof -
  let ?es = "if Ring s = [] then replicate MaxEventsToKeep zero_event else Ring s"
  have len: "length ?es = MaxEventsToKeep" and pos: "Pos s < MaxEventsToKeep"
    and rot: "rotate (Pos s) ?es = drop (length hist) (replicate MaxEventsToKeep zero_event @ hist)"
    using assms by (auto simp: ring_of_def MaxEventsToKeep_def)
  have ne: "?es \<noteq> []" using len by (auto simp: MaxEventsToKeep_def)
  have "?es ! Pos s = hd (rotate (Pos s) ?es)" using hd_rotate_conv_nth [OF ne, of "Pos s"] len pos by simp
  also have "\<dots> = (replicate MaxEventsToKeep zero_event @ hist) ! length hist"
    unfolding rot by (rule hd_drop_conv_nth) (simp add: MaxEventsToKeep_def)
  finally show ?thesis by (simp add: nth_append)
qed

lemma Discarded_Push:
  assumes "ring_of hist s"
  shows "Discarded (Push e s) =
    (if length hist < MaxEventsToKeep \<or> Message (hist ! (length hist - MaxEventsToKeep)) = ''''
     then Discarded s else Discarded s + 1)"
  using overwritten [OF assms] by (simp add: Push_def Let_def zero_event_def)

lemma Discarded_history:
  "\<forall>e \<in> set hist. Message e \<noteq> '''' \<Longrightarrow>
     Discarded (foldl (\<lambda>s e. Push e s) no_events hist) = of_nat (length hist - MaxEventsToKeep)"
proof (induction hist rule: rev_induct)
  case Nil
  then show ?case by (simp add: no_events_def)
next
  case (snoc e hist)
  let ?s = "foldl (\<lambda>s e. Push e s) no_events hist"
  have d: "Discarded ?s = of_nat (length hist - MaxEventsToKeep)" using snoc by simp
  have "Discarded (Push e ?s) =
      (if length hist < MaxEventsToKeep \<or> Message (hist ! (length hist - MaxEventsToKeep)) = ''''
       then Discarded ?s else Discarded ?s + 1)"
    by (rule Discarded_Push) (rule ring_of_history)
  moreover have "Message (hist ! (length hist - MaxEventsToKeep)) \<noteq> ''''" if "\<not> length hist < MaxEventsToKeep"
    using that snoc.prems by (simp add: MaxEventsToKeep_def)
  ultimately show ?case using d by (cases "length hist < MaxEventsToKeep") (simp_all add: Suc_diff_le not_less)
qed

text \<open>What Get reads off a ring that holds a history.\<close>

lemma Get_ring_of:
  assumes ring: "ring_of hist s"
  shows "Get n s = filter (\<lambda>e. Message e \<noteq> '''') (drop (length hist - min (nat n) MaxEventsToKeep) hist)"
proof (cases "Ring s = []")
  case True
  with ring have "hist = []" by (auto simp: ring_of_def MaxEventsToKeep_def)
  with True show ?thesis by (simp add: Get_def)
next
  case False
  with ring have len: "length (Ring s) = MaxEventsToKeep" and pos: "Pos s < MaxEventsToKeep"
    and rot: "rotate (Pos s) (Ring s) = drop (length hist) (replicate MaxEventsToKeep zero_event @ hist)"
    by (auto simp: ring_of_def)
  define c where "c = min (nat n) MaxEventsToKeep"
  have c: "c \<le> MaxEventsToKeep" by (simp add: c_def)
  show ?thesis
  proof (cases "n \<le> 0")
    case True
    with False show ?thesis by (simp add: Get_def Let_def MaxEventsToKeep_def)
  next
    case n: False
    then have m: "(if n > int MaxEventsToKeep then int MaxEventsToKeep else n) = int c" by (simp add: c_def)
    define i where "i = (Pos s + (MaxEventsToKeep - c)) mod MaxEventsToKeep"
    have "nat ((int (Pos s) - int c + int MaxEventsToKeep) mod int MaxEventsToKeep) = i"
    proof -
      have "int (Pos s) - int c + int MaxEventsToKeep = int (Pos s + (MaxEventsToKeep - c))" using c by simp
      then show ?thesis unfolding i_def by (simp only: zmod_int [symmetric] nat_int)
    qed
    then have "Get n s = get_loop (Ring s) i c"
      using False len by (simp add: Get_def Let_def m)
    also have "\<dots> = filter (\<lambda>e. Message e \<noteq> '''') (take c (rotate i (Ring s)))"
      using len c by (intro get_loop_rotate) (simp_all add: i_def MaxEventsToKeep_def)
    also have "rotate i (Ring s) = rotate (MaxEventsToKeep - c) (rotate (Pos s) (Ring s))"
      unfolding i_def using len rotate_conv_mod [of "Pos s + (MaxEventsToKeep - c)" "Ring s"]
      by (simp add: rotate_rotate add.commute)
    also have "take c \<dots> = drop (MaxEventsToKeep - c) (rotate (Pos s) (Ring s))"
    proof -
      let ?R = "rotate (Pos s) (Ring s)"
      have "rotate (MaxEventsToKeep - c) ?R = drop (MaxEventsToKeep - c) ?R @ take (MaxEventsToKeep - c) ?R"
      proof (cases "c = 0")
        case True
        with len show ?thesis by simp
      next
        case False
        then have "MaxEventsToKeep - c < length ?R" using len by (simp add: MaxEventsToKeep_def)
        then show ?thesis by (simp add: rotate_drop_take)
      qed
      then show ?thesis using len c by simp
    qed
    also have "\<dots> = drop (length hist + (MaxEventsToKeep - c)) (replicate MaxEventsToKeep zero_event @ hist)"
      by (simp only: rot drop_drop add.commute)
    also have "filter (\<lambda>e. Message e \<noteq> '''') \<dots> = filter (\<lambda>e. Message e \<noteq> '''') (drop (length hist - c) hist)"
    proof -
      have "length hist + (MaxEventsToKeep - c) - MaxEventsToKeep = length hist - c" using c by simp
      then have "drop (length hist + (MaxEventsToKeep - c)) (replicate MaxEventsToKeep zero_event @ hist) =
          replicate (MaxEventsToKeep - (length hist + (MaxEventsToKeep - c))) zero_event @ drop (length hist - c) hist"
        by (simp only: drop_append length_replicate drop_replicate)
      then show ?thesis by (simp only: filter_append filter_replicate) (simp add: zero_event_def)
    qed
    finally show ?thesis by (simp only: c_def)
  qed
qed

section \<open>Properties\<close>

text \<open>The ring of events refines the history of the service: after any sequence of events, Get
  returns the most recent ones of the last 64 in their order, as many as were asked for, leaving out
  events without a message; and the counter is the number of events that were dropped.\<close>

theorem event_history:
  "Get n (foldl (\<lambda>s e. Push e s) no_events hist) =
      filter (\<lambda>e. Message e \<noteq> '''') (drop (length hist - min (nat n) MaxEventsToKeep) hist) \<and>
   ((\<forall>e \<in> set hist. Message e \<noteq> '''') \<longrightarrow>
      Discarded (foldl (\<lambda>s e. Push e s) no_events hist) = of_nat (length hist - MaxEventsToKeep))"
  using Get_ring_of [OF ring_of_history] Discarded_history by blast

text \<open>A witness: after 70 events six are dropped, and the last two are returned.\<close>

definition demo_event :: service_event where
  "demo_event = zero_event\<lparr>Message := ''up''\<rparr>"

theorem event_history_witness:
  "Get 2 (foldl (\<lambda>s e. Push e s) no_events (replicate 70 demo_event)) = [demo_event, demo_event] \<and>
   Discarded (foldl (\<lambda>s e. Push e s) no_events (replicate 70 demo_event)) = 6"
  using event_history [of 2 "replicate 70 demo_event"]
  by (simp add: demo_event_def zero_event_def MaxEventsToKeep_def numeral_2_eq_2)

end
