(* ===== verification/ServiceRunner.thy ===== *)
theory ServiceRunner
  imports ServiceEvents
begin

text \<open>
  One service of machined: system/service_runner.go, the wrapper that restarts a process,
  system/runner/restart/restart.go, and the end of a run in Start of system/system.go. The functions of
  the service and of its runner are parameters: what they return, and the order in which state
  reports, health checks and the deliveries of health changes happen while the runner runs.
\<close>

section \<open>State\<close>

datatype state_event = StateEventUp | StateEventDown | StateEventFinished

text \<open>The subscribers of a state event are channels; \<open>Woken\<close> are the channels that have received a
  notification. \<open>HealthCh\<close> holds the health changes that wait in the channels subscribed to the health
  state; \<open>StopCh\<close> says whether the one slot of stopCh is taken; \<open>Published\<close> are the events sent to
  the runtime.\<close>

record svc =
  SvcId :: string
  SupportsHealth :: bool
  SState :: ServiceState
  SEvents :: service_events
  SHealth :: health_state
  StateSubs :: "state_event \<Rightarrow> nat list"
  Woken :: "nat set"
  HealthCh :: "nat \<Rightarrow> state_change list"
  StopCh :: bool
  Published :: "service_event list"

definition NewServiceRunner :: "string \<Rightarrow> bool \<Rightarrow> svc" where
  "NewServiceRunner sid health =
     \<lparr>SvcId = sid, SupportsHealth = health, SState = StateInitialized, SEvents = no_events,
      SHealth = \<lparr>HStatus = zero_status, Subscribers = []\<rparr>, StateSubs = (\<lambda>_. []), Woken = {},
      HealthCh = (\<lambda>_. []), StopCh = False, Published = []\<rparr>"

text \<open>The buffer of the channel that run subscribes to the health state.\<close>

definition notify_cap :: nat where
  "notify_cap = 2"

definition inState :: "svc \<Rightarrow> state_event \<Rightarrow> bool" where
  "inState s e =
     (case e of
        StateEventUp \<Rightarrow>
          (case SState s of
             StateSkipped \<Rightarrow> True
           | StateFinished \<Rightarrow> True
           | StateRunning \<Rightarrow> \<not> SupportsHealth s \<or> Healthy (HStatus (SHealth s)) = Some True
           | _ \<Rightarrow> False)
      | StateEventDown \<Rightarrow> SState s \<in> {StateFailed, StateFinished, StateSkipped}
      | StateEventFinished \<Rightarrow> SState s = StateFinished)"

definition notifyEvent :: "state_event \<Rightarrow> svc \<Rightarrow> svc" where
  "notifyEvent e s = s\<lparr>Woken := Woken s \<union> set (StateSubs s e)\<rparr>"

definition UpdateState :: "nat \<Rightarrow> ServiceState \<Rightarrow> string \<Rightarrow> svc \<Rightarrow> svc" where
  "UpdateState now newstate message s =
     (let event = \<lparr>Message = message, EvState = newstate, EvHealth = zero_status, Timestamp = now\<rparr>;
          s = s\<lparr>SState := newstate, SEvents := Push event (SEvents s)\<rparr>;
          isUp = inState s StateEventUp;
          isDown = inState s StateEventDown;
          isFinished = inState s StateEventFinished;
          s = s\<lparr>Published := Published s @ [event]\<rparr>;
          s = (if isUp then notifyEvent StateEventUp s else s);
          s = (if isDown then notifyEvent StateEventDown s else s)
      in if isFinished then notifyEvent StateEventFinished s else s)"

text \<open>A health change without a value of Healthy would be a nil dereference.\<close>

definition healthUpdate :: "nat \<Rightarrow> state_change \<Rightarrow> svc \<Rightarrow> svc outcome" where
  "healthUpdate now change s =
     (if SState s \<noteq> StateRunning then Ret s
      else
        (case Healthy (New change) of
           None \<Rightarrow> Panic
         | Some h \<Rightarrow>
             (let message = (if h then ''Health check successful'' else ''Health check failed: '' @ LastMessage (New change));
                  event = \<lparr>Message = message, EvState = SState s, EvHealth = New change, Timestamp = now\<rparr>;
                  s = s\<lparr>SEvents := Push event (SEvents s)\<rparr>;
                  isUp = inState s StateEventUp;
                  s = (if isUp then notifyEvent StateEventUp s else s)
              in Ret (s\<lparr>Published := Published s @ [event]\<rparr>))))"

definition Subscribe :: "state_event \<Rightarrow> nat \<Rightarrow> svc \<Rightarrow> svc" where
  "Subscribe e ch s =
     (if inState s e then s\<lparr>Woken := insert ch (Woken s)\<rparr>
      else s\<lparr>StateSubs := (StateSubs s)(e := StateSubs s e @ [ch])\<rparr>)"

definition Unsubscribe :: "state_event \<Rightarrow> nat \<Rightarrow> svc \<Rightarrow> svc" where
  "Unsubscribe e ch s = s\<lparr>StateSubs := (StateSubs s)(e := unsubscribe_loop ch 0 (StateSubs s e))\<rparr>"

definition svc_Shutdown :: "svc \<Rightarrow> svc" where
  "svc_Shutdown s = s\<lparr>StopCh := True\<rparr>"

text \<open>The health of the service, updated by its checks.\<close>

definition check_health :: "nat \<Rightarrow> bool \<Rightarrow> string \<Rightarrow> svc \<Rightarrow> svc" where
  "check_health now healthy message s =
     (let (h, chans) = health_Update now notify_cap healthy message (SHealth s) (HealthCh s)
      in s\<lparr>SHealth := h, HealthCh := chans\<rparr>)"

section \<open>A run\<close>

text \<open>What happens while the runner runs, in order: a report of the runner, a health check, the delivery
  of a health change to the goroutine that waits for them.\<close>

datatype run_op =
    Report nat ServiceState string
  | Check nat bool string
  | Deliver nat

text \<open>How the select at the end of run goes: the context is cancelled (with the error of Stop), or the
  runner ends; then, for a service with health checks, whether the context is cancelled later.\<close>

datatype run_end =
    Cancelled "string option"
  | Ended "string option" bool

record run_world =
  Clock :: nat
  HasCondition :: bool
  Volumes :: "string list"
  Dependencies :: "string list"
  Descriptions :: "string list"
  CondErr :: "string option"
  PreErr :: "string option"
  RunnerOf :: "string + bool"
  OpenErr :: "string option"
  RunOps :: "run_op list"
  RunEnd :: run_end
  PostErr :: "ServiceState \<Rightarrow> string option"
  CleanupErr :: "string option"

datatype service_error = ErrSkip | RunErr string

text \<open>The channel that run subscribes.\<close>

definition notify_ch :: nat where
  "notify_ch = 0"

definition do_op :: "run_op \<Rightarrow> svc \<Rightarrow> svc outcome" where
  "do_op op s =
     (case op of
        Report now st msg \<Rightarrow>
          (let s = UpdateState now st msg s
           in Ret (if SupportsHealth s \<and> st \<noteq> StateRunning then check_health now False ''service not running'' s else s))
      | Check now healthy msg \<Rightarrow> Ret (if SupportsHealth s then check_health now healthy msg s else s)
      | Deliver now \<Rightarrow>
          (case HealthCh s notify_ch of
             [] \<Rightarrow> Ret s
           | change # rest \<Rightarrow> healthUpdate now change (s\<lparr>HealthCh := (HealthCh s)(notify_ch := rest)\<rparr>)))"

fun do_ops :: "run_op list \<Rightarrow> svc \<Rightarrow> svc outcome" where
  "do_ops [] s = Ret s"
| "do_ops (op # ops) s = bind_outcome (do_op op s) (do_ops ops)"

text \<open>run, after Open: None when it does not return. The goroutines of a service with health checks end
  with the context only, and run waits for them.\<close>

definition run_service :: "run_world \<Rightarrow> svc \<Rightarrow> (string option \<times> svc) option outcome" where
  "run_service w s =
     (case OpenErr w of
        Some e \<Rightarrow> Ret (Some (Some (''error opening runner: '' @ e), s))
      | None \<Rightarrow>
          (let s = (if SupportsHealth s then s\<lparr>SHealth := health_Subscribe notify_ch (health_Init (Clock w) (SHealth s))\<rparr> else s)
           in bind_outcome (do_ops (RunOps w) s) (\<lambda>s.
                (let s = (if SupportsHealth s then s\<lparr>SHealth := health_Unsubscribe notify_ch (SHealth s)\<rparr> else s)
                 in case RunEnd w of
                      Cancelled None \<Rightarrow> Ret (Some (None, s))
                    | Cancelled (Some e) \<Rightarrow> Ret (Some (Some (''error stopping service: '' @ e), s))
                    | Ended err later \<Rightarrow>
                        if SupportsHealth s \<and> \<not> later then Ret None
                        else Ret (Some (map_option (\<lambda>e. ''error running service: '' @ e) err, s))))))"

definition update_states :: "nat \<Rightarrow> ServiceState \<Rightarrow> string list \<Rightarrow> svc \<Rightarrow> svc" where
  "update_states now st msgs s = foldl (\<lambda>s msg. UpdateState now st (''Waiting for '' @ msg) s) s msgs"

text \<open>The deferred calls of Run, last registered first: PostFunc, then the volume mount requests.\<close>

definition post_stage :: "run_world \<Rightarrow> svc \<Rightarrow> svc" where
  "post_stage w s =
     (case PostErr w (SState s) of
        None \<Rightarrow> s
      | Some e \<Rightarrow> UpdateState (Clock w) StateFailed (''Failed to run post stage: '' @ e) s)"

definition cleanup_volumes :: "run_world \<Rightarrow> svc \<Rightarrow> svc" where
  "cleanup_volumes w s =
     (if Volumes w = [] then s
      else
        (case CleanupErr w of
           None \<Rightarrow> s
         | Some e \<Rightarrow> UpdateState (Clock w) StateFailed (''Failed to clean up volumes: '' @ e) s))"

definition Run_service :: "run_world \<Rightarrow> svc \<Rightarrow> (service_error option \<times> svc) option outcome" where
  "Run_service w s =
     (let now = Clock w;
          s = UpdateState now StateStarting ''Starting service'' s;
          waits = (HasCondition w \<or> Dependencies w \<noteq> [] \<or> Volumes w \<noteq> []);
          s = (if waits then update_states now StateWaiting (Descriptions w) s else s)
      in if waits \<and> CondErr w \<noteq> None
         then Ret (Some (Some (RunErr (''condition failed: '' @ the (CondErr w))), cleanup_volumes w s))
         else
           (let s = UpdateState now StatePreparing ''Running pre state'' s
            in case PreErr w of
                 Some e \<Rightarrow> Ret (Some (Some (RunErr (''failed to run pre stage: '' @ e)), cleanup_volumes w s))
               | None \<Rightarrow>
                   (let s = UpdateState now StatePreparing ''Creating service runner'' s
                    in case RunnerOf w of
                         Inl e \<Rightarrow> Ret (Some (Some (RunErr (''failed to create runner: '' @ e)), cleanup_volumes w s))
                       | Inr False \<Rightarrow> Ret (Some (Some ErrSkip, cleanup_volumes w (post_stage w s)))
                       | Inr True \<Rightarrow>
                           bind_outcome (run_service w s) (\<lambda>r.
                             case r of
                               None \<Rightarrow> Ret None
                             | Some (err, s) \<Rightarrow>
                                 Ret (Some (map_option (\<lambda>e. RunErr (''failed running service: '' @ e)) err,
                                            cleanup_volumes w (post_stage w s)))))))"

text \<open>The end of the goroutine of Start: the state after the run. The error starts with an ASCII letter.\<close>

definition upper_first :: "string \<Rightarrow> string" where
  "upper_first msg =
     (case msg of
        [] \<Rightarrow> []
      | c # cs \<Rightarrow> (if 97 \<le> (of_char c :: nat) \<and> (of_char c :: nat) \<le> 122 then char_of (of_char c - 32 :: nat) else c) # cs)"

definition finish_run :: "nat \<Rightarrow> service_error option \<Rightarrow> svc \<Rightarrow> svc" where
  "finish_run now err s =
     (case err of
        None \<Rightarrow> UpdateState now StateFinished ''Service finished successfully'' s
      | Some ErrSkip \<Rightarrow> UpdateState now StateSkipped ''Service skipped'' s
      | Some (RunErr e) \<Rightarrow> UpdateState now StateFailed (upper_first e) s)"

definition service_goroutine :: "run_world \<Rightarrow> svc \<Rightarrow> svc option outcome" where
  "service_goroutine w s =
     bind_outcome (Run_service w s) (\<lambda>r. Ret (map_option (\<lambda>(err, s). finish_run (Clock w) err s) r))"

section \<open>Restarting a process\<close>

datatype restart_type = Forever | Once | UntilSuccess

fun RestartTypeString :: "restart_type \<Rightarrow> string" where
  "RestartTypeString Forever = ''Forever''"
| "RestartTypeString Once = ''Once''"
| "RestartTypeString UntilSuccess = ''UntilSuccess''"

text \<open>One turn of the loop: a stop while the process runs, or its end with the error of the Stop that
  follows it and whether a stop comes during the pause.\<close>

datatype turn =
    StopWhileRunning "string option"
  | ProcessEnds "string option" "string option" bool

text \<open>The result of restarter.Run, if the turns given lead to one, the turns it took and the reports of
  the states.\<close>

fun restart_loop ::
    "restart_type \<Rightarrow> turn list \<Rightarrow> nat \<Rightarrow> ServiceState list \<Rightarrow> (string option option \<times> nat \<times> ServiceState list)" where
  "restart_loop ty [] n rep = (None, n, rep)"
| "restart_loop ty (StopWhileRunning err # turns) n rep = (Some err, n + 1, rep)"
| "restart_loop ty (ProcessEnds err errStop stop # turns) n rep =
     (case errStop of
        Some e \<Rightarrow> (Some (Some e), n + 1, rep)
      | None \<Rightarrow>
          (if ty = Once then (Some err, n + 1, rep)
           else if ty = UntilSuccess \<and> err = None then (Some None, n + 1, rep)
           else if stop then (Some None, n + 1, rep @ [StateWaiting, StateStopping])
           else restart_loop ty turns (n + 1) (rep @ [StateWaiting])))"

definition restart_Run :: "restart_type \<Rightarrow> turn list \<Rightarrow> (string option option \<times> nat \<times> ServiceState list)" where
  "restart_Run ty turns = restart_loop ty turns 0 []"

section \<open>Steps of a service\<close>

text \<open>Everything that changes a service while goroutines wait for its state events. The health checks
  run while run is subscribed to them; a waiter subscribes a channel of its own.\<close>

inductive svc_step :: "svc \<Rightarrow> svc \<Rightarrow> bool" where
  op: "do_op op s = Ret s' \<Longrightarrow>
     (\<forall>now m. op = Check now True m \<longrightarrow> notify_ch \<in> set (Subscribers (SHealth s))) \<Longrightarrow> svc_step s s'"
| update: "svc_step s (UpdateState now st msg s)"
| health_begin: "svc_step s (s\<lparr>SHealth := health_Subscribe notify_ch (health_Init now (SHealth s))\<rparr>)"
| health_over: "svc_step s (s\<lparr>SHealth := health_Unsubscribe notify_ch (SHealth s)\<rparr>)"
| subscribe: "svc_step s (Subscribe e ch s)"
| unsubscribe: "svc_step s (Unsubscribe e ch s)"
| shut: "svc_step s (svc_Shutdown s)"

inductive svc_reachable :: "svc \<Rightarrow> bool" where
  new: "svc_reachable (NewServiceRunner sid h)"
| step: "svc_reachable s \<Longrightarrow> svc_step s s' \<Longrightarrow> svc_reachable s'"

text \<open>The invariant: a subscribed channel whose event holds has been notified, or a health change is on
  its way; and every health change has a value.\<close>

definition woken_inv :: "svc \<Rightarrow> bool" where
  "woken_inv s \<longleftrightarrow>
     (\<forall>e ch. ch \<in> set (StateSubs s e) \<longrightarrow> inState s e \<longrightarrow>
        ch \<in> Woken s \<or> e = StateEventUp \<and> SState s = StateRunning \<and> HealthCh s notify_ch \<noteq> []) \<and>
     (\<forall>ch. \<forall>c \<in> set (HealthCh s ch). Healthy (New c) \<noteq> None)"

lemma inState_cong:
  "SState s = SState s' \<Longrightarrow> SupportsHealth s = SupportsHealth s' \<Longrightarrow> SHealth s = SHealth s' \<Longrightarrow> inState s e = inState s' e"
  by (simp add: inState_def split: state_event.splits ServiceState.splits)

lemma notifyEvent_simps [simp]:
  "SState (notifyEvent e s) = SState s" "SupportsHealth (notifyEvent e s) = SupportsHealth s"
  "SHealth (notifyEvent e s) = SHealth s" "StateSubs (notifyEvent e s) = StateSubs s"
  "HealthCh (notifyEvent e s) = HealthCh s" "inState (notifyEvent e s) e' = inState s e'"
  "Woken (notifyEvent e s) = Woken s \<union> set (StateSubs s e)"
  by (simp_all add: notifyEvent_def inState_def split: state_event.splits ServiceState.splits)

lemma UpdateState_simps [simp]:
  "SState (UpdateState now st msg s) = st" "SupportsHealth (UpdateState now st msg s) = SupportsHealth s"
  "SHealth (UpdateState now st msg s) = SHealth s" "StateSubs (UpdateState now st msg s) = StateSubs s"
  "HealthCh (UpdateState now st msg s) = HealthCh s"
  by (simp_all add: UpdateState_def Let_def notifyEvent_def)

text \<open>A state update notifies the subscribers of every event that holds afterwards.\<close>

lemma UpdateState_notifies:
  assumes "inState (UpdateState now st msg s) e" and "ch \<in> set (StateSubs s e)"
  shows "ch \<in> Woken (UpdateState now st msg s)"
proof -
  let ?s1 = "s\<lparr>SState := st, SEvents := Push \<lparr>Message = msg, EvState = st, EvHealth = zero_status, Timestamp = now\<rparr> (SEvents s)\<rparr>"
  have "inState (UpdateState now st msg s) e = inState ?s1 e" by (rule inState_cong) simp_all
  with assms show ?thesis
    by (cases e) (simp_all add: UpdateState_def Let_def notifyEvent_def)
qed

lemma woken_inv_update: "woken_inv s \<Longrightarrow> woken_inv (UpdateState now st msg s)"
  using UpdateState_notifies [of now st msg s] by (auto simp: woken_inv_def)

lemma try_send_simps:
  "0 < cap \<Longrightarrow> try_send cap chans ch m ch \<noteq> []"
  "chans c \<noteq> [] \<Longrightarrow> try_send cap chans ch m c \<noteq> []"
  "set (try_send cap chans ch m c) \<subseteq> insert m (set (chans c))"
  by (auto simp: try_send_def)

lemma send_all_keeps: "chans c \<noteq> [] \<Longrightarrow> send_all cap chans chs m c \<noteq> []"
  by (induction chs arbitrary: chans) (simp_all add: try_send_simps)

lemma send_all_sends: "0 < cap \<Longrightarrow> c \<in> set chs \<Longrightarrow> send_all cap chans chs m c \<noteq> []"
  by (induction chs arbitrary: chans) (auto simp: send_all_keeps try_send_simps)

lemma send_all_set: "set (send_all cap chans chs m c) \<subseteq> insert m (set (chans c))"
proof (induction chs arbitrary: chans)
  case (Cons ch chs)
  have "set (send_all cap (try_send cap chans ch m) chs m c) \<subseteq> insert m (set (try_send cap chans ch m c))" by (rule Cons.IH)
  with try_send_simps(3) [of cap chans ch m c] show ?case by auto
qed auto

lemma check_health_simps [simp]:
  "SState (check_health now h msg s) = SState s" "SupportsHealth (check_health now h msg s) = SupportsHealth s"
  "StateSubs (check_health now h msg s) = StateSubs s" "Woken (check_health now h msg s) = Woken s"
  "Healthy (HStatus (SHealth (check_health now h msg s))) = Some h"
  by (simp_all add: check_health_def health_Update_def Let_def case_prod_beta)

lemma woken_inv_check:
  assumes "woken_inv s" and "h \<longrightarrow> notify_ch \<in> set (Subscribers (SHealth s))"
  shows "woken_inv (check_health now h msg s)"
  unfolding woken_inv_def
proof (intro conjI allI impI ballI)
  let ?s = "check_health now h msg s"
  fix e ch
  assume sub: "ch \<in> set (StateSubs ?s e)" and in_e: "inState ?s e"
  show "ch \<in> Woken ?s \<or> e = StateEventUp \<and> SState ?s = StateRunning \<and> HealthCh ?s notify_ch \<noteq> []"
  proof (cases "inState s e")
    case True
    with assms(1) sub have "ch \<in> Woken s \<or> e = StateEventUp \<and> SState s = StateRunning \<and> HealthCh s notify_ch \<noteq> []"
      by (auto simp: woken_inv_def)
    moreover have "HealthCh s notify_ch \<noteq> [] \<Longrightarrow> HealthCh ?s notify_ch \<noteq> []"
      by (simp add: check_health_def health_Update_def Let_def case_prod_beta send_all_keeps)
    ultimately show ?thesis by auto
  next
    case False
    with in_e have up: "e = StateEventUp" "SState s = StateRunning" "h" "Healthy (HStatus (SHealth s)) \<noteq> Some h"
      by (auto simp: inState_def split: state_event.splits ServiceState.splits)
    have "0 < notify_cap" by (simp add: notify_cap_def)
    from send_all_sends [OF this, of notify_ch "Subscribers (SHealth s)"] up assms(2) have "HealthCh ?s notify_ch \<noteq> []"
      by (simp add: check_health_def health_Update_def Let_def case_prod_beta)
    with up show ?thesis by simp
  qed
next
  fix ch c
  assume c: "c \<in> set (HealthCh (check_health now h msg s) ch)"
  let ?m = "\<lparr>Old = HStatus (SHealth s), New = (HStatus (SHealth s))\<lparr>Healthy := Some h, LastChange := now, LastMessage := msg\<rparr>\<rparr>"
  have "set (HealthCh (check_health now h msg s) ch) \<subseteq> insert ?m (set (HealthCh s ch))"
    using send_all_set [of notify_cap "HealthCh s" "Subscribers (SHealth s)" ?m ch]
    by (auto simp: check_health_def health_Update_def Let_def case_prod_beta)
  with c assms(1) show "Healthy (New c) \<noteq> None" by (fastforce simp: woken_inv_def)
qed

lemma inState_events [simp]:
  "inState (s\<lparr>SEvents := x\<rparr>) e = inState s e" "inState (s\<lparr>Published := y\<rparr>) e = inState s e"
  by (rule inState_cong; simp)+

lemma healthUpdate_running:
  assumes "SState s = StateRunning" and "Healthy (New change) = Some h"
  shows "\<exists>s'. healthUpdate now change s = Ret s' \<and> SState s' = SState s \<and> StateSubs s' = StateSubs s \<and>
    HealthCh s' = HealthCh s \<and> (\<forall>e. inState s' e = inState s e) \<and> Woken s \<subseteq> Woken s' \<and>
    (inState s StateEventUp \<longrightarrow> set (StateSubs s StateEventUp) \<subseteq> Woken s')"
  using assms by (simp add: healthUpdate_def Let_def)

lemma healthUpdate_inv:
  assumes "woken_inv s" and "HealthCh s notify_ch = change # rest"
  shows "\<exists>s'. healthUpdate now change (s\<lparr>HealthCh := (HealthCh s)(notify_ch := rest)\<rparr>) = Ret s' \<and> woken_inv s'"
proof -
  let ?s = "s\<lparr>HealthCh := (HealthCh s)(notify_ch := rest)\<rparr>"
  have in_same: "inState ?s e = inState s e" for e by (rule inState_cong) simp_all
  have "change \<in> set (HealthCh s notify_ch)" using assms(2) by simp
  with assms(1) obtain h where h: "Healthy (New change) = Some h" unfolding woken_inv_def by blast
  have pending: "\<forall>ch. \<forall>c \<in> set (((HealthCh s)(notify_ch := rest)) ch). Healthy (New c) \<noteq> None"
  proof (intro allI ballI)
    fix ch c
    assume "c \<in> set (((HealthCh s)(notify_ch := rest)) ch)"
    then have "c \<in> set (HealthCh s ch)" using assms(2) by (auto split: if_splits)
    with assms(1) show "Healthy (New c) \<noteq> None" by (auto simp: woken_inv_def)
  qed
  show ?thesis
  proof (cases "SState s = StateRunning")
    case False
    then have "healthUpdate now change ?s = Ret ?s" by (simp add: healthUpdate_def)
    moreover have "woken_inv ?s"
      using assms(1) False pending in_same by (auto simp: woken_inv_def)
    ultimately show ?thesis by blast
  next
    case True
    then have "SState ?s = StateRunning" by simp
    from healthUpdate_running [OF this h, of now] obtain s' where res: "healthUpdate now change ?s = Ret s'"
      and s': "SState s' = SState s" "StateSubs s' = StateSubs s" "HealthCh s' = (HealthCh s)(notify_ch := rest)"
        "\<And>e. inState s' e = inState s e" "Woken s \<subseteq> Woken s'" "inState s StateEventUp \<longrightarrow> set (StateSubs s StateEventUp) \<subseteq> Woken s'"
      using in_same by auto
    have "woken_inv s'"
      unfolding woken_inv_def
    proof (intro conjI allI impI)
      fix e ch
      assume "ch \<in> set (StateSubs s' e)" and "inState s' e"
      then have sub: "ch \<in> set (StateSubs s e)" and in_e: "inState s e" using s' by auto
      show "ch \<in> Woken s' \<or> e = StateEventUp \<and> SState s' = StateRunning \<and> HealthCh s' notify_ch \<noteq> []"
      proof (cases "e = StateEventUp")
        case True
        with sub in_e s'(6) show ?thesis by auto
      next
        case False
        with sub in_e assms(1) have "ch \<in> Woken s" by (auto simp: woken_inv_def)
        with s'(5) show ?thesis by auto
      qed
    next
      show "\<forall>c \<in> set (HealthCh s' ch). Healthy (New c) \<noteq> None" for ch
        using pending by (simp add: s'(3))
    qed
    with res show ?thesis by blast
  qed
qed

lemma do_op_inv:
  assumes "woken_inv s" and "\<forall>now m. op = Check now True m \<longrightarrow> notify_ch \<in> set (Subscribers (SHealth s))"
  shows "\<exists>s'. do_op op s = Ret s' \<and> woken_inv s'"
proof (cases op)
  case (Report now st msg)
  have "woken_inv (UpdateState now st msg s)" using assms(1) by (rule woken_inv_update)
  with Report show ?thesis by (simp add: do_op_def Let_def woken_inv_check)
next
  case (Check now h msg)
  with assms show ?thesis by (cases h) (auto simp: do_op_def intro: woken_inv_check)
next
  case (Deliver now)
  show ?thesis
  proof (cases "HealthCh s notify_ch")
    case Nil
    with Deliver assms(1) show ?thesis by (simp add: do_op_def)
  next
    case (Cons change rest)
    from healthUpdate_inv [OF assms(1) Cons, of now] show ?thesis by (simp add: do_op_def Deliver Cons)
  qed
qed

lemma woken_inv_step: "svc_step s s' \<Longrightarrow> woken_inv s \<Longrightarrow> woken_inv s'"
proof (induction rule: svc_step.induct)
  case (op opn s s')
  with do_op_inv [of s opn] show ?case by auto
next
  case (update s now st msg)
  then show ?case by (simp add: woken_inv_update)
next
  case (health_begin s now)
  let ?s = "s\<lparr>SHealth := health_Subscribe notify_ch (health_Init now (SHealth s))\<rparr>"
  have "inState ?s e \<Longrightarrow> inState s e" for e
    by (auto simp: inState_def health_Subscribe_def health_Init_def split: state_event.splits ServiceState.splits)
  with health_begin show ?case by (auto simp: woken_inv_def)
next
  case (health_over s)
  let ?s = "s\<lparr>SHealth := health_Unsubscribe notify_ch (SHealth s)\<rparr>"
  have "inState ?s e = inState s e" for e
    by (auto simp: inState_def health_Unsubscribe_def split: state_event.splits ServiceState.splits)
  with health_over show ?case by (auto simp: woken_inv_def)
next
  case (subscribe s e ch)
  have same: "inState (Subscribe e ch s) e' = inState s e'" for e'
    by (rule inState_cong) (simp_all add: Subscribe_def)
  show ?case
    using subscribe unfolding woken_inv_def same by (auto simp: Subscribe_def split: if_splits)
next
  case (unsubscribe s e ch)
  have "inState (Unsubscribe e ch s) e' = inState s e'" for e'
    by (rule inState_cong) (simp_all add: Unsubscribe_def)
  with unsubscribe show ?case by (auto simp: woken_inv_def Unsubscribe_def unsubscribe_set)
next
  case (shut s)
  have "inState (svc_Shutdown s) e' = inState s e'" for e'
    by (rule inState_cong) (simp_all add: svc_Shutdown_def)
  with shut show ?case by (auto simp: woken_inv_def svc_Shutdown_def)
qed

lemma reachable_woken: "svc_reachable s \<Longrightarrow> woken_inv s"
proof (induction rule: svc_reachable.induct)
  case (new sid h)
  then show ?case by (simp add: woken_inv_def NewServiceRunner_def)
next
  case (step s s')
  then show ?case by (simp add: woken_inv_step)
qed

section \<open>Runs\<close>

lemma post_cleanup_simps [simp]:
  "SHealth (post_stage w s) = SHealth s" "SHealth (cleanup_volumes w s) = SHealth s"
  by (simp_all add: post_stage_def cleanup_volumes_def split: option.splits)

text \<open>The error of a run: the first stage that fails.\<close>

definition waits :: "run_world \<Rightarrow> bool" where
  "waits w \<longleftrightarrow> HasCondition w \<or> Dependencies w \<noteq> [] \<or> Volumes w \<noteq> []"

definition stage_fails :: "run_world \<Rightarrow> bool" where
  "stage_fails w \<longleftrightarrow>
     waits w \<and> CondErr w \<noteq> None \<or> PreErr w \<noteq> None \<or> (\<exists>e. RunnerOf w = Inl e) \<or>
     RunnerOf w = Inr True \<and>
       (OpenErr w \<noteq> None \<or> (\<exists>e. RunEnd w = Cancelled (Some e)) \<or> (\<exists>e later. RunEnd w = Ended (Some e) later))"

definition stage_skips :: "run_world \<Rightarrow> bool" where
  "stage_skips w \<longleftrightarrow> (waits w \<longrightarrow> CondErr w = None) \<and> PreErr w = None \<and> RunnerOf w = Inr False"

lemma run_service_error:
  "run_service w s = Ret (Some (err, s')) \<Longrightarrow>
     err \<noteq> None \<longleftrightarrow> OpenErr w \<noteq> None \<or> (\<exists>e. RunEnd w = Cancelled (Some e)) \<or> (\<exists>e later. RunEnd w = Ended (Some e) later)"
  by (cases "OpenErr w"; cases "RunEnd w") (auto simp: run_service_def Let_def split: option.splits if_splits)

lemma Run_service_error:
  assumes "Run_service w s = Ret (Some (err, s'))"
  shows "(err = Some ErrSkip \<longleftrightarrow> stage_skips w) \<and> ((\<exists>e. err = Some (RunErr e)) \<longleftrightarrow> stage_fails w)"
proof (cases "waits w \<and> CondErr w \<noteq> None \<or> PreErr w \<noteq> None \<or> (\<exists>e. RunnerOf w = Inl e) \<or> RunnerOf w = Inr False")
  case True
  with assms show ?thesis
    by (auto simp: Run_service_def Let_def stage_fails_def stage_skips_def waits_def split: option.splits if_splits sum.splits bool.splits)
next
  case False
  then have run: "RunnerOf w = Inr True" "PreErr w = None" "waits w \<longrightarrow> CondErr w = None"
    by (cases "RunnerOf w"; auto)+
  with assms obtain s1 e1 s2 where "run_service w s1 = Ret (Some (e1, s2))"
    and "err = map_option (\<lambda>e. RunErr (''failed running service: '' @ e)) e1"
    by (auto simp: Run_service_def Let_def waits_def split: if_splits option.splits)
  with run_service_error [OF this(1)] run show ?thesis
    by (auto simp: stage_fails_def stage_skips_def)
qed

text \<open>The turns of the restart wrapper.\<close>

definition restarts :: "restart_type \<Rightarrow> turn \<Rightarrow> bool" where
  "restarts ty t \<longleftrightarrow>
     (\<exists>err. t = ProcessEnds err None False \<and> (ty = Forever \<or> ty = UntilSuccess \<and> err \<noteq> None))"

fun turn_result :: "restart_type \<Rightarrow> turn \<Rightarrow> string option" where
  "turn_result ty (StopWhileRunning err) = err"
| "turn_result ty (ProcessEnds err (Some e) stop) = Some e"
| "turn_result ty (ProcessEnds err None stop) = (if ty = Once then err else None)"

lemma restart_loop_spec:
  "restart_loop ty turns n rep =
     (case dropWhile (restarts ty) turns of
        [] \<Rightarrow> (None, n + length turns, rep @ replicate (length turns) StateWaiting)
      | t # _ \<Rightarrow>
          (let k = length (takeWhile (restarts ty) turns)
           in (Some (turn_result ty t), n + k + 1,
               rep @ replicate k StateWaiting @
               (case t of ProcessEnds err None True \<Rightarrow>
                  if ty = Once \<or> ty = UntilSuccess \<and> err = None then [] else [StateWaiting, StateStopping] | _ \<Rightarrow> []))))"
proof (induction ty turns n rep rule: restart_loop.induct)
  case (1 ty n rep)
  then show ?case by simp
next
  case (2 ty err turns n rep)
  then show ?case by (simp add: restarts_def Let_def)
next
  case (3 ty err errStop stop turns n rep)
  show ?case
  proof (cases "restarts ty (ProcessEnds err errStop stop)")
    case True
    then have turn: "errStop = None" "stop = False" "ty \<noteq> Once" "\<not> (ty = UntilSuccess \<and> err = None)"
      by (auto simp: restarts_def)
    then have "restart_loop ty (ProcessEnds err errStop stop # turns) n rep = restart_loop ty turns (n + 1) (rep @ [StateWaiting])"
      by auto
    also have "\<dots> = (case dropWhile (restarts ty) turns of
        [] \<Rightarrow> (None, n + 1 + length turns, (rep @ [StateWaiting]) @ replicate (length turns) StateWaiting)
      | t # _ \<Rightarrow>
          (let k = length (takeWhile (restarts ty) turns)
           in (Some (turn_result ty t), n + 1 + k + 1,
               (rep @ [StateWaiting]) @ replicate k StateWaiting @
               (case t of ProcessEnds err None True \<Rightarrow>
                  if ty = Once \<or> ty = UntilSuccess \<and> err = None then [] else [StateWaiting, StateStopping] | _ \<Rightarrow> []))))"
      using turn by (intro "3.IH") simp_all
    finally show ?thesis using True by (simp add: Let_def del: dropWhile_eq_Nil_conv split: list.split)
  next
    case False
    then show ?thesis
      by (cases ty; cases errStop; cases stop; cases err) (auto simp: restarts_def Let_def)
  qed
qed

section \<open>Properties\<close>


text \<open>Every run of a service that ends leaves it down: Failed exactly when its condition, the pre
  stage, the creation of the runner, opening or running it failed, Skipped when there is nothing to run,
  Finished otherwise; all that wait for the service to be down are notified. The post stage and the
  clean-up of volumes have no say: a failure there is overwritten.\<close>

theorem run_ends_down:
  assumes "service_goroutine w s = Ret (Some s')"
  shows "SState s' = (if stage_skips w then StateSkipped else if stage_fails w then StateFailed else StateFinished) \<and>
    inState s' StateEventDown \<and> set (StateSubs s' StateEventDown) \<subseteq> Woken s'"
proof -
  from assms obtain err s1 where run: "Run_service w s = Ret (Some (err, s1))" and s': "s' = finish_run (Clock w) err s1"
    by (auto simp: service_goroutine_def)
  note error = Run_service_error [OF run]
  obtain st msg where upd: "s' = UpdateState (Clock w) st msg s1"
    and st: "st = (if stage_skips w then StateSkipped else if stage_fails w then StateFailed else StateFinished)"
  proof (cases err)
    case None
    with error s' that show ?thesis by (simp add: finish_run_def)
  next
    case (Some e)
    with error s' that show ?thesis by (cases e) (auto simp: finish_run_def)
  qed
  have down: "inState s' StateEventDown" by (simp add: upd st inState_def)
  with UpdateState_notifies [of "Clock w" st msg s1 StateEventDown] upd st show ?thesis by auto
qed

text \<open>A service with health checks whose runner ends by itself does not come down until it is stopped:
  run waits for the goroutines of the checks, which end with the context only.\<close>

lemma health_checked_run_hangs:
  assumes "SupportsHealth s" and "OpenErr w = None" and "RunOps w = []" and "RunEnd w = Ended err False"
  shows "run_service w s = Ret None"
  using assms by (simp add: run_service_def)

text \<open>The restart policy: restarter.Run restarts the process after every turn of a kind that its
  type restarts, and returns at the first other turn: a stop, an error of Stop, any end with Once, a
  successful one with UntilSuccess; with Forever only a stop or an error of Stop ends it. The result is
  the one of that turn, and the service is Waiting once per restart.\<close>

theorem restart_policy:
  "restart_Run ty turns =
     (case dropWhile (restarts ty) turns of
        [] \<Rightarrow> (None, length turns, replicate (length turns) StateWaiting)
      | t # _ \<Rightarrow>
          (let k = length (takeWhile (restarts ty) turns)
           in (Some (turn_result ty t), k + 1,
               replicate k StateWaiting @
               (case t of ProcessEnds err None True \<Rightarrow>
                  if ty = Once \<or> ty = UntilSuccess \<and> err = None then [] else [StateWaiting, StateStopping] | _ \<Rightarrow> []))))"
  unfolding restart_Run_def restart_loop_spec [of ty turns 0 "[]"]
  by (simp add: Let_def del: dropWhile_eq_Nil_conv split: list.split)


definition demo_run :: run_world where
  "demo_run = \<lparr>Clock = 5, HasCondition = True, Volumes = [''EPHEMERAL''], Dependencies = [], Descriptions = [''volumes''],
     CondErr = None, PreErr = None, RunnerOf = Inr True, OpenErr = None, RunOps = [Report 6 StateRunning ''started''],
     RunEnd = Ended (Some ''exit 1'') True, PostErr = (\<lambda>_. Some ''post''), CleanupErr = Some ''busy''\<rparr>"

theorem run_ends_down_witness:
  "\<exists>s'. service_goroutine demo_run (Subscribe StateEventDown 3 (NewServiceRunner ''s'' False)) = Ret (Some s') \<and>
     SState s' = StateFailed"
proof -
  let ?s = "Subscribe StateEventDown 3 (NewServiceRunner ''s'' False)"
  have sh: "SupportsHealth ?s = False" by (simp add: Subscribe_def NewServiceRunner_def)
  have "\<exists>s'. service_goroutine demo_run ?s = Ret (Some s')"
    by (auto simp: service_goroutine_def Run_service_def run_service_def demo_run_def update_states_def do_op_def Let_def sh)
  then obtain s' where run: "service_goroutine demo_run ?s = Ret (Some s')" ..
  moreover have "stage_fails demo_run" "\<not> stage_skips demo_run"
    by (simp_all add: stage_fails_def stage_skips_def demo_run_def exI [of "\<lambda>x. x" True])
  ultimately show ?thesis using run_ends_down [OF run] by auto
qed

end
