(* ===== verification/Services.thy ===== *)
theory Services
  imports ServiceRunner
begin

text \<open>
  The services of machined, system/system.go: the table of loaded services, which of them run, and how a
  set of services is stopped together with everything that depends on it. The two mutexes make every
  operation atomic; a loop over a Go map takes its visiting order as an argument.
\<close>

section \<open>State\<close>

record entry =
  Runner :: svc
  DependsOn :: "string list"
  APIStartAllowed :: bool
  APIStopAllowed :: bool
  APIRestartAllowed :: bool

type_synonym table = "(string, entry) gomap"

record services =
  Loaded :: table
  Running :: "string set"
  Terminating :: bool

definition newServices :: services where
  "newServices = \<lparr>Loaded = [], Running = {}, Terminating = False\<rparr>"

section \<open>Loading, starting, listing\<close>

fun load_loop :: "(string \<times> entry) list \<Rightarrow> string list \<Rightarrow> table \<Rightarrow> string list \<times> table" where
  "load_loop [] ids m = (ids, m)"
| "load_loop ((sid, e) # svcs) ids m =
     (if gm_has m sid then load_loop svcs (ids @ [sid]) m
      else load_loop svcs (ids @ [sid]) (gm_set m sid e))"

definition Load :: "(string \<times> entry) list \<Rightarrow> services \<Rightarrow> string list \<times> services" where
  "Load svcs s =
     (if Terminating s then ([], s)
      else (let (ids, m) = load_loop svcs [] (Loaded s) in (ids, s\<lparr>Loaded := m\<rparr>)))"

text \<open>Start: the identifiers that are not defined, the services whose goroutine is started, and the new
  state. An identifier that is not defined is noted as an error and the loop goes on: unless it is marked
  as running, the goroutine calls a method of a nil runner and panics.\<close>

fun start_loop :: "string list \<Rightarrow> string list \<Rightarrow> string list \<Rightarrow> services \<Rightarrow> (string list \<times> string list \<times> services) outcome" where
  "start_loop [] errs started s = Ret (errs, started, s)"
| "start_loop (sid # ids) errs started s =
     (let undefined_id = \<not> gm_has (Loaded s) sid;
          errs = (if undefined_id then errs @ [sid] else errs)
      in if sid \<in> Running s then start_loop ids errs started s
         else if undefined_id then Panic
         else start_loop ids errs (started @ [sid]) (s\<lparr>Running := insert sid (Running s)\<rparr>))"

definition Start :: "string list \<Rightarrow> services \<Rightarrow> (string list \<times> string list \<times> services) outcome" where
  "Start ids s = (if Terminating s then Ret ([], [], s) else start_loop ids [] [] s)"

definition StartAll :: "(table \<Rightarrow> table) \<Rightarrow> services \<Rightarrow> (string list \<times> string list \<times> services) outcome" where
  "StartAll ord s = Start (gm_keys (ord (Loaded s))) s"

definition LoadAndStart :: "(string \<times> entry) list \<Rightarrow> services \<Rightarrow> (string list \<times> services) outcome" where
  "LoadAndStart svcs s =
     (let (ids, s) = Load svcs s
      in bind_outcome (Start ids s) (\<lambda>(errs, started, s). if errs \<noteq> [] then Panic else Ret (started, s)))"

text \<open>The end of the goroutine: the service is removed from the running ones before its last state is
  published.\<close>

definition goroutine_done :: "string \<Rightarrow> services \<Rightarrow> services" where
  "goroutine_done sid s = s\<lparr>Running := Running s - {sid}\<rparr>"

text \<open>The state after Unload has stopped the services: those that were loaded are removed.\<close>

definition Unload :: "string list \<Rightarrow> services \<Rightarrow> string list \<times> services" where
  "Unload ids s =
     (if Terminating s then ([], s)
      else
        (let rem = filter (gm_has (Loaded s)) ids
         in (rem, s\<lparr>Loaded := foldl gm_del (Loaded s) rem, Running := Running s - set rem\<rparr>)))"

definition IsRunning :: "string \<Rightarrow> services \<Rightarrow> (entry \<times> bool) option" where
  "IsRunning sid s =
     (case gm_get (Loaded s) sid of None \<Rightarrow> None | Some e \<Rightarrow> Some (e, sid \<in> Running s))"

datatype api_action = ApiUndefined | ApiNotSupported | ApiNothing | ApiStart | ApiStop | ApiStopStart

definition APIStart :: "string \<Rightarrow> services \<Rightarrow> api_action" where
  "APIStart sid s =
     (case IsRunning sid s of
        None \<Rightarrow> ApiUndefined
      | Some (e, running) \<Rightarrow>
          if running then ApiNothing
          else if APIStartAllowed e then ApiStart
          else ApiNotSupported)"

definition APIStop :: "string \<Rightarrow> services \<Rightarrow> api_action" where
  "APIStop sid s =
     (case IsRunning sid s of
        None \<Rightarrow> ApiUndefined
      | Some (e, running) \<Rightarrow>
          if \<not> running then ApiNothing
          else if APIStopAllowed e then ApiStop
          else ApiNotSupported)"

definition APIRestart :: "string \<Rightarrow> services \<Rightarrow> api_action" where
  "APIRestart sid s =
     (case IsRunning sid s of
        None \<Rightarrow> ApiUndefined
      | Some (e, running) \<Rightarrow>
          if \<not> running then APIStart sid s
          else if APIRestartAllowed e then ApiStopStart
          else ApiNotSupported)"

section \<open>What is stopped\<close>

text \<open>servicesToStop before the expansion: all services, or those of the list that are loaded.\<close>

definition initial_stop :: "string list option \<Rightarrow> table \<Rightarrow> string list" where
  "initial_stop svcs m =
     (case svcs of
        None \<Rightarrow> gm_keys m
      | Some names \<Rightarrow> remdups (filter (gm_has m) names))"

text \<open>One pass of the expansion loop over the table: a service that depends on one that is scheduled is
  scheduled too, and counts for the rest of the pass.\<close>

fun expand_pass :: "(string \<times> entry) list \<Rightarrow> string list \<Rightarrow> string list \<times> bool" where
  "expand_pass [] sch = (sch, False)"
| "expand_pass ((name, e) # it) sch =
     (if name \<in> set sch then expand_pass it sch
      else if list_ex (\<lambda>d. d \<in> set sch) (DependsOn e) then (fst (expand_pass it (sch @ [name])), True)
      else expand_pass it sch)"

text \<open>The loop runs as long as a pass adds something; every pass visits the table in an order of its
  own.\<close>

partial_function (option) expand_loop ::
    "(nat \<Rightarrow> table \<Rightarrow> table) \<Rightarrow> table \<Rightarrow> nat \<Rightarrow> string list \<Rightarrow> string list option" where
  "expand_loop ord m k sch =
     (let (sch, expanded) = expand_pass (ord k m) sch
      in if expanded then expand_loop ord m (Suc k) sch else Some sch)"

text \<open>reverseDependencies: the scheduled services that wait to be down before the given one is
  stopped.\<close>

definition reverse_deps :: "table \<Rightarrow> string list \<Rightarrow> string \<Rightarrow> string list" where
  "reverse_deps m sch dep =
     concat (map (\<lambda>name. case gm_get m name of
        None \<Rightarrow> []
      | Some e \<Rightarrow> map (\<lambda>_. name) (filter (\<lambda>d. d = dep) (DependsOn e))) sch)"

section \<open>Stopping them\<close>

text \<open>The goroutines of stopServices: one per service, which waits until it has seen every reverse
  dependency down or the 30 seconds are over, and then calls Shutdown.\<close>

record stopping =
  ToStop :: "string list"
  Waits :: "string \<Rightarrow> string list"
  Seen :: "string \<Rightarrow> string set"
  Asked :: "string set"
  Down :: "string set"
  TimedOut :: bool

definition stop_start :: "table \<Rightarrow> string list \<Rightarrow> bool \<Rightarrow> string set \<Rightarrow> stopping" where
  "stop_start m sch wait down =
     \<lparr>ToStop = sch, Waits = (if wait then reverse_deps m sch else (\<lambda>_. [])), Seen = (\<lambda>_. {}), Asked = {}, Down = down,
      TimedOut = False\<rparr>"

text \<open>A service goes down after it has been asked to; that it might do so by itself is the parameter
  \<open>may\<close> of the relation, the set of the services that can.\<close>

inductive stop_step :: "string set \<Rightarrow> stopping \<Rightarrow> stopping \<Rightarrow> bool" for may where
  see: "n \<in> set (ToStop s) \<Longrightarrow> d \<in> set (Waits s n) \<Longrightarrow> d \<in> Down s \<Longrightarrow> d \<notin> Seen s n \<Longrightarrow>
     stop_step may s (s\<lparr>Seen := (Seen s)(n := insert d (Seen s n))\<rparr>)"
| ask: "n \<in> set (ToStop s) \<Longrightarrow> n \<notin> Asked s \<Longrightarrow> set (Waits s n) \<subseteq> Seen s n \<or> TimedOut s \<Longrightarrow>
     stop_step may s (s\<lparr>Asked := insert n (Asked s)\<rparr>)"
| down: "n \<in> Asked s \<or> n \<in> may \<Longrightarrow> n \<notin> Down s \<Longrightarrow> stop_step may s (s\<lparr>Down := insert n (Down s)\<rparr>)"
| timeout: "\<not> TimedOut s \<Longrightarrow> stop_step may s (s\<lparr>TimedOut := True\<rparr>)"

inductive stop_reachable :: "string set \<Rightarrow> stopping \<Rightarrow> stopping \<Rightarrow> bool" for may s0 where
  init: "stop_reachable may s0 s0"
| step: "stop_reachable may s0 s \<Longrightarrow> stop_step may s s' \<Longrightarrow> stop_reachable may s0 s'"

section \<open>The expansion is the closure under dependents\<close>

text \<open>The services that depend on a scheduled one, directly or through others.\<close>

inductive_set dependents :: "table \<Rightarrow> string set \<Rightarrow> string set" for m init where
  base: "n \<in> init \<Longrightarrow> n \<in> dependents m init"
| depends: "gm_get m n = Some e \<Longrightarrow> d \<in> set (DependsOn e) \<Longrightarrow> d \<in> dependents m init \<Longrightarrow> n \<in> dependents m init"

lemma expand_pass_sound:
  "set it \<subseteq> set m \<Longrightarrow> gm_wf m \<Longrightarrow> set sch \<subseteq> dependents m init \<Longrightarrow> distinct sch \<Longrightarrow>
     set (fst (expand_pass it sch)) \<subseteq> dependents m init \<and> distinct (fst (expand_pass it sch)) \<and>
     set sch \<subseteq> set (fst (expand_pass it sch)) \<and> set (fst (expand_pass it sch)) \<subseteq> set sch \<union> set (gm_keys it)"
proof (induction it sch rule: expand_pass.induct)
  case (1 sch)
  then show ?case by simp
next
  case (2 name e it sch)
  show ?case
  proof (cases "name \<in> set sch \<or> \<not> list_ex (\<lambda>d. d \<in> set sch) (DependsOn e)")
    case True
    then have "expand_pass ((name, e) # it) sch = expand_pass it sch" by auto
    moreover have "set (fst (expand_pass it sch)) \<subseteq> dependents m init \<and> distinct (fst (expand_pass it sch)) \<and>
        set sch \<subseteq> set (fst (expand_pass it sch)) \<and> set (fst (expand_pass it sch)) \<subseteq> set sch \<union> set (gm_keys it)"
      using True "2.IH"(1) "2.IH"(3) "2.prems" by (cases "name \<in> set sch") auto
    ultimately show ?thesis by (auto simp: gm_keys_def)
  next
    case False
    then obtain d where d: "d \<in> set (DependsOn e)" "d \<in> set sch" by (auto simp: list_ex_iff)
    have "gm_get m name = Some e" using "2.prems"(1,2) by (simp add: gm_get_def gm_wf_def)
    with d "2.prems"(3) have "name \<in> dependents m init" by (blast intro: dependents.depends)
    with False "2.IH"(2) "2.prems"
    have "set (fst (expand_pass it (sch @ [name]))) \<subseteq> dependents m init \<and> distinct (fst (expand_pass it (sch @ [name]))) \<and>
        set (sch @ [name]) \<subseteq> set (fst (expand_pass it (sch @ [name]))) \<and>
        set (fst (expand_pass it (sch @ [name]))) \<subseteq> set (sch @ [name]) \<union> set (gm_keys it)" by auto
    with False show ?thesis by (auto simp: gm_keys_def)
  qed
qed

lemma expand_pass_grows:
  "snd (expand_pass it sch) \<Longrightarrow> \<exists>n. n \<in> set (gm_keys it) \<and> n \<notin> set sch \<and> n \<in> set (fst (expand_pass it sch))"
proof (induction it sch rule: expand_pass.induct)
  case (1 sch)
  then show ?case by simp
next
  case (2 name e it sch)
  have keep: "set sch \<subseteq> set (fst (expand_pass it sch))" for it :: "(string \<times> entry) list" and sch
    by (induction it sch rule: expand_pass.induct) (auto split: if_splits)
  show ?case
  proof (cases "name \<notin> set sch \<and> list_ex (\<lambda>d. d \<in> set sch) (DependsOn e)")
    case True
    with keep [of "sch @ [name]" it] show ?thesis by (auto simp: gm_keys_def)
  next
    case False
    with "2.prems" "2.IH"(1,3) show ?thesis by (cases "name \<in> set sch") (auto simp: gm_keys_def)
  qed
qed

lemma expand_pass_fixed:
  "\<not> snd (expand_pass it sch) \<Longrightarrow> fst (expand_pass it sch) = sch \<and>
     (\<forall>(n, e) \<in> set it. n \<in> set sch \<or> (\<forall>d \<in> set (DependsOn e). d \<notin> set sch))"
  by (induction it sch rule: expand_pass.induct) (auto simp: list_ex_iff split: if_splits)

lemma expand_loop_closure:
  assumes wf: "gm_wf m" and fair: "\<And>k. range_order m (ord k m)"
  shows "card (set (gm_keys m) - set sch) = n \<Longrightarrow> set init \<subseteq> set sch \<Longrightarrow>
    set sch \<subseteq> dependents m (set init) \<Longrightarrow> distinct sch \<Longrightarrow>
    \<exists>r. expand_loop ord m k sch = Some r \<and> distinct r \<and> set r = dependents m (set init)"
proof (induction n arbitrary: k sch rule: less_induct)
  case (less n)
  let ?p = "expand_pass (ord k m) sch"
  have it: "set (ord k m) \<subseteq> set m" "set (gm_keys (ord k m)) = set (gm_keys m)"
    using range_order_set [OF fair] range_order_keys [OF fair] by auto
  have sound: "set (fst ?p) \<subseteq> dependents m (set init)" "distinct (fst ?p)" "set sch \<subseteq> set (fst ?p)"
    using expand_pass_sound [OF it(1) wf less.prems(3,4)] by auto
  show ?case
  proof (cases "snd ?p")
    case True
    from expand_pass_grows [OF True] obtain x where x: "x \<in> set (gm_keys m)" "x \<notin> set sch" "x \<in> set (fst ?p)"
      using it(2) by auto
    have "set (gm_keys m) - set (fst ?p) \<subset> set (gm_keys m) - set sch" using x sound(3) by auto
    then have smaller: "card (set (gm_keys m) - set (fst ?p)) < n"
      using less.prems(1) psubset_card_mono [of "set (gm_keys m) - set sch"] by auto
    from less.IH [OF smaller refl _ sound(1,2), of "Suc k"] sound(3) less.prems(2)
    obtain r where "expand_loop ord m (Suc k) (fst ?p) = Some r" "distinct r" "set r = dependents m (set init)" by auto
    with True show ?thesis by (simp add: expand_loop.simps [of ord m k sch] case_prod_beta Let_def)
  next
    case False
    from expand_pass_fixed [OF False] have fixed: "fst ?p = sch"
      and closed: "\<forall>(n, e) \<in> set (ord k m). n \<in> set sch \<or> (\<forall>d \<in> set (DependsOn e). d \<notin> set sch)" by auto
    have "n \<in> set sch" if "n \<in> dependents m (set init)" for n
      using that
    proof (induction rule: dependents.induct)
      case (base n)
      then show ?case using less.prems(2) by auto
    next
      case (depends n e d)
      from depends(1) have "(n, e) \<in> set m" by (simp add: gm_get_def map_of_SomeD)
      then have "(n, e) \<in> set (ord k m)" using range_order_set [OF fair] by auto
      with closed depends show ?case by auto
    qed
    with less.prems(3) have "set sch = dependents m (set init)" by auto
    with False fixed less.prems(4) show ?thesis
      by (simp add: expand_loop.simps [of ord m k sch] case_prod_beta Let_def)
  qed
qed

section \<open>Waiting for dependents\<close>

lemma in_reverse_deps:
  "d \<in> set (reverse_deps m sch n) \<longleftrightarrow> d \<in> set sch \<and> (\<exists>e. gm_get m d = Some e \<and> n \<in> set (DependsOn e))"
proof
  assume "d \<in> set (reverse_deps m sch n)"
  then obtain x where x: "x \<in> set sch" "d \<in> set (case gm_get m x of None \<Rightarrow> [] | Some e \<Rightarrow> map (\<lambda>_. x) (filter (\<lambda>d. d = n) (DependsOn e)))"
    by (auto simp: reverse_deps_def)
  then obtain e where "gm_get m x = Some e" by (cases "gm_get m x") auto
  with x show "d \<in> set sch \<and> (\<exists>e. gm_get m d = Some e \<and> n \<in> set (DependsOn e))" by auto
next
  assume "d \<in> set sch \<and> (\<exists>e. gm_get m d = Some e \<and> n \<in> set (DependsOn e))"
  then show "d \<in> set (reverse_deps m sch n)" by (force simp: reverse_deps_def)
qed

definition stop_inv :: "table \<Rightarrow> string list \<Rightarrow> string set \<Rightarrow> string set \<Rightarrow> stopping \<Rightarrow> bool" where
  "stop_inv m sch down0 may s \<longleftrightarrow>
     ToStop s = sch \<and> Waits s = reverse_deps m sch \<and> (\<forall>n. Seen s n \<subseteq> Down s) \<and>
     (\<not> TimedOut s \<longrightarrow> (\<forall>n \<in> Asked s. set (reverse_deps m sch n) \<subseteq> Seen s n)) \<and> Asked s \<subseteq> set sch \<and>
     Down s \<subseteq> down0 \<union> Asked s \<union> may \<and> down0 \<subseteq> Down s"

lemma stop_inv_step: "stop_step may s s' \<Longrightarrow> stop_inv m sch down0 may s \<Longrightarrow> stop_inv m sch down0 may s'"
proof (induction rule: stop_step.induct)
  case (see n s d)
  show ?case
    unfolding stop_inv_def
  proof (intro conjI impI ballI allI)
    fix x
    assume "\<not> TimedOut (s\<lparr>Seen := (Seen s)(n := insert d (Seen s n))\<rparr>)" and "x \<in> Asked (s\<lparr>Seen := (Seen s)(n := insert d (Seen s n))\<rparr>)"
    then have "stop_inv m sch down0 may s" "\<not> TimedOut s" "x \<in> Asked s" using see by simp_all
    then have "set (reverse_deps m sch x) \<subseteq> Seen s x" unfolding stop_inv_def by blast
    then show "set (reverse_deps m sch x) \<subseteq> Seen (s\<lparr>Seen := (Seen s)(n := insert d (Seen s n))\<rparr>) x" by auto
  qed (use see in \<open>auto simp: stop_inv_def\<close>)
next
  case (ask n s)
  then show ?case by (simp add: stop_inv_def) blast
next
  case (down n s)
  then show ?case by (auto simp: stop_inv_def)
next
  case (timeout s)
  then show ?case by (auto simp: stop_inv_def)
qed

lemma stop_reachable_inv:
  "stop_reachable may (stop_start m sch True down0) s \<Longrightarrow> stop_inv m sch down0 may s"
proof (induction rule: stop_reachable.induct)
  case init
  then show ?case by (simp add: stop_inv_def stop_start_def)
next
  case (step s s')
  then show ?case by (simp add: stop_inv_step)
qed

lemma stop_reachable_trans: "stop_reachable may s1 s2 \<Longrightarrow> stop_reachable may s0 s1 \<Longrightarrow> stop_reachable may s0 s2"
  by (induction rule: stop_reachable.induct) (auto intro: stop_reachable.step)

text \<open>A service that has been asked to stop can go down and be seen by one that waits for it.\<close>

lemma see_down:
  assumes "n \<in> set (ToStop s)" and "d \<in> set (Waits s n)" and "d \<in> Asked s"
  shows "\<exists>s'. stop_reachable may s s' \<and> d \<in> Seen s' n \<and> Seen s n \<subseteq> Seen s' n \<and>
    ToStop s' = ToStop s \<and> Waits s' = Waits s \<and> Asked s' = Asked s \<and> TimedOut s' = TimedOut s"
proof -
  obtain s1 where s1: "stop_reachable may s s1" "d \<in> Down s1" "Seen s1 = Seen s" "ToStop s1 = ToStop s"
    "Waits s1 = Waits s" "Asked s1 = Asked s" "TimedOut s1 = TimedOut s"
  proof (cases "d \<in> Down s")
    case True
    then show ?thesis by (intro that [of s]) (auto intro: stop_reachable.init)
  next
    case False
    have "stop_step may s (s\<lparr>Down := insert d (Down s)\<rparr>)" using assms(3) False by (intro stop_step.down) auto
    then have "stop_reachable may s (s\<lparr>Down := insert d (Down s)\<rparr>)" by (rule stop_reachable.step [OF stop_reachable.init])
    then show ?thesis by (rule that) simp_all
  qed
  show ?thesis
  proof (cases "d \<in> Seen s1 n")
    case True
    with s1 show ?thesis by auto
  next
    case False
    let ?s2 = "s1\<lparr>Seen := (Seen s1)(n := insert d (Seen s1 n))\<rparr>"
    have "stop_step may s1 ?s2" using assms s1 False by (intro stop_step.see) auto
    with s1(1) have "stop_reachable may s ?s2" by (rule stop_reachable.step)
    with s1 show ?thesis by (intro exI [of _ ?s2]) auto
  qed
qed

lemma see_all:
  "set ds \<subseteq> set (Waits s n) \<inter> Asked s \<Longrightarrow> n \<in> set (ToStop s) \<Longrightarrow>
     \<exists>s'. stop_reachable may s s' \<and> set ds \<subseteq> Seen s' n \<and> Seen s n \<subseteq> Seen s' n \<and>
       ToStop s' = ToStop s \<and> Waits s' = Waits s \<and> Asked s' = Asked s \<and> TimedOut s' = TimedOut s"
proof (induction ds arbitrary: s)
  case Nil
  then show ?case by (auto intro: stop_reachable.init)
next
  case (Cons d ds)
  from see_down [of n s d may] Cons.prems obtain s1 where s1: "stop_reachable may s s1" "d \<in> Seen s1 n" "Seen s n \<subseteq> Seen s1 n"
    "ToStop s1 = ToStop s" "Waits s1 = Waits s" "Asked s1 = Asked s" "TimedOut s1 = TimedOut s" by auto
  from Cons.IH [of s1] Cons.prems s1 obtain s2 where s2: "stop_reachable may s1 s2" "set ds \<subseteq> Seen s2 n" "Seen s1 n \<subseteq> Seen s2 n"
    "ToStop s2 = ToStop s1" "Waits s2 = Waits s1" "Asked s2 = Asked s1" "TimedOut s2 = TimedOut s1" by auto
  have "stop_reachable may s s2" using s2(1) s1(1) by (rule stop_reachable_trans)
  with s1 s2 show ?case by (intro exI [of _ s2]) auto
qed

text \<open>The services that are stopped, ordered by who waits for whom.\<close>

definition waits_for :: "table \<Rightarrow> string list \<Rightarrow> (string \<times> string) set" where
  "waits_for m sch = {(d, n). n \<in> set sch \<and> d \<in> set (reverse_deps m sch n)}"

lemma finite_waits: "finite (waits_for m sch)"
proof (rule finite_subset)
  show "waits_for m sch \<subseteq> set sch \<times> set sch" by (auto simp: waits_for_def in_reverse_deps)
qed simp

lemma stop_completes:
  assumes "acyclic (waits_for m sch)"
  shows "card (set sch - Asked s) = k \<Longrightarrow> stop_inv m sch down0 may s \<Longrightarrow>
    \<exists>s'. stop_reachable may s s' \<and> Asked s' = set sch \<and> TimedOut s' = TimedOut s"
proof (induction k arbitrary: s rule: less_induct)
  case (less k)
  show ?case
  proof (cases "set sch \<subseteq> Asked s")
    case True
    with less.prems(2) show ?thesis by (intro exI [of _ s]) (auto simp: stop_inv_def intro: stop_reachable.init)
  next
    case False
    have wf: "wf (waits_for m sch)" using finite_waits assms by (rule finite_acyclic_wf)
    from False obtain x where x: "x \<in> set sch - Asked s" by auto
    obtain n where n: "n \<in> set sch - Asked s" and least: "\<And>d. (d, n) \<in> waits_for m sch \<Longrightarrow> d \<notin> set sch - Asked s"
      using wfE_min [OF wf x] by blast
    have stop: "ToStop s = sch" "Waits s = reverse_deps m sch" using less.prems(2) by (simp_all add: stop_inv_def)
    have "set (Waits s n) \<subseteq> set (Waits s n) \<inter> Asked s"
      using least n stop by (auto simp: waits_for_def in_reverse_deps)
    from see_all [OF this, of may] n stop obtain s1 where s1: "stop_reachable may s s1" "set (Waits s n) \<subseteq> Seen s1 n"
      "ToStop s1 = ToStop s" "Waits s1 = Waits s" "Asked s1 = Asked s" "TimedOut s1 = TimedOut s" by auto
    let ?s2 = "s1\<lparr>Asked := insert n (Asked s1)\<rparr>"
    have "stop_step may s1 ?s2" using n s1 stop by (intro stop_step.ask) auto
    with s1(1) have r2: "stop_reachable may s ?s2" by (rule stop_reachable.step)
    have inv2: "stop_inv m sch down0 may ?s2"
      using r2 less.prems(2)
    proof (induction rule: stop_reachable.induct)
      case (step a b)
      then show ?case by (simp add: stop_inv_step)
    qed
    have "set sch - Asked ?s2 = (set sch - Asked s) - {n}" using s1(5) by auto
    then have "card (set sch - Asked ?s2) < k" using less.prems(1) n card_Diff1_less [of "set sch - Asked s" n] by simp
    from less.IH [OF this refl inv2] obtain s' where "stop_reachable may ?s2 s'" "Asked s' = set sch" "TimedOut s' = TimedOut ?s2" by blast
    moreover from this(1) r2 have "stop_reachable may s s'" by (rule stop_reachable_trans)
    ultimately show ?thesis using s1(6) by auto
  qed
qed

section \<open>Starting\<close>

text \<open>The invariant of the table: keys are distinct and only loaded services run.\<close>

definition services_wf :: "services \<Rightarrow> bool" where
  "services_wf s \<longleftrightarrow> gm_wf (Loaded s) \<and> Running s \<subseteq> set (gm_keys (Loaded s))"

lemma load_loop_spec:
  "load_loop svcs ids m = (ids', m') \<Longrightarrow> gm_wf m \<Longrightarrow>
     ids' = ids @ map fst svcs \<and> gm_wf m' \<and> set (gm_keys m') = set (gm_keys m) \<union> fst ` set svcs \<and>
     (\<forall>k e. gm_get m k = Some e \<longrightarrow> gm_get m' k = Some e)"
proof (induction svcs arbitrary: ids m)
  case Nil
  then show ?case by simp
next
  case (Cons se svcs)
  obtain sid e where se: "se = (sid, e)" by (cases se)
  show ?case
  proof (cases "gm_has m sid")
    case True
    from Cons.IH [of "ids @ [sid]" m] Cons.prems True se
    have "ids' = (ids @ [sid]) @ map fst svcs \<and> gm_wf m' \<and> set (gm_keys m') = set (gm_keys m) \<union> fst ` set svcs \<and>
        (\<forall>k e. gm_get m k = Some e \<longrightarrow> gm_get m' k = Some e)" by simp
    moreover have "sid \<in> set (gm_keys m)" using True by (simp add: gm_has_def gm_keys_def)
    ultimately show ?thesis using se by auto
  next
    case False
    then have none: "gm_get m sid = None" by (simp add: gm_has_get)
    from Cons.IH [of "ids @ [sid]" "gm_set m sid e"] Cons.prems False se
    have "ids' = (ids @ [sid]) @ map fst svcs \<and> gm_wf m' \<and> set (gm_keys m') = set (gm_keys (gm_set m sid e)) \<union> fst ` set svcs \<and>
        (\<forall>k e'. gm_get (gm_set m sid e) k = Some e' \<longrightarrow> gm_get m' k = Some e')"
      by (simp add: gomap_simps)
    moreover from this none have "\<forall>k e. gm_get m k = Some e \<longrightarrow> gm_get m' k = Some e"
      by (metis gm_get_set option.distinct(1))
    ultimately show ?thesis using se by (auto simp: gm_keys_set_set)
  qed
qed

lemma start_loop_loaded:
  "set ids \<subseteq> set (gm_keys (Loaded s)) \<Longrightarrow> distinct started \<Longrightarrow> set started \<subseteq> Running s \<Longrightarrow>
     \<exists>new. start_loop ids errs started s = Ret (errs, started @ new, s\<lparr>Running := Running s \<union> set ids\<rparr>) \<and>
       distinct (started @ new) \<and> set new = set ids - Running s"
proof (induction ids arbitrary: started s)
  case Nil
  then show ?case by simp
next
  case (Cons i ids)
  have has: "gm_has (Loaded s) i" using Cons.prems(1) by (simp add: gm_has_def gm_keys_def)
  show ?case
  proof (cases "i \<in> Running s")
    case True
    with Cons.IH [of s started] Cons.prems has show ?thesis by (auto simp: insert_absorb)
  next
    case False
    let ?s = "s\<lparr>Running := insert i (Running s)\<rparr>"
    from Cons.IH [of ?s "started @ [i]"] Cons.prems False obtain new where
      "start_loop ids errs (started @ [i]) ?s = Ret (errs, (started @ [i]) @ new, ?s\<lparr>Running := Running ?s \<union> set ids\<rparr>)"
      "distinct ((started @ [i]) @ new)" "set new = set ids - Running ?s" by auto
    with False has show ?thesis by (intro exI [of _ "i # new"]) auto
  qed
qed

section \<open>Properties\<close>

text \<open>C24: what is stopped: whatever orders the map is visited in, the expansion loop ends, and the
  services it schedules are exactly those of the request and all loaded services that depend on one of
  them, directly or through others, each once.\<close>

theorem stop_closure:
  assumes "gm_wf (Loaded s)" and "\<forall>k. range_order (Loaded s) (ord k (Loaded s))"
  shows "\<exists>sch. expand_loop ord (Loaded s) 0 (initial_stop (Some names) (Loaded s)) = Some sch \<and> distinct sch \<and>
    set sch = dependents (Loaded s) (set names \<inter> set (gm_keys (Loaded s)))"
proof -
  let ?i = "initial_stop (Some names) (Loaded s)"
  have init: "set ?i = set names \<inter> set (gm_keys (Loaded s))" "distinct ?i"
    by (auto simp: initial_stop_def gm_has_def gm_keys_def)
  have "set ?i \<subseteq> dependents (Loaded s) (set ?i)" by (auto intro: dependents.base)
  from expand_loop_closure [OF assms(1) _ refl subset_refl this init(2), of ord 0] assms(2) init(1)
  show ?thesis by auto
qed


text \<open>Stopping does not block: when no dependency cycle runs through the services that are stopped,
  every state of the procedure in which the 30 seconds are not over can go on, with services going down
  after they have been asked to, to one in which all of them have been asked to stop, still in time.\<close>

theorem stop_all_possible:
  assumes "acyclic (waits_for m sch)" and "stop_reachable may (stop_start m sch True down0) s" and "\<not> TimedOut s"
  shows "\<exists>s'. stop_reachable may s s' \<and> Asked s' = set sch \<and> \<not> TimedOut s'"
  using stop_completes [OF assms(1) refl stop_reachable_inv [OF assms(2)]] assms(3) by metis

text \<open>The table is kept consistent: only loaded services run, and loading, starting and unloading
  keep that; LoadAndStart never panics, starts exactly the services that do not run yet, each once, and
  keeps a service that was already loaded.\<close>

theorem load_and_start:
  assumes "services_wf s" and "\<not> Terminating s"
  shows "\<exists>started s'. LoadAndStart svcs s = Ret (started, s') \<and> services_wf s' \<and> distinct started \<and>
    set started = fst ` set svcs - Running s \<and> Running s' = Running s \<union> fst ` set svcs \<and>
    (\<forall>k e. gm_get (Loaded s) k = Some e \<longrightarrow> gm_get (Loaded s') k = Some e) \<and> services_wf (snd (Unload ids s'))"
proof -
  obtain ids0 m where load: "load_loop svcs [] (Loaded s) = (ids0, m)" by (cases "load_loop svcs [] (Loaded s)")
  from load_loop_spec [OF load] assms(1) have m: "ids0 = map fst svcs" "gm_wf m"
    "set (gm_keys m) = set (gm_keys (Loaded s)) \<union> fst ` set svcs"
    "\<forall>k e. gm_get (Loaded s) k = Some e \<longrightarrow> gm_get m k = Some e" by (auto simp: services_wf_def)
  let ?s1 = "s\<lparr>Loaded := m\<rparr>"
  from start_loop_loaded [of ids0 ?s1 "[]" "[]"] m obtain new where
    start: "start_loop ids0 [] [] ?s1 = Ret ([], new, ?s1\<lparr>Running := Running ?s1 \<union> set ids0\<rparr>)"
    and new: "distinct new" "set new = set ids0 - Running s" by auto
  let ?s2 = "?s1\<lparr>Running := Running ?s1 \<union> set ids0\<rparr>"
  have res: "LoadAndStart svcs s = Ret (new, ?s2)"
    using assms(2) load start by (simp add: LoadAndStart_def Load_def Start_def)
  have wf2: "services_wf ?s2" using assms(1) m by (auto simp: services_wf_def)
  have del: "gm_wf (foldl gm_del t xs) \<and> set (gm_keys (foldl gm_del t xs)) = set (gm_keys t) - set xs" if "gm_wf t" for xs and t :: table
    using that by (induction xs arbitrary: t) (auto simp: gomap_simps gm_keys_set_del)
  have "services_wf (snd (Unload ids ?s2))"
    using wf2 del [of "Loaded ?s2" "filter (gm_has (Loaded ?s2)) ids"] by (auto simp: services_wf_def Unload_def Let_def)
  with res wf2 new m show ?thesis by (intro exI [of _ new] exI [of _ ?s2]) auto
qed

text \<open>Starting an identifier that is not loaded panics instead of returning the error.\<close>

lemma start_undefined_panics:
  "\<not> Terminating s \<Longrightarrow> \<not> gm_has (Loaded s) sid \<Longrightarrow> sid \<notin> Running s \<Longrightarrow> Start [sid] s = Panic"
  by (simp add: Start_def)

text \<open>stopServices signals every service it schedules, running or not. The slot of stopCh keeps the
  signal of a service that does not run, and waiting for one that was never started to be down does not
  end.\<close>

lemma stop_signal_stays:
  "StopCh (svc_Shutdown s) \<and> \<not> inState (svc_Shutdown (NewServiceRunner sid h)) StateEventDown"
  by (simp add: svc_Shutdown_def NewServiceRunner_def inState_def)

text \<open>Witnesses: three services in a chain of dependencies.\<close>

definition demo_entry :: "string \<Rightarrow> string list \<Rightarrow> string \<times> entry" where
  "demo_entry sid deps =
     (sid, \<lparr>Runner = NewServiceRunner sid False, DependsOn = deps, APIStartAllowed = True, APIStopAllowed = True, APIRestartAllowed = False\<rparr>)"

definition demo_table :: table where
  "demo_table = [demo_entry ''apid'' [''containerd''], demo_entry ''containerd'' [''machined''], demo_entry ''machined'' []]"

lemma demo_table_get:
  "gm_wf demo_table" "gm_get demo_table d = Some e \<Longrightarrow> n \<in> set (DependsOn e) \<Longrightarrow>
     (d, n) \<in> {(''apid'', ''containerd''), (''containerd'', ''machined'')}"
  by (auto simp: demo_table_def demo_entry_def gm_wf_def gm_get_def split: if_splits)

lemma demo_dependents: "dependents demo_table {''machined''} = {''machined'', ''containerd'', ''apid''}"
proof
  show "dependents demo_table {''machined''} \<subseteq> {''machined'', ''containerd'', ''apid''}"
  proof
    fix n assume "n \<in> dependents demo_table {''machined''}"
    then show "n \<in> {''machined'', ''containerd'', ''apid''}"
      by (induction rule: dependents.induct) (use demo_table_get(2) in auto)
  qed
  have 1: "''machined'' \<in> dependents demo_table {''machined''}" by (rule dependents.base) simp
  have 2: "''containerd'' \<in> dependents demo_table {''machined''}"
    by (rule dependents.depends [OF _ _ 1, of _ "snd (demo_entry ''containerd'' [''machined''])"])
       (simp_all add: demo_table_def demo_entry_def gm_get_def)
  have "''apid'' \<in> dependents demo_table {''machined''}"
    by (rule dependents.depends [OF _ _ 2, of _ "snd (demo_entry ''apid'' [''containerd''])"])
       (simp_all add: demo_table_def demo_entry_def gm_get_def)
  with 1 2 show "{''machined'', ''containerd'', ''apid''} \<subseteq> dependents demo_table {''machined''}" by simp
qed

lemma demo_acyclic: "acyclic (waits_for demo_table sch)"
proof -
  have "waits_for demo_table sch \<subseteq> {(''apid'', ''containerd''), (''containerd'', ''machined'')}"
    using demo_table_get(2) by (auto simp: waits_for_def in_reverse_deps)
  moreover have "acyclic {(''apid'', ''containerd''), (''containerd'', ''machined'')}"
    by (rule acyclicI_order [where f = "\<lambda>s. if s = ''apid'' then 2 else if s = ''containerd'' then 1 else (0 :: nat)"]) auto
  ultimately show ?thesis by (rule acyclic_subset [rotated])
qed

theorem stop_closure_witness:
  "\<exists>sch. expand_loop (\<lambda>k m. m) demo_table 0 (initial_stop (Some [''machined'', ''unknown'']) demo_table) = Some sch \<and>
     set sch = {''machined'', ''containerd'', ''apid''}"
proof -
  let ?s = "\<lparr>Loaded = demo_table, Running = {}, Terminating = False\<rparr>"
  have "set [''machined'', ''unknown''] \<inter> set (gm_keys demo_table) = {''machined''}"
    by (auto simp: demo_table_def demo_entry_def gm_keys_def)
  with stop_closure [of ?s "\<lambda>k m. m" "[''machined'', ''unknown'']"] demo_table_get(1) demo_dependents show ?thesis by auto
qed

theorem stop_all_possible_witness:
  "\<exists>s'. stop_reachable {} (stop_start demo_table [''machined'', ''containerd'', ''apid''] True {}) s' \<and>
     Asked s' = {''machined'', ''containerd'', ''apid''} \<and> \<not> TimedOut s'"
  using stop_all_possible [OF demo_acyclic stop_reachable.init, of "[''machined'', ''containerd'', ''apid'']" "{}" "{}"]
  by (simp add: stop_start_def)


theorem load_and_start_witness:
  "\<exists>started s'. LoadAndStart demo_table newServices = Ret (started, s') \<and>
     set started = {''machined'', ''containerd'', ''apid''}"
proof -
  have "services_wf newServices" "\<not> Terminating newServices" by (simp_all add: services_wf_def newServices_def gomap_simps)
  from load_and_start [OF this, of demo_table "[]"] obtain started s' where
    "LoadAndStart demo_table newServices = Ret (started, s')" "set started = fst ` set demo_table - Running newServices" by blast
  then show ?thesis by (auto simp: demo_table_def demo_entry_def newServices_def)
qed

end
