(* ===== verification/EventStream.thy ===== *)
theory EventStream
  imports Prelude
begin

text \<open>
  The runtime event stream (internal/app/machined/pkg/runtime/events.go and
  v1alpha1/v1alpha1_events.go): events are published into a ring of fixed capacity, and every call
  of Watch starts a consumer that reads the ring at its own pace. The consumers and the publishers
  are steps of one system, a step for every section of the code that holds the mutex and for every
  send on a watcher's channel; the theorems compare what a watcher receives with the sequence of
  all published events, which the ring does not keep.

  The identifiers of the events come from github.com/rs/xid: their type, the nil identifier and the
  time an identifier carries are parameters (\<open>'i\<close>, \<open>NilID\<close>, \<open>IDTime\<close>). Positions are int64 in the
  code and unbounded here; they count published events.
\<close>

section \<open>Events and watch options\<close>

record 'i xid_lib =
  NilID :: 'i
  IDTime :: "'i \<Rightarrow> int"

record ('i, 'p) stream_event =
  TypeURL :: string
  EventID :: 'i
  Payload :: "'p option"
  EventActor :: string

record ('i, 'p) event_info =
  InfoEvent :: "('i, 'p) stream_event"
  Backlog :: int

record 'i watch_options =
  TailEvents :: int
  TailID :: 'i
  TailDuration :: int
  ActorID :: string

definition runtimeEventTypeURLPrefix :: string where
  "runtimeEventTypeURLPrefix = ''chubo/runtime/''"

definition NewEvent :: "('p \<Rightarrow> string) \<Rightarrow> 'i \<Rightarrow> 'p option \<Rightarrow> string \<Rightarrow> ('i, 'p) stream_event" where
  "NewEvent full_name xid payload actorID =
     \<lparr>TypeURL = (case payload of None \<Rightarrow> '''' | Some p \<Rightarrow> runtimeEventTypeURLPrefix @ full_name p),
      EventID = xid, Payload = payload, EventActor = actorID\<rparr>"

datatype option_error = TailEventsExclusive | TailIDExclusive | TailDurationExclusive

definition no_options :: "'i xid_lib \<Rightarrow> 'i watch_options" where
  "no_options lib = \<lparr>TailEvents = 0, TailID = NilID lib, TailDuration = 0, ActorID = ''''\<rparr>"

definition WithTailEvents :: "'i xid_lib \<Rightarrow> int \<Rightarrow> 'i watch_options \<Rightarrow> option_error + 'i watch_options" where
  "WithTailEvents lib number opts =
     (if TailID opts \<noteq> NilID lib \<or> TailDuration opts \<noteq> 0 then Inl TailEventsExclusive
      else Inr (opts\<lparr>TailEvents := number\<rparr>))"

definition WithTailID :: "'i \<Rightarrow> 'i watch_options \<Rightarrow> option_error + 'i watch_options" where
  "WithTailID i opts =
     (if TailEvents opts \<noteq> 0 \<or> TailDuration opts \<noteq> 0 then Inl TailIDExclusive
      else Inr (opts\<lparr>TailID := i\<rparr>))"

definition WithTailDuration :: "'i xid_lib \<Rightarrow> int \<Rightarrow> 'i watch_options \<Rightarrow> option_error + 'i watch_options" where
  "WithTailDuration lib dur opts =
     (if TailEvents opts \<noteq> 0 \<or> TailID opts \<noteq> NilID lib then Inl TailDurationExclusive
      else Inr (opts\<lparr>TailDuration := dur\<rparr>))"

definition WithActorID :: "string \<Rightarrow> 'i watch_options \<Rightarrow> option_error + 'i watch_options" where
  "WithActorID actorID opts = Inr (opts\<lparr>ActorID := actorID\<rparr>)"

text \<open>The loop of Watch over its option functions.\<close>

fun apply_options ::
    "('i watch_options \<Rightarrow> option_error + 'i watch_options) list \<Rightarrow> 'i watch_options \<Rightarrow> option_error + 'i watch_options" where
  "apply_options [] opts = Inr opts"
| "apply_options (f # fs) opts = (case f opts of Inl err \<Rightarrow> Inl err | Inr opts' \<Rightarrow> apply_options fs opts')"

section \<open>The ring\<close>

record ('i, 'p) events =
  StreamRing :: "('i, 'p) stream_event list"
  WritePos :: int
  RingCap :: int
  Gap :: int

definition zero_stream_event :: "'i xid_lib \<Rightarrow> ('i, 'p) stream_event" where
  "zero_stream_event lib = \<lparr>TypeURL = '''', EventID = NilID lib, Payload = None, EventActor = ''''\<rparr>"

text \<open>make panics on a negative length, NewEvents on a gap that leaves no history.\<close>

definition NewEvents :: "'i xid_lib \<Rightarrow> int \<Rightarrow> int \<Rightarrow> ('i, 'p) events outcome" where
  "NewEvents lib capacity gap =
     (if capacity < 0 \<or> gap \<ge> capacity then Panic
      else Ret \<lparr>StreamRing = replicate (nat capacity) (zero_stream_event lib), WritePos = 0, RingCap = capacity, Gap = gap\<rparr>)"

text \<open>The part of Publish under the mutex; the event is made before it.\<close>

definition publish_event :: "('i, 'p) stream_event \<Rightarrow> ('i, 'p) events \<Rightarrow> ('i, 'p) events" where
  "publish_event event e =
     e\<lparr>StreamRing := (StreamRing e)[nat (WritePos e mod RingCap e) := event], WritePos := WritePos e + 1\<rparr>"

definition event_at :: "('i, 'p) events \<Rightarrow> int \<Rightarrow> ('i, 'p) stream_event" where
  "event_at e pos = StreamRing e ! nat (pos mod RingCap e)"

text \<open>sort.Search of Go's standard library: bisection for the least index that satisfies f.\<close>

function search_loop :: "(nat \<Rightarrow> bool) \<Rightarrow> nat \<Rightarrow> nat \<Rightarrow> nat" where
  "search_loop f i j =
     (if i < j then (let h = (i + j) div 2 in if \<not> f h then search_loop f (h + 1) j else search_loop f i h) else i)"
  by pat_completeness auto
termination
  by (relation "measure (\<lambda>(f, i, j). j - i)") auto

declare search_loop.simps [simp del]

definition sort_Search :: "int \<Rightarrow> (nat \<Rightarrow> bool) \<Rightarrow> int" where
  "sort_Search n f = int (search_loop f 0 (nat n))"

definition min_pos :: "('i, 'p) events \<Rightarrow> int" where
  "min_pos e = max (WritePos e - (RingCap e - Gap e)) 0"

text \<open>The position a consumer starts from, with the time of the call.\<close>

definition start_pos :: "'i::linorder xid_lib \<Rightarrow> int \<Rightarrow> 'i watch_options \<Rightarrow> ('i, 'p) events \<Rightarrow> int" where
  "start_pos lib now opts e =
     (let pos = WritePos e; minPos = min_pos e
      in if TailEvents opts \<noteq> 0 then
           (if TailEvents opts < 0 then minPos else max (pos - TailEvents opts) minPos)
         else if TailID opts \<noteq> NilID lib then
           minPos + sort_Search (pos - minPos) (\<lambda>i. EventID (event_at e (minPos + int i)) > TailID opts)
         else if TailDuration opts \<noteq> 0 then
           minPos + sort_Search (pos - minPos)
             (\<lambda>i. IDTime lib (EventID (event_at e (minPos + int i))) > now - TailDuration opts)
         else pos)"


section \<open>Watchers\<close>

text \<open>
  A watcher is a goroutine of Watch with its local variables. Between two sections under the mutex it
  is in one of these places: about to take the mutex at the head of its loop, asleep in Wait, woken
  but not yet past the check of its context, sending an event, or gone. \<open>Received\<close> is what WatchFunc
  has read from the channel and \<open>StartPos\<close> the position the watcher began at.
\<close>

datatype ('i, 'p) watch_place = Scanning | Asleep | Woken | Sending "('i, 'p) event_info" | Gone

record ('i, 'p) watcher =
  Place :: "('i, 'p) watch_place"
  Position :: int
  Filter :: string
  FuncDone :: bool
  Received :: "('i, 'p) event_info list"
  StartPos :: int

text \<open>\<open>Published\<close> is the sequence of all events that were published, in the order of the mutex.\<close>

record ('i, 'p) stream_system =
  Stream :: "('i, 'p) events"
  Published :: "('i, 'p) stream_event list"
  Watchers :: "('i, 'p) watcher list"

definition new_watcher :: "'i::linorder xid_lib \<Rightarrow> int \<Rightarrow> 'i watch_options \<Rightarrow> ('i, 'p) events \<Rightarrow> ('i, 'p) watcher" where
  "new_watcher lib now opts e =
     \<lparr>Place = Scanning, Position = start_pos lib now opts e, Filter = ActorID opts, FuncDone = False,
      Received = [], StartPos = start_pos lib now opts e\<rparr>"

definition wake :: "('i, 'p) watcher \<Rightarrow> ('i, 'p) watcher" where
  "wake w = (if Place w = Asleep then w\<lparr>Place := Woken\<rparr> else w)"

text \<open>One turn of the loop under the mutex: sleep, stop on an overrun, or take the next event.\<close>

definition wanted :: "string \<Rightarrow> ('i, 'p) stream_event \<Rightarrow> bool" where
  "wanted actor event \<longleftrightarrow> actor = '''' \<or> EventActor event = actor"

definition scan :: "('i, 'p) events \<Rightarrow> ('i, 'p) watcher \<Rightarrow> ('i, 'p) watcher" where
  "scan e w =
     (if Position w = WritePos e then w\<lparr>Place := Asleep\<rparr>
      else if WritePos e - Position w \<ge> RingCap e then w\<lparr>Place := Gone\<rparr>
      else (let event = event_at e (Position w); pos = Position w + 1; backlog = WritePos e - pos
            in w\<lparr>Position := pos,
                 Place := (if \<not> wanted (Filter w) event then Scanning
                           else Sending \<lparr>InfoEvent = event, Backlog = backlog\<rparr>)\<rparr>))"

definition on_watcher :: "nat \<Rightarrow> ('i, 'p) watcher \<Rightarrow> ('i, 'p) stream_system \<Rightarrow> ('i, 'p) stream_system" where
  "on_watcher i w s = s\<lparr>Watchers := (Watchers s)[i := w]\<rparr>"

definition Publish :: "('i, 'p) stream_event \<Rightarrow> ('i, 'p) stream_system \<Rightarrow> ('i, 'p) stream_system" where
  "Publish event s =
     \<lparr>Stream = publish_event event (Stream s), Published = Published s @ [event], Watchers = map wake (Watchers s)\<rparr>"

definition Watch :: "'i::linorder xid_lib \<Rightarrow> int \<Rightarrow> 'i watch_options \<Rightarrow> ('i, 'p) stream_system \<Rightarrow> ('i, 'p) stream_system" where
  "Watch lib now opts s = s\<lparr>Watchers := Watchers s @ [new_watcher lib now opts (Stream s)]\<rparr>"

text \<open>
  The steps. A watcher asleep in Wait is woken by the Broadcast of a publish; it then holds the mutex
  again and looks at its context before it re-checks its position. A send succeeds when WatchFunc
  reads the channel, and is given up when WatchFunc has returned.
\<close>

inductive stream_step ::
    "'i::linorder xid_lib \<Rightarrow> ('i, 'p) stream_system \<Rightarrow> ('i, 'p) stream_system \<Rightarrow> bool" for lib where
  publish: "stream_step lib s (Publish event s)"
| watch: "apply_options fs (no_options lib) = Inr opts \<Longrightarrow> stream_step lib s (Watch lib now opts s)"
| scan: "i < length (Watchers s) \<Longrightarrow> Watchers s ! i = w \<Longrightarrow> Place w = Scanning \<Longrightarrow>
    stream_step lib s (on_watcher i (scan (Stream s) w) s)"
| woken: "i < length (Watchers s) \<Longrightarrow> Watchers s ! i = w \<Longrightarrow> Place w = Woken \<Longrightarrow>
    stream_step lib s (on_watcher i (if FuncDone w then w\<lparr>Place := Gone\<rparr> else scan (Stream s) w) s)"
| deliver: "i < length (Watchers s) \<Longrightarrow> Watchers s ! i = w \<Longrightarrow> Place w = Sending info \<Longrightarrow> \<not> FuncDone w \<Longrightarrow>
    stream_step lib s (on_watcher i (w\<lparr>Place := Scanning, Received := Received w @ [info]\<rparr>) s)"
| give_up: "i < length (Watchers s) \<Longrightarrow> Watchers s ! i = w \<Longrightarrow> Place w = Sending info \<Longrightarrow> FuncDone w \<Longrightarrow>
    stream_step lib s (on_watcher i (w\<lparr>Place := Gone\<rparr>) s)"
| func_returns: "i < length (Watchers s) \<Longrightarrow> Watchers s ! i = w \<Longrightarrow>
    stream_step lib s (on_watcher i (w\<lparr>FuncDone := True\<rparr>) s)"

inductive stream_reachable ::
    "'i::linorder xid_lib \<Rightarrow> int \<Rightarrow> int \<Rightarrow> ('i, 'p) stream_system \<Rightarrow> bool" for lib capacity gap where
  start: "NewEvents lib capacity gap = Ret e \<Longrightarrow>
    stream_reachable lib capacity gap \<lparr>Stream = e, Published = [], Watchers = []\<rparr>"
| step: "stream_reachable lib capacity gap s \<Longrightarrow> stream_step lib s s' \<Longrightarrow> stream_reachable lib capacity gap s'"

lemma search_loop_spec:
  assumes "i \<le> j" "\<forall>a b. f a \<longrightarrow> a \<le> b \<longrightarrow> b < j \<longrightarrow> f b"
  shows "i \<le> search_loop f i j \<and> search_loop f i j \<le> j \<and> (\<forall>k. i \<le> k \<and> k < search_loop f i j \<longrightarrow> \<not> f k) \<and>
    (\<forall>k. search_loop f i j \<le> k \<and> k < j \<longrightarrow> f k)"
  using assms
proof (induction f i j rule: search_loop.induct)
  case (1 f i j)
  show ?case
  proof (cases "i < j")
    case False
    then have "search_loop f i j = i" by (simp add: search_loop.simps [of f i j])
    with False "1.prems"(1) show ?thesis by auto
  next
    case True
    define h where "h = (i + j) div 2"
    have h: "i \<le> h" "h < j" using True by (simp_all add: h_def)
    show ?thesis
    proof (cases "f h")
      case fh: True
      have s: "search_loop f i j = search_loop f i h" using True fh by (simp add: search_loop.simps [of f i j] h_def)
      have "\<forall>a b. f a \<longrightarrow> a \<le> b \<longrightarrow> b < h \<longrightarrow> f b" using "1.prems"(2) h by auto
      from "1.IH"(2) [OF True h_def _ h(1) this] fh
      have IH: "i \<le> search_loop f i h \<and> search_loop f i h \<le> h \<and> (\<forall>k. i \<le> k \<and> k < search_loop f i h \<longrightarrow> \<not> f k) \<and>
        (\<forall>k. search_loop f i h \<le> k \<and> k < h \<longrightarrow> f k)" by simp
      then show ?thesis unfolding s using fh h "1.prems"(2) by (meson le_trans less_imp_le_nat not_le)
    next
      case fh: False
      have s: "search_loop f i j = search_loop f (h + 1) j" using True fh by (simp add: search_loop.simps [of f i j] h_def)
      have nf: "\<not> f k" if "k \<le> h" for k using "1.prems"(2) that h fh by blast
      from "1.IH"(1) [OF True h_def fh _ "1.prems"(2)] h
      have IH: "h + 1 \<le> search_loop f (h + 1) j \<and> search_loop f (h + 1) j \<le> j \<and>
        (\<forall>k. h + 1 \<le> k \<and> k < search_loop f (h + 1) j \<longrightarrow> \<not> f k) \<and> (\<forall>k. search_loop f (h + 1) j \<le> k \<and> k < j \<longrightarrow> f k)"
        by simp
      show ?thesis unfolding s
      proof (intro conjI allI impI)
        fix k assume "i \<le> k \<and> k < search_loop f (h + 1) j"
        then show "\<not> f k" using IH nf by (cases "k \<le> h") simp_all
      qed (use IH h in auto)
    qed
  qed
qed

section \<open>The interface of a bounded log\<close>

text \<open>
  What a consumer relies on: the store holds a growing log, counts it, and still has every entry of a
  window at its end. Consumers know nothing else of the ring.
\<close>

locale bounded_log =
  fixes holds :: "'e list \<Rightarrow> 's \<Rightarrow> bool"
    and push :: "'e \<Rightarrow> 's \<Rightarrow> 's"
    and size_of :: "'s \<Rightarrow> int"
    and window :: "'s \<Rightarrow> int"
    and entry :: "'s \<Rightarrow> int \<Rightarrow> 'e"
  assumes holds_push: "holds log s \<Longrightarrow> holds (log @ [e]) (push e s)"
    and window_push: "window (push e s) = window s"
    and holds_size: "holds log s \<Longrightarrow> size_of s = int (length log)"
    and holds_entry: "holds log s \<Longrightarrow> 0 \<le> p \<Longrightarrow> p < int (length log) \<Longrightarrow> int (length log) - p \<le> window s \<Longrightarrow>
      entry s p = log ! nat p"
begin

lemma holds_pushes: "holds log s \<Longrightarrow> holds (log @ es) (foldl (\<lambda>s e. push e s) s es)"
proof (induction es arbitrary: log s)
  case (Cons x es)
  from Cons.IH [OF holds_push [OF Cons.prems]] show ?case by simp
qed simp

text \<open>Reading from a position inside the window up to the end gives the rest of the log.\<close>

lemma read_rest:
  assumes "holds log s" "0 \<le> p" "int (length log) - p \<le> window s"
  shows "map (\<lambda>i. entry s (p + int i)) [0..<length log - nat p] = drop (nat p) log"
  using assms holds_entry [OF assms(1)] by (intro nth_equalityI) (simp_all add: nat_add_distrib)

text \<open>
  A search in a part of the log on which the predicate, once it holds, goes on holding: the position
  found is where the entries that satisfy it begin.
\<close>

lemma search_start:
  assumes "holds log s" "0 \<le> m" "m \<le> int (length log)" "int (length log) - m \<le> window s"
    and mono: "sorted_wrt (\<lambda>a b. P a \<longrightarrow> P b) log"
  defines "r \<equiv> m + sort_Search (size_of s - m) (\<lambda>i. P (entry s (m + int i)))"
  shows "m \<le> r \<and> r \<le> int (length log) \<and> drop (nat r) log = filter P (drop (nat m) log)"
proof -
  define f where "f = (\<lambda>i. P (entry s (m + int i)))"
  define k where "k = search_loop f 0 (length log - nat m)"
  have e: "f i = P (log ! (nat m + i))" if "i < length log - nat m" for i
    using holds_entry [OF assms(1), of "m + int i"] that assms(2-4) by (simp add: f_def nat_add_distrib)
  have later: "P (log ! b)" if "P (log ! a)" "a \<le> b" "b < length log" for a b
    using sorted_wrt_nth_less [OF mono, of a b] that by (cases "a = b") simp_all
  have mono_f: "\<forall>a b. f a \<longrightarrow> a \<le> b \<longrightarrow> b < length log - nat m \<longrightarrow> f b"
  proof (intro allI impI)
    fix a b assume "f a" "a \<le> b" "b < length log - nat m"
    then show "f b" using later [of "nat m + a" "nat m + b"] by (simp add: e)
  qed
  have spec: "k \<le> length log - nat m" "\<And>i. i < k \<Longrightarrow> \<not> f i" "\<And>i. k \<le> i \<Longrightarrow> i < length log - nat m \<Longrightarrow> f i"
    using search_loop_spec [OF le0 mono_f] unfolding k_def by simp_all
  have r: "r = m + int k" using assms(2,3) by (simp add: r_def k_def f_def sort_Search_def holds_size [OF assms(1)] nat_diff_distrib)
  then have n: "nat r = nat m + k" using assms(2) by (simp add: nat_add_distrib)
  have "filter P (drop (nat m) log) = filter P (take k (drop (nat m) log)) @ filter P (drop (nat r) log)"
    by (metis append_take_drop_id drop_drop filter_append n add.commute)
  also have "filter P (take k (drop (nat m) log)) = []"
    using spec(1,2) by (auto simp: filter_empty_conv in_set_conv_nth e)
  also have "filter P (drop (nat r) log) = drop (nat r) log"
  proof (rule filter_True, rule ballI)
    fix x assume "x \<in> set (drop (nat r) log)"
    then obtain i where "i < length log - nat r" "x = log ! (nat r + i)" by (auto simp: in_set_conv_nth)
    then show "P x" using spec(3) [of "k + i"] by (simp add: e n add.assoc)
  qed
  finally show ?thesis using r spec(1) assms(2,3) by simp
qed

end

text \<open>The ring holds the last RingCap events of the log.\<close>

definition ring_holds :: "('i, 'p) stream_event list \<Rightarrow> ('i, 'p) events \<Rightarrow> bool" where
  "ring_holds log e \<longleftrightarrow>
     0 < RingCap e \<and> length (StreamRing e) = nat (RingCap e) \<and> WritePos e = int (length log) \<and>
     (\<forall>p. 0 \<le> p \<and> p < int (length log) \<and> int (length log) - p \<le> RingCap e \<longrightarrow> event_at e p = log ! nat p)"

lemma slots_differ:
  fixes c :: int
  assumes "p < q" "q - p < c"
  shows "p mod c \<noteq> q mod c"
proof
  assume "p mod c = q mod c"
  then have "c dvd q - p" by (metis mod_eq_dvd_iff)
  with assms show False using zdvd_not_zless by force
qed

lemma publish_event_fields [simp]:
  "RingCap (publish_event x e) = RingCap e" "WritePos (publish_event x e) = WritePos e + 1"
  "Gap (publish_event x e) = Gap e" "length (StreamRing (publish_event x e)) = length (StreamRing e)"
  by (simp_all add: publish_event_def)

lemma event_at_publish:
  assumes "0 < RingCap e" "length (StreamRing e) = nat (RingCap e)" "p \<le> WritePos e" "WritePos e - p < RingCap e"
  shows "event_at (publish_event x e) p = (if p = WritePos e then x else event_at e p)"
proof -
  have b: "0 \<le> q mod RingCap e \<and> nat (q mod RingCap e) < length (StreamRing e)" for q
    using assms(1,2) by simp
  show ?thesis
  proof (cases "p = WritePos e")
    case True
    then show ?thesis using b [of p] by (simp add: event_at_def publish_event_def)
  next
    case False
    with assms(3,4) have "p mod RingCap e \<noteq> WritePos e mod RingCap e" by (intro slots_differ) simp_all
    then have "nat (p mod RingCap e) \<noteq> nat (WritePos e mod RingCap e)" using b by (simp add: eq_nat_nat_iff)
    with False show ?thesis by (simp add: event_at_def publish_event_def)
  qed
qed

interpretation ring: bounded_log ring_holds publish_event WritePos RingCap event_at
proof
  fix log and e :: "('i, 'p) events" and x
  assume h: "ring_holds log e"
  show "ring_holds (log @ [x]) (publish_event x e)"
    unfolding ring_holds_def
  proof (intro conjI allI impI)
    fix p assume p: "0 \<le> p \<and> p < int (length (log @ [x])) \<and> int (length (log @ [x])) - p \<le> RingCap (publish_event x e)"
    with h have "event_at (publish_event x e) p = (if p = WritePos e then x else event_at e p)"
      by (intro event_at_publish) (simp_all add: ring_holds_def)
    with h p show "event_at (publish_event x e) p = (log @ [x]) ! nat p"
      by (auto simp: ring_holds_def nth_append)
  qed (use h in \<open>simp_all add: ring_holds_def\<close>)
qed (simp_all add: ring_holds_def)


section \<open>The invariant of the watchers\<close>

definition in_flight :: "('i, 'p) watcher \<Rightarrow> ('i, 'p) stream_event list" where
  "in_flight w = (case Place w of Sending info \<Rightarrow> [InfoEvent info] | _ \<Rightarrow> [])"

text \<open>What a watcher has gone over: the wanted events from its start to its position.\<close>

definition gone_over :: "('i, 'p) stream_event list \<Rightarrow> ('i, 'p) watcher \<Rightarrow> ('i, 'p) stream_event list" where
  "gone_over log w = filter (wanted (Filter w)) (drop (nat (StartPos w)) (take (nat (Position w)) log))"

text \<open>The entries of a backlog are below the capacity: an older event is never handed out.\<close>

definition info_ok :: "int \<Rightarrow> ('i, 'p) event_info \<Rightarrow> bool" where
  "info_ok capacity info \<longleftrightarrow> 0 \<le> Backlog info \<and> Backlog info < capacity"

definition watcher_ok :: "int \<Rightarrow> ('i, 'p) stream_event list \<Rightarrow> ('i, 'p) watcher \<Rightarrow> bool" where
  "watcher_ok capacity log w \<longleftrightarrow>
     StartPos w \<le> Position w \<and> 0 \<le> StartPos w \<and> Position w \<le> int (length log) \<and>
     (\<exists>lost. map InfoEvent (Received w) @ in_flight w @ lost = gone_over log w \<and> length lost \<le> 1 \<and>
        (lost \<noteq> [] \<longrightarrow> Place w = Gone \<and> FuncDone w)) \<and>
     (\<forall>info \<in> set (Received w). info_ok capacity info) \<and>
     (\<forall>info. Place w = Sending info \<longrightarrow> info_ok capacity info) \<and>
     (Place w = Asleep \<longrightarrow> Position w = int (length log)) \<and>
     (Place w = Gone \<longrightarrow> FuncDone w \<or> int (length log) - Position w \<ge> capacity)"

definition stream_inv :: "int \<Rightarrow> ('i, 'p) stream_system \<Rightarrow> bool" where
  "stream_inv capacity s \<longleftrightarrow>
     ring_holds (Published s) (Stream s) \<and> RingCap (Stream s) = capacity \<and> Gap (Stream s) < capacity \<and>
     (\<forall>w \<in> set (Watchers s). watcher_ok capacity (Published s) w)"

lemma stream_inv_simps:
  assumes "stream_inv capacity s"
  shows "ring_holds (Published s) (Stream s)" "RingCap (Stream s) = capacity" "0 < capacity"
    "WritePos (Stream s) = int (length (Published s))" "Gap (Stream s) < capacity"
    "w \<in> set (Watchers s) \<Longrightarrow> watcher_ok capacity (Published s) w"
  using assms by (auto simp: stream_inv_def ring_holds_def)

lemma NewEvents_inv:
  assumes "NewEvents lib capacity gap = Ret e" "0 \<le> gap"
  shows "stream_inv capacity \<lparr>Stream = e, Published = [], Watchers = []\<rparr>" "RingCap e = capacity" "Gap e = gap"
  using assms by (auto simp: NewEvents_def stream_inv_def ring_holds_def split: if_splits)

lemma gone_over_grow: "Position w \<le> int (length log) \<Longrightarrow> gone_over (log @ es) w = gone_over log w"
  by (simp add: gone_over_def)

lemma wake_ok:
  assumes "watcher_ok capacity log w"
  shows "watcher_ok capacity (log @ [x]) (wake w)"
proof (cases "Place w = Asleep")
  case True
  with assms have "gone_over (log @ [x]) w = gone_over log w" by (intro gone_over_grow) (simp add: watcher_ok_def)
  with True assms show ?thesis by (simp add: watcher_ok_def wake_def in_flight_def gone_over_def)
next
  case False
  with assms have "gone_over (log @ [x]) w = gone_over log w" by (intro gone_over_grow) (simp add: watcher_ok_def)
  with False assms show ?thesis by (auto simp: watcher_ok_def wake_def)
qed

lemma search_bounds: "0 \<le> sort_Search n f \<and> sort_Search n f \<le> max n 0"
proof -
  have "i \<le> j \<Longrightarrow> i \<le> search_loop f i j \<and> search_loop f i j \<le> j" for i j
  proof (induction f i j rule: search_loop.induct)
    case (1 f i j)
    show ?case
    proof (cases "i < j")
      case False
      then have "search_loop f i j = i" by (simp add: search_loop.simps [of f i j])
      with "1.prems" show ?thesis by simp
    next
      case True
      define h where "h = (i + j) div 2"
      have h: "i \<le> h" "h < j" using True by (simp_all add: h_def)
      have s: "search_loop f i j = (if \<not> f h then search_loop f (h + 1) j else search_loop f i h)"
        using True by (simp add: search_loop.simps [of f i j] h_def)
      show ?thesis
        using "1.IH"(1) [OF True h_def] "1.IH"(2) [OF True h_def] h by (cases "f h") (simp_all add: s)
    qed
  qed
  from this [of 0 "nat n"] show ?thesis by (simp add: sort_Search_def)
qed

lemma start_pos_bounds:
  assumes "Gap e < RingCap e" "0 \<le> WritePos e"
  shows "0 \<le> start_pos lib now opts e \<and> start_pos lib now opts e \<le> WritePos e"
proof -
  have "0 \<le> min_pos e \<and> min_pos e \<le> WritePos e" using assms by (simp add: min_pos_def)
  then show ?thesis
    using search_bounds [of "WritePos e - min_pos e"] assms unfolding start_pos_def Let_def
    by (smt (verit, best))
qed

lemma new_watcher_ok:
  assumes "stream_inv capacity s"
  shows "watcher_ok capacity (Published s) (new_watcher lib now opts (Stream s))"
  using start_pos_bounds [of "Stream s" lib now opts] stream_inv_simps [OF assms]
  by (simp add: watcher_ok_def new_watcher_def in_flight_def gone_over_def)

lemma gone_over_next:
  assumes "0 \<le> StartPos w" "StartPos w \<le> Position w" "Position w < int (length log)"
  shows "gone_over log (w\<lparr>Position := Position w + 1, Place := p\<rparr>) =
    gone_over log w @ (if wanted (Filter w) (log ! nat (Position w)) then [log ! nat (Position w)] else [])"
proof -
  have "nat (Position w + 1) = Suc (nat (Position w))" using assms by simp
  moreover have "take (Suc (nat (Position w))) log = take (nat (Position w)) log @ [log ! nat (Position w)]"
    using assms by (intro take_Suc_conv_app_nth) simp
  ultimately show ?thesis using assms by (simp add: gone_over_def)
qed

lemma scan_ok:
  assumes inv: "stream_inv capacity s" and w: "watcher_ok capacity (Published s) w"
    and place: "Place w = Scanning \<or> Place w = Woken"
  shows "watcher_ok capacity (Published s) (scan (Stream s) w)"
proof -
  note I = stream_inv_simps [OF inv]
  let ?log = "Published s"
  have seen: "map InfoEvent (Received w) = gone_over ?log w" and fly: "in_flight w = []"
    using w place by (auto simp: watcher_ok_def in_flight_def)
  have pos: "0 \<le> StartPos w" "StartPos w \<le> Position w" "Position w \<le> int (length ?log)"
    and infos: "\<forall>info \<in> set (Received w). info_ok capacity info"
    using w by (simp_all add: watcher_ok_def)
  show ?thesis
  proof (cases "Position w = WritePos (Stream s)")
    case True
    with pos infos seen I show ?thesis by (simp add: scan_def watcher_ok_def in_flight_def gone_over_def)
  next
    case behind: False
    show ?thesis
    proof (cases "WritePos (Stream s) - Position w \<ge> capacity")
      case True
      with behind pos infos seen I show ?thesis by (simp add: scan_def watcher_ok_def in_flight_def gone_over_def)
    next
      case False
      define ev where "ev = event_at (Stream s) (Position w)"
      have lt: "Position w < int (length ?log)" using behind pos I by simp
      then have ev: "ev = ?log ! nat (Position w)"
        unfolding ev_def using False pos I by (intro ring.holds_entry [OF I(1)]) simp_all
      define info where "info = \<lparr>InfoEvent = ev, Backlog = WritePos (Stream s) - (Position w + 1)\<rparr>"
      define p where "p = (if \<not> wanted (Filter w) ev then Scanning else Sending info)"
      have s: "scan (Stream s) w = w\<lparr>Position := Position w + 1, Place := p\<rparr>"
        using behind False I by (simp add: scan_def Let_def p_def info_def ev_def)
      have "info_ok capacity info" using lt False I by (simp add: info_ok_def info_def)
      moreover have "map InfoEvent (Received w) @ in_flight (scan (Stream s) w) = gone_over ?log (scan (Stream s) w)"
        unfolding s gone_over_next [OF pos(1,2) lt] by (simp add: seen in_flight_def p_def ev info_def)
      ultimately show ?thesis using pos infos lt unfolding watcher_ok_def
        by (intro conjI exI [of _ "[]"]) (simp_all add: s p_def)
    qed
  qed
qed

lemma on_watcher_inv:
  assumes "stream_inv capacity s" "watcher_ok capacity (Published s) w"
  shows "stream_inv capacity (on_watcher i w s)"
  using assms set_update_subset_insert [of "Watchers s" i w] by (auto simp: stream_inv_def on_watcher_def)

lemma stream_inv_step:
  assumes "stream_step lib s s'" "stream_inv capacity s"
  shows "stream_inv capacity s'"
  using assms
proof (induction rule: stream_step.induct)
  case (publish s event)
  note I = stream_inv_simps [OF publish]
  show ?case
    using ring.holds_push [OF I(1), of event] I(2,5,6)
    by (auto simp: stream_inv_def Publish_def intro!: wake_ok)
next
  case (watch fs opts s now)
  from new_watcher_ok [OF watch(2)] watch(2) show ?case by (auto simp: stream_inv_def Watch_def)
next
  case (scan i s w)
  then have "watcher_ok capacity (Published s) w" by (metis nth_mem stream_inv_simps(6))
  with scan show ?case by (intro on_watcher_inv scan_ok) simp_all
next
  case (woken i s w)
  then have w: "watcher_ok capacity (Published s) w" by (metis nth_mem stream_inv_simps(6))
  show ?case
  proof (intro on_watcher_inv woken)
    have "watcher_ok capacity (Published s) (scan (Stream s) w)" using woken w by (intro scan_ok) simp_all
    moreover have "FuncDone w \<Longrightarrow> watcher_ok capacity (Published s) (w\<lparr>Place := Gone\<rparr>)"
      using w woken(3) by (simp add: watcher_ok_def in_flight_def gone_over_def)
    ultimately show "watcher_ok capacity (Published s) (if FuncDone w then w\<lparr>Place := Gone\<rparr> else scan (Stream s) w)"
      by simp
  qed
next
  case (deliver i s w info)
  then have "watcher_ok capacity (Published s) w" by (metis nth_mem stream_inv_simps(6))
  with deliver show ?case
    by (intro on_watcher_inv) (auto simp: watcher_ok_def in_flight_def gone_over_def)
next
  case (give_up i s w info)
  then have "watcher_ok capacity (Published s) w" by (metis nth_mem stream_inv_simps(6))
  with give_up show ?case
    by (intro on_watcher_inv) (auto simp: watcher_ok_def in_flight_def gone_over_def)
next
  case (func_returns i s w)
  then have "watcher_ok capacity (Published s) w" by (metis nth_mem stream_inv_simps(6))
  with func_returns show ?case
    by (intro on_watcher_inv) (auto simp: watcher_ok_def in_flight_def gone_over_def)
qed

lemma stream_reachable_inv:
  "stream_reachable lib capacity gap s \<Longrightarrow> 0 \<le> gap \<Longrightarrow> stream_inv capacity s \<and> Gap (Stream s) = gap"
proof (induction rule: stream_reachable.induct)
  case (start e)
  from NewEvents_inv [OF start] show ?case by simp
next
  case (step s s')
  from step.hyps(2) have "Gap (Stream s') = Gap (Stream s)"
    by cases (simp_all add: Publish_def Watch_def on_watcher_def)
  with step stream_inv_step [OF step.hyps(2)] show ?case by simp
qed


text \<open>
  How a watcher that is left alone goes on: a measure that every step of it but the last decreases.
\<close>

definition work_left :: "('i, 'p) stream_event list \<Rightarrow> ('i, 'p) watcher \<Rightarrow> nat" where
  "work_left log w = 3 * nat (int (length log) - Position w) +
     (case Place w of Sending info \<Rightarrow> 2 | Asleep \<Rightarrow> 0 | _ \<Rightarrow> 1)"

lemma scan_work:
  assumes "WritePos e = int (length log)" "Position w \<le> WritePos e" "WritePos e - Position w < RingCap e"
    "Place w = Scanning \<or> Place w = Woken"
  shows "work_left log (scan e w) < work_left log w"
  using assms by (auto simp: work_left_def scan_def Let_def)

lemma scan_fields [simp]:
  "Filter (scan e w) = Filter w" "StartPos (scan e w) = StartPos w" "FuncDone (scan e w) = FuncDone w"
  "Received (scan e w) = Received w"
  by (simp_all add: scan_def Let_def)

text \<open>One step of watcher i: what it needs to go on later is kept.\<close>

definition alive :: "int \<Rightarrow> ('i, 'p) stream_event list \<Rightarrow> ('i, 'p) watcher \<Rightarrow> bool" where
  "alive capacity log w \<longleftrightarrow> \<not> FuncDone w \<and> Place w \<noteq> Gone \<and> int (length log) - Position w < capacity"

lemma watcher_advances:
  assumes inv: "stream_inv capacity s" and i: "i < length (Watchers s)"
    and w: "Watchers s ! i = w" and alive: "alive capacity (Published s) w" and awake: "Place w \<noteq> Asleep"
  obtains w' where "stream_step lib s (on_watcher i w' s)" "alive capacity (Published s) w'"
    "work_left (Published s) w' < work_left (Published s) w" "Filter w' = Filter w" "StartPos w' = StartPos w"
proof -
  note I = stream_inv_simps [OF inv]
  have ok: "watcher_ok capacity (Published s) w" using i w I(6) by auto
  have pos: "Position w \<le> WritePos (Stream s)" "WritePos (Stream s) - Position w < RingCap (Stream s)"
    using ok alive I by (simp_all add: watcher_ok_def alive_def)
  consider "Place w = Scanning" | "Place w = Woken" | info where "Place w = Sending info"
    using alive awake by (cases "Place w") (auto simp: alive_def)
  then show ?thesis
  proof cases
    case 1
    show ?thesis
    proof (rule that)
      show "stream_step lib s (on_watcher i (scan (Stream s) w) s)" using i w 1 by (rule stream_step.scan)
    qed (use 1 pos alive I scan_work [OF I(4) pos] in \<open>auto simp: alive_def scan_def Let_def\<close>)
  next
    case 2
    show ?thesis
    proof (rule that)
      show "stream_step lib s (on_watcher i (scan (Stream s) w) s)"
        using stream_step.woken [OF i w 2, of lib] alive by (simp add: alive_def)
    qed (use 2 pos alive I scan_work [OF I(4) pos] in \<open>auto simp: alive_def scan_def Let_def\<close>)
  next
    case 3
    show ?thesis
    proof (rule that)
      show "stream_step lib s (on_watcher i (w\<lparr>Place := Scanning, Received := Received w @ [info]\<rparr>) s)"
        using i w 3 alive by (intro stream_step.deliver) (simp_all add: alive_def)
    qed (use 3 alive in \<open>simp_all add: alive_def work_left_def\<close>)
  qed
qed

lemma on_watcher_fields [simp]:
  "Published (on_watcher i w s) = Published s" "Stream (on_watcher i w s) = Stream s"
  "i < length (Watchers s) \<Longrightarrow> Watchers (on_watcher i w s) ! i = w"
  "length (Watchers (on_watcher i w s)) = length (Watchers s)"
  by (simp_all add: on_watcher_def)

lemma catches_up:
  assumes "stream_inv capacity s" "i < length (Watchers s)" "alive capacity (Published s) (Watchers s ! i)"
  shows "\<exists>s'. (stream_step lib)\<^sup>*\<^sup>* s s' \<and> Published s' = Published s \<and> Place (Watchers s' ! i) = Asleep \<and>
    map InfoEvent (Received (Watchers s' ! i)) =
      filter (wanted (Filter (Watchers s ! i))) (drop (nat (StartPos (Watchers s ! i))) (Published s))"
  using assms
proof (induction "work_left (Published s) (Watchers s ! i)" arbitrary: s rule: less_induct)
  case less
  show ?case
  proof (cases "Place (Watchers s ! i) = Asleep")
    case True
    have "watcher_ok capacity (Published s) (Watchers s ! i)" using less.prems stream_inv_simps(6) by (metis nth_mem)
    with True show ?thesis by (intro exI [of _ s]) (auto simp: watcher_ok_def gone_over_def in_flight_def)
  next
    case False
    obtain w' where w': "stream_step lib s (on_watcher i w' s)" "alive capacity (Published s) w'"
      "work_left (Published s) w' < work_left (Published s) (Watchers s ! i)"
      "Filter w' = Filter (Watchers s ! i)" "StartPos w' = StartPos (Watchers s ! i)"
      using watcher_advances [OF less.prems(1,2) refl less.prems(3) False, where lib = lib] by blast
    let ?t = "on_watcher i w' s"
    have "work_left (Published ?t) (Watchers ?t ! i) < work_left (Published s) (Watchers s ! i)"
      using w'(3) less.prems(2) by simp
    from less.hyps [OF this stream_inv_step [OF w'(1) less.prems(1)]] w'(2) less.prems(2)
    obtain s' where s': "(stream_step lib)\<^sup>*\<^sup>* ?t s'" "Published s' = Published s" "Place (Watchers s' ! i) = Asleep"
      "map InfoEvent (Received (Watchers s' ! i)) =
         filter (wanted (Filter w')) (drop (nat (StartPos w')) (Published s))" by auto
    from w'(1) s'(1) have "(stream_step lib)\<^sup>*\<^sup>* s s'" by (rule converse_rtranclp_into_rtranclp)
    with s' w'(4,5) show ?thesis by auto
  qed
qed

section \<open>Properties\<close>

text \<open>C8: the watchers refine the log of published events: whatever the order of publishing, reading,
  sending and giving up, what WatchFunc has received together with what is being sent is exactly the
  wanted events from the start of the watcher to its position, in their order, none twice and none
  left out; a watcher asleep has nothing left to read, so no wake-up is lost; and a watcher is gone
  only because its function returned (then at most the event being sent is lost) or because the
  stream is a whole capacity ahead of it. No received event was more than a capacity behind.\<close>

theorem watchers_follow_log:
  assumes "stream_reachable lib capacity gap s" "0 \<le> gap" "w \<in> set (Watchers s)"
  shows "(\<exists>lost. map InfoEvent (Received w) @ in_flight w @ lost =
            filter (wanted (Filter w)) (drop (nat (StartPos w)) (take (nat (Position w)) (Published s)))
          \<and> (lost = [] \<or> (length lost = 1 \<and> Place w = Gone \<and> FuncDone w)))
     \<and> (Place w = Asleep \<longrightarrow> Position w = int (length (Published s)))
     \<and> (Place w = Gone \<longrightarrow> FuncDone w \<or> int (length (Published s)) - Position w \<ge> capacity)
     \<and> (\<forall>info \<in> set (Received w). 0 \<le> Backlog info \<and> Backlog info < capacity)"
proof -
  have ok: "watcher_ok capacity (Published s) w"
    using stream_reachable_inv [OF assms(1,2)] assms(3) by (simp add: stream_inv_def)
  then obtain lost where l: "map InfoEvent (Received w) @ in_flight w @ lost = gone_over (Published s) w"
    "length lost \<le> 1" "lost \<noteq> [] \<longrightarrow> Place w = Gone \<and> FuncDone w" by (auto simp: watcher_ok_def)
  have "lost = [] \<or> (length lost = 1 \<and> Place w = Gone \<and> FuncDone w)" using l(2,3) by (cases lost) auto
  with l(1) ok show ?thesis unfolding gone_over_def watcher_ok_def info_ok_def by blast
qed

text \<open>Where a watcher starts. With identifiers and their times in publishing order, TailEvents
  replays that many of the available events (all of them if negative), TailID those with a greater
  identifier, TailDuration those of a later time than the duration ago, and without an option the
  watcher starts after the last event; available are the last capacity - gap events.\<close>

theorem watch_start:
  assumes "stream_reachable lib capacity gap s" "0 \<le> gap" "sorted (map EventID (Published s))" "mono (IDTime lib)"
  defines "available \<equiv> drop (length (Published s) - nat (capacity - gap)) (Published s)"
  shows "drop (nat (start_pos lib now opts (Stream s))) (Published s) =
    (if TailEvents opts < 0 then available
     else if TailEvents opts > 0 then
       drop (length (Published s) - min (nat (TailEvents opts)) (nat (capacity - gap))) (Published s)
     else if TailID opts \<noteq> NilID lib then filter (\<lambda>e. EventID e > TailID opts) available
     else if TailDuration opts \<noteq> 0 then filter (\<lambda>e. IDTime lib (EventID e) > now - TailDuration opts) available
     else [])"
proof -
  have inv: "stream_inv capacity s" and gap: "Gap (Stream s) = gap" using stream_reachable_inv [OF assms(1,2)] by auto
  note I = stream_inv_simps [OF inv]
  define m where "m = min_pos (Stream s)"
  have m: "0 \<le> m" "m \<le> int (length (Published s))" "int (length (Published s)) - m \<le> RingCap (Stream s)"
    "nat m = length (Published s) - nat (capacity - gap)"
    using I assms(2) by (auto simp: m_def min_pos_def gap)
  have ord: "sorted_wrt (\<lambda>a b. EventID a \<le> EventID b) (Published s)" using assms(3) by (simp add: sorted_map)
  have "sorted_wrt (\<lambda>a b. EventID a > TailID opts \<longrightarrow> EventID b > TailID opts) (Published s)"
    by (rule sorted_wrt_mono_rel [OF _ ord]) auto
  note by_id = ring.search_start [OF I(1) m(1-3) this]
  have "sorted_wrt (\<lambda>a b. IDTime lib (EventID a) > now - TailDuration opts \<longrightarrow>
      IDTime lib (EventID b) > now - TailDuration opts) (Published s)"
    by (rule sorted_wrt_mono_rel [OF _ ord]) (meson assms(4) less_le_trans monoD)
  note by_time = ring.search_start [OF I(1) m(1-3) this]
  have tail: "nat (max (WritePos (Stream s) - TailEvents opts) m) =
      length (Published s) - min (nat (TailEvents opts)) (nat (capacity - gap))" if "TailEvents opts > 0"
    using that I(4,5) m(1,4) by (auto simp: max_def min_def)
  show ?thesis
    using by_id by_time tail I(4) unfolding start_pos_def Let_def available_def m_def [symmetric] m(4) [symmetric]
    by (simp add: m(4))
qed

text \<open>A watcher that is not a whole capacity behind and whose function goes on reading receives
  every wanted event published since its start, and then sleeps, whatever it was doing before.\<close>

theorem watcher_catches_up:
  assumes "stream_reachable lib capacity gap s" "0 \<le> gap" "i < length (Watchers s)" "w = Watchers s ! i"
    "\<not> FuncDone w" "Place w \<noteq> Gone" "int (length (Published s)) - Position w < capacity"
  shows "\<exists>s'. (stream_step lib)\<^sup>*\<^sup>* s s' \<and> Published s' = Published s \<and> Place (Watchers s' ! i) = Asleep \<and>
    map InfoEvent (Received (Watchers s' ! i)) = filter (wanted (Filter w)) (drop (nat (StartPos w)) (Published s))"
  using catches_up [of capacity s i lib] stream_reachable_inv [OF assms(1,2)] assms(3-) by (simp add: alive_def)

text \<open>Witnesses: a watcher that asks for the last event, in a stream of three, and then reads it.\<close>

definition demo_lib :: "nat xid_lib" where
  "demo_lib = \<lparr>NilID = 0, IDTime = int\<rparr>"

definition demo_stream_event :: "nat \<Rightarrow> (nat, unit) stream_event" where
  "demo_stream_event i = NewEvent (\<lambda>_. ''x'') i (Some ()) ''a''"

definition demo_stream :: "(nat, unit) events" where
  "demo_stream = \<lparr>StreamRing = replicate 4 (zero_stream_event demo_lib), WritePos = 0, RingCap = 4, Gap = 1\<rparr>"

definition demo_published :: "(nat, unit) stream_system" where
  "demo_published = Publish (demo_stream_event 3) (Publish (demo_stream_event 2) (Publish (demo_stream_event 1)
     \<lparr>Stream = demo_stream, Published = [], Watchers = []\<rparr>))"

definition demo_options :: "nat watch_options" where
  "demo_options = \<lparr>TailEvents = 0, TailID = 2, TailDuration = 0, ActorID = ''a''\<rparr>"

definition demo_watched :: "(nat, unit) stream_system" where
  "demo_watched = Watch demo_lib 0 demo_options demo_published"

lemma demo_published_reachable: "stream_reachable demo_lib 4 1 demo_published"
proof -
  have "NewEvents demo_lib 4 1 = Ret demo_stream" by (simp add: NewEvents_def demo_stream_def)
  then show ?thesis unfolding demo_published_def
    by (intro stream_reachable.step [OF _ stream_step.publish] stream_reachable.start)
qed

lemma demo_watched_reachable: "stream_reachable demo_lib 4 1 demo_watched"
proof -
  have "apply_options [WithTailID 2, WithActorID ''a''] (no_options demo_lib) = Inr demo_options"
    by (simp add: WithTailID_def WithActorID_def no_options_def demo_options_def)
  from stream_step.watch [OF this] show ?thesis unfolding demo_watched_def
    by (rule stream_reachable.step [OF demo_published_reachable])
qed

lemma demo_published_ids: "Published demo_published = map demo_stream_event [1, 2, 3]"
  by (simp add: demo_published_def Publish_def)

lemma demo_start: "start_pos demo_lib 0 demo_options (Stream demo_published) = 2"
  by (simp add: demo_published_def demo_stream_def demo_stream_event_def demo_lib_def demo_options_def Publish_def
      NewEvent_def start_pos_def min_pos_def publish_event_def event_at_def sort_Search_def search_loop.simps
      nth_list_update Let_def)

lemma demo_watcher: "Watchers demo_watched =
    [\<lparr>Place = Scanning, Position = 2, Filter = ''a'', FuncDone = False, Received = [], StartPos = 2\<rparr>]"
  using demo_start by (simp add: demo_watched_def Watch_def new_watcher_def demo_published_def Publish_def demo_options_def)

theorem watchers_follow_log_witness:
  "\<exists>w. Watchers demo_watched = [w] \<and> map InfoEvent (Received w) @ in_flight w = []"
  using watchers_follow_log [OF demo_watched_reachable, of "hd (Watchers demo_watched)"]
  by (simp add: demo_watcher)

theorem watch_start_witness:
  "drop (nat (start_pos demo_lib 0 demo_options (Stream demo_published))) (Published demo_published) = [demo_stream_event 3]"
  by (subst watch_start [OF demo_published_reachable])
     (simp_all add: demo_published_ids demo_options_def demo_lib_def demo_stream_event_def NewEvent_def mono_def)

theorem watcher_catches_up_witness:
  "\<exists>s'. (stream_step demo_lib)\<^sup>*\<^sup>* demo_watched s' \<and> map InfoEvent (Received (Watchers s' ! 0)) = [demo_stream_event 3]"
proof -
  have "Published demo_watched = map demo_stream_event [1, 2, 3]"
    using demo_published_ids by (simp add: demo_watched_def Watch_def)
  with watcher_catches_up [OF demo_watched_reachable, of 0 "Watchers demo_watched ! 0"] demo_watcher show ?thesis
    by (auto simp: wanted_def demo_stream_event_def NewEvent_def)
qed

text \<open>
  The identifier of an event is made before the mutex is taken (NewEvent, then Lock), so two
  publishers may store their events in the order opposite to their identifiers. Then the bisection
  of Watch is not on a sorted history: a watcher that asks for the events after an identifier is
  not given an event with a greater one.
\<close>

definition swapped_stream :: "(nat, unit) stream_system" where
  "swapped_stream = Publish (demo_stream_event 2) (Publish (demo_stream_event 3)
     \<lparr>Stream = demo_stream, Published = [], Watchers = []\<rparr>)"

lemma tail_id_misses:
  "stream_reachable demo_lib 4 1 swapped_stream \<and> map EventID (Published swapped_stream) = [3, 2] \<and>
   start_pos demo_lib 0 demo_options (Stream swapped_stream) = 2"
proof (intro conjI)
  have "NewEvents demo_lib 4 1 = Ret demo_stream" by (simp add: NewEvents_def demo_stream_def)
  then show "stream_reachable demo_lib 4 1 swapped_stream" unfolding swapped_stream_def
    by (intro stream_reachable.step [OF _ stream_step.publish] stream_reachable.start)
  show "map EventID (Published swapped_stream) = [3, 2]"
    by (simp add: swapped_stream_def Publish_def demo_stream_event_def NewEvent_def)
  show "start_pos demo_lib 0 demo_options (Stream swapped_stream) = 2"
    by (simp add: swapped_stream_def demo_stream_def demo_stream_event_def demo_lib_def demo_options_def Publish_def
        NewEvent_def start_pos_def min_pos_def publish_event_def event_at_def sort_Search_def search_loop.simps
        nth_list_update Let_def)
qed

end
