(* ===== verification/Automaton.thy ===== *)
theory Automaton
  imports Prelude
begin

text \<open>
  Controller automata (internal/app/machined/pkg/automaton): a controller runs one whenever it is
  reconciled; the automaton goes from state to state until a state wants to wait, fails, or there is
  no next state. The instance of blockautomaton mounts a volume, calls its user back and unmounts.

  A state function is an argument of the model's \<open>Run_automaton\<close>: it maps a state and the history of
  effects to its result and the effects it had. What the COSI runtime and the callback answer is
  asked of an environment that sees the whole history, so other controllers may change everything
  between any two calls.
\<close>

section \<open>The automaton\<close>

text \<open>The result of a state function: the next state (None where the code returns nil), an error
  tagged Continue, or another error.\<close>

datatype ('s, 'e) step_result = NextState "'s option" | Continue string | StepError 'e

text \<open>How Run ends: the automaton is done and AfterFunc has run (with its error, if any), it waits, or
  a state failed.\<close>

datatype 'e automaton_end = Finished "'e option" | Waits | RunFails 'e

text \<open>
  The loop of Run. The automaton keeps its state when a state function waits or fails. The loop may
  run forever (a state may be its own successor), so the result is an option; the effects are the
  last component.
\<close>

partial_function (option) Run_automaton ::
    "('s \<Rightarrow> 'h list \<Rightarrow> ('s, 'e) step_result \<times> 'v list) \<Rightarrow> ('v \<Rightarrow> 'h) \<Rightarrow> 'e option \<Rightarrow> 's option \<Rightarrow> 'h list \<Rightarrow> 'v list \<Rightarrow>
       ('e automaton_end \<times> 's option \<times> 'v list) option" where
  "Run_automaton step emit after st h evs =
     (case st of
        None \<Rightarrow> Some (Finished after, None, evs)
      | Some s \<Rightarrow>
          (case step s (h @ map emit evs) of
             (StepError e, new) \<Rightarrow> Some (RunFails e, st, evs @ new)
           | (Continue msg, new) \<Rightarrow> Some (Waits, st, evs @ new)
           | (NextState st', new) \<Rightarrow> Run_automaton step emit after st' h (evs @ new)))"

declare Run_automaton.simps [code]

section \<open>Mounting a volume\<close>

record mount_status =
  StatusReadOnly :: bool
  Finalizers :: "string list"

record mount_context =
  mountID :: string
  volumeID :: string
  requester :: string
  WithReadOnly :: bool
  WithDetached :: bool

text \<open>The states are the state functions; callbackWithMountStatus closes over the status it was made
  with.\<close>

datatype mount_state =
    CreateVolumeMountRequest
  | WaitForMountStatus
  | CallbackWithMountStatus mount_status
  | RemoveMountStatusFinalizer
  | RemoveMountRequest
  | WaitForVolumeMountStatusRemoved

text \<open>The effects; the callback's one carries its error or its value.\<close>

datatype ('e, 'a) mount_event =
    RequestWritten string string string bool bool
  | FinalizerAdded string string
  | CallbackRan mount_status "'e + 'a"
  | FinalizerRemoved string string
  | TornDown string bool
  | RequestDestroyed string

datatype 'e mount_error = CreatingRequest 'e | ReadingStatus 'e | AddingFinalizer 'e | InCallback 'e
  | RemovingFinalizer 'e | TearingDown 'e | DestroyingRequest 'e

record ('h, 'e, 'a) mount_env =
  AnsWrite :: "'h list \<Rightarrow> 'e option"
  AnsStatus :: "'h list \<Rightarrow> 'e + mount_status option"
  AnsAddFinalizer :: "'h list \<Rightarrow> 'e option"
  AnsCallback :: "'h list \<Rightarrow> mount_status \<Rightarrow> 'e + 'a"
  AnsRemoveFinalizer :: "'h list \<Rightarrow> 'e option"
  AnsTeardown :: "'h list \<Rightarrow> 'e + bool"
  AnsDestroy :: "'h list \<Rightarrow> 'e option"

definition NewVolumeMounter :: "string \<Rightarrow> string \<Rightarrow> bool \<Rightarrow> bool \<Rightarrow> mount_context \<times> mount_state option" where
  "NewVolumeMounter req vol readOnly detached =
     (\<lparr>mountID = req @ ''-'' @ vol, volumeID = vol, requester = req, WithReadOnly = readOnly, WithDetached = detached\<rparr>,
      Some CreateVolumeMountRequest)"

fun mount_step ::
    "('h, 'e, 'a) mount_env \<Rightarrow> mount_context \<Rightarrow> mount_state \<Rightarrow> 'h list \<Rightarrow>
       (mount_state, 'e mount_error) step_result \<times> ('e, 'a) mount_event list" where
  "mount_step env ctx CreateVolumeMountRequest h =
     (case AnsWrite env h of
        Some e \<Rightarrow> (StepError (CreatingRequest e), [])
      | None \<Rightarrow> (NextState (Some WaitForMountStatus),
          [RequestWritten (mountID ctx) (volumeID ctx) (requester ctx) (WithReadOnly ctx) (WithDetached ctx)]))"
| "mount_step env ctx WaitForMountStatus h =
     (case AnsStatus env h of
        Inl e \<Rightarrow> (StepError (ReadingStatus e), [])
      | Inr None \<Rightarrow> (Continue ''waiting for mount status to be established'', [])
      | Inr (Some st) \<Rightarrow>
          if StatusReadOnly st \<and> \<not> WithReadOnly ctx then
            (Continue ''volume is mounted read-only, but read-write was requested'', [])
          else if requester ctx \<notin> set (Finalizers st) then
            (case AnsAddFinalizer env h of
               Some e \<Rightarrow> (StepError (AddingFinalizer e), [])
             | None \<Rightarrow> (NextState (Some (CallbackWithMountStatus st)), [FinalizerAdded (mountID ctx) (requester ctx)]))
          else (NextState (Some (CallbackWithMountStatus st)), []))"
| "mount_step env ctx (CallbackWithMountStatus st) h =
     (case AnsCallback env h st of
        Inl e \<Rightarrow> (StepError (InCallback e), [CallbackRan st (Inl e)])
      | Inr x \<Rightarrow> (NextState (Some RemoveMountStatusFinalizer), [CallbackRan st (Inr x)]))"
| "mount_step env ctx RemoveMountStatusFinalizer h =
     (case AnsRemoveFinalizer env h of
        Some e \<Rightarrow> (StepError (RemovingFinalizer e), [])
      | None \<Rightarrow> (NextState (Some RemoveMountRequest), [FinalizerRemoved (mountID ctx) (requester ctx)]))"
| "mount_step env ctx RemoveMountRequest h =
     (case AnsTeardown env h of
        Inl e \<Rightarrow> (StepError (TearingDown e), [])
      | Inr False \<Rightarrow> (Continue ''mount request is not ready to be destroyed'', [TornDown (mountID ctx) False])
      | Inr True \<Rightarrow>
          (case AnsDestroy env h of
             Some e \<Rightarrow> (StepError (DestroyingRequest e), [TornDown (mountID ctx) True])
           | None \<Rightarrow> (NextState (Some WaitForVolumeMountStatusRemoved), [TornDown (mountID ctx) True, RequestDestroyed (mountID ctx)])))"
| "mount_step env ctx WaitForVolumeMountStatusRemoved h =
     (case AnsStatus env h of
        Inl e \<Rightarrow> (StepError (ReadingStatus e), [])
      | Inr None \<Rightarrow> (NextState None, [])
      | Inr (Some st) \<Rightarrow> (Continue ''waiting for mount status to be removed'', []))"

fun mount_rank :: "mount_state option \<Rightarrow> nat" where
  "mount_rank (Some CreateVolumeMountRequest) = 6"
| "mount_rank (Some WaitForMountStatus) = 5"
| "mount_rank (Some (CallbackWithMountStatus st)) = 4"
| "mount_rank (Some RemoveMountStatusFinalizer) = 3"
| "mount_rank (Some RemoveMountRequest) = 2"
| "mount_rank (Some WaitForVolumeMountStatusRemoved) = 1"
| "mount_rank None = 0"

lemma mount_step_rank: "mount_step env ctx s h = (NextState st', new) \<Longrightarrow> mount_rank st' < mount_rank (Some s)"
  by (cases s) (auto split: option.splits sum.splits bool.splits if_splits)

abbreviation Run_mounter ::
    "('h, 'e, 'a) mount_env \<Rightarrow> (('e, 'a) mount_event \<Rightarrow> 'h) \<Rightarrow> mount_context \<Rightarrow> 'e mount_error option \<Rightarrow> mount_state option \<Rightarrow>
       'h list \<Rightarrow> ('e, 'a) mount_event list \<Rightarrow> ('e mount_error automaton_end \<times> mount_state option \<times> ('e, 'a) mount_event list) option" where
  "Run_mounter env emit ctx \<equiv> Run_automaton (mount_step env ctx) emit"

text \<open>Every run of the mounter returns, and leaves it finished, in a state that waits, or where it failed.\<close>

lemma mounter_returns:
  "\<exists>r st' new. Run_mounter env emit ctx after st h evs = Some (r, st', evs @ new)"
proof (induction "mount_rank st" arbitrary: st evs rule: less_induct)
  case less
  show ?case
  proof (cases st)
    case None
    then show ?thesis by (simp add: Run_automaton.simps)
  next
    case (Some s)
    obtain res new where s: "mount_step env ctx s (h @ map emit evs) = (res, new)" by fastforce
    show ?thesis
    proof (cases res)
      case (NextState st')
      have "mount_rank st' < mount_rank st" using mount_step_rank s NextState Some by metis
      from less [OF this, of "evs @ new"] show ?thesis
        unfolding Some by (subst Run_automaton.simps) (auto simp: s NextState)
    next
      case (Continue msg)
      then show ?thesis unfolding Some by (subst Run_automaton.simps) (simp add: s)
    next
      case (StepError e)
      then show ?thesis unfolding Some by (subst Run_automaton.simps) (simp add: s)
    qed
  qed
qed

section \<open>The protocol of a mount\<close>

text \<open>
  What a controller does over time: it runs the mounter once per reconciliation, any number of
  times, each with the answers of that time, and stops once the mounter is done. \<open>mounted\<close> relates the
  state of the mounter to the effects it has had since it was made.
\<close>

inductive mounted ::
    "(('e, 'a) mount_event \<Rightarrow> 'h) \<Rightarrow> mount_context \<Rightarrow> mount_state option \<Rightarrow> ('e, 'a) mount_event list \<Rightarrow> bool"
  for emit ctx where
  new: "mounted emit ctx (Some CreateVolumeMountRequest) []"
| again: "mounted emit ctx st evs \<Longrightarrow> Run_mounter env emit ctx after st h [] = Some (r, st', new) \<Longrightarrow>
    mounted emit ctx st' (evs @ new)"

text \<open>An invariant of the state and of all effects that every step keeps is kept by a run.\<close>

lemma Run_automaton_keeps:
  fixes step :: "'s \<Rightarrow> 'h list \<Rightarrow> ('s, 'e) step_result \<times> 'v list"
  assumes run: "Run_automaton step emit after st hist evs = Some (r, st', out)" and I: "I st (old @ evs)"
    and step: "\<And>s h evs res new. I (Some s) evs \<Longrightarrow> step s h = (res, new) \<Longrightarrow>
      I (case res of NextState st' \<Rightarrow> st' | _ \<Rightarrow> Some s) (evs @ new)"
  shows "I st' (old @ out)"
proof -
  define P where "P = (\<lambda>stp em a st (h :: 'h list) evs (y :: 'e automaton_end \<times> 's option \<times> 'v list). stp = step \<and> em = emit \<and> a = after \<longrightarrow> I st (old @ evs) \<longrightarrow>
    I (fst (snd y)) (old @ snd (snd y)))"
  have "P step emit after st hist evs (r, st', out)"
  proof (rule Run_automaton.raw_induct [OF _ run])
    fix run stp em a st h evs y
    assume IH: "\<And>stp em a st h evs y. run stp em a st h evs = Some y \<Longrightarrow> P stp em a st h evs y"
      and eq: "(case st of None \<Rightarrow> Some (Finished a, None, evs)
          | Some s \<Rightarrow> (case stp s (h @ map em evs) of
              (StepError e, new) \<Rightarrow> Some (RunFails e, st, evs @ new)
            | (Continue msg, new) \<Rightarrow> Some (Waits, st, evs @ new)
            | (NextState st', new) \<Rightarrow> run stp em a st' h (evs @ new))) = Some y"
    show "P stp em a st h evs y"
      unfolding P_def
    proof (intro impI)
      assume "stp = step \<and> em = emit \<and> a = after" and I: "I st (old @ evs)"
      then have eqs: "stp = step" "em = emit" "a = after" by simp_all
      show "I (fst (snd y)) (old @ snd (snd y))"
      proof (cases st)
        case None
        with eq I show ?thesis by auto
      next
        case (Some s)
        obtain res new where s: "step s (h @ map emit evs) = (res, new)" by fastforce
        have next_I: "I (case res of NextState st' \<Rightarrow> st' | _ \<Rightarrow> Some s) (old @ evs @ new)"
          using step [OF _ s, of "old @ evs"] I Some by simp
        show ?thesis
        proof (cases res)
          case (NextState st')
          have "run step emit after st' h (evs @ new) = Some y" using eq by (simp add: eqs Some s NextState)
          from IH [OF this] next_I show ?thesis by (simp add: P_def NextState)
        next
          case (Continue msg)
          with eq next_I show ?thesis by (auto simp: eqs Some s)
        next
          case (StepError e)
          with eq next_I show ?thesis by (auto simp: eqs Some s)
        qed
      qed
    qed
  qed
  with I show ?thesis by (simp add: P_def)
qed


text \<open>The word of a mount: the request, the finalizer unless it was there, failing callbacks and a
  successful one, the removal of the finalizer, tear-downs, the last of which succeeded, and the end
  of the request.\<close>

definition mount_begin :: "mount_context \<Rightarrow> mount_status \<Rightarrow> ('e, 'a) mount_event list" where
  "mount_begin ctx ms =
     RequestWritten (mountID ctx) (volumeID ctx) (requester ctx) (WithReadOnly ctx) (WithDetached ctx) #
     (if requester ctx \<in> set (Finalizers ms) then [] else [FinalizerAdded (mountID ctx) (requester ctx)])"

definition mount_calls :: "mount_context \<Rightarrow> mount_status \<Rightarrow> 'e list \<Rightarrow> ('e, 'a) mount_event list" where
  "mount_calls ctx ms errs = mount_begin ctx ms @ map (\<lambda>e. CallbackRan ms (Inl e)) errs"

definition mount_done :: "mount_context \<Rightarrow> mount_status \<Rightarrow> 'e list \<Rightarrow> 'a \<Rightarrow> bool list \<Rightarrow> ('e, 'a) mount_event list" where
  "mount_done ctx ms errs x tds =
     mount_calls ctx ms errs @ [CallbackRan ms (Inr x), FinalizerRemoved (mountID ctx) (requester ctx)] @
     map (TornDown (mountID ctx)) tds"

definition mount_word :: "mount_context \<Rightarrow> mount_status \<Rightarrow> 'e list \<Rightarrow> 'a \<Rightarrow> bool list \<Rightarrow> ('e, 'a) mount_event list" where
  "mount_word ctx ms errs x tds = mount_done ctx ms errs x (tds @ [True]) @ [RequestDestroyed (mountID ctx)]"

definition mode_allowed :: "mount_context \<Rightarrow> mount_status \<Rightarrow> bool" where
  "mode_allowed ctx ms \<longleftrightarrow> (StatusReadOnly ms \<longrightarrow> WithReadOnly ctx)"

definition mount_inv :: "mount_context \<Rightarrow> mount_state option \<Rightarrow> ('e, 'a) mount_event list \<Rightarrow> bool" where
  "mount_inv ctx st evs \<longleftrightarrow>
     (case st of
        Some CreateVolumeMountRequest \<Rightarrow> evs = []
      | Some WaitForMountStatus \<Rightarrow>
          evs = [RequestWritten (mountID ctx) (volumeID ctx) (requester ctx) (WithReadOnly ctx) (WithDetached ctx)]
      | Some (CallbackWithMountStatus ms) \<Rightarrow> mode_allowed ctx ms \<and> (\<exists>errs. evs = mount_calls ctx ms errs)
      | Some RemoveMountStatusFinalizer \<Rightarrow>
          \<exists>ms errs x. mode_allowed ctx ms \<and> evs = mount_calls ctx ms errs @ [CallbackRan ms (Inr x)]
      | Some RemoveMountRequest \<Rightarrow> \<exists>ms errs x tds. mode_allowed ctx ms \<and> evs = mount_done ctx ms errs x tds
      | _ \<Rightarrow> \<exists>ms errs x tds. mode_allowed ctx ms \<and> evs = mount_word ctx ms errs x tds)"

lemma calls_snoc: "mount_calls ctx ms errs @ [CallbackRan ms (Inl e)] = mount_calls ctx ms (errs @ [e])"
  by (simp add: mount_calls_def)

lemma done_snoc: "mount_done ctx ms errs x tds @ [TornDown (mountID ctx) b] = mount_done ctx ms errs x (tds @ [b])"
  by (simp add: mount_done_def)

lemma mount_inv_step:
  assumes "mount_inv ctx (Some s) evs" "mount_step env ctx s h = (res, new)"
  shows "mount_inv ctx (case res of NextState st' \<Rightarrow> st' | _ \<Rightarrow> Some s) (evs @ new)"
proof (cases s)
  case CreateVolumeMountRequest
  with assms show ?thesis by (auto simp: mount_inv_def split: option.splits)
next
  case WaitForMountStatus
  then have evs: "evs = [RequestWritten (mountID ctx) (volumeID ctx) (requester ctx) (WithReadOnly ctx) (WithDetached ctx)]"
    using assms(1) by (simp add: mount_inv_def)
  show ?thesis
  proof (cases "\<exists>ms. res = NextState (Some (CallbackWithMountStatus ms))")
    case True
    then obtain ms where ms: "res = NextState (Some (CallbackWithMountStatus ms))" by blast
    then have "mode_allowed ctx ms \<and> new = (if requester ctx \<in> set (Finalizers ms) then [] else [FinalizerAdded (mountID ctx) (requester ctx)])"
      using assms(2) WaitForMountStatus by (auto simp: mode_allowed_def split: option.splits sum.splits if_splits)
    with ms evs show ?thesis
      by (auto simp: mount_inv_def mount_calls_def mount_begin_def intro!: exI [of _ "[]"])
  next
    case False
    then have "new = [] \<and> (\<forall>st'. res \<noteq> NextState st')"
      using assms(2) WaitForMountStatus by (auto split: option.splits sum.splits if_splits)
    with assms(1) WaitForMountStatus show ?thesis by (cases res) simp_all
  qed
next
  case (CallbackWithMountStatus ms)
  with assms show ?thesis
    by (auto simp: mount_inv_def calls_snoc split: sum.splits)
next
  case RemoveMountStatusFinalizer
  then obtain ms errs x where e: "mode_allowed ctx ms" "evs = mount_calls ctx ms errs @ [CallbackRan ms (Inr x)]"
    using assms(1) by (auto simp: mount_inv_def)
  then have "evs @ [FinalizerRemoved (mountID ctx) (requester ctx)] = mount_done ctx ms errs x []"
    by (simp add: mount_done_def)
  with e(1) have "\<exists>ms errs x tds. mode_allowed ctx ms \<and>
      evs @ [FinalizerRemoved (mountID ctx) (requester ctx)] = mount_done ctx ms errs x tds" by blast
  then have "mount_inv ctx (Some RemoveMountRequest) (evs @ [FinalizerRemoved (mountID ctx) (requester ctx)])"
    by (simp add: mount_inv_def)
  with RemoveMountStatusFinalizer assms show ?thesis by (cases "AnsRemoveFinalizer env h") auto
next
  case RemoveMountRequest
  then obtain ms errs x tds where e: "mode_allowed ctx ms" "evs = mount_done ctx ms errs x tds"
    using assms(1) by (auto simp: mount_inv_def)
  then have "evs @ [TornDown (mountID ctx) True, RequestDestroyed (mountID ctx)] = mount_word ctx ms errs x tds"
    by (simp add: mount_word_def mount_done_def)
  with e(1) have w: "mount_inv ctx (Some WaitForVolumeMountStatusRemoved)
      (evs @ [TornDown (mountID ctx) True, RequestDestroyed (mountID ctx)])"
    unfolding mount_inv_def by auto
  have d: "mount_inv ctx (Some RemoveMountRequest) (evs @ [TornDown (mountID ctx) b])" for b
    using e done_snoc [of ctx ms errs x tds b] unfolding mount_inv_def by auto
  show ?thesis
  proof (cases "AnsTeardown env h")
    case (Inl err)
    with assms(1,2) RemoveMountRequest show ?thesis by auto
  next
    case (Inr b)
    show ?thesis
      using assms(2) RemoveMountRequest Inr w d by (cases b; cases "AnsDestroy env h") auto
  qed
next
  case WaitForVolumeMountStatusRemoved
  then have "mount_inv ctx None evs" using assms(1) by (simp add: mount_inv_def)
  with WaitForVolumeMountStatusRemoved assms show ?thesis by (auto split: option.splits sum.splits)
qed

lemma mounted_inv: "mounted emit ctx st evs \<Longrightarrow> mount_inv ctx st evs"
proof (induction rule: mounted.induct)
  case new
  show ?case by (simp add: mount_inv_def)
next
  case (again st evs env after h r st' new)
  show ?case
    by (rule Run_automaton_keeps [OF again.hyps(2), where I = "mount_inv ctx" and old = evs])
       (use again.IH mount_inv_step in \<open>auto\<close>)
qed

text \<open>What is missing of the word in every state.\<close>

lemma mount_inv_prefix:
  assumes "mount_inv ctx st evs"
  shows "\<exists>ms errs x tds rest. evs @ rest = mount_word ctx ms errs x tds \<and> mode_allowed ctx ms \<and> (st = None \<longrightarrow> rest = [])"
proof -
  let ?ms = "\<lparr>StatusReadOnly = False, Finalizers = []\<rparr>"
  have free: "mode_allowed ctx ?ms" by (simp add: mode_allowed_def)
  have word: "\<exists>tail. mount_word ctx ms errs x tds = pre @ tail"
    if "pre = [] \<or> pre = take 1 (mount_begin ctx ms) \<or> pre = mount_calls ctx ms errs \<or>
      pre = mount_calls ctx ms errs @ [CallbackRan ms (Inr x)] \<or> pre = mount_done ctx ms errs x tds"
    for ms errs x tds and pre :: "('a, 'b) mount_event list"
    using that by (auto simp: mount_word_def mount_done_def mount_calls_def mount_begin_def)
  have whole: ?thesis if "st = None \<or> st = Some WaitForVolumeMountStatusRemoved"
  proof -
    from that assms obtain ms errs x tds where "mode_allowed ctx ms" "evs @ [] = mount_word ctx ms errs x tds"
      by (auto simp: mount_inv_def)
    then show ?thesis by blast
  qed
  show ?thesis
  proof (cases st)
    case None
    with whole show ?thesis by simp
  next
    case (Some s)
    have "\<exists>ms errs x tds. mode_allowed ctx ms \<and> (\<exists>tail. mount_word ctx ms errs x tds = evs @ tail)"
      if "s \<noteq> WaitForVolumeMountStatusRemoved"
    proof (cases s)
      case CreateVolumeMountRequest
      with Some assms have "evs = []" by (simp add: mount_inv_def)
      with free show ?thesis by auto
    next
      case WaitForMountStatus
      with Some assms have "evs = take 1 (mount_begin ctx ?ms)" by (simp add: mount_inv_def mount_begin_def)
      with free word show ?thesis by metis
    next
      case (CallbackWithMountStatus ms)
      with Some assms obtain errs where "mode_allowed ctx ms" "evs = mount_calls ctx ms errs" by (auto simp: mount_inv_def)
      with word show ?thesis by metis
    next
      case RemoveMountStatusFinalizer
      with Some assms obtain ms errs x where "mode_allowed ctx ms" "evs = mount_calls ctx ms errs @ [CallbackRan ms (Inr x)]"
        by (auto simp: mount_inv_def)
      with word show ?thesis by metis
    next
      case RemoveMountRequest
      with Some assms obtain ms errs x tds where "mode_allowed ctx ms" "evs = mount_done ctx ms errs x tds"
        by (auto simp: mount_inv_def)
      with word show ?thesis by metis
    qed (use that in simp)
    with whole Some show ?thesis by (metis option.simps(3))
  qed
qed

section \<open>Properties\<close>

text \<open>C16: a mount follows its protocol, whatever the other controllers and failures do between and
  inside its runs: its effects are a prefix of one word, in which the callback runs only after the
  mount request was written and while this requester's finalizer is on the mount status, is not
  called again once it succeeded, never gets a read-only mount it did not ask for, and is followed by
  the removal of the finalizer and the destruction of the request after a completed tear-down. When
  the mounter is done its effects are the whole word.\<close>

theorem mount_protocol:
  assumes "mounted emit ctx st evs"
  shows "\<exists>ms errs x tds rest. evs @ rest = mount_word ctx ms errs x tds \<and> (StatusReadOnly ms \<longrightarrow> WithReadOnly ctx) \<and>
    (st = None \<longrightarrow> rest = [])"
proof -
  have "\<exists>ms errs x tds rest. evs @ rest = mount_word ctx ms errs x tds \<and> mode_allowed ctx ms \<and> (st = None \<longrightarrow> rest = [])"
    using mounted_inv [OF assms] mount_inv_prefix by blast
  then show ?thesis by (simp only: mode_allowed_def)
qed


text \<open>When nothing stands in its way (no call fails, the callback succeeds, the mount status is there
  for the mount and gone after it) one run completes the mount.\<close>

lemma mount_completes:
  assumes "\<And>h. AnsWrite env h = None" "\<And>h. AnsAddFinalizer env h = None" "\<And>h. AnsRemoveFinalizer env h = None"
    "\<And>h. AnsDestroy env h = None" "\<And>h. AnsTeardown env h = Inr True" "\<And>h. AnsCallback env h ms = Inr x"
    "\<And>h. AnsStatus env h = Inr (if emit (RequestDestroyed (mountID ctx)) \<in> set h then None else Some ms)"
    "StatusReadOnly ms \<longrightarrow> WithReadOnly ctx" "inj emit" "emit (RequestDestroyed (mountID ctx)) \<notin> set h"
  shows "Run_mounter env emit ctx after (Some CreateVolumeMountRequest) h [] =
    Some (Finished after, None, mount_word ctx ms [] x [])"
proof -
  have e: "emit a = emit b \<longleftrightarrow> a = b" for a b using assms(9) by (simp add: inj_eq)
  show ?thesis
    using assms(8,10)
    by (subst Run_automaton.simps, simp add: assms(1), subst Run_automaton.simps,
        cases "requester ctx \<in> set (Finalizers ms)")
       (auto simp: assms(1-7) Run_automaton.simps e mount_word_def mount_done_def mount_calls_def mount_begin_def)
qed

text \<open>A witness: the mounter of a test, first called back with an error, then completing.\<close>

definition demo_mount :: mount_context where
  "demo_mount = \<lparr>mountID = ''ctl-STATE'', volumeID = ''STATE'', requester = ''ctl'', WithReadOnly = True, WithDetached = True\<rparr>"

definition demo_mount_status :: mount_status where
  "demo_mount_status = \<lparr>StatusReadOnly = True, Finalizers = []\<rparr>"

definition demo_mount_env :: "((string, unit) mount_event, string, unit) mount_env" where
  "demo_mount_env = \<lparr>AnsWrite = \<lambda>h. None,
     AnsStatus = \<lambda>h. Inr (if RequestDestroyed ''ctl-STATE'' \<in> set h then None else Some demo_mount_status),
     AnsAddFinalizer = \<lambda>h. None,
     AnsCallback = \<lambda>h ms. (if CallbackRan ms (Inl ''busy'') \<in> set h then Inr () else Inl ''busy''),
     AnsRemoveFinalizer = \<lambda>h. None, AnsTeardown = \<lambda>h. Inr True, AnsDestroy = \<lambda>h. None\<rparr>"

lemma demo_mount_runs:
  defines "first \<equiv> [RequestWritten ''ctl-STATE'' ''STATE'' ''ctl'' True True, FinalizerAdded ''ctl-STATE'' ''ctl'',
    CallbackRan demo_mount_status (Inl ''busy'')]"
  defines "second \<equiv> [CallbackRan demo_mount_status (Inr ()), FinalizerRemoved ''ctl-STATE'' ''ctl'', TornDown ''ctl-STATE'' True,
    RequestDestroyed ''ctl-STATE'']"
  shows "Run_mounter demo_mount_env (\<lambda>x. x) demo_mount None (Some CreateVolumeMountRequest) [] [] =
      Some (RunFails (InCallback ''busy''), Some (CallbackWithMountStatus demo_mount_status), first)"
    and "Run_mounter demo_mount_env (\<lambda>x. x) demo_mount None (Some (CallbackWithMountStatus demo_mount_status)) first [] =
      Some (Finished None, None, second)"
  by (simp_all add: first_def second_def Run_automaton.simps demo_mount_env_def demo_mount_def demo_mount_status_def)

theorem mount_protocol_witness:
  "\<exists>evs. mounted (\<lambda>x :: (string, unit) mount_event. x) demo_mount None evs \<and> length evs = 7 \<and>
     (\<exists>ms errs x tds. evs = mount_word demo_mount ms errs x tds)"
proof -
  obtain evs :: "(string, unit) mount_event list" where m: "mounted (\<lambda>x. x) demo_mount None evs" and len: "length evs = 7"
    by (rule that [OF mounted.again [OF mounted.again [OF mounted.new demo_mount_runs(1)] demo_mount_runs(2)]]) simp
  from mount_protocol [OF m] obtain ms errs x tds where "evs = mount_word demo_mount ms errs x tds" by auto
  with m len show ?thesis by blast
qed

end
