(* ===== verification/Container.thy ===== *)
theory Container
  imports Prelude
begin

text \<open>
  The container of configuration documents (pkg/machinery/config/container): the v1alpha1 document,
  the other documents and the checks that they may be together.

  The documents are known through their interfaces only, so the methods that container.go calls on
  them are a record of functions, an argument of the operations; an optional Go interface is a
  method that returns an option. Deep copies and clones of a document are the same value.
\<close>

section \<open>Documents\<close>

datatype ('v, 'd) document = V1Alpha1Document 'v | OtherDocument 'd

text \<open>
  \<open>DName\<close> is config.NamedDocument, \<open>ConflictsWithKinds\<close> config.ConflictingDocument, \<open>IsSelector\<close>
  the selector interface of delete patches, \<open>ToV1Alpha1\<close> the conversion of a
  chubo MachineConfigV1Alpha1, the others the validator interfaces. \<open>Version\<close> is v1alpha1.Version.
\<close>

record ('v, 'd, 'm, 'e) doc_methods =
  DKind :: "'d \<Rightarrow> string"
  DName :: "'d \<Rightarrow> string option"
  ConflictsWithKinds :: "'d \<Rightarrow> string list option"
  IsSelector :: "'d \<Rightarrow> bool"
  ToV1Alpha1 :: "'d \<Rightarrow> ('e + 'v) option"
  Version :: string
  ValidateV1 :: "'m \<Rightarrow> 'v \<Rightarrow> string list \<times> 'e option"
  ValidateDoc :: "'m \<Rightarrow> 'd \<Rightarrow> (string list \<times> 'e option) option"
  V1Alpha1ConflictValidate :: "'v \<Rightarrow> 'd \<Rightarrow> 'e option option"
  RuntimeValidateV1 :: "'m \<Rightarrow> 'v \<Rightarrow> string list \<times> 'e option"
  RuntimeValidateDoc :: "'m \<Rightarrow> 'd \<Rightarrow> (string list \<times> 'e option) option"
  RedactV1 :: "string \<Rightarrow> 'v \<Rightarrow> 'v"
  RedactDoc :: "string \<Rightarrow> 'd \<Rightarrow> 'd option"

record ('v, 'd) container =
  V1Config :: "'v option"
  Docs :: "'d list"
  RawBytes :: "bytes option"
  ReadonlyFlag :: bool

datatype 'e container_error =
    DuplicateV1Alpha1
  | DuplicateDoc string
  | ConflictingDocs string string
  | Synthesis 'e

section \<open>Building a container\<close>

text \<open>The identifier of a document in New, and the identifiers it conflicts with.\<close>

definition with_name :: "('v, 'd, 'm, 'e) doc_methods \<Rightarrow> 'd \<Rightarrow> string \<Rightarrow> string" where
  "with_name M d kind = kind @ ''/'' @ (case DName M d of None \<Rightarrow> '''' | Some n \<Rightarrow> n)"

definition document_id :: "('v, 'd, 'm, 'e) doc_methods \<Rightarrow> 'd \<Rightarrow> string" where
  "document_id M d = with_name M d (DKind M d)"

definition conflict_ids :: "('v, 'd, 'm, 'e) doc_methods \<Rightarrow> 'd \<Rightarrow> string list" where
  "conflict_ids M d = (case ConflictsWithKinds M d of None \<Rightarrow> [] | Some kinds \<Rightarrow> map (with_name M d) kinds)"

text \<open>The inner loop: seen is the set of identifiers so far, conflicting maps an identifier to the
  document that excludes it.\<close>

fun add_conflicts ::
    "string \<Rightarrow> string list \<Rightarrow> string list \<Rightarrow> (string, string) gomap \<Rightarrow> 'e container_error + (string, string) gomap" where
  "add_conflicts docID [] seen conflicting = Inr conflicting"
| "add_conflicts docID (c # cs) seen conflicting =
     (if c \<in> set seen then Inl (ConflictingDocs c docID)
      else add_conflicts docID cs seen (gm_set conflicting c docID))"

fun new_loop ::
    "('v, 'd, 'm, 'e) doc_methods \<Rightarrow> ('v, 'd) document list \<Rightarrow> ('v, 'd) container \<Rightarrow> string list \<Rightarrow> (string, string) gomap \<Rightarrow>
       'e container_error + ('v, 'd) container" where
  "new_loop M [] c seen conflicting = Inr c"
| "new_loop M (V1Alpha1Document v # docs) c seen conflicting =
     (if V1Config c \<noteq> None then Inl DuplicateV1Alpha1
      else new_loop M docs (c\<lparr>V1Config := Some v\<rparr>) seen conflicting)"
| "new_loop M (OtherDocument d # docs) c seen conflicting =
     (if IsSelector M d then new_loop M docs (c\<lparr>Docs := Docs c @ [d]\<rparr>) seen conflicting
      else (let docID = document_id M d in
        if docID \<in> set seen then Inl (DuplicateDoc docID)
        else (case gm_get conflicting docID of
            Some other \<Rightarrow> Inl (ConflictingDocs other docID)
          | None \<Rightarrow>
             (case add_conflicts docID (conflict_ids M d) (docID # seen) conflicting of
                Inl err \<Rightarrow> Inl err
              | Inr conflicting' \<Rightarrow> new_loop M docs (c\<lparr>Docs := Docs c @ [d]\<rparr>) (docID # seen) conflicting'))))"

text \<open>maybeSynthesizeChuboOSV1Alpha1 in the chubo build; without that build tag it does nothing, which is
  the case of methods whose \<open>ToV1Alpha1\<close> is always None.\<close>

fun synthesize_loop :: "('v, 'd, 'm, 'e) doc_methods \<Rightarrow> 'd list \<Rightarrow> 'e + 'v option" where
  "synthesize_loop M [] = Inr None"
| "synthesize_loop M (d # ds) =
     (case ToV1Alpha1 M d of
        None \<Rightarrow> synthesize_loop M ds
      | Some (Inl err) \<Rightarrow> Inl err
      | Some (Inr v) \<Rightarrow> Inr (Some v))"

definition maybeSynthesize ::
    "('v, 'd, 'm, 'e) doc_methods \<Rightarrow> ('v, 'd) container \<Rightarrow> 'e container_error + ('v, 'd) container" where
  "maybeSynthesize M c =
     (if V1Config c \<noteq> None then Inr c
      else (case synthesize_loop M (Docs c) of
          Inl err \<Rightarrow> Inl (Synthesis err)
        | Inr None \<Rightarrow> Inr c
        | Inr (Some v) \<Rightarrow> Inr (c\<lparr>V1Config := Some v\<rparr>)))"

definition empty_container :: "('v, 'd) container" where
  "empty_container = \<lparr>V1Config = None, Docs = [], RawBytes = None, ReadonlyFlag = False\<rparr>"

definition NewContainer ::
    "('v, 'd, 'm, 'e) doc_methods \<Rightarrow> ('v, 'd) document list \<Rightarrow> 'e container_error + ('v, 'd) container" where
  "NewContainer M documents =
     (case new_loop M documents empty_container [] [] of
        Inl err \<Rightarrow> Inl err
      | Inr c \<Rightarrow> maybeSynthesize M c)"

definition NewReadonly ::
    "('v, 'd, 'm, 'e) doc_methods \<Rightarrow> bytes \<Rightarrow> ('v, 'd) document list \<Rightarrow> 'e container_error + ('v, 'd) container" where
  "NewReadonly M b documents =
     (case NewContainer M documents of
        Inl err \<Rightarrow> Inl err
      | Inr c \<Rightarrow> Inr (c\<lparr>RawBytes := Some b, ReadonlyFlag := True\<rparr>))"

definition NewV1Alpha1 :: "'v \<Rightarrow> ('v, 'd) container" where
  "NewV1Alpha1 v = empty_container\<lparr>V1Config := Some v\<rparr>"

section \<open>Reading and changing a container\<close>

definition clone_container :: "('v, 'd) container \<Rightarrow> ('v, 'd) container" where
  "clone_container c = \<lparr>V1Config = V1Config c, Docs = Docs c, RawBytes = None, ReadonlyFlag = False\<rparr>"

definition v1_selector :: "('v, 'd, 'm, 'e) doc_methods \<Rightarrow> 'd \<Rightarrow> bool" where
  "v1_selector M d \<longleftrightarrow> IsSelector M d \<and> DKind M d = Version M"

definition Documents :: "('v, 'd, 'm, 'e) doc_methods \<Rightarrow> ('v, 'd) container \<Rightarrow> ('v, 'd) document list" where
  "Documents M c =
     map OtherDocument (filter (v1_selector M) (Docs c)) @
     (case V1Config c of None \<Rightarrow> [] | Some v \<Rightarrow> [V1Alpha1Document v]) @
     map OtherDocument (filter (\<lambda>d. \<not> v1_selector M d) (Docs c))"

definition CompleteForBoot :: "('v, 'd) container \<Rightarrow> bool" where
  "CompleteForBoot c \<longleftrightarrow> V1Config c \<noteq> None"

definition RawV1Alpha1 :: "('v, 'd) container \<Rightarrow> 'v option" where
  "RawV1Alpha1 c = V1Config c"

fun is_v1 :: "('v, 'd) document \<Rightarrow> bool" where
  "is_v1 (V1Alpha1Document v) = True"
| "is_v1 (OtherDocument d) = False"

datatype ('e, 'p) patch_error = NoV1Alpha1 | Patcher 'p | Rebuilding "'e container_error"

definition PatchV1Alpha1 ::
    "('v, 'd, 'm, 'e) doc_methods \<Rightarrow> ('v \<Rightarrow> 'p + 'v) \<Rightarrow> ('v, 'd) container \<Rightarrow> ('e, 'p) patch_error + ('v, 'd) container" where
  "PatchV1Alpha1 M patcher c =
     (case RawV1Alpha1 c of
        None \<Rightarrow> Inl NoV1Alpha1
      | Some cfg \<Rightarrow>
          (case patcher cfg of
             Inl err \<Rightarrow> Inl (Patcher err)
           | Inr cfg' \<Rightarrow>
               (let otherDocs = filter (\<lambda>doc. \<not> is_v1 doc) (Documents M c)
                in case NewContainer M (V1Alpha1Document cfg' # otherDocs) of
                     Inl err \<Rightarrow> Inl (Rebuilding err)
                   | Inr c' \<Rightarrow> Inr c')))"

text \<open>Bytes: the source of a read-only container, otherwise the documents encoded one after another with
  a separator; the encoder of a document is an argument.\<close>

fun encode_docs :: "('x \<Rightarrow> 'e + bytes) \<Rightarrow> 'x list \<Rightarrow> bytes \<Rightarrow> 'e + bytes" where
  "encode_docs enc [] buf = Inr buf"
| "encode_docs enc (d # ds) buf =
     (let buf' = (if length buf > 0 then buf @ [45, 45, 45, 10] else buf)
      in case enc d of Inl err \<Rightarrow> Inl err | Inr b \<Rightarrow> encode_docs enc ds (buf' @ b))"

definition encodeToBuf :: "(('v, 'd) document \<Rightarrow> 'e + bytes) \<Rightarrow> ('v, 'd) container \<Rightarrow> 'e + bytes" where
  "encodeToBuf enc c =
     (case V1Config c of
        None \<Rightarrow> encode_docs enc (map OtherDocument (Docs c)) []
      | Some v \<Rightarrow>
          (case enc (V1Alpha1Document v) of
             Inl err \<Rightarrow> Inl err
           | Inr b \<Rightarrow> encode_docs enc (map OtherDocument (Docs c)) b))"

definition ContainerBytes :: "(('v, 'd) document \<Rightarrow> 'e + bytes) \<Rightarrow> ('v, 'd) container \<Rightarrow> ('e + bytes) outcome" where
  "ContainerBytes enc c =
     (if \<not> ReadonlyFlag c then Ret (encodeToBuf enc c)
      else (case RawBytes c of None \<Rightarrow> Panic | Some b \<Rightarrow> Ret (Inr b)))"

section \<open>Validation\<close>

text \<open>An error with the identifier of its document; the multierror is the list of errors, no error the
  empty list.\<close>

datatype 'e validation_error = InV1Alpha1 'e | InDocument string 'e | CrossCheck 'e

definition docID :: "('v, 'd, 'm, 'e) doc_methods \<Rightarrow> 'd \<Rightarrow> string" where
  "docID M d = DKind M d @ (case DName M d of None \<Rightarrow> '''' | Some n \<Rightarrow> ''/'' @ n)"

fun validate_docs ::
    "('v, 'd, 'm, 'e) doc_methods \<Rightarrow> ('d \<Rightarrow> (string list \<times> 'e option) option) \<Rightarrow> 'd list \<Rightarrow> string list \<Rightarrow>
       'e validation_error list \<Rightarrow> string list \<times> 'e validation_error list" where
  "validate_docs M val [] warnings errs = (warnings, errs)"
| "validate_docs M val (d # ds) warnings errs =
     (case val d of
        None \<Rightarrow> validate_docs M val ds warnings errs
      | Some (w, err) \<Rightarrow>
          validate_docs M val ds (warnings @ w)
            (errs @ (case err of None \<Rightarrow> [] | Some e \<Rightarrow> [InDocument (docID M d) e])))"

definition validate_v1 :: "('v \<Rightarrow> string list \<times> 'e option) \<Rightarrow> 'v option \<Rightarrow> string list \<times> 'e validation_error list" where
  "validate_v1 val v1 =
     (case v1 of
        None \<Rightarrow> ([], [])
      | Some v \<Rightarrow> (let (w, err) = val v in (w, case err of None \<Rightarrow> [] | Some e \<Rightarrow> [InV1Alpha1 e])))"

definition cross_errors :: "('v, 'd, 'm, 'e) doc_methods \<Rightarrow> ('v, 'd) container \<Rightarrow> 'e validation_error list" where
  "cross_errors M c =
     (case V1Config c of
        None \<Rightarrow> []
      | Some v \<Rightarrow>
          List.map_filter (\<lambda>d. case V1Alpha1ConflictValidate M v d of Some (Some e) \<Rightarrow> Some (CrossCheck e) | _ \<Rightarrow> None) (Docs c))"

definition Validate ::
    "('v, 'd, 'm, 'e) doc_methods \<Rightarrow> 'm \<Rightarrow> ('v, 'd) container \<Rightarrow> string list \<times> 'e validation_error list" where
  "Validate M mode c =
     (let (warnings, errs) = validate_v1 (ValidateV1 M mode) (V1Config c);
          (warnings, errs) = validate_docs M (ValidateDoc M mode) (Docs c) warnings errs
      in (warnings, errs @ cross_errors M c))"

definition RuntimeValidate ::
    "('v, 'd, 'm, 'e) doc_methods \<Rightarrow> 'm \<Rightarrow> ('v, 'd) container \<Rightarrow> string list \<times> 'e validation_error list" where
  "RuntimeValidate M mode c =
     (let (warnings, errs) = validate_v1 (RuntimeValidateV1 M mode) (V1Config c)
      in validate_docs M (RuntimeValidateDoc M mode) (Docs c) warnings errs)"

definition RedactSecrets :: "('v, 'd, 'm, 'e) doc_methods \<Rightarrow> string \<Rightarrow> ('v, 'd) container \<Rightarrow> ('v, 'd) container" where
  "RedactSecrets M replacement c =
     (let cl = clone_container c
      in cl\<lparr>V1Config := map_option (RedactV1 M replacement) (V1Config cl),
            Docs := map (\<lambda>d. case RedactDoc M replacement d of None \<Rightarrow> d | Some d' \<Rightarrow> d') (Docs cl)\<rparr>)"


section \<open>What New accepts\<close>

fun v1_of :: "('v, 'd) document \<Rightarrow> 'v option" where
  "v1_of (V1Alpha1Document v) = Some v"
| "v1_of (OtherDocument d) = None"

fun other_of :: "('v, 'd) document \<Rightarrow> 'd option" where
  "other_of (V1Alpha1Document v) = None"
| "other_of (OtherDocument d) = Some d"

definition v1s :: "('v, 'd) document list \<Rightarrow> 'v list" where
  "v1s docs = List.map_filter v1_of docs"

definition others :: "('v, 'd) document list \<Rightarrow> 'd list" where
  "others docs = List.map_filter other_of docs"

definition plain :: "('v, 'd, 'm, 'e) doc_methods \<Rightarrow> ('v, 'd) document list \<Rightarrow> 'd list" where
  "plain M docs = filter (\<lambda>d. \<not> IsSelector M d) (others docs)"

named_theorems docs_simps \<open>parts of a list of documents\<close>

lemma parts_simps [docs_simps]:
  "v1s [] = []" "v1s (V1Alpha1Document v # docs) = v # v1s docs" "v1s (OtherDocument d # docs) = v1s docs"
  "others [] = []" "others (V1Alpha1Document v # docs) = others docs" "others (OtherDocument d # docs) = d # others docs"
  "plain M [] = []" "plain M (V1Alpha1Document v # docs) = plain M docs"
  "plain M (OtherDocument d # docs) = (if IsSelector M d then plain M docs else d # plain M docs)"
  by (simp_all add: v1s_def others_def plain_def map_filter_simps)

lemma parts_append [docs_simps]:
  "v1s (ds @ es) = v1s ds @ v1s es" "others (ds @ es) = others ds @ others es"
  "v1s (map OtherDocument xs) = []" "others (map OtherDocument xs) = xs"
  by (induction ds) (simp_all add: v1s_def others_def List.map_filter_def o_def)

text \<open>The documents may be together: one v1alpha1 document at most, distinct identifiers, and no
  document, before or after, excludes the identifier of another or its own.\<close>

definition compatible :: "('v, 'd, 'm, 'e) doc_methods \<Rightarrow> 'd list \<Rightarrow> bool" where
  "compatible M ds \<longleftrightarrow>
     distinct (map (document_id M) ds) \<and> (\<forall>d \<in> set ds. \<forall>e \<in> set ds. document_id M d \<notin> set (conflict_ids M e))"

lemma add_conflicts_spec:
  "(set cs \<inter> set seen = {} \<longrightarrow> (\<exists>m'. add_conflicts i cs seen m = Inr m' \<and> (\<forall>x. gm_get m' x = None \<longleftrightarrow> gm_get m x = None \<and> x \<notin> set cs))) \<and>
   (set cs \<inter> set seen \<noteq> {} \<longrightarrow> (\<exists>err. add_conflicts i cs seen m = Inl err))"
proof (induction cs arbitrary: m)
  case (Cons c cs)
  show ?case
  proof (cases "c \<in> set seen")
    case False
    have "gm_get (gm_set m c i) x = None \<longleftrightarrow> gm_get m x = None \<and> x \<noteq> c" for x by (simp add: gomap_simps)
    with False Cons.IH [of "gm_set m c i"] show ?thesis by auto
  qed simp
qed simp

lemma add_conflicts_free: "add_conflicts i cs seen m = Inr m' \<Longrightarrow> set cs \<inter> set seen = {}"
  using add_conflicts_spec [of cs seen i m] by (metis sum.distinct(1))

definition addable ::
    "('v, 'd, 'm, 'e) doc_methods \<Rightarrow> ('v, 'd) document list \<Rightarrow> ('v, 'd) container \<Rightarrow> string list \<Rightarrow> (string, string) gomap \<Rightarrow> bool" where
  "addable M docs c seen m \<longleftrightarrow>
     length (v1s docs) + (if V1Config c = None then 0 else 1) \<le> 1 \<and> compatible M (plain M docs) \<and>
     (\<forall>d \<in> set (plain M docs). document_id M d \<notin> set seen \<and> gm_get m (document_id M d) = None \<and>
        set (conflict_ids M d) \<inter> set seen = {})"

definition with_docs :: "('v, 'd) container \<Rightarrow> ('v, 'd) document list \<Rightarrow> ('v, 'd) container" where
  "with_docs c docs = c\<lparr>V1Config := (case v1s docs of [] \<Rightarrow> V1Config c | v # _ \<Rightarrow> Some v), Docs := Docs c @ others docs\<rparr>"

lemma compatible_Cons:
  fixes M :: "('v, 'd, 'm, 'e) doc_methods"
  shows "compatible M (d # ds) \<longleftrightarrow> compatible M ds \<and> document_id M d \<notin> set (conflict_ids M d) \<and>
     (\<forall>e \<in> set ds. document_id M e \<noteq> document_id M d \<and> document_id M d \<notin> set (conflict_ids M e) \<and>
        document_id M e \<notin> set (conflict_ids M d))"
proof -
  have "document_id M d \<notin> document_id M ` set ds \<longleftrightarrow> (\<forall>e \<in> set ds. document_id M e \<noteq> document_id M d)"
  proof
    assume "\<forall>e \<in> set ds. document_id M e \<noteq> document_id M d"
    then show "document_id M d \<notin> document_id M ` set ds" by auto
  next
    assume "document_id M d \<notin> document_id M ` set ds"
    then show "\<forall>e \<in> set ds. document_id M e \<noteq> document_id M d"
    proof (intro ballI notI)
      fix e assume "e \<in> set ds" "document_id M e = document_id M d"
      then have "document_id M d \<in> document_id M ` set ds" by (intro image_eqI [of _ _ e]) simp_all
      with \<open>document_id M d \<notin> document_id M ` set ds\<close> show False by simp
    qed
  qed
  then show ?thesis unfolding compatible_def list.map distinct.simps set_map by auto
qed

lemma new_loop_spec:
  fixes M :: "('v, 'd, 'm, 'e) doc_methods"
  shows "(addable M docs c seen m \<longrightarrow> new_loop M docs c seen m = Inr (with_docs c docs)) \<and>
   (\<not> addable M docs c seen m \<longrightarrow> (\<exists>err. new_loop M docs c seen m = Inl err))"
proof (induction M docs c seen m rule: new_loop.induct)
  case (1 M c seen conflicting)
  show ?case by (simp add: addable_def with_docs_def compatible_def docs_simps)
next
  case (2 M v docs c seen m)
  show ?case
  proof (cases "V1Config c = None")
    case True
    have "addable M (V1Alpha1Document v # docs) c seen m \<longleftrightarrow> addable M docs (c\<lparr>V1Config := Some v\<rparr>) seen m"
      using True by (simp add: addable_def docs_simps)
    moreover have "v1s docs = [] \<Longrightarrow> with_docs (c\<lparr>V1Config := Some v\<rparr>) docs = with_docs c (V1Alpha1Document v # docs)"
      by (simp add: with_docs_def docs_simps)
    ultimately show ?thesis using 2 True by (auto simp: addable_def)
  next
    case False
    then show ?thesis by (auto simp: addable_def docs_simps)
  qed
next
  case (3 M d docs c seen m)
  have w: "with_docs (c\<lparr>Docs := Docs c @ [d]\<rparr>) docs = with_docs c (OtherDocument d # docs)"
    by (simp add: with_docs_def docs_simps split: list.splits)
  show ?case
  proof (cases "IsSelector M d")
    case True
    have "addable M (OtherDocument d # docs) c seen m \<longleftrightarrow> addable M docs (c\<lparr>Docs := Docs c @ [d]\<rparr>) seen m"
      using True by (simp add: addable_def docs_simps)
    with 3(1) True w show ?thesis by simp
  next
    case False
    let ?id = "document_id M d"
    show ?thesis
    proof (cases "?id \<in> set seen \<or> gm_get m ?id \<noteq> None \<or> set (conflict_ids M d) \<inter> set (?id # seen) \<noteq> {}")
      case True
      then have "\<not> addable M (OtherDocument d # docs) c seen m"
        using False by (auto simp: addable_def docs_simps compatible_Cons)
      moreover have "\<exists>err. new_loop M (OtherDocument d # docs) c seen m = Inl err"
      proof (cases "?id \<in> set seen \<or> gm_get m ?id \<noteq> None")
        case True
        with False show ?thesis by (auto simp: Let_def)
      next
        case free: False
        with True have "set (conflict_ids M d) \<inter> set (?id # seen) \<noteq> {}" by blast
        with False free show ?thesis
          by (auto simp: Let_def split: sum.split dest!: add_conflicts_free)
      qed
      ultimately show ?thesis by blast
    next
      case ok: False
      then obtain m' where m': "(add_conflicts ?id (conflict_ids M d) (?id # seen) m :: 'e container_error + _) = Inr m'"
        "\<And>x. gm_get m' x = None \<longleftrightarrow> gm_get m x = None \<and> x \<notin> set (conflict_ids M d)"
        using add_conflicts_spec [of "conflict_ids M d" "?id # seen" ?id m] by auto
      have "addable M (OtherDocument d # docs) c seen m \<longleftrightarrow> addable M docs (c\<lparr>Docs := Docs c @ [d]\<rparr>) (?id # seen) m'"
        using ok False by (auto simp: addable_def docs_simps compatible_Cons m'(2))
      moreover have "new_loop M (OtherDocument d # docs) c seen m = new_loop M docs (c\<lparr>Docs := Docs c @ [d]\<rparr>) (?id # seen) m'"
        using ok False m'(1) by (simp add: Let_def)
      ultimately show ?thesis using 3(2) [OF False refl] ok m'(1) w by auto
    qed
  qed
qed


lemma compatible_mset:
  fixes M :: "('v, 'd, 'm, 'e) doc_methods"
  assumes "mset ds = mset es"
  shows "compatible M ds \<longleftrightarrow> compatible M es"
proof -
  have "mset (map (document_id M) ds) = mset (map (document_id M) es)" using assms by simp
  then have "distinct (map (document_id M) ds) \<longleftrightarrow> distinct (map (document_id M) es)" by (rule mset_eq_imp_distinct_iff)
  with mset_eq_setD [OF assms] show ?thesis by (simp add: compatible_def)
qed

lemma NewContainer_spec:
  fixes M :: "('v, 'd, 'm, 'e) doc_methods"
  shows "NewContainer M docs =
    (if length (v1s docs) \<le> 1 \<and> compatible M (plain M docs)
     then maybeSynthesize M \<lparr>V1Config = (case v1s docs of [] \<Rightarrow> None | v # _ \<Rightarrow> Some v), Docs = others docs,
       RawBytes = None, ReadonlyFlag = False\<rparr>
     else NewContainer M docs)"
    and "\<not> (length (v1s docs) \<le> 1 \<and> compatible M (plain M docs)) \<Longrightarrow> \<exists>err. NewContainer M docs = Inl err"
proof -
  have a: "addable M docs empty_container [] [] \<longleftrightarrow> length (v1s docs) \<le> 1 \<and> compatible M (plain M docs)"
    by (auto simp: addable_def empty_container_def gm_get_def)
  have "with_docs empty_container docs = \<lparr>V1Config = (case v1s docs of [] \<Rightarrow> None | v # _ \<Rightarrow> Some v), Docs = others docs,
       RawBytes = None, ReadonlyFlag = False\<rparr>" by (simp add: with_docs_def empty_container_def split: list.split)
  with a new_loop_spec [of M docs empty_container "[]" "[]"]
  show "NewContainer M docs = (if length (v1s docs) \<le> 1 \<and> compatible M (plain M docs)
     then maybeSynthesize M \<lparr>V1Config = (case v1s docs of [] \<Rightarrow> None | v # _ \<Rightarrow> Some v), Docs = others docs,
       RawBytes = None, ReadonlyFlag = False\<rparr>
     else NewContainer M docs)" by (simp add: NewContainer_def)
  show "\<exists>err. NewContainer M docs = Inl err" if "\<not> (length (v1s docs) \<le> 1 \<and> compatible M (plain M docs))"
    using that a new_loop_spec [of M docs empty_container "[]" "[]"] by (auto simp: NewContainer_def)
qed

text \<open>What an accepted container holds.\<close>

lemma NewContainer_Inr:
  fixes M :: "('v, 'd, 'm, 'e) doc_methods"
  assumes "NewContainer M docs = Inr c"
  shows "length (v1s docs) \<le> 1" "compatible M (plain M docs)" "Docs c = others docs" "RawBytes c = None" "\<not> ReadonlyFlag c"
    "v1s docs = [v] \<Longrightarrow> V1Config c = Some v"
proof -
  show g: "length (v1s docs) \<le> 1" "compatible M (plain M docs)"
    using assms NewContainer_spec(2) [of docs M] by (metis Inl_Inr_False)+
  then have "maybeSynthesize M \<lparr>V1Config = (case v1s docs of [] \<Rightarrow> None | v # _ \<Rightarrow> Some v), Docs = others docs,
       RawBytes = None, ReadonlyFlag = False\<rparr> = Inr c"
    using assms NewContainer_spec(1) [of M docs] by simp
  then show "Docs c = others docs" "RawBytes c = None" "\<not> ReadonlyFlag c" "v1s docs = [v] \<Longrightarrow> V1Config c = Some v"
    by (auto simp: maybeSynthesize_def split: if_splits sum.splits option.splits)
qed

lemma NewContainer_with_v1:
  assumes "v1s docs = [v]" "compatible M (plain M docs)"
  shows "NewContainer M docs = Inr \<lparr>V1Config = Some v, Docs = others docs, RawBytes = None, ReadonlyFlag = False\<rparr>"
  using assms NewContainer_spec(1) [of M docs] by (simp add: maybeSynthesize_def)

lemma reordered [docs_simps]:
  "mset (filter p xs @ filter (\<lambda>x. \<not> p x) xs) = mset xs"
  by (induction xs) simp_all

lemma others_Documents [docs_simps]:
  "others (Documents M c) = filter (v1_selector M) (Docs c) @ filter (\<lambda>d. \<not> v1_selector M d) (Docs c)"
  "v1s (Documents M c) = (case V1Config c of None \<Rightarrow> [] | Some v \<Rightarrow> [v])"
  by (simp_all add: Documents_def docs_simps split: option.split)

lemma compatible_reordered:
  assumes "NewContainer M docs = Inr c" "mset ds = mset (Docs c)"
  shows "compatible M (filter (\<lambda>d. \<not> IsSelector M d) ds)"
proof -
  have "mset (filter (\<lambda>d. \<not> IsSelector M d) ds) = mset (plain M docs)"
    using assms(2) NewContainer_Inr(3) [OF assms(1)] by (simp add: plain_def)
  with compatible_mset NewContainer_Inr(2) [OF assms(1)] show ?thesis by blast
qed

section \<open>Properties\<close>

text \<open>C18: New accepts a list of documents if and only if they may be together: at most one v1alpha1
  document, pairwise different identifiers (delete patches apart), no document whose kind and name
  another one or itself excludes, wherever it stands in the list, and no error in making the v1alpha1
  document of a chubo machine configuration when there is none; then it holds exactly those
  documents in their order.\<close>

theorem container_accepts:
  "((\<exists>c. NewContainer M docs = Inr c) \<longleftrightarrow>
      length (v1s docs) \<le> 1 \<and> distinct (map (document_id M) (plain M docs)) \<and>
      (\<forall>d \<in> set (plain M docs). \<forall>e \<in> set (plain M docs). document_id M d \<notin> set (conflict_ids M e)) \<and>
      (v1s docs = [] \<longrightarrow> (\<exists>v. synthesize_loop M (others docs) = Inr v))) \<and>
   (\<forall>c. NewContainer M docs = Inr c \<longrightarrow> Docs c = others docs \<and>
      (v1s docs = [] \<longrightarrow> synthesize_loop M (others docs) = Inr (V1Config c)) \<and> (\<forall>v. v1s docs = [v] \<longrightarrow> V1Config c = Some v))"
proof (cases "length (v1s docs) \<le> 1 \<and> compatible M (plain M docs)")
  case False
  with NewContainer_spec(2) [OF False] show ?thesis by (auto simp: compatible_def)
next
  case True
  then have n: "NewContainer M docs = maybeSynthesize M \<lparr>V1Config = (case v1s docs of [] \<Rightarrow> None | v # _ \<Rightarrow> Some v),
      Docs = others docs, RawBytes = None, ReadonlyFlag = False\<rparr>" using NewContainer_spec(1) [of M docs] by simp
  consider "v1s docs = []" | v where "v1s docs = [v]" using True by (cases "v1s docs") auto
  then show ?thesis
  proof cases
    case 1
    with n True show ?thesis
      by (cases "synthesize_loop M (others docs)")
         (auto simp: maybeSynthesize_def compatible_def split: option.splits)
  next
    case 2
    with n True show ?thesis by (auto simp: maybeSynthesize_def compatible_def)
  qed
qed

text \<open>A container is rebuilt from its documents, and PatchV1Alpha1 changes nothing but the v1alpha1
  document: with an accepted container that has one, New of its Documents gives a container with the
  same Documents again, and a patch that succeeds gives one whose other documents are the old ones
  with the delete patches of v1alpha1 first; neither can fail.\<close>

theorem container_rebuild:
  assumes "NewContainer M docs = Inr c" "V1Config c = Some v" "patcher v = Inr v'"
  shows "(\<exists>c'. NewContainer M (Documents M c) = Inr c' \<and> Documents M c' = Documents M c) \<and>
    (\<exists>c'. PatchV1Alpha1 M patcher c = Inr c' \<and> V1Config c' = Some v' \<and>
       Docs c' = filter (v1_selector M) (Docs c) @ filter (\<lambda>d. \<not> v1_selector M d) (Docs c))"
proof -
  let ?ds = "filter (v1_selector M) (Docs c) @ filter (\<lambda>d. \<not> v1_selector M d) (Docs c)"
  have comp: "compatible M (filter (\<lambda>d. \<not> IsSelector M d) ?ds)"
    by (rule compatible_reordered [OF assms(1)]) (rule reordered)
  have "NewContainer M (Documents M c) = Inr \<lparr>V1Config = Some v, Docs = ?ds, RawBytes = None, ReadonlyFlag = False\<rparr>"
    using NewContainer_with_v1 [of "Documents M c" v M] comp assms(2) by (simp add: plain_def docs_simps)
  moreover have "Documents M \<lparr>V1Config = Some v, Docs = ?ds, RawBytes = None, ReadonlyFlag = False\<rparr> = Documents M c"
    using assms(2) by (simp add: Documents_def)
  moreover have "filter (\<lambda>doc. \<not> is_v1 doc) (Documents M c) = map OtherDocument ?ds"
    using assms(2) by (simp add: Documents_def filter_map o_def)
  moreover have "NewContainer M (V1Alpha1Document v' # map OtherDocument ?ds) =
      Inr \<lparr>V1Config = Some v', Docs = ?ds, RawBytes = None, ReadonlyFlag = False\<rparr>"
    using NewContainer_with_v1 [of "V1Alpha1Document v' # map OtherDocument ?ds" v' M] comp
    by (simp add: plain_def docs_simps del: map_append)
  ultimately show ?thesis using assms(2,3) by (simp add: PatchV1Alpha1_def RawV1Alpha1_def)
qed


text \<open>A validated container has a clean v1alpha1 document and clean other documents.\<close>

lemma validate_docs_errors:
  "snd (validate_docs M val ds w errs) = [] \<longleftrightarrow> errs = [] \<and> (\<forall>d \<in> set ds. \<forall>r. val d = Some r \<longrightarrow> snd r = None)"
  by (induction M val ds w errs rule: validate_docs.induct) (auto split: option.splits)

lemma Validate_clean:
  "snd (Validate M mode c) = [] \<longleftrightarrow>
     (\<forall>v. V1Config c = Some v \<longrightarrow> snd (ValidateV1 M mode v) = None \<and>
        (\<forall>d \<in> set (Docs c). \<forall>e. V1Alpha1ConflictValidate M v d \<noteq> Some (Some e))) \<and>
     (\<forall>d \<in> set (Docs c). \<forall>r. ValidateDoc M mode d = Some r \<longrightarrow> snd r = None)"
proof (cases "V1Config c")
  case None
  then show ?thesis
    using validate_docs_errors [of M "ValidateDoc M mode" "Docs c" "[]" "[]"]
    by (simp add: Validate_def validate_v1_def cross_errors_def split: prod.splits)
next
  case (Some v)
  have "cross_errors M c = [] \<longleftrightarrow> (\<forall>d \<in> set (Docs c). \<forall>e. V1Alpha1ConflictValidate M v d \<noteq> Some (Some e))"
    by (auto simp: cross_errors_def Some List.map_filter_def filter_empty_conv split: option.splits)
  with Some show ?thesis
    using validate_docs_errors [of M "ValidateDoc M mode" "Docs c" "fst (ValidateV1 M mode v)"
        "case snd (ValidateV1 M mode v) of None \<Rightarrow> [] | Some e \<Rightarrow> [InV1Alpha1 e]"]
    by (auto simp: Validate_def validate_v1_def split: prod.splits option.splits)
qed

text \<open>
  Witnesses: documents are a kind and a name; a hostname document excludes a legacy one, a machine
  document can be converted. In the list there are a delete patch, a machine and a hostname document.
\<close>

definition demo_methods :: "(nat, string \<times> string option, unit, string) doc_methods" where
  "demo_methods = \<lparr>DKind = fst, DName = snd,
     ConflictsWithKinds = \<lambda>d. if fst d = ''Hostname'' then Some [''LegacyHostname''] else None,
     IsSelector = \<lambda>d. fst d = ''v1alpha1'', ToV1Alpha1 = \<lambda>d. if fst d = ''Machine'' then Some (Inr 7) else None,
     Version = ''v1alpha1'', ValidateV1 = \<lambda>_ _. ([], None), ValidateDoc = \<lambda>_ _. None,
     V1Alpha1ConflictValidate = \<lambda>_ _. None, RuntimeValidateV1 = \<lambda>_ _. ([], None), RuntimeValidateDoc = \<lambda>_ _. None,
     RedactV1 = \<lambda>_ v. v, RedactDoc = \<lambda>_ _. None\<rparr>"

definition demo_docs :: "(nat, string \<times> string option) document list" where
  "demo_docs = [OtherDocument (''Machine'', None), OtherDocument (''v1alpha1'', None), OtherDocument (''Hostname'', Some ''a'')]"

lemma demo_parts:
  "v1s demo_docs = []" "others demo_docs = [(''Machine'', None), (''v1alpha1'', None), (''Hostname'', Some ''a'')]"
  "plain demo_methods demo_docs = [(''Machine'', None), (''Hostname'', Some ''a'')]"
  by (simp_all add: demo_docs_def docs_simps demo_methods_def)

lemma demo_synthesized: "synthesize_loop demo_methods (others demo_docs) = Inr (Some 7)"
  unfolding demo_parts by (simp add: demo_methods_def)

lemma demo_compatible:
  "distinct (map (document_id demo_methods) (plain demo_methods demo_docs)) \<and>
   (\<forall>d \<in> set (plain demo_methods demo_docs). \<forall>e \<in> set (plain demo_methods demo_docs).
      document_id demo_methods d \<notin> set (conflict_ids demo_methods e))"
  unfolding demo_parts by (simp add: document_id_def conflict_ids_def with_name_def demo_methods_def)

theorem container_accepts_witness:
  "\<exists>c. NewContainer demo_methods demo_docs = Inr c \<and> V1Config c = Some 7 \<and> Docs c = others demo_docs"
  using container_accepts [of demo_methods demo_docs] demo_compatible demo_synthesized by (auto simp: demo_parts(1))

theorem container_rebuild_witness:
  "\<exists>c c'. NewContainer demo_methods demo_docs = Inr c \<and> PatchV1Alpha1 demo_methods (\<lambda>v. Inr (v + 1) :: unit + nat) c = Inr c' \<and>
     V1Config c' = Some 8 \<and> Docs c' = [(''v1alpha1'', None), (''Machine'', None), (''Hostname'', Some ''a'')]"
proof -
  let ?c = "\<lparr>V1Config = Some 7, Docs = others demo_docs, RawBytes = None, ReadonlyFlag = False\<rparr>"
  have c: "NewContainer demo_methods demo_docs = Inr ?c"
    by (simp add: NewContainer_def demo_docs_def demo_methods_def docs_simps document_id_def conflict_ids_def with_name_def
        empty_container_def maybeSynthesize_def gm_get_def gm_set_def)
  from container_rebuild [OF this, of 7 "\<lambda>v. Inr (v + 1) :: unit + nat" 8]
  have "\<exists>c'. PatchV1Alpha1 demo_methods (\<lambda>v. Inr (v + 1) :: unit + nat) ?c = Inr c' \<and> V1Config c' = Some 8 \<and>
      Docs c' = filter (v1_selector demo_methods) (others demo_docs) @ filter (\<lambda>d. \<not> v1_selector demo_methods d) (others demo_docs)"
    by simp
  moreover have "filter (v1_selector demo_methods) (others demo_docs) @ filter (\<lambda>d. \<not> v1_selector demo_methods d) (others demo_docs) =
      [(''v1alpha1'', None), (''Machine'', None), (''Hostname'', Some ''a'')]"
    unfolding demo_parts by (simp add: v1_selector_def demo_methods_def)
  ultimately show ?thesis using c by auto
qed

end
