(* ===== verification/Acquire.thy ===== *)
theory Acquire
  imports Automaton Container BlockTypes
begin

text \<open>
  The acquisition of the machine configuration (internal/app/machined/pkg/controllers/config/acquire.go):
  a state machine that looks for a configuration on the STATE volume, in the embedded file, on the
  kernel command line, at the platform, on the command line again, and at last waits for one from
  the maintenance service. It applies every configuration it finds until one is complete.

  The environment (the COSI resources, files, the platform, the decoders of YAML, gzip and zstd, the
  setter of the configuration) is a record of answers, which see the history of all effects so far.
  Configurations are containers (theory Container), the mount of STATE is the mounter of theory
  Automaton.
\<close>

section \<open>Loading configurations\<close>

type_synonym ('v, 'd) config = "('v, 'd) container"

datatype 'e load_error =
    External string 'e
  | ErrNoConfig
  | BadContainer "'e container_error"
  | InvalidConfig "'e validation_error list"
  | Base64Corrupt
  | InMount "'e load_error mount_error"

text \<open>newConfig of configloader: the decoder of the documents is an argument.\<close>

definition newConfig ::
    "('v, 'd, 'm, 'e) doc_methods \<Rightarrow> (bytes \<Rightarrow> 'e + ('v, 'd) document list) \<Rightarrow> bytes \<Rightarrow> 'e load_error + ('v, 'd) config" where
  "newConfig M decode source =
     (case decode source of
        Inl e \<Rightarrow> Inl (External ''decode'' e)
      | Inr manifests \<Rightarrow>
          if manifests = [] then Inl ErrNoConfig
          else (case NewReadonly M source manifests of Inl e \<Rightarrow> Inl (BadContainer e) | Inr c \<Rightarrow> Inr c))"

text \<open>base64.StdEncoding: line ends are skipped, the rest is groups of four characters, the last of
  which may be padded; the unused bits of a padded group are not checked.\<close>

definition base64_chars :: string where
  "base64_chars = ''ABCDEFGHIJKLMNOPQRSTUVWXYZabcdefghijklmnopqrstuvwxyz0123456789+/''"

fun index_of :: "'a \<Rightarrow> 'a list \<Rightarrow> nat option" where
  "index_of x [] = None"
| "index_of x (y # ys) = (if x = y then Some 0 else map_option Suc (index_of x ys))"

definition base64_bytes :: "nat list \<Rightarrow> bytes" where
  "base64_bytes vs =
     (let n = foldl (\<lambda>acc v. 64 * acc + v) 0 vs
      in [of_nat (n div 65536), of_nat (n div 256 mod 256), of_nat (n mod 256)])"

fun base64_groups :: "string \<Rightarrow> bytes option" where
  "base64_groups [] = Some []"
| "base64_groups (a # b # c # d # rest) =
     (case (index_of a base64_chars, index_of b base64_chars) of
        (Some va, Some vb) \<Rightarrow>
          if d = CHR ''='' then
            (if rest \<noteq> [] then None
             else if c = CHR ''='' then Some (take 1 (base64_bytes [va, vb, 0, 0]))
             else (case index_of c base64_chars of
                 None \<Rightarrow> None
               | Some vc \<Rightarrow> Some (take 2 (base64_bytes [va, vb, vc, 0]))))
          else (case (index_of c base64_chars, index_of d base64_chars) of
              (Some vc, Some vd) \<Rightarrow> map_option (\<lambda>bs. base64_bytes [va, vb, vc, vd] @ bs) (base64_groups rest)
            | _ \<Rightarrow> None)
      | _ \<Rightarrow> None)"
| "base64_groups _ = None"

definition base64_decode :: "string \<Rightarrow> bytes option" where
  "base64_decode s = base64_groups (filter (\<lambda>ch. ch \<noteq> CHR 0x0A \<and> ch \<noteq> CHR 0x0D) s)"

text \<open>http.DetectContentType reports gzip for this prefix.\<close>

definition is_gzip :: "bytes \<Rightarrow> bool" where
  "is_gzip b \<longleftrightarrow> take 3 b = [0x1F, 0x8B, 0x08]"

section \<open>The environment and the history\<close>

datatype platform_event = EventTypeFailure | EventTypeActivate | EventTypeConfigLoaded

datatype ('v, 'd, 'e) acquire_event =
    MountEvent "('e load_error, ('v, 'd) config option) mount_event"
  | SetConfig "('v, 'd) config"
  | SetPersistedConfig "('v, 'd) config"
  | FireEvent platform_event
  | PublishLoadError
  | PublishMaintenance bool
  | MaskedEmbedded
  | MaintenanceRequested
  | MaintenanceTornDown bool
  | MaintenanceRequestDestroyed
  | StatusWritten

datatype 'e platform_answer = NoConfigSource | PlatformFails 'e | PlatformBytes bytes

datatype 'e teardown_answer = TeardownNotFound | TeardownFails 'e | TeardownReady bool

record ('v, 'd, 'm, 'e) acquire_env =
  Methods :: "('v, 'd, 'm, 'e) doc_methods"
  DiskMode :: 'm
  RuntimeMode :: 'm
  Decode :: "bytes \<Rightarrow> 'e + ('v, 'd) document list"
  SpecExists :: "('v, 'd, 'e) acquire_event list \<Rightarrow> 'e + bool"
  StateVolume :: "('v, 'd, 'e) acquire_event list \<Rightarrow> 'e + VolumePhase option"
  MountAnswers :: "(('v, 'd, 'e) acquire_event, 'e load_error, ('v, 'd) config option) mount_env"
  OpenRoot :: "('v, 'd, 'e) acquire_event list \<Rightarrow> mount_status \<Rightarrow> 'e option"
  StatDisk :: "('v, 'd, 'e) acquire_event list \<Rightarrow> 'e + bool"
  ReadDisk :: "('v, 'd, 'e) acquire_event list \<Rightarrow> 'e + bytes"
  StatEmbedded :: "('v, 'd, 'e) acquire_event list \<Rightarrow> string \<Rightarrow> 'e + bool"
  ReadEmbedded :: "('v, 'd, 'e) acquire_event list \<Rightarrow> string \<Rightarrow> 'e + bytes"
  MaskMount :: "('v, 'd, 'e) acquire_event list \<Rightarrow> 'e option"
  InContainer :: bool
  Cmdline :: "string \<Rightarrow> string list option"
  Unzstd :: "bytes \<Rightarrow> 'e + bytes"
  Gunzip :: "bytes \<Rightarrow> 'e + bytes"
  PlatformName :: string
  PlatformConfig :: "('v, 'd, 'e) acquire_event list \<Rightarrow> 'e platform_answer"
  AnsRequest :: "('v, 'd, 'e) acquire_event list \<Rightarrow> 'e option"
  MaintenanceConfig :: "('v, 'd, 'e) acquire_event list \<Rightarrow> 'e + ('v, 'd) config option"
  AnsTeardownRequest :: "('v, 'd, 'e) acquire_event list \<Rightarrow> 'e teardown_answer"
  AnsDestroyRequest :: "('v, 'd, 'e) acquire_event list \<Rightarrow> 'e option"
  AnsWriteStatus :: "('v, 'd, 'e) acquire_event list \<Rightarrow> 'e option"
  AnsSet :: "('v, 'd, 'e) acquire_event list \<Rightarrow> ('v, 'd) config \<Rightarrow> 'e option"
  AnsPersist :: "('v, 'd, 'e) acquire_event list \<Rightarrow> ('v, 'd) config \<Rightarrow> 'e option"

text \<open>The fields of AcquireController that change. \<open>Mounter\<close> is stateMachine, None for nil.\<close>

record ('v, 'd) acquire_ctrl =
  ConfigSourcesUsed :: "string list"
  Mounter :: "(mount_context \<times> mount_state option) option"
  DiskConfig :: "('v, 'd) config option"
  StoredEmbedded :: "bytes option"
  EmbeddedDirectory :: string
  SkipMasking :: bool

datatype acquire_state =
    StateDisk
  | StateEmbedded
  | StateCmdlineEarly
  | StatePlatform
  | StateCmdlineLate
  | StateMaintenanceEnter
  | StateMaintenance
  | StateMaintenanceLeave
  | StateDone
  | StateFinal

section \<open>The sources\<close>

text \<open>The error of Validate and of RuntimeValidate, whose warnings are only logged.\<close>

definition validated ::
    "('v, 'd, 'm, 'e) acquire_env \<Rightarrow> 'm \<Rightarrow> ('v, 'd) config \<Rightarrow> 'e load_error + ('v, 'd) config" where
  "validated env mode cfg =
     (let errs = snd (Validate (Methods env) mode cfg) in if errs \<noteq> [] then Inl (InvalidConfig errs) else Inr cfg)"

definition runtime_validated ::
    "('v, 'd, 'm, 'e) acquire_env \<Rightarrow> ('v, 'd) config \<Rightarrow> 'e load_error + ('v, 'd) config" where
  "runtime_validated env cfg =
     (let errs = snd (RuntimeValidate (Methods env) (RuntimeMode env) cfg)
      in if errs \<noteq> [] then Inl (InvalidConfig errs) else Inr cfg)"

definition then_load :: "'e load_error + 'a \<Rightarrow> ('a \<Rightarrow> 'e load_error + 'b) \<Rightarrow> 'e load_error + 'b" where
  "then_load r f = (case r of Inl e \<Rightarrow> Inl e | Inr x \<Rightarrow> f x)"

definition external :: "string \<Rightarrow> 'e + 'a \<Rightarrow> 'e load_error + 'a" where
  "external what r = (case r of Inl e \<Rightarrow> Inl (External what e) | Inr x \<Rightarrow> Inr x)"

definition new_config :: "('v, 'd, 'm, 'e) acquire_env \<Rightarrow> bytes \<Rightarrow> 'e load_error + ('v, 'd) config" where
  "new_config env = newConfig (Methods env) (Decode env)"

definition loadConfigFromDisk ::
    "('v, 'd, 'm, 'e) acquire_env \<Rightarrow> ('v, 'd, 'e) acquire_event list \<Rightarrow> mount_status \<Rightarrow> 'e load_error + ('v, 'd) config option" where
  "loadConfigFromDisk env h ms =
     (case OpenRoot env h ms of
        Some e \<Rightarrow> Inl (External ''error opening filesystem'' e)
      | None \<Rightarrow>
         then_load (external ''failed to stat'' (StatDisk env h)) (\<lambda>found.
           if \<not> found then Inr None
           else then_load (external ''failed to open'' (ReadDisk env h)) (\<lambda>b.
             then_load (new_config env b) (\<lambda>cfg.
             then_load (validated env (DiskMode env) cfg) (\<lambda>cfg. Inr (Some cfg))))))"

text \<open>The callback stores what it loaded in diskConfig, and leaves diskConfig alone without a file.\<close>

fun disk_config :: "('v, 'd) config option \<Rightarrow> ('e load_error, ('v, 'd) config option) mount_event list \<Rightarrow> ('v, 'd) config option" where
  "disk_config old [] = old"
| "disk_config old (ev # evs) =
     disk_config (case ev of CallbackRan _ (Inr (Some cfg)) \<Rightarrow> Some cfg | _ \<Rightarrow> old) evs"

definition acquire_name :: string where
  "acquire_name = ''config.AcquireController''"

definition mount_answers ::
    "('v, 'd, 'm, 'e) acquire_env \<Rightarrow> (('v, 'd, 'e) acquire_event, 'e load_error, ('v, 'd) config option) mount_env" where
  "mount_answers env = (MountAnswers env)\<lparr>AnsCallback := loadConfigFromDisk env\<rparr>"

text \<open>The run of the mounter always returns (\<open>mounter_returns\<close>). Its AfterFunc clears stateMachine.\<close>

definition loadFromDisk ::
    "('v, 'd, 'm, 'e) acquire_env \<Rightarrow> ('v, 'd) acquire_ctrl \<Rightarrow> ('v, 'd, 'e) acquire_event list \<Rightarrow>
       ('e load_error + ('v, 'd) config option \<times> bool) \<times> ('v, 'd) acquire_ctrl \<times> ('v, 'd, 'e) acquire_event list" where
  "loadFromDisk env ctrl h =
     (let (ctx, st) = (case Mounter ctrl of None \<Rightarrow> NewVolumeMounter acquire_name ''STATE'' True True | Some m \<Rightarrow> m);
          (r, st', evs) = the (Run_mounter (mount_answers env) MountEvent ctx None st h []);
          ctrl = ctrl\<lparr>DiskConfig := disk_config (DiskConfig ctrl) evs\<rparr>;
          new = map MountEvent evs
      in case r of
           Finished _ \<Rightarrow> (Inr (DiskConfig ctrl, True), ctrl\<lparr>Mounter := None\<rparr>, new)
         | Waits \<Rightarrow> (Inr (None, False), ctrl\<lparr>Mounter := Some (ctx, st')\<rparr>, new)
         | RunFails e \<Rightarrow> (Inl (InMount e), ctrl\<lparr>Mounter := Some (ctx, st')\<rparr>, new))"

definition loadConfigFromEmbedded ::
    "('v, 'd, 'm, 'e) acquire_env \<Rightarrow> ('v, 'd) acquire_ctrl \<Rightarrow> 'e load_error + ('v, 'd) config option" where
  "loadConfigFromEmbedded env ctrl =
     (case StoredEmbedded ctrl of
        None \<Rightarrow> Inr None
      | Some b \<Rightarrow>
          then_load (new_config env b) (\<lambda>cfg. then_load (validated env (DiskMode env) cfg) (\<lambda>cfg. Inr (Some cfg))))"

definition loadFromPlatform ::
    "('v, 'd, 'm, 'e) acquire_env \<Rightarrow> ('v, 'd, 'e) acquire_event list \<Rightarrow> 'e load_error + ('v, 'd) config option" where
  "loadFromPlatform env h =
     (case PlatformConfig env h of
        NoConfigSource \<Rightarrow> Inr None
      | PlatformFails e \<Rightarrow> Inl (External ''error acquiring via platform'' e)
      | PlatformBytes b \<Rightarrow>
          then_load (if is_gzip b then external ''error unzipping machine config'' (Gunzip env b) else Inr b) (\<lambda>b.
          then_load (new_config env b) (\<lambda>cfg.
          then_load (validated env (RuntimeMode env) cfg) (\<lambda>cfg.
          then_load (runtime_validated env cfg) (\<lambda>cfg. Inr (Some cfg))))))"

definition loadFromCmdline ::
    "('v, 'd, 'm, 'e) acquire_env \<Rightarrow> string \<Rightarrow> 'e load_error + ('v, 'd) config option" where
  "loadFromCmdline env paramName =
     (case Cmdline env paramName of
        None \<Rightarrow> Inr None
      | Some vs \<Rightarrow>
          (case base64_decode (concat vs) of
             None \<Rightarrow> Inl Base64Corrupt
           | Some decoded \<Rightarrow>
               then_load (external ''failed to read zstd compressed config'' (Unzstd env decoded)) (\<lambda>b.
               then_load (new_config env b) (\<lambda>cfg.
               then_load (validated env (RuntimeMode env) cfg) (\<lambda>cfg.
               then_load (runtime_validated env cfg) (\<lambda>cfg. Inr (Some cfg)))))))"

section \<open>The states\<close>

text \<open>A state function returns the next state (None where the code returns nil) and a configuration to
  apply, or an error.\<close>

type_synonym ('v, 'd, 'e) acquire_result =
  "('e load_error + acquire_state option \<times> ('v, 'd) config option) \<times> ('v, 'd) acquire_ctrl \<times> ('v, 'd, 'e) acquire_event list"

definition use_source :: "string \<Rightarrow> ('v, 'd) config option \<Rightarrow> ('v, 'd) acquire_ctrl \<Rightarrow> ('v, 'd) acquire_ctrl" where
  "use_source name cfg ctrl = (if cfg \<noteq> None then ctrl\<lparr>ConfigSourcesUsed := ConfigSourcesUsed ctrl @ [name]\<rparr> else ctrl)"

definition incomplete :: "('v, 'd) config option \<Rightarrow> bool" where
  "incomplete cfg \<longleftrightarrow> (case cfg of None \<Rightarrow> True | Some c \<Rightarrow> \<not> CompleteForBoot c)"

definition stateDisk ::
    "('v, 'd, 'm, 'e) acquire_env \<Rightarrow> ('v, 'd) acquire_ctrl \<Rightarrow> ('v, 'd, 'e) acquire_event list \<Rightarrow> ('v, 'd, 'e) acquire_result" where
  "stateDisk env ctrl h =
     (case StateVolume env h of
        Inl e \<Rightarrow> (Inl (External ''failed observing STATE volume status'' e), ctrl, [])
      | Inr None \<Rightarrow> (Inr (None, None), ctrl, [])
      | Inr (Some phase) \<Rightarrow>
          if phase = VolumePhaseMissing then (Inr (Some StateEmbedded, None), ctrl, [])
          else if phase \<noteq> VolumePhaseReady then (Inr (None, None), ctrl, [])
          else (case loadFromDisk env ctrl h of
              (Inl e, ctrl, new) \<Rightarrow> (Inl e, ctrl, new)
            | (Inr (cfg, done'), ctrl, new) \<Rightarrow>
                if \<not> done' then (Inr (None, None), ctrl, new)
                else (let ctrl = use_source ''state'' cfg ctrl
                      in case cfg of
                           None \<Rightarrow> (Inr (Some StateEmbedded, None), ctrl, new)
                         | Some c \<Rightarrow>
                             (Inr (Some (if CompleteForBoot c then StateDone else StateMaintenanceEnter), cfg), ctrl, new))))"

text \<open>stateEmbedded, statePlatform and stateCmdlineGeneric end in the same way.\<close>

definition loaded_state ::
    "string \<Rightarrow> acquire_state \<Rightarrow> 'e load_error + ('v, 'd) config option \<Rightarrow> ('v, 'd) acquire_ctrl \<Rightarrow> ('v, 'd, 'e) acquire_result" where
  "loaded_state name next_state loaded ctrl =
     (case loaded of
        Inl e \<Rightarrow> (Inl e, ctrl, [])
      | Inr cfg \<Rightarrow>
          (Inr (Some (if incomplete cfg then next_state else StateDone), cfg), use_source name cfg ctrl, []))"

definition stateEmbedded :: "('v, 'd, 'm, 'e) acquire_env \<Rightarrow> ('v, 'd) acquire_ctrl \<Rightarrow> ('v, 'd, 'e) acquire_result" where
  "stateEmbedded env ctrl = loaded_state ''embedded'' StateCmdlineEarly (loadConfigFromEmbedded env ctrl) ctrl"

definition statePlatform ::
    "('v, 'd, 'm, 'e) acquire_env \<Rightarrow> ('v, 'd) acquire_ctrl \<Rightarrow> ('v, 'd, 'e) acquire_event list \<Rightarrow> ('v, 'd, 'e) acquire_result" where
  "statePlatform env ctrl h = loaded_state (PlatformName env) StateCmdlineLate (loadFromPlatform env h) ctrl"

definition stateCmdlineGeneric ::
    "string \<Rightarrow> string \<Rightarrow> acquire_state \<Rightarrow> ('v, 'd, 'm, 'e) acquire_env \<Rightarrow> ('v, 'd) acquire_ctrl \<Rightarrow> ('v, 'd, 'e) acquire_result" where
  "stateCmdlineGeneric paramName sourceName next_state env ctrl =
     (if InContainer env then (Inr (Some next_state, None), ctrl, [])
      else loaded_state sourceName next_state (loadFromCmdline env paramName) ctrl)"

definition stateCmdlineEarly :: "('v, 'd, 'm, 'e) acquire_env \<Rightarrow> ('v, 'd) acquire_ctrl \<Rightarrow> ('v, 'd, 'e) acquire_result" where
  "stateCmdlineEarly = stateCmdlineGeneric ''talos.config.early'' ''cmdline-early'' StatePlatform"

definition stateCmdlineLate :: "('v, 'd, 'm, 'e) acquire_env \<Rightarrow> ('v, 'd) acquire_ctrl \<Rightarrow> ('v, 'd, 'e) acquire_result" where
  "stateCmdlineLate = stateCmdlineGeneric ''talos.config.inline'' ''cmdline-late'' StateMaintenanceEnter"

definition stateMaintenanceEnter :: "('v, 'd) acquire_ctrl \<Rightarrow> ('v, 'd, 'e) acquire_result" where
  "stateMaintenanceEnter ctrl =
     (Inr (Some StateMaintenance, None), ctrl, [FireEvent EventTypeActivate, PublishMaintenance True])"

definition stateMaintenance ::
    "('v, 'd, 'm, 'e) acquire_env \<Rightarrow> ('v, 'd) acquire_ctrl \<Rightarrow> ('v, 'd, 'e) acquire_event list \<Rightarrow> ('v, 'd, 'e) acquire_result" where
  "stateMaintenance env ctrl h =
     (case AnsRequest env h of
        Some e \<Rightarrow> (Inl (External ''failed creating maintenance service request'' e), ctrl, [])
      | None \<Rightarrow>
         (let new = [MaintenanceRequested]
          in case MaintenanceConfig env (h @ new) of
               Inl e \<Rightarrow> (Inl (External ''failed to get maintenance config'' e), ctrl, new)
             | Inr None \<Rightarrow> (Inr (None, None), ctrl, new)
             | Inr (Some cfg) \<Rightarrow>
                 if CompleteForBoot cfg then
                   (Inr (Some StateMaintenanceLeave, Some cfg), use_source ''maintenance'' (Some cfg) ctrl, new)
                 else (Inr (None, Some cfg), ctrl, new)))"

definition stateMaintenanceLeave ::
    "('v, 'd, 'm, 'e) acquire_env \<Rightarrow> ('v, 'd) acquire_ctrl \<Rightarrow> ('v, 'd, 'e) acquire_event list \<Rightarrow> ('v, 'd, 'e) acquire_result" where
  "stateMaintenanceLeave env ctrl h =
     (case AnsTeardownRequest env h of
        TeardownFails e \<Rightarrow> (Inl (External ''failed to tear down maintenance service'' e), ctrl, [])
      | TeardownReady False \<Rightarrow> (Inr (None, None), ctrl, [MaintenanceTornDown False])
      | TeardownReady True \<Rightarrow>
          (let new = [MaintenanceTornDown True]
           in case AnsDestroyRequest env (h @ new) of
                Some e \<Rightarrow> (Inl (External ''failed cleaning up maintenance service request'' e), ctrl, new)
              | None \<Rightarrow> (Inr (Some StateDone, None), ctrl, new @ [MaintenanceRequestDestroyed, PublishMaintenance False]))
      | TeardownNotFound \<Rightarrow> (Inr (Some StateDone, None), ctrl, [PublishMaintenance False]))"

definition stateDone ::
    "('v, 'd, 'm, 'e) acquire_env \<Rightarrow> ('v, 'd) acquire_ctrl \<Rightarrow> ('v, 'd, 'e) acquire_event list \<Rightarrow> ('v, 'd, 'e) acquire_result" where
  "stateDone env ctrl h =
     (case AnsWriteStatus env h of
        Some e \<Rightarrow> (Inl (External ''failed to write status'' e), ctrl, [])
      | None \<Rightarrow> (Inr (Some StateFinal, None), ctrl, [StatusWritten, FireEvent EventTypeConfigLoaded]))"

definition stateFinal :: "('v, 'd) acquire_ctrl \<Rightarrow> ('v, 'd, 'e) acquire_result" where
  "stateFinal ctrl = (Inr (None, None), ctrl, [])"

fun acquire_step ::
    "('v, 'd, 'm, 'e) acquire_env \<Rightarrow> acquire_state \<Rightarrow> ('v, 'd) acquire_ctrl \<Rightarrow> ('v, 'd, 'e) acquire_event list \<Rightarrow> ('v, 'd, 'e) acquire_result" where
  "acquire_step env StateDisk ctrl h = stateDisk env ctrl h"
| "acquire_step env StateEmbedded ctrl h = stateEmbedded env ctrl"
| "acquire_step env StateCmdlineEarly ctrl h = stateCmdlineEarly env ctrl"
| "acquire_step env StatePlatform ctrl h = statePlatform env ctrl h"
| "acquire_step env StateCmdlineLate ctrl h = stateCmdlineLate env ctrl"
| "acquire_step env StateMaintenanceEnter ctrl h = stateMaintenanceEnter ctrl"
| "acquire_step env StateMaintenance ctrl h = stateMaintenance env ctrl h"
| "acquire_step env StateMaintenanceLeave ctrl h = stateMaintenanceLeave env ctrl h"
| "acquire_step env StateDone ctrl h = stateDone env ctrl h"
| "acquire_step env StateFinal ctrl h = stateFinal ctrl"


section \<open>The run\<close>

text \<open>Applying a configuration: it is persisted unless the only source used is the STATE volume.\<close>

definition apply_config ::
    "('v, 'd, 'm, 'e) acquire_env \<Rightarrow> ('v, 'd) acquire_ctrl \<Rightarrow> ('v, 'd) config option \<Rightarrow> ('v, 'd, 'e) acquire_event list \<Rightarrow>
       'e load_error option \<times> ('v, 'd, 'e) acquire_event list" where
  "apply_config env ctrl cfg h =
     (case cfg of
        None \<Rightarrow> (None, [])
      | Some c \<Rightarrow>
          (case AnsSet env h c of
             Some e \<Rightarrow> (Some (External ''failed to set config'' e), [])
           | None \<Rightarrow>
               if ConfigSourcesUsed ctrl = [''state''] then (None, [SetConfig c])
               else (case AnsPersist env (h @ [SetConfig c]) c of
                   Some e \<Rightarrow> (Some (External ''failed to set persisted config'' e), [SetConfig c])
                 | None \<Rightarrow> (None, [SetConfig c, SetPersistedConfig c]))))"

fun state_rank :: "acquire_state \<Rightarrow> nat" where
  "state_rank StateDisk = 9"
| "state_rank StateEmbedded = 8"
| "state_rank StateCmdlineEarly = 7"
| "state_rank StatePlatform = 6"
| "state_rank StateCmdlineLate = 5"
| "state_rank StateMaintenanceEnter = 4"
| "state_rank StateMaintenance = 3"
| "state_rank StateMaintenanceLeave = 2"
| "state_rank StateDone = 1"
| "state_rank StateFinal = 0"

lemma loaded_state_next:
  assumes "loaded_state name next_state loaded ctrl = (Inr (Some st', cfg), ctrl', new)"
  shows "st' = (if incomplete cfg then next_state else StateDone)"
  using assms by (auto simp: loaded_state_def split: sum.splits)

text \<open>No state is entered twice on the way to a wait: this is why the loop of the state machine ends.\<close>

lemma acquire_step_rank:
  assumes "acquire_step env st ctrl h = (Inr (Some st', cfg), ctrl', new)"
  shows "state_rank st' < state_rank st"
proof (cases st)
  case StateDisk
  with assms show ?thesis
    by (auto simp: stateDisk_def Let_def split: sum.splits option.splits if_splits prod.splits)
next
  case StateEmbedded
  with assms show ?thesis by (auto simp: stateEmbedded_def dest!: loaded_state_next)
next
  case StateCmdlineEarly
  with assms show ?thesis
    by (auto simp: stateCmdlineEarly_def stateCmdlineGeneric_def dest!: loaded_state_next split: if_splits)
next
  case StatePlatform
  with assms show ?thesis by (auto simp: statePlatform_def dest!: loaded_state_next)
next
  case StateCmdlineLate
  with assms show ?thesis
    by (auto simp: stateCmdlineLate_def stateCmdlineGeneric_def dest!: loaded_state_next split: if_splits)
next
  case StateMaintenance
  with assms show ?thesis
    by (auto simp: stateMaintenance_def Let_def split: sum.splits option.splits if_splits)
next
  case StateMaintenanceLeave
  with assms show ?thesis
    by (auto simp: stateMaintenanceLeave_def Let_def split: teardown_answer.splits option.splits bool.splits)
next
  case StateDone
  with assms show ?thesis by (auto simp: stateDone_def split: option.splits)
qed (use assms in \<open>auto simp: stateMaintenanceEnter_def stateFinal_def\<close>)

text \<open>The inner loop of Run, up to a wait or an error. An error of a state function is published; one of
  the setter is not.\<close>

function run_machine ::
    "('v, 'd, 'm, 'e) acquire_env \<Rightarrow> acquire_state \<Rightarrow> ('v, 'd) acquire_ctrl \<Rightarrow> ('v, 'd, 'e) acquire_event list \<Rightarrow>
       'e load_error option \<times> acquire_state \<times> ('v, 'd) acquire_ctrl \<times> ('v, 'd, 'e) acquire_event list" where
  "run_machine env st ctrl h =
     (case acquire_step env st ctrl h of
        (Inl e, ctrl', new) \<Rightarrow> (Some e, st, ctrl', h @ new @ [PublishLoadError, FireEvent EventTypeFailure])
      | (Inr (next_st, cfg), ctrl', new) \<Rightarrow>
          (case apply_config env ctrl' cfg (h @ new) of
             (Some e, sets) \<Rightarrow> (Some e, st, ctrl', h @ new @ sets)
           | (None, sets) \<Rightarrow>
               (case next_st of
                  None \<Rightarrow> (None, st, ctrl', h @ new @ sets)
                | Some st' \<Rightarrow> run_machine env st' ctrl' (h @ new @ sets))))"
  by pat_completeness auto
termination
  by (relation "measure (\<lambda>(env, st, ctrl, h). state_rank st)") (auto, metis acquire_step_rank)

declare run_machine.simps [simp del]

text \<open>The beginning of Run: the embedded directory, the embedded configuration, and the sources used.\<close>

definition EmbeddedConfigDirectory :: string where
  "EmbeddedConfigDirectory = ''/usr/local/etc/talos/''"

definition processEmbeddedConfig ::
    "('v, 'd, 'm, 'e) acquire_env \<Rightarrow> ('v, 'd) acquire_ctrl \<Rightarrow> ('v, 'd, 'e) acquire_event list \<Rightarrow>
       'e load_error option \<times> ('v, 'd) acquire_ctrl \<times> ('v, 'd, 'e) acquire_event list" where
  "processEmbeddedConfig env ctrl h =
     (let configPath = EmbeddedDirectory ctrl @ ''config.yaml''
      in case StatEmbedded env h configPath of
           Inl e \<Rightarrow> (Some (External ''failed to stat'' e), ctrl, [])
         | Inr False \<Rightarrow> (None, ctrl, [])
         | Inr True \<Rightarrow>
             (case ReadEmbedded env h configPath of
                Inl e \<Rightarrow> (Some (External ''failed to read embedded config'' e), ctrl, [])
              | Inr b \<Rightarrow>
                  (let ctrl = ctrl\<lparr>StoredEmbedded := Some b\<rparr>
                   in if SkipMasking ctrl then (None, ctrl, [])
                      else (case MaskMount env h of
                          Some e \<Rightarrow> (Some (External ''failed to mask embedded config directory'' e), ctrl, [])
                        | None \<Rightarrow> (None, ctrl, [MaskedEmbedded])))))"

definition start_run ::
    "('v, 'd, 'm, 'e) acquire_env \<Rightarrow> ('v, 'd) acquire_ctrl \<Rightarrow> ('v, 'd, 'e) acquire_event list \<Rightarrow>
       'e load_error option \<times> ('v, 'd) acquire_ctrl \<times> ('v, 'd, 'e) acquire_event list" where
  "start_run env ctrl h =
     (let ctrl = (if EmbeddedDirectory ctrl = '''' then ctrl\<lparr>EmbeddedDirectory := EmbeddedConfigDirectory\<rparr>
                  else ctrl\<lparr>SkipMasking := True\<rparr>)
      in case processEmbeddedConfig env ctrl h of
           (Some e, ctrl, new) \<Rightarrow> (Some e, ctrl, h @ new)
         | (None, ctrl, new) \<Rightarrow> (None, ctrl\<lparr>ConfigSourcesUsed := []\<rparr>, h @ new))"

text \<open>One reconciliation, with currentState: without a specification it waits.\<close>

definition reconcile ::
    "('v, 'd, 'm, 'e) acquire_env \<Rightarrow> acquire_state \<Rightarrow> ('v, 'd) acquire_ctrl \<Rightarrow> ('v, 'd, 'e) acquire_event list \<Rightarrow>
       'e load_error option \<times> acquire_state \<times> ('v, 'd) acquire_ctrl \<times> ('v, 'd, 'e) acquire_event list" where
  "reconcile env st ctrl h =
     (case SpecExists env h of
        Inl e \<Rightarrow> (Some (External ''failed to get spec'' e), st, ctrl, h)
      | Inr False \<Rightarrow> (None, st, ctrl, h)
      | Inr True \<Rightarrow> run_machine env st ctrl h)"

text \<open>
  The life of the controller: Run is started, reconciles any number of times, and is started again by
  the controller runtime after an error, on the same controller value. The state is None while Run is
  not running.
\<close>

definition new_ctrl :: "string \<Rightarrow> ('v, 'd) acquire_ctrl" where
  "new_ctrl dir = \<lparr>ConfigSourcesUsed = [], Mounter = None, DiskConfig = None, StoredEmbedded = None,
     EmbeddedDirectory = dir, SkipMasking = False\<rparr>"

inductive acquire_runs ::
    "('v, 'd, 'm, 'e) acquire_env \<Rightarrow> string \<Rightarrow> acquire_state option \<Rightarrow> ('v, 'd) acquire_ctrl \<Rightarrow>
       ('v, 'd, 'e) acquire_event list \<Rightarrow> bool" for env dir where
  created: "acquire_runs env dir None (new_ctrl dir) []"
| started: "acquire_runs env dir None ctrl h \<Longrightarrow> start_run env ctrl h = (err, ctrl', h') \<Longrightarrow>
    acquire_runs env dir (if err = None then Some StateDisk else None) ctrl' h'"
| reconciled: "acquire_runs env dir (Some st) ctrl h \<Longrightarrow> reconcile env st ctrl h = (err, st', ctrl', h') \<Longrightarrow>
    acquire_runs env dir (if err = None then Some st' else None) ctrl' h'"


section \<open>What has been applied\<close>

definition configs_set :: "('v, 'd, 'e) acquire_event list \<Rightarrow> ('v, 'd) config list" where
  "configs_set h = List.map_filter (\<lambda>ev. case ev of SetConfig c \<Rightarrow> Some c | _ \<Rightarrow> None) h"

definition configs_persisted :: "('v, 'd, 'e) acquire_event list \<Rightarrow> ('v, 'd) config list" where
  "configs_persisted h = List.map_filter (\<lambda>ev. case ev of SetPersistedConfig c \<Rightarrow> Some c | _ \<Rightarrow> None) h"

named_theorems applied_simps \<open>configurations in a history\<close>

lemma configs_append [applied_simps]:
  "configs_set (h @ h') = configs_set h @ configs_set h'" "configs_persisted (h @ h') = configs_persisted h @ configs_persisted h'"
  "configs_set [] = []" "configs_persisted [] = []"
  "configs_set (ev # h) = (case ev of SetConfig c \<Rightarrow> [c] | _ \<Rightarrow> []) @ configs_set h"
  "configs_persisted (ev # h) = (case ev of SetPersistedConfig c \<Rightarrow> [c] | _ \<Rightarrow> []) @ configs_persisted h"
  by (simp_all add: configs_set_def configs_persisted_def List.map_filter_def split: acquire_event.splits)

lemma configs_mount [applied_simps]:
  "configs_set (map MountEvent evs) = []" "configs_persisted (map MountEvent evs) = []"
  by (induction evs) (simp_all add: applied_simps)

text \<open>The states after a complete configuration.\<close>

definition complete_state :: "acquire_state \<Rightarrow> bool" where
  "complete_state st \<longleftrightarrow> st \<in> {StateMaintenanceLeave, StateDone, StateFinal}"

definition complete_applied :: "('v, 'd) acquire_ctrl \<Rightarrow> ('v, 'd, 'e) acquire_event list \<Rightarrow> bool" where
  "complete_applied ctrl h \<longleftrightarrow>
     configs_set h \<noteq> [] \<and> CompleteForBoot (last (configs_set h)) \<and>
     (ConfigSourcesUsed ctrl \<noteq> [''state''] \<longrightarrow>
        configs_persisted h \<noteq> [] \<and> last (configs_persisted h) = last (configs_set h))"

definition status_ok :: "('v, 'd, 'e) acquire_event list \<Rightarrow> bool" where
  "status_ok h \<longleftrightarrow>
     (\<forall>i < length h. h ! i = StatusWritten \<longrightarrow>
        configs_set (take i h) \<noteq> [] \<and> CompleteForBoot (last (configs_set (take i h))))"

lemma status_ok_append:
  assumes "status_ok h" "StatusWritten \<notin> set new"
  shows "status_ok (h @ new)"
  unfolding status_ok_def
proof (intro allI impI)
  fix i assume i: "i < length (h @ new)" "(h @ new) ! i = StatusWritten"
  have "i < length h"
  proof (rule ccontr)
    assume "\<not> i < length h"
    with i have "new ! (i - length h) = StatusWritten" "i - length h < length new" by (auto simp: nth_append)
    with assms(2) show False by (metis nth_mem)
  qed
  with i assms(1) show "configs_set (take i (h @ new)) \<noteq> [] \<and> CompleteForBoot (last (configs_set (take i (h @ new))))"
    by (simp add: status_ok_def nth_append)
qed

lemma status_ok_written: "status_ok h \<Longrightarrow> complete_applied ctrl h \<Longrightarrow> status_ok (h @ [StatusWritten, FireEvent ev])"
  unfolding status_ok_def complete_applied_def by (auto simp: nth_append less_Suc_eq)

text \<open>The effects of a state function, and what it hands on to a complete state.\<close>

definition quiet :: "('v, 'd, 'e) acquire_event list \<Rightarrow> bool" where
  "quiet new \<longleftrightarrow> configs_set new = [] \<and> configs_persisted new = [] \<and> StatusWritten \<notin> set new"

lemma quiet_simps [simp]:
  "quiet []" "quiet (map MountEvent evs)"
  by (auto simp: quiet_def applied_simps)

lemma loadFromDisk_quiet: "loadFromDisk env ctrl h = (r, ctrl', new) \<Longrightarrow> quiet new"
  by (auto simp: loadFromDisk_def Let_def split: prod.splits automaton_end.splits)

lemma loadFromDisk_fields:
  assumes "loadFromDisk env ctrl h = (r, ctrl', new)"
  shows "ConfigSourcesUsed ctrl' = ConfigSourcesUsed ctrl" "StoredEmbedded ctrl' = StoredEmbedded ctrl"
  using assms by (auto simp: loadFromDisk_def Let_def split: prod.splits automaton_end.splits)

lemma step_quiet:
  assumes "acquire_step env st ctrl h = (r, ctrl', new)" "st \<noteq> StateDone"
  shows "quiet new"
proof (cases st)
  case StateDisk
  with assms show ?thesis
    by (auto simp: stateDisk_def Let_def dest: loadFromDisk_quiet split: sum.splits option.splits if_splits prod.splits)
next
  case StateEmbedded
  with assms show ?thesis by (auto simp: stateEmbedded_def loaded_state_def split: sum.splits)
next
  case StateCmdlineEarly
  with assms show ?thesis
    by (auto simp: stateCmdlineEarly_def stateCmdlineGeneric_def loaded_state_def split: sum.splits if_splits)
next
  case StatePlatform
  with assms show ?thesis by (auto simp: statePlatform_def loaded_state_def split: sum.splits)
next
  case StateCmdlineLate
  with assms show ?thesis
    by (auto simp: stateCmdlineLate_def stateCmdlineGeneric_def loaded_state_def split: sum.splits if_splits)
next
  case StateMaintenanceEnter
  with assms show ?thesis by (auto simp: stateMaintenanceEnter_def quiet_def applied_simps)
next
  case StateMaintenance
  with assms show ?thesis
    by (auto simp: stateMaintenance_def Let_def quiet_def applied_simps split: sum.splits option.splits if_splits)
next
  case StateMaintenanceLeave
  with assms show ?thesis
    by (auto simp: stateMaintenanceLeave_def Let_def quiet_def applied_simps split: teardown_answer.splits option.splits bool.splits)
qed (use assms in \<open>auto simp: stateFinal_def\<close>)

lemma loaded_state_complete:
  assumes "loaded_state name next_state loaded ctrl = (Inr (Some st', cfg), ctrl', new)" "\<not> complete_state next_state" "complete_state st'"
  shows "\<not> incomplete cfg"
  using assms by (auto simp: loaded_state_def split: sum.splits if_splits)

text \<open>A complete state is entered with a complete configuration, or from another one without any.\<close>

lemma step_complete:
  assumes "acquire_step env st ctrl h = (Inr (Some st', cfg), ctrl', new)" "complete_state st'"
  shows "\<not> incomplete cfg \<or> cfg = None \<and> complete_state st \<and> ctrl' = ctrl"
proof (cases st)
  case StateDisk
  with assms show ?thesis
    by (auto simp: stateDisk_def Let_def incomplete_def complete_state_def
        split: sum.splits option.splits if_splits prod.splits)
next
  case StateEmbedded
  with assms loaded_state_complete show ?thesis by (fastforce simp: stateEmbedded_def complete_state_def)
next
  case StateCmdlineEarly
  with assms show ?thesis
    by (auto simp: stateCmdlineEarly_def stateCmdlineGeneric_def complete_state_def loaded_state_def split: if_splits sum.splits)
next
  case StatePlatform
  with assms show ?thesis by (auto simp: statePlatform_def loaded_state_def complete_state_def split: if_splits sum.splits)
next
  case StateCmdlineLate
  with assms show ?thesis
    by (auto simp: stateCmdlineLate_def stateCmdlineGeneric_def complete_state_def loaded_state_def split: if_splits sum.splits)
next
  case StateMaintenanceEnter
  with assms show ?thesis by (auto simp: stateMaintenanceEnter_def complete_state_def)
next
  case StateMaintenance
  with assms show ?thesis
    by (auto simp: stateMaintenance_def Let_def incomplete_def split: sum.splits option.splits if_splits)
next
  case StateMaintenanceLeave
  with assms show ?thesis
    by (auto simp: stateMaintenanceLeave_def Let_def complete_state_def split: teardown_answer.splits option.splits bool.splits)
next
  case StateDone
  with assms show ?thesis by (auto simp: stateDone_def complete_state_def split: option.splits)
qed (use assms in \<open>auto simp: stateFinal_def\<close>)

lemma wait_complete:
  assumes "acquire_step env st ctrl h = (Inr (None, cfg), ctrl', new)" "complete_state st"
  shows "cfg = None \<and> ctrl' = ctrl"
  using assms
  by (cases st) (auto simp: complete_state_def stateMaintenanceLeave_def stateDone_def stateFinal_def Let_def
      split: teardown_answer.splits option.splits bool.splits)

lemma apply_config_cases:
  assumes "apply_config env ctrl cfg h = (err, sets)"
  shows "StatusWritten \<notin> set sets"
    and "cfg = None \<Longrightarrow> err = None \<and> sets = []"
    and "err = None \<Longrightarrow> cfg = Some c \<Longrightarrow>
      sets = (if ConfigSourcesUsed ctrl = [''state''] then [SetConfig c] else [SetConfig c, SetPersistedConfig c])"
  using assms by (auto simp: apply_config_def split: option.splits if_splits)

lemma run_machine_inv:
  assumes "run_machine env st ctrl h = (err, st', ctrl', h')" "status_ok h" "complete_state st \<longrightarrow> complete_applied ctrl h"
  shows "status_ok h' \<and> (err = None \<longrightarrow> complete_state st' \<longrightarrow> complete_applied ctrl' h')"
  using assms
proof (induction env st ctrl h arbitrary: err st' ctrl' h' rule: run_machine.induct)
  case (1 env st ctrl h)
  obtain r c1 new where s: "acquire_step env st ctrl h = (r, c1, new)" by (metis prod_cases3)
  have st1: "status_ok (h @ new)"
  proof (cases "st = StateDone")
    case True
    with s 1(3,4) show ?thesis
      by (auto simp: stateDone_def complete_state_def intro: status_ok_written split: option.splits)
  next
    case False
    with step_quiet [OF s] 1(3) show ?thesis by (simp add: quiet_def status_ok_append)
  qed
  show ?case
  proof (cases r)
    case (Inl e)
    with 1(2) s have "h' = (h @ new) @ [PublishLoadError, FireEvent EventTypeFailure]" "err \<noteq> None"
      by (auto simp: run_machine.simps [of env st ctrl h])
    with st1 show ?thesis using status_ok_append by fastforce
  next
    case (Inr p)
    then obtain nxt cfg where r: "r = Inr (nxt, cfg)" by (cases p) auto
    obtain aerr sets where a: "apply_config env c1 cfg (h @ new) = (aerr, sets)" by (metis surj_pair)
    have st2: "status_ok (h @ new @ sets)"
      using status_ok_append [OF st1 apply_config_cases(1) [OF a]] by simp
    show ?thesis
    proof (cases aerr)
      case (Some e)
      with 1(2) s r a st2 show ?thesis by (auto simp: run_machine.simps [of env st ctrl h])
    next
      case None
      have quiet_new: "configs_set (h @ new) = configs_set h \<and> configs_persisted (h @ new) = configs_persisted h"
      proof (cases "st = StateDone")
        case True
        with s show ?thesis by (auto simp: stateDone_def applied_simps split: option.splits)
      next
        case False
        with step_quiet [OF s] show ?thesis by (simp add: quiet_def applied_simps)
      qed
      show ?thesis
      proof (cases nxt)
        case stay: None
        with 1(2) s r a None have e: "st' = st" "ctrl' = c1" "h' = h @ new @ sets"
          by (auto simp: run_machine.simps [of env st ctrl h])
        have "complete_applied c1 (h @ new @ sets)" if "complete_state st"
        proof -
          from wait_complete [OF s [unfolded r stay] that] have "cfg = None" "c1 = ctrl" by auto
          with apply_config_cases(2) [OF a] quiet_new 1(4) that show ?thesis
            by (simp add: complete_applied_def applied_simps)
        qed
        with st2 e show ?thesis by simp
      next
        case (Some st1)
        have "complete_applied c1 (h @ new @ sets)" if c: "complete_state st1"
        proof (cases "incomplete cfg")
          case True
          with step_complete [OF s [unfolded r Some] c] have "cfg = None" "complete_state st" "c1 = ctrl" by auto
          with apply_config_cases(2) [OF a] quiet_new 1(4) show ?thesis
            by (simp add: complete_applied_def applied_simps)
        next
          case False
          then obtain c where c: "cfg = Some c" "CompleteForBoot c" by (auto simp: incomplete_def split: option.splits)
          from apply_config_cases(3) [OF a None c(1)] c(2) show ?thesis
            by (simp add: complete_applied_def applied_simps)
        qed
        moreover have "run_machine env st1 c1 (h @ new @ sets) = (err, st', ctrl', h')"
          using 1(2) s r a None Some by (simp add: run_machine.simps [of env st ctrl h])
        ultimately show ?thesis
          using 1(1) [OF s [symmetric] r refl refl a [symmetric] None Some] st2 by blast
      qed
    qed
  qed
qed


lemma start_run_appends:
  assumes "start_run env ctrl h = (err, ctrl', h')"
  shows "\<exists>new. h' = h @ new \<and> StatusWritten \<notin> set new"
  using assms by (auto simp: start_run_def processEmbeddedConfig_def Let_def
      split: prod.splits option.splits sum.splits bool.splits if_splits)

lemma acquire_runs_inv:
  assumes "acquire_runs env dir st ctrl h"
  shows "status_ok h \<and> (\<forall>s. st = Some s \<longrightarrow> complete_state s \<longrightarrow> complete_applied ctrl h)"
  using assms
proof (induction rule: acquire_runs.induct)
  case created
  show ?case by (simp add: status_ok_def)
next
  case (started ctrl h err ctrl' h')
  from start_run_appends [OF started.hyps(2)] started.IH show ?case
    by (auto simp: complete_state_def intro: status_ok_append)
next
  case (reconciled st ctrl h err st' ctrl' h')
  then show ?case using run_machine_inv [of env st ctrl h err st' ctrl' h']
    by (auto simp: reconcile_def split: sum.splits bool.splits)
qed

section \<open>The order of the sources\<close>

text \<open>What should be applied of the configurations of a list of sources: those found, up to the first
  complete one, and whether there is one.\<close>

fun plan :: "('v, 'd) config option list \<Rightarrow> ('v, 'd) config list \<times> bool" where
  "plan [] = ([], False)"
| "plan (None # cs) = plan cs"
| "plan (Some c # cs) = (if CompleteForBoot c then ([c], True) else (c # fst (plan cs), snd (plan cs)))"

definition cmdline_source :: "('v, 'd, 'm, 'e) acquire_env \<Rightarrow> string \<Rightarrow> 'e load_error + ('v, 'd) config option" where
  "cmdline_source env name = (if InContainer env then Inr None else loadFromCmdline env name)"

definition follows_plan ::
    "('v, 'd, 'm, 'e) acquire_env \<Rightarrow> acquire_state \<Rightarrow> ('v, 'd) config option list \<Rightarrow> ('v, 'd) acquire_ctrl \<Rightarrow>
       ('v, 'd, 'e) acquire_event list \<Rightarrow> bool" where
  "follows_plan env st cs ctrl h \<longleftrightarrow>
     (\<exists>ctrl' new. run_machine env st ctrl h = (None, if snd (plan cs) then StateFinal else StateMaintenance, ctrl', h @ new) \<and>
        configs_set new = fst (plan cs) \<and> configs_persisted new = fst (plan cs) \<and> (StatusWritten \<in> set new \<longleftrightarrow> snd (plan cs)))"

text \<open>No call of the machine's own fails, and the maintenance service has no configuration yet.\<close>

definition calm :: "('v, 'd, 'm, 'e) acquire_env \<Rightarrow> bool" where
  "calm env \<longleftrightarrow> (\<forall>h c. AnsSet env h c = None \<and> AnsPersist env h c = None) \<and>
     (\<forall>h. AnsWriteStatus env h = None \<and> AnsRequest env h = None \<and> MaintenanceConfig env h = Inr None)"

definition fresh_sources :: "('v, 'd) acquire_ctrl \<Rightarrow> bool" where
  "fresh_sources ctrl \<longleftrightarrow> ''state'' \<notin> set (ConfigSourcesUsed ctrl)"

lemma calm_simps:
  assumes "calm env"
  shows "AnsSet env h c = None" "AnsPersist env h c = None" "AnsWriteStatus env h = None" "AnsRequest env h = None"
    "MaintenanceConfig env h = Inr None"
  using assms by (simp_all add: calm_def)

lemma run_done:
  assumes "calm env"
  shows "run_machine env StateDone ctrl h = (None, StateFinal, ctrl, h @ [StatusWritten, FireEvent EventTypeConfigLoaded])"
  by (simp add: run_machine.simps stateDone_def stateFinal_def apply_config_def calm_simps [OF assms])

lemma run_maintenance:
  assumes "calm env"
  shows "run_machine env StateMaintenanceEnter ctrl h =
    (None, StateMaintenance, ctrl, h @ [FireEvent EventTypeActivate, PublishMaintenance True, MaintenanceRequested])"
  by (simp add: run_machine.simps stateMaintenanceEnter_def stateMaintenance_def apply_config_def calm_simps [OF assms] Let_def)

lemma follows_maintenance: "calm env \<Longrightarrow> follows_plan env StateMaintenanceEnter [] ctrl h"
  by (simp add: follows_plan_def run_maintenance applied_simps)

lemma apply_calm:
  assumes "calm env" "ConfigSourcesUsed ctrl \<noteq> [''state'']"
  shows "apply_config env ctrl cfg h = (None, case cfg of None \<Rightarrow> [] | Some c \<Rightarrow> [SetConfig c, SetPersistedConfig c])"
  using assms(2) by (simp add: apply_config_def calm_simps [OF assms(1)] split: option.split)

text \<open>A source in front of the others.\<close>

lemma follows_source:
  assumes calm: "calm env" and step: "acquire_step env st ctrl h = loaded_state name next_state (Inr cfg) ctrl"
    and fresh: "fresh_sources ctrl" "name \<noteq> ''state''"
    and rest: "\<And>h. follows_plan env next_state cs (use_source name cfg ctrl) h"
  shows "follows_plan env st (cfg # cs) ctrl h"
proof -
  let ?ctrl = "use_source name cfg ctrl"
  let ?sets = "case cfg of None \<Rightarrow> [] | Some c \<Rightarrow> [SetConfig c, SetPersistedConfig c]"
  have "ConfigSourcesUsed ?ctrl \<noteq> [''state'']" using fresh by (auto simp: use_source_def fresh_sources_def)
  then have run: "run_machine env st ctrl h =
      run_machine env (if incomplete cfg then next_state else StateDone) ?ctrl (h @ ?sets)"
    using step by (simp add: run_machine.simps [of env st ctrl h] loaded_state_def apply_calm [OF calm])
  show ?thesis
  proof (cases "incomplete cfg")
    case True
    obtain ctrl' new where n: "run_machine env next_state ?ctrl (h @ ?sets) =
        (None, if snd (plan cs) then StateFinal else StateMaintenance, ctrl', (h @ ?sets) @ new)"
      "configs_set new = fst (plan cs)" "configs_persisted new = fst (plan cs)" "StatusWritten \<in> set new \<longleftrightarrow> snd (plan cs)"
      using rest [of "h @ ?sets"] unfolding follows_plan_def by blast
    have p: "plan (cfg # cs) = ((case cfg of None \<Rightarrow> [] | Some c \<Rightarrow> [c]) @ fst (plan cs), snd (plan cs))"
      using True by (auto simp: incomplete_def split: option.splits)
    show ?thesis
      unfolding follows_plan_def run p using n True
      by (intro exI [of _ ctrl'] exI [of _ "?sets @ new"]) (auto simp: applied_simps split: option.splits)
  next
    case False
    then obtain c where c: "cfg = Some c" "CompleteForBoot c" by (auto simp: incomplete_def split: option.splits)
    then show ?thesis
      unfolding follows_plan_def run using False by (simp add: run_done [OF calm] applied_simps)
  qed
qed

lemma use_source_fields [simp]:
  "StoredEmbedded (use_source name cfg ctrl) = StoredEmbedded ctrl" "Mounter (use_source name cfg ctrl) = Mounter ctrl"
  by (simp_all add: use_source_def)

lemma fresh_use_source: "fresh_sources ctrl \<Longrightarrow> name \<noteq> ''state'' \<Longrightarrow> fresh_sources (use_source name cfg ctrl)"
  by (auto simp: fresh_sources_def use_source_def)

lemma cmdline_step:
  assumes "cmdline_source env paramName = Inr cfg"
  shows "stateCmdlineGeneric paramName name next_state env ctrl = loaded_state name next_state (Inr cfg) ctrl"
  using assms by (auto simp: cmdline_source_def stateCmdlineGeneric_def loaded_state_def incomplete_def use_source_def split: if_splits)

text \<open>The sources after the STATE volume.\<close>

lemma follows_sources:
  assumes calm: "calm env" and fresh: "fresh_sources ctrl" "PlatformName env \<noteq> ''state''"
    and e: "loadConfigFromEmbedded env ctrl = Inr e"
    and c1: "cmdline_source env ''talos.config.early'' = Inr c1"
    and p: "\<And>h. loadFromPlatform env h = Inr p"
    and c2: "cmdline_source env ''talos.config.inline'' = Inr c2"
  shows "follows_plan env StateEmbedded [e, c1, p, c2] ctrl h"
proof (rule follows_source [OF calm _ fresh(1)])
  show "acquire_step env StateEmbedded ctrl h = loaded_state ''embedded'' StateCmdlineEarly (Inr e) ctrl"
    by (simp add: stateEmbedded_def e)
  let ?c = "use_source ''embedded'' e ctrl"
  have f: "fresh_sources ?c" by (rule fresh_use_source [OF fresh(1)]) simp
  show "follows_plan env StateCmdlineEarly [c1, p, c2] ?c h" for h
  proof (rule follows_source [OF calm _ f])
    show "acquire_step env StateCmdlineEarly ?c h = loaded_state ''cmdline-early'' StatePlatform (Inr c1) ?c"
      by (simp add: stateCmdlineEarly_def cmdline_step [OF c1])
    let ?d = "use_source ''cmdline-early'' c1 ?c"
    have g: "fresh_sources ?d" by (rule fresh_use_source [OF f]) simp
    show "follows_plan env StatePlatform [p, c2] ?d h" for h
    proof (rule follows_source [OF calm _ g fresh(2)])
      show "acquire_step env StatePlatform ?d h = loaded_state (PlatformName env) StateCmdlineLate (Inr p) ?d"
        by (simp add: statePlatform_def p)
      let ?f = "use_source (PlatformName env) p ?d"
      have k: "fresh_sources ?f" by (rule fresh_use_source [OF g fresh(2)])
      show "follows_plan env StateCmdlineLate [c2] ?f h" for h
        by (rule follows_source [OF calm _ k _ follows_maintenance [OF calm]], simp add: stateCmdlineLate_def cmdline_step [OF c2], simp)
    qed
  qed simp
qed simp


text \<open>From the STATE volume on.\<close>

lemma follows_boot:
  assumes "calm env" "ConfigSourcesUsed ctrl = []" "PlatformName env \<noteq> ''state''"
    and "StateVolume env h = Inr (Some VolumePhaseMissing) \<or>
      StateVolume env h = Inr (Some VolumePhaseReady) \<and>
      (\<exists>ctrl1 disk. loadFromDisk env ctrl h = (Inr (None, True), ctrl1, disk))"
    and "loadConfigFromEmbedded env ctrl = Inr e" "cmdline_source env ''talos.config.early'' = Inr c1"
    and "\<And>h. loadFromPlatform env h = Inr p" "cmdline_source env ''talos.config.inline'' = Inr c2"
  shows "follows_plan env StateDisk [e, c1, p, c2] ctrl h"
proof -
  have "\<exists>ctrl1 disk. acquire_step env StateDisk ctrl h = (Inr (Some StateEmbedded, None), ctrl1, disk) \<and>
      quiet disk \<and> fresh_sources ctrl1 \<and> StoredEmbedded ctrl1 = StoredEmbedded ctrl"
    using assms(4)
  proof
    assume "StateVolume env h = Inr (Some VolumePhaseMissing)"
    then show ?thesis using assms(2) by (simp add: stateDisk_def fresh_sources_def)
  next
    assume "StateVolume env h = Inr (Some VolumePhaseReady) \<and>
      (\<exists>ctrl1 disk. loadFromDisk env ctrl h = (Inr (None, True), ctrl1, disk))"
    then obtain ctrl1 disk where d: "StateVolume env h = Inr (Some VolumePhaseReady)"
      "loadFromDisk env ctrl h = (Inr (None, True), ctrl1, disk)" by blast
    with loadFromDisk_fields [OF d(2)] loadFromDisk_quiet [OF d(2)] assms(2) show ?thesis
      by (simp add: stateDisk_def use_source_def fresh_sources_def)
  qed
  then obtain ctrl1 disk where s: "acquire_step env StateDisk ctrl h = (Inr (Some StateEmbedded, None), ctrl1, disk)"
    "quiet disk" "fresh_sources ctrl1" "StoredEmbedded ctrl1 = StoredEmbedded ctrl" by blast
  then have run: "run_machine env StateDisk ctrl h = run_machine env StateEmbedded ctrl1 (h @ disk)"
    by (simp add: run_machine.simps [of env StateDisk] apply_config_def)
  have "loadConfigFromEmbedded env ctrl1 = Inr e" using assms(5) s(4) by (simp add: loadConfigFromEmbedded_def)
  from follows_sources [OF assms(1) s(3) assms(3) this assms(6-8), of "h @ disk"]
  obtain ctrl' new where "run_machine env StateEmbedded ctrl1 (h @ disk) =
      (None, if snd (plan [e, c1, p, c2]) then StateFinal else StateMaintenance, ctrl', (h @ disk) @ new)"
    "configs_set new = fst (plan [e, c1, p, c2])" "configs_persisted new = fst (plan [e, c1, p, c2])"
    "StatusWritten \<in> set new \<longleftrightarrow> snd (plan [e, c1, p, c2])" unfolding follows_plan_def by blast
  with s(2) run show ?thesis unfolding follows_plan_def
    by (intro exI [of _ ctrl'] exI [of _ "disk @ new"]) (simp add: quiet_def applied_simps)
qed

section \<open>Properties\<close>

text \<open>C11: the boot goes on only with a complete configuration. Whatever the sources, files, other
  controllers and failures do, over all reconciliations and restarts: when the status that lets the
  boot go on is written, the last configuration applied before is complete; and in the states after
  that (leaving maintenance, done, final) it has also been persisted, unless its only source was the
  STATE volume itself.\<close>

theorem status_after_complete:
  assumes "acquire_runs env dir st ctrl h"
  shows "(\<forall>i < length h. h ! i = StatusWritten \<longrightarrow>
        configs_set (take i h) \<noteq> [] \<and> CompleteForBoot (last (configs_set (take i h)))) \<and>
    (st \<in> {Some StateMaintenanceLeave, Some StateDone, Some StateFinal} \<longrightarrow>
        configs_set h \<noteq> [] \<and> CompleteForBoot (last (configs_set h)) \<and>
        (ConfigSourcesUsed ctrl \<noteq> [''state''] \<longrightarrow>
           configs_persisted h \<noteq> [] \<and> last (configs_persisted h) = last (configs_set h)))"
proof -
  have "status_ok h" and c: "\<And>s. st = Some s \<Longrightarrow> complete_state s \<Longrightarrow> complete_applied ctrl h"
    using acquire_runs_inv [OF assms] by auto
  then have "\<forall>i < length h. h ! i = StatusWritten \<longrightarrow>
        configs_set (take i h) \<noteq> [] \<and> CompleteForBoot (last (configs_set (take i h)))" by (simp add: status_ok_def)
  moreover have "complete_applied ctrl h"
    if "st \<in> {Some StateMaintenanceLeave, Some StateDone, Some StateFinal}"
    using that c by (auto simp: complete_state_def)
  ultimately show ?thesis unfolding complete_applied_def by blast
qed


text \<open>An incomplete configuration that the maintenance service received after an incomplete one from
  STATE is applied but not persisted: the sources used are still those of STATE.\<close>

lemma maintenance_not_persisted:
  assumes "AnsRequest env h = None" "MaintenanceConfig env (h @ [MaintenanceRequested]) = Inr (Some c)" "\<not> CompleteForBoot c"
    "ConfigSourcesUsed ctrl = [''state'']" "AnsSet env (h @ [MaintenanceRequested]) c = None"
  shows "run_machine env StateMaintenance ctrl h = (None, StateMaintenance, ctrl, h @ [MaintenanceRequested, SetConfig c])"
  using assms by (simp add: run_machine.simps stateMaintenance_def apply_config_def Let_def)

text \<open>
  The embedded directory is to be masked before anything can be read from it. When the first start of
  Run fails before the mask is mounted, the directory is set by then, so the controller takes it for
  an overridden one when it is started again, and never masks it.
\<close>

lemma restart_skips_mask:
  assumes "StatEmbedded env [] ''/usr/local/etc/talos/config.yaml'' = Inr True"
    "ReadEmbedded env [] ''/usr/local/etc/talos/config.yaml'' = Inr b" "MaskMount env [] = Some err"
  shows "\<exists>e ctrl1 ctrl2. start_run env (new_ctrl '''') [] = (Some e, ctrl1, []) \<and>
    start_run env ctrl1 [] = (None, ctrl2, []) \<and> StoredEmbedded ctrl2 = Some b"
  using assms by (simp add: start_run_def processEmbeddedConfig_def new_ctrl_def EmbeddedConfigDirectory_def Let_def)


text \<open>
  Witnesses: a machine without a STATE volume, an embedded file with a single document, nothing on
  the command line, and a platform with a v1alpha1 configuration.
\<close>

definition demo_config_methods :: "(nat, string, unit, string) doc_methods" where
  "demo_config_methods = \<lparr>DKind = (\<lambda>d. d), DName = (\<lambda>_. None), ConflictsWithKinds = (\<lambda>_. None), IsSelector = (\<lambda>_. False),
     ToV1Alpha1 = (\<lambda>_. None), Version = ''v1alpha1'', ValidateV1 = \<lambda>_ _. ([], None), ValidateDoc = \<lambda>_ _. None,
     V1Alpha1ConflictValidate = \<lambda>_ _. None, RuntimeValidateV1 = \<lambda>_ _. ([], None), RuntimeValidateDoc = \<lambda>_ _. None,
     RedactV1 = \<lambda>_ v. v, RedactDoc = \<lambda>_ _. None\<rparr>"

definition demo_acquire :: "(nat, string, unit, string) acquire_env" where
  "demo_acquire = \<lparr>Methods = demo_config_methods, DiskMode = (), RuntimeMode = (),
     Decode = (\<lambda>b. if b = [1] then Inr [OtherDocument ''Hostname''] else if b = [2] then Inr [V1Alpha1Document 7] else Inl ''bad''),
     SpecExists = \<lambda>h. Inr True, StateVolume = \<lambda>h. Inr (Some VolumePhaseMissing),
     MountAnswers = \<lparr>AnsWrite = \<lambda>h. None, AnsStatus = \<lambda>h. Inr None, AnsAddFinalizer = \<lambda>h. None,
       AnsCallback = \<lambda>h ms. Inr None, AnsRemoveFinalizer = \<lambda>h. None, AnsTeardown = \<lambda>h. Inr True, AnsDestroy = \<lambda>h. None\<rparr>,
     OpenRoot = \<lambda>h ms. None, StatDisk = \<lambda>h. Inr False, ReadDisk = \<lambda>h. Inl ''none'',
     StatEmbedded = \<lambda>h p. Inr True, ReadEmbedded = \<lambda>h p. Inr [1], MaskMount = \<lambda>h. None,
     InContainer = False, Cmdline = \<lambda>_. None, Unzstd = \<lambda>_. Inl ''zstd'', Gunzip = \<lambda>_. Inl ''gzip'',
     PlatformName = ''metal'', PlatformConfig = \<lambda>h. PlatformBytes [2], AnsRequest = \<lambda>h. None,
     MaintenanceConfig = \<lambda>h. Inr None, AnsTeardownRequest = \<lambda>h. TeardownNotFound, AnsDestroyRequest = \<lambda>h. None,
     AnsWriteStatus = \<lambda>h. None, AnsSet = \<lambda>h c. None, AnsPersist = \<lambda>h c. None\<rparr>"

definition demo_partial :: "(nat, string) config" where
  "demo_partial = \<lparr>V1Config = None, Docs = [''Hostname''], RawBytes = Some [1], ReadonlyFlag = True\<rparr>"

definition demo_full :: "(nat, string) config" where
  "demo_full = \<lparr>V1Config = Some 7, Docs = [], RawBytes = Some [2], ReadonlyFlag = True\<rparr>"

definition demo_ctrl :: "(nat, string) acquire_ctrl" where
  "demo_ctrl = \<lparr>ConfigSourcesUsed = [], Mounter = None, DiskConfig = None, StoredEmbedded = Some [1],
     EmbeddedDirectory = EmbeddedConfigDirectory, SkipMasking = False\<rparr>"

lemma demo_load:
  "new_config demo_acquire [1] = Inr demo_partial" "new_config demo_acquire [2] = Inr demo_full"
  by (simp_all add: new_config_def newConfig_def demo_acquire_def NewReadonly_def NewContainer_def empty_container_def
      maybeSynthesize_def demo_config_methods_def demo_partial_def demo_full_def conflict_ids_def gm_get_def Let_def)

lemma demo_valid:
  "validated demo_acquire mode c = Inr c" "runtime_validated demo_acquire c = Inr c"
proof -
  have m: "Methods demo_acquire = demo_config_methods" by (simp add: demo_acquire_def)
  have "snd (Validate demo_config_methods mode c) = []"
    unfolding Validate_clean by (simp add: demo_config_methods_def)
  then show "validated demo_acquire mode c = Inr c" by (simp add: validated_def m)
  have "snd (RuntimeValidate demo_config_methods (RuntimeMode demo_acquire) c) = []"
    by (cases "V1Config c") (simp_all add: RuntimeValidate_def validate_v1_def validate_docs_errors demo_config_methods_def)
  then show "runtime_validated demo_acquire c = Inr c" by (simp add: runtime_validated_def m)
qed

lemma demo_sources:
  "loadConfigFromEmbedded demo_acquire demo_ctrl = Inr (Some demo_partial)"
  "cmdline_source demo_acquire n = Inr None" "loadFromPlatform demo_acquire h = Inr (Some demo_full)"
proof -
  show "loadConfigFromEmbedded demo_acquire demo_ctrl = Inr (Some demo_partial)"
    by (simp add: loadConfigFromEmbedded_def demo_ctrl_def demo_load then_load_def demo_valid)
  show "cmdline_source demo_acquire n = Inr None"
    by (simp add: cmdline_source_def loadFromCmdline_def demo_acquire_def)
  have "PlatformConfig demo_acquire h = PlatformBytes [2]" by (simp add: demo_acquire_def)
  then show "loadFromPlatform demo_acquire h = Inr (Some demo_full)"
    by (simp add: loadFromPlatform_def is_gzip_def demo_load then_load_def demo_valid)
qed

lemma demo_calm: "calm demo_acquire" "PlatformName demo_acquire \<noteq> ''state''"
  "StateVolume demo_acquire h = Inr (Some VolumePhaseMissing)" "ConfigSourcesUsed demo_ctrl = []"
  "SpecExists demo_acquire h = Inr True"
  by (simp_all add: calm_def demo_acquire_def demo_ctrl_def)

lemma demo_plan: "plan [Some demo_partial, None, Some demo_full, None] = ([demo_partial, demo_full], True)"
  by (simp add: CompleteForBoot_def demo_partial_def demo_full_def)


theorem status_after_complete_witness:
  "\<exists>ctrl h. acquire_runs demo_acquire '''' (Some StateFinal) ctrl h \<and> StatusWritten \<in> set h \<and>
     CompleteForBoot (last (configs_set h))"
proof -
  have "start_run demo_acquire (new_ctrl '''') [] = (None, demo_ctrl, [MaskedEmbedded])"
    by (simp add: start_run_def processEmbeddedConfig_def new_ctrl_def demo_ctrl_def demo_acquire_def Let_def)
  from acquire_runs.started [OF acquire_runs.created this]
  have r: "acquire_runs demo_acquire '''' (Some StateDisk) demo_ctrl [MaskedEmbedded]" by simp
  obtain ctrl' h where run: "run_machine demo_acquire StateDisk demo_ctrl [MaskedEmbedded] = (None, StateFinal, ctrl', h)"
    and written: "StatusWritten \<in> set h"
  proof -
    have "follows_plan demo_acquire StateDisk [Some demo_partial, None, Some demo_full, None] demo_ctrl [MaskedEmbedded]"
      by (rule follows_boot [OF demo_calm(1,4,2) _ demo_sources(1,2,3,2)]) (simp add: demo_calm(3))
    then have "\<exists>ctrl' new. run_machine demo_acquire StateDisk demo_ctrl [MaskedEmbedded] =
        (None, StateFinal, ctrl', [MaskedEmbedded] @ new) \<and> StatusWritten \<in> set new"
      unfolding follows_plan_def demo_plan snd_conv by (simp only: if_True simp_thms) blast
    then obtain ctrl' new where "run_machine demo_acquire StateDisk demo_ctrl [MaskedEmbedded] =
        (None, StateFinal, ctrl', [MaskedEmbedded] @ new)" "StatusWritten \<in> set new" by blast
    then show thesis by (intro that [of ctrl' "[MaskedEmbedded] @ new"]) simp_all
  qed
  have "reconcile demo_acquire StateDisk demo_ctrl [MaskedEmbedded] = (None, StateFinal, ctrl', h)"
    using run demo_calm(5) by (simp add: reconcile_def)
  from acquire_runs.reconciled [OF r this]
  have "acquire_runs demo_acquire '''' (Some StateFinal) ctrl' h" by simp
  with status_after_complete [OF this] written show ?thesis by auto
qed

end
