(* ===== verification/Authz.thy ===== *)
theory Authz
  imports Prelude "HOL-Library.Char_ord" "HOL-Library.List_Lexorder" "HOL-Library.Sublist"
begin

text \<open>
  Who may call the API: the roles (pkg/machinery/role), the gRPC interceptors that put them into the
  context of a call and check them (pkg/grpc/middleware/authz), the way a call takes from apid of one
  node to machined of the same or another one (internal/app/apid/pkg/director, its backends and
  pkg/grpc/proxy/backend), the rules of machined (system/services/machined.go) and the access policy of
  the resource API (internal/app/resources/access.go).

  gRPC itself is outside of the repository: the metadata of a call are a map from keys to values, and
  the two methods of metadata.MD that the code calls are a parameter with the laws \<open>md_laws\<close>.
\<close>

section \<open>Roles\<close>

text \<open>strings.TrimSpace: the UTF-8 encodings of the runes of unicode.IsSpace.\<close>

definition space_runes :: "string list" where
  "space_runes = [[CHR 0x09], [CHR 0x0A], [CHR 0x0B], [CHR 0x0C], [CHR 0x0D], [CHR 0x20],
     [CHR 0xC2, CHR 0x85], [CHR 0xC2, CHR 0xA0], [CHR 0xE1, CHR 0x9A, CHR 0x80],
     [CHR 0xE2, CHR 0x80, CHR 0x80], [CHR 0xE2, CHR 0x80, CHR 0x81], [CHR 0xE2, CHR 0x80, CHR 0x82],
     [CHR 0xE2, CHR 0x80, CHR 0x83], [CHR 0xE2, CHR 0x80, CHR 0x84], [CHR 0xE2, CHR 0x80, CHR 0x85],
     [CHR 0xE2, CHR 0x80, CHR 0x86], [CHR 0xE2, CHR 0x80, CHR 0x87], [CHR 0xE2, CHR 0x80, CHR 0x88],
     [CHR 0xE2, CHR 0x80, CHR 0x89], [CHR 0xE2, CHR 0x80, CHR 0x8A], [CHR 0xE2, CHR 0x80, CHR 0xA8],
     [CHR 0xE2, CHR 0x80, CHR 0xA9], [CHR 0xE2, CHR 0x80, CHR 0xAF], [CHR 0xE2, CHR 0x81, CHR 0x9F],
     [CHR 0xE3, CHR 0x80, CHR 0x80]]"

text \<open>Removes the given non-empty words from the front as long as one is there.\<close>

function trim_front :: "'a list list \<Rightarrow> 'a list \<Rightarrow> 'a list" where
  "trim_front ws s =
     (case List.find (\<lambda>w. w \<noteq> [] \<and> prefix w s) ws of None \<Rightarrow> s | Some w \<Rightarrow> trim_front ws (drop (length w) s))"
  by pat_completeness auto
termination
proof (relation "measure (\<lambda>(ws, s). length s)", simp)
  fix ws s w assume "List.find (\<lambda>w. w \<noteq> [] \<and> prefix w s) ws = Some (w :: 'a list)"
  then have "w \<noteq> [] \<and> prefix w s" by (auto simp: find_Some_iff)
  then have "length w > 0" "length w \<le> length s" by (auto dest: prefix_length_le)
  then have "length s - length w < length s" by arith
  then show "((ws, drop (length w) s), ws, s) \<in> measure (\<lambda>(ws, s). length s)" by simp
qed

declare trim_front.simps [simp del]

definition TrimSpace :: "string \<Rightarrow> string" where
  "TrimSpace s = rev (trim_front (map rev space_runes) (rev (trim_front space_runes s)))"

definition Admin :: string where "Admin = ''os:admin''"
definition Operator :: string where "Operator = ''os:operator''"
definition Reader :: string where "Reader = ''os:reader''"
definition Impersonator :: string where "Impersonator = ''os:impersonator''"

text \<open>A set of roles is the list of the keys of its map.\<close>

type_synonym role_set = "string list"

definition MakeSet :: "string list \<Rightarrow> role_set" where
  "MakeSet roles = foldl (\<lambda>s r. if r \<in> set s then s else s @ [r]) [] roles"

definition AllRoles :: role_set where
  "AllRoles = MakeSet [Admin, Operator, Reader, Impersonator]"

fun parse_loop :: "string list \<Rightarrow> role_set \<Rightarrow> string list \<Rightarrow> role_set \<times> string list" where
  "parse_loop [] res unknown = (res, unknown)"
| "parse_loop (s # ss) res unknown =
     (let r = TrimSpace s
      in if r = '''' then parse_loop ss res unknown
         else parse_loop ss (if r \<in> set res then res else res @ [r])
                (if r \<in> set AllRoles then unknown else unknown @ [r]))"

definition ParseRoles :: "string list \<Rightarrow> role_set \<times> string list" where
  "ParseRoles str = parse_loop str (MakeSet []) []"

definition Strings :: "role_set \<Rightarrow> string list" where
  "Strings s = sort s"

definition IncludesAny :: "role_set \<Rightarrow> role_set \<Rightarrow> bool" where
  "IncludesAny s other \<longleftrightarrow> list_ex (\<lambda>r. r \<in> set s) other"

definition Includes :: "role_set \<Rightarrow> string \<Rightarrow> bool" where
  "Includes s r \<longleftrightarrow> r \<in> set s"

section \<open>The context of a call\<close>

type_synonym metadata = "string \<rightharpoonup> string list"

text \<open>Set and Get of metadata.MD, with what their documentation says: Get returns the values of a key,
  Set sets them; what Set does without any value is not said.\<close>

record md_lib =
  MDGet :: "string \<Rightarrow> metadata \<Rightarrow> string list"
  MDSet :: "string \<Rightarrow> string list \<Rightarrow> metadata \<Rightarrow> metadata"

definition md_laws :: "md_lib \<Rightarrow> bool" where
  "md_laws L \<longleftrightarrow>
     (\<forall>k m. MDGet L k m = (case m k of None \<Rightarrow> [] | Some vs \<Rightarrow> vs)) \<and>
     (\<forall>k vs m. vs \<noteq> [] \<longrightarrow> MDSet L k vs m = m(k \<mapsto> vs))"

text \<open>What the code reads of a context: the roles under its own key, the certificates of the peer
  (\<open>Some None\<close> is a peer without TLS; a certificate is its organizations) and the incoming metadata.\<close>

record rpc_ctx =
  CtxRoles :: "role_set option"
  CtxPeer :: "string list list option option"
  CtxMD :: "metadata option"

definition mdKey :: string where
  "mdKey = ''talos-role''"

definition SetMetadata :: "md_lib \<Rightarrow> metadata \<Rightarrow> role_set \<Rightarrow> metadata" where
  "SetMetadata L md roles = MDSet L mdKey (Strings roles) md"

definition getFromMetadata :: "md_lib \<Rightarrow> rpc_ctx \<Rightarrow> (role_set \<times> bool) outcome" where
  "getFromMetadata L ctx =
     (case CtxMD ctx of
        None \<Rightarrow> Panic
      | Some md \<Rightarrow>
          (let strings = MDGet L mdKey md
           in if strings = [] then Ret (MakeSet [], False) else Ret (fst (ParseRoles strings), True)))"

definition GetRoles :: "rpc_ctx \<Rightarrow> role_set outcome" where
  "GetRoles ctx = (case CtxRoles ctx of None \<Rightarrow> Panic | Some roles \<Rightarrow> Ret roles)"

definition HasRole :: "rpc_ctx \<Rightarrow> string \<Rightarrow> bool outcome" where
  "HasRole ctx r = bind_outcome (GetRoles ctx) (\<lambda>roles. Ret (Includes roles r))"

definition ContextWithRoles :: "rpc_ctx \<Rightarrow> role_set \<Rightarrow> rpc_ctx outcome" where
  "ContextWithRoles ctx roles = (if CtxRoles ctx \<noteq> None then Panic else Ret (ctx\<lparr>CtxRoles := Some roles\<rparr>))"

section \<open>The injector and the authorizer\<close>

datatype InjectorMode = Disabled | ReadOnly | ReadOnlyWithAdminOnSiderolink | MetadataOnly | Enabled

text \<open>\<open>check\<close> is SideroLinkPeerCheckFunc or its default isSideroLinkPeer.\<close>

definition extractRoles :: "md_lib \<Rightarrow> (rpc_ctx \<Rightarrow> bool) \<Rightarrow> InjectorMode \<Rightarrow> rpc_ctx \<Rightarrow> role_set outcome" where
  "extractRoles L check mode ctx =
     (if CtxRoles ctx \<noteq> None then Panic
      else (case mode of
          Disabled \<Rightarrow> Ret AllRoles
        | ReadOnly \<Rightarrow> Ret (MakeSet [Reader])
        | ReadOnlyWithAdminOnSiderolink \<Rightarrow> Ret (if check ctx then MakeSet [Admin] else MakeSet [Reader])
        | MetadataOnly \<Rightarrow> bind_outcome (getFromMetadata L ctx) (\<lambda>(roles, ok). Ret roles)
        | Enabled \<Rightarrow>
            (case CtxPeer ctx of
               None \<Rightarrow> Panic
             | Some None \<Rightarrow> Panic
             | Some (Some []) \<Rightarrow> Panic
             | Some (Some (leaf # _)) \<Rightarrow>
                 (let roles = fst (ParseRoles leaf)
                  in if Includes roles Impersonator then
                       bind_outcome (getFromMetadata L ctx) (\<lambda>(metadataRoles, ok). Ret (if ok then metadataRoles else roles))
                     else Ret roles))))"

datatype rpc_error = ErrNotAuthorized | Internal | InvalidArgument string | PermissionDenied string | OtherError

type_synonym 'r handler = "rpc_ctx \<Rightarrow> (rpc_error + 'r) outcome"
type_synonym 'r interceptor = "rpc_ctx \<Rightarrow> 'r handler \<Rightarrow> (rpc_error + 'r) outcome"

definition injector_interceptor :: "md_lib \<Rightarrow> (rpc_ctx \<Rightarrow> bool) \<Rightarrow> InjectorMode \<Rightarrow> 'r interceptor" where
  "injector_interceptor L check mode ctx handler =
     bind_outcome (extractRoles L check mode ctx) (\<lambda>roles. bind_outcome (ContextWithRoles ctx roles) handler)"

record authorizer =
  Rules :: "(string \<times> role_set) list"
  FallbackRoles :: role_set

definition allowed_roles :: "authorizer \<Rightarrow> string \<Rightarrow> role_set" where
  "allowed_roles a rpc = (case map_of (Rules a) rpc of None \<Rightarrow> FallbackRoles a | Some roles \<Rightarrow> roles)"

definition authorize :: "authorizer \<Rightarrow> rpc_ctx \<Rightarrow> string \<Rightarrow> rpc_error option outcome" where
  "authorize a ctx rpc =
     bind_outcome (GetRoles ctx) (\<lambda>clientRoles.
       Ret (if IncludesAny (allowed_roles a rpc) clientRoles then None else Some ErrNotAuthorized))"

definition authorizer_interceptor :: "authorizer \<Rightarrow> string \<Rightarrow> 'r interceptor" where
  "authorizer_interceptor a rpc ctx handler =
     bind_outcome (authorize a ctx rpc) (\<lambda>err. case err of Some e \<Rightarrow> Ret (Inl e) | None \<Rightarrow> handler ctx)"

text \<open>The recovery of factory.go: a panic of what is behind it becomes an internal error.\<close>

definition recovery :: "'r interceptor" where
  "recovery ctx handler = (case handler ctx of Panic \<Rightarrow> Ret (Inl Internal) | r \<Rightarrow> r)"

text \<open>grpc.ChainUnaryInterceptor and ChainStreamInterceptor: the first one is the outermost.\<close>

fun chain :: "'r interceptor list \<Rightarrow> 'r handler \<Rightarrow> 'r handler" where
  "chain [] handler ctx = handler ctx"
| "chain (i # is) handler ctx = i ctx (chain is handler)"

text \<open>NewDefaultOptions puts the recovery in front; the logging in front of that changes nothing.\<close>

definition server_chain :: "'r interceptor list \<Rightarrow> 'r handler \<Rightarrow> 'r handler" where
  "server_chain interceptors = chain (recovery # interceptors)"


section \<open>The rules of machined\<close>

definition rules :: "(string \<times> role_set) list" where
  "rules = [(''/cluster.ClusterService/HealthCheck'', MakeSet [Admin, Operator, Reader]),
     (''/inspect.InspectService/ControllerRuntimeDependencies'', MakeSet [Admin, Operator, Reader]),
     (''/machine.ImageService/Import'', MakeSet [Admin]),
     (''/machine.ImageService/List'', MakeSet [Admin, Operator, Reader]),
     (''/machine.ImageService/Pull'', MakeSet [Admin, Operator]),
     (''/machine.ImageService/Remove'', MakeSet [Admin]),
     (''/machine.DebugService/ContainerRun'', MakeSet [Admin]),
     (''/machine.MachineService/ApplyConfiguration'', MakeSet [Admin]),
     (''/machine.MachineService/Bootstrap'', MakeSet [Admin]),
     (''/machine.MachineService/CPUInfo'', MakeSet [Admin, Operator, Reader]),
     (''/machine.MachineService/CPUFreqStats'', MakeSet [Admin, Operator, Reader]),
     (''/machine.MachineService/Containers'', MakeSet [Admin, Operator, Reader]),
     (''/machine.MachineService/Copy'', MakeSet [Admin]),
     (''/machine.MachineService/DiskStats'', MakeSet [Admin, Operator, Reader]),
     (''/machine.MachineService/DiskUsage'', MakeSet [Admin, Operator, Reader]),
     (''/machine.MachineService/Dmesg'', MakeSet [Admin, Operator, Reader]),
     (''/machine.MachineService/Events'', MakeSet [Admin, Operator, Reader]),
     (''/machine.MachineService/GenerateClientConfiguration'', MakeSet [Admin]),
     (''/machine.MachineService/Hostname'', MakeSet [Admin, Operator, Reader]),
     (''/machine.MachineService/ImageList'', MakeSet [Admin, Operator, Reader]),
     (''/machine.MachineService/ImagePull'', MakeSet [Admin, Operator]),
     (''/machine.MachineService/NomadConfig'', MakeSet [Admin]),
     (''/machine.MachineService/ConsulConfig'', MakeSet [Admin]),
     (''/machine.MachineService/OpenBaoConfig'', MakeSet [Admin]),
     (''/machine.MachineService/List'', MakeSet [Admin, Operator, Reader]),
     (''/machine.MachineService/LoadAvg'', MakeSet [Admin, Operator, Reader]),
     (''/machine.MachineService/Logs'', MakeSet [Admin, Operator, Reader]),
     (''/machine.MachineService/LogsContainers'', MakeSet [Admin, Operator, Reader]),
     (''/machine.MachineService/Memory'', MakeSet [Admin, Operator, Reader]),
     (''/machine.MachineService/MetaWrite'', MakeSet [Admin]),
     (''/machine.MachineService/MetaDelete'', MakeSet [Admin]),
     (''/machine.MachineService/Mounts'', MakeSet [Admin, Operator, Reader]),
     (''/machine.MachineService/NetworkDeviceStats'', MakeSet [Admin, Operator, Reader]),
     (''/machine.MachineService/Netstat'', MakeSet [Admin, Operator, Reader]),
     (''/machine.MachineService/PacketCapture'', MakeSet [Admin, Operator]),
     (''/machine.MachineService/Processes'', MakeSet [Admin, Operator, Reader]),
     (''/machine.MachineService/Read'', MakeSet [Admin]),
     (''/machine.MachineService/Reboot'', MakeSet [Admin, Operator]),
     (''/machine.MachineService/Reset'', MakeSet [Admin]),
     (''/machine.MachineService/Restart'', MakeSet [Admin, Operator]),
     (''/machine.MachineService/Rollback'', MakeSet [Admin]),
     (''/machine.MachineService/ServiceList'', MakeSet [Admin, Operator, Reader]),
     (''/machine.MachineService/ServiceRestart'', MakeSet [Admin, Operator]),
     (''/machine.MachineService/ServiceStart'', MakeSet [Admin, Operator]),
     (''/machine.MachineService/ServiceStop'', MakeSet [Admin, Operator]),
     (''/machine.MachineService/Shutdown'', MakeSet [Admin, Operator]),
     (''/machine.MachineService/Stats'', MakeSet [Admin, Operator, Reader]),
     (''/machine.MachineService/SystemStat'', MakeSet [Admin, Operator, Reader]),
     (''/machine.MachineService/Upgrade'', MakeSet [Admin]),
     (''/machine.MachineService/Version'', MakeSet [Admin, Operator, Reader]),
     (''/cosi.resource.State/Create'', MakeSet [Admin]),
     (''/cosi.resource.State/Destroy'', MakeSet [Admin]),
     (''/cosi.resource.State/Get'', MakeSet [Admin, Operator, Reader]),
     (''/cosi.resource.State/List'', MakeSet [Admin, Operator, Reader]),
     (''/cosi.resource.State/Update'', MakeSet [Admin]),
     (''/cosi.resource.State/Watch'', MakeSet [Admin, Operator, Reader]),
     (''/storage.StorageService/Disks'', MakeSet [Admin, Operator, Reader]),
     (''/storage.StorageService/BlockDeviceWipe'', MakeSet [Admin]),
     (''/time.TimeService/Time'', MakeSet [Admin, Operator, Reader]),
     (''/time.TimeService/TimeCheck'', MakeSet [Admin, Operator, Reader])]"

definition machined_authorizer :: authorizer where
  "machined_authorizer = \<lparr>Rules = rules, FallbackRoles = MakeSet [Admin]\<rparr>"

text \<open>The interceptors that machined gives to its server, in their order; those of streams are the same.\<close>

definition machined_chain :: "md_lib \<Rightarrow> (rpc_ctx \<Rightarrow> bool) \<Rightarrow> string \<Rightarrow> 'r handler \<Rightarrow> 'r handler" where
  "machined_chain L check rpc =
     server_chain [injector_interceptor L check MetadataOnly, authorizer_interceptor machined_authorizer rpc]"

section \<open>The way of a call\<close>

text \<open>The backends: the local one is machined on its socket, a remote one is apid of another node.\<close>

datatype backend = Local | Remote string

datatype proxy_mode = One2One | One2Many

definition local_connection :: "md_lib \<Rightarrow> rpc_ctx \<Rightarrow> metadata outcome" where
  "local_connection L ctx =
     (let md = (case CtxMD ctx of None \<Rightarrow> Map.empty | Some md \<Rightarrow> md)
      in bind_outcome (GetRoles ctx) (\<lambda>roles. Ret (SetMetadata L md roles)))"

definition remote_connection :: "md_lib \<Rightarrow> rpc_ctx \<Rightarrow> metadata outcome" where
  "remote_connection L ctx =
     (let md = (case CtxMD ctx of None \<Rightarrow> Map.empty | Some md \<Rightarrow> md)
      in bind_outcome (GetRoles ctx) (\<lambda>roles.
           let md = SetMetadata L md roles;
               authority = (case md '':authority'' of None \<Rightarrow> [] | Some vs \<Rightarrow> vs);
               md = MDSet L ''proxyfrom'' (if length authority > 0 then authority else [''unknown'']) md
           in Ret (md('':authority'' := None, ''nodes'' := None, ''node'' := None))))"

text \<open>The router: whether the node forwards (its remoteBackendFactory is set), which targets the factory
  takes, and which are local.\<close>

record router =
  Forwards :: bool
  ValidTarget :: "string \<Rightarrow> bool"
  IsLocalTarget :: "string \<Rightarrow> bool"

definition singleDirector :: "router \<Rightarrow> string \<Rightarrow> rpc_error + proxy_mode \<times> backend list" where
  "singleDirector r target =
     (if \<not> Forwards r then Inl (PermissionDenied ''no request forwarding'')
      else if ValidTarget r target then Inr (One2One, [Remote target]) else Inl Internal)"

fun remote_backends :: "router \<Rightarrow> string list \<Rightarrow> rpc_error + backend list" where
  "remote_backends r [] = Inr []"
| "remote_backends r (t # ts) =
     (if \<not> ValidTarget r t then Inl Internal
      else (case remote_backends r ts of Inl e \<Rightarrow> Inl e | Inr bs \<Rightarrow> Inr (Remote t # bs)))"

definition aggregateDirector :: "router \<Rightarrow> string list \<Rightarrow> rpc_error + proxy_mode \<times> backend list" where
  "aggregateDirector r targets =
     (if \<not> Forwards r then Inl (PermissionDenied ''no request forwarding'')
      else (case remote_backends r targets of Inl e \<Rightarrow> Inl e | Inr bs \<Rightarrow> Inr (One2Many, bs)))"

definition one2many_services :: "string list" where
  "one2many_services = [''/machine.MachineService/'', ''/cluster.ClusterService/'', ''/inspect.InspectService/'',
     ''/storage.StorageService/'', ''/time.TimeService/'']"

text \<open>Director after the checks: the targets that are kept when forwarding is disabled, and the kinds of
  forwarding.\<close>

definition route :: "router \<Rightarrow> string \<Rightarrow> string list option \<Rightarrow> string option \<Rightarrow> rpc_error + proxy_mode \<times> backend list" where
  "route r rpc nodes node =
     (let node = (if \<not> Forwards r then (case node of Some n \<Rightarrow> if IsLocalTarget r n then None else Some n | None \<Rightarrow> None)
                  else node);
          nodes = (if \<not> Forwards r
                   then (case nodes of
                       Some ns \<Rightarrow> if length ns = 1 \<and> IsLocalTarget r (hd ns) then None else Some ns
                     | None \<Rightarrow> None)
                   else nodes)
      in case nodes of
           Some ns \<Rightarrow>
             if list_ex (\<lambda>p. prefix p rpc) one2many_services then aggregateDirector r ns
             else Inl (InvalidArgument ''one-2-many proxying is not supported'')
         | None \<Rightarrow> (case node of Some n \<Rightarrow> singleDirector r n | None \<Rightarrow> Inr (One2One, [Local])))"

definition Director :: "router \<Rightarrow> rpc_ctx \<Rightarrow> string \<Rightarrow> rpc_error + proxy_mode \<times> backend list" where
  "Director r ctx rpc =
     (case CtxMD ctx of
        None \<Rightarrow> Inr (One2One, [Local])
      | Some md \<Rightarrow>
          if md ''proxyfrom'' \<noteq> None then Inr (One2One, [Local])
          else (case md ''node'' of
              Some node \<Rightarrow>
                if length node \<noteq> 1 then Inl (InvalidArgument ''node metadata must be single-valued'')
                else route r rpc (md ''nodes'') (Some (hd node))
            | None \<Rightarrow> route r rpc (md ''nodes'') None))"


text \<open>The connections to the backends of a call, and apid on the network: the injector and the proxy.\<close>

fun connections :: "md_lib \<Rightarrow> rpc_ctx \<Rightarrow> backend list \<Rightarrow> (backend \<times> metadata) list outcome" where
  "connections L ctx [] = Ret []"
| "connections L ctx (b # bs) =
     bind_outcome (case b of Local \<Rightarrow> local_connection L ctx | Remote t \<Rightarrow> remote_connection L ctx) (\<lambda>md.
     bind_outcome (connections L ctx bs) (\<lambda>rest. Ret ((b, md) # rest)))"

definition proxy_handler :: "md_lib \<Rightarrow> router \<Rightarrow> string \<Rightarrow> (backend \<times> metadata) list handler" where
  "proxy_handler L r rpc ctx =
     (case Director r ctx rpc of
        Inl e \<Rightarrow> Ret (Inl e)
      | Inr (mode, bs) \<Rightarrow> bind_outcome (connections L ctx bs) (\<lambda>cs. Ret (Inr cs)))"

definition apid_network :: "md_lib \<Rightarrow> (rpc_ctx \<Rightarrow> bool) \<Rightarrow> router \<Rightarrow> string \<Rightarrow> (backend \<times> metadata) list handler" where
  "apid_network L check r rpc = server_chain [injector_interceptor L check Enabled] (proxy_handler L r rpc)"

definition apid_socket :: "md_lib \<Rightarrow> (rpc_ctx \<Rightarrow> bool) \<Rightarrow> router \<Rightarrow> string \<Rightarrow> (backend \<times> metadata) list handler" where
  "apid_socket L check r rpc = server_chain [injector_interceptor L check MetadataOnly] (proxy_handler L r rpc)"

text \<open>A call as it arrives: from the network with the organizations of its certificates, or on the socket
  of machined. The client certificate of a node has the impersonator role.\<close>

definition network_ctx :: "string list list \<Rightarrow> metadata \<Rightarrow> rpc_ctx" where
  "network_ctx certs md = \<lparr>CtxRoles = None, CtxPeer = Some (Some certs), CtxMD = Some md\<rparr>"

definition socket_ctx :: "metadata \<Rightarrow> rpc_ctx" where
  "socket_ctx md = \<lparr>CtxRoles = None, CtxPeer = Some None, CtxMD = Some md\<rparr>"

definition node_organization :: "string list" where
  "node_organization = [Impersonator]"

section \<open>The access policy of resources\<close>

datatype sensitivity = Sensitive | NonSensitive | OtherSensitivity

record access =
  Readonly :: bool
  ResourceType :: string
  ResourceNamespace :: string

text \<open>What the state answers: the sensitivity in the definition of a type (in lower case), and whether a
  namespace exists.\<close>

record access_state =
  Definition :: "string \<Rightarrow> rpc_error + sensitivity option"
  Namespace :: "string \<Rightarrow> rpc_error + bool"

definition to_lower :: "string \<Rightarrow> string" where
  "to_lower = map (\<lambda>c. if CHR ''A'' \<le> c \<and> c \<le> CHR ''Z'' then char_of (of_char c + 32 :: nat) else c)"

definition AccessPolicy :: "access_state \<Rightarrow> rpc_ctx \<Rightarrow> access \<Rightarrow> rpc_error option outcome" where
  "AccessPolicy st ctx acc =
     (if \<not> Readonly acc then Ret (Some (PermissionDenied ''write access is not allowed''))
      else (case Definition st (to_lower (ResourceType acc)) of
          Inl e \<Rightarrow> Ret (Some e)
        | Inr None \<Rightarrow> Ret (Some (PermissionDenied ''resource type is not supported''))
        | Inr (Some sens) \<Rightarrow>
            bind_outcome (GetRoles ctx) (\<lambda>roles.
              if sens = OtherSensitivity then Ret (Some OtherError)
              else if sens = Sensitive \<and> \<not> Includes roles Admin then Ret (Some ErrNotAuthorized)
              else (case Namespace st (ResourceNamespace acc) of
                  Inl e \<Rightarrow> Ret (Some e)
                | Inr False \<Rightarrow> Ret (Some (PermissionDenied ''namespace is not supported''))
                | Inr True \<Rightarrow> Ret None))))"

section \<open>Parsing roles\<close>

definition begins :: "'a list list \<Rightarrow> 'a list \<Rightarrow> bool" where
  "begins ws s \<longleftrightarrow> (\<exists>w \<in> set ws. w \<noteq> [] \<and> prefix w s)"

lemma trim_front_none: "\<not> begins ws s \<Longrightarrow> trim_front ws s = s"
  by (subst trim_front.simps) (auto simp: begins_def find_None_iff split: option.split dest!: find_Some_iff [THEN iffD1])

lemma trim_front_spec: "\<not> begins ws (trim_front ws s) \<and> suffix (trim_front ws s) s"
proof (induction ws s rule: trim_front.induct)
  case (1 ws s)
  show ?case
  proof (cases "List.find (\<lambda>w. w \<noteq> [] \<and> prefix w s) ws")
    case None
    then have "\<not> begins ws s" by (auto simp: find_None_iff begins_def)
    then show ?thesis by (simp add: trim_front_none)
  next
    case (Some w)
    then have s: "trim_front ws s = trim_front ws (drop (length w) s)" by (subst trim_front.simps) simp
    have "suffix (drop (length w) s) s" by (rule suffix_drop)
    with 1 [OF Some] show ?thesis unfolding s by (meson suffix_order.trans)
  qed
qed

lemma TrimSpace_idem: "TrimSpace (TrimSpace s) = TrimSpace s"
proof -
  define t where "t = trim_front space_runes s"
  define u where "u = rev (trim_front (map rev space_runes) (rev t))"
  have u: "TrimSpace s = u" by (simp add: TrimSpace_def u_def t_def)
  have t: "\<not> begins space_runes t" unfolding t_def using trim_front_spec by blast
  have ru: "rev u = trim_front (map rev space_runes) (rev t)" by (simp add: u_def)
  have "suffix (rev u) (rev t)" unfolding ru using trim_front_spec by blast
  then have "prefix u t" by (simp add: suffix_to_prefix)
  with t have "\<not> begins space_runes u" unfolding begins_def by (meson prefix_order.trans)
  then have "trim_front space_runes u = u" by (rule trim_front_none)
  moreover have "trim_front (map rev space_runes) (rev u) = rev u"
    by (rule trim_front_none) (simp add: u_def trim_front_spec)
  ultimately show ?thesis unfolding u by (simp add: TrimSpace_def)
qed

lemma MakeSet_set [simp]: "set (MakeSet roles) = set roles"
proof -
  have "set (foldl (\<lambda>s r. if r \<in> set s then s else s @ [r]) acc roles) = set acc \<union> set roles" for acc
    by (induction roles arbitrary: acc) auto
  then show ?thesis by (simp add: MakeSet_def)
qed

lemma MakeSet_Nil [simp]: "MakeSet [] = []"
  by (simp add: MakeSet_def)

lemma parse_loop_set: "set (fst (parse_loop ss res unknown)) = set res \<union> {TrimSpace s |s. s \<in> set ss \<and> TrimSpace s \<noteq> ''''}"
  by (induction ss res unknown rule: parse_loop.induct) (auto simp: Let_def)

lemma ParseRoles_set: "set (fst (ParseRoles ss)) = {TrimSpace s |s. s \<in> set ss \<and> TrimSpace s \<noteq> ''''}"
  by (simp add: ParseRoles_def parse_loop_set)

lemma parse_Strings:
  assumes "set roles = set (fst (ParseRoles ss))"
  shows "set (fst (ParseRoles (Strings roles))) = set roles"
  using assms TrimSpace_idem by (auto simp: ParseRoles_set Strings_def) (metis)+

lemma Strings_Nil: "Strings roles = [] \<longleftrightarrow> roles = []"
  by (metis Strings_def set_empty set_sort)

lemma IncludesAny_iff: "IncludesAny s other \<longleftrightarrow> set s \<inter> set other \<noteq> {}"
  by (auto simp: IncludesAny_def list_ex_iff)

section \<open>From a certificate to a decision\<close>

lemma MDGet_law: "md_laws L \<Longrightarrow> MDGet L k m = (case m k of None \<Rightarrow> [] | Some vs \<Rightarrow> vs)"
  by (simp add: md_laws_def)

lemma MDSet_law: "md_laws L \<Longrightarrow> vs \<noteq> [] \<Longrightarrow> MDSet L k vs m = m(k \<mapsto> vs)"
  by (simp add: md_laws_def)

lemma SetMetadata_law: "md_laws L \<Longrightarrow> roles \<noteq> [] \<Longrightarrow> SetMetadata L md roles = md(mdKey \<mapsto> Strings roles)"
  by (simp add: SetMetadata_def MDSet_law Strings_Nil)

lemma TrimSpace_Impersonator: "TrimSpace Impersonator = Impersonator"
  by code_simp

lemma node_roles: "fst (ParseRoles node_organization) = [Impersonator]"
  by (simp add: node_organization_def ParseRoles_def TrimSpace_Impersonator) (simp add: Impersonator_def)

definition authenticated :: "rpc_ctx \<Rightarrow> role_set \<Rightarrow> rpc_ctx" where
  "authenticated ctx roles = ctx\<lparr>CtxRoles := Some roles\<rparr>"

lemma recovery_Ret: "handler ctx = Ret x \<Longrightarrow> recovery ctx handler = Ret x"
  by (simp add: recovery_def)

lemma recovery_Panic: "handler ctx = Panic \<Longrightarrow> recovery ctx handler = Ret (Inl Internal)"
  by (simp add: recovery_def)

text \<open>The roles of a caller without impersonation are those of its certificate, whatever its metadata say.\<close>

lemma network_client:
  assumes "Impersonator \<notin> set (fst (ParseRoles org))"
  shows "apid_network L check r rpc (network_ctx (org # certs) md) =
    recovery (authenticated (network_ctx (org # certs) md) (fst (ParseRoles org))) (proxy_handler L r rpc)"
  using assms by (simp add: apid_network_def server_chain_def injector_interceptor_def extractRoles_def network_ctx_def
      Let_def Includes_def ContextWithRoles_def authenticated_def recovery_def)

lemma network_node:
  assumes "md_laws L" "md mdKey = Some vs" "vs \<noteq> []"
  shows "apid_network L check r rpc (network_ctx (node_organization # certs) md) =
    recovery (authenticated (network_ctx (node_organization # certs) md) (fst (ParseRoles vs))) (proxy_handler L r rpc)"
  using assms by (simp add: apid_network_def server_chain_def injector_interceptor_def extractRoles_def network_ctx_def
      node_roles Includes_def getFromMetadata_def MDGet_law ContextWithRoles_def authenticated_def recovery_def)

lemma connections_in:
  "connections L ctx bs = Ret cs \<Longrightarrow> (b, md) \<in> set cs \<Longrightarrow>
    (case b of Local \<Rightarrow> local_connection L ctx | Remote t \<Rightarrow> remote_connection L ctx) = Ret md"
proof (induction bs arbitrary: cs)
  case (Cons b' bs)
  then show ?case by (cases "case b' of Local \<Rightarrow> local_connection L ctx | Remote t \<Rightarrow> remote_connection L ctx";
        cases "connections L ctx bs") auto
qed simp

lemma proxied:
  assumes "recovery ctx (proxy_handler L r rpc) = Ret (Inr dests)" "(b, out) \<in> set dests"
  shows "(case b of Local \<Rightarrow> local_connection L ctx | Remote t \<Rightarrow> remote_connection L ctx) = Ret out"
proof -
  obtain mode bs where d: "Director r ctx rpc = Inr (mode, bs)"
    using assms(1) by (cases "Director r ctx rpc") (auto simp: recovery_def proxy_handler_def)
  with assms(1) have "connections L ctx bs = Ret dests"
    by (cases "connections L ctx bs") (auto simp: recovery_def proxy_handler_def)
  with assms(2) show ?thesis by (intro connections_in)
qed

lemma mdKey_neq [simp]:
  "mdKey \<noteq> '':authority''" "mdKey \<noteq> ''proxyfrom''" "mdKey \<noteq> ''node''" "mdKey \<noteq> ''nodes''"
  "'':authority'' \<noteq> mdKey" "''proxyfrom'' \<noteq> mdKey" "''node'' \<noteq> mdKey" "''nodes'' \<noteq> mdKey"
  by (simp_all add: mdKey_def)

lemma local_out:
  assumes "md_laws L" "roles \<noteq> []" "local_connection L (authenticated (network_ctx certs md) roles) = Ret out"
  shows "out = md(mdKey \<mapsto> Strings roles)"
  using assms by (simp add: local_connection_def authenticated_def network_ctx_def GetRoles_def SetMetadata_law)

lemma remote_out:
  assumes "md_laws L" "roles \<noteq> []" "remote_connection L (authenticated (network_ctx certs md) roles) = Ret out"
  shows "out mdKey = Some (Strings roles)" "out ''proxyfrom'' \<noteq> None"
proof -
  define authority where "authority = (case md '':authority'' of None \<Rightarrow> [] | Some vs \<Rightarrow> vs)"
  have out: "out = (md(mdKey \<mapsto> Strings roles, ''proxyfrom'' \<mapsto> (if length authority > 0 then authority else [''unknown''])))
      ('':authority'' := None, ''nodes'' := None, ''node'' := None)"
    using assms by (simp add: remote_connection_def authenticated_def network_ctx_def GetRoles_def SetMetadata_law
        MDSet_law [OF assms(1)] authority_def [symmetric] Let_def split: if_splits)
  show "out mdKey = Some (Strings roles)" unfolding out by simp
  show "out ''proxyfrom'' \<noteq> None" unfolding out by simp
qed

text \<open>The second node does not forward again.\<close>

lemma forwarded_call:
  assumes "md_laws L" "md mdKey = Some (Strings roles)" "roles \<noteq> []" "md ''proxyfrom'' \<noteq> None"
    "set roles = set (fst (ParseRoles org))"
  shows "\<exists>roles'. set roles' = set roles \<and>
    apid_network L check r rpc (network_ctx (node_organization # certs) md) = Ret (Inr [(Local, md(mdKey \<mapsto> Strings roles'))])"
proof (intro exI conjI)
  let ?roles = "fst (ParseRoles (Strings roles))"
  show roles: "set ?roles = set roles" by (rule parse_Strings) (rule assms(5))
  then have "?roles \<noteq> []" using assms(3) by (metis set_empty)
  moreover have "Director r (authenticated (network_ctx (node_organization # certs) md) ?roles) rpc = Inr (One2One, [Local])"
    using assms(4) by (simp add: Director_def authenticated_def network_ctx_def)
  ultimately have "proxy_handler L r rpc (authenticated (network_ctx (node_organization # certs) md) ?roles) =
      Ret (Inr [(Local, md(mdKey \<mapsto> Strings ?roles))])"
    using assms(1) by (simp add: proxy_handler_def local_connection_def GetRoles_def SetMetadata_law authenticated_def network_ctx_def)
  then show "apid_network L check r rpc (network_ctx (node_organization # certs) md) =
      Ret (Inr [(Local, md(mdKey \<mapsto> Strings ?roles))])"
    using network_node [where md = md and vs = "Strings roles", OF assms(1,2)] assms(3) by (simp add: Strings_Nil recovery_Ret)
qed

lemma machined_decides:
  fixes handler :: "'r handler"
  assumes "md_laws L" "md mdKey = Some vs" "vs \<noteq> []"
  shows "machined_chain L check rpc handler (socket_ctx md) =
    (let ctx = authenticated (socket_ctx md) (fst (ParseRoles vs))
     in if set (allowed_roles machined_authorizer rpc) \<inter> set (fst (ParseRoles vs)) \<noteq> {} then recovery ctx handler
        else Ret (Inl ErrNotAuthorized))"
  using assms by (simp add: machined_chain_def server_chain_def recovery_def injector_interceptor_def extractRoles_def
      socket_ctx_def getFromMetadata_def MDGet_law ContextWithRoles_def authenticated_def authorizer_interceptor_def
      authorize_def GetRoles_def IncludesAny_iff Let_def)

section \<open>Properties\<close>


text \<open>A reader that asks for the reboot of another node.\<close>

definition demo_md :: md_lib where
  "demo_md = \<lparr>MDGet = (\<lambda>k m. case m k of None \<Rightarrow> [] | Some vs \<Rightarrow> vs), MDSet = (\<lambda>k vs m. m(k \<mapsto> vs))\<rparr>"

definition demo_router :: router where
  "demo_router = \<lparr>Forwards = True, ValidTarget = (\<lambda>t. t \<noteq> ''''), IsLocalTarget = (\<lambda>_. False)\<rparr>"

definition demo_call :: metadata where
  "demo_call = [''node'' \<mapsto> [''10.0.0.2''], mdKey \<mapsto> [Admin]]"

definition demo_forwarded :: metadata where
  "demo_forwarded = [mdKey \<mapsto> [Reader], ''proxyfrom'' \<mapsto> [''unknown'']]"

lemma demo_reader: "fst (ParseRoles [Reader]) = [Reader]"
  by code_simp

lemma demo_hop:
  "apid_network demo_md (\<lambda>_. False) demo_router ''/machine.MachineService/Reboot'' (network_ctx ([Reader] # []) demo_call) =
    Ret (Inr [(Remote ''10.0.0.2'', demo_forwarded)])"
proof -
  have "remote_connection demo_md (authenticated (network_ctx ([Reader] # []) demo_call) [Reader]) = Ret demo_forwarded"
    by (simp add: remote_connection_def demo_md_def authenticated_def network_ctx_def GetRoles_def SetMetadata_def Strings_def
        demo_call_def demo_forwarded_def Let_def)
  then have "proxy_handler demo_md demo_router ''/machine.MachineService/Reboot'' (authenticated (network_ctx ([Reader] # []) demo_call) [Reader]) =
      Ret (Inr [(Remote ''10.0.0.2'', demo_forwarded)])"
    by (simp add: proxy_handler_def Director_def route_def singleDirector_def demo_router_def authenticated_def network_ctx_def
        demo_call_def)
  moreover have "Impersonator \<notin> set (fst (ParseRoles [Reader]))"
    unfolding demo_reader by (simp add: Impersonator_def Reader_def)
  ultimately show ?thesis using network_client [of "[Reader]"] by (simp add: demo_reader recovery_Ret)
qed


text \<open>The rules of machined follow the hierarchy of the roles: an admin may call every method, also one
  without a rule, whatever a reader may call an operator may call, and an impersonator alone may call none.\<close>

theorem role_hierarchy:
  "Admin \<in> set (allowed_roles machined_authorizer rpc) \<and>
   (Reader \<in> set (allowed_roles machined_authorizer rpc) \<longrightarrow> Operator \<in> set (allowed_roles machined_authorizer rpc)) \<and>
   Impersonator \<notin> set (allowed_roles machined_authorizer rpc)"
proof (cases "map_of rules rpc")
  case None
  then show ?thesis by (simp add: allowed_roles_def machined_authorizer_def Admin_def Operator_def Reader_def Impersonator_def)
next
  case (Some rs)
  have "\<forall>rs \<in> snd ` set rules. rs = MakeSet [Admin] \<or> rs = MakeSet [Admin, Operator] \<or> rs = MakeSet [Admin, Operator, Reader]"
    by (simp add: rules_def)
  with map_of_SomeD [OF Some] have "rs = MakeSet [Admin] \<or> rs = MakeSet [Admin, Operator] \<or> rs = MakeSet [Admin, Operator, Reader]"
    by force
  moreover have "allowed_roles machined_authorizer rpc = rs" using Some by (simp add: allowed_roles_def machined_authorizer_def)
  ultimately show ?thesis by (auto simp: Admin_def Operator_def Reader_def Impersonator_def)
qed

theorem role_hierarchy_witness:
  "Operator \<in> set (allowed_roles machined_authorizer ''/machine.MachineService/Events'')"
proof -
  have "Reader \<in> set (allowed_roles machined_authorizer ''/machine.MachineService/Events'')" by code_simp
  then show ?thesis using role_hierarchy [of "''/machine.MachineService/Events''"] by simp
qed

section \<open>Without roles, and reading resources\<close>

text \<open>The Set of the gRPC library leaves the metadata alone when it gets no values. Then the roles in the
  metadata of a client whose certificate has no roles reach machined as they are.\<close>

lemma no_roles_pass_metadata:
  fixes handler :: "'r handler"
  assumes L: "md_laws L" "MDSet L mdKey [] md = md" and org: "fst (ParseRoles org) = []"
    and md: "md mdKey = Some vs" "vs \<noteq> []" "md ''node'' = None" "md ''nodes'' = None"
  shows "apid_network L check r rpc (network_ctx (org # certs) md) = Ret (Inr [(Local, md)]) \<and>
    machined_chain L check' rpc handler (socket_ctx md) =
      (let ctx = authenticated (socket_ctx md) (fst (ParseRoles vs))
       in if set (allowed_roles machined_authorizer rpc) \<inter> set (fst (ParseRoles vs)) \<noteq> {} then recovery ctx handler
          else Ret (Inl ErrNotAuthorized))"
proof
  have "Director r (authenticated (network_ctx (org # certs) md) []) rpc = Inr (One2One, [Local])"
    using md by (simp add: Director_def authenticated_def network_ctx_def route_def)
  then have "proxy_handler L r rpc (authenticated (network_ctx (org # certs) md) []) = Ret (Inr [(Local, md)])"
    using L by (simp add: proxy_handler_def local_connection_def GetRoles_def SetMetadata_def authenticated_def network_ctx_def
        Strings_def)
  then show "apid_network L check r rpc (network_ctx (org # certs) md) = Ret (Inr [(Local, md)])"
    using network_client [of org L check r rpc certs md] org by (simp add: recovery_Ret)
  show "machined_chain L check' rpc handler (socket_ctx md) =
      (let ctx = authenticated (socket_ctx md) (fst (ParseRoles vs))
       in if set (allowed_roles machined_authorizer rpc) \<inter> set (fst (ParseRoles vs)) \<noteq> {} then recovery ctx handler
          else Ret (Inl ErrNotAuthorized))"
    by (rule machined_decides [where md = md and vs = vs, OF L(1) md(1,2)])
qed

lemma AccessPolicy_None:
  "AccessPolicy st ctx acc = Ret None \<longleftrightarrow>
     Readonly acc \<and> (\<exists>sens roles. Definition st (to_lower (ResourceType acc)) = Inr (Some sens) \<and> CtxRoles ctx = Some roles \<and>
       (sens = NonSensitive \<or> sens = Sensitive \<and> Admin \<in> set roles)) \<and> Namespace st (ResourceNamespace acc) = Inr True"
  by (cases "CtxRoles ctx"; cases "Definition st (to_lower (ResourceType acc))"; cases "Namespace st (ResourceNamespace acc)")
     (auto simp: AccessPolicy_def GetRoles_def Includes_def split: option.splits sensitivity.splits if_splits bool.splits;
      metis sensitivity.exhaust)+

end
