(* ===== verification/Ntp.thy ===== *)
theory Ntp
  imports Prelude "HOL-Library.Word" "HOL-Library.Signed_Division"
begin

text \<open>
  Time synchronisation: the NTP client (internal/pkg/ntp) and the controller that runs it and reports
  whether the time is in sync (internal/app/machined/pkg/controllers/time/sync.go).

  A time.Duration is a signed word of 64 bits, in nanoseconds. The servers, DNS, the spike detector
  (which computes with floating point numbers), the adjtimex call and the clock give the answers that the
  steps of the client take; between two steps other goroutines may change the list of servers, receive
  from the channels or cancel the context.
\<close>

section \<open>Durations\<close>

type_synonym duration = "64 word"

definition Second :: duration where "Second = 1000000000"
definition Millisecond :: duration where "Millisecond = 1000000"
definition Minute :: duration where "Minute = 60 * Second"

definition MinAllowablePoll :: duration where "MinAllowablePoll = 32 * Second"
definition MaxAllowablePoll :: duration where "MaxAllowablePoll = 2048 * Second"
definition DefaultRetryPoll :: duration where "DefaultRetryPoll = Second"
definition AdjustTimeLimit :: duration where "AdjustTimeLimit = 400 * Millisecond"
definition EpochLimit :: duration where "EpochLimit = 15 * Minute"
definition ExpectedAccuracy :: duration where "ExpectedAccuracy = 200 * Millisecond"

text \<open>Go's quotient and remainder of signed integers, which truncate.\<close>

definition quot :: "duration \<Rightarrow> duration \<Rightarrow> duration" where
  "quot d e = word_of_int (sint d sdiv sint e)"

definition remainder :: "duration \<Rightarrow> duration \<Rightarrow> duration" where
  "remainder d e = word_of_int (sint d smod sint e)"

definition absDuration :: "duration \<Rightarrow> duration" where
  "absDuration d = (if sint d < 0 then - d else d)"

text \<open>The number of leading zeros, and the logarithm that the kernel wants.\<close>

definition LeadingZeros64 :: "64 word \<Rightarrow> nat" where
  "LeadingZeros64 v = length (takeWhile (\<lambda>i. \<not> bit v i) (rev [0..<64]))"

definition log2i :: "64 word \<Rightarrow> int" where
  "log2i v = (if v = 0 then 0 else 63 - int (LeadingZeros64 v))"

section \<open>Adjusting the clock\<close>

datatype leap_indicator = LeapNoWarning | LeapAddSecond | LeapDelSecond | LeapNotInSync

record measurement =
  ClockOffset :: duration
  Leap :: leap_indicator
  Spike :: bool

datatype timex_mode = ADJ_SETOFFSET | ADJ_OFFSET | ADJ_NANO | ADJ_STATUS | ADJ_TIMECONST | ADJ_MAXERROR | ADJ_ESTERROR
datatype timex_status = STA_PLL | STA_INS | STA_DEL

text \<open>The fields of unix.Timex that the client sets.\<close>

record timex =
  Modes :: "timex_mode list"
  Offset :: duration
  Status :: "timex_status list"
  Maxerror :: "64 word"
  Esterror :: "64 word"
  TimeConstant :: "64 word"
  TimeSec :: "64 word"
  TimeUsec :: "64 word"

definition is_jump :: "duration \<Rightarrow> bool" where
  "is_jump offset \<longleftrightarrow> sint offset < sint (- AdjustTimeLimit) \<or> sint offset > sint AdjustTimeLimit"

definition epoch_change :: "duration \<Rightarrow> bool" where
  "epoch_change offset \<longleftrightarrow> sint offset < sint (- EpochLimit) \<or> sint offset > sint EpochLimit"

definition jump_request :: "duration \<Rightarrow> timex" where
  "jump_request offset =
     (let req = \<lparr>Modes = [ADJ_SETOFFSET, ADJ_NANO, ADJ_STATUS, ADJ_MAXERROR, ADJ_ESTERROR], Offset = 0, Status = [],
            Maxerror = 0, Esterror = 0, TimeConstant = 0, TimeSec = quot offset Second,
            TimeUsec = remainder (quot offset 1) Second\<rparr>
      in if sint (TimeUsec req) < 0 then req\<lparr>TimeSec := TimeSec req - 1, TimeUsec := TimeUsec req + quot Second 1\<rparr> else req)"

definition slew_request :: "duration \<Rightarrow> duration \<Rightarrow> timex" where
  "slew_request offset nextPollInterval =
     \<lparr>Modes = [ADJ_OFFSET, ADJ_NANO, ADJ_STATUS, ADJ_TIMECONST, ADJ_MAXERROR, ADJ_ESTERROR], Offset = quot offset 1,
      Status = [STA_PLL], Maxerror = 0, Esterror = 0,
      TimeConstant = word_of_int (log2i (quot nextPollInterval Second)) - 4, TimeSec = 0, TimeUsec = 0\<rparr>"

definition adjust_request :: "duration \<Rightarrow> leap_indicator \<Rightarrow> duration \<Rightarrow> timex" where
  "adjust_request offset leapSecond nextPollInterval =
     (let req = (if is_jump offset then jump_request offset else slew_request offset nextPollInterval)
      in case leapSecond of
           LeapAddSecond \<Rightarrow> req\<lparr>Status := Status req @ [STA_INS]\<rparr>
         | LeapDelSecond \<Rightarrow> req\<lparr>Status := Status req @ [STA_DEL]\<rparr>
         | _ \<Rightarrow> req)"

section \<open>The client\<close>

text \<open>The fields of Syncer; the channels with a buffer of one hold a token or not. What is in the last four
  fields is done outside: the number of times timeSynced was closed, the calls of AdjustTime with their
  success, the values the RTC was set to, and the queries of the current round with their success.\<close>

record syncer =
  timeServers :: "string list"
  lastSyncServer :: string
  timeSyncNotified :: bool
  restartSyncCh :: bool
  epochChangeCh :: bool
  firstSync :: bool
  MinPoll :: duration
  MaxPoll :: duration
  RetryPoll :: duration
  DisableRTC :: bool
  SyncedCloses :: nat
  Adjustments :: "(timex \<times> bool) list"
  RTCSets :: "int list"
  Round :: "(string \<times> bool) list"

definition NewSyncer :: "string list \<Rightarrow> syncer" where
  "NewSyncer servers =
     \<lparr>timeServers = servers, lastSyncServer = '''', timeSyncNotified = False, restartSyncCh = False, epochChangeCh = False,
      firstSync = True, MinPoll = MinAllowablePoll, MaxPoll = MaxAllowablePoll, RetryPoll = DefaultRetryPoll,
      DisableRTC = False, SyncedCloses = 0, Adjustments = [], RTCSets = [], Round = []\<rparr>"

definition restartSync :: "syncer \<Rightarrow> syncer" where
  "restartSync y = y\<lparr>restartSyncCh := True\<rparr>"

definition setLastSyncServer :: "string \<Rightarrow> syncer \<Rightarrow> syncer" where
  "setLastSyncServer server y = y\<lparr>lastSyncServer := server\<rparr>"

definition SetTimeServers :: "string list \<Rightarrow> syncer \<Rightarrow> syncer" where
  "SetTimeServers servers y =
     (if servers = timeServers y then y else restartSync (y\<lparr>timeServers := servers, lastSyncServer := ''''\<rparr>))"

definition IsPTPDevice :: "string \<Rightarrow> bool" where
  "IsPTPDevice server \<longleftrightarrow> take 5 server = ''/dev/''"

definition next_poll :: "syncer \<Rightarrow> duration \<Rightarrow> measurement option \<Rightarrow> duration" where
  "next_poll y poll resp =
     (let poll' =
        (case resp of
           None \<Rightarrow> RetryPoll y
         | Some m \<Rightarrow>
             if poll = 0 then MinPoll y
             else if \<not> Spike m \<and> sint (absDuration (ClockOffset m)) > sint ExpectedAccuracy then MinPoll y
             else if sint (absDuration (ClockOffset m)) < sint (quot (ExpectedAccuracy * 25) 100) then
               (if sint poll < sint (MaxPoll y) then poll * 2 else poll)
             else if Spike m \<or> sint (absDuration (ClockOffset m)) > sint (quot (ExpectedAccuracy * 75) 100) then
               (if sint poll > sint (MinPoll y) then quot poll 2 else poll)
             else poll)
      in if resp \<noteq> None \<and> sint poll' < sint (MinPoll y) then MinPoll y else poll')"

text \<open>adjustTime: \<open>ok\<close> is whether AdjustTime succeeds, \<open>now\<close> what time.Now gives after that, \<open>rtc\<close> whether an
  RTC is open. Its Set may fail, which is only logged.\<close>

definition adjustTime :: "bool \<Rightarrow> int \<Rightarrow> bool \<Rightarrow> measurement \<Rightarrow> duration \<Rightarrow> syncer \<Rightarrow> syncer" where
  "adjustTime ok now rtc m nextPollInterval y =
     (let req = adjust_request (ClockOffset m) (Leap m) nextPollInterval;
          jump = is_jump (ClockOffset m);
          y = y\<lparr>Adjustments := Adjustments y @ [(req, ok)]\<rparr>;
          y = (if firstSync y \<and> \<not> jump \<and> ok then y\<lparr>firstSync := False\<rparr> else y)
      in if \<not> ok then y
         else let y = (if epoch_change (ClockOffset m) then y\<lparr>epochChangeCh := True\<rparr> else y)
              in if jump \<and> rtc then y\<lparr>RTCSets := RTCSets y @ [now + sint (ClockOffset m)]\<rparr> else y)"

text \<open>What Run does with the result of a query, up to its wait.\<close>

definition after_query :: "bool \<Rightarrow> int \<Rightarrow> bool \<Rightarrow> measurement option \<Rightarrow> duration \<Rightarrow> syncer \<Rightarrow> duration \<times> syncer" where
  "after_query ok now rtc resp poll y =
     (let poll = next_poll y poll resp
      in (poll,
          case resp of
            None \<Rightarrow> y
          | Some m \<Rightarrow>
              if Spike m then y
              else let y = adjustTime ok now rtc m poll y
                   in if ok \<and> \<not> timeSyncNotified y then y\<lparr>SyncedCloses := SyncedCloses y + 1, timeSyncNotified := True\<rparr>
                      else y))"

text \<open>Where the goroutine of Run is: at the head of its loop; before queryServer of the last server; in
  resolveServers, with the server that failed, those still to resolve and the addresses so far; in the
  loop over the addresses; in queryServer; before setLastSyncServer; after the query; in the wait.\<close>

datatype sync_place = Top | QueryLast string | Resolving string "string list" "string list" | Trying string "string list"
  | Querying string string "string list" | Storing string measurement | Queried "measurement option" | Waiting | Stopped

record sync_system =
  Sync :: syncer
  SyncAt :: sync_place
  PollInterval :: duration
  CtxDone :: bool
  RTCOpen :: bool

definition place_at :: "sync_place \<Rightarrow> sync_system \<Rightarrow> sync_system" where
  "place_at p s = s\<lparr>SyncAt := p\<rparr>"

definition on_sync :: "(syncer \<Rightarrow> syncer) \<Rightarrow> sync_system \<Rightarrow> sync_system" where
  "on_sync f s = s\<lparr>Sync := f (Sync s)\<rparr>"

definition asked :: "string \<Rightarrow> bool \<Rightarrow> syncer \<Rightarrow> syncer" where
  "asked server ok y = y\<lparr>Round := Round y @ [(server, ok)]\<rparr>"

inductive sync_step :: "sync_system \<Rightarrow> sync_system \<Rightarrow> bool" where
  last_known: "SyncAt s = Top \<Longrightarrow> lastSyncServer (Sync s) = server \<Longrightarrow> server \<noteq> '''' \<Longrightarrow>
    sync_step s (place_at (QueryLast server) (on_sync (Round_update (\<lambda>_. [])) s))"
| last_unknown: "SyncAt s = Top \<Longrightarrow> lastSyncServer (Sync s) = '''' \<Longrightarrow>
    sync_step s (place_at (Resolving '''' (timeServers (Sync s)) []) (on_sync (Round_update (\<lambda>_. [])) s))"
| last_answers: "SyncAt s = QueryLast server \<Longrightarrow>
    sync_step s (place_at (Queried (Some m)) (on_sync (asked server True) s))"
| last_fails: "SyncAt s = QueryLast server \<Longrightarrow>
    sync_step s (place_at (Resolving server (timeServers (Sync s)) []) (on_sync (asked server False) s))"
| resolve: "SyncAt s = Resolving failed (server # rest) ips \<Longrightarrow> (if IsPTPDevice server then found = [server] else True) \<Longrightarrow>
    \<not> CtxDone s \<Longrightarrow> sync_step s (place_at (Resolving failed rest (ips @ found)) s)"
| resolve_cancelled: "SyncAt s = Resolving failed (server # rest) ips \<Longrightarrow> CtxDone s \<Longrightarrow> sync_step s (place_at Stopped s)"
| resolved: "SyncAt s = Resolving failed [] ips \<Longrightarrow> sync_step s (place_at (Trying failed ips) s)"
| try_skip: "SyncAt s = Trying failed (server # rest) \<Longrightarrow> server = failed \<Longrightarrow> sync_step s (place_at (Trying failed rest) s)"
| try_cancelled: "SyncAt s = Trying failed (server # rest) \<Longrightarrow> server \<noteq> failed \<Longrightarrow> CtxDone s \<Longrightarrow> sync_step s (place_at Stopped s)"
| try_restart: "SyncAt s = Trying failed (server # rest) \<Longrightarrow> server \<noteq> failed \<Longrightarrow> restartSyncCh (Sync s) \<Longrightarrow>
    sync_step s (place_at (Queried None) (on_sync restartSync s))"
| try_next: "SyncAt s = Trying failed (server # rest) \<Longrightarrow> server \<noteq> failed \<Longrightarrow> \<not> CtxDone s \<Longrightarrow> \<not> restartSyncCh (Sync s) \<Longrightarrow>
    sync_step s (place_at (Querying failed server rest) s)"
| try_none: "SyncAt s = Trying failed [] \<Longrightarrow> sync_step s (place_at (Queried None) s)"
| query_fails: "SyncAt s = Querying failed server rest \<Longrightarrow>
    sync_step s (place_at (Trying failed rest) (on_sync (asked server False) s))"
| query_answers: "SyncAt s = Querying failed server rest \<Longrightarrow>
    sync_step s (place_at (Storing server m) (on_sync (asked server True) s))"
| store: "SyncAt s = Storing server m \<Longrightarrow> sync_step s (place_at (Queried (Some m)) (on_sync (setLastSyncServer server) s))"
| decide: "SyncAt s = Queried resp \<Longrightarrow> after_query ok now (RTCOpen s) resp (PollInterval s) (Sync s) = (poll, y) \<Longrightarrow>
    sync_step s (s\<lparr>Sync := y, PollInterval := poll, SyncAt := Waiting\<rparr>)"
| wait_cancelled: "SyncAt s = Waiting \<Longrightarrow> CtxDone s \<Longrightarrow> sync_step s (place_at Stopped s)"
| wait_restart: "SyncAt s = Waiting \<Longrightarrow> restartSyncCh (Sync s) \<Longrightarrow>
    sync_step s (place_at Top (on_sync (restartSyncCh_update (\<lambda>_. False)) s))"
| wait_over: "SyncAt s = Waiting \<Longrightarrow> sync_step s (place_at Top s)"
| set_servers: "sync_step s (on_sync (SetTimeServers servers) s)"
| epoch_received: "sync_step s (on_sync (epochChangeCh_update (\<lambda>_. False)) s)"
| cancel: "sync_step s (s\<lparr>CtxDone := True\<rparr>)"

text \<open>Run starts with the RTC, which may fail to open.\<close>

definition start_sync :: "string list \<Rightarrow> bool \<Rightarrow> sync_system" where
  "start_sync servers rtc = \<lparr>Sync = NewSyncer servers, SyncAt = Top, PollInterval = 0, CtxDone = False, RTCOpen = rtc\<rparr>"

inductive sync_reachable :: "string list \<Rightarrow> bool \<Rightarrow> sync_system \<Rightarrow> bool" for servers rtc where
  start: "sync_reachable servers rtc (start_sync servers rtc)"
| step: "sync_reachable servers rtc s \<Longrightarrow> sync_step s s' \<Longrightarrow> sync_reachable servers rtc s'"

section \<open>The poll interval\<close>

lemmas ntp_constants = Second_def Millisecond_def Minute_def MinAllowablePoll_def MaxAllowablePoll_def DefaultRetryPoll_def
  AdjustTimeLimit_def EpochLimit_def ExpectedAccuracy_def

text \<open>The intervals are the powers of two between 32 and 2048 seconds.\<close>

definition poll_intervals :: "duration list" where
  "poll_intervals = [32000000000, 64000000000, 128000000000, 256000000000, 512000000000, 1024000000000, 2048000000000]"

definition default_polls :: "syncer \<Rightarrow> bool" where
  "default_polls y \<longleftrightarrow> MinPoll y = MinAllowablePoll \<and> MaxPoll y = MaxAllowablePoll \<and> RetryPoll y = DefaultRetryPoll"

lemma next_poll_None: "default_polls y \<Longrightarrow> next_poll y poll None = DefaultRetryPoll"
  by (simp add: next_poll_def default_polls_def)

definition poll_rule :: "bool \<Rightarrow> bool \<Rightarrow> bool \<Rightarrow> duration \<Rightarrow> duration" where
  "poll_rule far near spoiled poll =
     (let poll' = (if poll = 0 then MinAllowablePoll else if far then MinAllowablePoll
        else if near then (if sint poll < sint MaxAllowablePoll then poll * 2 else poll)
        else if spoiled then (if sint poll > sint MinAllowablePoll then quot poll 2 else poll) else poll)
      in if sint poll' < sint MinAllowablePoll then MinAllowablePoll else poll')"

lemma poll_rule_allowed:
  "poll \<in> set (0 # DefaultRetryPoll # poll_intervals) \<Longrightarrow> poll_rule far near spoiled poll \<in> set poll_intervals"
  unfolding poll_intervals_def by (auto simp: poll_rule_def ntp_constants quot_def)

lemma next_poll_rule:
  "default_polls y \<Longrightarrow> next_poll y poll (Some m) =
    poll_rule (\<not> Spike m \<and> sint (absDuration (ClockOffset m)) > sint ExpectedAccuracy)
      (sint (absDuration (ClockOffset m)) < sint (quot (ExpectedAccuracy * 25) 100))
      (Spike m \<or> sint (absDuration (ClockOffset m)) > sint (quot (ExpectedAccuracy * 75) 100)) poll"
  unfolding next_poll_def poll_rule_def default_polls_def Let_def by simp

lemma next_poll_Some:
  "default_polls y \<Longrightarrow> poll \<in> set (0 # DefaultRetryPoll # poll_intervals) \<Longrightarrow> next_poll y poll (Some m) \<in> set poll_intervals"
  by (simp only: next_poll_rule poll_rule_allowed)

lemma poll_constant:
  assumes "poll \<in> set poll_intervals"
  shows "1 \<le> sint (word_of_int (log2i (quot poll Second)) - 4 :: 64 word) \<and>
    sint (word_of_int (log2i (quot poll Second)) - 4 :: 64 word) \<le> 7"
proof -
  have "list_all (\<lambda>poll. 1 \<le> sint (word_of_int (log2i (quot poll Second)) - 4 :: 64 word) \<and>
    sint (word_of_int (log2i (quot poll Second)) - 4 :: 64 word) \<le> 7) poll_intervals"
    by code_simp
  then show ?thesis using assms by (simp only: list_all_iff)
qed

text \<open>A jump is normalised, and the request moves the clock by the offset.\<close>

lemma second_bounds:
  fixes d :: duration
  shows "- (2 ^ 63) \<le> sint d" "sint d < 2 ^ 63"
  using sint_range_size [of d] by (simp_all add: word_size)

lemma sint_small:
  assumes "- (2 ^ 63) \<le> k" "k < 2 ^ 63"
  shows "sint (word_of_int k :: 64 word) = k"
  using assms by (simp add: signed_take_bit_int_eq_self signed_of_int)

lemma seconds_of:
  "- (2 ^ 62) < sint (d :: duration) sdiv 1000000000 \<and> sint d sdiv 1000000000 < 2 ^ 62"
  using second_bounds [of d] sdiv_mult_smod_eq [of "sint d" 1000000000] smod_int_range [of 1000000000 "sint d"]
  by auto

lemma sint_quot: "sint (quot d 1) = sint d" "sint (quot d Second) = sint d sdiv 1000000000"
  using seconds_of [of d] by (simp_all add: quot_def Second_def sint_small)

lemma sint_remainder: "sint (remainder d Second) = sint d smod 1000000000"
  using smod_int_range [of 1000000000 "sint d"] by (simp add: remainder_def Second_def sint_small)

lemma jump_fields:
  "sint (TimeSec (jump_request d)) * 1000000000 + sint (TimeUsec (jump_request d)) = sint d \<and>
   0 \<le> sint (TimeUsec (jump_request d)) \<and> sint (TimeUsec (jump_request d)) < 1000000000"
proof -
  define q r where "q = sint d sdiv 1000000000" and "r = sint d smod 1000000000"
  have qr: "q * 1000000000 + r = sint d" unfolding q_def r_def by (rule sdiv_mult_smod_eq)
  have r: "- 1000000000 < r" "r < 1000000000" using smod_int_range [of 1000000000 "sint d"] by (auto simp: r_def)
  have q: "- (2 ^ 62) < q" "q < 2 ^ 62" using qr r second_bounds [of d] by auto
  have sec: "sint (quot d Second) = q" and usec: "sint (remainder (quot d 1) Second) = r"
    by (simp_all add: sint_quot sint_remainder q_def r_def)
  have "quot d Second - 1 = word_of_int (q - 1)" by (simp flip: sec)
  then have sec': "sint (quot d Second - 1) = q - 1" using q sint_small [of "q - 1"] by simp
  have "quot Second 1 = word_of_int 1000000000" by (simp add: quot_def Second_def)
  then have "remainder (quot d 1) Second + quot Second 1 = word_of_int (r + 1000000000)" by (simp flip: usec)
  then have usec': "r < 0 \<Longrightarrow> sint (remainder (quot d 1) Second + quot Second 1) = r + 1000000000"
    using r sint_small [of "r + 1000000000"] by simp
  show ?thesis
  proof (cases "r < 0")
    case True
    then show ?thesis using qr r by (simp add: jump_request_def usec sec' usec' [OF True])
  next
    case False
    then show ?thesis using qr r by (simp add: jump_request_def usec sec)
  qed
qed


section \<open>What holds in every reachable state\<close>

lemma adjustTime_simps [simp]:
  "timeServers (adjustTime ok now rtc m p y) = timeServers y" "lastSyncServer (adjustTime ok now rtc m p y) = lastSyncServer y"
  "timeSyncNotified (adjustTime ok now rtc m p y) = timeSyncNotified y" "SyncedCloses (adjustTime ok now rtc m p y) = SyncedCloses y"
  "restartSyncCh (adjustTime ok now rtc m p y) = restartSyncCh y" "Round (adjustTime ok now rtc m p y) = Round y"
  "default_polls (adjustTime ok now rtc m p y) = default_polls y"
  "Adjustments (adjustTime ok now rtc m p y) = Adjustments y @ [(adjust_request (ClockOffset m) (Leap m) p, ok)]"
  by (simp_all add: adjustTime_def default_polls_def Let_def)

lemma SetTimeServers_simps [simp]:
  "timeSyncNotified (SetTimeServers ss y) = timeSyncNotified y" "SyncedCloses (SetTimeServers ss y) = SyncedCloses y"
  "Adjustments (SetTimeServers ss y) = Adjustments y" "Round (SetTimeServers ss y) = Round y"
  "default_polls (SetTimeServers ss y) = default_polls y" "timeServers (SetTimeServers ss y) = ss"
  "RTCSets (SetTimeServers ss y) = RTCSets y"
  by (simp_all add: SetTimeServers_def restartSync_def default_polls_def)

lemma sync_moves [simp]:
  "Sync (place_at p s) = Sync s" "SyncAt (place_at p s) = p" "PollInterval (place_at p s) = PollInterval s" "CtxDone (place_at p s) = CtxDone s"
  "Sync (on_sync f s) = f (Sync s)" "SyncAt (on_sync f s) = SyncAt s" "PollInterval (on_sync f s) = PollInterval s"
  "CtxDone (on_sync f s) = CtxDone s" "RTCOpen (place_at p s) = RTCOpen s" "RTCOpen (on_sync f s) = RTCOpen s"
  by (simp_all add: place_at_def on_sync_def)

text \<open>Everything but a decision leaves the interval, the calls of the kernel and the notification alone.\<close>

definition kept :: "sync_system \<Rightarrow> sync_system \<Rightarrow> bool" where
  "kept s s' \<longleftrightarrow> PollInterval s' = PollInterval s \<and> Adjustments (Sync s') = Adjustments (Sync s) \<and>
     SyncedCloses (Sync s') = SyncedCloses (Sync s) \<and> timeSyncNotified (Sync s') = timeSyncNotified (Sync s) \<and>
     default_polls (Sync s') = default_polls (Sync s)"

lemma step_kept:
  assumes "sync_step s s'"
  obtains (kept) "kept s s'" "SyncAt s' = Waiting \<longrightarrow> SyncAt s = Waiting"
  | (decide) resp ok now poll y where "SyncAt s = Queried resp"
      "after_query ok now (RTCOpen s) resp (PollInterval s) (Sync s) = (poll, y)"
      "s' = s\<lparr>Sync := y, PollInterval := poll, SyncAt := Waiting\<rparr>"
  using assms
  by (cases rule: sync_step.cases)
     (auto simp: kept_def asked_def setLastSyncServer_def restartSync_def default_polls_def SetTimeServers_def)

definition sync_inv :: "sync_system \<Rightarrow> bool" where
  "sync_inv s \<longleftrightarrow> default_polls (Sync s) \<and> PollInterval s \<in> set (0 # DefaultRetryPoll # poll_intervals) \<and>
     (SyncAt s = Waiting \<longrightarrow> PollInterval s \<noteq> 0) \<and>
     (\<forall>(req, ok) \<in> set (Adjustments (Sync s)). ADJ_SETOFFSET \<notin> set (Modes req) \<longrightarrow> 1 \<le> sint (TimeConstant req) \<and> sint (TimeConstant req) \<le> 7) \<and>
     SyncedCloses (Sync s) = of_bool (timeSyncNotified (Sync s)) \<and>
     (timeSyncNotified (Sync s) \<longleftrightarrow> (\<exists>req. (req, True) \<in> set (Adjustments (Sync s))))"

lemma intervals_nonzero: "0 \<notin> set poll_intervals" "DefaultRetryPoll \<noteq> 0"
  by (simp_all add: poll_intervals_def ntp_constants)

lemma request_constant:
  assumes "poll \<in> set poll_intervals" "ADJ_SETOFFSET \<notin> set (Modes (adjust_request offset leap poll))"
  shows "1 \<le> sint (TimeConstant (adjust_request offset leap poll)) \<and> sint (TimeConstant (adjust_request offset leap poll)) \<le> 7"
  using assms poll_constant [of poll]
  by (cases leap) (auto simp: adjust_request_def slew_request_def jump_request_def Let_def split: if_splits)

lemma after_query_inv:
  assumes "sync_inv s" "after_query ok now (RTCOpen s) resp (PollInterval s) (Sync s) = (poll, y)"
  shows "sync_inv (s\<lparr>Sync := y, PollInterval := poll, SyncAt := Waiting\<rparr>)"
proof (cases resp)
  case None
  with assms show ?thesis by (auto simp: sync_inv_def after_query_def next_poll_None intervals_nonzero)
next
  case (Some m)
  define p where "p = next_poll (Sync s) (PollInterval s) resp"
  have p: "p \<in> set poll_intervals" using assms(1) next_poll_Some by (simp add: p_def sync_inv_def Some)
  let ?y = "adjustTime ok now (RTCOpen s) m p (Sync s)"
  have p0: "p \<noteq> 0" using p intervals_nonzero by metis
  have poll: "poll = p" using assms(2) by (simp add: after_query_def Some p_def Let_def)
  consider (spike) "y = Sync s" | (first) "ok" "\<not> timeSyncNotified (Sync s)"
      "y = ?y\<lparr>SyncedCloses := SyncedCloses (Sync s) + 1, timeSyncNotified := True\<rparr>"
    | (later) "ok \<longrightarrow> timeSyncNotified (Sync s)" "y = ?y"
  proof -
    have "snd (after_query ok now (RTCOpen s) resp (PollInterval s) (Sync s)) =
        (if Spike m then Sync s else if ok \<and> \<not> timeSyncNotified (Sync s)
         then ?y\<lparr>SyncedCloses := SyncedCloses (Sync s) + 1, timeSyncNotified := True\<rparr> else ?y)"
      by (simp add: after_query_def Some p_def Let_def)
    then have "y = (if Spike m then Sync s else if ok \<and> \<not> timeSyncNotified (Sync s)
         then ?y\<lparr>SyncedCloses := SyncedCloses (Sync s) + 1, timeSyncNotified := True\<rparr> else ?y)"
      by (simp only: assms(2) snd_conv)
    then show ?thesis using that by (cases "Spike m"; cases "ok \<and> \<not> timeSyncNotified (Sync s)") simp_all
  qed
  then show ?thesis
  proof cases
    case spike
    then show ?thesis using assms(1) p p0 by (simp add: sync_inv_def poll)
  next
    case first
    have "default_polls ?y" using assms(1) by (simp add: sync_inv_def)
    then have "default_polls y" by (simp add: first(3) default_polls_def)
    with first show ?thesis using assms(1) p p0 request_constant [OF p] by (auto simp: sync_inv_def poll)
  next
    case later
    then show ?thesis using assms(1) p p0 request_constant [OF p] by (auto simp: sync_inv_def poll)
  qed
qed

lemma sync_inv_step:
  assumes "sync_step s s'" "sync_inv s"
  shows "sync_inv s'"
  using assms(1)
proof (cases rule: step_kept)
  case kept
  then show ?thesis using assms(2) by (simp add: sync_inv_def kept_def)
next
  case (decide resp ok now poll y)
  then show ?thesis using after_query_inv [OF assms(2) decide(2)] by simp
qed

lemma sync_reachable_inv: "sync_reachable servers rtc s \<Longrightarrow> sync_inv s"
proof (induction rule: sync_reachable.induct)
  case start
  show ?case by (simp add: sync_inv_def start_sync_def NewSyncer_def default_polls_def)
next
  case (step s s')
  then show ?case using sync_inv_step by blast
qed

text \<open>C37: Whatever the servers answer and whatever happens in between, the client waits for a second (after a
  round without an answer) or for a power of two between 32 and 2048 seconds, so the time constant of a
  slew is between 1 and 7, and it reports once that the time is in sync, as soon as a clock adjustment succeeded.\<close>

theorem poll_bounds:
  assumes "sync_reachable servers rtc s"
  shows "(SyncAt s = Waiting \<longrightarrow> PollInterval s \<in> set (DefaultRetryPoll # poll_intervals)) \<and>
    (\<forall>(req, ok) \<in> set (Adjustments (Sync s)). ADJ_SETOFFSET \<notin> set (Modes req) \<longrightarrow> 1 \<le> sint (TimeConstant req) \<and> sint (TimeConstant req) \<le> 7) \<and>
    SyncedCloses (Sync s) = of_bool (\<exists>req. (req, True) \<in> set (Adjustments (Sync s)))"
  using sync_reachable_inv [OF assms] by (auto simp: sync_inv_def)

section \<open>Rounds\<close>

definition unanswered :: "(string \<times> bool) list \<Rightarrow> bool" where
  "unanswered queries \<longleftrightarrow> (\<forall>(server, ok) \<in> set queries. \<not> ok)"

text \<open>The queries of a round before one that is answered, where \<open>failed\<close> is the server of the last round if it
  was asked first.\<close>

definition failing :: "string \<Rightarrow> (string \<times> bool) list \<Rightarrow> bool" where
  "failing failed queries \<longleftrightarrow> unanswered queries \<and>
     (failed \<noteq> '''' \<longrightarrow> (\<exists>rest. queries = (failed, False) # rest \<and> failed \<notin> fst ` set rest))"

fun round_inv :: "sync_place \<Rightarrow> (string \<times> bool) list \<Rightarrow> bool" where
  "round_inv (QueryLast server) queries \<longleftrightarrow> queries = [] \<and> server \<noteq> ''''"
| "round_inv (Resolving failed todo ips) queries \<longleftrightarrow> queries = (if failed = '''' then [] else [(failed, False)])"
| "round_inv (Trying failed rest) queries \<longleftrightarrow> failing failed queries"
| "round_inv (Querying failed server rest) queries \<longleftrightarrow> failing failed queries \<and> server \<noteq> failed"
| "round_inv (Storing server m) queries \<longleftrightarrow> (\<exists>before. queries = before @ [(server, True)] \<and> unanswered before)"
| "round_inv (Queried (Some m)) queries \<longleftrightarrow> (\<exists>before server. queries = before @ [(server, True)] \<and> unanswered before)"
| "round_inv (Queried None) queries \<longleftrightarrow> unanswered queries"
| "round_inv _ queries \<longleftrightarrow> True"

lemma failing_unanswered: "failing failed queries \<Longrightarrow> unanswered queries"
  by (simp add: failing_def)

lemma failing_append: "failing failed queries \<Longrightarrow> server \<noteq> failed \<Longrightarrow> failing failed (queries @ [(server, False)])"
  by (auto simp: failing_def unanswered_def)

lemma round_step:
  assumes "sync_step s s'" "round_inv (SyncAt s) (Round (Sync s))"
  shows "round_inv (SyncAt s') (Round (Sync s'))"
  using assms
proof (cases rule: sync_step.cases)
  case (query_answers failed server rest m)
  then show ?thesis using assms(2) by (auto simp: asked_def dest: failing_unanswered)
next
  case (query_fails failed server rest)
  then show ?thesis using assms(2) failing_append by (simp add: asked_def)
next
  case (last_answers server m)
  then show ?thesis using assms(2) by (simp add: asked_def unanswered_def)
next
  case (resolved failed ips)
  then show ?thesis using assms(2) by (simp add: failing_def unanswered_def)
next
  case (store server m)
  then show ?thesis using assms(2) by (auto simp: setLastSyncServer_def)
qed (use assms(2) in \<open>simp_all add: asked_def restartSync_def setLastSyncServer_def failing_unanswered\<close>)

text \<open>In every round the servers are asked one after the other until one answers, whose measurement is the
  result, or all have failed or the round is broken off; the server of the last round is asked first and, when
  it failed, not again.\<close>

theorem round_result:
  assumes "sync_reachable servers rtc s"
  shows "(\<forall>m. SyncAt s = Queried (Some m) \<longrightarrow>
      (\<exists>before server. Round (Sync s) = before @ [(server, True)] \<and> (\<forall>(x, ok) \<in> set before. \<not> ok))) \<and>
    (SyncAt s = Queried None \<longrightarrow> (\<forall>(x, ok) \<in> set (Round (Sync s)). \<not> ok)) \<and>
    (\<forall>failed server rest. SyncAt s = Querying failed server rest \<longrightarrow> server \<noteq> failed \<and>
      (failed \<noteq> '''' \<longrightarrow> (\<exists>later. Round (Sync s) = (failed, False) # later \<and> failed \<notin> fst ` set later)))"
proof -
  from assms have "round_inv (SyncAt s) (Round (Sync s))"
  proof (induction rule: sync_reachable.induct)
    case start
    show ?case by (simp add: start_sync_def)
  next
    case (step s s')
    then show ?case using round_step by blast
  qed
  then show ?thesis by (auto simp: unanswered_def failing_def)
qed

section \<open>Two flaws\<close>

text \<open>When the list of servers is replaced while a query is on its way, its answer puts the server back, and
  the restart that was asked for goes on with the server that is no longer in the list.\<close>

definition spike_answer :: measurement where
  "spike_answer = \<lparr>ClockOffset = 0, Leap = LeapNoWarning, Spike = True\<rparr>"

text \<open>A first round of which the answer comes after the list has changed.\<close>

lemma demo_round:
  obtains s7 s8 where "sync_reachable [''/dev/ptp0''] False s7" "SyncAt s7 = Queried (Some spike_answer)"
    "sync_reachable [''/dev/ptp0''] False s8" "SyncAt s8 = Waiting" "PollInterval s8 = MinAllowablePoll"
    "Sync s8 = (NewSyncer [''/dev/ptp0''])\<lparr>timeServers := [''/dev/ptp1''], lastSyncServer := ''/dev/ptp0'',
      restartSyncCh := True, Round := [(''/dev/ptp0'', True)]\<rparr>"
proof -
  let ?R = "sync_reachable [''/dev/ptp0''] False"
  note nx = sync_reachable.step
  define s1 where "s1 = place_at (Resolving '''' [''/dev/ptp0''] []) (on_sync (Round_update (\<lambda>_. [])) (start_sync [''/dev/ptp0''] False))"
  have 1: "?R s1" using nx [OF start last_unknown, of "[''/dev/ptp0'']" False] by (simp add: s1_def start_sync_def NewSyncer_def)
  define s2 where "s2 = place_at (Resolving '''' [] ([] @ [''/dev/ptp0''])) s1"
  have 2: "?R s2" unfolding s2_def
    by (rule nx [OF 1 resolve [where server = "''/dev/ptp0''" and found = "[''/dev/ptp0'']"]])
       (simp_all add: s1_def start_sync_def)
  define s3 where "s3 = place_at (Trying '''' [''/dev/ptp0'']) s2"
  have 3: "?R s3" unfolding s3_def by (rule nx [OF 2 resolved]) (simp add: s2_def)
  define s4 where "s4 = place_at (Querying '''' ''/dev/ptp0'' []) s3"
  have 4: "?R s4" unfolding s4_def
    by (rule nx [OF 3 try_next]) (simp_all add: s3_def s2_def s1_def start_sync_def NewSyncer_def)
  define s5 where "s5 = place_at (Storing ''/dev/ptp0'' spike_answer) (on_sync (asked ''/dev/ptp0'' True) s4)"
  have 5: "?R s5" unfolding s5_def by (rule nx [OF 4 query_answers]) (simp add: s4_def)
  define s6 where "s6 = on_sync (SetTimeServers [''/dev/ptp1'']) s5"
  have 6: "?R s6" unfolding s6_def by (rule nx [OF 5 set_servers])
  define s7 where "s7 = place_at (Queried (Some spike_answer)) (on_sync (setLastSyncServer ''/dev/ptp0'') s6)"
  have 7: "?R s7" unfolding s7_def by (rule nx [OF 6 store]) (simp add: s6_def s5_def)
  have y: "Sync s7 = (NewSyncer [''/dev/ptp0''])\<lparr>timeServers := [''/dev/ptp1''], lastSyncServer := ''/dev/ptp0'',
      restartSyncCh := True, Round := [(''/dev/ptp0'', True)]\<rparr>"
    by (simp add: s7_def s6_def s5_def s4_def s3_def s2_def s1_def start_sync_def setLastSyncServer_def SetTimeServers_def
        restartSync_def asked_def NewSyncer_def)
  have at7: "SyncAt s7 = Queried (Some spike_answer)" "PollInterval s7 = 0"
    by (simp_all add: s7_def s6_def s5_def s4_def s3_def s2_def s1_def start_sync_def)
  have "next_poll (Sync s7) 0 (Some spike_answer) = MinAllowablePoll"
    by (simp add: y next_poll_def NewSyncer_def)
  then have "after_query True 0 (RTCOpen s7) (Some spike_answer) (PollInterval s7) (Sync s7) = (MinAllowablePoll, Sync s7)"
    by (simp add: after_query_def at7) (simp add: spike_answer_def)
  from nx [OF 7 decide [OF at7(1) this]] at7(1) 7 show ?thesis by (intro that [of s7]) (assumption | simp add: y)+
qed

lemma removed_server_stays:
  "\<exists>s. sync_reachable [''/dev/ptp0''] False s \<and> SyncAt s = Top \<and> timeServers (Sync s) = [''/dev/ptp1''] \<and>
    lastSyncServer (Sync s) = ''/dev/ptp0'' \<and> \<not> restartSyncCh (Sync s) \<and>
    sync_step s (place_at (QueryLast ''/dev/ptp0'') (on_sync (Round_update (\<lambda>_. [])) s))"
proof -
  obtain s7 s8 where s: "sync_reachable [''/dev/ptp0''] False s8" "SyncAt s8 = Waiting"
    and y: "Sync s8 = (NewSyncer [''/dev/ptp0''])\<lparr>timeServers := [''/dev/ptp1''], lastSyncServer := ''/dev/ptp0'',
      restartSyncCh := True, Round := [(''/dev/ptp0'', True)]\<rparr>"
    by (rule demo_round)
  let ?s = "place_at Top (on_sync (restartSyncCh_update (\<lambda>_. False)) s8)"
  have "sync_reachable [''/dev/ptp0''] False ?s" by (rule sync_reachable.step [OF s(1) wait_restart]) (simp_all add: s y)
  moreover have "sync_step ?s (place_at (QueryLast ''/dev/ptp0'') (on_sync (Round_update (\<lambda>_. [])) ?s))"
    by (rule last_known) (simp_all add: y)
  ultimately show ?thesis by (intro exI [of _ ?s]) (simp add: y NewSyncer_def)
qed

text \<open>A jump changes the clock at once; the RTC is then set to a time that is ahead by the offset once more.\<close>

lemma rtc_set_twice:
  assumes "is_jump (ClockOffset m)" "now = before + sint (ClockOffset m)"
  shows "RTCSets (adjustTime True now True m poll y) = RTCSets y @ [before + 2 * sint (ClockOffset m)]"
  using assms by (simp add: adjustTime_def Let_def)

section \<open>Witnesses\<close>


theorem poll_bounds_witness:
  "\<exists>s :: sync_system. SyncAt s = Waiting \<and> PollInterval s = MinAllowablePoll \<and> PollInterval s \<in> set (DefaultRetryPoll # poll_intervals)"
proof -
  obtain s7 s8 where s: "sync_reachable [''/dev/ptp0''] False s8" "SyncAt s8 = Waiting" "PollInterval s8 = MinAllowablePoll"
    by (rule demo_round)
  have "PollInterval s8 \<in> set (DefaultRetryPoll # poll_intervals)" using poll_bounds [OF s(1)] s(2) by blast
  with s show ?thesis by (intro exI [of _ s8]) simp
qed

theorem round_result_witness:
  "\<exists>(s :: sync_system) before server. SyncAt s = Queried (Some spike_answer) \<and> Round (Sync s) = before @ [(server, True)]"
proof -
  obtain s7 s8 where s: "sync_reachable [''/dev/ptp0''] False s7" "SyncAt s7 = Queried (Some spike_answer)"
    by (rule demo_round)
  have "\<exists>before server. Round (Sync s7) = before @ [(server, True)]" using round_result [OF s(1)] s(2) by meson
  with s show ?thesis by (intro exI [of _ s7]) simp
qed

end
