(* ===== verification/TimeSync.thy ===== *)
theory TimeSync
  imports Ntp
begin

text \<open>
  The controller of time synchronisation (internal/app/machined/pkg/controllers/time/sync.go): it runs the
  client of Ntp unless that is disabled, hands it the time servers, and publishes whether the time is in
  sync, which the boot waits for. Times are in nanoseconds; the controller sees the monotonic clock.

  The resources that the controller reads are the answers of a pass. The two wait channels and the timer are
  enabled as the client and the clock make them.
\<close>

section \<open>The controller\<close>

record sync_status =
  Epoch :: int
  Synced :: bool
  SyncDisabled :: bool

text \<open>The local variables of Run. Of the timer there is whether the variable is set and when its channel, if
  the controller still listens to it, delivers. \<open>StatusWritten\<close> is the status as last written; \<open>TimedOut\<close>
  notes that \<open>timeSynced\<close> was set because of the boot timeout.\<close>

record sync_ctrl =
  bootTime :: int
  client :: "sync_system option"
  syncChSet :: bool
  epochChSet :: bool
  timeSynced :: bool
  epoch :: int
  timerSet :: bool
  timerCh :: "int option"
  StatusWritten :: "sync_status option"
  TimedOut :: bool

definition start_ctrl :: "int \<Rightarrow> sync_ctrl" where
  "start_ctrl now = \<lparr>bootTime = now, client = None, syncChSet = False, epochChSet = False, timeSynced = False, epoch = 0,
     timerSet = False, timerCh = None, StatusWritten = None, TimedOut = False\<rparr>"

datatype sync_event = EventCh | SyncCh | EpochCh | TimeoutCh

definition receive :: "sync_event \<Rightarrow> sync_ctrl \<Rightarrow> sync_ctrl" where
  "receive ev c =
     (case ev of
        EventCh \<Rightarrow> c
      | SyncCh \<Rightarrow> c\<lparr>syncChSet := False, timeSynced := True\<rparr>
      | EpochCh \<Rightarrow> c\<lparr>epoch := epoch c + 1, client := map_option (on_sync (epochChangeCh_update (\<lambda>_. False))) (client c)\<rparr>
      | TimeoutCh \<Rightarrow> c\<lparr>timeSynced := True, timerSet := False, timerCh := None, TimedOut := True\<rparr>)"

text \<open>What a pass reads: the time, the list of time servers, the time configuration of the machine
  (disabled, boot timeout) if the configuration has one, whether the RTC opens for a client that is
  started, and whether the status is written.\<close>

datatype 'a read = ReadError | NotFound | Found 'a

record pass_input =
  Now :: int
  Servers :: "string list read"
  TimeConfig :: "(bool \<times> int) option read"
  RTCOpens :: bool
  Written :: bool

definition time_config :: "pass_input \<Rightarrow> (bool \<times> int) option" where
  "time_config i = (case TimeConfig i of Found cfg \<Rightarrow> cfg | _ \<Rightarrow> None)"

definition sync_disabled :: "bool \<Rightarrow> pass_input \<Rightarrow> bool" where
  "sync_disabled container i \<longleftrightarrow> container \<or> (case time_config i of None \<Rightarrow> False | Some (disabled, _) \<Rightarrow> disabled)"

definition sync_timeout :: "pass_input \<Rightarrow> int" where
  "sync_timeout i = (case time_config i of None \<Rightarrow> 0 | Some (_, timeout) \<Rightarrow> timeout)"

text \<open>A pending timer is reset, another one replaced; both deliver after what is left of the timeout.\<close>

definition check_timeout :: "pass_input \<Rightarrow> sync_ctrl \<Rightarrow> sync_ctrl" where
  "check_timeout i c =
     (if timeSynced c then c
      else let sinceBoot = Now i - bootTime c; syncTimeout = sync_timeout i
           in if syncTimeout = 0 then c\<lparr>timerCh := None\<rparr>
              else if sinceBoot > syncTimeout then c\<lparr>timeSynced := True, TimedOut := True\<rparr>
              else c\<lparr>timerSet := True, timerCh := Some (Now i + (syncTimeout - sinceBoot))\<rparr>)"

definition control_client :: "bool \<Rightarrow> pass_input \<Rightarrow> string list \<Rightarrow> sync_ctrl \<Rightarrow> sync_ctrl" where
  "control_client disabled i servers c =
     (if disabled \<and> client c \<noteq> None then c\<lparr>client := None, syncChSet := False, epochChSet := False\<rparr>
      else if \<not> disabled \<and> client c = None then
        c\<lparr>client := Some (start_sync servers (RTCOpens i)), syncChSet := True, epochChSet := True, timeSynced := False,
          TimedOut := False\<rparr>
      else c)"

definition set_servers_of :: "string list \<Rightarrow> sync_ctrl \<Rightarrow> sync_ctrl" where
  "set_servers_of servers c = c\<lparr>client := map_option (on_sync (SetTimeServers servers)) (client c)\<rparr>"

text \<open>One turn of the loop: \<open>None\<close> is a returned error.\<close>

definition sync_pass :: "bool \<Rightarrow> sync_event \<Rightarrow> pass_input \<Rightarrow> sync_ctrl \<Rightarrow> sync_ctrl option" where
  "sync_pass container ev i c =
     (let c = receive ev c
      in case Servers i of
           ReadError \<Rightarrow> None
         | NotFound \<Rightarrow> Some c
         | Found servers \<Rightarrow>
             if TimeConfig i = ReadError then None
             else
               let disabled = sync_disabled container i;
                   c = set_servers_of servers (control_client disabled i servers (check_timeout i c));
                   c = (if disabled then c\<lparr>timeSynced := True\<rparr> else c)
               in if \<not> Written i then None
                  else Some (c\<lparr>StatusWritten := Some \<lparr>Epoch = epoch c, Synced = timeSynced c, SyncDisabled = disabled\<rparr>\<rparr>))"

text \<open>The channels that a select may receive from.\<close>

definition enabled :: "sync_event \<Rightarrow> pass_input \<Rightarrow> sync_ctrl \<Rightarrow> bool" where
  "enabled ev i c \<longleftrightarrow>
     (case ev of
        EventCh \<Rightarrow> True
      | SyncCh \<Rightarrow> syncChSet c \<and> (\<exists>s. client c = Some s \<and> SyncedCloses (Sync s) > 0)
      | EpochCh \<Rightarrow> epochChSet c \<and> (\<exists>s. client c = Some s \<and> epochChangeCh (Sync s))
      | TimeoutCh \<Rightarrow> (\<exists>d. timerCh c = Some d \<and> d \<le> Now i))"

text \<open>The controller with its client, which runs on its own. After an error Run is started anew with fresh
  variables, and the boot time of the controller stays.\<close>

inductive time_step :: "bool \<Rightarrow> sync_ctrl \<Rightarrow> sync_ctrl \<Rightarrow> bool" for container where
  client_runs: "client c = Some s \<Longrightarrow> sync_step s s' \<Longrightarrow> time_step container c (c\<lparr>client := Some s'\<rparr>)"
| pass: "enabled ev i c \<Longrightarrow> sync_pass container ev i c = Some c' \<Longrightarrow> time_step container c c'"
| restart: "enabled ev i c \<Longrightarrow> sync_pass container ev i c = None \<Longrightarrow>
    time_step container c ((start_ctrl (bootTime c))\<lparr>StatusWritten := StatusWritten c\<rparr>)"

inductive time_reachable :: "bool \<Rightarrow> int \<Rightarrow> sync_ctrl \<Rightarrow> bool" for container boot where
  boots: "time_reachable container boot (start_ctrl boot)"
| steps: "time_reachable container boot c \<Longrightarrow> time_step container c c' \<Longrightarrow> time_reachable container boot c'"

section \<open>Invariant\<close>

lemma epoch_simps [simp]:
  "epoch (check_timeout i c) = epoch c" "epoch (control_client disabled i servers c) = epoch c"
  "epoch (set_servers_of servers c) = epoch c" "epoch (receive ev c) = (if ev = EpochCh then epoch c + 1 else epoch c)"
  by (simp_all add: receive_def check_timeout_def control_client_def set_servers_of_def Let_def split: sync_event.split)

lemma bootTime_simps [simp]:
  "bootTime (receive ev c) = bootTime c" "bootTime (check_timeout i c) = bootTime c"
  "bootTime (control_client disabled i servers c) = bootTime c" "bootTime (set_servers_of servers c) = bootTime c"
  by (simp_all add: receive_def check_timeout_def control_client_def set_servers_of_def Let_def split: sync_event.split)

definition adjusted :: "sync_ctrl \<Rightarrow> bool" where
  "adjusted c \<longleftrightarrow> (\<exists>s req. client c = Some s \<and> (req, True) \<in> set (Adjustments (Sync s)))"

definition time_inv :: "sync_ctrl \<Rightarrow> bool" where
  "time_inv c \<longleftrightarrow> (\<forall>s. client c = Some s \<longrightarrow> sync_inv s) \<and>
     (timeSynced c \<longrightarrow> client c = None \<or> TimedOut c \<or> adjusted c)"

lemma adjustments_grow: "sync_step s s' \<Longrightarrow> x \<in> set (Adjustments (Sync s)) \<Longrightarrow> x \<in> set (Adjustments (Sync s'))"
proof (elim step_kept)
  fix resp ok now poll y
  assume "after_query ok now (RTCOpen s) resp (PollInterval s) (Sync s) = (poll, y)" "x \<in> set (Adjustments (Sync s))"
    "s' = s\<lparr>Sync := y, PollInterval := poll, SyncAt := Waiting\<rparr>"
  then show ?thesis by (auto simp: after_query_def Let_def split: option.splits if_splits)
qed (simp add: kept_def)

lemma client_on_sync:
  assumes "time_inv c" "\<And>s. sync_step s (on_sync f s)"
  shows "time_inv (c\<lparr>client := map_option (on_sync f) (client c)\<rparr>)"
proof (cases "client c")
  case (Some s)
  have step: "sync_step s (on_sync f s)" by (rule assms(2))
  show ?thesis using assms(1) Some sync_inv_step [OF step] adjustments_grow [OF step]
    by (auto simp: time_inv_def adjusted_def)
qed (use assms(1) in \<open>simp add: time_inv_def adjusted_def\<close>)

lemma closed_adjusted: "time_inv c \<Longrightarrow> client c = Some s \<Longrightarrow> SyncedCloses (Sync s) > 0 \<Longrightarrow> adjusted c"
  by (auto simp: time_inv_def sync_inv_def adjusted_def split: if_splits)

lemma receive_inv:
  assumes "time_inv c" "enabled ev i c"
  shows "time_inv (receive ev c)"
proof (cases ev)
  case SyncCh
  with assms have "adjusted c" by (auto simp: enabled_def intro: closed_adjusted)
  then show ?thesis using assms(1) by (simp add: receive_def SyncCh time_inv_def adjusted_def)
next
  case EpochCh
  have "time_inv (c\<lparr>client := map_option (on_sync (epochChangeCh_update (\<lambda>_. False))) (client c)\<rparr>)"
    by (rule client_on_sync [OF assms(1)]) (rule epoch_received)
  then show ?thesis by (simp add: receive_def EpochCh time_inv_def adjusted_def)
qed (use assms(1) in \<open>simp_all add: receive_def time_inv_def adjusted_def\<close>)

lemma check_timeout_inv: "time_inv c \<Longrightarrow> time_inv (check_timeout i c)"
  by (simp add: check_timeout_def time_inv_def adjusted_def Let_def)

lemma start_sync_inv: "sync_inv (start_sync servers rtc)"
  by (rule sync_reachable_inv) (rule sync_reachable.start)

lemma control_client_inv: "time_inv c \<Longrightarrow> time_inv (control_client disabled i servers c)"
  by (auto simp: control_client_def time_inv_def adjusted_def start_sync_inv)

lemma set_servers_of_inv: "time_inv c \<Longrightarrow> time_inv (set_servers_of servers c)"
  unfolding set_servers_of_def using sync_step.set_servers by (intro client_on_sync) auto

lemma control_client_iff: "client (control_client disabled i servers c) = None \<longleftrightarrow> disabled"
  by (auto simp: control_client_def)

lemma set_servers_of_simps [simp]:
  "client (set_servers_of servers c) = None \<longleftrightarrow> client c = None" "timeSynced (set_servers_of servers c) = timeSynced c"
  "client (set_servers_of servers c) = Some s \<Longrightarrow> timeServers (Sync s) = servers"
  by (auto simp: set_servers_of_def)

text \<open>A pass that has its inputs.\<close>

lemma sync_pass_full:
  assumes "sync_pass container ev i c = Some c'" "Servers i = Found servers"
  obtains d where "d = set_servers_of servers (control_client (sync_disabled container i) i servers (check_timeout i (receive ev c)))"
    "c' = d\<lparr>timeSynced := timeSynced d \<or> sync_disabled container i,
        StatusWritten := Some \<lparr>Epoch = epoch d, Synced = timeSynced d \<or> sync_disabled container i, SyncDisabled = sync_disabled container i\<rparr>\<rparr>"
  using assms by (auto simp: sync_pass_def Let_def split: if_splits)

lemma sync_pass_inv:
  assumes "time_inv c" "enabled ev i c" "sync_pass container ev i c = Some c'"
  shows "time_inv c'"
proof (cases "Servers i")
  case (Found servers)
  obtain d where d: "d = set_servers_of servers (control_client (sync_disabled container i) i servers (check_timeout i (receive ev c)))"
    and c': "c' = d\<lparr>timeSynced := timeSynced d \<or> sync_disabled container i,
        StatusWritten := Some \<lparr>Epoch = epoch d, Synced = timeSynced d \<or> sync_disabled container i, SyncDisabled = sync_disabled container i\<rparr>\<rparr>"
    by (rule sync_pass_full [OF assms(3) Found])
  have inv: "time_inv d" unfolding d
    by (intro set_servers_of_inv control_client_inv check_timeout_inv receive_inv [OF assms(1,2)])
  have "client d = None \<longleftrightarrow> sync_disabled container i" by (simp add: d control_client_iff)
  with inv show ?thesis unfolding c' by (auto simp: time_inv_def adjusted_def)
qed (use assms receive_inv in \<open>auto simp: sync_pass_def Let_def\<close>)

lemma time_reachable_inv: "time_reachable container boot c \<Longrightarrow> time_inv c \<and> bootTime c = boot"
proof (induction rule: time_reachable.induct)
  case boots
  show ?case by (simp add: start_ctrl_def time_inv_def)
next
  case (steps c c')
  from steps(2) show ?case
  proof (cases rule: time_step.cases)
    case (client_runs s s')
    then show ?thesis using steps(3) sync_inv_step [OF client_runs(3)] adjustments_grow [OF client_runs(3)]
      by (auto simp: time_inv_def adjusted_def)
  next
    case (pass ev i)
    have "bootTime c' = bootTime c" using pass(2) by (auto simp: sync_pass_def Let_def split: read.splits if_splits)
    then show ?thesis using steps(3) sync_pass_inv pass by blast
  next
    case (restart ev i)
    then show ?thesis using steps(3) by (simp add: start_ctrl_def time_inv_def)
  qed
qed

section \<open>Properties\<close>


text \<open>As long as the time is not in sync and there is a boot timeout, a pass with a client that was running
  leaves a timer that ends exactly at the boot time plus the timeout, so the boot is not held up longer.\<close>

theorem timeout_armed:
  assumes "time_reachable container boot c" "sync_pass container ev i c = Some c'" "Servers i = Found servers"
    "client c \<noteq> None" "sync_timeout i \<noteq> 0" "\<not> timeSynced c'"
  shows "timerCh c' = Some (boot + sync_timeout i) \<and> Now i \<le> boot + sync_timeout i"
proof -
  obtain d where d: "d = set_servers_of servers (control_client (sync_disabled container i) i servers (check_timeout i (receive ev c)))"
    and c': "c' = d\<lparr>timeSynced := timeSynced d \<or> sync_disabled container i,
        StatusWritten := Some \<lparr>Epoch = epoch d, Synced = timeSynced d \<or> sync_disabled container i, SyncDisabled = sync_disabled container i\<rparr>\<rparr>"
    by (rule sync_pass_full [OF assms(2,3)])
  define r where "r = check_timeout i (receive ev c)"
  have boot: "bootTime c = boot" using time_reachable_inv [OF assms(1)] by simp
  have "client r \<noteq> None" using assms(4)
    by (simp add: r_def check_timeout_def receive_def Let_def split: sync_event.split)
  moreover have nd: "\<not> sync_disabled container i" "\<not> timeSynced d" using assms(6) by (simp_all add: c')
  ultimately have r: "\<not> timeSynced r" "timerCh c' = timerCh r"
    by (auto simp: c' d r_def [symmetric] set_servers_of_def control_client_def)
  then show ?thesis using assms(5) boot
    by (auto simp: r_def check_timeout_def Let_def split: if_splits)
qed

section \<open>A timeout that is lost\<close>

text \<open>When the client is started after the boot timeout has passed, the pass first takes the time for synced and
  then resets that for the new client; the status says not in sync and no timer is left, so the boot waits
  for the client or for an unrelated event.\<close>

lemma late_start_loses_timeout:
  assumes "client c = None" "\<not> timeSynced c" "timerCh c = None" "Servers i = Found servers" "TimeConfig i = Found (Some (False, timeout))"
    "timeout \<noteq> 0" "Now i - bootTime c > timeout" "Written i"
  shows "\<exists>c'. sync_pass False EventCh i c = Some c' \<and> StatusWritten c' = Some \<lparr>Epoch = epoch c, Synced = False, SyncDisabled = False\<rparr> \<and>
    timerCh c' = None"
  using assms by (simp add: sync_pass_def Let_def receive_def sync_disabled_def time_config_def sync_timeout_def check_timeout_def
      control_client_def set_servers_of_def)

section \<open>Witnesses\<close>

definition demo_input :: pass_input where
  "demo_input = \<lparr>Now = 5, Servers = Found [''/dev/ptp0''], TimeConfig = Found (Some (False, 60)), RTCOpens = False, Written = True\<rparr>"

definition demo_running :: sync_ctrl where
  "demo_running = \<lparr>bootTime = 0, client = Some (on_sync (SetTimeServers [''/dev/ptp0'']) (start_sync [''/dev/ptp0''] False)),
     syncChSet = True, epochChSet = True, timeSynced = False, epoch = 0, timerSet = True, timerCh = Some 60,
     StatusWritten = Some \<lparr>Epoch = 0, Synced = False, SyncDisabled = False\<rparr>, TimedOut = False\<rparr>"

lemma demo_pass: "sync_pass False EventCh demo_input (start_ctrl 0) = Some demo_running"
  by (simp add: sync_pass_def Let_def receive_def sync_disabled_def time_config_def sync_timeout_def check_timeout_def
      control_client_def set_servers_of_def demo_input_def start_ctrl_def demo_running_def)

lemma demo_running_reachable: "time_reachable False 0 demo_running"
  by (rule steps [OF boots pass [OF _ demo_pass]]) (simp add: enabled_def)


theorem timeout_armed_witness:
  "\<exists>c'. sync_pass False EventCh demo_input demo_running = Some c' \<and> timerCh c' = Some 60"
proof -
  obtain c' where c': "sync_pass False EventCh demo_input demo_running = Some c'" "\<not> timeSynced c'"
    by (simp add: sync_pass_def Let_def receive_def sync_disabled_def time_config_def sync_timeout_def check_timeout_def
      control_client_def set_servers_of_def demo_input_def demo_running_def)
  have "timerCh c' = Some (0 + sync_timeout demo_input) \<and> Now demo_input \<le> 0 + sync_timeout demo_input"
    by (rule timeout_armed [OF demo_running_reachable c'(1) _ _ _ c'(2)])
       (simp_all add: demo_input_def demo_running_def sync_timeout_def time_config_def)
  with c'(1) show ?thesis by (simp add: demo_input_def sync_timeout_def time_config_def)
qed

end
