(* ===== verification/NetMerge.thy ===== *)
theory NetMerge
  imports Prelude
begin

text \<open>
  The network configuration comes in layers (defaults, kernel command line, platform, operators such as
  DHCP, machine configuration); the merge controllers make one specification of the layers for every
  address, route, operator, link, hostname, resolver and time server
  (internal/app/machined/pkg/controllers/network/*_merge.go, the specifications in
  pkg/machinery/resources/network) and a generic controller publishes the result (generic_merge.go).

  A slice that may be nil is an option of a list. Addresses and the textual forms of addresses and
  enumerations come from the standard library and from generated code: they are the parameter
  \<open>net_fmt\<close>. Sorting with SortFunc is not stable: it is a parameter that gives some sorted permutation.
\<close>

section \<open>Layers\<close>

datatype ConfigLayer = ConfigDefault | ConfigCmdline | ConfigPlatform | ConfigOperator | ConfigMachineConfiguration

fun layer_rank :: "ConfigLayer \<Rightarrow> nat" where
  "layer_rank ConfigDefault = 0"
| "layer_rank ConfigCmdline = 1"
| "layer_rank ConfigPlatform = 2"
| "layer_rank ConfigOperator = 3"
| "layer_rank ConfigMachineConfiguration = 4"

lemma layer_rank_inject: "layer_rank a = layer_rank b \<longleftrightarrow> a = b"
  by (cases a; cases b) simp_all

instantiation ConfigLayer :: linorder
begin

definition less_eq_ConfigLayer :: "ConfigLayer \<Rightarrow> ConfigLayer \<Rightarrow> bool" where
  "a \<le> b \<longleftrightarrow> layer_rank a \<le> layer_rank b"

definition less_ConfigLayer :: "ConfigLayer \<Rightarrow> ConfigLayer \<Rightarrow> bool" where
  "a < b \<longleftrightarrow> layer_rank a < layer_rank b"

instance
  by standard (auto simp: less_eq_ConfigLayer_def less_ConfigLayer_def layer_rank_inject)

end

lemma layer_bounds [simp]: "ConfigDefault \<le> a" "a \<le> ConfigMachineConfiguration"
  by (cases a; simp add: less_eq_ConfigLayer_def)+

section \<open>Specifications\<close>

datatype ip_addr = NoAddr | IPv4 "8 word list" | IPv6 "8 word list" string

fun Is4 :: "ip_addr \<Rightarrow> bool" where
  "Is4 (IPv4 _) = True"
| "Is4 _ = False"

fun Is6 :: "ip_addr \<Rightarrow> bool" where
  "Is6 (IPv6 _ _) = True"
| "Is6 _ = False"

record ip_prefix =
  PrefixAddr :: ip_addr
  PrefixBits :: int

type_synonym enum = int

record net_fmt =
  AddrText :: "ip_addr \<Rightarrow> string"
  PrefixText :: "ip_prefix \<Rightarrow> string"
  TableText :: "enum \<Rightarrow> string"
  FamilyText :: "enum \<Rightarrow> string"
  OperatorText :: "enum \<Rightarrow> string"
  DecimalText :: "32 word \<Rightarrow> string"

record address_spec =
  AddressPrefix :: ip_prefix
  AddressLinkName :: string
  AddressFamily :: enum
  AddressScope :: enum
  AddressFlags :: enum
  AnnounceWithARP :: bool
  AddressPriority :: "32 word"
  AddressLayer :: ConfigLayer

record route_spec =
  RouteFamily :: enum
  RouteDestination :: ip_prefix
  RouteSource :: ip_addr
  RouteGateway :: ip_addr
  RouteOutLinkName :: string
  RouteTable :: enum
  RoutePriority :: "32 word"
  RouteScope :: enum
  RouteType :: enum
  RouteFlags :: enum
  RouteProtocol :: enum
  RouteLayer :: ConfigLayer
  RouteMTU :: "32 word"

record 'd operator_spec =
  OperatorKind :: enum
  OperatorLinkName :: string
  OperatorRequireUp :: bool
  OperatorDHCP4 :: 'd
  OperatorDHCP6 :: 'd
  OperatorVIPIP :: ip_addr
  OperatorLayer :: ConfigLayer

record hostname_spec =
  Hostname :: string
  Domainname :: string
  HostnameLayer :: ConfigLayer

record timeserver_spec =
  NTPServers :: "string list option"
  TimeServerLayer :: ConfigLayer

record resolver_spec =
  DNSServers :: "ip_addr list option"
  ResolverLayer :: ConfigLayer
  SearchDomains :: "string list option"

text \<open>The constants of the enumerations that the identifiers depend on.\<close>

definition TableMain :: enum where "TableMain = 254"
definition FamilyInet6 :: enum where "FamilyInet6 = 10"
definition OperatorVIP :: enum where "OperatorVIP = 2"

definition AddressID :: "net_fmt \<Rightarrow> string \<Rightarrow> ip_prefix \<Rightarrow> string" where
  "AddressID F linkName addr = linkName @ ''/'' @ PrefixText F addr"

definition RouteID :: "net_fmt \<Rightarrow> enum \<Rightarrow> enum \<Rightarrow> ip_prefix \<Rightarrow> ip_addr \<Rightarrow> 32 word \<Rightarrow> string \<Rightarrow> string" where
  "RouteID F table family destination gateway priority outLinkName =
     (let prefix = (if table \<noteq> TableMain then TableText F table @ ''/'' else '''');
          prefix = (if family = FamilyInet6 then prefix @ outLinkName @ ''/'' else prefix)
      in prefix @ FamilyText F family @ ''/'' @ AddrText F gateway @ ''/'' @ PrefixText F destination @ ''/'' @ DecimalText F priority)"

definition OperatorID :: "net_fmt \<Rightarrow> 'd operator_spec \<Rightarrow> string" where
  "OperatorID F spec =
     (if OperatorKind spec = OperatorVIP
      then OperatorText F (OperatorKind spec) @ ''/'' @ OperatorLinkName spec @ ''/'' @ AddrText F (OperatorVIPIP spec)
      else OperatorText F (OperatorKind spec) @ ''/'' @ OperatorLinkName spec)"

section \<open>One specification for every identifier\<close>

text \<open>The loop of the address, route and operator controllers.\<close>

definition layered_merge :: "('s \<Rightarrow> string) \<Rightarrow> ('s \<Rightarrow> ConfigLayer) \<Rightarrow> 's list \<Rightarrow> (string \<rightharpoonup> 's)" where
  "layered_merge key layer list =
     foldl (\<lambda>m s. case m (key s) of
         None \<Rightarrow> m(key s \<mapsto> s)
       | Some existing \<Rightarrow> if layer existing > layer s then m else m(key s \<mapsto> s)) Map.empty list"

definition address_merge :: "net_fmt \<Rightarrow> address_spec list \<Rightarrow> (string \<rightharpoonup> address_spec)" where
  "address_merge F = layered_merge (\<lambda>s. AddressID F (AddressLinkName s) (AddressPrefix s)) AddressLayer"

definition route_merge :: "net_fmt \<Rightarrow> route_spec list \<Rightarrow> (string \<rightharpoonup> route_spec)" where
  "route_merge F = layered_merge (\<lambda>s. RouteID F (RouteTable s) (RouteFamily s) (RouteDestination s) (RouteGateway s)
     (RoutePriority s) (RouteOutLinkName s)) RouteLayer"

definition operator_merge :: "net_fmt \<Rightarrow> 'd operator_spec list \<Rightarrow> (string \<rightharpoonup> 'd operator_spec)" where
  "operator_merge F = layered_merge (OperatorID F) OperatorLayer"

section \<open>Hostname, time servers and resolvers\<close>

text \<open>The identifiers of the single resources: HostnameID, TimeServerID and ResolverID.\<close>

definition HostnameID :: string where "HostnameID = ''hostname''"
definition TimeServerID :: string where "TimeServerID = ''timeservers''"
definition ResolverID :: string where "ResolverID = ''resolvers''"

definition hostname_final :: "hostname_spec list \<Rightarrow> hostname_spec" where
  "hostname_final list =
     foldl (\<lambda>final spec. if Hostname final \<noteq> '''' \<and> HostnameLayer spec \<le> HostnameLayer final then final else spec)
       \<lparr>Hostname = '''', Domainname = '''', HostnameLayer = ConfigDefault\<rparr> list"

definition hostname_merge :: "hostname_spec list \<Rightarrow> (string \<rightharpoonup> hostname_spec)" where
  "hostname_merge list =
     (if Hostname (hostname_final list) \<noteq> '''' then [HostnameID \<mapsto> hostname_final list] else Map.empty)"

text \<open>append and slices.Clone, slices.Concat of two.\<close>

definition slice_append :: "'a list option \<Rightarrow> 'a list option \<Rightarrow> 'a list option" where
  "slice_append dst src = (case src of None \<Rightarrow> dst | Some [] \<Rightarrow> dst
     | Some xs \<Rightarrow> (case dst of None \<Rightarrow> Some xs | Some ys \<Rightarrow> Some (ys @ xs)))"

definition slice_list :: "'a list option \<Rightarrow> 'a list" where
  "slice_list s = (case s of None \<Rightarrow> [] | Some xs \<Rightarrow> xs)"

definition slice_concat :: "'a list \<Rightarrow> 'a list \<Rightarrow> 'a list option" where
  "slice_concat xs ys = (if xs @ ys = [] then None else Some (xs @ ys))"

text \<open>slices.Insert at index 0.\<close>

definition slice_prepend :: "'a list option \<Rightarrow> 'a list option \<Rightarrow> 'a list option" where
  "slice_prepend dst src = (case src of None \<Rightarrow> dst | Some [] \<Rightarrow> dst | Some xs \<Rightarrow> Some (xs @ slice_list dst))"

definition timeserver_step :: "timeserver_spec \<Rightarrow> timeserver_spec \<Rightarrow> timeserver_spec" where
  "timeserver_step final spec =
     (if NTPServers final \<noteq> None \<and> TimeServerLayer spec < TimeServerLayer final then final
      else if TimeServerLayer spec = TimeServerLayer final then
        final\<lparr>NTPServers := slice_append (NTPServers final) (NTPServers spec)\<rparr>
      else spec)"

definition timeserver_merge :: "timeserver_spec list \<Rightarrow> (string \<rightharpoonup> timeserver_spec)" where
  "timeserver_merge list =
     (let final = foldl timeserver_step \<lparr>NTPServers = None, TimeServerLayer = ConfigDefault\<rparr> list
      in if NTPServers final \<noteq> None then [TimeServerID \<mapsto> final] else Map.empty)"

definition mergeDNSServers :: "ip_addr list option \<Rightarrow> ip_addr list option \<Rightarrow> ip_addr list option" where
  "mergeDNSServers dst src =
     (case dst of
        None \<Rightarrow> src
      | Some ds \<Rightarrow>
          (let ss = slice_list src;
               srcHasV4 = list_ex Is4 ss; srcHasV6 = list_ex Is6 ss;
               dstHasV4 = list_ex Is4 ds; dstHasV6 = list_ex Is6 ds
           in if dstHasV4 \<and> \<not> srcHasV4 then slice_concat ss (filter Is4 ds)
              else if dstHasV6 \<and> \<not> srcHasV6 then slice_concat ss (filter Is6 ds)
              else src))"

definition resolver_step :: "resolver_spec \<Rightarrow> resolver_spec \<Rightarrow> resolver_spec" where
  "resolver_step final spec =
     (let final = final\<lparr>SearchDomains := slice_prepend (SearchDomains final) (SearchDomains spec)\<rparr>;
          final = (if ResolverLayer spec = ResolverLayer final then
              final\<lparr>DNSServers := slice_append (DNSServers final) (DNSServers spec)\<rparr>
            else if ResolverLayer spec = ConfigMachineConfiguration then final\<lparr>DNSServers := DNSServers spec\<rparr>
            else final\<lparr>DNSServers := mergeDNSServers (DNSServers final) (DNSServers spec)\<rparr>)
      in final\<lparr>ResolverLayer := ResolverLayer spec\<rparr>)"

definition no_resolver :: resolver_spec where
  "no_resolver = \<lparr>DNSServers = None, ResolverLayer = ConfigDefault, SearchDomains = None\<rparr>"

text \<open>\<open>specs\<close> is the list as SortFunc leaves it.\<close>

definition resolver_merge :: "resolver_spec list \<Rightarrow> (string \<rightharpoonup> resolver_spec)" where
  "resolver_merge specs =
     (let final = foldl resolver_step no_resolver specs
      in if DNSServers final \<noteq> None then [ResolverID \<mapsto> final] else Map.empty)"

section \<open>The highest layer wins\<close>

text \<open>The last of those of the highest layer.\<close>

definition winner :: "('s \<Rightarrow> ConfigLayer) \<Rightarrow> 's list \<Rightarrow> 's" where
  "winner layer xs = last (filter (\<lambda>s. layer s = Max (layer ` set xs)) xs)"

lemma winner_layer:
  assumes "xs \<noteq> []"
  shows "layer (winner layer xs) = Max (layer ` set xs)" "winner layer xs \<in> set xs"
proof -
  have "Max (layer ` set xs) \<in> layer ` set xs" using assms by (intro Max_in) auto
  then have "filter (\<lambda>s. layer s = Max (layer ` set xs)) xs \<noteq> []" by (auto simp: filter_empty_conv)
  then have "winner layer xs \<in> set (filter (\<lambda>s. layer s = Max (layer ` set xs)) xs)" unfolding winner_def by (rule last_in_set)
  then show "layer (winner layer xs) = Max (layer ` set xs)" "winner layer xs \<in> set xs" by auto
qed

lemma winner_snoc:
  assumes "xs \<noteq> []"
  shows "winner layer (xs @ [s]) = (if layer (winner layer xs) > layer s then winner layer xs else s)"
proof -
  have mx: "Max (layer ` set (xs @ [s])) = max (layer s) (layer (winner layer xs))"
    using assms by (simp add: winner_layer)
  show ?thesis
  proof (cases "layer (winner layer xs) > layer s")
    case True
    with mx have "Max (layer ` set (xs @ [s])) = Max (layer ` set xs)" using winner_layer(1) [OF assms, of layer] by (simp add: max.absorb2)
    then show ?thesis using True winner_layer(1) [OF assms, of layer] by (simp add: winner_def)
  next
    case False
    with mx have "Max (layer ` set (xs @ [s])) = layer s" by (simp add: max_def)
    then show ?thesis using False by (simp add: winner_def)
  qed
qed

lemma layered_merge_snoc:
  "layered_merge key layer (xs @ [s]) =
    (let m = layered_merge key layer xs in case m (key s) of
         None \<Rightarrow> m(key s \<mapsto> s)
       | Some existing \<Rightarrow> if layer existing > layer s then m else m(key s \<mapsto> s))"
  by (simp add: layered_merge_def Let_def)

lemma layered_merge_winner:
  "layered_merge key layer list k =
    (let same = filter (\<lambda>s. key s = k) list in if same = [] then None else Some (winner layer same))"
proof (induction list rule: rev_induct)
  case Nil
  show ?case by (simp add: layered_merge_def)
next
  case (snoc s xs)
  let ?same = "filter (\<lambda>s. key s = k) xs"
  show ?case
  proof (cases "key s = k")
    case True
    show ?thesis
    proof (cases "?same = []")
      case True
      then show ?thesis using snoc \<open>key s = k\<close> by (simp add: layered_merge_snoc Let_def winner_def)
    next
      case False
      then show ?thesis using snoc \<open>key s = k\<close> winner_snoc [OF False, of layer s] by (simp add: layered_merge_snoc Let_def)
    qed
  next
    case False
    then show ?thesis using snoc by (simp add: layered_merge_snoc Let_def split: option.split)
  qed
qed

text \<open>For every address (with its link), route and operator, the merged configuration has exactly one
  specification, the one of the highest layer that configures it, and the last of these in the list when
  a layer does so more than once.\<close>

theorem highest_layer_wins:
  "address_merge F addresses k =
     (let same = filter (\<lambda>s. AddressID F (AddressLinkName s) (AddressPrefix s) = k) addresses
      in if same = [] then None else Some (winner AddressLayer same)) \<and>
   route_merge F routes k =
     (let same = filter (\<lambda>s. RouteID F (RouteTable s) (RouteFamily s) (RouteDestination s) (RouteGateway s)
        (RoutePriority s) (RouteOutLinkName s) = k) routes
      in if same = [] then None else Some (winner RouteLayer same)) \<and>
   operator_merge F operators k =
     (let same = filter (\<lambda>s. OperatorID F s = k) operators in if same = [] then None else Some (winner OperatorLayer same))"
  unfolding address_merge_def route_merge_def operator_merge_def layered_merge_winner by (intro conjI refl)

section \<open>Hostnames\<close>

text \<open>Of named specifications the highest layer wins, here the first of them.\<close>

definition first_winner :: "('s \<Rightarrow> ConfigLayer) \<Rightarrow> 's list \<Rightarrow> 's" where
  "first_winner layer xs = hd (filter (\<lambda>s. layer s = Max (layer ` set xs)) xs)"

lemma hostname_final_named:
  assumes "list \<noteq> []" "\<forall>s \<in> set list. Hostname s \<noteq> ''''"
  shows "Hostname (hostname_final list) \<noteq> '''' \<and> HostnameLayer (hostname_final list) = Max (HostnameLayer ` set list) \<and>
    hostname_final list = first_winner HostnameLayer list"
  using assms
proof (induction list rule: rev_induct)
  case (snoc s xs)
  have last: "hostname_final (xs @ [s]) = (if Hostname (hostname_final xs) \<noteq> '''' \<and> HostnameLayer s \<le> HostnameLayer (hostname_final xs)
      then hostname_final xs else s)" by (simp add: hostname_final_def)
  show ?case
  proof (cases "xs = []")
    case True
    then show ?thesis using snoc(3) by (simp add: last first_winner_def) (simp add: hostname_final_def)
  next
    case False
    then have IH: "Hostname (hostname_final xs) \<noteq> ''''" "HostnameLayer (hostname_final xs) = Max (HostnameLayer ` set xs)"
      "hostname_final xs = first_winner HostnameLayer xs" using snoc by auto
    have mx: "Max (HostnameLayer ` set (xs @ [s])) = max (HostnameLayer s) (Max (HostnameLayer ` set xs))" using False by simp
    have "\<exists>x \<in> set xs. HostnameLayer x = Max (HostnameLayer ` set xs)" using False Max_in [of "HostnameLayer ` set xs"] by fastforce
    then have ne: "filter (\<lambda>x. HostnameLayer x = Max (HostnameLayer ` set xs)) xs \<noteq> []" by (auto simp: filter_empty_conv)
    show ?thesis
    proof (cases "HostnameLayer s \<le> Max (HostnameLayer ` set xs)")
      case True
      then have "Max (HostnameLayer ` set (xs @ [s])) = Max (HostnameLayer ` set xs)" unfolding mx by (simp add: max_def)
      then show ?thesis using IH True ne by (simp add: last first_winner_def)
    next
      case le: False
      then have m: "Max (HostnameLayer ` set (xs @ [s])) = HostnameLayer s" unfolding mx by (simp add: max_def)
      have "HostnameLayer x \<le> Max (HostnameLayer ` set xs)" if "x \<in> set xs" for x using that by simp
      then have "filter (\<lambda>x. HostnameLayer x = HostnameLayer s) xs = []" using le by (metis (mono_tags, lifting) filter_False)
      then show ?thesis using IH le m snoc(3) by (simp add: last first_winner_def)
    qed
  qed
qed simp

section \<open>Resolvers\<close>

lemma list_slices:
  "slice_list (slice_append dst src) = slice_list dst @ slice_list src"
  "slice_list (slice_concat xs ys) = xs @ ys"
  "slice_list (slice_prepend dst src) = slice_list src @ slice_list dst"
  by (auto simp: slice_append_def slice_concat_def slice_prepend_def slice_list_def split: option.splits list.splits)

lemma slice_simps [simp]: "slice_list None = []" "slice_list (Some xs) = xs"
  by (simp_all add: slice_list_def)

lemma families: "filter Is6 (filter Is4 xs) = []" "filter Is4 (filter Is6 xs) = []"
proof -
  have "\<not> (Is4 x \<and> Is6 x)" for x by (cases x) auto
  then show "filter Is6 (filter Is4 xs) = []" "filter Is4 (filter Is6 xs) = []" by (auto simp: filter_empty_conv)
qed

lemma both_families: "filter (\<lambda>x. Is4 x \<and> Is6 x) xs = []" "filter (\<lambda>x. Is6 x \<and> Is4 x) xs = []"
  using families [of xs] by (auto simp: filter_empty_conv)

text \<open>A layer with resolvers of both families, or of one, replaces the resolvers of the families it has and
  keeps the earlier ones of the other family, behind its own.\<close>

theorem dns_families:
  assumes "dst = Some ds" "src = Some ss" "list_ex Is4 ss \<or> list_ex Is6 ss"
  shows "filter Is4 (slice_list (mergeDNSServers dst src)) = (if list_ex Is4 ss then filter Is4 ss else filter Is4 ds) \<and>
    filter Is6 (slice_list (mergeDNSServers dst src)) = (if list_ex Is6 ss then filter Is6 ss else filter Is6 ds) \<and>
    take (length ss) (slice_list (mergeDNSServers dst src)) = ss"
proof -
  have ex: "list_ex P xs \<longleftrightarrow> filter P xs \<noteq> []" for P and xs :: "ip_addr list" by (auto simp: list_ex_iff filter_empty_conv)
  show ?thesis using assms(3)
    by (auto simp: mergeDNSServers_def assms(1,2) list_slices both_families ex Let_def)
qed

text \<open>A layer without any resolver keeps only those of one family.\<close>

lemma no_resolvers_drop_family:
  assumes "list_ex Is4 ds"
  shows "slice_list (mergeDNSServers (Some ds) None) = filter Is4 ds"
  using assms by (simp add: mergeDNSServers_def list_slices Let_def)

definition sorted_permutation :: "resolver_spec list \<Rightarrow> resolver_spec list \<Rightarrow> bool" where
  "sorted_permutation list specs \<longleftrightarrow> mset specs = mset list \<and> sorted (map ResolverLayer specs)"

lemma resolver_step_simps:
  "ResolverLayer (resolver_step final spec) = ResolverLayer spec"
  "SearchDomains (resolver_step final spec) = slice_prepend (SearchDomains final) (SearchDomains spec)"
  by (simp_all add: resolver_step_def Let_def)

lemma search_domains_fold:
  "slice_list (SearchDomains (foldl resolver_step final xs)) =
    concat (map (\<lambda>s. slice_list (SearchDomains s)) (rev xs)) @ slice_list (SearchDomains final)"
  by (induction xs arbitrary: final) (simp_all add: resolver_step_simps list_slices)

lemma config_fold:
  assumes "\<forall>s \<in> set xs. ResolverLayer s = ConfigMachineConfiguration" "ResolverLayer final = ConfigMachineConfiguration"
  shows "slice_list (DNSServers (foldl resolver_step final xs)) =
    slice_list (DNSServers final) @ concat (map (\<lambda>s. slice_list (DNSServers s)) xs)"
  using assms
proof (induction xs arbitrary: final)
  case (Cons s xs)
  have "slice_list (DNSServers (resolver_step final s)) = slice_list (DNSServers final) @ slice_list (DNSServers s)"
    using Cons.prems by (simp add: resolver_step_def Let_def list_slices)
  then show ?case using Cons by (simp add: resolver_step_simps)
qed simp

lemma sorted_split:
  assumes "sorted (map layer xs)"
  shows "xs = filter (\<lambda>s. layer s \<noteq> ConfigMachineConfiguration) xs @ filter (\<lambda>s. layer s = ConfigMachineConfiguration) xs"
  using assms
proof (induction xs)
  case (Cons x xs)
  show ?case
  proof (cases "layer x = ConfigMachineConfiguration")
    case True
    then have "\<forall>s \<in> set xs. layer s = ConfigMachineConfiguration" using Cons.prems by (auto intro: antisym)
    then show ?thesis using True by (auto simp: filter_empty_conv intro: filter_True [symmetric])
  qed (use Cons in simp)
qed simp

text \<open>When the machine configuration has a resolver specification, the resolvers are exactly those of the
  machine configuration, in order, whatever the other layers say; the search domains of all layers stay,
  those of higher layers first.\<close>

theorem machine_config_resolvers:
  assumes "sorted_permutation list specs" "\<exists>s \<in> set list. ResolverLayer s = ConfigMachineConfiguration"
  shows "slice_list (DNSServers (foldl resolver_step no_resolver specs)) =
      concat (map (\<lambda>s. slice_list (DNSServers s)) (filter (\<lambda>s. ResolverLayer s = ConfigMachineConfiguration) specs)) \<and>
    slice_list (SearchDomains (foldl resolver_step no_resolver specs)) = concat (map (\<lambda>s. slice_list (SearchDomains s)) (rev specs))"
proof
  let ?low = "filter (\<lambda>s. ResolverLayer s \<noteq> ConfigMachineConfiguration) specs"
  let ?high = "filter (\<lambda>s. ResolverLayer s = ConfigMachineConfiguration) specs"
  have split: "specs = ?low @ ?high" using assms(1) by (intro sorted_split) (simp add: sorted_permutation_def)
  have "set specs = set list" using assms(1) unfolding sorted_permutation_def by (metis set_mset_mset)
  then obtain s hs where high: "?high = s # hs" using assms(2) by (cases ?high) (auto simp: filter_empty_conv)
  then have layers: "ResolverLayer s = ConfigMachineConfiguration" "\<forall>x \<in> set hs. ResolverLayer x = ConfigMachineConfiguration"
    by (auto simp: filter_eq_Cons_iff)
  define low where "low = foldl resolver_step no_resolver ?low"
  have "ResolverLayer low \<noteq> ConfigMachineConfiguration"
  proof (cases ?low rule: rev_cases)
    case Nil
    then show ?thesis by (simp add: low_def no_resolver_def)
  next
    case (snoc ys y)
    then have "y \<in> set ?low" by simp
    then have "ResolverLayer y \<noteq> ConfigMachineConfiguration" by simp
    then show ?thesis unfolding low_def snoc by (simp add: resolver_step_simps)
  qed
  then have "DNSServers (resolver_step low s) = DNSServers s" using layers(1) by (simp add: resolver_step_def Let_def)
  moreover have "foldl resolver_step no_resolver specs = foldl resolver_step (resolver_step low s) hs"
    by (subst split) (simp add: low_def high)
  ultimately show "slice_list (DNSServers (foldl resolver_step no_resolver specs)) = concat (map (\<lambda>s. slice_list (DNSServers s)) ?high)"
    using config_fold [OF layers(2), of "resolver_step low s"] layers(1) by (simp add: resolver_step_simps high)
  show "slice_list (SearchDomains (foldl resolver_step no_resolver specs)) = concat (map (\<lambda>s. slice_list (SearchDomains s)) (rev specs))"
    by (simp add: search_domains_fold no_resolver_def)
qed

text \<open>So a machine configuration that has search domains and no resolvers removes the resolvers of all layers.\<close>

lemma search_domains_only:
  assumes "DNSServers dhcp = Some servers" "ResolverLayer dhcp = ConfigOperator"
    "DNSServers config = None" "ResolverLayer config = ConfigMachineConfiguration"
  shows "resolver_merge [dhcp, config] = Map.empty"
  using assms by (simp add: resolver_merge_def resolver_step_def no_resolver_def Let_def)

section \<open>Witnesses\<close>

definition demo_dhcp :: resolver_spec where
  "demo_dhcp = \<lparr>DNSServers = Some [IPv4 [10, 0, 0, 1]], ResolverLayer = ConfigOperator, SearchDomains = Some [''lan'']\<rparr>"

definition demo_config :: resolver_spec where
  "demo_config = \<lparr>DNSServers = Some [IPv4 [1, 1, 1, 1]], ResolverLayer = ConfigMachineConfiguration, SearchDomains = Some [''corp'']\<rparr>"

theorem dns_families_witness:
  "filter Is6 (slice_list (mergeDNSServers (Some [IPv4 [8, 8, 8, 8], IPv6 [1] '''']) (Some [IPv4 [10, 0, 0, 1]]))) = [IPv6 [1] '''']"
  using dns_families [of "Some [IPv4 [8, 8, 8, 8], IPv6 [1] '''']" "[IPv4 [8, 8, 8, 8], IPv6 [1] '''']" "Some [IPv4 [10, 0, 0, 1]]" "[IPv4 [10, 0, 0, 1]]"]
  by simp

theorem machine_config_resolvers_witness:
  "slice_list (DNSServers (foldl resolver_step no_resolver [demo_dhcp, demo_config])) = [IPv4 [1, 1, 1, 1]]"
proof -
  have "sorted_permutation [demo_config, demo_dhcp] [demo_dhcp, demo_config]"
    by (simp add: sorted_permutation_def demo_dhcp_def demo_config_def less_eq_ConfigLayer_def)
  moreover have "\<exists>s \<in> set [demo_config, demo_dhcp]. ResolverLayer s = ConfigMachineConfiguration" by (simp add: demo_config_def)
  ultimately have "slice_list (DNSServers (foldl resolver_step no_resolver [demo_dhcp, demo_config])) =
      concat (map (\<lambda>s. slice_list (DNSServers s)) (filter (\<lambda>s. ResolverLayer s = ConfigMachineConfiguration) [demo_dhcp, demo_config]))"
    using machine_config_resolvers by blast
  then show ?thesis by (simp add: demo_dhcp_def demo_config_def)
qed

end
