(* ===== verification/LinkMerge.thy ===== *)
theory LinkMerge
  imports NetMerge "HOL-Library.Char_ord" "HOL-Library.List_Lexorder"
begin

text \<open>
  Links: their specifications with the settings of bonds, bridges, VLANs and WireGuard
  (pkg/machinery/resources/network/link.go and link_spec.go) and the merge of the layers
  (controllers/network/link_merge.go). Numbers of generated enumerations are integers.
\<close>

section \<open>Settings by kind\<close>

record vlan_spec =
  VID :: "16 word"
  VLANProtocol :: enum

record bond_spec =
  BondMode :: enum
  HashPolicy :: enum
  LACPRate :: enum
  ARPValidate :: enum
  ARPAllTargets :: enum
  PrimaryIndex :: "32 word option"
  PrimaryReselect :: enum
  FailOverMac :: enum
  ADSelect :: enum
  MIIMon :: "32 word"
  UpDelay :: "32 word"
  DownDelay :: "32 word"
  ARPInterval :: "32 word"
  ResendIGMP :: "32 word"
  MinLinks :: "32 word"
  LPInterval :: "32 word"
  PacketsPerSlave :: "32 word"
  NumPeerNotif :: "8 word"
  TLBDynamicLB :: "8 word"
  AllSlavesActive :: "8 word"
  UseCarrier :: bool
  ADActorSysPrio :: "16 word"
  ADUserPortKey :: "16 word"
  PeerNotifyDelay :: "32 word"
  ARPIPTargets :: "ip_addr list"
  NSIP6Targets :: "ip_addr list"
  ADLACPActive :: enum
  MissedMax :: "8 word"

definition BondMode8023AD :: enum where "BondMode8023AD = 4"
definition BondModeTLB :: enum where "BondModeTLB = 5"
definition BondModeALB :: enum where "BondModeALB = 6"

definition zero_bond :: bond_spec where
  "zero_bond = \<lparr>BondMode = 0, HashPolicy = 0, LACPRate = 0, ARPValidate = 0, ARPAllTargets = 0, PrimaryIndex = None,
     PrimaryReselect = 0, FailOverMac = 0, ADSelect = 0, MIIMon = 0, UpDelay = 0, DownDelay = 0, ARPInterval = 0,
     ResendIGMP = 0, MinLinks = 0, LPInterval = 0, PacketsPerSlave = 0, NumPeerNotif = 0, TLBDynamicLB = 0,
     AllSlavesActive = 0, UseCarrier = False, ADActorSysPrio = 0, ADUserPortKey = 0, PeerNotifyDelay = 0,
     ARPIPTargets = [], NSIP6Targets = [], ADLACPActive = 0, MissedMax = 0\<rparr>"

definition BondEqual :: "bond_spec \<Rightarrow> bond_spec \<Rightarrow> bool" where
  "BondEqual spec other \<longleftrightarrow>
     BondMode spec = BondMode other \<and>
     HashPolicy spec = HashPolicy other \<and>
     LACPRate spec = LACPRate other \<and>
     ARPValidate spec = ARPValidate other \<and>
     ARPAllTargets spec = ARPAllTargets other \<and>
     \<not> (PrimaryIndex spec \<noteq> None \<and> PrimaryIndex other \<noteq> None \<and> the (PrimaryIndex spec) \<noteq> the (PrimaryIndex other)) \<and>
     PrimaryReselect spec = PrimaryReselect other \<and>
     FailOverMac spec = FailOverMac other \<and>
     ADSelect spec = ADSelect other \<and>
     MIIMon spec = MIIMon other \<and>
     UpDelay spec = UpDelay other \<and>
     DownDelay spec = DownDelay other \<and>
     ARPInterval spec = ARPInterval other \<and>
     ResendIGMP spec = ResendIGMP other \<and>
     MinLinks spec = MinLinks other \<and>
     LPInterval spec = LPInterval other \<and>
     PacketsPerSlave spec = PacketsPerSlave other \<and>
     NumPeerNotif spec = NumPeerNotif other \<and>
     TLBDynamicLB spec = TLBDynamicLB other \<and>
     AllSlavesActive spec = AllSlavesActive other \<and>
     UseCarrier spec = UseCarrier other \<and>
     ADActorSysPrio spec = ADActorSysPrio other \<and>
     ADUserPortKey spec = ADUserPortKey other \<and>
     PeerNotifyDelay spec = PeerNotifyDelay other \<and>
     length (ARPIPTargets spec) = length (ARPIPTargets other) \<and>
     list_all (\<lambda>i. ARPIPTargets spec ! i = ARPIPTargets other ! i) [0..<length (ARPIPTargets spec)] \<and>
     length (NSIP6Targets spec) = length (NSIP6Targets other) \<and>
     list_all (\<lambda>i. NSIP6Targets spec ! i = NSIP6Targets other ! i) [0..<length (NSIP6Targets spec)] \<and>
     ADLACPActive spec = ADLACPActive other \<and>
     (BondMode spec \<noteq> BondMode8023AD \<and> BondMode spec \<noteq> BondModeALB \<and> BondMode spec \<noteq> BondModeTLB \<longrightarrow>
        MissedMax spec = MissedMax other)"

definition BondIsZero :: "bond_spec \<Rightarrow> bool" where
  "BondIsZero spec \<longleftrightarrow> BondMode spec = 0 \<and> HashPolicy spec = 0 \<and> LACPRate spec = 0 \<and> ARPValidate spec = 0 \<and>
     ARPAllTargets spec = 0 \<and> PrimaryIndex spec = None \<and> PrimaryReselect spec = 0 \<and> FailOverMac spec = 0 \<and>
     ADSelect spec = 0 \<and> MIIMon spec = 0 \<and> UpDelay spec = 0 \<and> DownDelay spec = 0 \<and> ARPInterval spec = 0 \<and>
     ResendIGMP spec = 0 \<and> MinLinks spec = 0 \<and> LPInterval spec = 0 \<and> PacketsPerSlave spec = 0 \<and>
     NumPeerNotif spec = 0 \<and> TLBDynamicLB spec = 0 \<and> AllSlavesActive spec = 0 \<and> \<not> UseCarrier spec \<and>
     ADActorSysPrio spec = 0 \<and> ADUserPortKey spec = 0 \<and> PeerNotifyDelay spec = 0 \<and>
     length (ARPIPTargets spec) = 0 \<and> length (NSIP6Targets spec) = 0 \<and> ADLACPActive spec = 0 \<and> MissedMax spec = 0"

record bridge_spec =
  STPEnabled :: bool
  VLANFilteringEnabled :: bool

record wireguard_peer =
  PeerPublicKey :: string
  PresharedKey :: string
  Endpoint :: string
  KeepaliveInterval :: "64 word"
  AllowedIPs :: "ip_prefix list"

record wireguard_spec =
  PrivateKey :: string
  WGPublicKey :: string
  ListenPort :: "64 word"
  FirewallMark :: "64 word"
  Peers :: "wireguard_peer list"

definition PeerEqual :: "wireguard_peer \<Rightarrow> wireguard_peer \<Rightarrow> bool" where
  "PeerEqual peer other \<longleftrightarrow>
     PeerPublicKey peer = PeerPublicKey other \<and>
     PresharedKey peer = PresharedKey other \<and>
     \<not> (Endpoint other \<noteq> '''' \<and> Endpoint peer \<noteq> Endpoint other) \<and>
     KeepaliveInterval peer = KeepaliveInterval other \<and>
     length (AllowedIPs peer) = length (AllowedIPs other) \<and>
     list_all (\<lambda>i. PrefixAddr (AllowedIPs peer ! i) = PrefixAddr (AllowedIPs other ! i) \<and>
       PrefixBits (AllowedIPs peer ! i) = PrefixBits (AllowedIPs other ! i)) [0..<length (AllowedIPs peer)]"

definition WireguardIsZero :: "wireguard_spec \<Rightarrow> bool" where
  "WireguardIsZero spec \<longleftrightarrow> PrivateKey spec = '''' \<and> ListenPort spec = 0 \<and> FirewallMark spec = 0 \<and> length (Peers spec) = 0"

definition WireguardEqual :: "wireguard_spec \<Rightarrow> wireguard_spec \<Rightarrow> bool" where
  "WireguardEqual spec other \<longleftrightarrow>
     PrivateKey spec = PrivateKey other \<and>
     \<not> (ListenPort spec \<noteq> ListenPort other \<and> ListenPort other \<noteq> 0) \<and>
     FirewallMark spec = FirewallMark other \<and>
     length (Peers spec) = length (Peers other) \<and>
     list_all (\<lambda>i. PeerEqual (Peers spec ! i) (Peers other ! i)) [0..<length (Peers spec)]"

fun add_peers :: "wireguard_peer list \<Rightarrow> wireguard_peer list \<Rightarrow> wireguard_peer list" where
  "add_peers peers [] = peers"
| "add_peers peers (peer # rest) =
     (if list_ex (\<lambda>p. PeerPublicKey p = PeerPublicKey peer) peers then add_peers peers rest else add_peers (peers @ [peer]) rest)"

definition WireguardMerge :: "wireguard_spec \<Rightarrow> wireguard_spec \<Rightarrow> wireguard_spec" where
  "WireguardMerge spec other =
     (let spec = (if ListenPort other \<noteq> 0 then spec\<lparr>ListenPort := ListenPort other\<rparr> else spec);
          spec = (if FirewallMark other \<noteq> 0 then spec\<lparr>FirewallMark := FirewallMark other\<rparr> else spec);
          spec = (if PrivateKey other \<noteq> '''' then spec\<lparr>PrivateKey := PrivateKey other\<rparr> else spec)
      in spec\<lparr>Peers := add_peers (Peers spec) (Peers other)\<rparr>)"

section \<open>Links\<close>

record bond_slave =
  BondMasterName :: string
  SlaveIndex :: int

record link_spec =
  LinkName :: string
  Logical :: bool
  Up :: bool
  LinkMTU :: "32 word"
  LinkKind :: string
  LinkType :: enum
  HardwareAddress :: "8 word list option"
  ParentName :: string
  BondSlave :: bond_slave
  BridgeSlave :: string
  VLAN :: vlan_spec
  BondMaster :: bond_spec
  BridgeMaster :: bridge_spec
  Wireguard :: wireguard_spec
  LinkLayer :: ConfigLayer
  Multicast :: "bool option"

definition updateIfNotZero :: "'a \<Rightarrow> 'a \<Rightarrow> 'a \<Rightarrow> 'a" where
  "updateIfNotZero zero target source = (if source \<noteq> zero then source else target)"

definition LinkMergeSpec :: "link_spec \<Rightarrow> link_spec \<Rightarrow> link_spec" where
  "LinkMergeSpec spec other =
     (let spec = spec\<lparr>
            Logical := updateIfNotZero False (Logical spec) (Logical other),
            Up := updateIfNotZero False (Up spec) (Up other),
            LinkMTU := updateIfNotZero 0 (LinkMTU spec) (LinkMTU other),
            LinkKind := updateIfNotZero '''' (LinkKind spec) (LinkKind other),
            LinkType := updateIfNotZero 0 (LinkType spec) (LinkType other),
            ParentName := updateIfNotZero '''' (ParentName spec) (ParentName other),
            BondSlave := updateIfNotZero \<lparr>BondMasterName = '''', SlaveIndex = 0\<rparr> (BondSlave spec) (BondSlave other),
            VLAN := updateIfNotZero \<lparr>VID = 0, VLANProtocol = 0\<rparr> (VLAN spec) (VLAN other),
            BridgeMaster := updateIfNotZero \<lparr>STPEnabled = False, VLANFilteringEnabled = False\<rparr> (BridgeMaster spec) (BridgeMaster other),
            BridgeSlave := updateIfNotZero '''' (BridgeSlave spec) (BridgeSlave other)\<rparr>;
          spec = (if \<not> BondIsZero (BondMaster other) then spec\<lparr>BondMaster := BondMaster other\<rparr> else spec);
          spec = (if HardwareAddress other \<noteq> None then spec\<lparr>HardwareAddress := HardwareAddress other\<rparr> else spec);
          spec = (if \<not> WireguardIsZero (Wireguard other)
                  then (if WireguardIsZero (Wireguard spec) then spec\<lparr>Wireguard := Wireguard other\<rparr>
                        else spec\<lparr>Wireguard := WireguardMerge (Wireguard spec) (Wireguard other)\<rparr>)
                  else spec)
      in spec\<lparr>LinkLayer := LinkLayer other\<rparr>)"

definition LinkID :: "string \<Rightarrow> string" where
  "LinkID linkName = linkName"

text \<open>\<open>specs\<close> is the list as SortFunc leaves it: by the name of the link and the layer.\<close>

definition link_order :: "link_spec \<Rightarrow> link_spec \<Rightarrow> bool" where
  "link_order left right \<longleftrightarrow> LinkName left < LinkName right \<or> LinkName left = LinkName right \<and> LinkLayer left \<le> LinkLayer right"

definition link_merge :: "link_spec list \<Rightarrow> (string \<rightharpoonup> link_spec)" where
  "link_merge specs =
     foldl (\<lambda>links link. case links (LinkID (LinkName link)) of
         None \<Rightarrow> links(LinkID (LinkName link) \<mapsto> link)
       | Some existing \<Rightarrow> links(LinkID (LinkName link) \<mapsto> LinkMergeSpec existing link)) Map.empty specs"

section \<open>Equality of bond settings\<close>

lemma same_entries:
  "length xs = length ys \<and> list_all (\<lambda>i. xs ! i = ys ! i) [0..<length xs] \<longleftrightarrow> xs = ys"
  unfolding list_all_iff list_eq_iff_nth_eq by auto

lemma same_entries_and:
  "length xs = length ys \<and> list_all (\<lambda>i. xs ! i = ys ! i) [0..<length xs] \<and> R \<longleftrightarrow> xs = ys \<and> R"
  using same_entries by blast

lemma bond_eq_iff:
  fixes a b :: bond_spec
  shows "a = b \<longleftrightarrow> BondMode a = BondMode b \<and> HashPolicy a = HashPolicy b \<and> LACPRate a = LACPRate b \<and>
    ARPValidate a = ARPValidate b \<and> ARPAllTargets a = ARPAllTargets b \<and> PrimaryIndex a = PrimaryIndex b \<and>
    PrimaryReselect a = PrimaryReselect b \<and> FailOverMac a = FailOverMac b \<and> ADSelect a = ADSelect b \<and>
    MIIMon a = MIIMon b \<and> UpDelay a = UpDelay b \<and> DownDelay a = DownDelay b \<and> ARPInterval a = ARPInterval b \<and>
    ResendIGMP a = ResendIGMP b \<and> MinLinks a = MinLinks b \<and> LPInterval a = LPInterval b \<and>
    PacketsPerSlave a = PacketsPerSlave b \<and> NumPeerNotif a = NumPeerNotif b \<and> TLBDynamicLB a = TLBDynamicLB b \<and>
    AllSlavesActive a = AllSlavesActive b \<and> UseCarrier a = UseCarrier b \<and> ADActorSysPrio a = ADActorSysPrio b \<and>
    ADUserPortKey a = ADUserPortKey b \<and> PeerNotifyDelay a = PeerNotifyDelay b \<and> ARPIPTargets a = ARPIPTargets b \<and>
    NSIP6Targets a = NSIP6Targets b \<and> ADLACPActive a = ADLACPActive b \<and> MissedMax a = MissedMax b"
  by (cases a; cases b) simp

text \<open>Two bond specifications count as equal exactly when they agree in every setting, but for a primary that
  only one of them has, and for the missed maximum in the three modes that do not use it.\<close>

theorem bond_equal:
  "BondEqual spec other \<longleftrightarrow>
     spec = other\<lparr>PrimaryIndex := PrimaryIndex spec, MissedMax := MissedMax spec\<rparr> \<and>
     (PrimaryIndex spec = PrimaryIndex other \<or> PrimaryIndex spec = None \<or> PrimaryIndex other = None) \<and>
     (MissedMax spec = MissedMax other \<or> BondMode spec \<in> {BondMode8023AD, BondModeALB, BondModeTLB})"
proof -
  have p: "\<not> (PrimaryIndex spec \<noteq> None \<and> PrimaryIndex other \<noteq> None \<and> the (PrimaryIndex spec) \<noteq> the (PrimaryIndex other)) \<longleftrightarrow>
      PrimaryIndex spec = PrimaryIndex other \<or> PrimaryIndex spec = None \<or> PrimaryIndex other = None"
    by (cases "PrimaryIndex spec"; cases "PrimaryIndex other") simp_all
  have m: "(BondMode spec \<noteq> BondMode8023AD \<and> BondMode spec \<noteq> BondModeALB \<and> BondMode spec \<noteq> BondModeTLB \<longrightarrow> MissedMax spec = MissedMax other) \<longleftrightarrow>
      MissedMax spec = MissedMax other \<or> BondMode spec \<in> {BondMode8023AD, BondModeALB, BondModeTLB}"
    by blast
  show ?thesis unfolding BondEqual_def same_entries_and bond_eq_iff p m by (simp add: conj_ac)
qed

text \<open>So a primary that is added to a bond without one is no difference.\<close>

lemma added_primary_is_equal: "PrimaryIndex spec = None \<Longrightarrow> BondEqual spec (spec\<lparr>PrimaryIndex := Some i\<rparr>)"
  unfolding BondEqual_def same_entries_and by simp

lemma BondIsZero_iff: "BondIsZero spec \<longleftrightarrow> spec = zero_bond"
  unfolding BondIsZero_def bond_eq_iff zero_bond_def by simp

section \<open>WireGuard\<close>

lemma known_peer: "list_ex (\<lambda>p. PeerPublicKey p = k) peers \<longleftrightarrow> k \<in> PeerPublicKey ` set peers"
  by (auto simp: list_ex_iff)

lemma add_peers_keys:
  "PeerPublicKey ` set (add_peers peers others) = PeerPublicKey ` set peers \<union> PeerPublicKey ` set others"
  by (induction peers others rule: add_peers.induct) (auto simp: known_peer)

lemma add_peers_distinct:
  "distinct (map PeerPublicKey peers) \<Longrightarrow> distinct (map PeerPublicKey (add_peers peers others))"
  by (induction peers others rule: add_peers.induct) (simp_all add: known_peer)

lemma add_peers_prefix: "\<exists>added. add_peers peers others = peers @ added \<and> set added \<subseteq> set others"
proof (induction peers others rule: add_peers.induct)
  case (2 peers peer rest)
  show ?case
  proof (cases "list_ex (\<lambda>p. PeerPublicKey p = PeerPublicKey peer) peers")
    case True
    then show ?thesis using 2(1) by auto
  next
    case False
    then obtain added where "add_peers (peers @ [peer]) rest = (peers @ [peer]) @ added" "set added \<subseteq> set rest" using 2(2) by blast
    with False show ?thesis by (intro exI [of _ "peer # added"]) auto
  qed
qed simp

section \<open>Merging links\<close>

text \<open>The last value that is not the zero value, or the first one.\<close>

definition last_set :: "'a \<Rightarrow> 'a list \<Rightarrow> 'a" where
  "last_set zero vs = (let given = filter (\<lambda>v. v \<noteq> zero) (tl vs) in if given = [] then hd vs else last given)"

lemma last_set_fold: "foldl (updateIfNotZero zero) v vs = last_set zero (v # vs)"
proof (induction vs arbitrary: v rule: rev_induct)
  case (snoc w vs)
  then show ?case by (auto simp: updateIfNotZero_def last_set_def Let_def)
qed (simp add: last_set_def)

lemma LinkMergeSpec_simps:
  "LinkName (LinkMergeSpec a b) = LinkName a"
  "Logical (LinkMergeSpec a b) = updateIfNotZero False (Logical a) (Logical b)"
  "Up (LinkMergeSpec a b) = updateIfNotZero False (Up a) (Up b)"
  "LinkMTU (LinkMergeSpec a b) = updateIfNotZero 0 (LinkMTU a) (LinkMTU b)"
  "LinkKind (LinkMergeSpec a b) = updateIfNotZero '''' (LinkKind a) (LinkKind b)"
  "LinkType (LinkMergeSpec a b) = updateIfNotZero 0 (LinkType a) (LinkType b)"
  "HardwareAddress (LinkMergeSpec a b) = updateIfNotZero None (HardwareAddress a) (HardwareAddress b)"
  "ParentName (LinkMergeSpec a b) = updateIfNotZero '''' (ParentName a) (ParentName b)"
  "BondSlave (LinkMergeSpec a b) = updateIfNotZero \<lparr>BondMasterName = '''', SlaveIndex = 0\<rparr> (BondSlave a) (BondSlave b)"
  "BridgeSlave (LinkMergeSpec a b) = updateIfNotZero '''' (BridgeSlave a) (BridgeSlave b)"
  "VLAN (LinkMergeSpec a b) = updateIfNotZero \<lparr>VID = 0, VLANProtocol = 0\<rparr> (VLAN a) (VLAN b)"
  "BridgeMaster (LinkMergeSpec a b) = updateIfNotZero \<lparr>STPEnabled = False, VLANFilteringEnabled = False\<rparr> (BridgeMaster a) (BridgeMaster b)"
  "BondMaster (LinkMergeSpec a b) = updateIfNotZero zero_bond (BondMaster a) (BondMaster b)"
  "LinkLayer (LinkMergeSpec a b) = LinkLayer b"
  "Multicast (LinkMergeSpec a b) = Multicast a"
  by (simp_all add: LinkMergeSpec_def updateIfNotZero_def BondIsZero_iff Let_def)

lemma fold_field:
  assumes "\<And>a b. f (m a b) = g (f a) (h b)"
  shows "f (foldl m a bs) = foldl g (f a) (map h bs)"
  by (induction bs arbitrary: a) (simp_all add: assms)

lemma link_merge_fold:
  "link_merge specs name =
    (case filter (\<lambda>s. LinkName s = name) specs of [] \<Rightarrow> None | s # ss \<Rightarrow> Some (foldl LinkMergeSpec s ss))"
proof (induction specs rule: rev_induct)
  case Nil
  show ?case by (simp add: link_merge_def)
next
  case (snoc s specs)
  have step: "link_merge (specs @ [s]) = (case link_merge specs (LinkName s) of
      None \<Rightarrow> (link_merge specs)(LinkName s \<mapsto> s)
    | Some existing \<Rightarrow> (link_merge specs)(LinkName s \<mapsto> LinkMergeSpec existing s))"
    unfolding link_merge_def LinkID_def by (simp only: foldl_append foldl.simps)
  show ?case
  proof (cases "LinkName s = name")
    case True
    then show ?thesis using snoc by (cases "filter (\<lambda>s. LinkName s = name) specs") (simp_all add: step)
  next
    case False
    then show ?thesis using snoc by (simp add: step split: option.split)
  qed
qed

lemma link_folds:
  "Logical (foldl LinkMergeSpec a bs) = foldl (updateIfNotZero False) (Logical a) (map Logical bs)"
  "Up (foldl LinkMergeSpec a bs) = foldl (updateIfNotZero False) (Up a) (map Up bs)"
  "LinkMTU (foldl LinkMergeSpec a bs) = foldl (updateIfNotZero 0) (LinkMTU a) (map LinkMTU bs)"
  "LinkKind (foldl LinkMergeSpec a bs) = foldl (updateIfNotZero '''') (LinkKind a) (map LinkKind bs)"
  "LinkType (foldl LinkMergeSpec a bs) = foldl (updateIfNotZero 0) (LinkType a) (map LinkType bs)"
  "HardwareAddress (foldl LinkMergeSpec a bs) = foldl (updateIfNotZero None) (HardwareAddress a) (map HardwareAddress bs)"
  "ParentName (foldl LinkMergeSpec a bs) = foldl (updateIfNotZero '''') (ParentName a) (map ParentName bs)"
  "BridgeSlave (foldl LinkMergeSpec a bs) = foldl (updateIfNotZero '''') (BridgeSlave a) (map BridgeSlave bs)"
  "BondMaster (foldl LinkMergeSpec a bs) = foldl (updateIfNotZero zero_bond) (BondMaster a) (map BondMaster bs)"
  by (rule fold_field, rule LinkMergeSpec_simps)+

lemma link_fold_first:
  "LinkName (foldl LinkMergeSpec a bs) = LinkName a" "Multicast (foldl LinkMergeSpec a bs) = Multicast a"
  "LinkLayer (foldl LinkMergeSpec a bs) = last (map LinkLayer (a # bs))"
  by (induction bs arbitrary: a) (simp_all add: LinkMergeSpec_simps)

text \<open>The multicast flag of the higher layers is ignored.\<close>

lemma multicast_lost:
  assumes "filter (\<lambda>s. LinkName s = name) specs = s # ss"
  shows "\<exists>l. link_merge specs name = Some l \<and> Multicast l = Multicast s"
  by (simp add: link_merge_fold assms link_fold_first)

definition wireguard_step :: "wireguard_spec \<Rightarrow> wireguard_spec \<Rightarrow> wireguard_spec" where
  "wireguard_step a b = (if WireguardIsZero b then a else if WireguardIsZero a then b else WireguardMerge a b)"

lemma Wireguard_merge: "Wireguard (LinkMergeSpec a b) = wireguard_step (Wireguard a) (Wireguard b)"
  by (simp add: LinkMergeSpec_def wireguard_step_def Let_def)

lemma wireguard_step_simps:
  "ListenPort (wireguard_step a b) = updateIfNotZero 0 (ListenPort a) (ListenPort b)"
  "FirewallMark (wireguard_step a b) = updateIfNotZero 0 (FirewallMark a) (FirewallMark b)"
  "PrivateKey (wireguard_step a b) = updateIfNotZero '''' (PrivateKey a) (PrivateKey b)"
  "PeerPublicKey ` set (Peers (wireguard_step a b)) = PeerPublicKey ` set (Peers a) \<union> PeerPublicKey ` set (Peers b)"
  by (auto simp: wireguard_step_def WireguardMerge_def WireguardIsZero_def updateIfNotZero_def Let_def add_peers_keys)

lemma wireguard_fold_peers:
  "PeerPublicKey ` set (Peers (foldl wireguard_step w ws)) = (\<Union>x \<in> set (w # ws). PeerPublicKey ` set (Peers x))"
  by (induction ws arbitrary: w) (auto simp: wireguard_step_simps)

lemma link_order_layers:
  assumes "sorted_wrt link_order specs"
  shows "sorted (map LinkLayer (filter (\<lambda>s. LinkName s = name) specs))"
  using assms by (induction specs) (auto simp: link_order_def)

lemma last_sorted_Max:
  fixes xs :: "'a :: linorder list"
  assumes "sorted xs" "xs \<noteq> []"
  shows "last xs = Max (set xs)"
  using assms by (induction xs) (auto simp: max_def intro: antisym)


section \<open>Witness\<close>

definition demo_link :: link_spec where
  "demo_link = \<lparr>LinkName = ''eth0'', Logical = False, Up = True, LinkMTU = 1400, LinkKind = '''', LinkType = 0, HardwareAddress = None,
     ParentName = '''', BondSlave = \<lparr>BondMasterName = '''', SlaveIndex = 0\<rparr>, BridgeSlave = '''', VLAN = \<lparr>VID = 0, VLANProtocol = 0\<rparr>,
     BondMaster = zero_bond, BridgeMaster = \<lparr>STPEnabled = False, VLANFilteringEnabled = False\<rparr>,
     Wireguard = \<lparr>PrivateKey = '''', WGPublicKey = '''', ListenPort = 0, FirewallMark = 0, Peers = []\<rparr>,
     LinkLayer = ConfigPlatform, Multicast = None\<rparr>"


end
