(* ===== verification/MergeController.thy ===== *)
theory MergeController
  imports NetMerge
begin

text \<open>
  The generic merge controller (internal/app/machined/pkg/controllers/network/generic_merge.go): one
  reconciliation computes the merged specifications, tears down the output resources that are no longer
  wanted, and writes the others. The COSI runtime answers the calls.
\<close>

section \<open>One reconciliation\<close>

datatype 's merge_call = CallTeardown string | CallDestroy string | CallModify string 's

text \<open>The answers: whether a torn down resource may be destroyed (None is an error), and whether the resource is
  destroyed and written.\<close>

record merge_env =
  TeardownReady :: "string \<Rightarrow> bool option"
  DestroyOk :: "string \<Rightarrow> bool"
  ModifyOk :: "string \<Rightarrow> bool"

text \<open>The loop over the output resources, with their phases. The result is what is left of the merged
  specifications, or None after an error.\<close>

fun cleanup_outputs :: "merge_env \<Rightarrow> (string \<times> ResourcePhase) list \<Rightarrow> (string, 's) gomap \<Rightarrow> 's merge_call list \<times> (string, 's) gomap option" where
  "cleanup_outputs E [] merged = ([], Some merged)"
| "cleanup_outputs E ((rid, ph) # out) merged =
     (let shouldBeDestroyed = \<not> gm_has merged rid; isTearingDown = (ph = PhaseTearingDown)
      in if shouldBeDestroyed \<or> isTearingDown then
           (case TeardownReady E rid of
              None \<Rightarrow> ([CallTeardown rid], None)
            | Some True \<Rightarrow>
                if DestroyOk E rid
                then (let (calls, res) = cleanup_outputs E out merged in (CallTeardown rid # CallDestroy rid # calls, res))
                else ([CallTeardown rid, CallDestroy rid], None)
            | Some False \<Rightarrow>
                (let (calls, res) = cleanup_outputs E out (if \<not> shouldBeDestroyed then gm_del merged rid else merged)
                 in (CallTeardown rid # calls, res)))
         else cleanup_outputs E out merged)"

fun write_outputs :: "merge_env \<Rightarrow> (string \<times> 's) list \<Rightarrow> 's merge_call list \<times> bool" where
  "write_outputs E [] = ([], True)"
| "write_outputs E ((rid, spec) # rest) =
     (if ModifyOk E rid then (let (calls, ok) = write_outputs E rest in (CallModify rid spec # calls, ok))
      else ([CallModify rid spec], False))"

text \<open>\<open>order\<close> is the order in which the merged specifications are visited.\<close>

definition merge_pass ::
    "merge_env \<Rightarrow> ((string, 's) gomap \<Rightarrow> (string \<times> 's) list) \<Rightarrow> (string, 's) gomap \<Rightarrow> (string \<times> ResourcePhase) list \<Rightarrow> 's merge_call list \<times> bool" where
  "merge_pass E order merged out =
     (case cleanup_outputs E out merged of
        (calls, None) \<Rightarrow> (calls, False)
      | (calls, Some left) \<Rightarrow> (let (writes, ok) = write_outputs E (order left) in (calls @ writes, ok)))"

section \<open>What is published\<close>

text \<open>The effect of the calls that succeeded on the specifications of the output resources.\<close>

fun call_effect :: "'s merge_call \<Rightarrow> (string \<rightharpoonup> 's) \<Rightarrow> (string \<rightharpoonup> 's)" where
  "call_effect (CallTeardown rid) store = store"
| "call_effect (CallDestroy rid) store = store(rid := None)"
| "call_effect (CallModify rid spec) store = store(rid \<mapsto> spec)"

definition calls_effect :: "'s merge_call list \<Rightarrow> (string \<rightharpoonup> 's) \<Rightarrow> (string \<rightharpoonup> 's)" where
  "calls_effect calls store = foldl (\<lambda>st c. call_effect c st) store calls"

text \<open>A resource on its way out that others still hold.\<close>

definition held :: "merge_env \<Rightarrow> (string \<times> ResourcePhase) list \<Rightarrow> string \<Rightarrow> bool" where
  "held E out rid \<longleftrightarrow> (rid, PhaseTearingDown) \<in> set out \<and> TeardownReady E rid = Some False"

lemma calls_effect_simps [simp]:
  "calls_effect [] store = store" "calls_effect (c # cs) store = calls_effect cs (call_effect c store)"
  "calls_effect (cs @ ds) store = calls_effect ds (calls_effect cs store)"
  by (simp_all add: calls_effect_def)

lemma held_Cons:
  "distinct (map fst ((rid, ph) # out)) \<Longrightarrow>
    held E ((rid, ph) # out) k = (if k = rid then ph = PhaseTearingDown \<and> TeardownReady E k = Some False else held E out k)"
  by (force simp: held_def)

text \<open>What the clean-up removes.\<close>

definition removed :: "merge_env \<Rightarrow> (string \<times> ResourcePhase) list \<Rightarrow> (string, 's) gomap \<Rightarrow> string \<Rightarrow> bool" where
  "removed E out merged k \<longleftrightarrow> k \<in> fst ` set out \<and> (\<not> gm_has merged k \<or> (k, PhaseTearingDown) \<in> set out) \<and>
     TeardownReady E k = Some True"

lemma removed_Cons:
  "distinct (map fst ((rid, ph) # out)) \<Longrightarrow>
    removed E ((rid, ph) # out) merged k =
      (if k = rid then (\<not> gm_has merged k \<or> ph = PhaseTearingDown) \<and> TeardownReady E k = Some True else removed E out merged k)"
  by (force simp: removed_def)

lemma removed_del: "k \<noteq> rid \<Longrightarrow> removed E out (gm_del merged rid) k = removed E out merged k"
  by (simp add: removed_def gm_has_get gm_get_del)

lemma removed_notin: "k \<notin> fst ` set out \<Longrightarrow> \<not> removed E out merged k"
  by (simp add: removed_def)

lemma held_notin: "k \<notin> fst ` set out \<Longrightarrow> \<not> held E out k"
  by (force simp: held_def)

lemma cleanup_spec:
  assumes "cleanup_outputs E out merged = (calls, Some left)" "distinct (map fst out)" "gm_wf merged"
  shows "gm_wf left \<and> gm_get left k = (if held E out k then None else gm_get merged k) \<and>
    calls_effect calls store k = (if removed E out merged k then None else store k)"
  using assms
proof (induction E out merged arbitrary: calls left store rule: cleanup_outputs.induct)
  case (1 E merged)
  then show ?case by (simp add: held_def removed_def)
next
  case (2 E rid ph out merged)
  have d: "distinct (map fst ((rid, ph) # out))" by (rule 2(5))
  then have out: "distinct (map fst out)" and rid: "rid \<notin> fst ` set out" by auto
  let ?remove = "\<not> gm_has merged rid \<or> ph = PhaseTearingDown"
  note rules = held_Cons [OF d] removed_Cons [OF d]
  show ?case
  proof (cases "?remove")
    case False
    then have "cleanup_outputs E out merged = (calls, Some left)" using 2(4) by (simp add: Let_def)
    from 2(3) [OF refl refl _ this out 2(6)] False show ?thesis
      using removed_notin [OF rid] held_notin [OF rid] unfolding rules by auto
  next
    case True
    show ?thesis
    proof (cases "TeardownReady E rid")
      case None
      then show ?thesis using 2(4) True by (simp add: Let_def)
    next
      case (Some ready)
      show ?thesis
      proof (cases ready)
        case t: True
        then obtain cs where cs: "cleanup_outputs E out merged = (cs, Some left)" "calls = CallTeardown rid # CallDestroy rid # cs"
          using 2(4) True Some by (auto simp: Let_def split: prod.splits if_splits)
        moreover have "DestroyOk E rid" using 2(4) True Some t by (auto simp: Let_def split: if_splits)
        ultimately have "gm_wf left \<and> gm_get left k = (if held E out k then None else gm_get merged k) \<and>
            calls_effect cs (store(rid := None)) k = (if removed E out merged k then None else (store(rid := None)) k)"
          using 2(1) [OF refl refl True Some _ _ cs(1) out 2(6)] t by simp
        then show ?thesis using Some t True removed_notin [OF rid] held_notin [OF rid] unfolding rules cs(2) by auto
      next
        case f: False
        define m where "m = (if gm_has merged rid then gm_del merged rid else merged)"
        have wf: "gm_wf m" using 2(6) by (simp add: m_def gm_wf_del)
        obtain cs where cs: "cleanup_outputs E out m = (cs, Some left)" "calls = CallTeardown rid # cs"
          using 2(4) True Some f by (auto simp: Let_def m_def split: prod.splits if_splits)
        have "gm_wf left \<and> gm_get left k = (if held E out k then None else gm_get m k) \<and>
            calls_effect cs store k = (if removed E out m k then None else store k)"
          using 2(2) [OF refl refl True Some _ _ out] f cs(1) wf by (simp add: m_def)
        moreover have "gm_get m k = (if k = rid then None else gm_get merged k)"
          by (auto simp: m_def gm_get_del gm_has_get)
        moreover have "k \<noteq> rid \<Longrightarrow> removed E out m k = removed E out merged k"
          by (simp add: m_def removed_del)
        ultimately show ?thesis using Some f True removed_notin [OF rid] held_notin [OF rid] unfolding rules cs(2)
          by (auto simp: gm_has_get)
      qed
    qed
  qed
qed

lemma write_spec:
  assumes "write_outputs E specs = (calls, True)" "distinct (map fst specs)"
  shows "calls_effect calls store k = (case map_of specs k of None \<Rightarrow> store k | Some spec \<Rightarrow> Some spec)"
  using assms
proof (induction E specs arbitrary: calls store rule: write_outputs.induct)
  case (2 E rid spec rest)
  from 2(2) obtain cs where cs: "ModifyOk E rid" "write_outputs E rest = (cs, True)" "calls = CallModify rid spec # cs"
    by (auto split: if_splits prod.splits)
  from 2(3) have "map_of rest rid = None" by (auto simp: map_of_eq_None_iff)
  then show ?case using 2(1) [OF cs(1,2)] 2(3) by (auto simp: cs(3) split: option.split)
qed simp

lemma merge_pass_effect:
  assumes "merge_pass E order merged out = (calls, True)" "gm_wf merged" "distinct (map fst out)"
    "\<forall>m. range_order m (order m)"
  shows "calls_effect calls store k =
    (case gm_get merged k of
       Some spec \<Rightarrow> if held E out k then store k else Some spec
     | None \<Rightarrow> if k \<in> fst ` set out \<and> TeardownReady E k = Some True then None else store k)"
proof -
  obtain cs left ws where pass: "cleanup_outputs E out merged = (cs, Some left)" "write_outputs E (order left) = (ws, True)"
    "calls = cs @ ws"
    using assms(1) by (auto simp: merge_pass_def split: prod.splits option.splits)
  have left: "gm_wf left" "gm_get left k = (if held E out k then None else gm_get merged k)"
    "calls_effect cs store k = (if removed E out merged k then None else store k)"
    using cleanup_spec [OF pass(1) assms(3,2)] by auto
  have order: "range_order left (order left)" using assms(4) by blast
  then have "distinct (map fst (order left))" using range_order_wf [OF order left(1)] by (simp add: gm_wf_def)
  then have w: "calls_effect ws (calls_effect cs store) k =
      (case map_of (order left) k of None \<Rightarrow> calls_effect cs store k | Some spec \<Rightarrow> Some spec)"
    by (rule write_spec [OF pass(2)])
  have "map_of (order left) k = gm_get left k" using range_order_get [OF order left(1)] by (simp add: gm_get_def)
  moreover have "held E out k \<Longrightarrow> \<not> removed E out merged k" by (simp add: held_def removed_def)
  ultimately show ?thesis using w left by (auto simp: pass(3) removed_def gm_has_get split: option.split)
qed

text \<open>A reconciliation without errors publishes the merged specifications: every one of them is written, except
  that a resource which is on its way out and still held is left as it is until it is gone, and a resource
  that is no longer wanted goes as soon as nobody holds it; nothing else changes.\<close>

theorem merge_published:
  assumes "merge_pass E order merged out = (calls, True)" "gm_wf merged" "distinct (map fst out)"
    "\<forall>m. range_order m (order m)"
  shows "calls_effect calls store k =
    (case gm_get merged k of
       Some spec \<Rightarrow> if held E out k then store k else Some spec
     | None \<Rightarrow> if k \<in> fst ` set out \<and> TeardownReady E k = Some True then None else store k)"
  by (rule merge_pass_effect [OF assms])

section \<open>Witness\<close>

definition demo_merge_env :: merge_env where
  "demo_merge_env = \<lparr>TeardownReady = (\<lambda>k. Some (k = ''eth0/10.0.0.1/24'')), DestroyOk = (\<lambda>_. True), ModifyOk = (\<lambda>_. True)\<rparr>"

theorem merge_published_witness:
  "calls_effect [CallTeardown ''eth0/10.0.0.1/24'', CallDestroy ''eth0/10.0.0.1/24'', CallTeardown ''eth1/10.0.0.2/24'',
      CallModify ''eth2/10.0.0.3/24'' (3 :: nat)] (\<lambda>_. Some 0) ''eth1/10.0.0.2/24'' = Some 0"
proof -
  let ?calls = "[CallTeardown ''eth0/10.0.0.1/24'', CallDestroy ''eth0/10.0.0.1/24'', CallTeardown ''eth1/10.0.0.2/24'',
      CallModify ''eth2/10.0.0.3/24'' (3 :: nat)]"
  let ?merged = "[(''eth1/10.0.0.2/24'', 2), (''eth2/10.0.0.3/24'', 3 :: nat)]"
  let ?out = "[(''eth0/10.0.0.1/24'', PhaseRunning), (''eth1/10.0.0.2/24'', PhaseTearingDown)]"
  have pass: "merge_pass demo_merge_env (\<lambda>m. m) ?merged ?out = (?calls, True)"
    by (simp add: merge_pass_def demo_merge_env_def gm_has_def gm_del_def)
  have "gm_wf ?merged" "distinct (map fst ?out)" "\<forall>m :: (string, nat) gomap. range_order m m" by (simp_all add: gm_wf_def)
  from merge_published [OF pass this] show ?thesis
    by (simp add: gm_get_def held_def demo_merge_env_def)
qed

end
