(* ===== verification/GoText.thy ===== *)
theory GoText
  imports Prelude "HOL-Library.Sublist"
begin

text \<open>
  Of the standard library: strings.ReplaceAll, and regular expressions that are a sequence of literals,
  repeated character classes and line anchors, with the search of package regexp (the first match in the
  order of the preferences of greedy and lazy repetitions, then the next one after it). No code of the
  repository. Strings are bytes; the classes and literals that occur are ASCII or take all other bytes,
  so it does not matter that package regexp reads runes.
\<close>

section \<open>Replacing\<close>

function replace_all :: "string \<Rightarrow> string \<Rightarrow> string \<Rightarrow> string" where
  "replace_all old new s =
     (if s = [] \<or> old = [] then s
      else if prefix old s then new @ replace_all old new (drop (length old) s)
      else hd s # replace_all old new (tl s))"
  by pat_completeness auto
termination
  by (relation "measure (\<lambda>(old, new, s). length s)") auto

declare replace_all.simps [simp del]

lemma replace_all_Nil [simp]: "replace_all old new [] = []"
  by (simp add: replace_all.simps)

lemma replace_char:
  "replace_all [c] new s = concat (map (\<lambda>x. if x = c then new else [x]) s)"
  by (induction s) (auto simp: replace_all.simps [of _ _ "_ # _"])

lemma replace_pair_Cons:
  "replace_all [a, b] new (x # y # s) = (if x = a \<and> y = b then new @ replace_all [a, b] new s else x # replace_all [a, b] new (y # s))"
  "replace_all [a, b] new [x] = [x]"
  by (simp_all add: replace_all.simps [of _ _ "_ # _"])

section \<open>Regular expressions\<close>

datatype rx_item = RxLit string | RxOne "char \<Rightarrow> bool" | RxMany "char \<Rightarrow> bool" nat bool bool | RxBOL | RxEOL

text \<open>\<open>RxMany P least greedy captured\<close> repeats a class. The anchors are those of the multi-line mode.\<close>

definition rx_space :: "char \<Rightarrow> bool" where
  "rx_space c \<longleftrightarrow> c \<in> {CHR 0x09, CHR 0x0A, CHR 0x0C, CHR 0x0D, CHR 0x20}"

definition rx_dot :: "char \<Rightarrow> bool" where
  "rx_dot c \<longleftrightarrow> c \<noteq> CHR 0x0A"

text \<open>The length of the repetitions in the order in which they are tried.\<close>

definition repetitions :: "(char \<Rightarrow> bool) \<Rightarrow> nat \<Rightarrow> bool \<Rightarrow> string \<Rightarrow> nat list" where
  "repetitions P least greedy s =
     (let ns = [least..<length (takeWhile P s) + 1] in if greedy then rev ns else ns)"

fun first_some :: "('a \<Rightarrow> 'b option) \<Rightarrow> 'a list \<Rightarrow> 'b option" where
  "first_some f [] = None"
| "first_some f (x # xs) = (case f x of None \<Rightarrow> first_some f xs | Some y \<Rightarrow> Some y)"

text \<open>The character before the rest of the text, None at its start.\<close>

definition after_char :: "char option \<Rightarrow> string \<Rightarrow> char option" where
  "after_char prev w = (if w = [] then prev else Some (last w))"

definition line_start :: "char option \<Rightarrow> bool" where
  "line_start prev \<longleftrightarrow> prev = None \<or> prev = Some CHR 0x0A"

text \<open>A match at the start of the text: the captures, and where it ends.\<close>

fun rx_match :: "rx_item list \<Rightarrow> char option \<Rightarrow> string \<Rightarrow> (string list \<times> char option \<times> string) option" where
  "rx_match [] prev s = Some ([], prev, s)"
| "rx_match (RxLit w # items) prev s =
     (if prefix w s then rx_match items (after_char prev w) (drop (length w) s) else None)"
| "rx_match (RxOne P # items) prev s =
     (case s of [] \<Rightarrow> None | c # s' \<Rightarrow> if P c then rx_match items (Some c) s' else None)"
| "rx_match (RxMany P least greedy captured # items) prev s =
     first_some (\<lambda>n. case rx_match items (after_char prev (take n s)) (drop n s) of
         None \<Rightarrow> None
       | Some (caps, rest) \<Rightarrow> Some (if captured then (take n s # caps, rest) else (caps, rest)))
       (repetitions P least greedy s)"
| "rx_match (RxBOL # items) prev s = (if line_start prev then rx_match items prev s else None)"
| "rx_match (RxEOL # items) prev s = (if s = [] \<or> hd s = CHR 0x0A then rx_match items prev s else None)"

text \<open>FindAllSubmatch, for expressions that do not match the empty text: the captures of all matches.\<close>

function find_all :: "rx_item list \<Rightarrow> char option \<Rightarrow> string \<Rightarrow> string list list" where
  "find_all items prev s =
     (case rx_match items prev s of
        Some (caps, prev', rest) \<Rightarrow>
          if length rest < length s then caps # find_all items prev' rest
          else (case s of [] \<Rightarrow> [] | c # s' \<Rightarrow> find_all items (Some c) s')
      | None \<Rightarrow> (case s of [] \<Rightarrow> [] | c # s' \<Rightarrow> find_all items (Some c) s'))"
  by pat_completeness auto
termination
  by (relation "measure (\<lambda>(items, prev, s). length s)") auto

declare find_all.simps [simp del]

section \<open>Searching\<close>

lemma first_some_None: "first_some f xs = None \<longleftrightarrow> (\<forall>x \<in> set xs. f x = None)"
  by (induction xs) (auto split: option.split)

lemma first_some_skip: "\<forall>x \<in> set xs. f x = None \<Longrightarrow> first_some f (xs @ ys) = first_some f ys"
  by (induction xs) auto

lemma find_all_miss: "rx_match items prev (c # s) = None \<Longrightarrow> find_all items prev (c # s) = find_all items (Some c) s"
  by (subst find_all.simps) simp

lemma find_all_Nil: "rx_match items prev [] = None \<Longrightarrow> find_all items prev [] = []"
  by (subst find_all.simps) simp

lemma find_all_hit:
  "rx_match items prev s = Some (caps, prev', rest) \<Longrightarrow> length rest < length s \<Longrightarrow>
    find_all items prev s = caps # find_all items prev' rest"
  by (subst find_all.simps) simp

text \<open>An expression that starts at a line cannot match inside of one.\<close>

lemma find_all_inside:
  assumes "\<not> line_start prev" "CHR 0x0A \<notin> set w"
  shows "find_all (RxBOL # items) prev (w @ s) = find_all (RxBOL # items) (after_char prev w) s"
  using assms
proof (induction w arbitrary: prev)
  case (Cons c w)
  have "find_all (RxBOL # items) prev (c # w @ s) = find_all (RxBOL # items) (Some c) (w @ s)"
    using Cons.prems by (intro find_all_miss) simp
  also have "\<dots> = find_all (RxBOL # items) (after_char (Some c) w) s"
    using Cons.prems by (intro Cons.IH) (auto simp: line_start_def)
  finally show ?case by (simp add: after_char_def)
qed (simp add: after_char_def)

text \<open>A line on which it does not match is skipped.\<close>

lemma find_all_line:
  assumes "rx_match (RxBOL # items) prev (w @ s) = None" "w \<noteq> []" "CHR 0x0A \<notin> set w"
  shows "find_all (RxBOL # items) prev (w @ s) = find_all (RxBOL # items) (Some (last w)) s"
proof -
  obtain c w' where w: "w = c # w'" using assms(2) by (cases w) auto
  have "find_all (RxBOL # items) prev (w @ s) = find_all (RxBOL # items) (Some c) (w' @ s)"
    using assms(1) unfolding w by (simp add: find_all_miss)
  also have "\<dots> = find_all (RxBOL # items) (after_char (Some c) w') s"
    using assms(3) by (intro find_all_inside) (auto simp: w line_start_def)
  finally show ?thesis by (simp add: w after_char_def)
qed

lemma find_all_newline:
  assumes "\<not> line_start prev"
  shows "find_all (RxBOL # items) prev (CHR 0x0A # s) = find_all (RxBOL # items) (Some CHR 0x0A) s"
  using assms by (intro find_all_miss) simp

section \<open>White space and a keyword at the start of a line\<close>

abbreviation keyword_rx :: "string \<Rightarrow> rx_item list \<Rightarrow> rx_item list" where
  "keyword_rx w items \<equiv> RxBOL # RxMany rx_space 0 True False # RxLit w # items"

lemma keyword_needs:
  assumes "w \<noteq> []" "\<not> rx_space (hd w)" "\<not> prefix w (dropWhile rx_space s)"
  shows "rx_match (keyword_rx w items) prev s = None"
proof -
  have "\<not> prefix w (drop n s)" if "n \<le> length (takeWhile rx_space s)" for n
  proof
    assume p: "prefix w (drop n s)"
    let ?m = "length (takeWhile rx_space s)"
    show False
    proof (cases "n = ?m")
      case True
      then show False using p assms(3) by (simp add: dropWhile_eq_drop)
    next
      case False
      with that have n: "n < ?m" by simp
      then have len: "n < length s" using length_takeWhile_le [of rx_space s] by linarith
      have "hd (drop n s) = s ! n" using len by (simp add: hd_drop_conv_nth)
      moreover have "rx_space (s ! n)" using n by (metis nth_mem set_takeWhileD takeWhile_nth)
      moreover have "hd (drop n s) = hd w" using p assms(1) by (auto simp: prefix_def)
      ultimately show False using assms(2) by simp
    qed
  qed
  then show ?thesis by (auto simp: first_some_None repetitions_def)
qed

lemma option_pair_id: "(case x of None \<Rightarrow> None | Some (a, b) \<Rightarrow> Some (a, b)) = x"
  by (cases x) auto

lemma after_char_append: "after_char (after_char prev v) w = after_char prev (v @ w)"
  by (simp add: after_char_def)

lemma keyword_found:
  assumes "w \<noteq> []" "\<not> rx_space (hd w)" "line_start prev" "\<forall>c \<in> set sp. rx_space c"
  shows "rx_match (keyword_rx w items) prev (sp @ w @ s) = rx_match items (after_char prev (sp @ w)) s"
proof -
  have tw: "takeWhile rx_space (sp @ w @ s) = sp"
    using assms by (cases w) (auto simp: takeWhile_append)
  have w: "w @ s = hd w # tl w @ s" using assms(1) by simp
  have no: "\<not> prefix w (drop n (sp @ w @ s))" if "n < length sp" for n
  proof
    assume p: "prefix w (drop n (sp @ w @ s))"
    have "hd (drop n (sp @ w @ s)) = sp ! n" using that by (simp add: hd_drop_conv_nth hd_append)
    moreover have "hd (drop n (sp @ w @ s)) = hd w" using p assms(1) by (auto simp: prefix_def)
    ultimately show False using assms(2,4) that by (metis nth_mem)
  qed
  let ?f = "\<lambda>n. rx_match (RxLit w # items) (after_char prev (take n (sp @ w @ s))) (drop n (sp @ w @ s))"
  have miss: "\<forall>n \<in> set (rev [0..<length sp]). ?f n = None" using no by simp
  have hit: "?f (length sp) = rx_match items (after_char prev (sp @ w)) s" by (simp add: after_char_append)
  have "repetitions rx_space 0 True (sp @ w @ s) = length sp # rev [0..<length sp]"
    by (simp add: repetitions_def tw)
  then have "rx_match (keyword_rx w items) prev (sp @ w @ s) = first_some ?f (length sp # rev [0..<length sp])"
    using assms(3) by (simp only: rx_match.simps if_True if_False option_pair_id)
  also have "\<dots> = rx_match items (after_char prev (sp @ w)) s"
  proof (cases "?f (length sp)")
    case None
    have "first_some ?f (rev [0..<length sp]) = None" using miss by (simp only: first_some_None)
    with None show ?thesis using hit by simp
  next
    case (Some r)
    then show ?thesis unfolding hit [symmetric] first_some.simps by (simp only: option.case)
  qed
  finally show ?thesis .
qed

section \<open>Repetitions\<close>

lemma many_greedy:
  assumes "least \<le> m" "m \<le> length (takeWhile P s)"
    "\<And>n. m < n \<Longrightarrow> n \<le> length (takeWhile P s) \<Longrightarrow> rx_match items (after_char prev (take n s)) (drop n s) = None"
    "rx_match items (after_char prev (take m s)) (drop m s) = Some (caps, rest)"
  shows "rx_match (RxMany P least True captured # items) prev s = Some (if captured then take m s # caps else caps, rest)"
proof -
  let ?L = "length (takeWhile P s) + 1"
  have "[least..<?L] = [least..<m] @ m # [m + 1..<?L]"
    using assms(1,2) by (metis Suc_eq_plus1 less_Suc_eq_le upt_add_eq_append upt_conv_Cons le_add_diff_inverse le_less_trans less_imp_le_nat)
  then have "repetitions P least True s = rev [m + 1..<?L] @ m # rev [least..<m]" by (simp add: repetitions_def)
  then show ?thesis using assms(3,4) by (simp add: first_some_skip)
qed

lemma many_lazy:
  assumes "least \<le> m" "m \<le> length (takeWhile P s)"
    "\<And>n. least \<le> n \<Longrightarrow> n < m \<Longrightarrow> rx_match items (after_char prev (take n s)) (drop n s) = None"
    "rx_match items (after_char prev (take m s)) (drop m s) = Some (caps, rest)"
  shows "rx_match (RxMany P least False captured # items) prev s = Some (if captured then take m s # caps else caps, rest)"
proof -
  let ?L = "length (takeWhile P s) + 1"
  have "[least..<?L] = [least..<m] @ m # [m + 1..<?L]"
    using assms(1,2) by (metis Suc_eq_plus1 less_Suc_eq_le upt_add_eq_append upt_conv_Cons le_add_diff_inverse le_less_trans less_imp_le_nat)
  then have "repetitions P least False s = [least..<m] @ m # [m + 1..<?L]" by (simp add: repetitions_def)
  then show ?thesis using assms(3,4) by (simp add: first_some_skip)
qed

lemma many_none:
  assumes "\<And>n. least \<le> n \<Longrightarrow> n \<le> length (takeWhile P s) \<Longrightarrow> rx_match items (after_char prev (take n s)) (drop n s) = None"
  shows "rx_match (RxMany P least greedy captured # items) prev s = None"
  using assms by (auto simp: first_some_None repetitions_def Let_def)

lemma takeWhile_word: "\<forall>c \<in> set w. P c \<Longrightarrow> s = [] \<or> \<not> P (hd s) \<Longrightarrow> takeWhile P (w @ s) = w"
  by (cases s) (auto simp: takeWhile_append)

text \<open>White space that must be there, before something else.\<close>

lemma spaces_then:
  assumes "sp \<noteq> []" "\<forall>c \<in> set sp. rx_space c" "s \<noteq> []" "\<not> rx_space (hd s)" "rx_match items (Some (last sp)) s = Some (caps, rest)"
  shows "rx_match (RxMany rx_space 1 True False # items) prev (sp @ s) = Some (caps, rest)"
proof -
  have tw: "takeWhile rx_space (sp @ s) = sp" using assms by (intro takeWhile_word) auto
  have "rx_match (RxMany rx_space 1 True False # items) prev (sp @ s) =
      Some (if False then take (length sp) (sp @ s) # caps else caps, rest)"
    by (rule many_greedy) (use assms tw in \<open>auto simp: after_char_def Suc_le_eq\<close>)
  then show ?thesis by simp
qed

lemma spaces_missing: "s = [] \<or> \<not> rx_space (hd s) \<Longrightarrow> rx_match (RxMany rx_space 1 greedy captured # items) prev s = None"
  by (rule many_none) (cases s; auto)

text \<open>The rest of a line.\<close>

lemma line_rest:
  assumes "CHR 0x0A \<notin> set w" "s = [] \<or> hd s = CHR 0x0A" "least \<le> length w" "w \<noteq> []"
  shows "rx_match [RxMany rx_dot least True True, RxEOL] prev (w @ s) = Some ([w], Some (last w), s)"
proof -
  have tw: "takeWhile rx_dot (w @ s) = w" using assms by (intro takeWhile_word) (auto simp: rx_dot_def)
  have "rx_match [RxMany rx_dot least True True, RxEOL] prev (w @ s) = Some (if True then take (length w) (w @ s) # [] else [], Some (last w), s)"
    by (rule many_greedy) (use assms tw in \<open>auto simp: after_char_def\<close>)
  then show ?thesis by simp
qed

text \<open>White space up to the end of some line: of this line or, over empty ones, a later one.\<close>

lemma line_end:
  assumes "s = [] \<or> \<not> rx_space (hd s)" "s \<noteq> []"
  shows "rx_match [RxMany rx_space 0 True False, RxEOL] prev (CHR 0x0A # s) = Some ([], prev, CHR 0x0A # s)"
    and "rx_match [RxMany rx_space 0 True False, RxEOL] prev (CHR 0x0A # CHR 0x0A # s) = Some ([], Some CHR 0x0A, CHR 0x0A # s)"
proof -
  have sp: "rx_space CHR 0x0A" by (simp add: rx_space_def)
  have hd: "hd s \<noteq> CHR 0x0A" using assms sp by auto
  have tw: "takeWhile rx_space (CHR 0x0A # s) = [CHR 0x0A]" "takeWhile rx_space (CHR 0x0A # CHR 0x0A # s) = [CHR 0x0A, CHR 0x0A]"
    using assms sp by (cases s; auto)+
  have "rx_match [RxMany rx_space 0 True False, RxEOL] prev (CHR 0x0A # s) = Some (if False then take 0 (CHR 0x0A # s) # [] else [], prev, CHR 0x0A # s)"
    by (rule many_greedy) (use assms(2) hd tw in \<open>auto simp: after_char_def le_Suc_eq\<close>)
  then show "rx_match [RxMany rx_space 0 True False, RxEOL] prev (CHR 0x0A # s) = Some ([], prev, CHR 0x0A # s)" by simp
  have "rx_match [RxMany rx_space 0 True False, RxEOL] prev (CHR 0x0A # CHR 0x0A # s) =
      Some (if False then take 1 (CHR 0x0A # CHR 0x0A # s) # [] else [], Some CHR 0x0A, CHR 0x0A # s)"
    by (rule many_greedy) (use assms(2) hd tw in \<open>auto simp: after_char_def le_Suc_eq numeral_2_eq_2\<close>)
  then show "rx_match [RxMany rx_space 0 True False, RxEOL] prev (CHR 0x0A # CHR 0x0A # s) = Some ([], Some CHR 0x0A, CHR 0x0A # s)" by simp
qed

section \<open>Paths\<close>

text \<open>filepath.Clean and filepath.Join.\<close>

fun split_path :: "string \<Rightarrow> string \<Rightarrow> string list" where
  "split_path acc [] = [rev acc]"
| "split_path acc (c # s) = (if c = CHR ''/'' then rev acc # split_path [] s else split_path (c # acc) s)"

fun clean_parts :: "bool \<Rightarrow> string list \<Rightarrow> string list \<Rightarrow> string list" where
  "clean_parts rooted acc [] = rev acc"
| "clean_parts rooted acc (p # ps) =
     (if p = '''' \<or> p = ''.'' then clean_parts rooted acc ps
      else if p = ''..'' then
        (case acc of
           [] \<Rightarrow> clean_parts rooted (if rooted then [] else [p]) ps
         | q # acc' \<Rightarrow> if q = ''..'' then clean_parts rooted (p # acc) ps else clean_parts rooted acc' ps)
      else clean_parts rooted (p # acc) ps)"

fun join_parts :: "string list \<Rightarrow> string" where
  "join_parts [] = ''''"
| "join_parts [p] = p"
| "join_parts (p # ps) = p @ ''/'' @ join_parts ps"

definition path_Clean :: "string \<Rightarrow> string" where
  "path_Clean s =
     (let rooted = prefix ''/'' s; ps = clean_parts rooted [] (split_path [] s)
      in if rooted then ''/'' @ join_parts ps else if ps = [] then ''.'' else join_parts ps)"

definition path_Join :: "string \<Rightarrow> string \<Rightarrow> string" where
  "path_Join a b = (if a = '''' then (if b = '''' then '''' else path_Clean b) else path_Clean (if b = '''' then a else a @ ''/'' @ b))"

end
