(* ===== verification/Grub.thy ===== *)
theory Grub
  imports GoText
begin

text \<open>
  The GRUB boot loader (internal/app/machined/pkg/runtime/v1alpha1/bootloader/grub): the configuration
  file with its two boot labels A and B, its quoting, the parser that reads it back, and the operations
  that install, upgrade and revert. The name of the program (version.Name), which directories exist on the
  boot partition and whether the calls of the operations succeed are parameters.
\<close>

section \<open>Configuration\<close>

type_synonym BootLabel = string

definition BootA :: BootLabel where "BootA = ''A''"
definition BootB :: BootLabel where "BootB = ''B''"
definition BootReset :: BootLabel where "BootReset = ''Reset''"

record menu_entry =
  EntryName :: string
  Linux :: string
  Cmdline :: string
  Initrd :: string

record grub_config =
  DefaultLabel :: BootLabel
  FallbackLabel :: BootLabel
  Entries :: "(BootLabel, menu_entry) gomap"
  AddResetOption :: bool

datatype grub_error = InvalidEntry BootLabel | InvalidDefault BootLabel | InvalidFallback BootLabel | SameLabels
  | UnknownName string | NoDefault | ManyFallbacks | LinuxMatches nat | InitrdMatches nat | LabelDoesNotExist | GrubIO

definition NewConfig :: grub_config where
  "NewConfig = \<lparr>DefaultLabel = BootA, FallbackLabel = '''', Entries = [], AddResetOption = True\<rparr>"

definition buildMenuEntry :: "string \<Rightarrow> BootLabel \<Rightarrow> string \<Rightarrow> string \<Rightarrow> menu_entry" where
  "buildMenuEntry versionName entry cmdline versionTag =
     \<lparr>EntryName = entry @ '' - '' @ versionName @ '' '' @ versionTag, Linux = ''/'' @ entry @ ''/vmlinuz'', Cmdline = cmdline,
      Initrd = ''/'' @ entry @ ''/initramfs.xz''\<rparr>"

definition Put :: "string \<Rightarrow> BootLabel \<Rightarrow> string \<Rightarrow> string \<Rightarrow> grub_config \<Rightarrow> grub_config" where
  "Put versionName entry cmdline version c = c\<lparr>Entries := gm_set (Entries c) entry (buildMenuEntry versionName entry cmdline version)\<rparr>"

definition validate_config :: "grub_config \<Rightarrow> grub_error option" where
  "validate_config c =
     (if \<not> gm_has (Entries c) (DefaultLabel c) then Some (InvalidDefault (DefaultLabel c))
      else if FallbackLabel c \<noteq> '''' \<and> \<not> gm_has (Entries c) (FallbackLabel c) then Some (InvalidFallback (FallbackLabel c))
      else if DefaultLabel c = FallbackLabel c then Some SameLabels
      else None)"

definition flipBootLabel :: "BootLabel \<Rightarrow> grub_error + BootLabel" where
  "flipBootLabel e = (if e = BootA then Inr BootB else if e = BootB then Inr BootA else Inl (InvalidEntry e))"

definition flip :: "grub_config \<Rightarrow> grub_error + grub_config" where
  "flip c =
     (if \<not> gm_has (Entries c) (DefaultLabel c) then Inr c
      else (case flipBootLabel (DefaultLabel c) of
          Inl e \<Rightarrow> Inl e
        | Inr nxt \<Rightarrow> Inr (c\<lparr>DefaultLabel := nxt, FallbackLabel := DefaultLabel c\<rparr>)))"

definition ParseBootLabel :: "string \<Rightarrow> grub_error + BootLabel" where
  "ParseBootLabel name =
     (if prefix BootA name then Inr BootA
      else if prefix BootB name then Inr BootB
      else if prefix ''Reset'' name then Inr BootReset
      else Inl (UnknownName name))"

section \<open>Quoting\<close>

definition quote_order :: string where
  "quote_order = [CHR 0x5C, CHR ''{'', CHR ''}'', CHR ''&'', CHR ''$'', CHR ''|'', CHR '';'', CHR ''<'', CHR ''>'', CHR 0x22]"

definition unquote_order :: string where
  "unquote_order = [CHR ''{'', CHR ''}'', CHR ''&'', CHR ''$'', CHR ''|'', CHR '';'', CHR ''<'', CHR ''>'', CHR 0x5C, CHR 0x22]"

definition Quote :: "string \<Rightarrow> string" where
  "Quote s = foldl (\<lambda>s c. replace_all [c] [CHR 0x5C, c] s) s quote_order"

definition Unquote :: "string \<Rightarrow> string" where
  "Unquote s = foldl (\<lambda>s c. replace_all [CHR 0x5C, c] [c] s) s unquote_order"

section \<open>Writing\<close>

definition nl :: string where "nl = [CHR 0x0A]"

definition dquote :: string where "dquote = [CHR 0x22]"

definition encode_entry :: "string \<Rightarrow> string \<Rightarrow> string \<Rightarrow> string \<Rightarrow> string" where
  "encode_entry name linux args initrd =
     ''menuentry '' @ dquote @ name @ dquote @ '' {'' @ nl @
     ''  set gfxmode=auto'' @ nl @
     ''  set gfxpayload=text'' @ nl @
     ''  linux '' @ linux @ '' '' @ args @ nl @
     ''  initrd '' @ initrd @ nl @
     ''}'' @ nl"

definition reset_name :: string where
  "reset_name = ''Reset Talos installation and return to maintenance mode''"

definition header_text :: string where
  "header_text = nl @ ''set timeout=3'' @ nl @ nl @ ''insmod all_video'' @ nl @ nl @
     ''terminal_input console'' @ nl @ ''terminal_output console'' @ nl @ nl"

text \<open>\<open>order\<close> is the order in which the entries are visited.\<close>

definition Encode :: "(BootLabel \<times> menu_entry) list \<Rightarrow> grub_config \<Rightarrow> grub_error + string" where
  "Encode order c =
     (case validate_config c of
        Some e \<Rightarrow> Inl e
      | None \<Rightarrow>
          (let dflt = the (gm_get (Entries c) (DefaultLabel c))
           in Inr (''set default='' @ dquote @ EntryName dflt @ dquote @ nl @
                (case gm_get (Entries c) (FallbackLabel c) of
                   None \<Rightarrow> ''''
                 | Some fallback \<Rightarrow> ''set fallback='' @ dquote @ EntryName fallback @ dquote @ nl) @
                header_text @
                concat (map (\<lambda>(l, e). encode_entry (EntryName e) (Linux e) (Quote (Cmdline e)) (Initrd e)) order) @
                (if AddResetOption c
                 then encode_entry reset_name (Linux dflt) (Quote (Cmdline dflt) @ '' talos.experimental.wipe=system:EPHEMERAL,STATE'') (Initrd dflt)
                 else ''''))))"

section \<open>Reading\<close>

definition any_char :: "char \<Rightarrow> bool" where
  "any_char c = True"

definition not_backslash :: "char \<Rightarrow> bool" where
  "not_backslash c \<longleftrightarrow> c \<noteq> CHR 0x5C"

definition label_rx :: "string \<Rightarrow> rx_item list" where
  "label_rx keyword = [RxBOL, RxMany rx_space 0 True False, RxLit (keyword @ dquote), RxMany rx_dot 0 True True, RxLit dquote,
     RxMany rx_space 0 True False, RxEOL]"

definition defaultEntryRegex :: "rx_item list" where "defaultEntryRegex = label_rx ''set default=''"
definition fallbackEntryRegex :: "rx_item list" where "fallbackEntryRegex = label_rx ''set fallback=''"

definition menuEntryRegex :: "rx_item list" where
  "menuEntryRegex = [RxBOL, RxLit ''menuentry'', RxMany rx_space 1 True False, RxLit dquote, RxMany any_char 1 False True,
     RxLit (dquote @ '' {''), RxMany any_char 1 False True, RxOne not_backslash, RxLit ''}'']"

definition linuxRegex :: "rx_item list" where
  "linuxRegex = [RxBOL, RxMany rx_space 0 True False, RxLit ''linux'', RxMany rx_space 1 True False, RxMany rx_dot 1 False True,
     RxMany rx_space 1 True False, RxMany rx_dot 0 True True, RxEOL]"

definition initrdRegex :: "rx_item list" where
  "initrdRegex = [RxBOL, RxMany rx_space 0 True False, RxLit ''initrd'', RxMany rx_space 1 True False, RxMany rx_dot 1 True True, RxEOL]"

definition parseConfBlock :: "string \<Rightarrow> grub_error + string \<times> string \<times> string" where
  "parseConfBlock block =
     (let block = Unquote block; linuxMatches = find_all linuxRegex None block
      in if length linuxMatches \<noteq> 1 then Inl (LinuxMatches (length linuxMatches))
         else let initrdMatches = find_all initrdRegex None block
              in if length initrdMatches \<noteq> 1 then Inl (InitrdMatches (length initrdMatches))
                 else Inr (linuxMatches ! 0 ! 0, linuxMatches ! 0 ! 1, initrdMatches ! 0 ! 0))"

fun entries_loop :: "string list list \<Rightarrow> (BootLabel, menu_entry) gomap \<Rightarrow> bool \<Rightarrow> grub_error + (BootLabel, menu_entry) gomap \<times> bool" where
  "entries_loop [] entries hasResetOption = Inr (entries, hasResetOption)"
| "entries_loop (m # ms) entries hasResetOption =
     (case parseConfBlock (m ! 1) of
        Inl e \<Rightarrow> Inl e
      | Inr (linux, cmdline, initrd) \<Rightarrow>
          (case ParseBootLabel (m ! 0) of
             Inl e \<Rightarrow> Inl e
           | Inr bootEntry \<Rightarrow>
               if bootEntry = BootReset then entries_loop ms entries True
               else entries_loop ms (gm_set entries bootEntry
                      \<lparr>EntryName = m ! 0, Linux = linux, Cmdline = cmdline, Initrd = initrd\<rparr>) hasResetOption))"

definition parseEntries :: "string \<Rightarrow> grub_error + (BootLabel, menu_entry) gomap \<times> bool" where
  "parseEntries conf = entries_loop (find_all menuEntryRegex None conf) [] False"

definition Decode :: "string \<Rightarrow> grub_error + grub_config" where
  "Decode c =
     (let defaults = find_all defaultEntryRegex None c
      in if length defaults \<noteq> 1 then Inl NoDefault
         else let fallbacks = find_all fallbackEntryRegex None c
              in if length fallbacks > 1 then Inl ManyFallbacks
                 else (case (if length fallbacks = 1 then ParseBootLabel (fallbacks ! 0 ! 0) else Inr '''') of
                     Inl e \<Rightarrow> Inl e
                   | Inr fallbackEntry \<Rightarrow>
                       (case ParseBootLabel (defaults ! 0 ! 0) of
                          Inl e \<Rightarrow> Inl e
                        | Inr defaultEntry \<Rightarrow>
                            (case parseEntries c of
                               Inl e \<Rightarrow> Inl e
                             | Inr (entries, hasResetOption) \<Rightarrow>
                                 Inr \<lparr>DefaultLabel = defaultEntry, FallbackLabel = fallbackEntry, Entries = entries,
                                   AddResetOption = hasResetOption\<rparr>))))"

section \<open>Operations\<close>

text \<open>Revert and upgrade change the configuration in memory and write it; the result is the configuration, what
  was written, and the error.\<close>

definition write_config :: "(BootLabel \<times> menu_entry) list \<Rightarrow> bool \<Rightarrow> grub_config \<Rightarrow> string option \<times> grub_error option" where
  "write_config order io_ok c =
     (case Encode order c of
        Inl e \<Rightarrow> (None, Some e)
      | Inr conf \<Rightarrow> if io_ok then (Some conf, None) else (None, Some GrubIO))"

definition revert_config ::
    "(BootLabel \<Rightarrow> bool) \<Rightarrow> (BootLabel \<times> menu_entry) list \<Rightarrow> bool \<Rightarrow> grub_config \<Rightarrow> grub_config \<times> string option \<times> grub_error option" where
  "revert_config exists order io_ok c =
     (case flip c of
        Inl e \<Rightarrow> (c, None, Some e)
      | Inr c \<Rightarrow> if \<not> exists (DefaultLabel c) then (c, None, Some LabelDoesNotExist) else (c, write_config order io_ok c))"

text \<open>generateAssets: \<open>assets\<close> is the command line when kernel and initramfs are copied (of the options or of the UKI).\<close>

definition generateAssets ::
    "string \<Rightarrow> string option \<Rightarrow> string \<Rightarrow> (grub_config \<Rightarrow> (BootLabel \<times> menu_entry) list) \<Rightarrow> bool \<Rightarrow> grub_config \<Rightarrow>
      grub_config \<times> string option \<times> grub_error option" where
  "generateAssets versionName assets version order io_ok c =
     (case assets of
        None \<Rightarrow> (c, None, Some GrubIO)
      | Some cmdline \<Rightarrow>
          (let c = Put versionName (DefaultLabel c) cmdline version c in (c, write_config (order c) io_ok c)))"

definition upgrade_config ::
    "string \<Rightarrow> string option \<Rightarrow> string \<Rightarrow> (grub_config \<Rightarrow> (BootLabel \<times> menu_entry) list) \<Rightarrow> bool \<Rightarrow> grub_config \<Rightarrow>
      grub_config \<times> string option \<times> grub_error option" where
  "upgrade_config versionName assets version order io_ok c =
     (case flip c of
        Inl e \<Rightarrow> (c, None, Some e)
      | Inr c \<Rightarrow> generateAssets versionName assets version order io_ok c)"

section \<open>Quoting and unquoting\<close>

definition quoted :: "char set \<Rightarrow> string \<Rightarrow> string" where
  "quoted T s = concat (map (\<lambda>c. if c \<in> T then [CHR 0x5C, c] else [c]) s)"

lemma quoted_simps [simp]:
  "quoted T [] = []"
  "quoted T (c # s) = (if c \<in> T then [CHR 0x5C, c] else [c]) @ quoted T s"
  "quoted T (s @ t) = quoted T s @ quoted T t"
  by (simp_all add: quoted_def)

lemma quoted_plain: "set s \<inter> T = {} \<Longrightarrow> quoted T s = s"
  by (induction s) auto

lemma quoted_none: "quoted {} s = s"
  by (simp add: quoted_plain)

lemma quoted_lines: "CHR 0x0A \<notin> T \<Longrightarrow> CHR 0x0A \<in> set (quoted T s) \<longleftrightarrow> CHR 0x0A \<in> set s"
  by (induction s) auto

lemma quote_step: "c \<notin> T \<Longrightarrow> c \<noteq> CHR 0x5C \<or> T = {} \<Longrightarrow> replace_all [c] [CHR 0x5C, c] (quoted T s) = quoted (insert c T) s"
  by (induction s) (auto simp: replace_char)

lemma Quote_quoted: "Quote s = quoted (set quote_order) s"
proof -
  have "Quote s = foldl (\<lambda>s c. replace_all [c] [CHR 0x5C, c] s) (quoted {} s) quote_order"
    by (simp add: Quote_def quoted_none)
  also have "\<dots> = quoted (set quote_order) s"
    by (simp add: quote_order_def quote_step insert_commute)
  finally show ?thesis .
qed

lemma quoted_hd: "c \<in> T \<Longrightarrow> c \<noteq> CHR 0x5C \<Longrightarrow> quoted T s = [] \<or> hd (quoted T s) \<noteq> c"
  by (cases s) auto

lemma replace_pair_skip:
  "s = [] \<or> x \<noteq> a \<or> hd s \<noteq> b \<Longrightarrow> replace_all [a, b] new (x # s) = x # replace_all [a, b] new s"
  by (cases s) (auto simp: replace_pair_Cons)

lemma unquote_step:
  assumes "c \<in> T"
  shows "replace_all [CHR 0x5C, c] [c] (quoted T s) = quoted (T - {c}) s"
proof (induction s)
  case (Cons x s)
  have skip: "replace_all [CHR 0x5C, c] [c] (x # quoted T s) = x # replace_all [CHR 0x5C, c] [c] (quoted T s)" if "x \<noteq> c"
    using quoted_hd [OF assms, of s] that by (intro replace_pair_skip) auto
  show ?case using assms skip Cons by (auto simp: replace_pair_Cons)
qed simp

lemma Unquote_quoted: "Unquote (quoted (set quote_order) s) = s"
proof -
  have "Unquote (quoted (set quote_order) s) = quoted {} s"
    unfolding Unquote_def unquote_order_def foldl.simps
    apply (subst unquote_step, simp add: quote_order_def)+
    apply (rule arg_cong [where f = "\<lambda>T. quoted T s"])
    by (auto simp: quote_order_def)
  then show ?thesis by (simp add: quoted_none)
qed

lemma Unquote_Quote: "Unquote (Quote s) = s"
  by (simp add: Quote_quoted Unquote_quoted)

section \<open>Lines\<close>

definition lines :: "string list \<Rightarrow> string" where
  "lines ls = concat (map (\<lambda>l. l @ nl) ls)"

lemma lines_simps [simp]:
  "lines [] = []"
  "lines (l # ls) = l @ nl @ lines ls"
  "lines (ls @ ls') = lines ls @ lines ls'"
  by (simp_all add: lines_def)

text \<open>A line that does not start with the keyword after its white space.\<close>

definition quiet_line :: "string \<Rightarrow> string \<Rightarrow> bool" where
  "quiet_line w l \<longleftrightarrow> CHR 0x0A \<notin> set l \<and> \<not> prefix w (dropWhile rx_space l)"

definition inked :: "string \<Rightarrow> bool" where
  "inked l \<longleftrightarrow> (\<exists>c \<in> set l. \<not> rx_space c)"

definition keyword :: "string \<Rightarrow> bool" where
  "keyword w \<longleftrightarrow> w \<noteq> [] \<and> \<not> rx_space (hd w) \<and> CHR 0x0A \<notin> set w"

lemma prefix_line: "prefix w (l @ CHR 0x0A # s) \<Longrightarrow> CHR 0x0A \<notin> set w \<Longrightarrow> prefix w l"
  by (induction w arbitrary: l) (auto split: list.split simp: prefix_Cons Cons_eq_append_conv, metis append_Cons list.exhaust prefix_code(3) append_Nil)

lemma dropWhile_quiet:
  assumes "keyword w" "quiet_line w l" "\<not> prefix w (dropWhile rx_space s) \<or> inked l"
  shows "\<not> prefix w (dropWhile rx_space (l @ nl @ s))"
proof (cases "\<forall>c \<in> set l. rx_space c")
  case True
  then have "dropWhile rx_space (l @ nl @ s) = dropWhile rx_space s" by (simp add: dropWhile_append nl_def rx_space_def)
  then show ?thesis using assms(3) True by (auto simp: inked_def)
next
  case False
  then have "dropWhile rx_space (l @ nl @ s) = dropWhile rx_space l @ CHR 0x0A # s" by (auto simp: dropWhile_append nl_def)
  then show ?thesis using assms(1,2) prefix_line unfolding keyword_def quiet_line_def by metis
qed

lemma dropWhile_lines:
  "keyword w \<Longrightarrow> \<forall>l \<in> set ls. quiet_line w l \<Longrightarrow> \<not> prefix w (dropWhile rx_space s) \<or> ls \<noteq> [] \<and> inked (last ls) \<Longrightarrow>
    \<not> prefix w (dropWhile rx_space (lines ls @ s))"
proof (induction ls)
  case (Cons l ls)
  show ?case using dropWhile_quiet [of w l "lines ls @ s"] Cons.prems Cons.IH by (cases "ls = []") auto
qed simp

lemma find_all_quiet_line:
  assumes "keyword w" "quiet_line w l" "\<not> prefix w (dropWhile rx_space s) \<or> inked l"
  shows "find_all (keyword_rx w items) prev (l @ nl @ s) = find_all (keyword_rx w items) (Some CHR 0x0A) s"
proof -
  have none: "rx_match (keyword_rx w items) prev (l @ nl @ s) = None"
    using assms dropWhile_quiet [OF assms] by (intro keyword_needs) (auto simp: keyword_def)
  show ?thesis
  proof (cases "l = []")
    case True
    then show ?thesis using none by (simp add: nl_def find_all_miss)
  next
    case False
    have "find_all (keyword_rx w items) prev (l @ nl @ s) = find_all (keyword_rx w items) (Some (last l)) (nl @ s)"
      using none False assms(2) by (intro find_all_line) (auto simp: quiet_line_def)
    also have "\<dots> = find_all (keyword_rx w items) (Some CHR 0x0A) s"
    proof -
      have "last l \<noteq> CHR 0x0A" using assms(2) last_in_set [OF False] by (metis quiet_line_def)
      then show ?thesis unfolding nl_def append_Cons append_Nil by (intro find_all_newline) (simp add: line_start_def)
    qed
    finally show ?thesis .
  qed
qed

lemma find_all_quiet:
  assumes "keyword w" "\<forall>l \<in> set ls. quiet_line w l" "ls \<noteq> []" "\<not> prefix w (dropWhile rx_space s) \<or> inked (last ls)"
  shows "find_all (keyword_rx w items) prev (lines ls @ s) = find_all (keyword_rx w items) (Some CHR 0x0A) s"
  using assms
proof (induction ls arbitrary: prev)
  case (Cons l ls)
  have step: "find_all (keyword_rx w items) prev (l @ nl @ lines ls @ s) = find_all (keyword_rx w items) (Some CHR 0x0A) (lines ls @ s)"
    using Cons.prems dropWhile_lines [of w ls s] by (intro find_all_quiet_line) (auto split: if_splits)
  show ?case
  proof (cases "ls = []")
    case True
    then show ?thesis using step by simp
  next
    case False
    then show ?thesis using step Cons.IH [of "Some CHR 0x0A"] Cons.prems by simp
  qed
qed simp

lemma find_all_silent:
  assumes "keyword w" "\<forall>l \<in> set ls. quiet_line w l"
  shows "find_all (keyword_rx w items) prev (lines ls) = []"
proof -
  have w: "w \<noteq> []" "\<not> rx_space (hd w)" using assms by (auto simp: keyword_def)
  then have nil: "find_all (keyword_rx w items) p [] = []" for p
    by (intro find_all_Nil keyword_needs) auto
  show ?thesis
  proof (cases "ls = []")
    case False
    then show ?thesis using find_all_quiet [OF assms, of "[]" items prev] w nil by simp
  qed (simp add: nil)
qed

section \<open>The default and the fallback\<close>

lemma label_match:
  assumes "keyword w" "CHR 0x0A \<notin> set name" "line_start prev" "s \<noteq> []" "\<not> rx_space (hd s)"
  shows "\<exists>prev'. rx_match (label_rx w) prev (w @ dquote @ name @ dquote @ nl @ s) = Some ([name], prev', nl @ s)"
    and "\<exists>prev'. rx_match (label_rx w) prev (w @ dquote @ name @ dquote @ nl @ nl @ s) = Some ([name], prev', nl @ s)"
proof -
  have key: "rx_match (label_rx w) prev (w @ dquote @ t) =
      rx_match [RxMany rx_dot 0 True True, RxLit dquote, RxMany rx_space 0 True False, RxEOL] (after_char prev (w @ dquote)) t" for t
    using keyword_found [of "w @ dquote" prev "[]" _ t] assms by (simp add: label_rx_def keyword_def hd_append)
  have name: "rx_match [RxMany rx_dot 0 True True, RxLit dquote, RxMany rx_space 0 True False, RxEOL] p (name @ dquote @ CHR 0x0A # t) = Some ([name], r)"
    if "rx_match [RxMany rx_space 0 True False, RxEOL] (Some CHR 0x22) (CHR 0x0A # t) = Some ([], r)" for p t r
  proof -
    have "takeWhile rx_dot ((name @ dquote) @ CHR 0x0A # t) = name @ dquote"
      by (rule takeWhile_word) (use assms in \<open>auto simp: rx_dot_def dquote_def\<close>)
    then have tw: "takeWhile rx_dot (name @ dquote @ CHR 0x0A # t) = name @ dquote" by simp
    have "rx_match [RxMany rx_dot 0 True True, RxLit dquote, RxMany rx_space 0 True False, RxEOL] p (name @ dquote @ CHR 0x0A # t) =
        Some (if True then take (length name) (name @ dquote @ CHR 0x0A # t) # [] else [], r)"
      by (rule many_greedy) (use tw that in \<open>auto simp: dquote_def after_char_def le_Suc_eq\<close>)
    then show ?thesis by simp
  qed
  show "\<exists>prev'. rx_match (label_rx w) prev (w @ dquote @ name @ dquote @ nl @ s) = Some ([name], prev', nl @ s)"
    using name [OF line_end(1)] assms unfolding key by (auto simp: nl_def)
  show "\<exists>prev'. rx_match (label_rx w) prev (w @ dquote @ name @ dquote @ nl @ nl @ s) = Some ([name], prev', nl @ s)"
    using name [OF line_end(2)] assms unfolding key by (auto simp: nl_def)
qed

declare rx_match.simps [simp del]

section \<open>The lines of an entry\<close>

definition entry_lines :: "string \<Rightarrow> string \<Rightarrow> string list" where
  "entry_lines linux args = [[], ''  set gfxmode=auto'', ''  set gfxpayload=text'', ''  linux '' @ linux @ '' '' @ args]"

definition entry_block :: "string \<Rightarrow> string \<Rightarrow> string \<Rightarrow> string" where
  "entry_block linux args initrd = lines (entry_lines linux args) @ ''  initrd '' @ initrd"

lemma encode_entry_block:
  "encode_entry name linux args initrd = ''menuentry '' @ dquote @ name @ dquote @ '' {'' @ entry_block linux args initrd @ nl @ ''}'' @ nl"
  by (simp add: encode_entry_def entry_block_def entry_lines_def nl_def)

text \<open>What the files and the command line of an entry have to be to come back.\<close>

definition path_ok :: "string \<Rightarrow> bool" where
  "path_ok p \<longleftrightarrow> p \<noteq> [] \<and> (\<forall>c \<in> set p. \<not> rx_space c \<and> c \<notin> set quote_order)"

definition cmdline_ok :: "string \<Rightarrow> bool" where
  "cmdline_ok s \<longleftrightarrow> s \<noteq> [] \<and> \<not> rx_space (hd s) \<and> CHR 0x0A \<notin> set s"

lemma path_ok_space: "path_ok p \<Longrightarrow> rx_space c \<Longrightarrow> c \<notin> set p"
  by (auto simp: path_ok_def)

lemma path_ok_hd: "path_ok p \<Longrightarrow> p \<noteq> [] \<and> \<not> rx_space (hd p)"
  by (simp add: path_ok_def)

lemma path_ok_newline: "path_ok p \<Longrightarrow> CHR 0x0A \<notin> set p"
  by (auto simp: path_ok_def rx_space_def)

lemma path_ok_dot: "path_ok p \<Longrightarrow> \<forall>c \<in> set p. rx_dot c"
  using path_ok_newline by (auto simp: rx_dot_def)

lemma linux_line:
  assumes "path_ok linux" "cmdline_ok args" "line_start prev" "s = [] \<or> hd s = CHR 0x0A"
  shows "rx_match linuxRegex prev (''  linux '' @ linux @ '' '' @ args @ s) = Some ([linux, args], Some (last args), s)"
proof -
  let ?rest = "linux @ '' '' @ args @ s"
  have args: "args \<noteq> []" "\<not> rx_space (hd args)" "CHR 0x0A \<notin> set args" using assms(2) by (auto simp: cmdline_ok_def)
  have after_linux: "rx_match [RxMany rx_space 1 True False, RxMany rx_dot 0 True True, RxEOL] p ('' '' @ args @ s) = Some ([args], Some (last args), s)" for p
    by (rule spaces_then) (use args assms(4) line_rest [of args s 0] in \<open>auto simp: rx_space_def\<close>)
  have miss: "rx_match [RxMany rx_space 1 True False, RxMany rx_dot 0 True True, RxEOL] p (drop n ?rest) = None" if "n < length linux" for p n
  proof (rule spaces_missing)
    have "drop n ?rest = drop n linux @ '' '' @ args @ s" using that by simp
    moreover have "hd (drop n linux) \<in> set linux" using that by (metis hd_drop_conv_nth nth_mem)
    ultimately show "drop n ?rest = [] \<or> \<not> rx_space (hd (drop n ?rest))"
      using that path_ok_space [OF assms(1)] by (auto simp: hd_append)
  qed
  have len: "length linux \<le> length (takeWhile rx_dot ?rest)"
    using path_ok_dot [OF assms(1)] by (simp add: takeWhile_append)
  have "rx_match [RxMany rx_dot 1 False True, RxMany rx_space 1 True False, RxMany rx_dot 0 True True, RxEOL] p ?rest =
      Some (if True then take (length linux) ?rest # [args] else [args], Some (last args), s)" for p
    by (rule many_lazy) (use path_ok_hd [OF assms(1)] len miss after_linux in \<open>auto simp: Suc_le_eq\<close>)
  then have "rx_match [RxMany rx_dot 1 False True, RxMany rx_space 1 True False, RxMany rx_dot 0 True True, RxEOL] p ?rest = Some ([linux, args], Some (last args), s)" for p
    by simp
  then have "rx_match [RxMany rx_space 1 True False, RxMany rx_dot 1 False True, RxMany rx_space 1 True False, RxMany rx_dot 0 True True, RxEOL] p ('' '' @ ?rest) =
      Some ([linux, args], Some (last args), s)" for p
    by (intro spaces_then) (use path_ok_hd [OF assms(1)] in \<open>auto simp: rx_space_def\<close>)
  then show ?thesis
    using keyword_found [of "''linux''" prev "''  ''" _ "'' '' @ ?rest"] assms(3)
    unfolding linuxRegex_def by (simp add: rx_space_def)
qed

lemma initrd_line:
  assumes "path_ok initrd" "line_start prev"
  shows "rx_match initrdRegex prev (''  initrd '' @ initrd) = Some ([initrd], Some (last initrd), [])"
proof -
  have "rx_match [RxMany rx_space 1 True False, RxMany rx_dot 1 True True, RxEOL] p ('' '' @ initrd) = Some ([initrd], Some (last initrd), [])" for p
    by (rule spaces_then)
      (use path_ok_hd [OF assms(1)] path_ok_newline [OF assms(1)] line_rest [of initrd "[]" 1] in \<open>auto simp: rx_space_def Suc_le_eq\<close>)
  then show ?thesis
    using keyword_found [of "''initrd''" prev "''  ''" _ "'' '' @ initrd"] assms(2)
    unfolding initrdRegex_def by (simp add: rx_space_def)
qed

lemma keyword_words: "keyword ''linux''" "keyword ''initrd''" "keyword ''set default=''" "keyword ''set fallback=''"
  by (simp_all add: keyword_def rx_space_def)

lemma entry_quiet:
  assumes "path_ok linux" "CHR 0x0A \<notin> set args"
  shows "\<forall>l \<in> set (entry_lines linux args). quiet_line ''initrd'' l"
    and "\<forall>l \<in> set (butlast (entry_lines linux args)). quiet_line ''linux'' l"
  using assms(2) path_ok_newline [OF assms(1)] by (auto simp: entry_lines_def quiet_line_def rx_space_def)

lemma lines_butlast: "ls \<noteq> [] \<Longrightarrow> lines ls = lines (butlast ls) @ last ls @ nl"
  by (induction ls) auto

lemma linux_matches:
  assumes "path_ok linux" "cmdline_ok args" "path_ok initrd"
  shows "find_all linuxRegex None (entry_block linux args initrd) = [[linux, args]]"
proof -
  let ?line = "''  linux '' @ linux @ '' '' @ args" and ?rest = "''  initrd '' @ initrd"
  have args: "CHR 0x0A \<notin> set args" "args \<noteq> []" using assms(2) by (auto simp: cmdline_ok_def)
  have rx: "linuxRegex = keyword_rx ''linux'' [RxMany rx_space 1 True False, RxMany rx_dot 1 False True, RxMany rx_space 1 True False, RxMany rx_dot 0 True True, RxEOL]"
    by (simp add: linuxRegex_def)
  have before: "find_all linuxRegex None (lines (butlast (entry_lines linux args)) @ ?line @ nl @ ?rest) =
      find_all linuxRegex (Some CHR 0x0A) (?line @ nl @ ?rest)"
    unfolding rx by (rule find_all_quiet) (use keyword_words entry_quiet(2) [OF assms(1) args(1)] in \<open>auto simp: entry_lines_def inked_def rx_space_def\<close>)
  have hit: "find_all linuxRegex (Some CHR 0x0A) (?line @ nl @ ?rest) = [linux, args] # find_all linuxRegex (Some (last args)) (nl @ ?rest)"
    using linux_line [OF assms(1,2), of "Some CHR 0x0A" "nl @ ?rest"] by (intro find_all_hit) (auto simp: line_start_def nl_def)
  have last: "last args \<noteq> CHR 0x0A" using args by (metis last_in_set)
  have none: "rx_match linuxRegex (Some CHR 0x0A) ?rest = None"
    unfolding rx by (rule keyword_needs) (auto simp: rx_space_def)
  have "find_all linuxRegex (Some (last args)) (nl @ ?rest) = find_all linuxRegex (Some CHR 0x0A) (?rest @ [])"
    using last unfolding rx nl_def append_Cons append_Nil append_Nil2 by (intro find_all_newline) (simp add: line_start_def)
  also have "\<dots> = find_all linuxRegex (Some (last ?rest)) []"
    using none path_ok_newline [OF assms(3)] unfolding rx by (intro find_all_line) auto
  also have "\<dots> = []" unfolding rx by (intro find_all_Nil keyword_needs) (auto simp: rx_space_def)
  finally show ?thesis using before hit lines_butlast [of "entry_lines linux args"] by (simp add: entry_block_def entry_lines_def)
qed

lemma initrd_matches:
  assumes "path_ok linux" "cmdline_ok args" "path_ok initrd"
  shows "find_all initrdRegex None (entry_block linux args initrd) = [[initrd]]"
proof -
  let ?rest = "''  initrd '' @ initrd"
  have args: "CHR 0x0A \<notin> set args" using assms(2) by (simp add: cmdline_ok_def)
  have rx: "initrdRegex = keyword_rx ''initrd'' [RxMany rx_space 1 True False, RxMany rx_dot 1 True True, RxEOL]"
    by (simp add: initrdRegex_def)
  have "find_all initrdRegex None (entry_block linux args initrd) = find_all initrdRegex (Some CHR 0x0A) ?rest"
    unfolding rx entry_block_def
    by (rule find_all_quiet) (use keyword_words entry_quiet(1) [OF assms(1) args] in \<open>auto simp: entry_lines_def inked_def rx_space_def\<close>)
  also have "\<dots> = [initrd] # find_all initrdRegex (Some (last initrd)) []"
    using initrd_line [OF assms(3), of "Some CHR 0x0A"] by (intro find_all_hit) (auto simp: line_start_def)
  also have "find_all initrdRegex (Some (last initrd)) [] = []"
    unfolding rx by (intro find_all_Nil keyword_needs) (auto simp: rx_space_def)
  finally show ?thesis .
qed

lemma Unquote_block:
  assumes "path_ok linux" "path_ok initrd"
  shows "Unquote (entry_block linux (Quote args) initrd) = entry_block linux args initrd"
proof -
  have "quoted (set quote_order) (entry_block linux args initrd) = entry_block linux (Quote args) initrd"
    using quoted_plain [of linux "set quote_order"] quoted_plain [of initrd "set quote_order"] assms
    by (auto simp: entry_block_def entry_lines_def nl_def Quote_quoted path_ok_def disjoint_iff quote_order_def)
  then show ?thesis by (metis Unquote_quoted)
qed

lemma parseConfBlock_entry:
  assumes "path_ok linux" "cmdline_ok args" "path_ok initrd"
  shows "parseConfBlock (entry_block linux (Quote args) initrd) = Inr (linux, args, initrd)"
  using assms by (simp add: parseConfBlock_def Unquote_block linux_matches initrd_matches)

section \<open>The entries of a file\<close>

text \<open>Every closing brace follows a backslash.\<close>

fun braces_quoted :: "char \<Rightarrow> string \<Rightarrow> bool" where
  "braces_quoted p [] = True"
| "braces_quoted p (c # s) = ((c = CHR ''}'' \<longrightarrow> p = CHR 0x5C) \<and> braces_quoted c s)"

lemma braces_quoted_append: "braces_quoted p (s @ t) \<longleftrightarrow> braces_quoted p s \<and> braces_quoted (last (p # s)) t"
  by (induction s arbitrary: p) auto

lemma braces_quoted_none: "CHR ''}'' \<notin> set s \<Longrightarrow> braces_quoted p s"
  by (induction s arbitrary: p) auto

lemma braces_quoted_quoted: "CHR ''}'' \<in> T \<Longrightarrow> braces_quoted p (quoted T s)"
  by (induction s arbitrary: p) auto

lemma braces_quoted_nth: "braces_quoted p s \<Longrightarrow> Suc n < length s \<Longrightarrow> s ! Suc n = CHR ''}'' \<Longrightarrow> s ! n = CHR 0x5C"
proof (induction s arbitrary: p n)
  case (Cons c s)
  then show ?case by (cases n; cases s) auto
qed simp

lemma block_braces:
  assumes "path_ok linux" "path_ok initrd"
  shows "braces_quoted CHR ''{'' (entry_block linux (Quote args) initrd @ nl)"
proof -
  have "CHR ''}'' \<notin> set linux" "CHR ''}'' \<notin> set initrd" using assms by (auto simp: path_ok_def quote_order_def)
  moreover have "CHR ''}'' \<in> set quote_order" by (simp add: quote_order_def)
  ultimately show ?thesis
    by (simp add: entry_block_def entry_lines_def nl_def Quote_quoted braces_quoted_append braces_quoted_none braces_quoted_quoted)
qed

definition name_ok :: "string \<Rightarrow> bool" where
  "name_ok name \<longleftrightarrow> name \<noteq> [] \<and> CHR 0x22 \<notin> set name \<and> CHR 0x0A \<notin> set name"

lemma takeWhile_any: "takeWhile any_char s = s"
  by (simp add: any_char_def)

lemma block_match:
  assumes "braces_quoted p (w @ nl)" "w \<noteq> []"
  shows "rx_match [RxMany any_char 1 False True, RxOne not_backslash, RxLit ''}''] prev (w @ nl @ ''}'' @ s) = Some ([w], Some CHR ''}'', s)"
proof -
  let ?conf = "w @ nl @ ''}'' @ s"
  have miss: "rx_match [RxOne not_backslash, RxLit ''}''] q (drop n ?conf) = None" if n: "n < length w" for q n
  proof -
    have eq: "drop n ?conf = (w @ nl) ! n # (w @ nl) ! Suc n # drop (Suc (Suc n)) ?conf"
    proof -
      have "drop n ?conf = drop n (w @ nl) @ ''}'' @ s" using n by simp
      moreover have "drop n (w @ nl) = (w @ nl) ! n # (w @ nl) ! Suc n # drop (Suc (Suc n)) (w @ nl)"
        using n by (simp add: Cons_nth_drop_Suc nl_def del: drop_append)
      moreover have "drop (Suc (Suc n)) ?conf = drop (Suc (Suc n)) (w @ nl) @ ''}'' @ s"
        using n by (simp add: nl_def drop_Cons')
      ultimately show ?thesis by (simp del: drop_append)
    qed
    have "(w @ nl) ! Suc n = CHR ''}'' \<Longrightarrow> (w @ nl) ! n = CHR 0x5C"
      using braces_quoted_nth [OF assms(1)] n by (simp add: nl_def)
    then show ?thesis unfolding eq by (auto simp: rx_match.simps not_backslash_def)
  qed
  have "rx_match [RxMany any_char 1 False True, RxOne not_backslash, RxLit ''}''] prev ?conf =
      Some (if True then take (length w) ?conf # [] else [], Some CHR ''}'', s)"
    by (rule many_lazy)
      (use assms(2) miss in \<open>auto simp: takeWhile_any Suc_le_eq rx_match.simps not_backslash_def nl_def after_char_def\<close>)
  then show ?thesis by simp
qed

lemma entry_match:
  assumes "name_ok name" "path_ok linux" "path_ok initrd" "line_start prev"
  shows "rx_match menuEntryRegex prev (encode_entry name linux (Quote args) initrd @ s) =
    Some ([name, entry_block linux (Quote args) initrd], Some CHR ''}'', nl @ s)"
proof -
  let ?block = "entry_block linux (Quote args) initrd"
  let ?items = "[RxLit (dquote @ '' {''), RxMany any_char 1 False True, RxOne not_backslash, RxLit ''}'']"
  let ?rest = "name @ dquote @ '' {'' @ ?block @ nl @ ''}'' @ nl @ s"
  have block: "rx_match ?items p (dquote @ '' {'' @ ?block @ nl @ ''}'' @ nl @ s) = Some ([?block], Some CHR ''}'', nl @ s)" for p
    using block_match [OF block_braces [OF assms(2,3)], where s = "nl @ s"]
    by (simp add: rx_match.simps(2) entry_block_def entry_lines_def dquote_def nl_def)
  have miss: "rx_match ?items p (drop n ?rest) = None" if "n < length name" for p n
  proof -
    have "hd (drop n ?rest) = name ! n" using that by (simp add: hd_append hd_drop_conv_nth)
    moreover have "name ! n \<noteq> CHR 0x22" using assms(1) that by (metis name_ok_def nth_mem)
    ultimately have "\<not> prefix (dquote @ '' {'') (drop n ?rest)" by (auto simp: prefix_def dquote_def)
    then show ?thesis by (simp add: rx_match.simps(2))
  qed
  have name: "rx_match (RxMany any_char 1 False True # ?items) p ?rest =
      Some (if True then take (length name) ?rest # [?block] else [?block], Some CHR ''}'', nl @ s)" for p
    by (rule many_lazy) (use assms(1) miss block in \<open>auto simp: takeWhile_any Suc_le_eq name_ok_def\<close>)
  have "rx_match (RxLit dquote # RxMany any_char 1 False True # ?items) p (dquote @ ?rest) = Some ([name, ?block], Some CHR ''}'', nl @ s)" for p
    using name by (simp add: rx_match.simps(2))
  then have "rx_match (RxMany rx_space 1 True False # RxLit dquote # RxMany any_char 1 False True # ?items) p ('' '' @ dquote @ ?rest) =
      Some ([name, ?block], Some CHR ''}'', nl @ s)" for p
    by (intro spaces_then) (auto simp: rx_space_def dquote_def)
  then show ?thesis using assms(4) by (simp add: menuEntryRegex_def encode_entry_block rx_match.simps(2,5))
qed

definition entry_ok :: "menu_entry \<Rightarrow> bool" where
  "entry_ok e \<longleftrightarrow> name_ok (EntryName e) \<and> path_ok (Linux e) \<and> cmdline_ok (Cmdline e) \<and> path_ok (Initrd e)"

definition encoded :: "menu_entry \<Rightarrow> string" where
  "encoded e = encode_entry (EntryName e) (Linux e) (Quote (Cmdline e)) (Initrd e)"

definition encoded_block :: "menu_entry \<Rightarrow> string" where
  "encoded_block e = entry_block (Linux e) (Quote (Cmdline e)) (Initrd e)"

definition encoded_lines :: "menu_entry \<Rightarrow> string list" where
  "encoded_lines e = (''menuentry '' @ dquote @ EntryName e @ dquote @ '' {'') # tl (entry_lines (Linux e) (Quote (Cmdline e))) @
     [''  initrd '' @ Initrd e, ''}'']"

lemma encoded_lines: "encoded e = lines (encoded_lines e)"
  by (simp add: encoded_def encoded_lines_def encode_entry_def entry_lines_def)

lemma encoded_all: "concat (map encoded es) = lines (concat (map encoded_lines es))"
  by (induction es) (auto simp: encoded_lines)

lemma encoded_quiet:
  assumes "entry_ok e" "w = ''set default='' \<or> w = ''set fallback=''" "l \<in> set (encoded_lines e)"
  shows "quiet_line (w @ dquote) l"
proof -
  have nl: "CHR 0x0A \<notin> set (EntryName e)" "CHR 0x0A \<notin> set (Linux e)" "CHR 0x0A \<notin> set (Initrd e)" "CHR 0x0A \<notin> set (Quote (Cmdline e))"
    using assms(1) path_ok_newline by (auto simp: entry_ok_def name_ok_def cmdline_ok_def Quote_quoted quoted_lines quote_order_def)
  show ?thesis using assms(2,3) nl
    by (auto simp: encoded_lines_def entry_lines_def quiet_line_def dquote_def rx_space_def)
qed

definition header_lines :: "string list" where
  "header_lines = [''set timeout=3'', [], ''insmod all_video'', [], ''terminal_input console'', ''terminal_output console'', []]"

lemma header_lines: "header_text = nl @ lines header_lines"
  by (simp add: header_text_def header_lines_def)

lemma header_quiet: "w = ''set default='' \<or> w = ''set fallback='' \<Longrightarrow> l \<in> set header_lines \<Longrightarrow> quiet_line (w @ dquote) l"
  by (auto simp: header_lines_def quiet_line_def dquote_def rx_space_def)

text \<open>Lines before the entries.\<close>

lemma find_all_literal:
  assumes "w \<noteq> []" "CHR 0x0A \<notin> set w" "\<forall>l \<in> set ls. CHR 0x0A \<notin> set l \<and> \<not> prefix w l" "ls \<noteq> []"
  shows "find_all (RxBOL # RxLit w # items) prev (lines ls @ s) = find_all (RxBOL # RxLit w # items) (Some CHR 0x0A) s"
  using assms(3,4)
proof (induction ls arbitrary: prev)
  case (Cons l ls)
  let ?items = "RxBOL # RxLit w # items"
  have l: "CHR 0x0A \<notin> set l" using Cons.prems by simp
  have "\<not> prefix w l" using Cons.prems by simp
  then have "\<not> prefix w (l @ CHR 0x0A # lines ls @ s)" using prefix_line [OF _ assms(2)] by blast
  then have none: "rx_match ?items prev (l @ nl @ lines ls @ s) = None" by (simp add: rx_match.simps(2,5) nl_def)
  have step: "find_all ?items prev (l @ nl @ lines ls @ s) = find_all ?items (Some CHR 0x0A) (lines ls @ s)"
  proof (cases "l = []")
    case True
    then show ?thesis using none by (simp add: nl_def find_all_miss)
  next
    case False
    have "last l \<noteq> CHR 0x0A" using l False by (metis last_in_set)
    then have "find_all ?items (Some (last l)) (nl @ lines ls @ s) = find_all ?items (Some CHR 0x0A) (lines ls @ s)"
      unfolding nl_def append_Cons append_Nil by (intro find_all_newline) (simp add: line_start_def)
    then show ?thesis using find_all_line [OF none False l] by (rule trans [rotated])
  qed
  show ?case
  proof (cases "ls = []")
    case False
    then show ?thesis using step Cons.IH [of "Some CHR 0x0A"] Cons.prems by simp
  qed (use step in simp)
qed simp

lemma entry_matches:
  assumes "\<forall>e \<in> set es. entry_ok e"
  shows "find_all menuEntryRegex (Some CHR 0x0A) (concat (map encoded es)) = map (\<lambda>e. [EntryName e, encoded_block e]) es"
  using assms
proof (induction es)
  case Nil
  show ?case by (simp, rule find_all_Nil) (simp add: menuEntryRegex_def rx_match.simps)
next
  case (Cons e es)
  let ?rest = "concat (map encoded es)"
  have "rx_match menuEntryRegex (Some CHR 0x0A) (encoded e @ ?rest) = Some ([EntryName e, encoded_block e], Some CHR ''}'', nl @ ?rest)"
    using Cons.prems unfolding encoded_def encoded_block_def
    by (intro entry_match) (auto simp: entry_ok_def line_start_def)
  moreover have "length (nl @ ?rest) < length (encoded e @ ?rest)" by (simp add: encoded_def encode_entry_def nl_def)
  ultimately have "find_all menuEntryRegex (Some CHR 0x0A) (encoded e @ ?rest) =
      [EntryName e, encoded_block e] # find_all menuEntryRegex (Some CHR ''}'') (nl @ ?rest)"
    by (rule find_all_hit)
  also have "find_all menuEntryRegex (Some CHR ''}'') (nl @ ?rest) = find_all menuEntryRegex (Some CHR 0x0A) ?rest"
    unfolding menuEntryRegex_def nl_def append_Cons append_Nil by (rule find_all_newline) (simp add: line_start_def)
  finally show ?case using Cons by simp
qed

section \<open>Reading back what was written\<close>

definition label_line :: "string \<Rightarrow> menu_entry \<Rightarrow> string" where
  "label_line w e = w @ dquote @ EntryName e @ dquote"

definition wipe_entry :: "menu_entry \<Rightarrow> menu_entry" where
  "wipe_entry e = e\<lparr>EntryName := reset_name, Cmdline := Cmdline e @ '' talos.experimental.wipe=system:EPHEMERAL,STATE''\<rparr>"

definition written_entries :: "(BootLabel \<times> menu_entry) list \<Rightarrow> bool \<Rightarrow> menu_entry \<Rightarrow> menu_entry list" where
  "written_entries order reset dflt = map snd order @ (if reset then [wipe_entry dflt] else [])"

definition file_lines :: "menu_entry option \<Rightarrow> menu_entry list \<Rightarrow> string list" where
  "file_lines fallback es =
     (case fallback of None \<Rightarrow> [] | Some f \<Rightarrow> [label_line ''set fallback='' f]) @ [] # header_lines @ concat (map encoded_lines es)"

lemma wipe_entry_ok: "entry_ok e \<Longrightarrow> entry_ok (wipe_entry e)"
  by (auto simp: entry_ok_def wipe_entry_def name_ok_def reset_name_def cmdline_ok_def hd_append)

lemma encoded_wipe:
  "encoded (wipe_entry e) = encode_entry reset_name (Linux e) (Quote (Cmdline e) @ '' talos.experimental.wipe=system:EPHEMERAL,STATE'') (Initrd e)"
  by (simp add: encoded_def wipe_entry_def Quote_quoted quoted_plain quote_order_def)

lemma Encode_lines:
  assumes "validate_config c = None" "gm_get (Entries c) (DefaultLabel c) = Some dflt"
  shows "Encode order c = Inr (lines (label_line ''set default='' dflt #
    file_lines (gm_get (Entries c) (FallbackLabel c)) (written_entries order (AddResetOption c) dflt)))"
proof -
  have entries: "concat (map (\<lambda>(l, e). encode_entry (EntryName e) (Linux e) (Quote (Cmdline e)) (Initrd e)) order) =
      lines (concat (map encoded_lines (map snd order)))"
    unfolding encoded_all [symmetric] by (induction order) (auto simp: encoded_def)
  show ?thesis
    using assms(2) unfolding Encode_def assms(1) entries encoded_wipe [symmetric]
    by (simp add: file_lines_def label_line_def header_lines written_entries_def encoded_lines split: option.split)
qed

lemma label_quiet:
  assumes "entry_ok e" "w = ''set default='' \<and> v = ''set fallback='' \<or> w = ''set fallback='' \<and> v = ''set default=''"
  shows "quiet_line (w @ dquote) (label_line v e)"
  using assms by (auto simp: quiet_line_def label_line_def dquote_def entry_ok_def name_ok_def rx_space_def)

lemma label_rx_keyword: "label_rx w = keyword_rx (w @ dquote) [RxMany rx_dot 0 True True, RxLit dquote, RxMany rx_space 0 True False, RxEOL]"
  by (simp add: label_rx_def)

lemma label_keyword: "keyword w \<Longrightarrow> keyword (w @ dquote)"
  by (simp add: keyword_def dquote_def)

lemma entries_quiet:
  assumes "\<forall>e \<in> set es. entry_ok e" "w = ''set default='' \<or> w = ''set fallback=''" "l \<in> set (header_lines @ concat (map encoded_lines es))"
  shows "quiet_line (w @ dquote) l"
proof -
  from assms(3) consider "l \<in> set header_lines" | e where "e \<in> set es" "l \<in> set (encoded_lines e)" by auto
  then show ?thesis using assms(1,2) header_quiet encoded_quiet by cases blast+
qed

lemma label_found:
  assumes "keyword w" "entry_ok e" "line_start prev" "\<forall>l \<in> set ls. quiet_line (w @ dquote) l" "s \<noteq> []" "\<not> rx_space (hd s)"
    "lines ls = s \<or> lines ls = nl @ s"
  shows "find_all (label_rx w) prev (label_line w e @ nl @ lines ls) = [[EntryName e]]"
proof -
  have name: "CHR 0x0A \<notin> set (EntryName e)" using assms(2) by (simp add: entry_ok_def name_ok_def)
  obtain prev' where m: "rx_match (label_rx w) prev (label_line w e @ nl @ lines ls) = Some ([EntryName e], prev', nl @ s)"
    using label_match [OF assms(1) name assms(3,5,6)] assms(7) unfolding label_line_def by fastforce
  have silent: "find_all (label_rx w) prev' (nl @ s) = []"
  proof -
    have key: "keyword (w @ dquote)" using assms(1) by (rule label_keyword)
    have q: "quiet_line (w @ dquote) []" by (simp add: quiet_line_def dquote_def)
    show ?thesis
      using assms(7) find_all_silent [OF key, of "[] # ls"] find_all_silent [OF key assms(4)] assms(4) q
      unfolding label_rx_keyword by auto
  qed
  have "length (nl @ s) < length (label_line w e @ nl @ lines ls)" using assms(7) by (auto simp: label_line_def dquote_def nl_def)
  from find_all_hit [OF m this] show ?thesis unfolding silent .
qed

text \<open>The default, the fallback and the entries that are found in a written file.\<close>

lemma after_default:
  assumes "\<forall>e \<in> set es. entry_ok e" "\<forall>f. fallback = Some f \<longrightarrow> entry_ok f"
  shows "\<forall>l \<in> set (file_lines fallback es). quiet_line (''set default='' @ dquote) l"
proof
  fix l assume "l \<in> set (file_lines fallback es)"
  then consider f where "fallback = Some f" "l = label_line ''set fallback='' f" | "l = []"
    | "l \<in> set (header_lines @ concat (map encoded_lines es))"
    by (auto simp: file_lines_def split: option.splits)
  then show "quiet_line (''set default='' @ dquote) l"
  proof cases
    case 1
    then show ?thesis using assms(2) label_quiet by blast
  next
    case 2
    then show ?thesis by (simp add: quiet_line_def dquote_def)
  next
    case 3
    then show ?thesis using entries_quiet [OF assms(1)] by blast
  qed
qed

lemma default_found:
  assumes "\<forall>e \<in> set es. entry_ok e" "\<forall>f. fallback = Some f \<longrightarrow> entry_ok f" "entry_ok dflt"
  shows "find_all defaultEntryRegex None (lines (label_line ''set default='' dflt # file_lines fallback es)) = [[EntryName dflt]]"
proof (cases fallback)
  case None
  show ?thesis
    unfolding defaultEntryRegex_def lines_simps
    by (rule label_found [OF keyword_words(3) assms(3) _ after_default [OF assms(1,2)],
          where s = "lines (header_lines @ concat (map encoded_lines es))"])
      (simp_all add: None file_lines_def header_lines_def line_start_def rx_space_def)
next
  case (Some f)
  show ?thesis
    unfolding defaultEntryRegex_def lines_simps
    by (rule label_found [OF keyword_words(3) assms(3) _ after_default [OF assms(1,2)], where s = "lines (file_lines fallback es)"])
      (simp_all add: Some file_lines_def label_line_def line_start_def rx_space_def)
qed

lemma fallback_found:
  assumes "\<forall>e \<in> set es. entry_ok e" "\<forall>f. fallback = Some f \<longrightarrow> entry_ok f" "entry_ok dflt"
  shows "find_all fallbackEntryRegex None (lines (label_line ''set default='' dflt # file_lines fallback es)) =
    (case fallback of None \<Rightarrow> [] | Some f \<Rightarrow> [[EntryName f]])"
proof -
  let ?rest = "[] # header_lines @ concat (map encoded_lines es)"
  have key: "keyword (''set fallback='' @ dquote)" by (rule label_keyword [OF keyword_words(4)])
  have rest: "\<forall>l \<in> set ?rest. quiet_line (''set fallback='' @ dquote) l"
    using entries_quiet [OF assms(1), of "''set fallback=''"] by (auto simp: quiet_line_def [of _ "[]"] dquote_def)
  have default: "quiet_line (''set fallback='' @ dquote) (label_line ''set default='' dflt)"
    using assms(3) by (intro label_quiet) simp_all
  show ?thesis
  proof (cases fallback)
    case None
    then show ?thesis
      using find_all_silent [OF key, of "label_line ''set default='' dflt # ?rest"] rest default
      unfolding fallbackEntryRegex_def label_rx_keyword by (simp add: file_lines_def)
  next
    case (Some f)
    have f: "entry_ok f" using assms(2) Some by simp
    have hit: "find_all fallbackEntryRegex (Some CHR 0x0A) (label_line ''set fallback='' f @ nl @ lines ?rest) = [[EntryName f]]"
      unfolding fallbackEntryRegex_def
      by (rule label_found [OF keyword_words(4) f _ rest, where s = "lines (header_lines @ concat (map encoded_lines es))"])
        (simp_all add: header_lines_def line_start_def rx_space_def)
    have "find_all fallbackEntryRegex None (lines [label_line ''set default='' dflt] @ label_line ''set fallback='' f @ nl @ lines ?rest) =
        find_all fallbackEntryRegex (Some CHR 0x0A) (label_line ''set fallback='' f @ nl @ lines ?rest)"
      unfolding fallbackEntryRegex_def label_rx_keyword
      by (rule find_all_quiet [OF key]) (use default in \<open>auto simp: inked_def label_line_def rx_space_def\<close>)
    then show ?thesis using hit Some by (simp add: file_lines_def)
  qed
qed

lemma menu_found:
  assumes "\<forall>e \<in> set es. entry_ok e" "\<forall>f. fallback = Some f \<longrightarrow> entry_ok f" "entry_ok dflt"
  shows "find_all menuEntryRegex None (lines (label_line ''set default='' dflt # file_lines fallback es)) =
    map (\<lambda>e. [EntryName e, encoded_block e]) es"
proof -
  let ?before = "label_line ''set default='' dflt # (case fallback of None \<Rightarrow> [] | Some f \<Rightarrow> [label_line ''set fallback='' f]) @ [] # header_lines"
  have "\<forall>l \<in> set ?before. CHR 0x0A \<notin> set l \<and> \<not> prefix ''menuentry'' l"
    using assms(2,3) by (auto simp: label_line_def header_lines_def dquote_def entry_ok_def name_ok_def split: option.splits)
  then have "find_all menuEntryRegex None (lines ?before @ concat (map encoded es)) = find_all menuEntryRegex (Some CHR 0x0A) (concat (map encoded es))"
    unfolding menuEntryRegex_def by (intro find_all_literal) auto
  then show ?thesis
    using entry_matches [OF assms(1)] by (simp add: file_lines_def encoded_all)
qed

definition config_ok :: "grub_config \<Rightarrow> bool" where
  "config_ok c \<longleftrightarrow> gm_wf (Entries c) \<and>
     (\<forall>(l, e) \<in> set (Entries c). (l = BootA \<or> l = BootB) \<and> prefix l (EntryName e) \<and> entry_ok e)"

lemma config_entry:
  assumes "config_ok c" "gm_get (Entries c) l = Some e"
  shows "(l = BootA \<or> l = BootB) \<and> ParseBootLabel (EntryName e) = Inr l \<and> entry_ok e"
proof -
  have "(l, e) \<in> set (Entries c)" using assms(2) by (auto simp: gm_get_def dest: map_of_SomeD)
  then have "(l = BootA \<or> l = BootB) \<and> prefix l (EntryName e) \<and> entry_ok e" using assms(1) by (auto simp: config_ok_def)
  then show ?thesis by (auto simp: ParseBootLabel_def BootA_def BootB_def prefix_def)
qed

lemma config_ok_get:
  assumes "gm_wf (Entries c)" "\<And>l e. gm_get (Entries c) l = Some e \<Longrightarrow> (l = BootA \<or> l = BootB) \<and> prefix l (EntryName e) \<and> entry_ok e"
  shows "config_ok c"
  using assms by (force simp: config_ok_def gm_get_def gm_wf_def)

lemma parse_encoded: "entry_ok e \<Longrightarrow> parseConfBlock (encoded_block e) = Inr (Linux e, Cmdline e, Initrd e)"
  by (simp add: encoded_block_def parseConfBlock_entry entry_ok_def)

lemma entry_eta: "\<lparr>EntryName = EntryName e, Linux = Linux e, Cmdline = Cmdline e, Initrd = Initrd e\<rparr> = e"
  by simp

lemma entries_loop_order:
  assumes "\<forall>(l, e) \<in> set order. ParseBootLabel (EntryName e) = Inr l \<and> l \<noteq> BootReset \<and> entry_ok e"
  shows "entries_loop (map (\<lambda>e. [EntryName e, encoded_block e]) (map snd order) @ ms) m r =
    entries_loop ms (foldl (\<lambda>m (l, e). gm_set m l e) m order) r"
  using assms by (induction order arbitrary: m) (auto simp: parse_encoded entry_eta)

lemma foldl_set:
  assumes "distinct (map fst order)" "gm_wf m"
  shows "gm_wf (foldl (\<lambda>m (l, e). gm_set m l e) m order) \<and>
    (\<forall>k. gm_get (foldl (\<lambda>m (l, e). gm_set m l e) m order) k = (case map_of order k of None \<Rightarrow> gm_get m k | Some e \<Rightarrow> Some e))"
  using assms
proof (induction order arbitrary: m)
  case (Cons p order)
  obtain l e where p: "p = (l, e)" by fastforce
  have l: "map_of order l = None" using Cons.prems p by (simp add: map_of_eq_None_iff)
  show ?case using Cons.IH [of "gm_set m l e"] Cons.prems l unfolding p
    by (auto simp: gm_wf_set gm_get_set split: option.split)
qed simp

lemma parseEntries_written:
  assumes "config_ok c" "range_order (Entries c) order" "entry_ok dflt"
    "find_all menuEntryRegex None conf = map (\<lambda>e. [EntryName e, encoded_block e]) (written_entries order reset dflt)"
  shows "\<exists>es. parseEntries conf = Inr (es, reset) \<and> gm_wf es \<and> (\<forall>k. gm_get es k = gm_get (Entries c) k)"
proof -
  let ?es = "foldl (\<lambda>m (l, e). gm_set m l e) [] order"
  have wf: "gm_wf (Entries c)" using assms(1) by (simp add: config_ok_def)
  have order: "gm_wf order" "\<And>k. gm_get order k = gm_get (Entries c) k"
    using range_order_wf [OF assms(2) wf] range_order_get [OF assms(2) wf] by simp_all
  have "ParseBootLabel (EntryName e) = Inr l \<and> l \<noteq> BootReset \<and> entry_ok e" if "(l, e) \<in> set order" for l e
  proof -
    have "gm_get order l = Some e" using that order(1) by (simp add: gm_get_def gm_wf_def)
    then have "gm_get (Entries c) l = Some e" by (simp add: order(2))
    from config_entry [OF assms(1) this] show ?thesis by (auto simp: BootA_def BootB_def BootReset_def)
  qed
  then have "\<forall>(l, e) \<in> set order. ParseBootLabel (EntryName e) = Inr l \<and> l \<noteq> BootReset \<and> entry_ok e" by auto
  note loop = entries_loop_order [OF this]
  have wipe: "ParseBootLabel reset_name = Inr BootReset"
    by (simp add: ParseBootLabel_def reset_name_def BootA_def BootB_def)
  have "parseEntries conf = Inr (?es, reset)"
    using parse_encoded [OF wipe_entry_ok [OF assms(3)]] wipe
    by (cases reset) (simp_all add: parseEntries_def assms(4) written_entries_def loop loop [of "[]", unfolded append_Nil2] wipe_entry_def del: map_map)
  moreover have "gm_wf ?es" "\<forall>k. gm_get ?es k = gm_get (Entries c) k"
    using foldl_set [of order "[]"] order by (auto simp: gm_wf_def gm_get_def split: option.split)
  ultimately show ?thesis by blast
qed

lemma written_file:
  assumes "config_ok c" "validate_config c = None" "range_order (Entries c) order"
  shows "\<exists>conf d. Encode order c = Inr conf \<and> Decode conf = Inr d \<and> config_ok d \<and> DefaultLabel d = DefaultLabel c \<and>
    FallbackLabel d = FallbackLabel c \<and> AddResetOption d = AddResetOption c \<and> (\<forall>k. gm_get (Entries d) k = gm_get (Entries c) k)"
proof -
  let ?fallback = "gm_get (Entries c) (FallbackLabel c)"
  obtain dflt where dflt: "gm_get (Entries c) (DefaultLabel c) = Some dflt"
    using assms(2) by (auto simp: validate_config_def gm_has_get split: if_splits)
  have d: "ParseBootLabel (EntryName dflt) = Inr (DefaultLabel c)" "entry_ok dflt" using config_entry [OF assms(1) dflt] by auto
  let ?es = "written_entries order (AddResetOption c) dflt"
  have es: "\<forall>e \<in> set ?es. entry_ok e"
    using assms(1,3) wipe_entry_ok [OF d(2)] by (auto simp: written_entries_def config_ok_def range_order_set)
  have fb: "\<forall>f. ?fallback = Some f \<longrightarrow> entry_ok f" using config_entry [OF assms(1)] by blast
  have "gm_get (Entries c) [] = None"
    using config_entry [OF assms(1), of "[]"] by (cases "gm_get (Entries c) []") (auto simp: BootA_def BootB_def)
  then have no_fb: "?fallback = None \<longleftrightarrow> FallbackLabel c = []"
    using assms(2) by (auto simp: validate_config_def gm_has_get split: if_splits)
  define conf where "conf = lines (label_line ''set default='' dflt # file_lines ?fallback ?es)"
  have enc: "Encode order c = Inr conf" unfolding conf_def by (rule Encode_lines [OF assms(2) dflt])
  obtain entries where entries: "parseEntries conf = Inr (entries, AddResetOption c)" "gm_wf entries" "\<forall>k. gm_get entries k = gm_get (Entries c) k"
    using parseEntries_written [OF assms(1,3) d(2)] menu_found [OF es fb d(2)] unfolding conf_def by blast
  let ?d = "\<lparr>DefaultLabel = DefaultLabel c, FallbackLabel = FallbackLabel c, Entries = entries, AddResetOption = AddResetOption c\<rparr>"
  have "Decode conf = Inr ?d"
  proof (cases ?fallback)
    case None
    then show ?thesis
      using default_found [OF es fb d(2)] fallback_found [OF es fb d(2)] d(1) entries(1) no_fb
      unfolding conf_def [symmetric] by (simp add: Decode_def)
  next
    case (Some f)
    then show ?thesis
      using default_found [OF es fb d(2)] fallback_found [OF es fb d(2)] d(1) entries(1) config_entry [OF assms(1) Some]
      unfolding conf_def [symmetric] by (simp add: Decode_def)
  qed
  moreover have "config_ok ?d"
  proof (rule config_ok_get)
    fix l e assume "gm_get (Entries ?d) l = Some e"
    then have "(l, e) \<in> set (Entries c)" using entries(3) by (auto simp: gm_get_def dest: map_of_SomeD)
    then show "(l = BootA \<or> l = BootB) \<and> prefix l (EntryName e) \<and> entry_ok e" using assms(1) by (auto simp: config_ok_def)
  qed (simp add: entries)
  ultimately show ?thesis using enc entries(3) by (intro exI [of _ conf] exI [of _ ?d]) simp
qed

section \<open>Installing, upgrading, reverting\<close>

definition label_text :: "string \<Rightarrow> bool" where
  "label_text s \<longleftrightarrow> CHR 0x22 \<notin> set s \<and> CHR 0x0A \<notin> set s"

lemma built_entry_ok:
  assumes "l = BootA \<or> l = BootB" "cmdline_ok cmdline" "label_text versionName" "label_text version"
  shows "prefix l (EntryName (buildMenuEntry versionName l cmdline version)) \<and> entry_ok (buildMenuEntry versionName l cmdline version)"
  using assms by (auto simp: buildMenuEntry_def entry_ok_def name_ok_def path_ok_def label_text_def BootA_def BootB_def quote_order_def rx_space_def)

lemma Put_config_ok:
  assumes "config_ok c" "l = BootA \<or> l = BootB" "cmdline_ok cmdline" "label_text versionName" "label_text version"
  shows "config_ok (Put versionName l cmdline version c)"
proof (rule config_ok_get)
  show "gm_wf (Entries (Put versionName l cmdline version c))" using assms(1) by (simp add: Put_def gm_wf_set config_ok_def)
next
  fix k e assume e: "gm_get (Entries (Put versionName l cmdline version c)) k = Some e"
  show "(k = BootA \<or> k = BootB) \<and> prefix k (EntryName e) \<and> entry_ok e"
  proof (cases "k = l")
    case True
    then have "e = buildMenuEntry versionName l cmdline version" using e by (simp add: Put_def gm_get_set)
    then show ?thesis using True assms(2) built_entry_ok [OF assms(2-5)] by simp
  next
    case False
    then have "(k, e) \<in> set (Entries c)" using e by (simp add: Put_def gm_get_set) (auto simp: gm_get_def dest: map_of_SomeD)
    then show ?thesis using assms(1) by (auto simp: config_ok_def)
  qed
qed

lemma config_ok_labels: "config_ok (c\<lparr>DefaultLabel := d, FallbackLabel := f\<rparr>) = config_ok c"
  by (simp add: config_ok_def)

lemma Put_simps [simp]:
  "DefaultLabel (Put n l s v c) = DefaultLabel c" "FallbackLabel (Put n l s v c) = FallbackLabel c"
  "gm_get (Entries (Put n l s v c)) k = (if k = l then Some (buildMenuEntry n l s v) else gm_get (Entries c) k)"
  by (simp_all add: Put_def gm_get_set)

lemma flip_installed:
  assumes "config_ok c" "gm_get (Entries c) (DefaultLabel c) = Some e"
  obtains other where "flipBootLabel (DefaultLabel c) = Inr other" "flipBootLabel other = Inr (DefaultLabel c)"
    "other = BootA \<or> other = BootB" "other \<noteq> DefaultLabel c" "flip c = Inr (c\<lparr>DefaultLabel := other, FallbackLabel := DefaultLabel c\<rparr>)"
proof -
  have "DefaultLabel c = BootA \<or> DefaultLabel c = BootB" using config_entry [OF assms] by simp
  then show ?thesis using that assms(2) by (auto simp: flip_def flipBootLabel_def gm_has_get BootA_def BootB_def)
qed

lemma write_config_ok: "Encode order c = Inr conf \<Longrightarrow> write_config order True c = (Some conf, None)"
  by (simp add: write_config_def)

lemma upgraded_file:
  assumes "config_ok c" "gm_get (Entries c) (DefaultLabel c) = Some running" "flipBootLabel (DefaultLabel c) = Inr other"
    "cmdline_ok cmdline" "label_text versionName" "label_text version" "\<forall>c. range_order (Entries c) (order c)"
  shows "\<exists>c1 conf d. upgrade_config versionName (Some cmdline) version order True c = (c1, Some conf, None) \<and> Decode conf = Inr d \<and>
    config_ok d \<and> DefaultLabel d = other \<and> FallbackLabel d = DefaultLabel c \<and>
    gm_get (Entries d) other = Some (buildMenuEntry versionName other cmdline version) \<and> gm_get (Entries d) (DefaultLabel c) = Some running"
proof -
  obtain o' where o: "flipBootLabel (DefaultLabel c) = Inr o'" "o' = BootA \<or> o' = BootB" "o' \<noteq> DefaultLabel c"
    "flip c = Inr (c\<lparr>DefaultLabel := o', FallbackLabel := DefaultLabel c\<rparr>)"
    using flip_installed [OF assms(1,2)] by metis
  then have other: "o' = other" using assms(3) by simp
  let ?c = "Put versionName other cmdline version (c\<lparr>DefaultLabel := other, FallbackLabel := DefaultLabel c\<rparr>)"
  have ok: "config_ok ?c" using assms o(2) other by (intro Put_config_ok) (auto simp: config_ok_labels)
  have valid: "validate_config ?c = None" using assms(2) o(3) other by (auto simp: validate_config_def gm_has_get)
  obtain conf d where d: "Encode (order ?c) ?c = Inr conf" "Decode conf = Inr d" "config_ok d" "DefaultLabel d = other"
    "FallbackLabel d = DefaultLabel c" "\<forall>k. gm_get (Entries d) k = gm_get (Entries ?c) k"
    using written_file [OF ok valid assms(7) [rule_format]] by auto
  have "upgrade_config versionName (Some cmdline) version order True c = (?c, Some conf, None)"
    using o(4) other write_config_ok [OF d(1)] by (simp add: upgrade_config_def generateAssets_def Let_def)
  then show ?thesis using d(2-6) assms(2) o(3) other by auto
qed

lemma reverted_file:
  assumes "config_ok c" "gm_get (Entries c) (DefaultLabel c) = Some e" "flipBootLabel (DefaultLabel c) = Inr other"
    "gm_has (Entries c) other" "exists other" "range_order (Entries c) order"
  shows "\<exists>c2 conf d. revert_config exists order True c = (c2, Some conf, None) \<and> Decode conf = Inr d \<and> config_ok d \<and>
    DefaultLabel d = other \<and> FallbackLabel d = DefaultLabel c \<and> (\<forall>k. gm_get (Entries d) k = gm_get (Entries c) k)"
proof -
  obtain o' where o: "flipBootLabel (DefaultLabel c) = Inr o'" "o' \<noteq> DefaultLabel c"
    "flip c = Inr (c\<lparr>DefaultLabel := o', FallbackLabel := DefaultLabel c\<rparr>)"
    using flip_installed [OF assms(1,2)] by metis
  then have other: "o' = other" using assms(3) by simp
  let ?c = "c\<lparr>DefaultLabel := other, FallbackLabel := DefaultLabel c\<rparr>"
  have ok: "config_ok ?c" using assms(1) by (simp add: config_ok_labels)
  have valid: "validate_config ?c = None" using assms(2,4) o(2) other by (auto simp: validate_config_def gm_has_get)
  obtain conf d where d: "Encode order ?c = Inr conf" "Decode conf = Inr d" "config_ok d" "DefaultLabel d = other"
    "FallbackLabel d = DefaultLabel c" "\<forall>k. gm_get (Entries d) k = gm_get (Entries ?c) k"
    using written_file [OF ok valid, of order] assms(6) by auto
  have "revert_config exists order True c = (?c, Some conf, None)"
    using o(3) other assms(5) write_config_ok [OF d(1)] by (simp add: revert_config_def)
  then show ?thesis using d(2-6) by auto
qed

section \<open>Properties\<close>

text \<open>C34: a configuration that passes validate and whose entries have plain labels and paths and a command line that
  is not empty, of one line, and does not start with white space, is read back as it was written, in whatever
  order the entries are visited: the same default, fallback and reset option, and under each label the same entry,
  with every special character of the command line.\<close>

theorem grub_roundtrip:
  assumes "config_ok c" "validate_config c = None" "range_order (Entries c) order"
  shows "\<exists>conf d. Encode order c = Inr conf \<and> Decode conf = Inr d \<and>
    DefaultLabel d = DefaultLabel c \<and> FallbackLabel d = FallbackLabel c \<and> AddResetOption d = AddResetOption c \<and>
    (\<forall>l. gm_get (Entries d) l = gm_get (Entries c) l)"
  using written_file [OF assms] by blast

definition demo_grub :: grub_config where
  "demo_grub = Put ''Chubo'' BootA ''console=ttyS0 talos.config=http://h/?a=1&b={c};d=$e'' ''v1.0'' NewConfig"

lemma demo_grub: "config_ok demo_grub" "gm_get (Entries demo_grub) (DefaultLabel demo_grub) =
    Some (buildMenuEntry ''Chubo'' BootA ''console=ttyS0 talos.config=http://h/?a=1&b={c};d=$e'' ''v1.0'')"
  "validate_config demo_grub = None"
proof -
  have "config_ok NewConfig" by (simp add: config_ok_def NewConfig_def gm_wf_empty)
  then show "config_ok demo_grub"
    unfolding demo_grub_def by (rule Put_config_ok) (simp_all add: cmdline_ok_def label_text_def rx_space_def)
  show "gm_get (Entries demo_grub) (DefaultLabel demo_grub) =
      Some (buildMenuEntry ''Chubo'' BootA ''console=ttyS0 talos.config=http://h/?a=1&b={c};d=$e'' ''v1.0'')"
    by (simp add: demo_grub_def NewConfig_def)
  show "validate_config demo_grub = None"
    by (simp add: demo_grub_def NewConfig_def validate_config_def gm_has_get BootA_def)
qed

theorem grub_roundtrip_witness:
  "\<exists>conf d. Encode (Entries demo_grub) demo_grub = Inr conf \<and> Decode conf = Inr d \<and>
    DefaultLabel d = DefaultLabel demo_grub \<and> FallbackLabel d = FallbackLabel demo_grub \<and>
    AddResetOption d = AddResetOption demo_grub \<and> (\<forall>l. gm_get (Entries d) l = gm_get (Entries demo_grub) l)"
  by (rule grub_roundtrip [OF demo_grub(1,3) range_order_refl])

text \<open>An upgrade and a revert, each of them reading the file that the one before has written: the
  upgrade puts the new kernel under the label that was not running, makes it the default and leaves the entry of the
  running system as the fallback; a revert then makes that system, with its own command line, the default again and
  keeps the new one as the fallback.\<close>

theorem upgrade_then_revert:
  assumes "config_ok c" "gm_get (Entries c) (DefaultLabel c) = Some running"
    "cmdline_ok cmdline" "label_text versionName" "label_text version"
    "\<forall>c. range_order (Entries c) (order c)" "exists (DefaultLabel c)"
  shows "\<exists>other c1 conf1 d1 c2 conf2 d2.
    flipBootLabel (DefaultLabel c) = Inr other \<and>
    upgrade_config versionName (Some cmdline) version order True c = (c1, Some conf1, None) \<and> Decode conf1 = Inr d1 \<and>
    DefaultLabel d1 = other \<and> FallbackLabel d1 = DefaultLabel c \<and>
    gm_get (Entries d1) other = Some (buildMenuEntry versionName other cmdline version) \<and>
    gm_get (Entries d1) (DefaultLabel c) = Some running \<and>
    revert_config exists (order d1) True d1 = (c2, Some conf2, None) \<and> Decode conf2 = Inr d2 \<and>
    DefaultLabel d2 = DefaultLabel c \<and> FallbackLabel d2 = other \<and> (\<forall>l. gm_get (Entries d2) l = gm_get (Entries d1) l)"
proof -
  obtain other where other: "flipBootLabel (DefaultLabel c) = Inr other" "flipBootLabel other = Inr (DefaultLabel c)"
    using flip_installed [OF assms(1,2)] by metis
  obtain c1 conf1 d1 where up: "upgrade_config versionName (Some cmdline) version order True c = (c1, Some conf1, None)"
    "Decode conf1 = Inr d1" "config_ok d1" "DefaultLabel d1 = other" "FallbackLabel d1 = DefaultLabel c"
    "gm_get (Entries d1) other = Some (buildMenuEntry versionName other cmdline version)" "gm_get (Entries d1) (DefaultLabel c) = Some running"
    using upgraded_file [OF assms(1,2) other(1) assms(3-6)] by blast
  have d1: "gm_get (Entries d1) (DefaultLabel d1) = Some (buildMenuEntry versionName other cmdline version)"
    "flipBootLabel (DefaultLabel d1) = Inr (DefaultLabel c)" "gm_has (Entries d1) (DefaultLabel c)"
    using up other(2) by (simp_all add: gm_has_get)
  from reverted_file [where exists = exists, OF up(3) d1 assms(7) assms(6) [rule_format]] obtain c2 conf2 d2
    where "revert_config exists (order d1) True d1 = (c2, Some conf2, None)" "Decode conf2 = Inr d2"
      "DefaultLabel d2 = DefaultLabel c" "FallbackLabel d2 = DefaultLabel d1" "\<forall>l. gm_get (Entries d2) l = gm_get (Entries d1) l"
    by blast
  then show ?thesis using other(1) up by metis
qed

theorem upgrade_then_revert_witness:
  "\<exists>other c1 conf1 d1 c2 conf2 d2.
    flipBootLabel (DefaultLabel demo_grub) = Inr other \<and>
    upgrade_config ''Chubo'' (Some ''console=tty0'') ''v2.0'' Entries True demo_grub = (c1, Some conf1, None) \<and> Decode conf1 = Inr d1 \<and>
    DefaultLabel d1 = other \<and> FallbackLabel d1 = DefaultLabel demo_grub \<and>
    gm_get (Entries d1) other = Some (buildMenuEntry ''Chubo'' other ''console=tty0'' ''v2.0'') \<and>
    gm_get (Entries d1) (DefaultLabel demo_grub) =
      Some (buildMenuEntry ''Chubo'' BootA ''console=ttyS0 talos.config=http://h/?a=1&b={c};d=$e'' ''v1.0'') \<and>
    revert_config (\<lambda>l. l = BootA) (Entries d1) True d1 = (c2, Some conf2, None) \<and> Decode conf2 = Inr d2 \<and>
    DefaultLabel d2 = DefaultLabel demo_grub \<and> FallbackLabel d2 = other \<and> (\<forall>l. gm_get (Entries d2) l = gm_get (Entries d1) l)"
  by (rule upgrade_then_revert [OF demo_grub(1,2)])
    (simp_all add: cmdline_ok_def label_text_def rx_space_def demo_grub_def NewConfig_def)

text \<open>A revert to a label whose directory is gone writes nothing, but the configuration in memory is flipped already.\<close>

lemma revert_without_assets:
  "flip c = Inr c' \<Longrightarrow> \<not> exists (DefaultLabel c') \<Longrightarrow> revert_config exists order io_ok c = (c', None, Some LabelDoesNotExist)"
  by (simp add: revert_config_def)

text \<open>A first upgrade of a disk without an entry for its default: nothing is flipped, the kernel goes under the default label.\<close>

lemma upgrade_without_default:
  "\<not> gm_has (Entries c) (DefaultLabel c) \<Longrightarrow>
    upgrade_config versionName assets version order io_ok c = generateAssets versionName assets version order io_ok c"
  by (simp add: upgrade_config_def flip_def)

text \<open>An empty command line is written as a line that ends in a space, and read back as the line after it.\<close>

lemma empty_cmdline_read_wrong:
  "parseConfBlock (entry_block ''/A/vmlinuz'' (Quote []) ''/A/initramfs.xz'') =
    Inr (''/A/vmlinuz'', ''initrd /A/initramfs.xz'', ''/A/initramfs.xz'')"
  by code_simp

end
