(* ===== verification/Mounts.thy ===== *)
theory Mounts
  imports VolumeManager GoText
begin

text \<open>
  The mount controller (internal/app/machined/pkg/controllers/block/mount.go): it mounts the volumes for
  which there are mount requests, publishes a MountStatus for each, and takes both away in a fixed order.
  The record \<open>mnt_state\<close> has the map activeMounts of the controller and the history of its calls (of the
  COSI runtime, of the mount managers and of the file system) with their answers; the environment answers
  a call from the history before it. Resources of a turn are the snapshot that Run has read at its start.
\<close>

section \<open>Resources and mount managers\<close>

record mount_request_spec =
  MrVolumeID :: string
  ParentMountID :: string
  MrReadOnly :: bool
  MrDetached :: bool
  MrDisableAccessTime :: bool
  MrSecure :: bool
  Requesters :: "string list"
  RequesterIDs :: "string list"

record mount_request =
  MrID :: string
  MrPhase :: ResourcePhase
  MrFinalizers :: "string list"
  MrSpec :: mount_request_spec

datatype fs_option = FsSource string | FsProjectQuota bool | FsBinary string bytes | FsString string string | FsBool string

datatype mount_fs = Fsopen string "fs_option list" | Opentree string

text \<open>What NewManager collects; the attributes are read-only, noatime, and nosuid with nodev.\<close>

record manager =
  MgrFS :: mount_fs
  MgrTarget :: string
  MgrLabel :: string
  MgrReadOnly :: bool
  MgrNoAtime :: bool
  MgrSecure :: bool
  MgrDetached :: bool
  MgrExtraDirs :: "string list"

text \<open>A point made by a manager, or the one of swap space, which is only its source.\<close>

datatype mount_point = ManagedPoint manager | SwapPoint string

datatype mount_root = PointRoot mount_point | ShadowRoot string

record mount_status_spec =
  MsSpec :: mount_request_spec
  MsSource :: string
  MsTarget :: string
  MsFilesystem :: FilesystemType
  MsEncryption :: EncryptionProviderType
  MsReadOnly :: bool
  MsProjectQuota :: bool
  MsDetached :: bool
  MsRoot :: mount_root

record mount_status_res =
  MsPhase :: ResourcePhase
  MsFinalizers :: "string list"
  MsStatus :: mount_status_spec

record active_mount =
  CtxPoint :: "mount_point option"
  CtxReadOnly :: bool
  CtxDisableAccessTime :: bool
  CtxSecure :: bool
  CtxUnmounter :: bool

section \<open>Calls\<close>

datatype res_ref = RefRequest string | RefVolume string | RefStatus string

text \<open>\<open>OpDiscard\<close> is an unmount whose error is ignored.\<close>

datatype mnt_op =
    OpTeardown string | OpDestroy string | OpAddFinalizer res_ref string | OpRemoveFinalizer res_ref string
  | OpWriteStatus string mount_status_spec
  | OpMount string mount_point | OpUnmount string mount_point | OpDiscard string mount_point
  | OpRemount string bool | OpSetDisableAccessTime string bool | OpSetSecure string bool
  | OpMkdir string "32 word" | OpStat string | OpLstat string | OpReadlink string | OpSymlink string string
  | OpRemoveAll string | OpReadDir string | OpChmod string "32 word" | OpOwner string | OpChown string int int
  | OpChownRecursive string u32 u32 | OpGetLabel string | OpSetLabel string string | OpSetLabelRecursive string string

datatype mnt_answer = Done | NotReady | Missing | AlreadyThere | IsDir | IsLink | IsFile | Target string | Owner u32 u32
  | Names "string list" | Unsupported | Failed

type_synonym mnt_calls = "(mnt_op \<times> mnt_answer) list"
type_synonym mnt_env = "mnt_calls \<Rightarrow> mnt_op \<Rightarrow> mnt_answer"

record mnt_state =
  ActiveMounts :: "(string, active_mount) gomap"
  Calls :: mnt_calls

datatype mnt_error = MntFailed mnt_op | MntNotDirectory string | MntNotImplemented | MntOverlay string | MntNotSymlink string | MntPanic

type_synonym 'a mnt = "mnt_state \<Rightarrow> (mnt_error + 'a) \<times> mnt_state"

definition mret :: "'a \<Rightarrow> 'a mnt" where
  "mret x s = (Inr x, s)"

definition mfail :: "mnt_error \<Rightarrow> 'a mnt" where
  "mfail e s = (Inl e, s)"

definition mbind :: "'a mnt \<Rightarrow> ('a \<Rightarrow> 'b mnt) \<Rightarrow> 'b mnt" where
  "mbind m f s = (case m s of (Inl e, s') \<Rightarrow> (Inl e, s') | (Inr x, s') \<Rightarrow> f x s')"

definition mseq :: "'a mnt \<Rightarrow> 'b mnt \<Rightarrow> 'b mnt" where
  "mseq m k = mbind m (\<lambda>_. k)"

definition mwhen :: "bool \<Rightarrow> unit mnt \<Rightarrow> unit mnt" where
  "mwhen b m = (if b then m else mret ())"

definition ask :: "mnt_env \<Rightarrow> mnt_op \<Rightarrow> mnt_answer mnt" where
  "ask E c s = (Inr (E (Calls s) c), s\<lparr>Calls := Calls s @ [(c, E (Calls s) c)]\<rparr>)"

definition mcall :: "mnt_env \<Rightarrow> mnt_op \<Rightarrow> unit mnt" where
  "mcall E c = mbind (ask E c) (\<lambda>a. if a = Done then mret () else mfail (MntFailed c))"

definition active :: "string \<Rightarrow> active_mount option mnt" where
  "active mid s = (Inr (gm_get (ActiveMounts s) mid), s)"

definition set_active :: "string \<Rightarrow> active_mount \<Rightarrow> unit mnt" where
  "set_active mid ctx s = (Inr (), s\<lparr>ActiveMounts := gm_set (ActiveMounts s) mid ctx\<rparr>)"

definition del_active :: "string \<Rightarrow> unit mnt" where
  "del_active mid s = (Inr (), s\<lparr>ActiveMounts := gm_del (ActiveMounts s) mid\<rparr>)"

section \<open>Settings of the target\<close>

definition updateTargetSettings :: "mnt_env \<Rightarrow> string \<Rightarrow> MountSpec \<Rightarrow> unit mnt" where
  "updateTargetSettings E path m =
     mseq (mcall E (OpChmod path (FileMode m)))
     (mseq (mbind (ask E (OpOwner path)) (\<lambda>a. case a of
        Owner uid gid \<Rightarrow>
          mwhen (uid \<noteq> word_of_int (MountUID m) \<or> gid \<noteq> word_of_int (MountGID m))
            (mcall E (if RecursiveRelabel m then OpChownRecursive path (word_of_int (MountUID m)) (word_of_int (MountGID m))
               else OpChown path (MountUID m) (MountGID m)))
      | _ \<Rightarrow> mfail (MntFailed (OpOwner path))))
     (mbind (ask E (OpGetLabel path)) (\<lambda>a. case a of
        Target label \<Rightarrow>
          if label = SelinuxLabel m then mret ()
          else (let c = (if RecursiveRelabel m then OpSetLabelRecursive path (SelinuxLabel m) else OpSetLabel path (SelinuxLabel m))
                in mbind (ask E c) (\<lambda>a. if a = Done \<or> a = Unsupported then mret () else mfail (MntFailed c)))
      | _ \<Rightarrow> mfail (MntFailed (OpGetLabel path)))))"

text \<open>Making a directory that may be there already.\<close>

definition make_directory :: "mnt_env \<Rightarrow> string \<Rightarrow> 32 word \<Rightarrow> unit mnt" where
  "make_directory E path mode =
     mbind (ask E (OpMkdir path mode)) (\<lambda>a.
       if a = Done then mret ()
       else if a \<noteq> AlreadyThere then mfail (MntFailed (OpMkdir path mode))
       else mbind (ask E (OpStat path)) (\<lambda>a.
         if a = Failed then mfail (MntFailed (OpStat path))
         else if a \<noteq> IsDir then mfail (MntNotDirectory path)
         else mret ()))"

section \<open>Mounting\<close>

definition zero_manager :: manager where
  "zero_manager = \<lparr>MgrFS = Opentree '''', MgrTarget = '''', MgrLabel = '''', MgrReadOnly = False, MgrNoAtime = False,
     MgrSecure = False, MgrDetached = False, MgrExtraDirs = []\<rparr>"

text \<open>A mount by a manager, the settings of its target unless they are skipped, and the unmount when they fail.\<close>

definition mount_with :: "mnt_env \<Rightarrow> string \<Rightarrow> manager \<Rightarrow> bool \<Rightarrow> MountSpec \<Rightarrow> unit mnt" where
  "mount_with E mid mgr settings m s =
     mseq (mcall E (OpMount mid (ManagedPoint mgr)))
     (mwhen settings (\<lambda>s. case updateTargetSettings E (MgrTarget mgr) m s of
          (Inr u, s) \<Rightarrow> (Inr u, s)
        | (Inl e, s) \<Rightarrow> mseq (ask E (OpDiscard mid (ManagedPoint mgr))) (mfail e) s)) s"

definition handleBindMountOperation :: "mnt_env \<Rightarrow> string \<Rightarrow> string \<Rightarrow> string \<Rightarrow> mount_request \<Rightarrow> MountSpec \<Rightarrow> unit mnt" where
  "handleBindMountOperation E rootPath source bindTarget req m =
     mbind (active (MrID req)) (\<lambda>ctx.
       if ctx \<noteq> None then mret ()
       else (let mountSource = path_Join rootPath source; mountTarget = path_Join rootPath bindTarget;
                 mgr = zero_manager\<lparr>MgrFS := Opentree mountSource, MgrTarget := mountTarget, MgrLabel := SelinuxLabel m\<rparr>
             in mseq (make_directory E mountTarget (FileMode m))
                (mseq (mount_with E (MrID req) mgr (\<not> MrReadOnly (MrSpec req) \<and> \<not> MrDetached (MrSpec req)) m)
                (set_active (MrID req) \<lparr>CtxPoint = Some (ManagedPoint mgr), CtxReadOnly = MrReadOnly (MrSpec req),
                   CtxDisableAccessTime = False, CtxSecure = False, CtxUnmounter = True\<rparr>))))"

text \<open>An error of the bind mount is reported as if the target was not a directory.\<close>

definition handleDirectoryMountOperation :: "mnt_env \<Rightarrow> string \<Rightarrow> string \<Rightarrow> mount_request \<Rightarrow> MountSpec \<Rightarrow> unit mnt" where
  "handleDirectoryMountOperation E rootPath tgt req m =
     (let targetPath = path_Join rootPath tgt
      in mseq (make_directory E targetPath (FileMode m))
         (mseq (case BindTarget m of
             None \<Rightarrow> mret ()
           | Some bindTarget \<Rightarrow> (\<lambda>s. case handleBindMountOperation E rootPath tgt bindTarget req m s of
                 (Inl e, s) \<Rightarrow> (Inl (if e = MntPanic then e else MntNotDirectory targetPath), s)
               | (Inr u, s) \<Rightarrow> (Inr u, s)))
         (updateTargetSettings E targetPath m)))"

definition empty_context :: active_mount where
  "empty_context = \<lparr>CtxPoint = None, CtxReadOnly = False, CtxDisableAccessTime = False, CtxSecure = False, CtxUnmounter = False\<rparr>"

fun remove_entries :: "mnt_env \<Rightarrow> string \<Rightarrow> string list \<Rightarrow> unit mnt" where
  "remove_entries E path [] = mret ()"
| "remove_entries E path (n # ns) = mseq (ask E (OpRemoveAll (path_Join path n))) (remove_entries E path ns)"

definition handleSymlinkMountOperation :: "mnt_env \<Rightarrow> string \<Rightarrow> string \<Rightarrow> mount_request \<Rightarrow> SymlinkProvisioningSpec \<Rightarrow> unit mnt" where
  "handleSymlinkMountOperation E rootPath tgt req sl =
     mbind (active (MrID req)) (\<lambda>ctx.
       if ctx \<noteq> None then mret ()
       else (let targetPath = path_Join rootPath tgt;
                 link = mseq (mcall E (OpSymlink (SymlinkTargetPath sl) targetPath)) (set_active (MrID req) empty_context)
             in mbind (ask E (OpLstat targetPath)) (\<lambda>st.
               if st = Missing then link
               else if st \<notin> {IsLink, IsDir, IsFile} then mfail (MntFailed (OpLstat targetPath))
               else mbind (if st = IsLink then ask E (OpReadlink targetPath) else mret (Target '''')) (\<lambda>a. case a of
                   Target to \<Rightarrow>
                     if st = IsLink \<and> to = SymlinkTargetPath sl then mret ()
                     else if \<not> ForceSymlink sl then mfail (MntNotSymlink targetPath)
                     else mbind (ask E (OpRemoveAll targetPath)) (\<lambda>rm.
                       if rm = Done then link
                       else if st \<noteq> IsDir then mfail (MntFailed (OpRemoveAll targetPath))
                       else mbind (ask E (OpReadDir targetPath)) (\<lambda>ns. case ns of
                           Names entries \<Rightarrow> mseq (remove_entries E targetPath entries) (set_active (MrID req) empty_context)
                         | _ \<Rightarrow> mfail (MntFailed (OpReadDir targetPath))))
                 | _ \<Rightarrow> mfail (MntFailed (OpReadlink targetPath))))))"

fun fs_params :: "ParameterSpec list \<Rightarrow> fs_option list" where
  "fs_params [] = []"
| "fs_params (p # ps) =
     (case ParamType p of
        FSParameterTypeBinaryValue \<Rightarrow> (case ParamBinary p of None \<Rightarrow> fs_params ps | Some b \<Rightarrow> FsBinary (ParamName p) b # fs_params ps)
      | FSParameterTypeStringValue \<Rightarrow> (case ParamString p of None \<Rightarrow> fs_params ps | Some v \<Rightarrow> FsString (ParamName p) v # fs_params ps)
      | FSParameterTypeBooleanValue \<Rightarrow> FsBool (ParamName p) # fs_params ps)"

definition disk_manager :: "string \<Rightarrow> string \<Rightarrow> FilesystemType \<Rightarrow> mount_request_spec \<Rightarrow> MountSpec \<Rightarrow> manager" where
  "disk_manager mountSource mountTarget fs r m =
     \<lparr>MgrFS = Fsopen (fs_name fs) (FsSource mountSource # FsProjectQuota (ProjectQuotaSupport m) # fs_params (Parameters m)),
      MgrTarget = mountTarget, MgrLabel = SelinuxLabel m, MgrReadOnly = MrReadOnly r, MgrNoAtime = MrDisableAccessTime r,
      MgrSecure = MrSecure r, MgrDetached = MrDetached r, MgrExtraDirs = []\<rparr>"

text \<open>A change of an attribute: nothing on a detached mount, and a nil dereference without a file system.\<close>

definition point_attribute :: "mnt_env \<Rightarrow> active_mount \<Rightarrow> mnt_op \<Rightarrow> unit mnt" where
  "point_attribute E ctx c =
     (case CtxPoint ctx of
        Some (ManagedPoint mgr) \<Rightarrow> mwhen (\<not> MgrDetached mgr) (mcall E c)
      | _ \<Rightarrow> mfail MntPanic)"

definition update_readonly :: "mnt_env \<Rightarrow> mount_request \<Rightarrow> active_mount \<Rightarrow> active_mount mnt" where
  "update_readonly E req ctx =
     (if CtxReadOnly ctx = MrReadOnly (MrSpec req) then mret ctx
      else (let ctx' = ctx\<lparr>CtxReadOnly := MrReadOnly (MrSpec req)\<rparr>
            in mseq (point_attribute E ctx (OpRemount (MrID req) (MrReadOnly (MrSpec req)))) (mseq (set_active (MrID req) ctx') (mret ctx'))))"

definition update_atime :: "mnt_env \<Rightarrow> mount_request \<Rightarrow> active_mount \<Rightarrow> active_mount mnt" where
  "update_atime E req ctx =
     (if CtxDisableAccessTime ctx = MrDisableAccessTime (MrSpec req) then mret ctx
      else (let ctx' = ctx\<lparr>CtxDisableAccessTime := MrDisableAccessTime (MrSpec req)\<rparr>
            in mseq (point_attribute E ctx (OpSetDisableAccessTime (MrID req) (MrDisableAccessTime (MrSpec req)))) (mseq (set_active (MrID req) ctx') (mret ctx'))))"

definition update_secure :: "mnt_env \<Rightarrow> mount_request \<Rightarrow> active_mount \<Rightarrow> active_mount mnt" where
  "update_secure E req ctx =
     (if CtxSecure ctx = MrSecure (MrSpec req) then mret ctx
      else (let ctx' = ctx\<lparr>CtxSecure := MrSecure (MrSpec req)\<rparr>
            in mseq (point_attribute E ctx (OpSetSecure (MrID req) (MrSecure (MrSpec req)))) (mseq (set_active (MrID req) ctx') (mret ctx'))))"

definition handleDiskMountOperation :: "mnt_env \<Rightarrow> string \<Rightarrow> string \<Rightarrow> FilesystemType \<Rightarrow> mount_request \<Rightarrow> MountSpec \<Rightarrow> unit mnt" where
  "handleDiskMountOperation E mountSource mountTarget fs req m =
     mbind (active (MrID req)) (\<lambda>found.
       mbind (case found of
           Some ctx \<Rightarrow> mret ctx
         | None \<Rightarrow>
             (let r = MrSpec req; mgr = disk_manager mountSource mountTarget fs r m;
                  ctx = \<lparr>CtxPoint = Some (ManagedPoint mgr), CtxReadOnly = MrReadOnly r,
                    CtxDisableAccessTime = MrDisableAccessTime r, CtxSecure = MrSecure r, CtxUnmounter = True\<rparr>
              in mseq (mount_with E (MrID req) mgr (\<not> MrReadOnly r \<and> \<not> MrDetached r) m)
                 (mseq (set_active (MrID req) ctx) (mret ctx))))
       (\<lambda>ctx. mbind (update_readonly E req ctx) (\<lambda>ctx. mbind (update_atime E req ctx) (\<lambda>ctx.
          mseq (update_secure E req ctx) (mret ())))))"

text \<open>NewOverlayWithBasePath: the directories are named after the part of the target behind its first slash.\<close>

definition overlay_prefix :: "string \<Rightarrow> string" where
  "overlay_prefix tgt = replace_all ''/'' ''-'' (drop 1 (dropWhile (\<lambda>c. c \<noteq> CHR ''/'') tgt))"

definition NewOverlayWithBasePath :: "string list \<Rightarrow> string \<Rightarrow> string \<Rightarrow> string \<Rightarrow> manager" where
  "NewOverlayWithBasePath sources tgt basePath label =
     (let diff = path_Join basePath (overlay_prefix tgt @ ''-diff''); workdir = path_Join basePath (overlay_prefix tgt @ ''-workdir'')
      in zero_manager\<lparr>MgrLabel := label, MgrTarget := tgt, MgrExtraDirs := [diff, workdir],
           MgrFS := Fsopen ''overlay'' ([FsString ''upperdir'' diff, FsString ''workdir'' workdir] @
             (if length sources > 1 then map (FsString ''lowerdir+'') sources
              else if length sources = 1 then [FsString ''lowerdir'' (sources ! 0)] else []))\<rparr>)"

definition NewVarOverlay :: "string list \<Rightarrow> string \<Rightarrow> string \<Rightarrow> manager" where
  "NewVarOverlay sources tgt label = NewOverlayWithBasePath sources tgt ''/var/system/overlays'' label"

definition handleOverlayMountOperation :: "mnt_env \<Rightarrow> string \<Rightarrow> mount_request \<Rightarrow> VolumeStatusSpec \<Rightarrow> unit mnt" where
  "handleOverlayMountOperation E mountTarget req vs =
     mbind (active (MrID req)) (\<lambda>ctx.
       if ctx \<noteq> None then mret ()
       else if StParentID vs \<noteq> EphemeralPartitionLabel then mfail (MntOverlay (StParentID vs))
       else (let mgr = NewVarOverlay [mountTarget] mountTarget (SelinuxLabel (StMount vs))
             in mseq (mount_with E (MrID req) mgr True (StMount vs))
                (set_active (MrID req) \<lparr>CtxPoint = Some (ManagedPoint mgr), CtxReadOnly = False,
                   CtxDisableAccessTime = False, CtxSecure = False, CtxUnmounter = True\<rparr>)))"

definition handleSwapMountOperation :: "mnt_env \<Rightarrow> string \<Rightarrow> mount_request \<Rightarrow> unit mnt" where
  "handleSwapMountOperation E mountSource req =
     mbind (active (MrID req)) (\<lambda>ctx.
       if ctx \<noteq> None then mret ()
       else mseq (mcall E (OpMount (MrID req) (SwapPoint mountSource)))
            (set_active (MrID req) (empty_context\<lparr>CtxPoint := Some (SwapPoint mountSource)\<rparr>)))"

definition handleMountOperation :: "mnt_env \<Rightarrow> string \<Rightarrow> string \<Rightarrow> string \<Rightarrow> FilesystemType \<Rightarrow> mount_request \<Rightarrow> VolumeStatusSpec \<Rightarrow> unit mnt" where
  "handleMountOperation E rootPath mountSource mountTarget fs req vs =
     (case StType vs of
        VolumeTypeDirectory \<Rightarrow> handleDirectoryMountOperation E rootPath mountTarget req (StMount vs)
      | VolumeTypeOverlay \<Rightarrow> handleOverlayMountOperation E (path_Join rootPath mountTarget) req vs
      | VolumeTypeSymlink \<Rightarrow> handleSymlinkMountOperation E rootPath mountTarget req (StSymlink vs)
      | VolumeTypeTmpfs \<Rightarrow> mfail MntNotImplemented
      | VolumeTypeExternal \<Rightarrow> handleDiskMountOperation E mountSource (path_Join rootPath mountTarget) fs req (StMount vs)
      | _ \<Rightarrow> if fs = FilesystemTypeSwap then handleSwapMountOperation E mountSource req
             else handleDiskMountOperation E mountSource (path_Join rootPath mountTarget) fs req (StMount vs))"

section \<open>Unmounting\<close>

text \<open>handleDiskUnmountOperation and handleDirectoryUnmountOperation.\<close>

definition handleDiskUnmountOperation :: "mnt_env \<Rightarrow> mount_request \<Rightarrow> unit mnt" where
  "handleDiskUnmountOperation E req =
     mbind (active (MrID req)) (\<lambda>found. case found of
         None \<Rightarrow> mret ()
       | Some ctx \<Rightarrow>
           (case CtxPoint ctx of
              Some p \<Rightarrow> if CtxUnmounter ctx then mseq (mcall E (OpUnmount (MrID req) p)) (del_active (MrID req)) else mfail MntPanic
            | None \<Rightarrow> mfail MntPanic))"

text \<open>swap.Off on the source of the point.\<close>

definition point_source :: "mount_point \<Rightarrow> string" where
  "point_source p =
     (case p of
        SwapPoint src \<Rightarrow> src
      | ManagedPoint mgr \<Rightarrow> (case MgrFS mgr of Opentree src \<Rightarrow> src | Fsopen _ opts \<Rightarrow> (case opts of FsSource src # _ \<Rightarrow> src | _ \<Rightarrow> '''')))"

definition handleSwapUmountOperation :: "mnt_env \<Rightarrow> mount_request \<Rightarrow> unit mnt" where
  "handleSwapUmountOperation E req =
     mbind (active (MrID req)) (\<lambda>found. case found of
         None \<Rightarrow> mret ()
       | Some ctx \<Rightarrow>
           (case CtxPoint ctx of
              Some p \<Rightarrow> mseq (mcall E (OpUnmount (MrID req) (SwapPoint (point_source p)))) (del_active (MrID req))
            | None \<Rightarrow> mfail MntPanic))"

definition handleUnmountOperation :: "mnt_env \<Rightarrow> mount_request \<Rightarrow> VolumeStatusSpec \<Rightarrow> unit mnt" where
  "handleUnmountOperation E req vs =
     (case StType vs of
        VolumeTypeDirectory \<Rightarrow> handleDiskUnmountOperation E req
      | VolumeTypeTmpfs \<Rightarrow> mfail MntNotImplemented
      | VolumeTypeExternal \<Rightarrow> handleDiskUnmountOperation E req
      | VolumeTypeSymlink \<Rightarrow> del_active (MrID req)
      | _ \<Rightarrow> if Filesystem vs = FilesystemTypeSwap then handleSwapUmountOperation E req else handleDiskUnmountOperation E req)"

section \<open>One turn of Run\<close>

definition mount_ctrl :: string where
  "mount_ctrl = ''block.MountController''"

definition parent_fin :: "mount_request \<Rightarrow> string" where
  "parent_fin req = mount_ctrl @ ''-'' @ MrID req"

definition tearDownMountStatus :: "mnt_env \<Rightarrow> mount_request \<Rightarrow> bool mnt" where
  "tearDownMountStatus E req =
     mbind (ask E (OpTeardown (MrID req))) (\<lambda>a.
       if a = Missing then mret True
       else if a = NotReady then mret False
       else if a \<noteq> Done then mfail (MntFailed (OpTeardown (MrID req)))
       else mseq (mcall E (OpDestroy (MrID req))) (mret True))"

text \<open>What a turn has read.\<close>

record mnt_snapshot =
  SnVolumes :: "(string, VolumeStatus) gomap"
  SnStatuses :: "(string, mount_status_res) gomap"
  SnRequests :: "mount_request list"

definition volume_of :: "mnt_snapshot \<Rightarrow> mount_request \<Rightarrow> VolumeStatus option" where
  "volume_of sn req = gm_get (SnVolumes sn) (MrVolumeID (MrSpec req))"

definition parent_of :: "mnt_snapshot \<Rightarrow> mount_request \<Rightarrow> mount_status_res option" where
  "parent_of sn req = gm_get (SnStatuses sn) (ParentMountID (MrSpec req))"

definition has_parent :: "mount_request \<Rightarrow> bool" where
  "has_parent req \<longleftrightarrow> ParentMountID (MrSpec req) \<noteq> ''''"

definition volume_not_ready :: "mnt_snapshot \<Rightarrow> mount_request \<Rightarrow> bool" where
  "volume_not_ready sn req =
     (case volume_of sn req of None \<Rightarrow> True | Some vs \<Rightarrow> Phase (VsSpec vs) \<noteq> VolumePhaseReady \<or> VsPhase vs \<noteq> PhaseRunning)"

definition status_tearing_down :: "mnt_snapshot \<Rightarrow> mount_request \<Rightarrow> bool" where
  "status_tearing_down sn req = (case gm_get (SnStatuses sn) (MrID req) of None \<Rightarrow> False | Some st \<Rightarrow> MsPhase st = PhaseTearingDown)"

definition parent_ready :: "mnt_snapshot \<Rightarrow> mount_request \<Rightarrow> bool" where
  "parent_ready sn req = (\<not> has_parent req \<or> (case parent_of sn req of None \<Rightarrow> False | Some st \<Rightarrow> MsPhase st = PhaseRunning))"

definition parent_tearing_down :: "mnt_snapshot \<Rightarrow> mount_request \<Rightarrow> bool" where
  "parent_tearing_down sn req = (has_parent req \<and> (case parent_of sn req of None \<Rightarrow> False | Some st \<Rightarrow> MsPhase st = PhaseTearingDown))"

definition to_be_torn_down :: "mnt_snapshot \<Rightarrow> mount_request \<Rightarrow> bool" where
  "to_be_torn_down sn req \<longleftrightarrow> volume_not_ready sn req \<or> MrPhase req = PhaseTearingDown \<or> status_tearing_down sn req \<or> parent_tearing_down sn req"

text \<open>The steps that follow when the mount status is gone.\<close>

definition release_request :: "mnt_env \<Rightarrow> mnt_snapshot \<Rightarrow> mount_request \<Rightarrow> unit mnt" where
  "release_request E sn req =
     mseq (case volume_of sn req of
         None \<Rightarrow> mret ()
       | Some vs \<Rightarrow> mseq (handleUnmountOperation E req (VsSpec vs))
           (mwhen (mount_ctrl \<in> set (VsFinalizers vs)) (mcall E (OpRemoveFinalizer (RefVolume (MrVolumeID (MrSpec req))) mount_ctrl))))
     (mseq (case parent_of sn req of
         None \<Rightarrow> mret ()
       | Some ps \<Rightarrow> mwhen (parent_fin req \<in> set (MsFinalizers ps)) (mcall E (OpRemoveFinalizer (RefStatus (ParentMountID (MrSpec req))) (parent_fin req))))
     (mwhen (mount_ctrl \<in> set (MrFinalizers req)) (mcall E (OpRemoveFinalizer (RefRequest (MrID req)) mount_ctrl))))"

definition mount_root_of :: "string \<Rightarrow> string \<Rightarrow> active_mount option \<Rightarrow> mount_root" where
  "mount_root_of rootPath mountTarget ctx =
     (case ctx of
        None \<Rightarrow> ShadowRoot (path_Join rootPath mountTarget)
      | Some c \<Rightarrow> (case CtxPoint c of Some p \<Rightarrow> PointRoot p | None \<Rightarrow> ShadowRoot (path_Join rootPath mountTarget)))"

definition root_path :: "mnt_snapshot \<Rightarrow> mount_request \<Rightarrow> string" where
  "root_path sn req = (if has_parent req then (case parent_of sn req of Some ps \<Rightarrow> MsTarget (MsStatus ps) | None \<Rightarrow> '''') else ''/'')"

definition status_of_mount :: "mnt_snapshot \<Rightarrow> mount_request \<Rightarrow> VolumeStatusSpec \<Rightarrow> active_mount option \<Rightarrow> mount_status_spec" where
  "status_of_mount sn req vs ctx =
     (let rootPath = root_path sn req; mountTarget = TargetPath (StMount vs)
      in \<lparr>MsSpec = MrSpec req, MsSource = MountLocation vs, MsTarget = path_Join rootPath mountTarget, MsFilesystem = Filesystem vs,
          MsEncryption = EncryptionProvider vs, MsReadOnly = MrReadOnly (MrSpec req), MsProjectQuota = ProjectQuotaSupport (StMount vs),
          MsDetached = MrDetached (MrSpec req), MsRoot = mount_root_of rootPath mountTarget ctx\<rparr>)"

text \<open>The finalizers are looked up in the snapshot.\<close>

definition protect_request :: "mnt_env \<Rightarrow> mnt_snapshot \<Rightarrow> mount_request \<Rightarrow> VolumeStatus \<Rightarrow> unit mnt" where
  "protect_request E sn req vs =
     mseq (mwhen (mount_ctrl \<notin> set (MrFinalizers req)) (mcall E (OpAddFinalizer (RefRequest (MrID req)) mount_ctrl)))
     (mseq (case (if has_parent req then parent_of sn req else None) of
         None \<Rightarrow> mret ()
       | Some ps \<Rightarrow> mwhen (parent_fin req \<notin> set (MsFinalizers ps) \<and> MsPhase ps = PhaseRunning)
           (mcall E (OpAddFinalizer (RefStatus (ParentMountID (MrSpec req))) (parent_fin req))))
     (mwhen (mount_ctrl \<notin> set (VsFinalizers vs)) (mcall E (OpAddFinalizer (RefVolume (MrVolumeID (MrSpec req))) mount_ctrl))))"

definition mount_request_now :: "mnt_env \<Rightarrow> mnt_snapshot \<Rightarrow> mount_request \<Rightarrow> VolumeStatus \<Rightarrow> unit mnt" where
  "mount_request_now E sn req vs =
     (let v = VsSpec vs
      in mseq (handleMountOperation E (root_path sn req) (MountLocation v) (TargetPath (StMount v)) (Filesystem v) req v)
         (mbind (active (MrID req)) (\<lambda>ctx. mcall E (OpWriteStatus (MrID req) (status_of_mount sn req v ctx)))))"

definition reconcile_request :: "mnt_env \<Rightarrow> mnt_snapshot \<Rightarrow> mount_request \<Rightarrow> unit mnt" where
  "reconcile_request E sn req =
     mbind (if to_be_torn_down sn req
        then mbind (tearDownMountStatus E req) (\<lambda>gone. if gone then mseq (release_request E sn req) (mret True) else mret False)
        else mret True) (\<lambda>go_on.
       if \<not> go_on \<or> volume_not_ready sn req \<or> MrPhase req = PhaseTearingDown \<or> \<not> parent_ready sn req then mret ()
       else (case volume_of sn req of
           None \<Rightarrow> mret ()
         | Some vs \<Rightarrow> mseq (protect_request E sn req vs) (mount_request_now E sn req vs)))"

fun reconcile_all :: "mnt_env \<Rightarrow> mnt_snapshot \<Rightarrow> mount_request list \<Rightarrow> unit mnt" where
  "reconcile_all E sn [] = mret ()"
| "reconcile_all E sn (r # rs) = mseq (reconcile_request E sn r) (reconcile_all E sn rs)"

definition mount_turn :: "mnt_env \<Rightarrow> mnt_snapshot \<Rightarrow> unit mnt" where
  "mount_turn E sn = reconcile_all E sn (SnRequests sn)"

end
