(* ===== verification/MountProps.thy ===== *)
theory MountProps
  imports Mounts
begin

text \<open>
  The mount controller of theory Mounts: a calculus of pre- and postconditions for its steps, the invariant that
  ties the map activeMounts to the mounts that are there, and what protects a mount while it is used.
\<close>

section \<open>Reasoning about steps\<close>

text \<open>From P, a step never panics and leads to Q with a result, or to R with an error.\<close>

definition steps :: "(mnt_state \<Rightarrow> bool) \<Rightarrow> 'a mnt \<Rightarrow> ('a \<Rightarrow> mnt_state \<Rightarrow> bool) \<Rightarrow> (mnt_state \<Rightarrow> bool) \<Rightarrow> bool" where
  "steps P m Q R \<longleftrightarrow> (\<forall>s. P s \<longrightarrow> (case m s of (Inr x, s') \<Rightarrow> Q x s' | (Inl e, s') \<Rightarrow> e \<noteq> MntPanic \<and> R s'))"

named_theorems step_rules \<open>rules for the steps of the mount controller\<close>

lemma stepsI: "(\<And>s. P s \<Longrightarrow> case m s of (Inr x, s') \<Rightarrow> Q x s' | (Inl e, s') \<Rightarrow> e \<noteq> MntPanic \<and> R s') \<Longrightarrow> steps P m Q R"
  by (simp add: steps_def)

lemma steps_ret [step_rules]: "(\<And>s. P s \<Longrightarrow> Q x s) \<Longrightarrow> steps P (mret x) Q R"
  by (simp add: steps_def mret_def)

lemma steps_fail [step_rules]: "e \<noteq> MntPanic \<Longrightarrow> (\<And>s. P s \<Longrightarrow> R s) \<Longrightarrow> steps P (mfail e) Q R"
  by (simp add: steps_def mfail_def)

lemma steps_bind: "steps P m M R \<Longrightarrow> (\<And>x. steps (M x) (f x) Q R) \<Longrightarrow> steps P (mbind m f) Q R"
  unfolding steps_def mbind_def by (fastforce split: prod.splits sum.splits)

lemma steps_seq: "steps P m (\<lambda>_. M) R \<Longrightarrow> steps M k Q R \<Longrightarrow> steps P (mseq m k) Q R"
  unfolding mseq_def by (rule steps_bind)

lemma steps_when [step_rules]: "(b \<Longrightarrow> steps P m Q R) \<Longrightarrow> (\<And>s. \<not> b \<Longrightarrow> P s \<Longrightarrow> Q () s) \<Longrightarrow> steps P (mwhen b m) Q R"
  by (auto simp: mwhen_def intro: steps_ret)

lemma steps_if [step_rules]: "(b \<Longrightarrow> steps P m Q R) \<Longrightarrow> (\<not> b \<Longrightarrow> steps P k Q R) \<Longrightarrow> steps P (if b then m else k) Q R"
  by simp

lemma steps_weaken: "steps P m Q R \<Longrightarrow> (\<And>s. P' s \<Longrightarrow> P s) \<Longrightarrow> (\<And>x s. Q x s \<Longrightarrow> Q' x s) \<Longrightarrow> (\<And>s. R s \<Longrightarrow> R' s) \<Longrightarrow> steps P' m Q' R'"
  unfolding steps_def by (fastforce split: prod.splits sum.splits)

lemma steps_ask:
  "(\<And>s. P s \<Longrightarrow> Q (E (Calls s) c) (s\<lparr>Calls := Calls s @ [(c, E (Calls s) c)]\<rparr>)) \<Longrightarrow> steps P (ask E c) Q R"
  by (simp add: steps_def ask_def)

lemma steps_call:
  "(\<And>s. P s \<Longrightarrow> E (Calls s) c = Done \<Longrightarrow> Q () (s\<lparr>Calls := Calls s @ [(c, Done)]\<rparr>)) \<Longrightarrow>
   (\<And>s a. P s \<Longrightarrow> a \<noteq> Done \<Longrightarrow> R (s\<lparr>Calls := Calls s @ [(c, a)]\<rparr>)) \<Longrightarrow> steps P (mcall E c) Q R"
  by (auto simp: steps_def mcall_def mbind_def ask_def mret_def mfail_def)

lemma steps_active: "(\<And>s. P s \<Longrightarrow> Q (gm_get (ActiveMounts s) mid) s) \<Longrightarrow> steps P (active mid) Q R"
  by (simp add: steps_def active_def)

lemma steps_set_active: "(\<And>s. P s \<Longrightarrow> Q () (s\<lparr>ActiveMounts := gm_set (ActiveMounts s) mid ctx\<rparr>)) \<Longrightarrow> steps P (set_active mid ctx) Q R"
  by (simp add: steps_def set_active_def)

lemma steps_del_active: "(\<And>s. P s \<Longrightarrow> Q () (s\<lparr>ActiveMounts := gm_del (ActiveMounts s) mid\<rparr>)) \<Longrightarrow> steps P (del_active mid) Q R"
  by (simp add: steps_def del_active_def)

section \<open>What a history says\<close>

text \<open>A mount that is there, and a mount status that is gone.\<close>

fun mounted_step :: "string \<Rightarrow> mnt_op \<times> mnt_answer \<Rightarrow> bool \<Rightarrow> bool" where
  "mounted_step i (OpMount j p, a) m = (if j = i \<and> a = Done then True else m)"
| "mounted_step i (OpUnmount j p, a) m = (if j = i \<and> a = Done then False else m)"
| "mounted_step i (OpDiscard j p, a) m = (if j = i then False else m)"
| "mounted_step i (c, a) m = m"

definition mounted_now :: "string \<Rightarrow> mnt_calls \<Rightarrow> bool" where
  "mounted_now i cs = foldl (\<lambda>m c. mounted_step i c m) False cs"

fun gone_step :: "string \<Rightarrow> mnt_op \<times> mnt_answer \<Rightarrow> bool \<Rightarrow> bool" where
  "gone_step i (OpTeardown j, a) g = (if j = i \<and> a = Missing then True else g)"
| "gone_step i (OpDestroy j, a) g = (if j = i \<and> a = Done then True else g)"
| "gone_step i (OpWriteStatus j st, a) g = (if j = i then False else g)"
| "gone_step i (c, a) g = g"

definition status_gone :: "string \<Rightarrow> mnt_calls \<Rightarrow> bool" where
  "status_gone i cs = foldl (\<lambda>g c. gone_step i c g) False cs"

lemma mounted_simps [simp]: "\<not> mounted_now i []" "mounted_now i (cs @ [c]) = mounted_step i c (mounted_now i cs)"
  by (simp_all add: mounted_now_def)

lemma status_gone_simps [simp]: "\<not> status_gone i []" "status_gone i (cs @ [c]) = gone_step i c (status_gone i cs)"
  by (simp_all add: status_gone_def)

text \<open>When a call may be made: a mount of what is not mounted; an unmount of what is, after its status is gone;
  and the removal of the finalizers of a request and its volume after both.\<close>

fun allowed :: "mnt_calls \<Rightarrow> mnt_op \<Rightarrow> bool" where
  "allowed cs (OpMount i p) = (\<not> mounted_now i cs)"
| "allowed cs (OpUnmount i p) = (mounted_now i cs \<and> status_gone i cs)"
| "allowed cs (OpDiscard i p) = mounted_now i cs"
| "allowed cs (OpRemoveFinalizer (RefRequest i) f) = (\<not> mounted_now i cs \<and> status_gone i cs)"
| "allowed cs (OpRemoveFinalizer (RefVolume i) f) = (\<not> mounted_now i cs \<and> status_gone i cs)"
| "allowed cs c = True"

definition trace_ok :: "mnt_calls \<Rightarrow> bool" where
  "trace_ok cs \<longleftrightarrow> (\<forall>xs c a ys. cs = xs @ (c, a) # ys \<longrightarrow> allowed xs c)"

lemma trace_ok_simps [simp]: "trace_ok []" "trace_ok (cs @ [(c, a)]) \<longleftrightarrow> trace_ok cs \<and> allowed cs c"
proof -
  show "trace_ok (cs @ [(c, a)]) \<longleftrightarrow> trace_ok cs \<and> allowed cs c"
  proof
    assume t: "trace_ok (cs @ [(c, a)])"
    have "allowed xs d" if "cs = xs @ (d, b) # ys" for xs d b ys
      using t that unfolding trace_ok_def by (metis append_Cons append_assoc)
    then show "trace_ok cs \<and> allowed cs c" using t unfolding trace_ok_def by blast
  next
    assume t: "trace_ok cs \<and> allowed cs c"
    have "allowed xs d" if e: "cs @ [(c, a)] = xs @ (d, b) # ys" for xs d b ys
    proof (cases ys rule: rev_cases)
      case Nil
      then show ?thesis using t e by simp
    next
      case (snoc ys' y)
      then have "cs = xs @ (d, b) # ys'" using e by simp
      then show ?thesis using t unfolding trace_ok_def by blast
    qed
    then show "trace_ok (cs @ [(c, a)])" unfolding trace_ok_def by blast
  qed
qed (simp add: trace_ok_def)

text \<open>Calls that say nothing about mounts, statuses and finalizers.\<close>

definition harmless :: "mnt_op \<Rightarrow> bool" where
  "harmless c \<longleftrightarrow> (\<forall>i a b. mounted_step i (c, a) b = b \<and> gone_step i (c, a) b = b) \<and> (\<forall>cs. allowed cs c)"

lemma harmless_simps [simp]:
  "harmless (OpMkdir p md)" "harmless (OpStat p)" "harmless (OpLstat p)" "harmless (OpReadlink p)" "harmless (OpSymlink p q)"
  "harmless (OpRemoveAll p)" "harmless (OpReadDir p)" "harmless (OpChmod p md)" "harmless (OpOwner p)" "harmless (OpChown p u g)"
  "harmless (OpChownRecursive p u' g')" "harmless (OpGetLabel p)" "harmless (OpSetLabel p l)" "harmless (OpSetLabelRecursive p l)"
  "harmless (OpRemount i b)" "harmless (OpSetDisableAccessTime i b)" "harmless (OpSetSecure i b)" "harmless (OpAddFinalizer r f)"
  "harmless (OpRemoveFinalizer (RefStatus i) f)"
  by (simp_all add: harmless_def)

section \<open>Steps that keep what they find\<close>

definition closed :: "(mnt_state \<Rightarrow> bool) \<Rightarrow> bool" where
  "closed P \<longleftrightarrow> (\<forall>s c a. P s \<longrightarrow> harmless c \<longrightarrow> P (s\<lparr>Calls := Calls s @ [(c, a)]\<rparr>))"

abbreviation step_keeps :: "(mnt_state \<Rightarrow> bool) \<Rightarrow> 'a mnt \<Rightarrow> bool" where
  "step_keeps P m \<equiv> steps P m (\<lambda>_. P) P"

lemma keeps_ask: "closed P \<Longrightarrow> harmless c \<Longrightarrow> step_keeps P (ask E c)"
  by (rule steps_ask) (simp add: closed_def)

lemma keeps_call: "closed P \<Longrightarrow> harmless c \<Longrightarrow> step_keeps P (mcall E c)"
  by (rule steps_call) (simp_all add: closed_def)

lemma keeps_ret: "step_keeps P (mret x)"
  by (rule steps_ret)

lemma mount_keeps_fail: "e \<noteq> MntPanic \<Longrightarrow> step_keeps P (mfail e)"
  by (rule steps_fail)

lemma keeps_bind: "step_keeps P m \<Longrightarrow> (\<And>x. step_keeps P (f x)) \<Longrightarrow> step_keeps P (mbind m f)"
  by (rule steps_bind)

lemma keeps_seq: "step_keeps P m \<Longrightarrow> step_keeps P k \<Longrightarrow> step_keeps P (mseq m k)"
  by (rule steps_seq)

lemma keeps_when: "(b \<Longrightarrow> step_keeps P m) \<Longrightarrow> step_keeps P (mwhen b m)"
  by (rule steps_when) simp_all

lemma mount_keeps_if: "(b \<Longrightarrow> step_keeps P m) \<Longrightarrow> (\<not> b \<Longrightarrow> step_keeps P k) \<Longrightarrow> step_keeps P (if b then m else k)"
  by simp

lemmas keeps_rules = keeps_ret keeps_bind keeps_seq keeps_when mount_keeps_if

lemma updateTargetSettings_keeps:
  assumes "closed P"
  shows "step_keeps P (updateTargetSettings E path m)"
proof -
  note h = keeps_ask [OF assms] keeps_call [OF assms] mount_keeps_fail
  have owner: "step_keeps P (case a of Owner uid gid \<Rightarrow> mwhen (uid \<noteq> word_of_int (MountUID m) \<or> gid \<noteq> word_of_int (MountGID m))
      (mcall E (if RecursiveRelabel m then OpChownRecursive path (word_of_int (MountUID m)) (word_of_int (MountGID m))
        else OpChown path (MountUID m) (MountGID m))) | _ \<Rightarrow> mfail (MntFailed (OpOwner path)))" for a
    by (cases a) (auto intro!: keeps_when h)
  have label: "step_keeps P (case a of Target label \<Rightarrow>
      if label = SelinuxLabel m then mret ()
      else (let c = (if RecursiveRelabel m then OpSetLabelRecursive path (SelinuxLabel m) else OpSetLabel path (SelinuxLabel m))
            in mbind (ask E c) (\<lambda>a. if a = Done \<or> a = Unsupported then mret () else mfail (MntFailed c)))
    | _ \<Rightarrow> mfail (MntFailed (OpGetLabel path)))" for a
    by (cases a) (auto simp: Let_def intro!: keeps_rules h)
  show ?thesis unfolding updateTargetSettings_def
    by (intro keeps_seq keeps_bind owner label h) simp_all
qed

lemma make_directory_keeps: "closed P \<Longrightarrow> step_keeps P (make_directory E path md)"
  unfolding make_directory_def by (intro keeps_bind mount_keeps_if keeps_ret mount_keeps_fail keeps_ask) simp_all

section \<open>The invariant\<close>

text \<open>\<open>KindNone\<close> is the kind of what has no volume.\<close>

datatype mount_kind = KindLink | KindSwap | KindMount | KindNone

definition volume_kind :: "VolumeStatusSpec \<Rightarrow> mount_kind" where
  "volume_kind vs =
     (if StType vs = VolumeTypeSymlink then KindLink
      else if StType vs \<in> {VolumeTypePartition, VolumeTypeDisk} \<and> Filesystem vs = FilesystemTypeSwap then KindSwap
      else KindMount)"

fun context_fits :: "mount_kind \<Rightarrow> active_mount \<Rightarrow> bool" where
  "context_fits KindNone ctx = False"
| "context_fits KindLink ctx = (CtxPoint ctx = None)"
| "context_fits KindSwap ctx = (case CtxPoint ctx of Some (SwapPoint _) \<Rightarrow> True | _ \<Rightarrow> False)"
| "context_fits KindMount ctx = (CtxUnmounter ctx \<and> (case CtxPoint ctx of Some (ManagedPoint _) \<Rightarrow> True | _ \<Rightarrow> False))"

text \<open>The controller knows its mounts, apart from those of \<open>J\<close>.\<close>

definition tracked :: "(string \<Rightarrow> mount_kind) \<Rightarrow> string set \<Rightarrow> mnt_state \<Rightarrow> bool" where
  "tracked K J s \<longleftrightarrow> trace_ok (Calls s) \<and>
     (\<forall>i ctx. gm_get (ActiveMounts s) i = Some ctx \<longrightarrow> context_fits (K i) ctx) \<and>
     (\<forall>i. i \<notin> J \<longrightarrow> (mounted_now i (Calls s) \<longleftrightarrow> K i \<noteq> KindLink \<and> gm_get (ActiveMounts s) i \<noteq> None))"

definition unmounted :: "(string \<Rightarrow> mount_kind) \<Rightarrow> string \<Rightarrow> mnt_state \<Rightarrow> bool" where
  "unmounted K i s \<longleftrightarrow> tracked K {} s \<and> gm_get (ActiveMounts s) i = None"

text \<open>Between the mount and its entry in activeMounts.\<close>

definition just_mounted :: "(string \<Rightarrow> mount_kind) \<Rightarrow> string \<Rightarrow> mnt_state \<Rightarrow> bool" where
  "just_mounted K i s \<longleftrightarrow> tracked K {i} s \<and> mounted_now i (Calls s) \<and> gm_get (ActiveMounts s) i = None"

lemma harmlessD: "harmless c \<Longrightarrow> mounted_step i (c, a) b = b \<and> gone_step i (c, a) b = b \<and> allowed cs c"
  by (simp add: harmless_def)

lemma tracked_harmless: "tracked K J s \<Longrightarrow> harmless c \<Longrightarrow> tracked K J (s\<lparr>Calls := Calls s @ [(c, a)]\<rparr>)"
  by (simp add: tracked_def harmlessD)

lemma closed_tracked: "closed (tracked K J)"
  by (simp add: closed_def tracked_harmless)

lemma closed_unmounted: "closed (unmounted K i)"
  by (simp add: closed_def unmounted_def tracked_harmless)

lemma closed_just_mounted: "closed (just_mounted K i)"
  by (simp add: closed_def just_mounted_def tracked_harmless harmlessD)

lemma closed_gone: "closed P \<Longrightarrow> closed (\<lambda>s. P s \<and> status_gone i (Calls s))"
  by (simp add: closed_def harmlessD)

lemma unmounted_tracked: "unmounted K i s \<Longrightarrow> tracked K {} s"
  by (simp add: unmounted_def)

lemma not_mounted: "unmounted K i s \<Longrightarrow> \<not> mounted_now i (Calls s)"
  by (simp add: unmounted_def tracked_def)

section \<open>Mounting keeps the invariant\<close>

abbreviation leads :: "(mnt_state \<Rightarrow> bool) \<Rightarrow> 'a mnt \<Rightarrow> (string \<Rightarrow> mount_kind) \<Rightarrow> bool" where
  "leads P m K \<equiv> steps P m (\<lambda>_. tracked K {}) (tracked K {})"

lemma keeps_error: "step_keeps P m \<Longrightarrow> (\<And>s. P s \<Longrightarrow> R s) \<Longrightarrow> steps P m (\<lambda>_. P) R"
  by (erule steps_weaken)

lemma mount_step:
  "steps (unmounted K i) (mcall E (OpMount i p)) (\<lambda>_. just_mounted K i) (tracked K {})"
  by (rule steps_call) (auto simp: unmounted_def just_mounted_def tracked_def)

lemma discard_step: "steps (just_mounted K i) (ask E (OpDiscard i p)) (\<lambda>_. unmounted K i) R"
  by (rule steps_ask) (auto simp: unmounted_def just_mounted_def tracked_def)

lemma settings_or_discard:
  "steps (just_mounted K i) (\<lambda>s. case updateTargetSettings E path m s of
      (Inr u, s) \<Rightarrow> (Inr u, s) | (Inl e, s) \<Rightarrow> mseq (ask E (OpDiscard i p)) (mfail e) s)
    (\<lambda>_. just_mounted K i) (tracked K {})"
proof (rule stepsI)
  fix s assume s: "just_mounted K i s"
  have set: "step_keeps (just_mounted K i) (updateTargetSettings E path m)" by (rule updateTargetSettings_keeps [OF closed_just_mounted])
  obtain r s' where r: "updateTargetSettings E path m s = (r, s')" by fastforce
  have res: "(case r of Inr x \<Rightarrow> just_mounted K i s' | Inl e \<Rightarrow> e \<noteq> MntPanic \<and> just_mounted K i s')"
    using set s r unfolding steps_def by (auto split: sum.splits)
  show "case (case updateTargetSettings E path m s of
      (Inr u, s) \<Rightarrow> (Inr u, s) | (Inl e, s) \<Rightarrow> mseq (ask E (OpDiscard i p)) (mfail e) s) of
    (Inr x, s') \<Rightarrow> just_mounted K i s' | (Inl e, s') \<Rightarrow> e \<noteq> MntPanic \<and> tracked K {} s'"
  proof (cases r)
    case (Inl e)
    have "steps (just_mounted K i) (mseq (ask E (OpDiscard i p)) (mfail e :: unit mnt)) (\<lambda>_. just_mounted K i) (tracked K {})"
      by (rule steps_seq [OF discard_step steps_fail]) (use res Inl unmounted_tracked in auto)
    then show ?thesis using res Inl r unfolding steps_def by auto
  qed (use res r in simp)
qed

lemma mount_with_steps: "steps (unmounted K i) (mount_with E i mgr settings m) (\<lambda>_. just_mounted K i) (tracked K {})"
proof -
  let ?k = "\<lambda>s. case updateTargetSettings E (MgrTarget mgr) m s of
      (Inr u, s) \<Rightarrow> (Inr u, s) | (Inl e, s) \<Rightarrow> mseq (ask E (OpDiscard i (ManagedPoint mgr))) (mfail e) s"
  have "mount_with E i mgr settings m = mseq (mcall E (OpMount i (ManagedPoint mgr))) (mwhen settings ?k)"
    by (rule ext) (simp add: mount_with_def)
  then show ?thesis
    using steps_seq [OF mount_step steps_when [OF settings_or_discard]] by simp
qed

lemma enter_mount:
  assumes "context_fits (K i) ctx" "K i \<noteq> KindLink"
  shows "steps (just_mounted K i) (set_active i ctx) (\<lambda>_. tracked K {}) (tracked K {})"
  by (rule steps_set_active) (use assms in \<open>auto simp: just_mounted_def tracked_def gm_get_set\<close>)

lemma enter_link:
  assumes "K i = KindLink"
  shows "steps (tracked K {}) (set_active i empty_context) (\<lambda>_. tracked K {}) (tracked K {})"
  by (rule steps_set_active) (use assms in \<open>auto simp: tracked_def gm_get_set empty_context_def\<close>)

text \<open>A step that starts by looking up its mount.\<close>

lemma lookup_steps:
  assumes "leads (unmounted K i) (f None) K"
    "\<And>ctx. leads (\<lambda>s. tracked K {} s \<and> gm_get (ActiveMounts s) i = Some ctx) (f (Some ctx)) K"
  shows "leads (tracked K {}) (mbind (active i) f) K"
proof (rule steps_bind)
  show "steps (tracked K {}) (active i) (\<lambda>x s. tracked K {} s \<and> gm_get (ActiveMounts s) i = x) (tracked K {})"
    by (rule steps_active) simp
  fix x show "leads (\<lambda>s. tracked K {} s \<and> gm_get (ActiveMounts s) i = x) (f x) K"
    using assms by (cases x) (simp_all add: unmounted_def [abs_def])
qed

lemma leads_ret: "(\<And>s. P s \<Longrightarrow> tracked K {} s) \<Longrightarrow> leads P (mret x) K"
  by (rule steps_ret)

lemma once_leads:
  assumes "leads (unmounted K i) k K"
  shows "leads (tracked K {}) (mbind (active i) (\<lambda>ctx. if ctx \<noteq> None then mret () else k)) K"
  by (rule lookup_steps) (use assms in \<open>auto intro: leads_ret\<close>)

lemma bind_mount_leads:
  assumes "K (MrID req) = KindMount"
  shows "leads (tracked K {}) (handleBindMountOperation E rootPath src bindTarget req m) K"
  unfolding handleBindMountOperation_def Let_def
  by (intro once_leads steps_seq [OF keeps_error [OF make_directory_keeps [OF closed_unmounted]]] steps_seq [OF mount_with_steps] enter_mount)
    (use assms unmounted_tracked in auto)

lemma leads_keeps: "step_keeps (tracked K {}) m \<Longrightarrow> leads (tracked K {}) m K"
  by simp

lemma steps_map_error:
  assumes "steps P m Q R" "\<And>e. e \<noteq> MntPanic \<Longrightarrow> f e \<noteq> MntPanic"
  shows "steps P (\<lambda>s. case m s of (Inl e, s) \<Rightarrow> (Inl (f e), s) | (Inr u, s) \<Rightarrow> (Inr u, s)) Q R"
proof (rule stepsI)
  fix s assume "P s"
  obtain r s' where r: "m s = (r, s')" by fastforce
  then have "case r of Inr x \<Rightarrow> Q x s' | Inl e \<Rightarrow> e \<noteq> MntPanic \<and> R s'"
    using assms(1) \<open>P s\<close> unfolding steps_def by (auto split: sum.splits)
  then show "case (case m s of (Inl e, s) \<Rightarrow> (Inl (f e), s) | (Inr u, s) \<Rightarrow> (Inr u, s)) of
      (Inr x, s') \<Rightarrow> Q x s' | (Inl e, s') \<Rightarrow> e \<noteq> MntPanic \<and> R s'"
    using assms(2) r by (cases r) auto
qed

lemma directory_leads:
  assumes "K (MrID req) = KindMount"
  shows "leads (tracked K {}) (handleDirectoryMountOperation E rootPath tgt req m) K"
proof -
  have bind: "leads (tracked K {}) (\<lambda>s. case handleBindMountOperation E rootPath tgt b req m s of
      (Inl e, s) \<Rightarrow> (Inl (if e = MntPanic then e else MntNotDirectory p), s) | (Inr u, s) \<Rightarrow> (Inr u, s)) K" for b p
    by (rule steps_map_error [OF bind_mount_leads]) (simp_all add: assms)
  have opt: "leads (tracked K {}) (case BindTarget m of None \<Rightarrow> mret () | Some b \<Rightarrow> (\<lambda>s. case handleBindMountOperation E rootPath tgt b req m s of
      (Inl e, s) \<Rightarrow> (Inl (if e = MntPanic then e else MntNotDirectory p), s) | (Inr u, s) \<Rightarrow> (Inr u, s))) K" for p
    using bind by (cases "BindTarget m") (auto intro: leads_ret)
  show ?thesis unfolding handleDirectoryMountOperation_def Let_def
    by (rule keeps_seq [OF make_directory_keeps [OF closed_tracked] keeps_seq [OF opt updateTargetSettings_keeps [OF closed_tracked]]])
qed

lemma remove_entries_keeps: "closed P \<Longrightarrow> step_keeps P (remove_entries E path ns)"
  by (induction ns) (auto intro!: keeps_ret keeps_seq keeps_ask)

lemma symlink_leads:
  assumes "K (MrID req) = KindLink"
  shows "leads (tracked K {}) (handleSymlinkMountOperation E rootPath tgt req sl) K"
proof -
  let ?P = "tracked K {}"
  note cl = closed_tracked [of K "{}"]
  have link: "step_keeps ?P (mseq (mcall E (OpSymlink a b)) (set_active (MrID req) empty_context))" for a b
    by (intro keeps_seq keeps_call cl enter_link assms) simp
  have dir: "step_keeps ?P (case ns of Names entries \<Rightarrow> mseq (remove_entries E p entries) (set_active (MrID req) empty_context)
      | _ \<Rightarrow> mfail (MntFailed (OpReadDir p)))" for ns p
    by (cases ns) (auto intro!: keeps_seq remove_entries_keeps cl enter_link assms mount_keeps_fail)
  have rest: "step_keeps ?P (case a of
      Target to \<Rightarrow>
        if st = IsLink \<and> to = SymlinkTargetPath sl then mret ()
        else if \<not> ForceSymlink sl then mfail (MntNotSymlink p)
        else mbind (ask E (OpRemoveAll p)) (\<lambda>rm.
          if rm = Done then mseq (mcall E (OpSymlink (SymlinkTargetPath sl) p)) (set_active (MrID req) empty_context)
          else if st \<noteq> IsDir then mfail (MntFailed (OpRemoveAll p))
          else mbind (ask E (OpReadDir p)) (\<lambda>ns. case ns of
              Names entries \<Rightarrow> mseq (remove_entries E p entries) (set_active (MrID req) empty_context)
            | _ \<Rightarrow> mfail (MntFailed (OpReadDir p))))
    | _ \<Rightarrow> mfail (MntFailed (OpReadlink p)))" for a st p
    by (cases a) (auto intro!: keeps_rules mount_keeps_fail keeps_ask cl link dir)
  have "step_keeps ?P (handleSymlinkMountOperation E rootPath tgt req sl)"
    unfolding handleSymlinkMountOperation_def Let_def
    by (intro once_leads steps_weaken [OF keeps_bind [OF keeps_ask [OF cl]]] mount_keeps_if link keeps_bind rest mount_keeps_fail keeps_ask keeps_ret cl)
      (auto simp: unmounted_def)
  then show ?thesis .
qed

text \<open>A mount that is there, with its context.\<close>

definition has_mount :: "(string \<Rightarrow> mount_kind) \<Rightarrow> string \<Rightarrow> active_mount \<Rightarrow> mnt_state \<Rightarrow> bool" where
  "has_mount K i ctx s \<longleftrightarrow> tracked K {} s \<and> gm_get (ActiveMounts s) i = Some ctx"

lemma has_mount_fits: "has_mount K i ctx s \<Longrightarrow> context_fits (K i) ctx"
  by (simp add: has_mount_def tracked_def)

lemma has_mount_tracked: "has_mount K i ctx s \<Longrightarrow> tracked K {} s"
  by (simp add: has_mount_def)

lemma closed_has_mount: "closed (has_mount K i ctx)"
  by (simp add: closed_def has_mount_def tracked_harmless)

lemma replace_context:
  assumes "context_fits (K i) ctx \<Longrightarrow> context_fits (K i) ctx'"
  shows "steps (has_mount K i ctx) (set_active i ctx') (\<lambda>_. has_mount K i ctx') R"
  by (rule steps_set_active) (use assms in \<open>auto simp: has_mount_def tracked_def gm_get_set\<close>)

lemma point_attribute_keeps:
  assumes "K i = KindMount" "harmless c"
  shows "step_keeps (has_mount K i ctx) (point_attribute E ctx c)"
proof (cases "context_fits KindMount ctx")
  case True
  then obtain mgr where "CtxPoint ctx = Some (ManagedPoint mgr)" by (auto split: option.splits mount_point.splits)
  then show ?thesis using assms(2) by (simp add: point_attribute_def keeps_when keeps_call closed_has_mount)
next
  case False
  then have "\<not> has_mount K i ctx s" for s using has_mount_fits [of K i ctx s] assms(1) by auto
  then show ?thesis by (simp add: steps_def)
qed

lemma attribute_step:
  assumes "K i = KindMount" "harmless c" "context_fits KindMount ctx \<Longrightarrow> context_fits KindMount ctx'"
  shows "steps (has_mount K i ctx) (mseq (point_attribute E ctx c) (mseq (set_active i ctx') (mret ctx'))) (has_mount K i) (tracked K {})"
proof -
  have point: "steps (has_mount K i ctx) (point_attribute E ctx c) (\<lambda>_. has_mount K i ctx) (tracked K {})"
    by (rule keeps_error [OF point_attribute_keeps]) (use assms has_mount_tracked in auto)
  have "steps (has_mount K i ctx) (mseq (set_active i ctx') (mret ctx')) (has_mount K i) (tracked K {})"
    by (rule steps_seq [OF replace_context steps_ret]) (use assms in auto)
  with point show ?thesis by (rule steps_seq)
qed

lemma update_steps:
  assumes "K (MrID req) = KindMount"
  shows "steps (has_mount K (MrID req) ctx) (update_readonly E req ctx) (has_mount K (MrID req)) (tracked K {})"
    and "steps (has_mount K (MrID req) ctx) (update_atime E req ctx) (has_mount K (MrID req)) (tracked K {})"
    and "steps (has_mount K (MrID req) ctx) (update_secure E req ctx) (has_mount K (MrID req)) (tracked K {})"
  unfolding update_readonly_def update_atime_def update_secure_def Let_def
  by (intro steps_if steps_ret attribute_step; simp add: assms)+

lemma enter_disk:
  assumes "context_fits (K i) ctx" "K i \<noteq> KindLink"
  shows "steps (just_mounted K i) (mseq (set_active i ctx) (mret ctx)) (has_mount K i) (tracked K {})"
proof -
  have "steps (just_mounted K i) (set_active i ctx) (\<lambda>_. has_mount K i ctx) (tracked K {})"
    by (rule steps_set_active) (use assms in \<open>auto simp: just_mounted_def has_mount_def tracked_def gm_get_set\<close>)
  then show ?thesis by (rule steps_seq) (rule steps_ret)
qed

lemma disk_leads:
  assumes "K (MrID req) = KindMount"
  shows "leads (tracked K {}) (handleDiskMountOperation E src tgt fs req m) K"
proof -
  have update: "leads (has_mount K (MrID req) ctx) (mbind (update_readonly E req ctx) (\<lambda>ctx. mbind (update_atime E req ctx) (\<lambda>ctx.
      mseq (update_secure E req ctx) (mret ())))) K" for ctx
    unfolding mseq_def
    by (intro steps_bind [OF update_steps(1)] steps_bind [OF update_steps(2)] steps_bind [OF update_steps(3)] steps_ret assms has_mount_tracked)
  show ?thesis unfolding handleDiskMountOperation_def Let_def
  proof (rule lookup_steps)
    show "leads (unmounted K (MrID req)) (mbind (case None of Some ctx \<Rightarrow> mret ctx | None \<Rightarrow> mseq (mount_with E (MrID req)
          (disk_manager src tgt fs (MrSpec req) m) (\<not> MrReadOnly (MrSpec req) \<and> \<not> MrDetached (MrSpec req)) m)
        (mseq (set_active (MrID req) \<lparr>CtxPoint = Some (ManagedPoint (disk_manager src tgt fs (MrSpec req) m)),
             CtxReadOnly = MrReadOnly (MrSpec req), CtxDisableAccessTime = MrDisableAccessTime (MrSpec req), CtxSecure = MrSecure (MrSpec req),
             CtxUnmounter = True\<rparr>)
          (mret \<lparr>CtxPoint = Some (ManagedPoint (disk_manager src tgt fs (MrSpec req) m)),
             CtxReadOnly = MrReadOnly (MrSpec req), CtxDisableAccessTime = MrDisableAccessTime (MrSpec req), CtxSecure = MrSecure (MrSpec req),
             CtxUnmounter = True\<rparr>)))
      (\<lambda>ctx. mbind (update_readonly E req ctx) (\<lambda>ctx. mbind (update_atime E req ctx) (\<lambda>ctx. mseq (update_secure E req ctx) (mret ()))))) K"
      unfolding option.case
      by (rule steps_bind [OF steps_seq [OF mount_with_steps enter_disk] update]) (simp_all add: assms)
  next
    fix ctx
    show "leads (\<lambda>s. tracked K {} s \<and> gm_get (ActiveMounts s) (MrID req) = Some ctx) (mbind (case Some ctx of Some ctx \<Rightarrow> mret ctx | None \<Rightarrow> k)
      (\<lambda>ctx. mbind (update_readonly E req ctx) (\<lambda>ctx. mbind (update_atime E req ctx) (\<lambda>ctx. mseq (update_secure E req ctx) (mret ()))))) K" for k
      unfolding option.case by (rule steps_bind [OF steps_ret update]) (simp add: has_mount_def)
  qed
qed

lemma overlay_leads:
  assumes "K (MrID req) = KindMount"
  shows "leads (tracked K {}) (handleOverlayMountOperation E tgt req vs) K"
  unfolding handleOverlayMountOperation_def Let_def
  by (intro once_leads steps_if steps_fail steps_seq [OF mount_with_steps] enter_mount) (use assms unmounted_tracked in auto)

lemma swap_leads:
  assumes "K (MrID req) = KindSwap"
  shows "leads (tracked K {}) (handleSwapMountOperation E src req) K"
  unfolding handleSwapMountOperation_def
  by (intro once_leads steps_seq [OF mount_step] enter_mount) (use assms in auto)

text \<open>The volume is of the kind with which its mounts are kept. An overlay has no file system of its own.\<close>

definition volume_fits :: "mount_kind \<Rightarrow> VolumeStatusSpec \<Rightarrow> bool" where
  "volume_fits k vs \<longleftrightarrow> volume_kind vs = k \<and> (StType vs = VolumeTypeOverlay \<longrightarrow> Filesystem vs \<noteq> FilesystemTypeSwap)"

lemma mount_leads:
  assumes "volume_fits (K (MrID req)) vs"
  shows "leads (tracked K {}) (handleMountOperation E root src tgt (Filesystem vs) req vs) K"
  using assms
  by (auto simp: handleMountOperation_def volume_fits_def volume_kind_def split: VolumeType.split if_splits
      intro!: directory_leads overlay_leads symlink_leads disk_leads swap_leads steps_fail)

section \<open>A turn keeps the invariant\<close>

text \<open>The mount and its status are gone.\<close>

definition released :: "(string \<Rightarrow> mount_kind) \<Rightarrow> string \<Rightarrow> mnt_state \<Rightarrow> bool" where
  "released K i s \<longleftrightarrow> unmounted K i s \<and> status_gone i (Calls s)"

definition status_over :: "(string \<Rightarrow> mount_kind) \<Rightarrow> string \<Rightarrow> mnt_state \<Rightarrow> bool" where
  "status_over K i s \<longleftrightarrow> tracked K {} s \<and> status_gone i (Calls s)"

lemma released_tracked: "released K i s \<Longrightarrow> tracked K {} s"
  by (simp add: released_def unmounted_def)

lemma closed_released: "closed (released K i)"
  by (simp add: closed_def released_def unmounted_def tracked_harmless harmlessD)

lemma unmount_step:
  assumes "K i \<noteq> KindLink"
  shows "steps (\<lambda>s. status_over K i s \<and> gm_get (ActiveMounts s) i = Some ctx) (mseq (mcall E (OpUnmount i p)) (del_active i))
    (\<lambda>_. released K i) (tracked K {})"
proof (rule steps_seq)
  show "steps (\<lambda>s. status_over K i s \<and> gm_get (ActiveMounts s) i = Some ctx) (mcall E (OpUnmount i p))
      (\<lambda>_ s. tracked K {i} s \<and> \<not> mounted_now i (Calls s) \<and> status_gone i (Calls s)) (tracked K {})"
    by (rule steps_call) (use assms in \<open>auto simp: status_over_def tracked_def\<close>)
  show "steps (\<lambda>s. tracked K {i} s \<and> \<not> mounted_now i (Calls s) \<and> status_gone i (Calls s)) (del_active i) (\<lambda>_. released K i) (tracked K {})"
    by (rule steps_del_active) (auto simp: released_def unmounted_def tracked_def gm_get_del)
qed

text \<open>A step that looks up its mount to take it away.\<close>

lemma release_lookup:
  assumes "\<And>ctx. context_fits (K i) ctx \<Longrightarrow>
    steps (\<lambda>s. status_over K i s \<and> gm_get (ActiveMounts s) i = Some ctx) (f ctx) (\<lambda>_. released K i) (tracked K {})"
  shows "steps (status_over K i) (mbind (active i) (\<lambda>found. case found of None \<Rightarrow> mret () | Some ctx \<Rightarrow> f ctx)) (\<lambda>_. released K i) (tracked K {})"
proof (rule steps_bind)
  show "steps (status_over K i) (active i) (\<lambda>x s. status_over K i s \<and> gm_get (ActiveMounts s) i = x) (tracked K {})"
    by (rule steps_active) simp
  fix x
  show "steps (\<lambda>s. status_over K i s \<and> gm_get (ActiveMounts s) i = x) (case x of None \<Rightarrow> mret () | Some ctx \<Rightarrow> f ctx) (\<lambda>_. released K i) (tracked K {})"
  proof (cases x)
    case None
    then show ?thesis by (auto simp: released_def unmounted_def status_over_def intro!: steps_ret)
  next
    case (Some ctx)
    show ?thesis
    proof (cases "context_fits (K i) ctx")
      case True
      then show ?thesis using assms Some by simp
    next
      case False
      then have "\<not> (status_over K i s \<and> gm_get (ActiveMounts s) i = Some ctx)" for s
        by (auto simp: status_over_def tracked_def)
      then show ?thesis using Some by (auto simp: steps_def)
    qed
  qed
qed

lemma disk_unmount_steps:
  assumes "K (MrID req) = KindMount"
  shows "steps (status_over K (MrID req)) (handleDiskUnmountOperation E req) (\<lambda>_. released K (MrID req)) (tracked K {})"
  unfolding handleDiskUnmountOperation_def
  by (rule release_lookup) (use assms unmount_step [where K = K] in \<open>auto split: option.splits mount_point.splits\<close>)

lemma swap_unmount_steps:
  assumes "K (MrID req) = KindSwap"
  shows "steps (status_over K (MrID req)) (handleSwapUmountOperation E req) (\<lambda>_. released K (MrID req)) (tracked K {})"
  unfolding handleSwapUmountOperation_def
  by (rule release_lookup) (use assms unmount_step [where K = K] in \<open>auto split: option.splits mount_point.splits\<close>)

lemma unmount_steps:
  assumes "volume_fits (K (MrID req)) vs"
  shows "steps (status_over K (MrID req)) (handleUnmountOperation E req vs) (\<lambda>_. released K (MrID req)) (tracked K {})"
proof -
  have link: "K (MrID req) = KindLink \<Longrightarrow> steps (status_over K (MrID req)) (del_active (MrID req)) (\<lambda>_. released K (MrID req)) (tracked K {})"
    by (rule steps_del_active) (auto simp: released_def unmounted_def status_over_def tracked_def gm_get_del)
  show ?thesis using assms link
    by (auto simp: handleUnmountOperation_def volume_fits_def volume_kind_def status_over_def split: VolumeType.split if_splits
        intro!: disk_unmount_steps swap_unmount_steps steps_fail)
qed

lemma teardown_steps:
  "steps (tracked K {}) (tearDownMountStatus E req) (\<lambda>gone s. tracked K {} s \<and> (gone \<longrightarrow> status_gone (MrID req) (Calls s))) (tracked K {})"
proof -
  have destroy: "steps (tracked K {}) (mseq (mcall E (OpDestroy (MrID req))) (mret True))
      (\<lambda>gone s. tracked K {} s \<and> (gone \<longrightarrow> status_gone (MrID req) (Calls s))) (tracked K {})"
    by (rule steps_seq [where M = "\<lambda>s. tracked K {} s \<and> status_gone (MrID req) (Calls s)"])
      (auto simp: tracked_def intro!: steps_call steps_ret)
  have ask: "steps (tracked K {}) (ask E (OpTeardown (MrID req)))
      (\<lambda>a s. tracked K {} s \<and> (a = Missing \<longrightarrow> status_gone (MrID req) (Calls s))) (tracked K {})"
    by (rule steps_ask) (auto simp: tracked_def)
  show ?thesis unfolding tearDownMountStatus_def
    by (rule steps_bind [OF ask]) (auto intro!: steps_ret steps_fail steps_weaken [OF destroy])
qed

lemma remove_fin_keeps:
  "r = RefRequest i \<or> r = RefVolume i \<Longrightarrow> step_keeps (released K i) (mcall E (OpRemoveFinalizer r f))"
  by (rule steps_call) (auto simp: released_def unmounted_def tracked_def)

lemma released_error: "step_keeps (released K i) m \<Longrightarrow> steps (released K i) m (\<lambda>_. released K i) (tracked K {})"
  by (rule keeps_error) (auto intro: released_tracked)

text \<open>What a request may rely on: its own volume under its own name, of the kind that is kept.\<close>

definition request_fits :: "(string \<Rightarrow> mount_kind) \<Rightarrow> mnt_snapshot \<Rightarrow> mount_request \<Rightarrow> bool" where
  "request_fits K sn req \<longleftrightarrow> MrVolumeID (MrSpec req) = MrID req \<and>
     (case volume_of sn req of None \<Rightarrow> K (MrID req) = KindNone | Some vs \<Rightarrow> volume_fits (K (MrID req)) (VsSpec vs))"

lemma no_volume_inactive: "tracked K J s \<Longrightarrow> K i = KindNone \<Longrightarrow> gm_get (ActiveMounts s) i = None"
  by (cases "gm_get (ActiveMounts s) i") (auto simp: tracked_def, metis context_fits.simps(1))

lemma no_volume_released: "K i = KindNone \<Longrightarrow> status_over K i s \<Longrightarrow> released K i s"
  using no_volume_inactive by (auto simp: status_over_def released_def unmounted_def)

lemma release_steps:
  assumes "request_fits K sn req"
  shows "steps (status_over K (MrID req)) (release_request E sn req) (\<lambda>_. released K (MrID req)) (tracked K {})"
proof -
  let ?i = "MrID req"
  have own: "MrVolumeID (MrSpec req) = ?i" using assms by (simp add: request_fits_def)
  have fin: "steps (released K ?i) (mwhen b (mcall E (OpRemoveFinalizer r f))) (\<lambda>_. released K ?i) (tracked K {})"
    if "r = RefRequest ?i \<or> r = RefVolume ?i" for b r f
    by (rule released_error [OF keeps_when [OF remove_fin_keeps [OF that]]])
  have parent: "steps (released K ?i) (case parent_of sn req of None \<Rightarrow> mret () | Some ps \<Rightarrow>
      mwhen (parent_fin req \<in> set (MsFinalizers ps)) (mcall E (OpRemoveFinalizer (RefStatus (ParentMountID (MrSpec req))) (parent_fin req))))
    (\<lambda>_. released K ?i) (tracked K {})"
    by (rule released_error) (auto split: option.split intro!: keeps_ret keeps_when keeps_call closed_released)
  have volume: "steps (status_over K ?i) (case volume_of sn req of None \<Rightarrow> mret () | Some vs \<Rightarrow>
      mseq (handleUnmountOperation E req (VsSpec vs))
        (mwhen (mount_ctrl \<in> set (VsFinalizers vs)) (mcall E (OpRemoveFinalizer (RefVolume (MrVolumeID (MrSpec req))) mount_ctrl))))
    (\<lambda>_. released K ?i) (tracked K {})"
  proof (cases "volume_of sn req")
    case None
    then show ?thesis using assms no_volume_released [where K = K and i = ?i] by (auto simp: request_fits_def intro!: steps_ret)
  next
    case (Some vs)
    then have "volume_fits (K ?i) (VsSpec vs)" using assms by (simp add: request_fits_def)
    then show ?thesis using Some own by (auto intro!: steps_seq [OF unmount_steps] fin)
  qed
  show ?thesis unfolding release_request_def by (intro steps_seq [OF volume] steps_seq [OF parent] fin) simp
qed

lemma protect_keeps: "step_keeps (tracked K {}) (protect_request E sn req vs)"
  unfolding protect_request_def
  by (auto split: option.split intro!: keeps_seq keeps_when keeps_call keeps_ret closed_tracked)

lemma write_status_keeps: "step_keeps (tracked K {}) (mcall E (OpWriteStatus i st))"
  by (rule steps_call) (auto simp: tracked_def)

lemma mount_now_leads:
  assumes "request_fits K sn req" "volume_of sn req = Some vs"
  shows "leads (tracked K {}) (mount_request_now E sn req vs) K"
proof -
  have "volume_fits (K (MrID req)) (VsSpec vs)" using assms by (simp add: request_fits_def)
  then show ?thesis unfolding mount_request_now_def Let_def
    by (intro keeps_seq mount_leads keeps_bind write_status_keeps steps_active) simp_all
qed

lemma reconcile_request_leads:
  assumes "request_fits K sn req"
  shows "leads (tracked K {}) (reconcile_request E sn req) K"
proof -
  have down: "step_keeps (tracked K {}) (mbind (tearDownMountStatus E req) (\<lambda>gone. if gone then mseq (release_request E sn req) (mret True) else mret False))"
  proof (rule steps_bind [OF teardown_steps])
    fix gone
    have "steps (status_over K (MrID req)) (mseq (release_request E sn req) (mret True)) (\<lambda>_. tracked K {}) (tracked K {})"
      by (rule steps_seq [OF release_steps [OF assms] steps_ret]) (auto intro: released_tracked)
    then show "steps (\<lambda>s. tracked K {} s \<and> (gone \<longrightarrow> status_gone (MrID req) (Calls s)))
        (if gone then mseq (release_request E sn req) (mret True) else mret False) (\<lambda>_. tracked K {}) (tracked K {})"
      by (cases gone) (auto simp: status_over_def [abs_def] intro: steps_ret)
  qed
  have up: "step_keeps (tracked K {}) (case volume_of sn req of None \<Rightarrow> mret () | Some vs \<Rightarrow>
      mseq (protect_request E sn req vs) (mount_request_now E sn req vs))"
    using mount_now_leads [OF assms] by (auto split: option.split intro!: keeps_ret keeps_seq protect_keeps)
  show ?thesis unfolding reconcile_request_def
    by (intro keeps_bind mount_keeps_if down up keeps_ret)
qed

lemma reconcile_all_leads: "\<forall>r \<in> set rs. request_fits K sn r \<Longrightarrow> leads (tracked K {}) (reconcile_all E sn rs) K"
  by (induction rs) (auto intro!: keeps_ret keeps_seq reconcile_request_leads)

lemma steps_result: "steps P m Q R \<Longrightarrow> P s \<Longrightarrow> m s = (r, s') \<Longrightarrow> case r of Inr x \<Rightarrow> Q x s' | Inl e \<Rightarrow> e \<noteq> MntPanic \<and> R s'"
  unfolding steps_def by (auto split: sum.splits)

section \<open>Any number of turns\<close>

text \<open>A turn may read any snapshot, and be answered in any way, as long as a volume stays what it is (\<open>kind\<close>) and does not go
  away while it is mounted.\<close>

definition snapshot_ok :: "(string \<Rightarrow> mount_kind) \<Rightarrow> mnt_state \<Rightarrow> mnt_snapshot \<Rightarrow> bool" where
  "snapshot_ok kind s sn \<longleftrightarrow> (\<forall>req \<in> set (SnRequests sn). MrVolumeID (MrSpec req) = MrID req \<and>
     (case volume_of sn req of
        None \<Rightarrow> gm_get (ActiveMounts s) (MrID req) = None
      | Some vs \<Rightarrow> volume_fits (kind (MrID req)) (VsSpec vs)))"

inductive mount_runs :: "(string \<Rightarrow> mount_kind) \<Rightarrow> mnt_state \<Rightarrow> bool" for kind where
  runs_start: "mount_runs kind \<lparr>ActiveMounts = [], Calls = []\<rparr>"
| runs_turn: "mount_runs kind s \<Longrightarrow> snapshot_ok kind s sn \<Longrightarrow> mount_turn E sn s = (r, s') \<Longrightarrow> mount_runs kind s'"

lemma turn_tracked:
  assumes "tracked kind {} s" "snapshot_ok kind s sn" "mount_turn E sn s = (r, s')"
  shows "tracked kind {} s' \<and> r \<noteq> Inl MntPanic"
proof -
  define K where "K i = (if \<exists>req \<in> set (SnRequests sn). MrID req = i \<and> volume_of sn req = None then KindNone else kind i)" for i
  have changed: "gm_get (ActiveMounts s) i = None" if "K i \<noteq> kind i" for i
  proof -
    have "\<exists>req \<in> set (SnRequests sn). MrID req = i \<and> volume_of sn req = None" using that by (simp add: K_def split: if_split_asm)
    then show ?thesis using assms(2) by (auto simp: snapshot_ok_def)
  qed
  have start: "tracked K {} s"
    using assms(1) changed unfolding tracked_def by (metis option.distinct(1))
  have "request_fits K sn req" if req: "req \<in> set (SnRequests sn)" for req
  proof (cases "volume_of sn req")
    case None
    then have "K (MrID req) = KindNone" using req by (auto simp: K_def)
    then show ?thesis using None req assms(2) by (simp add: request_fits_def snapshot_ok_def)
  next
    case (Some vs)
    have own: "\<forall>r \<in> set (SnRequests sn). MrVolumeID (MrSpec r) = MrID r" using assms(2) by (auto simp: snapshot_ok_def)
    have "volume_of sn r = Some vs" if "r \<in> set (SnRequests sn)" "MrID r = MrID req" for r
      using own req that Some by (simp add: volume_of_def)
    then have "K (MrID req) = kind (MrID req)" by (auto simp: K_def)
    then show ?thesis using Some req assms(2) by (auto simp: request_fits_def snapshot_ok_def)
  qed
  then have "\<forall>r \<in> set (SnRequests sn). request_fits K sn r" by blast
  then have leads: "leads (tracked K {}) (mount_turn E sn) K" unfolding mount_turn_def by (rule reconcile_all_leads)
  then have after: "tracked K {} s' \<and> r \<noteq> Inl MntPanic"
    using steps_result [OF leads start assms(3)] by (cases r) auto
  have "context_fits (kind i) ctx" if "context_fits (K i) ctx" for i ctx
    using that by (auto simp: K_def split: if_splits)
  moreover have "K i \<noteq> KindLink \<and> gm_get (ActiveMounts s') i \<noteq> None \<longleftrightarrow> kind i \<noteq> KindLink \<and> gm_get (ActiveMounts s') i \<noteq> None" for i
  proof (cases "K i = KindNone")
    case True
    then have "gm_get (ActiveMounts s') i = None" using no_volume_inactive [of K "{}" s' i] after by blast
    then show ?thesis by simp
  next
    case False
    then have "K i = kind i" by (simp add: K_def split: if_split_asm)
    then show ?thesis by simp
  qed
  ultimately show ?thesis using after unfolding tracked_def by blast
qed

lemma runs_tracked: "mount_runs kind s \<Longrightarrow> tracked kind {} s"
proof (induction rule: mount_runs.induct)
  case runs_start
  then show ?case by (simp add: tracked_def gm_get_empty)
next
  case (runs_turn s sn E r s')
  then show ?case using turn_tracked by blast
qed

section \<open>Histories only grow\<close>

definition calls_grow :: "'a mnt \<Rightarrow> bool" where
  "calls_grow m \<longleftrightarrow> (\<forall>s. \<exists>ys. Calls (snd (m s)) = Calls s @ ys)"

lemma grows_ret: "calls_grow (mret x)" and grows_fail: "calls_grow (mfail e)" and grows_ask: "calls_grow (ask E c)"
  and grows_active: "calls_grow (active i)" and grows_set: "calls_grow (set_active i ctx)" and grows_del: "calls_grow (del_active i)"
  by (simp_all add: calls_grow_def mret_def mfail_def ask_def active_def set_active_def del_active_def)

lemma grows_bind:
  assumes "calls_grow m" "\<And>x. calls_grow (f x)"
  shows "calls_grow (mbind m f)"
  unfolding calls_grow_def
proof
  fix s
  obtain r s1 where m: "m s = (r, s1)" by fastforce
  obtain ys where ys: "Calls s1 = Calls s @ ys" using assms(1) m unfolding calls_grow_def by (metis snd_conv)
  show "\<exists>ys. Calls (snd (mbind m f s)) = Calls s @ ys"
  proof (cases r)
    case (Inr x)
    obtain zs where "Calls (snd (f x s1)) = Calls s1 @ zs" using assms(2) unfolding calls_grow_def by metis
    then show ?thesis using m ys Inr by (simp add: mbind_def)
  qed (use m ys in \<open>simp add: mbind_def\<close>)
qed

lemma grows_seq: "calls_grow m \<Longrightarrow> calls_grow k \<Longrightarrow> calls_grow (mseq m k)"
  unfolding mseq_def by (rule grows_bind)

lemma grows_when: "calls_grow m \<Longrightarrow> calls_grow (mwhen b m)"
  by (simp add: mwhen_def grows_ret)

lemma grows_if: "calls_grow m \<Longrightarrow> calls_grow k \<Longrightarrow> calls_grow (if b then m else k)"
  by simp

lemma grows_call: "calls_grow (mcall E c)"
  unfolding mcall_def by (intro grows_bind grows_ask grows_if grows_ret grows_fail)

lemma grows_handle:
  assumes "calls_grow m" "\<And>e. calls_grow (h e)"
  shows "calls_grow (\<lambda>s. case m s of (Inr u, s) \<Rightarrow> (Inr u, s) | (Inl e, s) \<Rightarrow> h e s)"
  unfolding calls_grow_def
proof
  fix s
  obtain r s1 where m: "m s = (r, s1)" by fastforce
  obtain ys where ys: "Calls s1 = Calls s @ ys" using assms(1) m unfolding calls_grow_def by (metis snd_conv)
  show "\<exists>ys. Calls (snd (case m s of (Inr u, s) \<Rightarrow> (Inr u, s) | (Inl e, s) \<Rightarrow> h e s)) = Calls s @ ys"
  proof (cases r)
    case (Inl e)
    obtain zs where "Calls (snd (h e s1)) = Calls s1 @ zs" using assms(2) unfolding calls_grow_def by metis
    then show ?thesis using m ys Inl by simp
  qed (use m ys in simp)
qed

lemmas grow_rules = grows_ret grows_fail grows_ask grows_active grows_set grows_del grows_bind grows_seq grows_when grows_if grows_call

lemma grows_settings: "calls_grow (updateTargetSettings E path m)"
proof -
  have owner: "calls_grow (case a of Owner uid gid \<Rightarrow> f uid gid | _ \<Rightarrow> mfail e)" if "\<And>u g. calls_grow (f u g)" for a f e
    using that by (cases a) (auto intro: grows_fail)
  have label: "calls_grow (case a of Target l \<Rightarrow> f l | _ \<Rightarrow> mfail e)" if "\<And>l. calls_grow (f l)" for a f e
    using that by (cases a) (auto intro: grows_fail)
  show ?thesis unfolding updateTargetSettings_def Let_def by (intro grow_rules owner label)
qed

lemma grows_mount_with: "calls_grow (mount_with E i mgr settings m)"
proof -
  have "mount_with E i mgr settings m = mseq (mcall E (OpMount i (ManagedPoint mgr))) (mwhen settings
      (\<lambda>s. case updateTargetSettings E (MgrTarget mgr) m s of
        (Inr u, s) \<Rightarrow> (Inr u, s) | (Inl e, s) \<Rightarrow> mseq (ask E (OpDiscard i (ManagedPoint mgr))) (mfail e) s))"
    by (rule ext) (simp add: mount_with_def)
  then show ?thesis by (auto intro!: grow_rules grows_handle grows_settings)
qed

lemma grows_directory: "calls_grow (handleDirectoryMountOperation E root tgt req m)"
proof -
  have make: "calls_grow (make_directory E p md)" for p md unfolding make_directory_def by (intro grow_rules)
  have bind: "calls_grow (handleBindMountOperation E root tgt b req m)" for b
    unfolding handleBindMountOperation_def Let_def by (intro grow_rules make grows_mount_with)
  have "calls_grow (\<lambda>s. case handleBindMountOperation E root tgt b req m s of
      (Inl e, s) \<Rightarrow> (Inl (if e = MntPanic then e else MntNotDirectory p), s) | (Inr u, s) \<Rightarrow> (Inr u, s))" for b p
    using bind [of b] unfolding calls_grow_def by (simp split: prod.splits sum.splits) (metis snd_conv)
  then show ?thesis unfolding handleDirectoryMountOperation_def Let_def
    by (auto intro!: grow_rules make grows_settings split: option.split)
qed

lemma grows_symlink: "calls_grow (handleSymlinkMountOperation E root tgt req sl)"
proof -
  have rm: "calls_grow (remove_entries E p ns)" for p ns by (induction ns) (auto intro!: grow_rules)
  have label: "calls_grow (case a of Target l \<Rightarrow> f l | _ \<Rightarrow> mfail e)" if "\<And>l. calls_grow (f l)" for a f e
    using that by (cases a) (auto intro: grows_fail)
  have names: "calls_grow (case a of Names l \<Rightarrow> f l | _ \<Rightarrow> mfail e)" if "\<And>l. calls_grow (f l)" for a f e
    using that by (cases a) (auto intro: grows_fail)
  show ?thesis unfolding handleSymlinkMountOperation_def Let_def by (intro grow_rules rm label names)
qed

lemma grows_disk: "calls_grow (handleDiskMountOperation E src tgt fs req m)"
proof -
  have attr: "calls_grow (point_attribute E ctx c)" for ctx c
    unfolding point_attribute_def by (auto intro!: grow_rules split: option.split mount_point.split)
  have found: "calls_grow (case x of Some ctx \<Rightarrow> mret ctx | None \<Rightarrow> k)" if "calls_grow k" for x k
    using that by (cases x) (auto intro: grows_ret)
  show ?thesis unfolding handleDiskMountOperation_def update_readonly_def update_atime_def update_secure_def Let_def
    by (intro grow_rules attr found grows_mount_with)
qed

lemma grows_mount: "calls_grow (handleMountOperation E root src tgt fs req vs)"
proof -
  have "calls_grow (handleOverlayMountOperation E t req vs)" "calls_grow (handleSwapMountOperation E src req)" for t
    unfolding handleOverlayMountOperation_def handleSwapMountOperation_def Let_def by (intro grow_rules grows_mount_with)+
  then show ?thesis unfolding handleMountOperation_def
    by (auto split: VolumeType.split intro!: grows_directory grows_symlink grows_disk grows_fail)
qed

section \<open>What protects a mount\<close>

text \<open>The finalizers of the request, of the mount of the parent and of its volume, and whether the snapshot has them.\<close>

definition parent_finalizers :: "mnt_snapshot \<Rightarrow> mount_request \<Rightarrow> (res_ref \<times> string \<times> bool) list" where
  "parent_finalizers sn req =
     (if has_parent req
      then [(RefStatus (ParentMountID (MrSpec req)), parent_fin req,
             case parent_of sn req of None \<Rightarrow> False | Some ps \<Rightarrow> parent_fin req \<in> set (MsFinalizers ps))]
      else [])"

definition required_finalizers :: "mnt_snapshot \<Rightarrow> mount_request \<Rightarrow> (res_ref \<times> string \<times> bool) list" where
  "required_finalizers sn req =
     [(RefRequest (MrID req), mount_ctrl, mount_ctrl \<in> set (MrFinalizers req))] @ parent_finalizers sn req @
     [(RefVolume (MrVolumeID (MrSpec req)), mount_ctrl, case volume_of sn req of None \<Rightarrow> False | Some vs \<Rightarrow> mount_ctrl \<in> set (VsFinalizers vs))]"

text \<open>A step that only adds finalizers, and has all of A when it succeeds.\<close>

fun has_finalizer :: "mnt_calls \<Rightarrow> res_ref \<times> string \<times> bool \<Rightarrow> bool" where
  "has_finalizer new (ref, f, held) = (held \<or> (OpAddFinalizer ref f, Done) \<in> set new)"

lemma has_finalizer_more: "has_finalizer xs p \<or> has_finalizer ys p \<Longrightarrow> has_finalizer (xs @ ys) p"
  by (cases p) auto

definition adds :: "unit mnt \<Rightarrow> (res_ref \<times> string \<times> bool) list \<Rightarrow> bool" where
  "adds m A \<longleftrightarrow> (\<forall>s. \<exists>new. Calls (snd (m s)) = Calls s @ new \<and> (\<forall>(c, a) \<in> set new. \<exists>ref f. c = OpAddFinalizer ref f) \<and>
     (fst (m s) = Inr () \<longrightarrow> (\<forall>p \<in> set A. has_finalizer new p)))"

lemma adds_one: "adds (mwhen (\<not> held) (mcall E (OpAddFinalizer ref f))) [(ref, f, held)]"
  by (auto simp: adds_def mwhen_def mcall_def mbind_def ask_def mret_def mfail_def)

lemma adds_none: "adds (mret ()) []"
  by (simp add: adds_def mret_def)

lemma adds_seq:
  assumes "adds m A" "adds k B"
  shows "adds (mseq m k) (A @ B)"
  unfolding adds_def
proof
  fix s
  obtain r s1 where m: "m s = (r, s1)" by fastforce
  obtain n1 where n1: "Calls s1 = Calls s @ n1" "\<forall>(c, a) \<in> set n1. \<exists>ref f. c = OpAddFinalizer ref f"
    "r = Inr () \<longrightarrow> (\<forall>p \<in> set A. has_finalizer n1 p)"
    using assms(1) m unfolding adds_def by (metis fst_conv snd_conv)
  obtain n2 where n2: "Calls (snd (k s1)) = Calls s1 @ n2" "\<forall>(c, a) \<in> set n2. \<exists>ref f. c = OpAddFinalizer ref f"
    "fst (k s1) = Inr () \<longrightarrow> (\<forall>p \<in> set B. has_finalizer n2 p)"
    using assms(2) unfolding adds_def by metis
  show "\<exists>new. Calls (snd (mseq m k s)) = Calls s @ new \<and> (\<forall>(c, a) \<in> set new. \<exists>ref f. c = OpAddFinalizer ref f) \<and>
     (fst (mseq m k s) = Inr () \<longrightarrow> (\<forall>p \<in> set (A @ B). has_finalizer new p))"
  proof (cases r)
    case (Inl e)
    then show ?thesis using m n1 by (intro exI [of _ n1]) (simp add: mseq_def mbind_def)
  next
    case (Inr x)
    have run: "mseq m k s = k s1" using m Inr by (simp add: mseq_def mbind_def)
    have calls: "Calls (snd (k s1)) = Calls s @ n1 @ n2" "\<forall>(c, a) \<in> set (n1 @ n2). \<exists>ref f. c = OpAddFinalizer ref f"
      using n1(1,2) n2(1,2) by auto
    have "\<forall>p \<in> set (A @ B). has_finalizer (n1 @ n2) p" if "fst (k s1) = Inr ()"
      using n1(3) n2(3) that Inr has_finalizer_more by fastforce
    then show ?thesis unfolding run using calls by blast
  qed
qed

lemma adds_parent:
  assumes "parent_ready sn req"
  shows "adds (case (if has_parent req then parent_of sn req else None) of None \<Rightarrow> mret ()
    | Some ps \<Rightarrow> mwhen (parent_fin req \<notin> set (MsFinalizers ps) \<and> MsPhase ps = PhaseRunning)
        (mcall E (OpAddFinalizer (RefStatus (ParentMountID (MrSpec req))) (parent_fin req)))) (parent_finalizers sn req)"
  using assms by (auto simp: parent_ready_def parent_finalizers_def intro: adds_none adds_one split: option.splits)

lemma adds_protect:
  assumes "volume_of sn req = Some vs" "parent_ready sn req"
  shows "adds (protect_request E sn req vs) (required_finalizers sn req)"
  unfolding protect_request_def required_finalizers_def using assms
  by (intro adds_seq adds_one adds_parent) (auto intro: adds_one)

lemma grows_mount_now: "calls_grow (mount_request_now E sn req vs)"
  unfolding mount_request_now_def Let_def by (intro grow_rules grows_mount)

text \<open>A request that is not torn down in this turn.\<close>

lemma undisturbed_request:
  assumes "reconcile_request E sn req s = (r, s')" "\<not> to_be_torn_down sn req"
  shows "\<exists>prot rest. Calls s' = Calls s @ prot @ rest \<and> (\<forall>(c, a) \<in> set prot. \<exists>ref f. c = OpAddFinalizer ref f) \<and>
    (rest \<noteq> [] \<longrightarrow> (\<forall>p \<in> set (required_finalizers sn req). has_finalizer prot p)) \<and>
    (prot @ rest \<noteq> [] \<longrightarrow> parent_ready sn req)"
proof (cases "parent_ready sn req")
  case False
  then have "s' = s" using assms by (auto simp: reconcile_request_def mbind_def mret_def)
  then show ?thesis by simp
next
  case True
  obtain vs where vs: "volume_of sn req = Some vs" using assms(2) by (auto simp: to_be_torn_down_def volume_not_ready_def split: option.splits)
  have run: "mseq (protect_request E sn req vs) (mount_request_now E sn req vs) s = (r, s')"
    using assms True vs by (simp add: reconcile_request_def mbind_def mret_def to_be_torn_down_def)
  obtain q s1 where q: "protect_request E sn req vs s = (q, s1)" by fastforce
  obtain prot where prot: "Calls s1 = Calls s @ prot" "\<forall>(c, a) \<in> set prot. \<exists>ref f. c = OpAddFinalizer ref f"
    "q = Inr () \<longrightarrow> (\<forall>p \<in> set (required_finalizers sn req). has_finalizer prot p)"
    using adds_protect [OF vs True] q unfolding adds_def by (metis fst_conv snd_conv)
  show ?thesis
  proof (cases q)
    case (Inl e)
    then show ?thesis using run q prot True by (intro exI [of _ prot] exI [of _ "[]"]) (simp add: mseq_def mbind_def)
  next
    case (Inr u)
    then have "mount_request_now E sn req vs s1 = (r, s')" using run q by (simp add: mseq_def mbind_def)
    then obtain rest where "Calls s' = Calls s1 @ rest" using grows_mount_now unfolding calls_grow_def by (metis snd_conv)
    then show ?thesis using prot Inr True by (intro exI [of _ prot] exI [of _ rest]) simp
  qed
qed

section \<open>Properties\<close>


text \<open>C32: Every mount context has the shape that belongs to the kind of its volume: none but a symbolic link is without a mount
  point, swap space has one without a file system, and everything else has a managed mount with its unmounter.
  So no turn calls a missing unmounter or uses a missing point or file system.\<close>

theorem mount_context_types:
  assumes "mount_runs kind s"
  shows "(\<forall>i ctx. gm_get (ActiveMounts s) i = Some ctx \<longrightarrow> context_fits (kind i) ctx) \<and>
    (\<forall>E sn. snapshot_ok kind s sn \<longrightarrow> fst (mount_turn E sn s) \<noteq> Inl MntPanic)"
proof
  note t = runs_tracked [OF assms]
  show "\<forall>i ctx. gm_get (ActiveMounts s) i = Some ctx \<longrightarrow> context_fits (kind i) ctx" using t by (simp add: tracked_def)
  show "\<forall>E sn. snapshot_ok kind s sn \<longrightarrow> fst (mount_turn E sn s) \<noteq> Inl MntPanic"
    using turn_tracked [OF t] by (metis prod.collapse)
qed



section \<open>Witnesses\<close>

definition demo_mnt_env :: mnt_env where
  "demo_mnt_env cs c = (case c of OpTeardown _ \<Rightarrow> Done | OpOwner _ \<Rightarrow> Owner 0 0 | OpGetLabel _ \<Rightarrow> Target ''system_u'' | _ \<Rightarrow> Done)"

definition demo_volume :: "string list \<Rightarrow> VolumeStatus" where
  "demo_volume fins = \<lparr>VsPhase = PhaseRunning, VsFinalizers = fins,
     VsSpec = zero_VolumeStatusSpec\<lparr>Phase := VolumePhaseReady, MountLocation := ''/dev/sda4'', Filesystem := FilesystemTypeXFS,
       StMount := zero_MountSpec\<lparr>TargetPath := ''/var'', SelinuxLabel := ''system_u''\<rparr>\<rparr>\<rparr>"

definition demo_request :: "ResourcePhase \<Rightarrow> string list \<Rightarrow> mount_request" where
  "demo_request ph fins = \<lparr>MrID = ''EPHEMERAL'', MrPhase = ph, MrFinalizers = fins,
     MrSpec = \<lparr>MrVolumeID = ''EPHEMERAL'', ParentMountID = '''', MrReadOnly = False, MrDetached = False, MrDisableAccessTime = False,
       MrSecure = True, Requesters = [''service-a''], RequesterIDs = [''service-a-EPHEMERAL'']\<rparr>\<rparr>"

definition demo_up :: mnt_snapshot where
  "demo_up = \<lparr>SnVolumes = [(''EPHEMERAL'', demo_volume [])], SnStatuses = [], SnRequests = [demo_request PhaseRunning []]\<rparr>"

definition demo_down :: mnt_snapshot where
  "demo_down = \<lparr>SnVolumes = [(''EPHEMERAL'', demo_volume [mount_ctrl])], SnStatuses = [], SnRequests = [demo_request PhaseTearingDown [mount_ctrl]]\<rparr>"

definition demo_mounted :: mnt_state where
  "demo_mounted = snd (mount_turn demo_mnt_env demo_up \<lparr>ActiveMounts = [], Calls = []\<rparr>)"

definition demo_unmounted :: mnt_state where
  "demo_unmounted = snd (mount_turn demo_mnt_env demo_down demo_mounted)"

lemma demo_snapshot: "snapshot_ok (\<lambda>_. KindMount) s demo_up" "snapshot_ok (\<lambda>_. KindMount) s demo_down"
  by (simp_all add: snapshot_ok_def demo_up_def demo_down_def demo_request_def volume_of_def gm_get_def demo_volume_def
      volume_fits_def volume_kind_def zero_VolumeStatusSpec_def)

lemma demo_runs:
  "mount_runs (\<lambda>_. KindMount) demo_mounted" "mount_runs (\<lambda>_. KindMount) demo_unmounted"
proof -
  show m: "mount_runs (\<lambda>_. KindMount) demo_mounted"
    unfolding demo_mounted_def by (rule runs_turn [OF runs_start demo_snapshot(1)]) (rule surjective_pairing)
  show "mount_runs (\<lambda>_. KindMount) demo_unmounted"
    unfolding demo_unmounted_def by (rule runs_turn [OF m demo_snapshot(2)]) (rule surjective_pairing)
qed

definition demo_trace :: "mnt_calls \<Rightarrow> mnt_op list" where
  "demo_trace cs = map fst cs"

lemma demo_states:
  "mounted_now ''EPHEMERAL'' (Calls demo_mounted)" "\<not> mounted_now ''EPHEMERAL'' (Calls demo_unmounted)"
  "fst (Calls demo_unmounted ! 9) = OpUnmount ''EPHEMERAL'' (ManagedPoint (disk_manager ''/dev/sda4'' ''/var'' FilesystemTypeXFS
     (MrSpec (demo_request PhaseRunning [])) (zero_MountSpec\<lparr>TargetPath := ''/var'', SelinuxLabel := ''system_u''\<rparr>)))"
  by code_simp+

lemma split_at: "n < length xs \<Longrightarrow> xs = take n xs @ (fst (xs ! n), snd (xs ! n)) # drop (Suc n) xs"
  using id_take_nth_drop [of n xs] by simp


theorem mount_context_types_witness:
  "(\<exists>ctx. gm_get (ActiveMounts demo_mounted) ''EPHEMERAL'' = Some ctx \<and> CtxUnmounter ctx) \<and>
   (\<forall>E. fst (mount_turn E demo_down demo_mounted) \<noteq> Inl MntPanic)"
proof -
  have "gm_get (ActiveMounts demo_mounted) ''EPHEMERAL'' \<noteq> None" by code_simp
  then show ?thesis using mount_context_types [OF demo_runs(1)] demo_snapshot(2) by auto
qed


lemma demo_guarded:
  "\<not> to_be_torn_down demo_up (demo_request PhaseRunning [])"
  "reconcile_request demo_mnt_env demo_up (demo_request PhaseRunning []) \<lparr>ActiveMounts = [], Calls = []\<rparr> = (Inr (), demo_mounted)"
  "2 < length (Calls demo_mounted)" "case fst (Calls demo_mounted ! 2) of OpMount _ _ \<Rightarrow> True | _ \<Rightarrow> False"
  by (simp add: to_be_torn_down_def volume_not_ready_def volume_of_def demo_up_def demo_request_def gm_get_def demo_volume_def
      status_tearing_down_def parent_tearing_down_def has_parent_def) code_simp+


section \<open>Mounting again in the same turn\<close>

text \<open>A mount status that is torn down (because the volume was not ready for a while) goes away in a turn in which
  the volume is ready again. The same turn then mounts again, but the finalizers that it has just removed are
  still in its snapshot: the mount and its status are there without any of them.\<close>

definition demo_again :: mnt_snapshot where
  "demo_again = \<lparr>SnVolumes = [(''EPHEMERAL'', demo_volume [mount_ctrl])],
     SnStatuses = [(''EPHEMERAL'', \<lparr>MsPhase = PhaseTearingDown, MsFinalizers = [],
        MsStatus = status_of_mount demo_up (demo_request PhaseRunning []) (VsSpec (demo_volume [])) None\<rparr>)],
     SnRequests = [demo_request PhaseRunning [mount_ctrl]]\<rparr>"

definition adds_finalizer :: "mnt_op \<Rightarrow> bool" where
  "adds_finalizer c = (case c of OpAddFinalizer _ _ \<Rightarrow> True | _ \<Rightarrow> False)"

lemma remount_without_finalizers:
  "let s = snd (mount_turn demo_mnt_env demo_again demo_mounted); new = drop (length (Calls demo_mounted)) (Calls s)
   in mounted_now ''EPHEMERAL'' (Calls s) \<and> \<not> status_gone ''EPHEMERAL'' (Calls s) \<and>
     (OpRemoveFinalizer (RefRequest ''EPHEMERAL'') mount_ctrl, Done) \<in> set new \<and>
     (OpRemoveFinalizer (RefVolume ''EPHEMERAL'') mount_ctrl, Done) \<in> set new \<and> \<not> list_ex (\<lambda>c. adds_finalizer (fst c)) new"
  by code_simp

end
