(* ===== verification/MountRequests.thy ===== *)
theory MountRequests
  imports MountProps MergeController
begin

text \<open>
  The two controllers around the mount controller (internal/app/machined/pkg/controllers/block):
  mount_request.go gathers the volume mount requests of all users of a volume into one mount request, and
  mount_status.go hands the status of the mount out to each of them. The cleanup and the writes of the first
  are those of the generic merge controller, step by step, so its pass is used here. At the end the three controllers
  are put together.
\<close>

section \<open>Gathering the requests\<close>

record volume_mount_request =
  VmrID :: string
  VmrVolumeID :: string
  VmrRequester :: string
  VmrReadOnly :: bool
  VmrDetached :: bool
  VmrDisableAccessTime :: bool
  VmrSecure :: bool

definition ready_volume :: "(string, VolumeStatus) gomap \<Rightarrow> string \<Rightarrow> VolumeStatusSpec option" where
  "ready_volume vols v =
     (case gm_get vols v of
        None \<Rightarrow> None
      | Some vs \<Rightarrow> if Phase (VsSpec vs) \<noteq> VolumePhaseReady \<or> VsPhase vs \<noteq> PhaseRunning then None else Some (VsSpec vs))"

definition first_request :: "volume_mount_request \<Rightarrow> mount_request_spec" where
  "first_request r =
     \<lparr>MrVolumeID = VmrVolumeID r, ParentMountID = '''', MrReadOnly = VmrReadOnly r, MrDetached = VmrDetached r,
      MrDisableAccessTime = VmrDisableAccessTime r, MrSecure = VmrSecure r, Requesters = [], RequesterIDs = []\<rparr>"

definition join_request :: "volume_mount_request \<Rightarrow> VolumeStatusSpec \<Rightarrow> mount_request_spec \<Rightarrow> mount_request_spec" where
  "join_request r vs d =
     d\<lparr>Requesters := Requesters d @ [VmrRequester r], RequesterIDs := RequesterIDs d @ [VmrID r],
       MrReadOnly := MrReadOnly d \<and> VmrReadOnly r, MrDetached := MrDetached d \<and> VmrDetached r,
       MrDisableAccessTime := MrDisableAccessTime d \<or> VmrDisableAccessTime r, MrSecure := MrSecure d \<or> VmrSecure r,
       ParentMountID := MountParentID (StMount vs)\<rparr>"

definition desired_step ::
    "(string, VolumeStatus) gomap \<Rightarrow> (string, mount_request_spec) gomap \<Rightarrow> volume_mount_request \<Rightarrow> (string, mount_request_spec) gomap" where
  "desired_step vols desired r =
     (case ready_volume vols (VmrVolumeID r) of
        None \<Rightarrow> desired
      | Some vs \<Rightarrow>
          (let d = (case gm_get desired (VmrVolumeID r) of None \<Rightarrow> first_request r | Some d \<Rightarrow> d)
           in gm_set desired (VmrVolumeID r) (join_request r vs d)))"

definition desired_mounts :: "(string, VolumeStatus) gomap \<Rightarrow> volume_mount_request list \<Rightarrow> (string, mount_request_spec) gomap" where
  "desired_mounts vols rs = foldl (desired_step vols) [] rs"

definition mount_request_pass ::
    "merge_env \<Rightarrow> ((string, mount_request_spec) gomap \<Rightarrow> (string \<times> mount_request_spec) list) \<Rightarrow> (string, VolumeStatus) gomap \<Rightarrow>
      volume_mount_request list \<Rightarrow> (string \<times> ResourcePhase) list \<Rightarrow> mount_request_spec merge_call list \<times> bool" where
  "mount_request_pass E order vols rs existing = merge_pass E order (desired_mounts vols rs) existing"

text \<open>What should come out: one request of everybody who asks for the volume.\<close>

definition gathered :: "string \<Rightarrow> VolumeStatusSpec \<Rightarrow> volume_mount_request list \<Rightarrow> mount_request_spec" where
  "gathered v vs rs =
     \<lparr>MrVolumeID = v, ParentMountID = MountParentID (StMount vs), MrReadOnly = (\<forall>r \<in> set rs. VmrReadOnly r),
      MrDetached = (\<forall>r \<in> set rs. VmrDetached r), MrDisableAccessTime = (\<exists>r \<in> set rs. VmrDisableAccessTime r),
      MrSecure = (\<exists>r \<in> set rs. VmrSecure r), Requesters = map VmrRequester rs, RequesterIDs = map VmrID rs\<rparr>"

definition requests_for :: "string \<Rightarrow> volume_mount_request list \<Rightarrow> volume_mount_request list" where
  "requests_for v rs = filter (\<lambda>r. VmrVolumeID r = v) rs"

lemma requests_for_snoc: "requests_for v (rs @ [r]) = (if VmrVolumeID r = v then requests_for v rs @ [r] else requests_for v rs)"
  by (simp add: requests_for_def)

lemma join_gathered: "join_request r vs (gathered v vs rs) = gathered v vs (rs @ [r])"
  by (auto simp: join_request_def gathered_def)

lemma join_first: "VmrVolumeID r = v \<Longrightarrow> join_request r vs (first_request r) = gathered v vs [r]"
  by (simp add: join_request_def first_request_def gathered_def)

lemma desired_mounts_spec:
  "gm_wf (desired_mounts vols rs) \<and> gm_get (desired_mounts vols rs) v =
    (case ready_volume vols v of
       None \<Rightarrow> None
     | Some vs \<Rightarrow> if requests_for v rs = [] then None else Some (gathered v vs (requests_for v rs)))"
proof (induction rs rule: rev_induct)
  case Nil
  then show ?case by (simp add: desired_mounts_def requests_for_def gm_wf_empty gm_get_empty split: option.split)
next
  case (snoc r rs)
  have step: "desired_mounts vols (rs @ [r]) = desired_step vols (desired_mounts vols rs) r" by (simp add: desired_mounts_def)
  show ?case
  proof (cases "ready_volume vols (VmrVolumeID r)")
    case None
    then show ?thesis using snoc unfolding step by (auto simp: desired_step_def requests_for_snoc split: option.splits)
  next
    case (Some vs)
    show ?thesis
    proof (cases "VmrVolumeID r = v \<and> requests_for v rs \<noteq> []")
      case True
      then show ?thesis using snoc Some unfolding step
        by (simp add: desired_step_def requests_for_snoc gm_wf_set gm_get_set join_gathered)
    next
      case False
      then show ?thesis using snoc Some unfolding step
        by (auto simp: desired_step_def requests_for_snoc gm_wf_set gm_get_set join_first split: option.split)
    qed
  qed
qed

section \<open>Handing out the status\<close>

record volume_mount_status =
  VmsMountStatus :: string
  VmsRequester :: string
  VmsTarget :: string
  VmsVolumeID :: string
  VmsReadOnly :: bool
  VmsDetached :: bool
  VmsDisableAccessTime :: bool
  VmsSecure :: bool
  VmsRoot :: mount_root

datatype status_call = SAddFinalizer string | SRemoveFinalizer string | SWrite string volume_mount_status | STeardown string | SDestroy string

text \<open>The answers of the runtime: the volume mount statuses with the label of a mount status (None is an error),
  whether one may be destroyed (None is an error), and which other calls succeed.\<close>

record status_env =
  Labelled :: "string \<Rightarrow> string list option"
  StatusReady :: "string \<Rightarrow> bool option"
  StatusOk :: "status_call \<Rightarrow> bool"

datatype status_result = StatusDone | StatusFailed | StatusPanic

definition status_ctrl :: string where
  "status_ctrl = ''block.MountStatusController''"

definition status_for :: "string \<Rightarrow> mount_status_spec \<Rightarrow> string \<Rightarrow> volume_mount_status" where
  "status_for mid st requester =
     \<lparr>VmsMountStatus = mid, VmsRequester = requester, VmsTarget = MsTarget st, VmsVolumeID = MrVolumeID (MsSpec st),
      VmsReadOnly = MrReadOnly (MsSpec st), VmsDetached = MsDetached st, VmsDisableAccessTime = MrDisableAccessTime (MsSpec st),
      VmsSecure = MrSecure (MsSpec st), VmsRoot = MsRoot st\<rparr>"

text \<open>The identifiers are indexed by the positions of the requesters.\<close>

fun explode_status :: "status_env \<Rightarrow> string \<Rightarrow> mount_status_spec \<Rightarrow> string list \<Rightarrow> string list \<Rightarrow> status_call list \<times> status_result" where
  "explode_status E mid st [] ids = ([], StatusDone)"
| "explode_status E mid st (r # rs) [] = ([], StatusPanic)"
| "explode_status E mid st (r # rs) (i # ids) =
     (let c = SWrite i (status_for mid st r)
      in if StatusOk E c then (let (cs, res) = explode_status E mid st rs ids in (c # cs, res)) else ([c], StatusFailed))"

text \<open>Takes away those that are not to be kept; the flag says whether all of them are gone (None is an error).\<close>

fun clean_statuses :: "status_env \<Rightarrow> string list \<Rightarrow> string list \<Rightarrow> status_call list \<times> bool option" where
  "clean_statuses E keep [] = ([], Some True)"
| "clean_statuses E keep (i # ids) =
     (if i \<in> set keep then clean_statuses E keep ids
      else (case StatusReady E i of
          None \<Rightarrow> ([STeardown i], None)
        | Some True \<Rightarrow>
            if StatusOk E (SDestroy i)
            then (let (cs, res) = clean_statuses E keep ids in (STeardown i # SDestroy i # cs, res))
            else ([STeardown i, SDestroy i], None)
        | Some False \<Rightarrow> (let (cs, res) = clean_statuses E keep ids in (STeardown i # cs, map_option (\<lambda>_. False) res))))"

text \<open>A call under a condition.\<close>

definition status_when :: "status_env \<Rightarrow> bool \<Rightarrow> status_call \<Rightarrow> status_call list \<times> bool" where
  "status_when E b c = (if b then ([c], StatusOk E c) else ([], True))"

definition reconcile_status :: "status_env \<Rightarrow> string \<Rightarrow> mount_status_res \<Rightarrow> status_call list \<times> status_result" where
  "reconcile_status E mid st =
     (case MsPhase st of
        PhaseRunning \<Rightarrow>
          (let spec = MsSpec (MsStatus st); (fins, ok) = status_when E (status_ctrl \<notin> set (MsFinalizers st)) (SAddFinalizer mid)
           in if \<not> ok then (fins, StatusFailed)
              else (let (ws, res) = explode_status E mid (MsStatus st) (Requesters spec) (RequesterIDs spec)
                    in if res \<noteq> StatusDone then (fins @ ws, res)
                       else (case Labelled E mid of
                           None \<Rightarrow> (fins @ ws, StatusFailed)
                         | Some ids \<Rightarrow>
                             (let (cs, gone) = clean_statuses E (RequesterIDs spec) ids
                              in (fins @ ws @ cs, if gone = None then StatusFailed else StatusDone)))))
      | PhaseTearingDown \<Rightarrow>
          (case Labelled E mid of
             None \<Rightarrow> ([], StatusFailed)
           | Some ids \<Rightarrow>
               (let (cs, gone) = clean_statuses E [] ids
                in if gone = None then (cs, StatusFailed)
                   else (let (fins, ok) = status_when E (gone = Some True \<and> status_ctrl \<in> set (MsFinalizers st)) (SRemoveFinalizer mid)
                         in (cs @ fins, if ok then StatusDone else StatusFailed)))))"

fun status_pass :: "status_env \<Rightarrow> (string \<times> mount_status_res) list \<Rightarrow> status_call list \<times> status_result" where
  "status_pass E [] = ([], StatusDone)"
| "status_pass E ((mid, st) # sts) =
     (let (cs, res) = reconcile_status E mid st
      in if res \<noteq> StatusDone then (cs, res) else (let (ds, res) = status_pass E sts in (cs @ ds, res)))"

section \<open>Properties of the three controllers\<close>

text \<open>C33: After a pass of the mount request controller without errors, there is one mount request for every volume that is ready and
  that somebody asks for, with all of its requesters: read-only and detached only if all of them want that,
  without access times and secure if any of them does. An old request on its way out is left alone while it is
  held, and a request that nobody needs any more goes as soon as nobody holds it.\<close>

theorem mount_requests_gathered:
  assumes "mount_request_pass E order vols rs existing = (calls, True)" "distinct (map fst existing)" "\<forall>m. range_order m (order m)"
  shows "calls_effect calls store v =
    (case ready_volume vols v of
       Some vs \<Rightarrow>
         if requests_for v rs \<noteq> []
         then (if held E existing v then store v else Some (gathered v vs (requests_for v rs)))
         else (if v \<in> fst ` set existing \<and> TeardownReady E v = Some True then None else store v)
     | None \<Rightarrow> if v \<in> fst ` set existing \<and> TeardownReady E v = Some True then None else store v)"
  using merge_pass_effect [OF assms(1) [unfolded mount_request_pass_def] _ assms(2,3), where store = store and k = v]
    desired_mounts_spec [of vols rs v]
  by (auto split: option.splits)

lemma clean_all_gone:
  assumes "clean_statuses E keep ids = (cs, Some True)" "i \<in> set ids" "i \<notin> set keep"
  shows "StatusReady E i = Some True \<and> SDestroy i \<in> set cs"
  using assms
proof (induction E keep ids arbitrary: cs rule: clean_statuses.induct)
  case (2 E keep j ids)
  show ?case
  proof (cases "j \<in> set keep")
    case True
    then show ?thesis using 2(1) [OF True] 2(4-6) by auto
  next
    case False
    have ready: "StatusReady E j = Some True"
      using 2(4) False by (auto split: option.splits bool.splits prod.splits)
    have ok: "StatusOk E (SDestroy j)" using 2(4) False ready by (simp split: if_splits)
    obtain ds r where ds: "clean_statuses E keep ids = (ds, r)" by fastforce
    then have "r = Some True" "cs = STeardown j # SDestroy j # ds" using 2(4) False ready ok by auto
    then show ?thesis using 2(2) [OF False ready _ ok, of ds] ready ds 2(5,6) by auto
  qed
qed simp

text \<open>The mount status controller lets go of a mount status that is torn down only after the volume mount status of every
  user of the mount is free and destroyed; an error or a user that holds on keeps its finalizer.\<close>

theorem status_finalizer_last:
  assumes "reconcile_status E mid st = (calls, res)" "calls = xs @ SRemoveFinalizer m # ys"
  shows "m = mid \<and> ys = [] \<and> MsPhase st = PhaseTearingDown \<and>
    (\<exists>ids. Labelled E mid = Some ids \<and> (\<forall>i \<in> set ids. StatusReady E i = Some True \<and> SDestroy i \<in> set xs))"
proof -
  have no_write: "SRemoveFinalizer m \<notin> set (fst (explode_status E mid spec rs ids))" for spec rs ids
    by (induction E mid spec rs ids rule: explode_status.induct) (auto simp: Let_def split: prod.splits)
  have no_clean: "SRemoveFinalizer m \<notin> set (fst (clean_statuses E keep ids))" for keep ids
    by (induction E keep ids rule: clean_statuses.induct) (auto split: prod.splits option.splits bool.splits)
  have mem: "SRemoveFinalizer m \<in> set calls" using assms(2) by simp
  show ?thesis
  proof (cases "MsPhase st")
    case PhaseRunning
    let ?spec = "MsSpec (MsStatus st)"
    obtain ws r where ws: "explode_status E mid (MsStatus st) (Requesters ?spec) (RequesterIDs ?spec) = (ws, r)" by fastforce
    have "SRemoveFinalizer m \<notin> set ws" using no_write [of "MsStatus st" "Requesters ?spec" "RequesterIDs ?spec"] ws by simp
    moreover obtain cs gone where cs: "clean_statuses E (RequesterIDs ?spec) (case Labelled E mid of Some ids \<Rightarrow> ids | None \<Rightarrow> []) = (cs, gone)" by fastforce
    have "SRemoveFinalizer m \<notin> set cs"
      using no_clean [of "RequesterIDs ?spec" "case Labelled E mid of Some ids \<Rightarrow> ids | None \<Rightarrow> []"] cs by simp
    ultimately have "SRemoveFinalizer m \<notin> set calls"
      using assms(1) PhaseRunning cs
      by (cases "Labelled E mid"; cases "status_ctrl \<in> set (MsFinalizers st)"; cases "StatusOk E (SAddFinalizer mid)"; cases "r = StatusDone")
        (auto simp: reconcile_status_def status_when_def ws)
    with mem show ?thesis by simp
  next
    case PhaseTearingDown
    then obtain ids cs gone where ids: "Labelled E mid = Some ids" "clean_statuses E [] ids = (cs, gone)"
      using assms(1) mem by (cases "Labelled E mid") (auto simp: reconcile_status_def, metis prod.exhaust)
    have "SRemoveFinalizer m \<notin> set cs" using no_clean [of "[]" ids] ids(2) by simp
    then have gone: "gone = Some True" "calls = cs @ [SRemoveFinalizer mid]"
      using assms(1) mem PhaseTearingDown ids by (auto simp: reconcile_status_def Let_def status_when_def split: if_splits)
    have "m = mid \<and> ys = [] \<and> xs = cs"
      using gone(2) assms(2) \<open>SRemoveFinalizer m \<notin> set cs\<close> by (auto simp: append_eq_append_conv2 Cons_eq_append_conv append_eq_Cons_conv)
    then show ?thesis using PhaseTearingDown ids gone(1) clean_all_gone [of E "[]" ids cs] by auto
  qed
qed

section \<open>From the request of a user to its answer\<close>

text \<open>A turn over a request that ends well publishes the status of its mount last.\<close>

lemma published_status:
  assumes "reconcile_request E sn req s = (Inr (), s')" "\<not> to_be_torn_down sn req" "parent_ready sn req" "volume_of sn req = Some vs"
  shows "\<exists>cs ctx. Calls s' = cs @ [(OpWriteStatus (MrID req) (status_of_mount sn req (VsSpec vs) ctx), Done)]"
proof -
  have ready: "\<not> volume_not_ready sn req" "MrPhase req \<noteq> PhaseTearingDown" using assms(2) by (auto simp: to_be_torn_down_def)
  have "mseq (protect_request E sn req vs) (mount_request_now E sn req vs) s = (Inr (), s')"
    using assms ready by (simp add: reconcile_request_def mbind_def mret_def)
  then obtain s1 where "mount_request_now E sn req vs s1 = (Inr (), s')"
    by (auto simp: mseq_def mbind_def split: prod.splits sum.splits)
  then obtain s2 where "mcall E (OpWriteStatus (MrID req) (status_of_mount sn req (VsSpec vs) (gm_get (ActiveMounts s2) (MrID req)))) s2 = (Inr (), s')"
    by (auto simp: mount_request_now_def Let_def mseq_def mbind_def active_def split: prod.splits sum.splits)
  then show ?thesis by (auto simp: mcall_def mbind_def ask_def mret_def mfail_def split: if_splits)
qed

lemma explode_writes:
  assumes "explode_status E mid st (map f rs) (map g rs) = (calls, StatusDone)" "r \<in> set rs"
  shows "SWrite (g r) (status_for mid st (f r)) \<in> set calls"
  using assms by (induction rs arbitrary: calls) (auto simp: Let_def split: if_splits prod.splits)

lemma reconcile_running:
  assumes "reconcile_status E mid st = (calls, StatusDone)" "MsPhase st = PhaseRunning"
  obtains ws where "explode_status E mid (MsStatus st) (Requesters (MsSpec (MsStatus st))) (RequesterIDs (MsSpec (MsStatus st))) = (ws, StatusDone)"
    "set ws \<subseteq> set calls"
proof -
  obtain ws r where ws: "explode_status E mid (MsStatus st) (Requesters (MsSpec (MsStatus st))) (RequesterIDs (MsSpec (MsStatus st))) = (ws, r)" by fastforce
  obtain cs gone where cs: "clean_statuses E (RequesterIDs (MsSpec (MsStatus st))) (case Labelled E mid of Some ids \<Rightarrow> ids | None \<Rightarrow> []) = (cs, gone)" by fastforce
  have "r = StatusDone \<and> set ws \<subseteq> set calls"
    using assms cs
    by (cases "Labelled E mid"; cases "status_ctrl \<in> set (MsFinalizers st)"; cases "StatusOk E (SAddFinalizer mid)"; cases "r = StatusDone")
      (auto simp: reconcile_status_def status_when_def ws)
  then show ?thesis using that ws by blast
qed


section \<open>Witnesses\<close>

definition demo_users :: "volume_mount_request list" where
  "demo_users = [\<lparr>VmrID = ''service-a-EPHEMERAL'', VmrVolumeID = ''EPHEMERAL'', VmrRequester = ''service-a'', VmrReadOnly = False,
     VmrDetached = False, VmrDisableAccessTime = False, VmrSecure = True\<rparr>]"

definition demo_vols :: "(string, VolumeStatus) gomap" where
  "demo_vols = [(''EPHEMERAL'', demo_volume [])]"

definition demo_status_env :: status_env where
  "demo_status_env = \<lparr>Labelled = (\<lambda>_. Some [''service-a-EPHEMERAL'']), StatusReady = (\<lambda>_. Some True), StatusOk = (\<lambda>_. True)\<rparr>"

definition demo_status :: "ResourcePhase \<Rightarrow> string list \<Rightarrow> mount_status_res" where
  "demo_status ph fins = \<lparr>MsPhase = ph, MsFinalizers = fins,
     MsStatus = (case last (Calls demo_mounted) of (OpWriteStatus i d, a) \<Rightarrow> d | _ \<Rightarrow> undefined)\<rparr>"

theorem mount_requests_gathered_witness:
  "calls_effect [CallModify ''EPHEMERAL'' (MrSpec (demo_request PhaseRunning []))] (\<lambda>_. None) ''EPHEMERAL'' =
     Some (gathered ''EPHEMERAL'' (VsSpec (demo_volume [])) demo_users)"
proof -
  have pass: "mount_request_pass demo_merge_env (\<lambda>m. m) demo_vols demo_users [] =
      ([CallModify ''EPHEMERAL'' (MrSpec (demo_request PhaseRunning []))], True)"
    by code_simp
  have ready: "ready_volume demo_vols ''EPHEMERAL'' = Some (VsSpec (demo_volume []))" "requests_for ''EPHEMERAL'' demo_users = demo_users" "demo_users \<noteq> []"
    by (simp_all add: ready_volume_def demo_vols_def gm_get_def demo_volume_def requests_for_def demo_users_def)
  have "distinct (map fst ([] :: (string \<times> ResourcePhase) list))" "\<forall>m :: (string, mount_request_spec) gomap. range_order m m" by simp_all
  from mount_requests_gathered [OF pass this, where store = "\<lambda>_. None" and v = "''EPHEMERAL''"] show ?thesis
    by (simp add: ready held_def)
qed

theorem status_finalizer_last_witness:
  "SDestroy ''service-a-EPHEMERAL'' \<in> set [STeardown ''service-a-EPHEMERAL'', SDestroy ''service-a-EPHEMERAL'']"
proof -
  have run: "reconcile_status demo_status_env ''EPHEMERAL'' (demo_status PhaseTearingDown [status_ctrl]) =
      ([STeardown ''service-a-EPHEMERAL'', SDestroy ''service-a-EPHEMERAL'', SRemoveFinalizer ''EPHEMERAL''], StatusDone)"
    by (simp add: reconcile_status_def demo_status_env_def demo_status_def status_when_def)
  have "[STeardown ''service-a-EPHEMERAL'', SDestroy ''service-a-EPHEMERAL'', SRemoveFinalizer ''EPHEMERAL''] =
      [STeardown ''service-a-EPHEMERAL'', SDestroy ''service-a-EPHEMERAL''] @ SRemoveFinalizer ''EPHEMERAL'' # []" by simp
  from status_finalizer_last [OF run this] show ?thesis by (simp add: demo_status_env_def)
qed


end
