(* ===== verification/Wiping.thy ===== *)
theory Wiping
  imports Meta Controller "HOL-Library.Sublist"
begin

text \<open>
  Wiping of block devices: internal/pkg/partition (helpers.go, wipe.go) and the tasks of a reset in
  v1alpha1_sequencer_tasks.go. Every use of a device is a call in a history, answered by an environment
  that sees the history; the device library, blkid and GPT are that environment. The bytes of the META
  partition are those of \<open>meta_world\<close>, which calls on other devices leave alone. Log lines are left out.
\<close>

section \<open>Calls on devices\<close>

text \<open>\<open>OpenNotMounted\<close> is an open for writing that also asserts that the device is not mounted. The ranges
  of a wipe are pairs of offset and size.\<close>

datatype dev_op =
    OpenForWrite string | OpenNotMounted string | LockDev string | UnlockDev string | CloseDev string
  | ProbeDev string | WipeRanges string "(u64 \<times> u64) list" | FastWipe string | WipeZeroes string
  | OpenGPT string | ReadGPT string | DeletePartition string int | WriteGPT string

datatype dev_answer = DevOk | DevBusy | DevFailed | Signatures "(u64 \<times> u64) list"

type_synonym dev_calls = "(dev_op \<times> dev_answer) list"
type_synonym dev_env = "dev_calls \<Rightarrow> dev_op \<Rightarrow> dev_answer"

datatype wipe_error =
    CallFailed dev_op
  | MissingPartition
  | UnexpectedData
  | TargetsFailed "wipe_error list"
  | TagNotDeleted
  | FlushFailed meta_error
  | Panicked
  | LookupFailed store_error
  | NoWipeTarget
  | InvalidWipeLabels string
  | LabelNotFound string
  | RebootFailed

type_synonym 'a dev = "dev_calls \<Rightarrow> (wipe_error + 'a) \<times> dev_calls"

definition dret :: "'a \<Rightarrow> 'a dev" where
  "dret x s = (Inr x, s)"

definition dfail :: "wipe_error \<Rightarrow> 'a dev" where
  "dfail e s = (Inl e, s)"

definition dbind :: "'a dev \<Rightarrow> ('a \<Rightarrow> 'b dev) \<Rightarrow> 'b dev" where
  "dbind m f s = (case m s of (Inl e, s') \<Rightarrow> (Inl e, s') | (Inr x, s') \<Rightarrow> f x s')"

definition dseq :: "'a dev \<Rightarrow> 'b dev \<Rightarrow> 'b dev" where
  "dseq m k = dbind m (\<lambda>_. k)"

definition dask :: "dev_env \<Rightarrow> dev_op \<Rightarrow> dev_answer dev" where
  "dask E c s = (Inr (E s c), s @ [(c, E s c)])"

definition dcall :: "dev_env \<Rightarrow> dev_op \<Rightarrow> unit dev" where
  "dcall E c = dbind (dask E c) (\<lambda>a. if a = DevOk then dret () else dfail (CallFailed c))"

text \<open>A deferred call runs when the body ends, and its error is dropped.\<close>

definition deferred :: "dev_env \<Rightarrow> dev_op \<Rightarrow> 'a dev \<Rightarrow> 'a dev" where
  "deferred E c m s = (case m s of (r, s') \<Rightarrow> (r, snd (dask E c s')))"

section \<open>partition.WipeWithSignatures and VolumeWipeTarget\<close>

definition WipeWithSignatures :: "dev_env \<Rightarrow> string \<Rightarrow> unit dev" where
  "WipeWithSignatures E dev =
     dbind (dask E (ProbeDev dev)) (\<lambda>a.
       dseq (case a of
           Signatures rs \<Rightarrow> if rs \<noteq> [] then dcall E (WipeRanges dev rs) else dret ()
         | _ \<Rightarrow> dret ())
       (dcall E (FastWipe dev)))"

record VolumeWipeTarget =
  WipeLabel :: string
  WipeParent :: string
  WipeDevName :: string
  WipePartition :: int

definition VolumeWipeTargetFromVolumeStatus :: "string \<Rightarrow> VolumeStatusSpec \<Rightarrow> VolumeWipeTarget" where
  "VolumeWipeTargetFromVolumeStatus vid vs =
     \<lparr>WipeLabel = vid,
      WipeParent = (if ParentLocation vs = '''' then Location vs else ParentLocation vs),
      WipeDevName = Location vs, WipePartition = PartitionIndex vs\<rparr>"

text \<open>The fields of a DiscoveredVolume that a wipe reads.\<close>

record discovered =
  DcDevPath :: string
  DcParentDevPath :: string
  DcLabel :: string
  DcIndex :: int

definition VolumeWipeTargetFromDiscoveredVolume :: "discovered \<Rightarrow> VolumeWipeTarget" where
  "VolumeWipeTargetFromDiscoveredVolume dv =
     \<lparr>WipeLabel = DcLabel dv,
      WipeParent = (if DcParentDevPath dv = '''' then DcDevPath dv else DcParentDevPath dv),
      WipeDevName = DcDevPath dv, WipePartition = DcIndex dv\<rparr>"

definition wipeWithParentLocked :: "dev_env \<Rightarrow> VolumeWipeTarget \<Rightarrow> unit dev" where
  "wipeWithParentLocked E v =
     dseq (dcall E (OpenForWrite (WipeDevName v)))
     (deferred E (CloseDev (WipeDevName v)) (WipeWithSignatures E (WipeDevName v)))"

definition dropWithParentLocked :: "dev_env \<Rightarrow> VolumeWipeTarget \<Rightarrow> unit dev" where
  "dropWithParentLocked E v =
     dseq (dcall E (OpenGPT (WipeParent v)))
     (dseq (dcall E (ReadGPT (WipeParent v)))
     (dseq (dcall E (DeletePartition (WipeParent v) (WipePartition v - 1)))
     (dcall E (WriteGPT (WipeParent v)))))"

text \<open>Wipe: the partition index is looked at only after the device has been wiped.\<close>

definition Wipe :: "dev_env \<Rightarrow> VolumeWipeTarget \<Rightarrow> unit dev" where
  "Wipe E v =
     dseq (dcall E (OpenForWrite (WipeParent v)))
     (deferred E (CloseDev (WipeParent v))
       (dseq (dcall E (LockDev (WipeParent v)))
       (deferred E (UnlockDev (WipeParent v))
         (dseq (wipeWithParentLocked E v)
         (if WipePartition v = 0 then dfail MissingPartition else dropWithParentLocked E v)))))"

section \<open>The tasks of a reset\<close>

text \<open>What a reset of the API asks for: the options of the sequencer, the targets and the paths. The
  sequencer sees the targets by their labels.\<close>

record ResetOptions =
  ResetRequest :: reset_options
  systemDiskTargets :: "VolumeWipeTarget list"
  systemDiskPaths :: "string list"

definition GetSystemDiskTargets :: "ResetOptions \<Rightarrow> string list" where
  "GetSystemDiskTargets opts = map WipeLabel (systemDiskTargets opts)"

definition sequencer_options :: "ResetOptions \<Rightarrow> reset_options" where
  "sequencer_options opts = (ResetRequest opts)\<lparr>SystemDiskTargets := GetSystemDiskTargets opts\<rparr>"

record targets =
  tgSystemDiskTargets :: "VolumeWipeTarget list"
  tgSystemDiskPaths :: "string list"

text \<open>The data of a task, and the two interfaces a task asks it for.\<close>

datatype task_data = OptionsData ResetOptions | TargetsData targets | OtherData

fun SystemDiskTargets_of :: "task_data \<Rightarrow> (VolumeWipeTarget list \<times> string list) option" where
  "SystemDiskTargets_of (OptionsData opts) = Some (systemDiskTargets opts, systemDiskPaths opts)"
| "SystemDiskTargets_of (TargetsData t) = Some (tgSystemDiskTargets t, tgSystemDiskPaths t)"
| "SystemDiskTargets_of OtherData = None"

fun ResetOptions_of :: "task_data \<Rightarrow> ResetOptions option" where
  "ResetOptions_of (OptionsData opts) = Some opts"
| "ResetOptions_of d = None"

fun wipe_system_disks :: "dev_env \<Rightarrow> string list \<Rightarrow> unit dev" where
  "wipe_system_disks E [] = dret ()"
| "wipe_system_disks E (devPath # ds) =
     dseq (dcall E (OpenForWrite devPath))
     (dseq (dcall E (LockDev devPath))
     (dseq (deferred E (CloseDev devPath) (WipeWithSignatures E devPath))
     (wipe_system_disks E ds)))"

definition ResetSystemDisk_task :: "dev_env \<Rightarrow> task_data \<Rightarrow> unit dev" where
  "ResetSystemDisk_task E data =
     (case SystemDiskTargets_of data of
        None \<Rightarrow> dfail UnexpectedData
      | Some (ts, paths) \<Rightarrow> wipe_system_disks E paths)"

fun wipe_user_disks :: "dev_env \<Rightarrow> string list \<Rightarrow> unit dev" where
  "wipe_user_disks E [] = dret ()"
| "wipe_user_disks E (deviceName # ds) =
     dseq (dseq (dcall E (OpenForWrite deviceName))
       (deferred E (CloseDev deviceName)
         (dseq (dcall E (LockDev deviceName))
         (deferred E (UnlockDev deviceName) (WipeWithSignatures E deviceName)))))
     (wipe_user_disks E ds)"

definition ResetUserDisks_task :: "dev_env \<Rightarrow> task_data \<Rightarrow> unit dev" where
  "ResetUserDisks_task E data =
     (case ResetOptions_of data of
        None \<Rightarrow> dfail UnexpectedData
      | Some opts \<Rightarrow> wipe_user_disks E (UserDisksToWipe (ResetRequest opts)))"

text \<open>The loop of ResetSystemDiskSpec: a target that fails does not stop it.\<close>

fun wipe_targets ::
    "dev_env \<Rightarrow> VolumeWipeTarget list \<Rightarrow> bool \<times> bool \<times> wipe_error list \<Rightarrow> dev_calls \<Rightarrow> (bool \<times> bool \<times> wipe_error list) \<times> dev_calls" where
  "wipe_targets E [] acc s = (acc, s)"
| "wipe_targets E (t # ts) (metaWiped, stateWiped, errs) s =
     (case Wipe E t s of
        (Inl e, s) \<Rightarrow> wipe_targets E ts (metaWiped, stateWiped, errs @ [e]) s
      | (Inr _, s) \<Rightarrow>
          wipe_targets E ts
            (metaWiped \<or> WipeLabel t = MetaPartitionLabel, stateWiped \<or> WipeLabel t = StatePartitionLabel, errs) s)"

text \<open>The state of the tasks: the calls on devices, and the META store with its world.\<close>

record 'r wipe_state =
  DevCalls :: dev_calls
  Machine :: machine_state
  MetaWorld :: "'r meta_world"

record 'r wipe_env =
  Devices :: dev_env
  Sha :: "bytes \<Rightarrow> bytes"
  MapOrder :: "tag_map \<Rightarrow> tag_map"
  Cosi :: "'r cosi"
  Kernel :: kernel

definition StateEncryptionConfig :: u8 where
  "StateEncryptionConfig = 9"

definition on_devices :: "'a dev \<Rightarrow> 'r wipe_state \<Rightarrow> (wipe_error + 'a) \<times> 'r wipe_state" where
  "on_devices m st = (case m (DevCalls st) of (r, s) \<Rightarrow> (r, st\<lparr>DevCalls := s\<rparr>))"

text \<open>DeleteTag and Flush of META. A panic of DeleteTag ends machined: the task has the error \<open>Panicked\<close>, after which
  a sequence runs nothing more.\<close>

definition delete_state_key :: "'r wipe_env \<Rightarrow> 'r wipe_state \<Rightarrow> wipe_error option \<times> 'r wipe_state" where
  "delete_state_key W st =
     (case state_DeleteTag (Cosi W) (Machine st) StateEncryptionConfig (Res (MetaWorld st)) of
        Panic \<Rightarrow> (Some Panicked, st)
      | Ret ((removed, err), m, r) \<Rightarrow>
          (let st = st\<lparr>Machine := m, MetaWorld := (MetaWorld st)\<lparr>Res := r\<rparr>\<rparr>
           in if err \<noteq> None then (Some TagNotDeleted, st)
              else if \<not> removed then (None, st)
              else (case state_Flush (Sha W) (MapOrder W) (Cosi W) (Kernel W) (Machine st) (MetaWorld st) of
                  (Some e, w) \<Rightarrow> (Some (FlushFailed e), st\<lparr>MetaWorld := w\<rparr>)
                | (None, w) \<Rightarrow> (None, st\<lparr>MetaWorld := w\<rparr>))))"

definition ResetSystemDiskSpec_task :: "'r wipe_env \<Rightarrow> task_data \<Rightarrow> 'r wipe_state \<Rightarrow> wipe_error option \<times> 'r wipe_state" where
  "ResetSystemDiskSpec_task W data st =
     (case SystemDiskTargets_of data of
        None \<Rightarrow> (Some UnexpectedData, st)
      | Some (ts, paths) \<Rightarrow>
          (let ((metaWiped, stateWiped, errs), s) = wipe_targets (Devices W) ts (False, False, []) (DevCalls st);
               st = st\<lparr>DevCalls := s\<rparr>;
               (err, st) = (if stateWiped \<and> \<not> metaWiped then delete_state_key W st else (None, st))
           in (case err of
                 Some e \<Rightarrow> (Some e, st)
               | None \<Rightarrow> (if errs = [] then None else Some (TargetsFailed errs), st))))"


text \<open>The reset that the kernel parameter asks for at boot. strings.SplitSeq gives at least one part, the
  empty one when there is nothing to split.\<close>

fun SplitSeq :: "char \<Rightarrow> string \<Rightarrow> string \<Rightarrow> string list" where
  "SplitSeq sep acc [] = [rev acc]"
| "SplitSeq sep acc (c # s) = (if c = sep then rev acc # SplitSeq sep [] s else SplitSeq sep (c # acc) s)"

fun find_labels :: "discovered list \<Rightarrow> string list \<Rightarrow> wipe_error + VolumeWipeTarget list" where
  "find_labels dvs [] = Inr []"
| "find_labels dvs (label # ls) =
     (case List.find (\<lambda>dv. DcLabel dv = label) dvs of
        None \<Rightarrow> Inl (LabelNotFound label)
      | Some dv \<Rightarrow>
          (case find_labels dvs ls of
             Inl e \<Rightarrow> Inl e
           | Inr ts \<Rightarrow> Inr (VolumeWipeTargetFromDiscoveredVolume dv # ts)))"

definition parseTargets :: "store_error + discovered list \<Rightarrow> string \<Rightarrow> wipe_error + targets" where
  "parseTargets discoveredVolumes wipeStr =
     (if \<not> prefix ''system:'' wipeStr then Inl (InvalidWipeLabels wipeStr)
      else
        (case discoveredVolumes of
           Inl e \<Rightarrow> Inl (LookupFailed e)
         | Inr dvs \<Rightarrow>
             (case find_labels dvs (SplitSeq CHR '','' [] (drop (length ''system:'') wipeStr)) of
                Inl e \<Rightarrow> Inl e
              | Inr result \<Rightarrow>
                  if result = [] then Inl NoWipeTarget
                  else Inr \<lparr>tgSystemDiskTargets = result, tgSystemDiskPaths = []\<rparr>)))"

text \<open>The task runs the reboot itself when the wipe has succeeded; \<open>reboot\<close> is the result of that.\<close>

definition ResetSystemDiskPartitions_task ::
    "'r wipe_env \<Rightarrow> string option \<Rightarrow> (store_error + string list) \<Rightarrow> (store_error + discovered list) \<Rightarrow> wipe_error option \<Rightarrow>
       'r wipe_state \<Rightarrow> wipe_error option \<times> 'r wipe_state" where
  "ResetSystemDiskPartitions_task W wipeStr paths discoveredVolumes reboot st =
     (if SafeDeref wipeStr = '''' then (Some NoWipeTarget, st)
      else if SafeDeref wipeStr = ''system'' then
        (case paths of
           Inl e \<Rightarrow> (Some (LookupFailed e), st)
         | Inr ps \<Rightarrow>
             (case on_devices (ResetSystemDisk_task (Devices W) (TargetsData \<lparr>tgSystemDiskTargets = [], tgSystemDiskPaths = ps\<rparr>)) st of
                (Inl e, st) \<Rightarrow> (Some e, st)
              | (Inr _, st) \<Rightarrow> (reboot, st)))
      else
        (case parseTargets discoveredVolumes (SafeDeref wipeStr) of
           Inl e \<Rightarrow> (Some e, st)
         | Inr t \<Rightarrow>
             (case ResetSystemDiskSpec_task W (TargetsData t) st of
                (Some e, st) \<Rightarrow> (Some e, st)
              | (None, st) \<Rightarrow> (reboot, st))))"

section \<open>What is written\<close>

fun op_device :: "dev_op \<Rightarrow> string" where
  "op_device (OpenForWrite d) = d"
| "op_device (OpenNotMounted d) = d"
| "op_device (LockDev d) = d"
| "op_device (UnlockDev d) = d"
| "op_device (CloseDev d) = d"
| "op_device (ProbeDev d) = d"
| "op_device (WipeRanges d rs) = d"
| "op_device (FastWipe d) = d"
| "op_device (WipeZeroes d) = d"
| "op_device (OpenGPT d) = d"
| "op_device (ReadGPT d) = d"
| "op_device (DeletePartition d i) = d"
| "op_device (WriteGPT d) = d"

fun writes :: "dev_op \<Rightarrow> bool" where
  "writes (WipeRanges d rs) = True"
| "writes (FastWipe d) = True"
| "writes (WipeZeroes d) = True"
| "writes (WriteGPT d) = True"
| "writes c = False"

definition written_devices :: "dev_calls \<Rightarrow> string set" where
  "written_devices cs = {op_device c | c a. (c, a) \<in> set cs \<and> writes c}"

definition wiped_devices :: "dev_calls \<Rightarrow> string set" where
  "wiped_devices cs = {d. (FastWipe d, DevOk) \<in> set cs}"

text \<open>A program that calls only operations of \<open>P\<close>, on top of what was called before.\<close>

definition calls_only :: "(dev_op \<Rightarrow> bool) \<Rightarrow> 'a dev \<Rightarrow> bool" where
  "calls_only P m \<longleftrightarrow> (\<forall>s. \<exists>new. snd (m s) = s @ new \<and> (\<forall>(c, a) \<in> set new. P c))"

lemma calls_onlyE:
  assumes "calls_only P m" "m s = (r, s')"
  obtains new where "s' = s @ new" "\<forall>(c, a) \<in> set new. P c"
  using assms unfolding calls_only_def by (metis snd_conv)

lemma only_ret: "calls_only P (dret x)"
  by (simp add: calls_only_def dret_def)

lemma only_fail: "calls_only P (dfail e)"
  by (simp add: calls_only_def dfail_def)

lemma only_ask: "P c \<Longrightarrow> calls_only P (dask E c)"
  by (simp add: calls_only_def dask_def)

lemma only_bind:
  assumes "calls_only P m" "\<And>x. calls_only P (f x)"
  shows "calls_only P (dbind m f)"
  unfolding calls_only_def
proof
  fix s
  obtain r s1 where m: "m s = (r, s1)" by (cases "m s")
  obtain new where new: "s1 = s @ new" "\<forall>(c, a) \<in> set new. P c" using assms(1) m by (rule calls_onlyE)
  show "\<exists>new. snd (dbind m f s) = s @ new \<and> (\<forall>(c, a) \<in> set new. P c)"
  proof (cases r)
    case (Inl e)
    then show ?thesis using m new by (simp add: dbind_def)
  next
    case (Inr x)
    obtain r2 s2 where f: "f x s1 = (r2, s2)" by (cases "f x s1")
    obtain new2 where "s2 = s1 @ new2" "\<forall>(c, a) \<in> set new2. P c" using assms(2) f by (rule calls_onlyE)
    then show ?thesis using m f Inr new by (intro exI [of _ "new @ new2"]) (auto simp: dbind_def)
  qed
qed

lemma only_seq: "calls_only P m \<Longrightarrow> calls_only P k \<Longrightarrow> calls_only P (dseq m k)"
  unfolding dseq_def by (rule only_bind)

lemma only_call: "P c \<Longrightarrow> calls_only P (dcall E c)"
  unfolding dcall_def by (intro only_bind only_ask) (simp_all add: only_ret only_fail)

lemma only_deferred:
  assumes "calls_only P m" "P c"
  shows "calls_only P (deferred E c m)"
  unfolding calls_only_def
proof
  fix s
  obtain r s1 where m: "m s = (r, s1)" by (cases "m s")
  obtain new where "s1 = s @ new" "\<forall>(c, a) \<in> set new. P c" using assms(1) m by (rule calls_onlyE)
  then show "\<exists>new. snd (deferred E c m s) = s @ new \<and> (\<forall>(c, a) \<in> set new. P c)"
    using m assms(2) by (auto simp: deferred_def dask_def)
qed

lemma only_if: "(b \<Longrightarrow> calls_only P m) \<Longrightarrow> (\<not> b \<Longrightarrow> calls_only P k) \<Longrightarrow> calls_only P (if b then m else k)"
  by simp

lemmas only_rules = only_ret only_fail only_seq only_deferred only_call only_if

lemma only_WipeWithSignatures:
  assumes "\<And>rs. P (WipeRanges d rs)" "P (ProbeDev d)" "P (FastWipe d)"
  shows "calls_only P (WipeWithSignatures E d)"
  unfolding WipeWithSignatures_def
  by (intro only_bind only_ask only_seq only_call assms) (auto intro: only_rules assms split: dev_answer.splits)

text \<open>The calls a wipe of a whole disk makes are calls on that disk.\<close>

lemma system_disks_only: "(\<And>c. op_device c \<in> set ds \<Longrightarrow> P c) \<Longrightarrow> calls_only P (wipe_system_disks E ds)"
  by (induction ds) (auto intro!: only_rules only_WipeWithSignatures)

lemma user_disks_only: "(\<And>c. op_device c \<in> set ds \<Longrightarrow> P c) \<Longrightarrow> calls_only P (wipe_user_disks E ds)"
  by (induction ds) (auto intro!: only_rules only_WipeWithSignatures)

lemma Wipe_only:
  "calls_only (\<lambda>c. op_device c = WipeDevName v \<or> op_device c = WipeParent v) (Wipe E v)"
  unfolding Wipe_def wipeWithParentLocked_def dropWithParentLocked_def
  by (auto intro!: only_rules only_WipeWithSignatures)


section \<open>What a success shows\<close>

text \<open>\<open>ensures m q\<close>: when \<open>m\<close> succeeds, the call \<open>q\<close> has succeeded.\<close>

definition ensures :: "'a dev \<Rightarrow> dev_op \<Rightarrow> bool" where
  "ensures m q \<longleftrightarrow> (\<forall>s y s'. m s = (Inr y, s') \<longrightarrow> (q, DevOk) \<in> set s')"

abbreviation only_grows :: "'a dev \<Rightarrow> bool" where
  "only_grows m \<equiv> calls_only (\<lambda>_. True) m"

lemma ensuresD: "ensures m q \<Longrightarrow> m s = (Inr y, s') \<Longrightarrow> (q, DevOk) \<in> set s'"
  by (simp add: ensures_def)

lemma grown: "only_grows m \<Longrightarrow> m s = (r, s') \<Longrightarrow> set s \<subseteq> set s'"
  by (erule (1) calls_onlyE) auto

lemma ensures_call: "ensures (dcall E q) q"
  by (auto simp: ensures_def dcall_def dbind_def dask_def dret_def dfail_def split: if_splits)

lemma ensures_bind:
  assumes "\<And>x. ensures (f x) q"
  shows "ensures (dbind m f) q"
  unfolding ensures_def
proof (intro allI impI)
  fix s y s' assume "dbind m f s = (Inr y, s')"
  then obtain x s1 where "f x s1 = (Inr y, s')" by (cases "m s") (auto simp: dbind_def split: sum.splits)
  then show "(q, DevOk) \<in> set s'" by (rule ensuresD [OF assms])
qed

lemma ensures_second: "ensures k q \<Longrightarrow> ensures (dseq m k) q"
  unfolding dseq_def by (rule ensures_bind)

lemma ensures_first:
  assumes "ensures m q" "only_grows k"
  shows "ensures (dseq m k) q"
  unfolding ensures_def
proof (intro allI impI)
  fix s y s' assume "dseq m k s = (Inr y, s')"
  then obtain x s1 where m: "m s = (Inr x, s1)" and k: "k s1 = (Inr y, s')"
    by (cases "m s") (auto simp: dseq_def dbind_def split: sum.splits)
  from ensuresD [OF assms(1) m] grown [OF assms(2) k] show "(q, DevOk) \<in> set s'" by auto
qed

lemma ensures_deferred:
  assumes "ensures m q"
  shows "ensures (deferred E c m) q"
  unfolding ensures_def
proof (intro allI impI)
  fix s y s' assume d: "deferred E c m s = (Inr y, s')"
  obtain r s1 where m: "m s = (r, s1)" by (cases "m s")
  with d have r: "r = Inr y" "s' = s1 @ [(c, E s1 c)]" by (auto simp: deferred_def dask_def)
  with ensuresD [OF assms] m show "(q, DevOk) \<in> set s'" by auto
qed

lemma ensures_fail: "ensures (dfail e) q"
  by (simp add: ensures_def dfail_def)

lemma ensures_wipe: "ensures (WipeWithSignatures E d) (FastWipe d)"
  unfolding WipeWithSignatures_def by (intro ensures_bind ensures_second ensures_call)

lemma grows_wipe: "only_grows (WipeWithSignatures E d)"
  by (rule only_WipeWithSignatures) simp_all

lemma system_disks_ok: "d \<in> set ds \<Longrightarrow> ensures (wipe_system_disks E ds) (FastWipe d)"
proof (induction ds)
  case (Cons x xs)
  have g: "only_grows (wipe_system_disks E xs)" by (rule system_disks_only) simp
  show ?case
  proof (cases "d = x")
    case True
    then show ?thesis
      by (auto intro!: ensures_second ensures_first [OF ensures_deferred [OF ensures_wipe]] g)
  next
    case False
    then show ?thesis using Cons by (auto intro!: ensures_second)
  qed
qed simp

lemma user_disks_ok: "d \<in> set ds \<Longrightarrow> ensures (wipe_user_disks E ds) (FastWipe d)"
proof (induction ds)
  case (Cons x xs)
  have g: "only_grows (wipe_user_disks E xs)" by (rule user_disks_only) simp
  show ?case
  proof (cases "d = x")
    case True
    then show ?thesis
      by (auto intro!: ensures_first [OF ensures_second [OF ensures_deferred [OF ensures_second [OF ensures_deferred [OF ensures_wipe]]]]] g)
  next
    case False
    then show ?thesis using Cons by (auto intro!: ensures_second)
  qed
qed simp

text \<open>A target that was wiped has lost its partition.\<close>

definition dropped :: "dev_calls \<Rightarrow> VolumeWipeTarget \<Rightarrow> bool" where
  "dropped cs v \<longleftrightarrow> WipeDevName v \<in> wiped_devices cs \<and> WipePartition v \<noteq> 0 \<and>
     (DeletePartition (WipeParent v) (WipePartition v - 1), DevOk) \<in> set cs \<and> (WriteGPT (WipeParent v), DevOk) \<in> set cs"

lemma dropped_mono: "dropped s v \<Longrightarrow> set s \<subseteq> set s' \<Longrightarrow> dropped s' v"
  by (auto simp: dropped_def wiped_devices_def)

lemma Wipe_grows: "only_grows (Wipe E v)"
  unfolding Wipe_def wipeWithParentLocked_def dropWithParentLocked_def
  by (auto intro!: only_rules only_WipeWithSignatures)

lemma Wipe_without_partition: "WipePartition v = 0 \<Longrightarrow> fst (Wipe E v s) \<noteq> Inr u"
  by (auto simp: Wipe_def dseq_def dbind_def deferred_def dfail_def split: sum.splits prod.splits)

lemma Wipe_ok:
  assumes w: "Wipe E v s = (Inr y, s')"
  shows "dropped s' v"
proof -
  have idx: "WipePartition v \<noteq> 0" using Wipe_without_partition [of v E s y] w by auto
  let ?rest = "if WipePartition v = 0 then dfail MissingPartition else dropWithParentLocked E v"
  have rest: "ensures ?rest q" if "q \<in> {DeletePartition (WipeParent v) (WipePartition v - 1), WriteGPT (WipeParent v)}" for q
  proof -
    have "ensures (dropWithParentLocked E v) (WriteGPT (WipeParent v))"
      unfolding dropWithParentLocked_def by (intro ensures_second ensures_call)
    moreover have "ensures (dropWithParentLocked E v) (DeletePartition (WipeParent v) (WipePartition v - 1))"
      unfolding dropWithParentLocked_def
      by (rule ensures_second [OF ensures_second [OF ensures_first [OF ensures_call only_call]]]) simp
    ultimately show ?thesis using idx that by auto
  qed
  have both: "ensures (dseq (wipeWithParentLocked E v) ?rest) q"
    if "q \<in> {FastWipe (WipeDevName v), DeletePartition (WipeParent v) (WipePartition v - 1), WriteGPT (WipeParent v)}" for q
  proof (cases "q = FastWipe (WipeDevName v)")
    case True
    have "ensures (wipeWithParentLocked E v) q"
      unfolding wipeWithParentLocked_def True by (rule ensures_second [OF ensures_deferred [OF ensures_wipe]])
    moreover have "only_grows ?rest" unfolding dropWithParentLocked_def by (intro only_rules) simp_all
    ultimately show ?thesis by (rule ensures_first)
  next
    case False
    then show ?thesis using that by (intro ensures_second rest) auto
  qed
  have "ensures (Wipe E v) q"
    if "q \<in> {FastWipe (WipeDevName v), DeletePartition (WipeParent v) (WipePartition v - 1), WriteGPT (WipeParent v)}" for q
    unfolding Wipe_def by (rule ensures_second [OF ensures_deferred [OF ensures_second [OF ensures_deferred [OF both [OF that]]]]])
  from ensuresD [OF this w] idx show ?thesis by (simp add: dropped_def wiped_devices_def)
qed

text \<open>The loop over the targets: an error for every target that fails, and the flags of those that do not.\<close>

lemma wipe_targets_spec:
  "wipe_targets E ts (mw, sw, errs) s = ((mw', sw', errs'), s') \<Longrightarrow>
     set s \<subseteq> set s' \<and> (\<exists>es. errs' = errs @ es) \<and>
     (errs' = errs \<longrightarrow> (\<forall>t \<in> set ts. dropped s' t) \<and>
        mw' = (mw \<or> (\<exists>t \<in> set ts. WipeLabel t = MetaPartitionLabel)) \<and>
        sw' = (sw \<or> (\<exists>t \<in> set ts. WipeLabel t = StatePartitionLabel)))"
proof (induction ts arbitrary: mw sw errs s)
  case Nil
  then show ?case by simp
next
  case (Cons t ts)
  obtain r s1 where w: "Wipe E t s = (r, s1)" by (cases "Wipe E t s")
  have g: "set s \<subseteq> set s1" by (rule grown [OF Wipe_grows w])
  show ?case
  proof (cases r)
    case (Inl e)
    then have "wipe_targets E ts (mw, sw, errs @ [e]) s1 = ((mw', sw', errs'), s')" using Cons.prems w by simp
    from Cons.IH [OF this] g have "set s \<subseteq> set s'" "\<exists>es. errs' = (errs @ [e]) @ es" by blast+
    then show ?thesis by auto
  next
    case (Inr u)
    then have "wipe_targets E ts (mw \<or> WipeLabel t = MetaPartitionLabel, sw \<or> WipeLabel t = StatePartitionLabel, errs) s1 =
        ((mw', sw', errs'), s')" using Cons.prems w by simp
    note ih = Cons.IH [OF this]
    have "dropped s' t" using dropped_mono [OF Wipe_ok [OF w [unfolded Inr]]] ih by blast
    then show ?thesis using ih g by (simp only: set_simps insert_iff ball_simps bex_simps disj_assoc) blast
  qed
qed

lemma wipe_targets_only:
  assumes "\<And>v c. v \<in> set ts \<Longrightarrow> op_device c = WipeDevName v \<or> op_device c = WipeParent v \<Longrightarrow> P c"
  shows "\<exists>new. snd (wipe_targets E ts acc s) = s @ new \<and> (\<forall>(c, a) \<in> set new. P c)"
  using assms
proof (induction ts arbitrary: acc s)
  case Nil
  then show ?case by simp
next
  case (Cons t ts)
  obtain mw sw errs where acc: "acc = (mw, sw, errs)" by (cases acc)
  obtain r s1 where w: "Wipe E t s = (r, s1)" by (cases "Wipe E t s")
  obtain new where new: "s1 = s @ new" "\<forall>(c, a) \<in> set new. op_device c = WipeDevName t \<or> op_device c = WipeParent t"
    by (rule calls_onlyE [OF Wipe_only w])
  obtain acc' where "wipe_targets E (t # ts) acc s = wipe_targets E ts acc' s1" using w acc by (cases r) auto
  moreover obtain new2 where "snd (wipe_targets E ts acc' s1) = s1 @ new2" "\<forall>(c, a) \<in> set new2. P c"
    using Cons.IH [of acc' s1] Cons.prems by auto
  moreover have "\<forall>(c, a) \<in> set new. P c" using new(2) Cons.prems [of t] by auto
  ultimately show ?case using new(1) by (intro exI [of _ "new @ new2"]) auto
qed


section \<open>The key of STATE\<close>

text \<open>A success of ResetSystemDiskSpec: every target is wiped and has lost its partition, and the key was
  deleted when STATE was among them and META was not.\<close>

lemma spec_ok:
  assumes "ResetSystemDiskSpec_task W data st = (None, st')" "SystemDiskTargets_of data = Some (ts, paths)"
  obtains s where "\<forall>t \<in> set ts. dropped s t" "DevCalls st' = s" "set (DevCalls st) \<subseteq> set s"
    "(\<exists>t \<in> set ts. WipeLabel t = StatePartitionLabel) \<and> \<not> (\<exists>t \<in> set ts. WipeLabel t = MetaPartitionLabel) \<Longrightarrow>
       delete_state_key W (st\<lparr>DevCalls := s\<rparr>) = (None, st')"
proof -
  obtain mw sw errs s where w: "wipe_targets (Devices W) ts (False, False, []) (DevCalls st) = ((mw, sw, errs), s)"
    by (metis prod.collapse)
  let ?st = "st\<lparr>DevCalls := s\<rparr>"
  have run: "(if sw \<and> \<not> mw then delete_state_key W ?st else (None, ?st)) = (None, st')" "errs = []"
    using assms w by (auto simp: ResetSystemDiskSpec_task_def Let_def split: prod.splits option.splits if_splits)
  note spec = wipe_targets_spec [OF w]
  have calls: "DevCalls st' = s"
    using run(1) by (auto simp: delete_state_key_def Let_def split: if_splits outcome.splits prod.splits option.splits)
  show ?thesis
    by (rule that [of s]) (use spec run calls in auto)
qed

lemma state_DeleteTag_read:
  assumes "state_DeleteTag c s t r = Ret ((ok, err), s', r')" and "\<not> StContainer s"
    and "ReadTagBytes_legacy (Legacy (StMeta s)) t = None"
  shows "ok \<Longrightarrow> ReadTagBytes (AdvState (StMeta s)) t \<noteq> None \<Longrightarrow> StMeta s' = (StMeta s)\<lparr>AdvState := snd (DeleteTag (AdvState (StMeta s)) t)\<rparr> \<and> \<not> StContainer s'"
    and "ReadTagBytes (AdvState (StMeta s)) t \<noteq> None \<Longrightarrow> ok"
proof -
  let ?m = "StMeta s"
  obtain m where d: "meta_DeleteTag c ?m t r = Ret ((ok, err), m, r')" and s': "s' = s\<lparr>StMeta := m\<rparr>"
    using assms(1,2) by (cases "meta_DeleteTag c ?m t r") (auto simp: state_DeleteTag_def)
  {
    assume p: "ReadTagBytes (AdvState ?m) t \<noteq> None"
    obtain err' r2 where "meta_DeleteTag c ?m t r = Ret ((True, err'), ?m\<lparr>AdvState := snd (DeleteTag (AdvState ?m) t)\<rparr>, r2)"
      using p by (rule meta_DeleteTag_present)
    with d s' assms(2) have "ok \<and> StMeta s' = ?m\<lparr>AdvState := snd (DeleteTag (AdvState ?m) t)\<rparr> \<and> \<not> StContainer s'" by simp
  }
  then show "ok \<Longrightarrow> ReadTagBytes (AdvState ?m) t \<noteq> None \<Longrightarrow> StMeta s' = ?m\<lparr>AdvState := snd (DeleteTag (AdvState ?m) t)\<rparr> \<and> \<not> StContainer s'"
    and "ReadTagBytes (AdvState ?m) t \<noteq> None \<Longrightarrow> ok" by blast+
qed

text \<open>Wiping STATE forgets its encryption: when ResetSystemDiskSpec has wiped STATE and kept META, a
  machine that boots from that META finds no encryption configuration for the new STATE; it was in the
  store before, and not in the legacy format.\<close>

theorem wiped_state_is_forgotten:
  assumes "ResetSystemDiskSpec_task W data st = (None, st')"
    and "SystemDiskTargets_of data = Some (ts, paths)"
    and "\<exists>t \<in> set ts. WipeLabel t = StatePartitionLabel" and "\<forall>t \<in> set ts. WipeLabel t \<noteq> MetaPartitionLabel"
    and "\<not> StContainer (Machine st)" and "meta_wf (StMeta (Machine st))"
    and "ReadTagBytes (AdvState (StMeta (Machine st))) StateEncryptionConfig \<noteq> None"
    and "ReadTagBytes_legacy (Legacy (StMeta (Machine st))) StateEncryptionConfig = None"
    and "\<forall>b. length (Sha W b) = 32" and "fair_order (MapOrder W)"
    and "FixedPath (StMeta (Machine st)) = path" and "path \<noteq> ''''" and "flock (Kernel W) path"
    and "Files (MetaWorld st) path = Some dat" and "2 * Length + 1024 \<le> length dat"
  shows "(\<forall>t \<in> set ts. dropped (DevCalls st') t) \<and>
    (\<exists>err m w. New (Sha W) (MapOrder W) (Cosi W) (Kernel W) has_state path (MetaWorld st') = Ret (err, m, w) \<and>
       ReadTag m StateEncryptionConfig = None \<and>
       (\<forall>t. t \<noteq> StateEncryptionConfig \<longrightarrow> ReadTag m t = ReadTag (StMeta (Machine st)) t))"
proof -
  obtain s where drop: "\<forall>t \<in> set ts. dropped s t" "DevCalls st' = s"
    and key: "delete_state_key W (st\<lparr>DevCalls := s\<rparr>) = (None, st')"
    using spec_ok [OF assms(1,2)] assms(3,4) by metis
  let ?m = "StMeta (Machine st)" and ?w = "MetaWorld st"
  let ?m' = "?m\<lparr>AdvState := snd (DeleteTag (AdvState ?m) StateEncryptionConfig)\<rparr>"
  obtain ok err ms r where d: "state_DeleteTag (Cosi W) (Machine st) StateEncryptionConfig (Res ?w) = Ret ((ok, err), ms, r)"
    using key by (auto simp: delete_state_key_def split: outcome.splits)
  have ok: ok by (rule state_DeleteTag_read(2) [OF d assms(5,8,7)])
  have ms: "StMeta ms = ?m'" "\<not> StContainer ms" using state_DeleteTag_read(1) [OF d assms(5,8) ok assms(7)] by simp_all
  have fl: "Flush (Sha W) (MapOrder W) (Cosi W) (Kernel W) ?m' (?w\<lparr>Res := r\<rparr>) = (None, MetaWorld st')"
    using key d ok ms by (auto simp: delete_state_key_def state_Flush_def Let_def split: if_splits option.splits prod.splits)
  have op: "open_meta (Cosi W) (Kernel W) ?m' (?w\<lparr>Res := r\<rparr>) = (Inr (path, dat), ?w\<lparr>Res := r\<rparr>)"
    using open_fixed [of ?m' "Kernel W" "?w\<lparr>Res := r\<rparr>" dat "Cosi W"] assms(11-14) by simp
  have wf: "meta_wf ?m'" by (rule meta_wf_delete [OF assms(6)])
  from Flush_New [OF assms(9,10) wf op assms(15) fl assms(12), of has_state]
  obtain e m w where new: "New (Sha W) (MapOrder W) (Cosi W) (Kernel W) has_state path (MetaWorld st') = Ret (e, m, w)"
    and read: "\<And>t. ReadTagBytes (AdvState m) t = ReadTagBytes (AdvState ?m') t" and leg: "Legacy m = Legacy ?m'" by metis
  have "ReadTag m StateEncryptionConfig = None" using read leg assms(8) by (simp add: ReadTag_def DeleteTag_read)
  moreover have "ReadTag m t = ReadTag ?m t" if "t \<noteq> StateEncryptionConfig" for t
    using read [of t] leg that by (simp add: ReadTag_def DeleteTag_read split: option.split)
  ultimately show ?thesis using drop new by blast
qed

end
