(* ===== verification/ResetAPI.thy ===== *)
theory ResetAPI
  imports Wiping
begin

text \<open>
  The reset of a machine through its API, Server.Reset of internal/app/machined/internal/server/v1alpha1
  with GetSystemDisk and GetSystemDiskPaths of pkg/machinery/resources/block, and the whole reset: the
  request, the phases of the sequence, their execution by the controller and the tasks that wipe.
\<close>

section \<open>Resources\<close>

text \<open>The resources that a handler reads, as they are when it reads them. A field of a resource that no
  handler reads is left out.\<close>

record disk_res =
  DskID :: string
  DskDevPath :: string
  DskReadonly :: bool
  DskCDROM :: bool
  DskSecondaryDisks :: "string list"

record system_disk =
  SysDiskID :: string
  SysDevPath :: string

record block_resources =
  list_disks :: "store_error + disk_res list"
  get_system_disk :: "store_error + system_disk"
  get_volume_status :: "string \<Rightarrow> store_error + VolumeStatusSpec"
  visit_keys :: "string list \<Rightarrow> string list"

definition GetSystemDisk :: "block_resources \<Rightarrow> store_error + system_disk option" where
  "GetSystemDisk R =
     (case get_system_disk R of
        Inl e \<Rightarrow> if e = StoreNotFound then Inr None else Inl e
      | Inr d \<Rightarrow> Inr (Some d))"

text \<open>The paths are the keys of a Go map: \<open>visit_keys\<close> is the order in which they come.\<close>

fun volume_disks :: "block_resources \<Rightarrow> string list \<Rightarrow> string list \<Rightarrow> store_error + string list" where
  "volume_disks R [] systemDisks = Inr systemDisks"
| "volume_disks R (volumeID # vs) systemDisks =
     (case get_volume_status R volumeID of
        Inl e \<Rightarrow> if e = StoreNotFound then volume_disks R vs systemDisks else Inl e
      | Inr spec \<Rightarrow>
          volume_disks R vs
            (if ParentLocation spec \<noteq> '''' then List.insert (ParentLocation spec) systemDisks
             else if Location spec \<noteq> '''' then List.insert (Location spec) systemDisks
             else systemDisks))"

definition GetSystemDiskPaths :: "block_resources \<Rightarrow> store_error + string list" where
  "GetSystemDiskPaths R =
     (case GetSystemDisk R of
        Inl e \<Rightarrow> Inl e
      | Inr systemDisk \<Rightarrow>
          (case volume_disks R [StatePartitionLabel, EphemeralPartitionLabel]
              (case systemDisk of None \<Rightarrow> [] | Some d \<Rightarrow> [SysDevPath d]) of
             Inl e \<Rightarrow> Inl e
           | Inr ds \<Rightarrow> Inr (visit_keys R ds)))"

section \<open>Server.Reset\<close>

text \<open>The request: its options as the sequencer has them, and the partitions with their wipe flags.\<close>

record reset_request =
  RequestOptions :: reset_options
  SystemPartitionsToWipe :: "(string \<times> bool) list"

datatype reset_error =
    NoUserDisksInSystemMode
  | ListingDisksFailed store_error
  | SystemDiskLookupFailed store_error
  | UserDiskNotFound string
  | UserDiskReadonly string
  | UserDiskIsSystemDisk string
  | NoPartitionsInUserMode
  | VolumeStatusFailed string store_error
  | VolumeNotLocated string

text \<open>ToMap: the last of two disks with the same path stays.\<close>

definition disks_by_path :: "disk_res list \<Rightarrow> string \<Rightarrow> disk_res option" where
  "disks_by_path ds d = List.find (\<lambda>k. DskDevPath k = d) (rev ds)"

fun validate_user_disks :: "(string \<Rightarrow> disk_res option) \<Rightarrow> system_disk option \<Rightarrow> string list \<Rightarrow> reset_error option" where
  "validate_user_disks disks systemDisk [] = None"
| "validate_user_disks disks systemDisk (deviceName # ds) =
     (case disks deviceName of
        None \<Rightarrow> Some (UserDiskNotFound deviceName)
      | Some disk \<Rightarrow>
          if DskReadonly disk then Some (UserDiskReadonly deviceName)
          else if (case systemDisk of None \<Rightarrow> False | Some sd \<Rightarrow> deviceName = SysDevPath sd)
          then Some (UserDiskIsSystemDisk deviceName)
          else validate_user_disks disks systemDisk ds)"

fun partition_targets :: "block_resources \<Rightarrow> (string \<times> bool) list \<Rightarrow> reset_error + VolumeWipeTarget list" where
  "partition_targets R [] = Inr []"
| "partition_targets R ((label, wipe) # specs) =
     (case get_volume_status R label of
        Inl e \<Rightarrow> Inl (VolumeStatusFailed label e)
      | Inr vs \<Rightarrow>
          if Location vs = '''' then Inl (VolumeNotLocated label)
          else
            (case partition_targets R specs of
               Inl e \<Rightarrow> Inl e
             | Inr ts \<Rightarrow> Inr (if wipe then VolumeWipeTargetFromVolumeStatus label vs # ts else ts)))"

definition check_user_disks :: "block_resources \<Rightarrow> reset_options \<Rightarrow> reset_error option" where
  "check_user_disks R req =
     (if UserDisksToWipe req = [] then None
      else if WipeMode req = WipeSystemDisk then Some NoUserDisksInSystemMode
      else
        (case list_disks R of
           Inl e \<Rightarrow> Some (ListingDisksFailed e)
         | Inr ds \<Rightarrow>
             (case GetSystemDisk R of
                Inl e \<Rightarrow> Some (SystemDiskLookupFailed e)
              | Inr systemDisk \<Rightarrow> validate_user_disks (disks_by_path ds) systemDisk (UserDisksToWipe req))))"

definition check_partitions :: "block_resources \<Rightarrow> reset_request \<Rightarrow> reset_error + VolumeWipeTarget list" where
  "check_partitions R req =
     (if SystemPartitionsToWipe req = [] then Inr []
      else if WipeMode (RequestOptions req) = WipeUserDisks then Inl NoPartitionsInUserMode
      else partition_targets R (SystemPartitionsToWipe req))"

text \<open>The options with which the handler starts the sequence SequenceReset.\<close>

definition Server_Reset :: "block_resources \<Rightarrow> reset_request \<Rightarrow> reset_error + ResetOptions" where
  "Server_Reset R req =
     (case check_user_disks R (RequestOptions req) of
        Some e \<Rightarrow> Inl e
      | None \<Rightarrow>
          (case check_partitions R req of
             Inl e \<Rightarrow> Inl e
           | Inr ts \<Rightarrow>
               (let opts = \<lparr>ResetRequest = RequestOptions req, systemDiskTargets = ts, systemDiskPaths = []\<rparr>
                in if WipeMode (RequestOptions req) \<noteq> WipeUserDisks \<and> SystemPartitionsToWipe req = []
                   then (case GetSystemDiskPaths R of
                       Inl e \<Rightarrow> Inl (SystemDiskLookupFailed e)
                     | Inr paths \<Rightarrow> Inr (opts\<lparr>systemDiskPaths := paths\<rparr>))
                   else Inr opts)))"

section \<open>The tasks in the sequence\<close>

definition task_error :: "(wipe_error + unit) \<times> 's \<Rightarrow> wipe_error option \<times> 's" where
  "task_error rs = (case rs of (Inl e, st) \<Rightarrow> (Some e, st) | (Inr _, st) \<Rightarrow> (None, st))"

definition wipe_tasks :: "task set" where
  "wipe_tasks = {ResetSystemDisk, ResetSystemDiskSpec, ResetUserDisks}"

definition wipe_task :: "'r wipe_env \<Rightarrow> task_data \<Rightarrow> task \<Rightarrow> 'r wipe_state \<Rightarrow> wipe_error option \<times> 'r wipe_state" where
  "wipe_task W data t st =
     (if t = ResetSystemDisk then task_error (on_devices (ResetSystemDisk_task (Devices W) data) st)
      else if t = ResetSystemDiskSpec then ResetSystemDiskSpec_task W data st
      else if t = ResetUserDisks then task_error (on_devices (ResetUserDisks_task (Devices W) data) st)
      else (None, st))"

text \<open>The state after the tasks that have run, and the world in which the controller runs the sequence: the
  tasks that wipe do what they do, the others are those of the world \<open>other\<close>.\<close>

definition state_after :: "'r wipe_env \<Rightarrow> task_data \<Rightarrow> 'r wipe_state \<Rightarrow> task_setup list \<Rightarrow> 'r wipe_state" where
  "state_after W data st ss = foldl (\<lambda>st s. snd (wipe_task W data (task_of s) st)) st ss"

definition reset_world :: "'r wipe_env \<Rightarrow> task_data \<Rightarrow> 'r wipe_state \<Rightarrow> wipe_error task_world \<Rightarrow> wipe_error task_world" where
  "reset_world W data st other =
     other\<lparr>task_result := (\<lambda>h t.
       if t \<in> wipe_tasks then fst (wipe_task W data t (state_after W data st (ran h))) else task_result other h t)\<rparr>"

text \<open>A reset from its request on: the error of the handler, or the result of the sequence, its events and
  the state it leaves.\<close>

definition reset_machine ::
    "block_resources \<Rightarrow> 'r wipe_env \<Rightarrow> wipe_error task_world \<Rightarrow> machine \<Rightarrow> reset_request \<Rightarrow> 'r wipe_state \<Rightarrow>
       reset_error + (wipe_error run_error option \<times> event list \<times> 'r wipe_state)" where
  "reset_machine R W other mach req st =
     (case Server_Reset R req of
        Inl e \<Rightarrow> Inl e
      | Inr opts \<Rightarrow>
          (let data = OptionsData opts;
               (err, h) = Controller.run (reset_world W data st other) SequenceReset (Reset mach (sequencer_options opts)) []
           in Inr (err, h, state_after W data st (ran h))))"


section \<open>What a handler accepts\<close>

text \<open>What may be wiped: a user disk is a known, writable disk other than the system disk; a system disk is
  the disk of the installation or of the volumes STATE and EPHEMERAL; a partition is a located volume.\<close>

definition user_disk_ok :: "block_resources \<Rightarrow> string \<Rightarrow> bool" where
  "user_disk_ok R d \<longleftrightarrow>
     (\<exists>ds k. list_disks R = Inr ds \<and> k \<in> set ds \<and> DskDevPath k = d \<and> \<not> DskReadonly k) \<and>
     (\<forall>sd. get_system_disk R = Inr sd \<longrightarrow> SysDevPath sd \<noteq> d)"

definition disk_of_volume :: "VolumeStatusSpec \<Rightarrow> string" where
  "disk_of_volume vs = (if ParentLocation vs \<noteq> '''' then ParentLocation vs else Location vs)"

definition system_disk_ok :: "block_resources \<Rightarrow> string \<Rightarrow> bool" where
  "system_disk_ok R d \<longleftrightarrow>
     (\<exists>sd. get_system_disk R = Inr sd \<and> d = SysDevPath sd) \<or>
     (\<exists>v \<in> {StatePartitionLabel, EphemeralPartitionLabel}. \<exists>vs. get_volume_status R v = Inr vs \<and>
        d \<noteq> '''' \<and> d = disk_of_volume vs)"

definition partition_ok :: "block_resources \<Rightarrow> string \<Rightarrow> string \<Rightarrow> bool" where
  "partition_ok R label d \<longleftrightarrow>
     (\<exists>vs. get_volume_status R label = Inr vs \<and> Location vs \<noteq> '''' \<and>
        (d = Location vs \<or> d = ParentLocation vs \<and> d \<noteq> ''''))"

text \<open>What a request asks to wipe.\<close>

definition asks_user_disk :: "reset_request \<Rightarrow> string \<Rightarrow> bool" where
  "asks_user_disk req d \<longleftrightarrow> d \<in> set (UserDisksToWipe (RequestOptions req)) \<and> WipeMode (RequestOptions req) \<noteq> WipeSystemDisk"

definition asks_system_disk :: "reset_request \<Rightarrow> bool" where
  "asks_system_disk req \<longleftrightarrow> SystemPartitionsToWipe req = [] \<and> WipeMode (RequestOptions req) \<noteq> WipeUserDisks"

definition asks_partition :: "reset_request \<Rightarrow> string \<Rightarrow> bool" where
  "asks_partition req label \<longleftrightarrow> (label, True) \<in> set (SystemPartitionsToWipe req) \<and> WipeMode (RequestOptions req) \<noteq> WipeUserDisks"

lemma disks_by_path_Some: "disks_by_path ds d = Some k \<Longrightarrow> k \<in> set ds \<and> DskDevPath k = d"
proof -
  have found: "List.find P xs = Some x \<Longrightarrow> x \<in> set xs \<and> P x" for P :: "disk_res \<Rightarrow> bool" and xs x
    by (induction xs) (auto split: if_splits)
  show "disks_by_path ds d = Some k \<Longrightarrow> k \<in> set ds \<and> DskDevPath k = d"
    using found [of "\<lambda>k. DskDevPath k = d" "rev ds" k] by (simp add: disks_by_path_def)
qed

lemma validated_user_disks:
  "validate_user_disks disks sd ds = None \<Longrightarrow> d \<in> set ds \<Longrightarrow>
     \<exists>k. disks d = Some k \<and> \<not> DskReadonly k \<and> (\<forall>s. sd = Some s \<longrightarrow> d \<noteq> SysDevPath s)"
  by (induction ds) (auto split: option.splits if_splits)

lemma GetSystemDisk_Inr: "GetSystemDisk R = Inr sd \<Longrightarrow> get_system_disk R = Inr d \<Longrightarrow> sd = Some d"
  "GetSystemDisk R = Inr (Some d) \<Longrightarrow> get_system_disk R = Inr d"
  by (auto simp: GetSystemDisk_def split: sum.splits if_splits)

lemma checked_user_disks:
  assumes "check_user_disks R opts = None" "d \<in> set (UserDisksToWipe opts)"
  shows "user_disk_ok R d \<and> WipeMode opts \<noteq> WipeSystemDisk"
proof -
  from assms obtain ds sd where ds: "list_disks R = Inr ds" and sd: "GetSystemDisk R = Inr sd"
    and valid: "validate_user_disks (disks_by_path ds) sd (UserDisksToWipe opts) = None" and mode: "WipeMode opts \<noteq> WipeSystemDisk"
    by (auto simp: check_user_disks_def split: if_splits sum.splits)
  from validated_user_disks [OF valid assms(2)] obtain k where k: "disks_by_path ds d = Some k" "\<not> DskReadonly k"
    "\<forall>s. sd = Some s \<longrightarrow> d \<noteq> SysDevPath s" by blast
  then have "user_disk_ok R d" unfolding user_disk_ok_def
    using ds disks_by_path_Some [OF k(1)] GetSystemDisk_Inr(1) [OF sd] by blast
  with mode show ?thesis by simp
qed

lemma partition_targets_ok:
  "partition_targets R specs = Inr ts \<Longrightarrow>
     (\<forall>t \<in> set ts. (WipeLabel t, True) \<in> set specs \<and> partition_ok R (WipeLabel t) (WipeDevName t) \<and> partition_ok R (WipeLabel t) (WipeParent t)) \<and>
     (\<forall>l. (l, True) \<in> set specs \<longrightarrow> (\<exists>vs. get_volume_status R l = Inr vs \<and> VolumeWipeTargetFromVolumeStatus l vs \<in> set ts))"
proof (induction specs arbitrary: ts)
  case Nil
  then show ?case by simp
next
  case (Cons s specs)
  obtain label wipe where s: "s = (label, wipe)" by (cases s)
  from Cons.prems s obtain vs us where vs: "get_volume_status R label = Inr vs" "Location vs \<noteq> ''''"
    and us: "partition_targets R specs = Inr us" and ts: "ts = (if wipe then VolumeWipeTargetFromVolumeStatus label vs # us else us)"
    by (auto split: sum.splits if_splits)
  note ih = Cons.IH [OF us]
  have new: "partition_ok R label (WipeDevName t) \<and> partition_ok R label (WipeParent t) \<and> WipeLabel t = label"
    if "t = VolumeWipeTargetFromVolumeStatus label vs" for t
    using vs that by (auto simp: partition_ok_def VolumeWipeTargetFromVolumeStatus_def)
  show ?case
    using ih ts vs(1) s new by (cases wipe) auto
qed

lemma volume_disks_set:
  "volume_disks R vols ds = Inr ps \<Longrightarrow>
     set ps = set ds \<union> {d. \<exists>v \<in> set vols. \<exists>vs. get_volume_status R v = Inr vs \<and>
        d \<noteq> '''' \<and> d = disk_of_volume vs}"
proof (induction vols arbitrary: ds)
  case Nil
  then show ?case by simp
next
  case (Cons v vols)
  let ?D = "\<lambda>v vs. get_volume_status R v = Inr vs"
  show ?case
  proof (cases "get_volume_status R v")
    case (Inl e)
    then have "volume_disks R vols ds = Inr ps" using Cons.prems by (simp split: if_splits)
    from Cons.IH [OF this] Inl show ?thesis by simp
  next
    case (Inr spec)
    let ?d = "disk_of_volume spec"
    have "volume_disks R vols (if ?d \<noteq> '''' then List.insert ?d ds else ds) = Inr ps"
      using Cons.prems Inr by (simp add: disk_of_volume_def split: if_splits)
    note ih = Cons.IH [OF this]
    have "set (if ?d \<noteq> '''' then List.insert ?d ds else ds) = set ds \<union> {d. d \<noteq> '''' \<and> d = ?d}" by auto
    with ih Inr show ?thesis by (auto simp del: set_insert)
  qed
qed

lemma system_disk_paths:
  assumes "GetSystemDiskPaths R = Inr ps" "\<forall>ds. set (visit_keys R ds) = set ds"
  shows "d \<in> set ps \<longleftrightarrow> system_disk_ok R d"
proof -
  from assms(1) obtain sd ds where sd: "GetSystemDisk R = Inr sd"
    and ds: "volume_disks R [StatePartitionLabel, EphemeralPartitionLabel] (case sd of None \<Rightarrow> [] | Some d \<Rightarrow> [SysDevPath d]) = Inr ds"
    and ps: "ps = visit_keys R ds" by (auto simp: GetSystemDiskPaths_def split: sum.splits)
  have "set (case sd of None \<Rightarrow> [] | Some d \<Rightarrow> [SysDevPath d]) = {d. \<exists>s. get_system_disk R = Inr s \<and> d = SysDevPath s}"
  proof (cases "get_system_disk R")
    case (Inl e)
    then have "sd = None" using sd by (simp add: GetSystemDisk_def split: if_splits)
    then show ?thesis using Inl by simp
  next
    case (Inr s)
    then have "sd = Some s" using sd by (simp add: GetSystemDisk_def)
    then show ?thesis using Inr by simp
  qed
  with volume_disks_set [OF ds] have "set ds = {d. \<exists>s. get_system_disk R = Inr s \<and> d = SysDevPath s} \<union>
      {d. \<exists>v \<in> {StatePartitionLabel, EphemeralPartitionLabel}. \<exists>vs. get_volume_status R v = Inr vs \<and> d \<noteq> '''' \<and> d = disk_of_volume vs}"
    by (simp only: set_simps)
  then show ?thesis unfolding system_disk_ok_def ps using assms(2) by simp
qed

text \<open>The options of an accepted request.\<close>

lemma accepted_reset:
  assumes "Server_Reset R req = Inr opts" "\<forall>ds. set (visit_keys R ds) = set ds"
  shows "ResetRequest opts = RequestOptions req"
    "\<forall>d \<in> set (UserDisksToWipe (RequestOptions req)). user_disk_ok R d \<and> asks_user_disk req d"
    "\<forall>t \<in> set (systemDiskTargets opts). asks_partition req (WipeLabel t) \<and>
       partition_ok R (WipeLabel t) (WipeDevName t) \<and> partition_ok R (WipeLabel t) (WipeParent t)"
    "\<forall>l. asks_partition req l \<longrightarrow> (\<exists>vs. get_volume_status R l = Inr vs \<and> VolumeWipeTargetFromVolumeStatus l vs \<in> set (systemDiskTargets opts))"
    "\<forall>d. d \<in> set (systemDiskPaths opts) \<longleftrightarrow> asks_system_disk req \<and> system_disk_ok R d"
proof -
  from assms(1) obtain ts where ud: "check_user_disks R (RequestOptions req) = None" and ts: "check_partitions R req = Inr ts"
    by (auto simp: Server_Reset_def split: option.splits sum.splits)
  have opts: "ResetRequest opts = RequestOptions req \<and> systemDiskTargets opts = ts \<and>
      (if asks_system_disk req then GetSystemDiskPaths R = Inr (systemDiskPaths opts) else systemDiskPaths opts = [])"
    using assms(1) ud ts by (auto simp: Server_Reset_def Let_def asks_system_disk_def split: if_splits sum.splits)
  then show "ResetRequest opts = RequestOptions req" by simp
  show "\<forall>d \<in> set (UserDisksToWipe (RequestOptions req)). user_disk_ok R d \<and> asks_user_disk req d"
    using checked_user_disks [OF ud] by (auto simp: asks_user_disk_def)
  have parts: "SystemPartitionsToWipe req = [] \<and> ts = [] \<or>
      WipeMode (RequestOptions req) \<noteq> WipeUserDisks \<and> partition_targets R (SystemPartitionsToWipe req) = Inr ts"
    using ts by (auto simp: check_partitions_def split: if_splits)
  show "\<forall>t \<in> set (systemDiskTargets opts). asks_partition req (WipeLabel t) \<and>
       partition_ok R (WipeLabel t) (WipeDevName t) \<and> partition_ok R (WipeLabel t) (WipeParent t)"
    using parts opts partition_targets_ok [of R "SystemPartitionsToWipe req" ts] by (auto simp: asks_partition_def)
  show "\<forall>l. asks_partition req l \<longrightarrow> (\<exists>vs. get_volume_status R l = Inr vs \<and> VolumeWipeTargetFromVolumeStatus l vs \<in> set (systemDiskTargets opts))"
    using parts opts partition_targets_ok [of R "SystemPartitionsToWipe req" ts] by (auto simp: asks_partition_def)
  show "\<forall>d. d \<in> set (systemDiskPaths opts) \<longleftrightarrow> asks_system_disk req \<and> system_disk_ok R d"
    using opts system_disk_paths [OF _ assms(2)] by (auto split: if_splits)
qed


section \<open>The devices that the tasks touch\<close>

definition task_touches :: "ResetOptions \<Rightarrow> task \<Rightarrow> string \<Rightarrow> bool" where
  "task_touches opts t d \<longleftrightarrow>
     t = ResetSystemDisk \<and> d \<in> set (systemDiskPaths opts) \<or>
     t = ResetSystemDiskSpec \<and> (\<exists>v \<in> set (systemDiskTargets opts). d = WipeDevName v \<or> d = WipeParent v) \<or>
     t = ResetUserDisks \<and> d \<in> set (UserDisksToWipe (ResetRequest opts))"

lemma on_devices_calls:
  assumes "calls_only P m"
  obtains new where "DevCalls (snd (task_error (on_devices m st))) = DevCalls st @ new" "\<forall>(c, a) \<in> set new. P c"
proof -
  obtain r s where m: "m (DevCalls st) = (r, s)" by (cases "m (DevCalls st)")
  obtain new where "s = DevCalls st @ new" "\<forall>(c, a) \<in> set new. P c" by (rule calls_onlyE [OF assms m])
  then show ?thesis using that m by (cases r) (auto simp: task_error_def on_devices_def)
qed

lemma delete_state_key_calls: "DevCalls (snd (delete_state_key W st)) = DevCalls st"
  by (simp add: delete_state_key_def Let_def split: outcome.splits prod.splits option.splits)

lemma spec_task_calls:
  "DevCalls (snd (ResetSystemDiskSpec_task W (OptionsData opts) st)) =
     snd (wipe_targets (Devices W) (systemDiskTargets opts) (False, False, []) (DevCalls st))"
proof -
  let ?r = "wipe_targets (Devices W) (systemDiskTargets opts) (False, False, []) (DevCalls st)"
  have keep: "DevCalls (snd (if b then delete_state_key W st' else (None, st'))) = DevCalls st'" for b and st'
    by (simp add: delete_state_key_calls)
  obtain mw sw errs s where r: "?r = ((mw, sw, errs), s)" by (metis prod.collapse)
  obtain err st1 where d: "(if sw \<and> \<not> mw then delete_state_key W (st\<lparr>DevCalls := s\<rparr>) else (None, st\<lparr>DevCalls := s\<rparr>)) = (err, st1)"
    by fastforce
  then have "DevCalls st1 = s" using keep [of "sw \<and> \<not> mw" "st\<lparr>DevCalls := s\<rparr>"] by simp
  then show ?thesis
    unfolding ResetSystemDiskSpec_task_def SystemDiskTargets_of.simps option.case prod.case r Let_def d by (cases err) simp_all
qed

lemma wipe_task_calls:
  obtains new where "DevCalls (snd (wipe_task W (OptionsData opts) t st)) = DevCalls st @ new"
    "\<forall>(c, a) \<in> set new. task_touches opts t (op_device c)"
proof (cases "t = ResetSystemDisk \<or> t = ResetSystemDiskSpec \<or> t = ResetUserDisks")
  case False
  then show ?thesis using that [of "[]"] by (simp add: wipe_task_def)
next
  case True
  then consider "t = ResetSystemDisk" | "t = ResetSystemDiskSpec" | "t = ResetUserDisks" by blast
  then show ?thesis
  proof cases
    case 1
    have "calls_only (\<lambda>c. task_touches opts t (op_device c)) (ResetSystemDisk_task (Devices W) (OptionsData opts))"
      unfolding ResetSystemDisk_task_def using 1 by (auto intro!: system_disks_only simp: task_touches_def)
    then show ?thesis using 1 by (elim on_devices_calls [where st = st]) (auto intro: that simp: wipe_task_def)
  next
    case 2
    have "\<exists>new. snd (wipe_targets (Devices W) (systemDiskTargets opts) (False, False, []) (DevCalls st)) = DevCalls st @ new \<and>
        (\<forall>(c, a) \<in> set new. task_touches opts t (op_device c))"
      by (rule wipe_targets_only [where P = "\<lambda>c. task_touches opts t (op_device c)"]) (use 2 in \<open>auto simp: task_touches_def\<close>)
    then show ?thesis using 2 that by (auto simp: wipe_task_def spec_task_calls)
  next
    case 3
    have "calls_only (\<lambda>c. task_touches opts t (op_device c)) (ResetUserDisks_task (Devices W) (OptionsData opts))"
      unfolding ResetUserDisks_task_def using 3 by (auto intro!: user_disks_only simp: task_touches_def)
    then show ?thesis using 3 by (elim on_devices_calls [where st = st]) (auto intro: that simp: wipe_task_def)
  qed
qed

lemma state_after_simps [simp]:
  "state_after W data st [] = st"
  "state_after W data st (s # ss) = state_after W data (snd (wipe_task W data (task_of s) st)) ss"
  "state_after W data st (ss @ ss') = state_after W data (state_after W data st ss) ss'"
  by (simp_all add: state_after_def)

lemma state_after_calls:
  obtains new where "DevCalls (state_after W (OptionsData opts) st ss) = DevCalls st @ new"
    "\<forall>(c, a) \<in> set new. \<exists>s \<in> set ss. task_touches opts (task_of s) (op_device c)"
proof (induction ss arbitrary: st thesis)
  case Nil
  then show ?case by simp
next
  case (Cons s ss)
  obtain new where new: "DevCalls (snd (wipe_task W (OptionsData opts) (task_of s) st)) = DevCalls st @ new"
    "\<forall>(c, a) \<in> set new. task_touches opts (task_of s) (op_device c)" by (rule wipe_task_calls)
  obtain more where "DevCalls (state_after W (OptionsData opts) st (s # ss)) = (DevCalls st @ new) @ more"
    and more: "\<forall>(c, a) \<in> set more. \<exists>s \<in> set ss. task_touches opts (task_of s) (op_device c)"
    using Cons.IH [of "snd (wipe_task W (OptionsData opts) (task_of s) st)"] new by auto
  then have "DevCalls (state_after W (OptionsData opts) st (s # ss)) = DevCalls st @ (new @ more)" by simp
  then show ?case
  proof (rule Cons.prems)
    show "\<forall>(c, a) \<in> set (new @ more). \<exists>s' \<in> set (s # ss). task_touches opts (task_of s') (op_device c)"
      using new(2) more by fastforce
  qed
qed

text \<open>A sequence that ends without an error has run every task of its unconditional phases, each of them
  without an error.\<close>

lemma wait_group_all:
  "fst (wait_group w ss h None) = None \<Longrightarrow> s \<in> set ss \<Longrightarrow>
     \<exists>h0 rest. run_setup (task_result w h0) s = None \<and> ran (snd (wait_group w ss h None)) = ran h0 @ s # rest"
proof (induction ss arbitrary: h)
  case Nil
  then show ?case by simp
next
  case (Cons x xs)
  have x: "run_setup (task_result w h) x = None"
    using Cons.prems(1) wait_group_keeps [of w xs "h @ [TaskRan x]"]
    by (cases "run_setup (task_result w h) x") (auto simp: Let_def)
  then have eq: "wait_group w (x # xs) h None = wait_group w xs (h @ [TaskRan x]) None" by (simp add: Let_def)
  show ?case
  proof (cases "s = x")
    case True
    have "ran (snd (wait_group w (x # xs) h None)) = ran h @ x # xs" using wait_group_ran [of w "x # xs" h None] by simp
    with True x show ?thesis by blast
  next
    case False
    then show ?thesis using Cons.IH [of "h @ [TaskRan x]"] Cons.prems eq by simp
  qed
qed

lemma runPhase_all:
  assumes "fair_world w" "runPhase w p h = (None, h')" "s \<in> set (PhaseTasks p)"
  shows "\<exists>h0 rest. run_setup (task_result w h0) s = None \<and> ran h' = ran h0 @ s # rest"
proof -
  let ?h = "h @ [PhaseStart (PhaseName p)]"
  let ?ss = "finish_order w ?h (PhaseTasks p)"
  have "s \<in> set ?ss" using assms(1,3) unfolding fair_world_def by (metis mset_eq_setD)
  moreover have "fst (wait_group w ?ss ?h None) = None" "h' = snd (wait_group w ?ss ?h None) @ [PhaseStop (PhaseName p)]"
    using assms(2) by (simp_all add: runPhase_def Let_def case_prod_beta)
  ultimately show ?thesis using wait_group_all [of w ?ss ?h s] by simp
qed

lemma run_phases_all:
  assumes "fair_world w"
  shows "run_phases w ps h = (None, h') \<Longrightarrow> p \<in> set ps \<Longrightarrow> CheckFunc p = None \<Longrightarrow> s \<in> set (PhaseTasks p) \<Longrightarrow>
    \<exists>h0 rest. run_setup (task_result w h0) s = None \<and> ran h' = ran h0 @ s # rest"
proof (induction ps arbitrary: h)
  case Nil
  then show ?case by simp
next
  case (Cons q qs)
  show ?case
  proof (cases "case CheckFunc q of None \<Rightarrow> False | Some c \<Rightarrow> \<not> check_result w h c")
    case True
    then have "run_phases w qs h = (None, h')" "p \<noteq> q" using Cons.prems by (auto split: option.splits)
    then show ?thesis using Cons by simp
  next
    case False
    obtain perr h1 where ph: "runPhase w q h = (perr, h1)" by (cases "runPhase w q h")
    have rest: "perr = None" "run_phases w qs h1 = (None, h')"
      using Cons.prems(1) False ph by (auto split: option.splits if_splits)
    show ?thesis
    proof (cases "p = q")
      case True
      then obtain h0 more where t: "run_setup (task_result w h0) s = None" "ran h1 = ran h0 @ s # more"
        using runPhase_all [OF assms ph [unfolded rest(1)]] Cons.prems(4) by blast
      obtain ss where "ran h' = ran h1 @ ss" using run_phases_prefix [OF assms rest(2)] by blast
      then show ?thesis using t by (intro exI [of _ h0] exI [of _ "more @ ss"]) simp
    next
      case False
      then show ?thesis using Cons.IH [OF rest(2)] Cons.prems by simp
    qed
  qed
qed

lemma fair_reset_world: "fair_world other \<Longrightarrow> fair_world (reset_world W data st other)"
  by (simp add: fair_world_def reset_world_def)

text \<open>The tasks that wipe are plain tasks of unconditional phases.\<close>

lemma reset_wipe_phase:
  assumes "MachineMode mach \<noteq> ModeContainer" "t \<in> set (reset_wipes opts)"
  shows "\<exists>p \<in> set (Reset mach opts). CheckFunc p = None \<and> Plain t \<in> set (PhaseTasks p)"
proof -
  have "WipeMode opts \<noteq> WipeUserDisks \<longleftrightarrow> WipeMode opts = WipeAll \<or> WipeMode opts = WipeSystemDisk"
    "WipeMode opts \<noteq> WipeSystemDisk \<longleftrightarrow> WipeMode opts = WipeAll \<or> WipeMode opts = WipeUserDisks"
    by (cases "WipeMode opts"; simp)+
  with assms show ?thesis
    by (auto simp: reset_wipes_def Reset_def Let_def Append_def AppendWhen_def AppendList_def split: if_splits)
qed

text \<open>A reset without an error: every task that wipes has run, without an error, and nothing later undoes
  its calls.\<close>

lemma reset_task_ok:
  assumes "fair_world other" "MachineMode mach \<noteq> ModeContainer" "t \<in> set (reset_wipes (sequencer_options opts))"
    and "Controller.run (reset_world W (OptionsData opts) st other) SequenceReset (Reset mach (sequencer_options opts)) [] = (None, h)"
  shows "\<exists>st0 st1. wipe_task W (OptionsData opts) t st0 = (None, st1) \<and>
    set (DevCalls st1) \<subseteq> set (DevCalls (state_after W (OptionsData opts) st (ran h)))"
proof -
  let ?w = "reset_world W (OptionsData opts) st other"
  obtain p where p: "p \<in> set (Reset mach (sequencer_options opts))" "CheckFunc p = None" "Plain t \<in> set (PhaseTasks p)"
    using reset_wipe_phase [OF assms(2,3)] by blast
  let ?start = "[SequenceStart SequenceReset]"
  have run: "run_phases ?w (Reset mach (sequencer_options opts)) ?start = (None, snd (run_phases ?w (Reset mach (sequencer_options opts)) ?start))"
    and h: "ran h = ran (snd (run_phases ?w (Reset mach (sequencer_options opts)) ?start))"
    using assms(4) by (auto simp: Controller.run_def case_prod_beta prod_eq_iff)
  obtain h0 rest where t: "run_setup (task_result ?w h0) (Plain t) = None" "ran h = ran h0 @ Plain t # rest"
    using run_phases_all [OF fair_reset_world [OF assms(1)] run p] h by auto
  have "t \<in> wipe_tasks" using assms(3) by (auto simp: reset_wipes_def wipe_tasks_def split: if_splits)
  then have "fst (wipe_task W (OptionsData opts) t (state_after W (OptionsData opts) st (ran h0))) = None"
    using t(1) by (simp add: reset_world_def)
  moreover have "set (DevCalls (snd (wipe_task W (OptionsData opts) t (state_after W (OptionsData opts) st (ran h0))))) \<subseteq>
      set (DevCalls (state_after W (OptionsData opts) st (ran h)))"
  proof -
    let ?st = "snd (wipe_task W (OptionsData opts) t (state_after W (OptionsData opts) st (ran h0)))"
    obtain new where "DevCalls (state_after W (OptionsData opts) ?st rest) = DevCalls ?st @ new" by (rule state_after_calls)
    then show ?thesis unfolding t(2) by auto
  qed
  ultimately show ?thesis by (metis prod.collapse)
qed

section \<open>Properties\<close>





text \<open>A request whose partitions all have the flag wipe unset is accepted, runs the whole sequence with the
  task that wipes system disks, and wipes nothing of them: the paths are looked up only when no partition
  is named.\<close>

theorem reset_with_unset_flags:
  assumes "Server_Reset R req = Inr opts" and "SystemPartitionsToWipe req \<noteq> []" and "\<forall>(l, wipe) \<in> set (SystemPartitionsToWipe req). \<not> wipe"
    and "\<forall>ds. set (visit_keys R ds) = set ds"
  shows "reset_wipes (sequencer_options opts) = ResetSystemDisk # (if UserDisksToWipe (RequestOptions req) = [] then [] else [ResetUserDisks]) \<and>
    snd (wipe_task W (OptionsData opts) ResetSystemDisk st) = st"
proof -
  note acc = accepted_reset [OF assms(1,4)]
  have "\<not> asks_partition req l" for l using assms(3) by (auto simp: asks_partition_def)
  then have none: "systemDiskTargets opts = []" using acc(3) by (meson last_in_set)
  have paths: "systemDiskPaths opts = []" using acc(5) assms(2) by (metis all_not_in_conv asks_system_disk_def set_empty)
  have mode: "WipeMode (RequestOptions req) \<noteq> WipeUserDisks"
    using assms(1,2) by (auto simp: Server_Reset_def check_partitions_def split: option.splits sum.splits if_splits)
  have "UserDisksToWipe (RequestOptions req) \<noteq> [] \<Longrightarrow> WipeMode (RequestOptions req) \<noteq> WipeSystemDisk"
    using acc(2) by (auto simp: asks_user_disk_def neq_Nil_conv)
  then have "reset_wipes (sequencer_options opts) = ResetSystemDisk # (if UserDisksToWipe (RequestOptions req) = [] then [] else [ResetUserDisks])"
    using none mode acc(1) by (simp add: reset_wipes_def sequencer_options_def GetSystemDiskTargets_def)
  moreover have "snd (wipe_task W (OptionsData opts) ResetSystemDisk st) = st"
    using paths by (simp add: wipe_task_def task_error_def on_devices_def ResetSystemDisk_task_def dret_def)
  ultimately show ?thesis ..
qed

section \<open>Witnesses\<close>

definition demo_resources :: block_resources where
  "demo_resources =
     \<lparr>list_disks = Inr [\<lparr>DskID = ''sda'', DskDevPath = ''/dev/sda'', DskReadonly = False, DskCDROM = False, DskSecondaryDisks = []\<rparr>,
        \<lparr>DskID = ''sdb'', DskDevPath = ''/dev/sdb'', DskReadonly = False, DskCDROM = False, DskSecondaryDisks = []\<rparr>],
      get_system_disk = Inr \<lparr>SysDiskID = ''sda'', SysDevPath = ''/dev/sda''\<rparr>,
      get_volume_status = (\<lambda>v. if v = ''STATE'' then Inr (zero_VolumeStatusSpec\<lparr>Location := ''/dev/sda5'', ParentLocation := ''/dev/sda'', PartitionIndex := 5\<rparr>)
        else Inl StoreNotFound),
      visit_keys = (\<lambda>ds. ds)\<rparr>"

definition demo_wipe_env :: "((string, bytes) gomap) wipe_env" where
  "demo_wipe_env = \<lparr>Devices = (\<lambda>cs c. DevOk), Sha = demo_sha, MapOrder = (\<lambda>m. m), Cosi = demo_cosi, Kernel = demo_kernel\<rparr>"

definition demo_wipe_state :: "((string, bytes) gomap) wipe_state" where
  "demo_wipe_state = \<lparr>DevCalls = [],
     Machine = \<lparr>StMeta = demo_meta [], StContainer = False, StagedInstall = False, StagedInstallImageRef = [], StagedInstallOptions = []\<rparr>,
     MetaWorld = \<lparr>Res = [], Files = (\<lambda>_. None)\<rparr>\<rparr>"

definition demo_tasks :: "wipe_error task_world" where
  "demo_tasks = \<lparr>task_result = (\<lambda>h t. None), finish_order = (\<lambda>h ts. ts), check_result = (\<lambda>h c. True), ctx_alive = (\<lambda>h. True)\<rparr>"

definition demo_reset_request :: "wipe_mode \<Rightarrow> (string \<times> bool) list \<Rightarrow> reset_request" where
  "demo_reset_request mode parts = \<lparr>RequestOptions = \<lparr>Graceful = False, ResetReboot = True, WipeMode = mode, UserDisksToWipe = [''/dev/sdb''], SystemDiskTargets = []\<rparr>,
     SystemPartitionsToWipe = parts\<rparr>"


definition demo_reset_of :: "reset_request \<Rightarrow> wipe_error run_error option \<times> event list \<times> ((string, bytes) gomap) wipe_state" where
  "demo_reset_of req =
     (case reset_machine demo_resources demo_wipe_env demo_tasks demo_machine req demo_wipe_state of
        Inl e \<Rightarrow> (None, [], demo_wipe_state) | Inr r \<Rightarrow> r)"

definition is_accepted :: "'e + 'a \<Rightarrow> bool" where
  "is_accepted r = (case r of Inl e \<Rightarrow> False | Inr x \<Rightarrow> True)"

lemma demo_reset_runs:
  assumes "is_accepted (reset_machine demo_resources demo_wipe_env demo_tasks demo_machine req demo_wipe_state)"
  shows "reset_machine demo_resources demo_wipe_env demo_tasks demo_machine req demo_wipe_state =
    Inr (fst (demo_reset_of req), fst (snd (demo_reset_of req)), snd (snd (demo_reset_of req)))"
  using assms by (auto simp: demo_reset_of_def is_accepted_def split: sum.splits)

lemma demo_fair_tasks: "fair_world demo_tasks" "\<forall>ds. set (visit_keys demo_resources ds) = set ds"
  by (simp_all add: fair_world_def demo_tasks_def demo_resources_def)

lemma demo_accepted:
  "is_accepted (reset_machine demo_resources demo_wipe_env demo_tasks demo_machine (demo_reset_request WipeUserDisks []) demo_wipe_state)"
  "is_accepted (reset_machine demo_resources demo_wipe_env demo_tasks demo_machine (demo_reset_request WipeAll [(''STATE'', True)]) demo_wipe_state)"
  "fst (demo_reset_of (demo_reset_request WipeAll [(''STATE'', True)])) = None"
  by code_simp+



theorem reset_with_unset_flags_witness:
  "reset_wipes (sequencer_options \<lparr>ResetRequest = RequestOptions (demo_reset_request WipeAll [(''STATE'', False)]), systemDiskTargets = [], systemDiskPaths = []\<rparr>) =
     [ResetSystemDisk, ResetUserDisks]"
proof -
  let ?req = "demo_reset_request WipeAll [(''STATE'', False)]"
  have "Server_Reset demo_resources ?req = Inr \<lparr>ResetRequest = RequestOptions ?req, systemDiskTargets = [], systemDiskPaths = []\<rparr>"
    by code_simp
  from reset_with_unset_flags [OF this _ _ demo_fair_tasks(2), of demo_wipe_env demo_wipe_state] show ?thesis
    by (simp add: demo_reset_request_def)
qed

text \<open>A STATE partition is wiped, and its encryption forgotten.\<close>

theorem wiped_state_is_forgotten_witness:
  "\<exists>st' err m w. ResetSystemDiskSpec_task demo_wipe_env
      (TargetsData \<lparr>tgSystemDiskTargets = [\<lparr>WipeLabel = ''STATE'', WipeParent = ''/dev/sda'', WipeDevName = ''/dev/sda5'', WipePartition = 5\<rparr>], tgSystemDiskPaths = []\<rparr>)
      (demo_wipe_state\<lparr>Machine := (Machine demo_wipe_state)\<lparr>StMeta := demo_meta [(9, [65])]\<rparr>, MetaWorld := demo_disk blank\<rparr>) = (None, st') \<and>
    New demo_sha (\<lambda>m. m) demo_cosi demo_kernel True ''m'' (MetaWorld st') = Ret (err, m, w) \<and> ReadTag m StateEncryptionConfig = None"
proof -
  let ?ts = "[\<lparr>WipeLabel = ''STATE'', WipeParent = ''/dev/sda'', WipeDevName = ''/dev/sda5'', WipePartition = 5\<rparr>]"
  let ?data = "TargetsData \<lparr>tgSystemDiskTargets = ?ts, tgSystemDiskPaths = []\<rparr>"
  let ?m = "demo_meta [(9, [65])]"
  let ?st = "demo_wipe_state\<lparr>Machine := (Machine demo_wipe_state)\<lparr>StMeta := ?m\<rparr>, MetaWorld := demo_disk blank\<rparr>"
  have op: "open_meta demo_cosi demo_kernel (demo_meta []) (demo_disk blank) = (Inr (''m'', blank), demo_disk blank)"
    by (rule demo_open) (rule demo_facts)
  obtain w1 where fl: "Flush demo_sha (\<lambda>m. m) demo_cosi demo_kernel (demo_meta []) (demo_disk blank) = (None, w1)"
    using demo_flush [OF op] demo_facts(5) by (auto simp: demo_meta_def)
  have del: "meta_DeleteTag demo_cosi ?m StateEncryptionConfig [] = Ret ((True, None), demo_meta [], [])"
    by (simp add: meta_DeleteTag_def demo_meta_def DeleteTag_def gm_has_def gm_del_def StateEncryptionConfig_def)
  have wiped: "fst (wipe_targets (\<lambda>cs c. DevOk) ?ts (False, False, []) []) = (False, True, [])" by code_simp
  then obtain s where targets: "wipe_targets (\<lambda>cs c. DevOk) ?ts (False, False, []) [] = ((False, True, []), s)" by (metis prod.collapse)
  have res: "(demo_disk blank)\<lparr>Res := []\<rparr> = demo_disk blank" "Res (demo_disk blank) = []" by (simp_all add: demo_disk_def)
  obtain st' where run: "ResetSystemDiskSpec_task demo_wipe_env ?data ?st = (None, st')"
    using targets del fl
    by (auto simp: ResetSystemDiskSpec_task_def demo_wipe_env_def demo_wipe_state_def delete_state_key_def state_DeleteTag_def state_Flush_def res)
  have wf: "meta_wf ?m" by (rule demo_wf) (simp_all add: gm_wf_def gm_get_def)
  have legacy: "ReadTagBytes_legacy (Legacy ?m) t = None" for t
    using fresh_chain [of t] by (simp add: demo_meta_def ReadTagBytes_legacy_def)
  have "\<exists>err m w. New demo_sha (\<lambda>m. m) demo_cosi demo_kernel True ''m'' (MetaWorld st') = Ret (err, m, w) \<and> ReadTag m StateEncryptionConfig = None"
    using wiped_state_is_forgotten [OF run, of ?ts "[]" "''m''" blank True] wf legacy demo_facts
    by (auto simp: demo_wipe_env_def demo_wipe_state_def demo_disk_def demo_meta_def StatePartitionLabel_def MetaPartitionLabel_def
        ReadTagBytes_def gm_get_def StateEncryptionConfig_def)
  with run show ?thesis by blast
qed

end
