(* ===== verification/WipeAPI.thy ===== *)
theory WipeAPI
  imports ResetAPI GoText
begin

text \<open>
  The other two ways to wipe a disk through the API: Server.Reset of the maintenance service
  (internal/app/maintenance/server.go) and BlockDeviceWipe of the storage service
  (internal/app/storaged/server.go), both on the calls of Wiping.
\<close>

section \<open>The maintenance service\<close>

datatype maintenance_error =
    AgentMode
  | NotAdmin
  | UserDisksInSystemMode
  | PartitionsNotSupported
  | MaintenanceLookup store_error
  | NotInstalled
  | MaintenanceWipe wipe_error

text \<open>The closes are deferred to the end of the handler, so the devices are closed in the reverse order. No
  device is locked, and a user disk is not validated.\<close>

fun maintenance_user_disks :: "dev_env \<Rightarrow> string list \<Rightarrow> unit dev" where
  "maintenance_user_disks E [] = dret ()"
| "maintenance_user_disks E (deviceName # ds) =
     dseq (dcall E (OpenForWrite deviceName))
     (deferred E (CloseDev deviceName)
       (dseq (WipeWithSignatures E deviceName) (maintenance_user_disks E ds)))"

definition maintenance_wipe :: "dev_env \<Rightarrow> string \<Rightarrow> reset_options \<Rightarrow> unit dev" where
  "maintenance_wipe E systemDisk req =
     dseq (dcall E (OpenForWrite systemDisk))
     (deferred E (CloseDev systemDisk)
       (dseq (WipeWithSignatures E systemDisk)
       (if WipeMode req \<noteq> WipeSystemDisk then maintenance_user_disks E (UserDisksToWipe req) else dret ())))"

text \<open>The result of an accepted request is the sequence that is started.\<close>

definition maintenance_Reset ::
    "block_resources \<Rightarrow> dev_env \<Rightarrow> bool \<Rightarrow> bool \<Rightarrow> reset_request \<Rightarrow> dev_calls \<Rightarrow> (maintenance_error + Sequence) \<times> dev_calls" where
  "maintenance_Reset R E agent admin req s =
     (let opts = RequestOptions req
      in if agent then (Inl AgentMode, s)
         else if \<not> admin then (Inl NotAdmin, s)
         else if UserDisksToWipe opts \<noteq> [] \<and> WipeMode opts = WipeSystemDisk then (Inl UserDisksInSystemMode, s)
         else if SystemPartitionsToWipe req \<noteq> [] then (Inl PartitionsNotSupported, s)
         else
           (case GetSystemDisk R of
              Inl e \<Rightarrow> (Inl (MaintenanceLookup e), s)
            | Inr None \<Rightarrow> (Inl NotInstalled, s)
            | Inr (Some systemDisk) \<Rightarrow>
                (case maintenance_wipe E (SysDevPath systemDisk) opts s of
                   (Inl e, s) \<Rightarrow> (Inl (MaintenanceWipe e), s)
                 | (Inr _, s) \<Rightarrow> (Inr (if ResetReboot opts then SequenceReboot else SequenceShutdown), s))))"

section \<open>The storage service\<close>

text \<open>The resources that BlockDeviceWipe reads; a device type is its string. The status codes of the errors
  are left out.\<close>

record device_res =
  BdID :: string
  BdType :: string
  BdParent :: string
  BdPartitionNumber :: int
  BdSecondaries :: "string list"

record storage_resources =
  get_device :: "string \<Rightarrow> store_error + device_res"
  get_disk :: "string \<Rightarrow> store_error + disk_res"
  all_disks :: "store_error + disk_res list"
  all_devices :: "store_error + device_res list"
  all_volumes :: "store_error + VolumeStatusSpec list"

definition DeviceTypeDisk :: string where
  "DeviceTypeDisk = ''disk''"

definition DeviceTypePartition :: string where
  "DeviceTypePartition = ''partition''"

datatype storage_error =
    BlockdeviceNotFound string
  | StorageLookup store_error
  | UnsupportedType string string
  | NoDisk string store_error
  | ReadOnlyDevice string
  | CdRom string
  | InUseByDisk string string
  | InUseByDevice string string
  | InUseByVolume string
  | StorageWipe wipe_error

text \<open>filepath.Base: the last element, without trailing slashes; a dot for the empty path, a slash for a
  path of slashes.\<close>

definition path_Base :: "string \<Rightarrow> string" where
  "path_Base s =
     (if s = '''' then ''.''
      else
        (let t = rev (dropWhile (\<lambda>c. c = CHR ''/'') (rev s))
         in if t = '''' then ''/'' else rev (takeWhile (\<lambda>c. c \<noteq> CHR ''/'') (rev t))))"

text \<open>The checks of validateDeviceForWipe. The test of an empty location never holds, as Base gives a dot for
  the empty path.\<close>

definition location_in_use :: "string \<Rightarrow> string \<Rightarrow> VolumeStatusSpec \<Rightarrow> storage_error option" where
  "location_in_use deviceName parent vs =
     (case List.find (\<lambda>(location, dev). dev \<noteq> '''' \<and> location \<noteq> '''' \<and> location = dev)
         [(path_Base (Location vs), deviceName), (path_Base (Location vs), parent),
          (path_Base (MountLocation vs), deviceName), (path_Base (MountLocation vs), parent)] of
        Some (_, dev) \<Rightarrow> Some (InUseByVolume dev)
      | None \<Rightarrow> if path_Base (ParentLocation vs) = deviceName then Some (InUseByVolume deviceName) else None)"

fun volumes_in_use :: "string \<Rightarrow> string \<Rightarrow> VolumeStatusSpec list \<Rightarrow> storage_error option" where
  "volumes_in_use deviceName parent [] = None"
| "volumes_in_use deviceName parent (vs # vss) =
     (case location_in_use deviceName parent vs of
        Some e \<Rightarrow> Some e
      | None \<Rightarrow> volumes_in_use deviceName parent vss)"

definition secondary_check :: "storage_resources \<Rightarrow> string \<Rightarrow> string \<Rightarrow> storage_error option" where
  "secondary_check S deviceName deviceType =
     (if deviceType = DeviceTypeDisk then
        (case all_disks S of
           Inl e \<Rightarrow> Some (StorageLookup e)
         | Inr ds \<Rightarrow> map_option (\<lambda>d. InUseByDisk deviceName (DskID d)) (List.find (\<lambda>d. deviceName \<in> set (DskSecondaryDisks d)) ds))
      else
        (case all_devices S of
           Inl e \<Rightarrow> Some (StorageLookup e)
         | Inr bs \<Rightarrow> map_option (\<lambda>b. InUseByDevice deviceName (BdID b)) (List.find (\<lambda>b. deviceName \<in> set (BdSecondaries b)) bs)))"

definition volume_check :: "storage_resources \<Rightarrow> string \<Rightarrow> string \<Rightarrow> storage_error option" where
  "volume_check S deviceName parent =
     (case all_volumes S of
        Inl e \<Rightarrow> Some (StorageLookup e)
      | Inr vss \<Rightarrow> volumes_in_use deviceName parent vss)"

definition validateDeviceForWipe :: "storage_resources \<Rightarrow> string \<Rightarrow> bool \<Rightarrow> bool \<Rightarrow> storage_error option" where
  "validateDeviceForWipe S deviceName skipVolumeCheck skipSecondaryCheck =
     (case get_device S deviceName of
        Inl e \<Rightarrow> Some (if e = StoreNotFound then BlockdeviceNotFound deviceName else StorageLookup e)
      | Inr blockdevice \<Rightarrow>
          (let deviceType = BdType blockdevice;
               parent = (if deviceType = DeviceTypePartition then BdParent blockdevice else '''')
           in if deviceType \<noteq> DeviceTypeDisk \<and> deviceType \<noteq> DeviceTypePartition then Some (UnsupportedType deviceName deviceType)
              else
                (case get_disk S (if parent \<noteq> '''' then parent else deviceName) of
                   Inl e \<Rightarrow> Some (NoDisk deviceName e)
                 | Inr disk \<Rightarrow>
                     if DskReadonly disk then Some (ReadOnlyDevice deviceName)
                     else if DskCDROM disk then Some (CdRom deviceName)
                     else
                       (case (if skipSecondaryCheck then None else secondary_check S deviceName deviceType) of
                          Some e \<Rightarrow> Some e
                        | None \<Rightarrow> if skipVolumeCheck then None else volume_check S deviceName parent))))"

definition findParentDevice :: "storage_resources \<Rightarrow> string \<Rightarrow> store_error + (string \<times> int)" where
  "findParentDevice S deviceName =
     (case get_device S deviceName of
        Inl e \<Rightarrow> Inl e
      | Inr b \<Rightarrow> Inr (if BdType b = DeviceTypePartition then (BdParent b, BdPartitionNumber b) else ('''', 0)))"

datatype wipe_method = WipeFast | WipeZeroesMethod | OtherMethod

record wipe_request =
  WrDevice :: string
  WrMethod :: wipe_method
  WrSkipVolumeCheck :: bool
  WrSkipSecondaryCheck :: bool
  WrDropPartition :: bool

definition dev_path :: "string \<Rightarrow> string" where
  "dev_path d = path_Join ''/dev'' d"

text \<open>The wipe with the locks held. The device is closed before the partition is dropped, and once more when
  the handler returns.\<close>

definition wipe_locked :: "dev_env \<Rightarrow> string \<Rightarrow> wipe_request \<Rightarrow> string \<Rightarrow> int \<Rightarrow> unit dev" where
  "wipe_locked E path req parentName partitionNumber =
     dseq (case WrMethod req of
         WipeZeroesMethod \<Rightarrow> dcall E (WipeZeroes path)
       | WipeFast \<Rightarrow> WipeWithSignatures E path
       | OtherMethod \<Rightarrow> dfail UnexpectedData)
     (if WrDropPartition req \<and> parentName \<noteq> '''' \<and> partitionNumber \<noteq> 0
      then dseq (dcall E (CloseDev path))
           (dseq (dcall E (OpenGPT (dev_path parentName)))
           (dseq (dcall E (ReadGPT (dev_path parentName)))
           (dseq (dcall E (DeletePartition (dev_path parentName) (partitionNumber - 1)))
           (dcall E (WriteGPT (dev_path parentName))))))
      else dret ())"

definition wipe_opened :: "dev_env \<Rightarrow> wipe_request \<Rightarrow> string \<Rightarrow> int \<Rightarrow> unit dev" where
  "wipe_opened E req parentName partitionNumber =
     (let path = dev_path (WrDevice req); locked = (if parentName \<noteq> '''' then dev_path parentName else path)
      in dseq (dcall E (OpenNotMounted path))
         (deferred E (CloseDev path)
           (dseq (dcall E (LockDev locked))
           (deferred E (UnlockDev locked) (wipe_locked E path req parentName partitionNumber)))))"

definition wipeDevice :: "storage_resources \<Rightarrow> dev_env \<Rightarrow> wipe_request \<Rightarrow> dev_calls \<Rightarrow> storage_error option \<times> dev_calls" where
  "wipeDevice S E req s =
     (case findParentDevice S (WrDevice req) of
        Inl e \<Rightarrow> (Some (StorageLookup e), s)
      | Inr (parentName, partitionNumber) \<Rightarrow>
          (let body = wipe_opened E req parentName partitionNumber;
               m = (if parentName \<noteq> '''' then dseq (dcall E (OpenForWrite (dev_path parentName))) (deferred E (CloseDev (dev_path parentName)) body)
                    else body)
           in (case m s of
                 (Inl e, s) \<Rightarrow> (Some (StorageWipe e), s)
               | (Inr _, s) \<Rightarrow> (None, s))))"

fun validate_all :: "storage_resources \<Rightarrow> wipe_request list \<Rightarrow> storage_error option" where
  "validate_all S [] = None"
| "validate_all S (r # rs) =
     (case validateDeviceForWipe S (WrDevice r) (WrSkipVolumeCheck r) (WrSkipSecondaryCheck r) of
        Some e \<Rightarrow> Some e
      | None \<Rightarrow> validate_all S rs)"

fun wipe_all :: "storage_resources \<Rightarrow> dev_env \<Rightarrow> wipe_request list \<Rightarrow> dev_calls \<Rightarrow> storage_error option \<times> dev_calls" where
  "wipe_all S E [] s = (None, s)"
| "wipe_all S E (r # rs) s =
     (case wipeDevice S E r s of
        (Some e, s) \<Rightarrow> (Some e, s)
      | (None, s) \<Rightarrow> wipe_all S E rs s)"

text \<open>The resources may change between the checks and the wipes: \<open>S'\<close> are those of the wipes.\<close>

definition BlockDeviceWipe ::
    "storage_resources \<Rightarrow> storage_resources \<Rightarrow> dev_env \<Rightarrow> wipe_request list \<Rightarrow> dev_calls \<Rightarrow> storage_error option \<times> dev_calls" where
  "BlockDeviceWipe S S' E req s =
     (case validate_all S req of
        Some e \<Rightarrow> (Some e, s)
      | None \<Rightarrow> wipe_all S' E req s)"


section \<open>What the checks ensure\<close>

definition parent_device_of :: "device_res \<Rightarrow> string" where
  "parent_device_of b = (if BdType b = DeviceTypePartition then BdParent b else '''')"

text \<open>A device is free when it is a disk or a partition, on a disk that is neither read-only nor a CD-ROM; no
  disk or device is built on it; and no volume is located on it, on its parent, or has it as its parent. The
  last two only when the request does not skip them.\<close>

definition free_of_secondaries :: "storage_resources \<Rightarrow> string \<Rightarrow> device_res \<Rightarrow> bool" where
  "free_of_secondaries S d b \<longleftrightarrow>
     (if BdType b = DeviceTypeDisk then \<exists>ds. all_disks S = Inr ds \<and> (\<forall>k \<in> set ds. d \<notin> set (DskSecondaryDisks k))
      else \<exists>bs. all_devices S = Inr bs \<and> (\<forall>x \<in> set bs. d \<notin> set (BdSecondaries x)))"

definition free_of_volumes :: "storage_resources \<Rightarrow> string \<Rightarrow> device_res \<Rightarrow> bool" where
  "free_of_volumes S d b \<longleftrightarrow>
     (\<exists>vss. all_volumes S = Inr vss \<and>
        (\<forall>vs \<in> set vss. path_Base (ParentLocation vs) \<noteq> d \<and>
           (\<forall>dev \<in> {d, parent_device_of b} - {''''}. path_Base (Location vs) \<noteq> dev \<and> path_Base (MountLocation vs) \<noteq> dev)))"

definition free_device :: "storage_resources \<Rightarrow> wipe_request \<Rightarrow> bool" where
  "free_device S r \<longleftrightarrow>
     (\<exists>b k. get_device S (WrDevice r) = Inr b \<and> BdType b \<in> {DeviceTypeDisk, DeviceTypePartition} \<and>
        get_disk S (if parent_device_of b \<noteq> '''' then parent_device_of b else WrDevice r) = Inr k \<and> \<not> DskReadonly k \<and> \<not> DskCDROM k \<and>
        (\<not> WrSkipSecondaryCheck r \<longrightarrow> free_of_secondaries S (WrDevice r) b) \<and>
        (\<not> WrSkipVolumeCheck r \<longrightarrow> free_of_volumes S (WrDevice r) b))"

lemma path_Base_nonempty: "path_Base s \<noteq> ''''"
proof -
  let ?t = "rev (dropWhile (\<lambda>c. c = CHR ''/'') (rev s))"
  have "?t \<noteq> '''' \<Longrightarrow> takeWhile (\<lambda>c. c \<noteq> CHR ''/'') (rev ?t) \<noteq> []"
  proof -
    assume "?t \<noteq> ''''"
    then obtain a xs where "dropWhile (\<lambda>c. c = CHR ''/'') (rev s) = a # xs" "a \<noteq> CHR ''/''"
      using hd_dropWhile [of "\<lambda>c. c = CHR ''/''" "rev s"] by (cases "dropWhile (\<lambda>c. c = CHR ''/'') (rev s)") auto
    then show ?thesis by simp
  qed
  then show ?thesis by (simp add: path_Base_def Let_def)
qed

lemma location_free:
  "location_in_use d parent vs = None \<longleftrightarrow>
     path_Base (ParentLocation vs) \<noteq> d \<and>
     (\<forall>dev \<in> {d, parent} - {''''}. path_Base (Location vs) \<noteq> dev \<and> path_Base (MountLocation vs) \<noteq> dev)"
  using path_Base_nonempty [of "Location vs"] path_Base_nonempty [of "MountLocation vs"]
  by (auto simp: location_in_use_def split: if_splits)

lemma volumes_free: "volumes_in_use d parent vss = None \<longleftrightarrow> (\<forall>vs \<in> set vss. location_in_use d parent vs = None)"
  by (induction vss) (auto split: option.splits)

lemma find_none: "List.find P xs = None \<longleftrightarrow> (\<forall>x \<in> set xs. \<not> P x)"
  by (auto simp: find_None_iff)

lemma validate_free:
  "validateDeviceForWipe S (WrDevice r) (WrSkipVolumeCheck r) (WrSkipSecondaryCheck r) = None \<longleftrightarrow> free_device S r"
proof (cases "get_device S (WrDevice r)")
  case (Inl e)
  then show ?thesis by (simp add: validateDeviceForWipe_def free_device_def)
next
  case (Inr b)
  have sec: "secondary_check S (WrDevice r) (BdType b) = None \<longleftrightarrow> free_of_secondaries S (WrDevice r) b"
    by (auto simp: secondary_check_def free_of_secondaries_def find_none split: sum.splits)
  have vol: "volume_check S (WrDevice r) (parent_device_of b) = None \<longleftrightarrow> free_of_volumes S (WrDevice r) b"
    by (auto simp: volume_check_def free_of_volumes_def volumes_free location_free split: sum.splits)
  show ?thesis
  proof (cases "BdType b \<in> {DeviceTypeDisk, DeviceTypePartition}")
    case False
    then show ?thesis using Inr by (simp add: validateDeviceForWipe_def free_device_def)
  next
    case True
    have v: "validateDeviceForWipe S (WrDevice r) (WrSkipVolumeCheck r) (WrSkipSecondaryCheck r) =
        (case get_disk S (if parent_device_of b \<noteq> '''' then parent_device_of b else WrDevice r) of
           Inl e \<Rightarrow> Some (NoDisk (WrDevice r) e)
         | Inr disk \<Rightarrow>
             if DskReadonly disk then Some (ReadOnlyDevice (WrDevice r))
             else if DskCDROM disk then Some (CdRom (WrDevice r))
             else
               (case (if WrSkipSecondaryCheck r then None else secondary_check S (WrDevice r) (BdType b)) of
                  Some e \<Rightarrow> Some e
                | None \<Rightarrow> if WrSkipVolumeCheck r then None else volume_check S (WrDevice r) (parent_device_of b)))"
    proof -
      have p: "(if BdType b = DeviceTypePartition then BdParent b else '''') = parent_device_of b" by (simp add: parent_device_of_def)
      have t: "(BdType b \<noteq> DeviceTypeDisk \<and> BdType b \<noteq> DeviceTypePartition) = False" using True by auto
      show ?thesis unfolding validateDeviceForWipe_def Inr sum.case Let_def p t if_False ..
    qed
    show ?thesis
      unfolding v free_device_def using Inr True
      by (cases "get_disk S (if parent_device_of b \<noteq> '''' then parent_device_of b else WrDevice r)"; cases "WrSkipSecondaryCheck r"; cases "WrSkipVolumeCheck r")
        (simp_all add: sec [symmetric] vol [symmetric] split: option.splits)
  qed
qed

lemma validate_all_free: "validate_all S rs = None \<longleftrightarrow> (\<forall>r \<in> set rs. free_device S r)"
  by (induction rs) (auto simp: validate_free [symmetric] split: option.splits)


section \<open>Properties\<close>

text \<open>The calls of the wipe of one device: they are on the device or its parent, and the device is written
  only after it was opened with the assertion that it is not mounted.\<close>

definition wipe_touches :: "storage_resources \<Rightarrow> wipe_request \<Rightarrow> string \<Rightarrow> bool" where
  "wipe_touches S r d \<longleftrightarrow>
     d = dev_path (WrDevice r) \<or> WrDropPartition r \<and> (\<exists>p n. findParentDevice S (WrDevice r) = Inr (p, n) \<and> p \<noteq> '''' \<and> d = dev_path p)"

lemma only_mono: "calls_only P m \<Longrightarrow> (\<And>c. P c \<Longrightarrow> Q c) \<Longrightarrow> calls_only Q m"
  unfolding calls_only_def by (metis (mono_tags, lifting) case_prodD case_prodI2)

lemma wipe_locked_only:
  "calls_only (\<lambda>c. op_device c = path \<or> WrDropPartition r \<and> p \<noteq> '''' \<and> op_device c = dev_path p) (wipe_locked E path r p n)"
proof -
  let ?P = "\<lambda>c. op_device c = path \<or> WrDropPartition r \<and> p \<noteq> '''' \<and> op_device c = dev_path p"
  have "calls_only ?P (case WrMethod r of WipeZeroesMethod \<Rightarrow> dcall E (WipeZeroes path) | WipeFast \<Rightarrow> WipeWithSignatures E path
      | OtherMethod \<Rightarrow> dfail UnexpectedData)"
    by (cases "WrMethod r") (auto intro!: only_rules only_WipeWithSignatures)
  then show ?thesis unfolding wipe_locked_def by (rule only_seq) (auto intro!: only_rules)
qed

lemma dseq_call_cases:
  assumes "dseq (dcall E c) k s = (r, s')"
  obtains (failed) "s' = s @ [(c, E s c)]" "E s c \<noteq> DevOk" "r = Inl (CallFailed c)"
    | (called) "E s c = DevOk" "k (s @ [(c, DevOk)]) = (r, s')"
  using assms by (cases "E s c = DevOk") (auto simp: dseq_def dbind_def dcall_def dask_def dret_def dfail_def)

lemma wipe_opened_calls:
  assumes "wipe_opened E r p n s = (res, s')"
  obtains new where "s' = s @ new"
    "\<forall>(c, a) \<in> set new. writes c \<longrightarrow>
       (op_device c = dev_path (WrDevice r) \<or> WrDropPartition r \<and> p \<noteq> '''' \<and> op_device c = dev_path p) \<and>
       (OpenNotMounted (dev_path (WrDevice r)), DevOk) \<in> set new"
proof -
  let ?path = "dev_path (WrDevice r)" and ?lock = "if p \<noteq> '''' then dev_path p else dev_path (WrDevice r)"
  let ?P = "\<lambda>c. writes c \<longrightarrow> op_device c = ?path \<or> WrDropPartition r \<and> p \<noteq> '''' \<and> op_device c = dev_path p"
  let ?body = "deferred E (CloseDev ?path) (dseq (dcall E (LockDev ?lock)) (deferred E (UnlockDev ?lock) (wipe_locked E ?path r p n)))"
  have body: "calls_only ?P ?body"
    by (intro only_deferred only_seq only_call only_mono [OF wipe_locked_only]) simp_all
  from assms have "dseq (dcall E (OpenNotMounted ?path)) ?body s = (res, s')" by (simp add: wipe_opened_def Let_def)
  then show ?thesis
  proof (cases rule: dseq_call_cases)
    case failed
    then show ?thesis using that [of "[(OpenNotMounted ?path, E s (OpenNotMounted ?path))]"] by simp
  next
    case called
    obtain new where "s' = (s @ [(OpenNotMounted ?path, DevOk)]) @ new" "\<forall>(c, a) \<in> set new. ?P c"
      by (rule calls_onlyE [OF body called(2)])
    then show ?thesis using that [of "(OpenNotMounted ?path, DevOk) # new"] by auto
  qed
qed

lemma wipeDevice_calls:
  assumes "wipeDevice S E r s = (res, s')"
  obtains new where "s' = s @ new"
    "\<forall>(c, a) \<in> set new. writes c \<longrightarrow> wipe_touches S r (op_device c) \<and> (OpenNotMounted (dev_path (WrDevice r)), DevOk) \<in> set new"
proof (cases "findParentDevice S (WrDevice r)")
  case (Inl e)
  then show ?thesis using assms that [of "[]"] by (simp add: wipeDevice_def)
next
  case (Inr pn)
  obtain p n where pn: "pn = (p, n)" by (cases pn)
  let ?body = "wipe_opened E r p n"
  let ?m = "if p \<noteq> '''' then dseq (dcall E (OpenForWrite (dev_path p))) (deferred E (CloseDev (dev_path p)) ?body) else ?body"
  obtain q where m: "?m s = (q, s')"
    using assms Inr pn by (auto simp: wipeDevice_def Let_def split: prod.splits sum.splits)
  have touch: "wipe_touches S r d" if "d = dev_path (WrDevice r) \<or> WrDropPartition r \<and> p \<noteq> '''' \<and> d = dev_path p" for d
    using that Inr pn by (auto simp: wipe_touches_def)
  show ?thesis
  proof (cases "p = ''''")
    case True
    then have "?body s = (q, s')" using m by simp
    then show ?thesis by (rule wipe_opened_calls) (rule that, use touch in auto)
  next
    case False
    then have "dseq (dcall E (OpenForWrite (dev_path p))) (deferred E (CloseDev (dev_path p)) ?body) s = (q, s')" using m by simp
    then show ?thesis
    proof (cases rule: dseq_call_cases)
      case failed
      then show ?thesis using that [of "[(OpenForWrite (dev_path p), E s (OpenForWrite (dev_path p)))]"] by simp
    next
      case called
      let ?s = "s @ [(OpenForWrite (dev_path p), DevOk)]"
      obtain q' s2 where b: "?body ?s = (q', s2)" by (cases "?body ?s")
      then have s': "s' = s2 @ [(CloseDev (dev_path p), E s2 (CloseDev (dev_path p)))]"
        using called(2) by (simp add: deferred_def dask_def)
      obtain new where "s2 = ?s @ new" "\<forall>(c, a) \<in> set new. writes c \<longrightarrow>
          (op_device c = dev_path (WrDevice r) \<or> WrDropPartition r \<and> p \<noteq> '''' \<and> op_device c = dev_path p) \<and>
          (OpenNotMounted (dev_path (WrDevice r)), DevOk) \<in> set new"
        by (rule wipe_opened_calls [OF b])
      then show ?thesis
        using s' touch that [of "(OpenForWrite (dev_path p), DevOk) # new @ [(CloseDev (dev_path p), E s2 (CloseDev (dev_path p)))]"] by auto
    qed
  qed
qed

lemma wipe_all_calls:
  "wipe_all S E rs s = (res, s') \<Longrightarrow> \<exists>new. s' = s @ new \<and>
     (\<forall>(c, a) \<in> set new. writes c \<longrightarrow> (\<exists>r \<in> set rs. wipe_touches S r (op_device c) \<and> (OpenNotMounted (dev_path (WrDevice r)), DevOk) \<in> set new))"
proof (induction rs arbitrary: s)
  case Nil
  then show ?case by simp
next
  case (Cons r rs)
  obtain e s1 where w: "wipeDevice S E r s = (e, s1)" by (cases "wipeDevice S E r s")
  obtain new where new: "s1 = s @ new" "\<forall>(c, a) \<in> set new. writes c \<longrightarrow>
      wipe_touches S r (op_device c) \<and> (OpenNotMounted (dev_path (WrDevice r)), DevOk) \<in> set new" by (rule wipeDevice_calls [OF w])
  show ?case
  proof (cases e)
    case (Some err)
    then show ?thesis using Cons.prems w new by auto
  next
    case None
    then have "wipe_all S E rs s1 = (res, s')" using Cons.prems w by simp
    from Cons.IH [OF this] obtain more where more: "s' = s1 @ more" "\<forall>(c, a) \<in> set more. writes c \<longrightarrow>
        (\<exists>r \<in> set rs. wipe_touches S r (op_device c) \<and> (OpenNotMounted (dev_path (WrDevice r)), DevOk) \<in> set more)" by blast
    have "\<forall>(c, a) \<in> set (new @ more). writes c \<longrightarrow>
        (\<exists>r' \<in> set (r # rs). wipe_touches S r' (op_device c) \<and> (OpenNotMounted (dev_path (WrDevice r')), DevOk) \<in> set (new @ more))"
      using new(2) more(2) by fastforce
    then show ?thesis using new(1) more(1) by (intro exI [of _ "new @ more"]) simp
  qed
qed

text \<open>C20: A wipe of block devices is guarded. Either nothing is touched, or every device of the request is free in
  the resources of the checks: not read-only, not a CD-ROM, nothing built on it and no volume on it (the last
  two unless the request skips them). Then only the devices of the request are written, and their parents
  when a partition is dropped, each after its device was found not to be mounted.\<close>

theorem block_wipe_guarded:
  assumes "BlockDeviceWipe S S' E req s = (res, s')"
  shows "\<exists>new. s' = s @ new \<and> (new = [] \<or> (\<forall>r \<in> set req. free_device S r)) \<and>
    (\<forall>(c, a) \<in> set new. writes c \<longrightarrow>
       (\<exists>r \<in> set req. wipe_touches S' r (op_device c) \<and> (OpenNotMounted (dev_path (WrDevice r)), DevOk) \<in> set new))"
proof (cases "validate_all S req")
  case (Some e)
  then show ?thesis using assms by (simp add: BlockDeviceWipe_def)
next
  case None
  then have "wipe_all S' E req s = (res, s')" using assms by (simp add: BlockDeviceWipe_def)
  from wipe_all_calls [OF this] None show ?thesis by (simp add: validate_all_free)
qed


text \<open>The maintenance service wipes the system disk in every mode: also a request for the user disks only,
  which the reset of machined never lets reach it, ends with the system disk wiped.\<close>

theorem maintenance_reset_wipes_system:
  assumes "maintenance_Reset R E agent admin req s = (Inr q, s')"
  shows "\<exists>sd. get_system_disk R = Inr sd \<and> SysDevPath sd \<in> wiped_devices s'"
proof -
  obtain sd u where sd: "GetSystemDisk R = Inr (Some sd)"
    and w: "maintenance_wipe E (SysDevPath sd) (RequestOptions req) s = (Inr u, s')"
    using assms by (auto simp: maintenance_Reset_def Let_def split: if_splits sum.splits option.splits prod.splits)
  have g: "only_grows (maintenance_user_disks E ds)" for ds
    by (induction ds) (auto intro!: only_rules only_WipeWithSignatures)
  have "ensures (maintenance_wipe E d opts) (FastWipe d)" for d opts
    unfolding maintenance_wipe_def
    by (rule ensures_second [OF ensures_deferred [OF ensures_first [OF ensures_wipe]]]) (simp add: g only_ret)
  from ensuresD [OF this w] GetSystemDisk_Inr(2) [OF sd] show ?thesis by (simp add: wiped_devices_def)
qed

text \<open>An empty label in the kernel parameter, as in a trailing comma, is the label of every volume without a
  partition label: the first of them, for instance a whole disk, is wiped, and only then an error is
  reported.\<close>

theorem empty_label_wipes_disk:
  assumes "List.find (\<lambda>dv. DcLabel dv = '''') dvs = Some dv" and "DcIndex dv = 0" and "\<forall>cs c. Devices W cs c = DevOk"
  shows "fst (ResetSystemDiskPartitions_task W (Some ''system:'') paths (Inr dvs) reboot st) = Some (TargetsFailed [MissingPartition]) \<and>
    DcDevPath dv \<in> wiped_devices (DevCalls (snd (ResetSystemDiskPartitions_task W (Some ''system:'') paths (Inr dvs) reboot st)))"
proof -
  let ?t = "VolumeWipeTargetFromDiscoveredVolume dv"
  have parsed: "parseTargets (Inr dvs) ''system:'' = Inr \<lparr>tgSystemDiskTargets = [?t], tgSystemDiskPaths = []\<rparr>"
    using assms(1) by (simp add: parseTargets_def)
  have idx: "WipePartition ?t = 0" using assms(2) by (simp add: VolumeWipeTargetFromDiscoveredVolume_def)
  have ok: "dcall (Devices W) c s = (Inr (), s @ [(c, DevOk)])" for c s
    using assms(3) by (simp add: dcall_def dbind_def dask_def dret_def)
  have wiped: "WipeWithSignatures (Devices W) d s = (Inr (), s @ [(ProbeDev d, DevOk), (FastWipe d, DevOk)])" for d s
    using assms(3) by (simp add: WipeWithSignatures_def dbind_def dseq_def dask_def dret_def ok)
  obtain s where w: "Wipe (Devices W) ?t (DevCalls st) = (Inl MissingPartition, s)" "(FastWipe (DcDevPath dv), DevOk) \<in> set s"
    unfolding Wipe_def wipeWithParentLocked_def
    by (simp add: dseq_def dbind_def ok wiped deferred_def idx dfail_def)
      (simp add: dask_def VolumeWipeTargetFromDiscoveredVolume_def)
  have spec: "ResetSystemDiskSpec_task W (TargetsData \<lparr>tgSystemDiskTargets = [?t], tgSystemDiskPaths = []\<rparr>) st =
      (Some (TargetsFailed [MissingPartition]), st\<lparr>DevCalls := s\<rparr>)"
    by (simp add: ResetSystemDiskSpec_task_def w(1))
  have "ResetSystemDiskPartitions_task W (Some ''system:'') paths (Inr dvs) reboot st =
      (Some (TargetsFailed [MissingPartition]), st\<lparr>DevCalls := s\<rparr>)"
    unfolding ResetSystemDiskPartitions_task_def using parsed spec by (simp add: SafeDeref_def)
  with w(2) show ?thesis by (simp add: wiped_devices_def)
qed

section \<open>Witnesses\<close>

definition demo_storage :: storage_resources where
  "demo_storage =
     \<lparr>get_device = (\<lambda>d. if d = ''sda5'' then Inr \<lparr>BdID = ''sda5'', BdType = ''partition'', BdParent = ''sda'', BdPartitionNumber = 5, BdSecondaries = []\<rparr>
          else Inl StoreNotFound),
      get_disk = (\<lambda>d. if d = ''sda'' then Inr \<lparr>DskID = ''sda'', DskDevPath = ''/dev/sda'', DskReadonly = False, DskCDROM = False, DskSecondaryDisks = []\<rparr>
          else Inl StoreNotFound),
      all_disks = Inr [], all_devices = Inr [],
      all_volumes = Inr [zero_VolumeStatusSpec\<lparr>Location := ''/dev/sda4'', ParentLocation := ''/dev/sda''\<rparr>]\<rparr>"

definition demo_wipe_request :: wipe_request where
  "demo_wipe_request = \<lparr>WrDevice = ''sda5'', WrMethod = WipeFast, WrSkipVolumeCheck = False, WrSkipSecondaryCheck = False, WrDropPartition = True\<rparr>"

theorem block_wipe_guarded_witness:
  "free_device demo_storage demo_wipe_request \<and>
   (\<exists>cs. BlockDeviceWipe demo_storage demo_storage (\<lambda>cs c. DevOk) [demo_wipe_request] [] = (None, cs) \<and> (FastWipe ''/dev/sda5'', DevOk) \<in> set cs)"
proof -
  let ?cs = "snd (BlockDeviceWipe demo_storage demo_storage (\<lambda>cs c. DevOk) [demo_wipe_request] [])"
  have run: "BlockDeviceWipe demo_storage demo_storage (\<lambda>cs c. DevOk) [demo_wipe_request] [] = (None, ?cs)" by code_simp
  have "(FastWipe ''/dev/sda5'', DevOk) \<in> set ?cs" by code_simp
  with block_wipe_guarded [OF run] run show ?thesis by auto
qed

theorem maintenance_reset_wipes_system_witness:
  "''/dev/sda'' \<in> wiped_devices (snd (maintenance_Reset demo_resources (\<lambda>cs c. DevOk) False True (demo_reset_request WipeUserDisks []) []))"
proof -
  let ?r = "maintenance_Reset demo_resources (\<lambda>cs c. DevOk) False True (demo_reset_request WipeUserDisks []) []"
  have "fst ?r = Inr SequenceReboot" by code_simp
  then have "?r = (Inr SequenceReboot, snd ?r)" by (metis prod.collapse)
  from maintenance_reset_wipes_system [OF this] show ?thesis by (simp add: demo_resources_def)
qed

theorem empty_label_wipes_disk_witness:
  "''/dev/sda'' \<in> wiped_devices (DevCalls (snd (ResetSystemDiskPartitions_task demo_wipe_env (Some ''system:'') (Inr [])
     (Inr [\<lparr>DcDevPath = ''/dev/sda'', DcParentDevPath = '''', DcLabel = '''', DcIndex = 0\<rparr>]) None demo_wipe_state)))"
  using empty_label_wipes_disk [of "[\<lparr>DcDevPath = ''/dev/sda'', DcParentDevPath = '''', DcLabel = '''', DcIndex = 0\<rparr>]"
      "\<lparr>DcDevPath = ''/dev/sda'', DcParentDevPath = '''', DcLabel = '''', DcIndex = 0\<rparr>" demo_wipe_env "Inr []" None demo_wipe_state]
  by (simp add: demo_wipe_env_def)

end
