(* ===== verification/MetaAPI.thy ===== *)
theory MetaAPI
  imports Meta Sequences
begin

text \<open>
  Reading and writing META through the API: MetaWrite and MetaDelete of machined
  (internal/app/machined/internal/server/v1alpha1/v1alpha1_meta.go) and of the maintenance service
  (internal/app/maintenance/server.go), on the store of the theory Meta. The key of a request is a uint32.
\<close>

section \<open>The handlers\<close>

datatype meta_api_error =
    MethodNotSupported
  | AdminRoleMissing
  | KeyNotUint8
  | MetaStoreFailed store_error
  | MetaOverflow
  | MetaKeyNotFound
  | MetaNotSaved meta_error

text \<open>errors.Is with fs.ErrNotExist: the volume is missing, or the open found no file.\<close>

definition is_not_exist :: "meta_error \<Rightarrow> bool" where
  "is_not_exist e \<longleftrightarrow> e = NotExist \<or> e = OpenFailed"

text \<open>What both services do after their own checks.\<close>

definition save_meta ::
    "(bytes \<Rightarrow> bytes) \<Rightarrow> (tag_map \<Rightarrow> tag_map) \<Rightarrow> 'r cosi \<Rightarrow> kernel \<Rightarrow> machine_state \<Rightarrow> 'r meta_world \<Rightarrow>
       meta_api_error option \<times> machine_state \<times> 'r meta_world" where
  "save_meta sha ord c k s w =
     (case state_Flush sha ord c k s w of
        (Some e, w) \<Rightarrow> (if is_not_exist e then None else Some (MetaNotSaved e), s, w)
      | (None, w) \<Rightarrow> (None, s, w))"

definition meta_write ::
    "(bytes \<Rightarrow> bytes) \<Rightarrow> (tag_map \<Rightarrow> tag_map) \<Rightarrow> 'r cosi \<Rightarrow> kernel \<Rightarrow> u32 \<Rightarrow> bytes \<Rightarrow> machine_state \<Rightarrow> 'r meta_world \<Rightarrow>
       meta_api_error option \<times> machine_state \<times> 'r meta_world" where
  "meta_write sha ord c k key val s w =
     (if ucast (ucast key :: u8) \<noteq> key then (Some KeyNotUint8, s, w)
      else
        (case state_SetTag c s (ucast key) val (Res w) of
           ((ok, Some e), s, r) \<Rightarrow> (Some (MetaStoreFailed e), s, w\<lparr>Res := r\<rparr>)
         | ((ok, None), s, r) \<Rightarrow>
             if \<not> ok then (Some MetaOverflow, s, w\<lparr>Res := r\<rparr>)
             else save_meta sha ord c k s (w\<lparr>Res := r\<rparr>)))"

definition meta_delete ::
    "(bytes \<Rightarrow> bytes) \<Rightarrow> (tag_map \<Rightarrow> tag_map) \<Rightarrow> 'r cosi \<Rightarrow> kernel \<Rightarrow> u32 \<Rightarrow> machine_state \<Rightarrow> 'r meta_world \<Rightarrow>
       (meta_api_error option \<times> machine_state \<times> 'r meta_world) outcome" where
  "meta_delete sha ord c k key s w =
     (if ucast (ucast key :: u8) \<noteq> key then Ret (Some KeyNotUint8, s, w)
      else bind_outcome (state_DeleteTag c s (ucast key) (Res w)) (\<lambda>((ok, err), s, r).
        (case err of
           Some e \<Rightarrow> Ret (Some (MetaStoreFailed e), s, w\<lparr>Res := r\<rparr>)
         | None \<Rightarrow>
             if \<not> ok then Ret (Some MetaKeyNotFound, s, w\<lparr>Res := r\<rparr>)
             else Ret (save_meta sha ord c k s (w\<lparr>Res := r\<rparr>)))))"

definition Server_MetaWrite ::
    "(bytes \<Rightarrow> bytes) \<Rightarrow> (tag_map \<Rightarrow> tag_map) \<Rightarrow> 'r cosi \<Rightarrow> kernel \<Rightarrow> Mode \<Rightarrow> u32 \<Rightarrow> bytes \<Rightarrow> machine_state \<Rightarrow> 'r meta_world \<Rightarrow>
       (meta_api_error option \<times> machine_state \<times> 'r meta_world) outcome" where
  "Server_MetaWrite sha ord c k mode key val s w =
     bind_outcome (Supports mode CapMetaKV) (\<lambda>ok.
       if \<not> ok then Ret (Some MethodNotSupported, s, w) else Ret (meta_write sha ord c k key val s w))"

definition Server_MetaDelete ::
    "(bytes \<Rightarrow> bytes) \<Rightarrow> (tag_map \<Rightarrow> tag_map) \<Rightarrow> 'r cosi \<Rightarrow> kernel \<Rightarrow> Mode \<Rightarrow> u32 \<Rightarrow> machine_state \<Rightarrow> 'r meta_world \<Rightarrow>
       (meta_api_error option \<times> machine_state \<times> 'r meta_world) outcome" where
  "Server_MetaDelete sha ord c k mode key s w =
     bind_outcome (Supports mode CapMetaKV) (\<lambda>ok.
       if \<not> ok then Ret (Some MethodNotSupported, s, w) else meta_delete sha ord c k key s w)"

definition maintenance_MetaWrite ::
    "(bytes \<Rightarrow> bytes) \<Rightarrow> (tag_map \<Rightarrow> tag_map) \<Rightarrow> 'r cosi \<Rightarrow> kernel \<Rightarrow> bool \<Rightarrow> u32 \<Rightarrow> bytes \<Rightarrow> machine_state \<Rightarrow> 'r meta_world \<Rightarrow>
       meta_api_error option \<times> machine_state \<times> 'r meta_world" where
  "maintenance_MetaWrite sha ord c k admin key val s w =
     (if \<not> admin then (Some AdminRoleMissing, s, w) else meta_write sha ord c k key val s w)"

definition maintenance_MetaDelete ::
    "(bytes \<Rightarrow> bytes) \<Rightarrow> (tag_map \<Rightarrow> tag_map) \<Rightarrow> 'r cosi \<Rightarrow> kernel \<Rightarrow> bool \<Rightarrow> u32 \<Rightarrow> machine_state \<Rightarrow> 'r meta_world \<Rightarrow>
       (meta_api_error option \<times> machine_state \<times> 'r meta_world) outcome" where
  "maintenance_MetaDelete sha ord c k admin key s w =
     (if \<not> admin then Ret (Some AdminRoleMissing, s, w) else meta_delete sha ord c k key s w)"

section \<open>What a write leaves\<close>

text \<open>A load after a flush, from what the block decodes to.\<close>

lemma flush_then_new:
  assumes sha: "\<forall>b. length (sha b) = 32" and fair: "fair_order ord" and legacy: "length (Legacy m) = 1024"
    and fixed: "FixedPath m = path" "path \<noteq> ''''" "flock k path" "Files w path = Some dat" and size: "2 * Length + 1024 \<le> length dat"
    and fl: "Flush sha ord c k m w = (None, w1)"
    and dec: "\<And>b data. Marshal sha (ord (Tags (AdvState m))) = Inr b \<Longrightarrow> take Length data = b \<Longrightarrow>
      NewADV sha (Some data) = Ret (Some \<lparr>Tags = ts\<rparr>, None)"
  obtains err m' w2 where "New sha ord c k st path w1 = Ret (err, m', w2)" "AdvState m' = \<lparr>Tags = ts\<rparr>" "Legacy m' = Legacy m"
proof -
  from fl obtain path' data' w0 b where op: "open_meta c k m w = (Inr (path', data'), w0)"
    and b: "Marshal sha (ord (Tags (AdvState m))) = Inr b"
    and w1: "2 * length b \<le> length data' \<longrightarrow> w1 = w0\<lparr>Files := (Files w0)(path' \<mapsto> flushed b (Legacy m) data')\<rparr>"
    by (rule Flush_ok)
  have eqs: "path' = path" "data' = dat" "w0 = w" using op open_fixed [of m k w dat c] fixed by auto
  have len: "length b = Length" using Marshal_length [OF b] sha by simp
  let ?d = "flushed b (Legacy m) dat"
  note parts = flushed_parts [of b "Legacy m" dat]
  have d: "take Length ?d = b" "length ?d = length dat" "drop (length dat - 1024) ?d = Legacy m"
    using parts size legacy len by auto
  have "Files w1 path = Some ?d" using w1 size len eqs by simp
  then obtain err r m' where "New sha ord c k st path w1 = Ret (err, m', w1\<lparr>Res := r\<rparr>)"
    and "AdvState m' = \<lparr>Tags = ts\<rparr>" and "Legacy m' = drop (length ?d - 1024) ?d"
    using dec [OF b d(1)] fixed fair d(2) size by (elim New_fixed [where c = c and st = st, rotated 3]) auto
  then show ?thesis using that d(2,3) by simp
qed

text \<open>A write that succeeds has set the tag and saved the store.\<close>

lemma meta_write_ok:
  assumes "meta_write sha ord c k key val s w = (None, s', w')"
    and "FixedPath (StMeta s) = path" "path \<noteq> ''''" "flock k path" "Files w path = Some dat"
  obtains r where "ucast (ucast key :: u8) = key" "\<not> StContainer s"
    "StMeta s' = (StMeta s)\<lparr>AdvState := \<lparr>Tags = gm_set (Tags (AdvState (StMeta s))) (ucast key) val\<rparr>\<rparr>"
    "Flush sha ord c k (StMeta s') (w\<lparr>Res := r\<rparr>) = (None, w')"
proof -
  let ?m = "StMeta s" and ?t = "ucast key :: u8"
  have key: "ucast ?t = key" using assms(1) by (auto simp: meta_write_def split: if_splits)
  obtain ok err s1 r where set: "state_SetTag c s ?t val (Res w) = ((ok, err), s1, r)" by (metis prod.collapse)
  have ok: "err = None" "ok" and save: "save_meta sha ord c k s1 (w\<lparr>Res := r\<rparr>) = (None, s', w')"
    using assms(1) set key by (auto simp: meta_write_def split: option.splits if_splits)
  have cont: "\<not> StContainer s" using set ok by (auto simp: state_SetTag_def split: if_splits)
  then obtain m1 where m1: "SetTag c ?m ?t val (Res w) = ((True, None), m1, r)" "s1 = s\<lparr>StMeta := m1\<rparr>"
    using set ok by (cases "SetTag c ?m ?t val (Res w)") (auto simp: state_SetTag_def)
  obtain a where a: "SetTagBytes (AdvState ?m) ?t val = (True, a)" "m1 = ?m\<lparr>AdvState := a\<rparr>"
    using m1(1) by (cases "SetTagBytes (AdvState ?m) ?t val") (auto simp: SetTag_def Let_def split: if_splits option.splits prod.splits)
  have tags: "a = \<lparr>Tags = gm_set (Tags (AdvState ?m)) ?t val\<rparr>"
    using SetTagBytes_cases [OF a(1)] by simp
  have s': "s' = s1" using save by (auto simp: save_meta_def split: prod.splits option.splits)
  have op: "open_meta c k m1 (w\<lparr>Res := r\<rparr>) = (Inr (path, dat), w\<lparr>Res := r\<rparr>)"
    using open_fixed [of m1 k "w\<lparr>Res := r\<rparr>" dat c] assms(2-5) a(2) by simp
  obtain e w2 where fl: "Flush sha ord c k m1 (w\<lparr>Res := r\<rparr>) = (e, w2)" by (cases "Flush sha ord c k m1 (w\<lparr>Res := r\<rparr>)")
  have "e \<noteq> Some NotExist" "e \<noteq> Some OpenFailed"
    using fl op by (auto simp: Flush_def Let_def split: sum.splits if_splits prod.splits)
  then have "e = None" "w2 = w'"
    using save fl m1(2) cont by (auto simp: save_meta_def state_Flush_def is_not_exist_def split: option.splits if_splits)
  with that [of r] key cont tags a(2) m1(2) s' fl show ?thesis by simp
qed




section \<open>Witnesses\<close>

definition demo_api_state :: "tag_map \<Rightarrow> machine_state" where
  "demo_api_state m = \<lparr>StMeta = demo_meta m, StContainer = False, StagedInstall = False, StagedInstallImageRef = [], StagedInstallOptions = []\<rparr>"

text \<open>A write into the demonstration store.\<close>

lemma demo_write:
  assumes "ucast (ucast key :: u8) = key" and "SetTagBytes \<lparr>Tags = m\<rparr> (ucast key) val = (True, \<lparr>Tags = m'\<rparr>)" and "body_size m' \<le> DataLength"
  shows "\<exists>w'. meta_write demo_sha (\<lambda>m. m) demo_cosi demo_kernel key val (demo_api_state m) (demo_disk blank) = (None, demo_api_state m', w')"
proof -
  have op: "open_meta demo_cosi demo_kernel (demo_meta m') (demo_disk blank) = (Inr (''m'', blank), demo_disk blank)"
    by (rule demo_open) (rule demo_facts)
  obtain w1 where fl: "Flush demo_sha (\<lambda>m. m) demo_cosi demo_kernel (demo_meta m') (demo_disk blank) = (None, w1)"
    using demo_flush [OF op] demo_facts(5) assms(3) by (auto simp: demo_meta_def)
  have res: "(demo_disk blank)\<lparr>Res := []\<rparr> = demo_disk blank" "Res (demo_disk blank) = []" by (simp_all add: demo_disk_def)
  have "SetTag demo_cosi (demo_meta m) (ucast key) val [] = ((True, None), demo_meta m', [])"
    using assms(2) by (simp add: SetTag_def demo_meta_def updateTagResource_def)
  then show ?thesis
    using assms(1) fl by (simp add: meta_write_def state_SetTag_def demo_api_state_def save_meta_def state_Flush_def res)
qed



end
