(* ===== verification/ConfigApply.thy ===== *)
theory ConfigApply
  imports Acquire
begin

text \<open>
  Applying a machine configuration through the API: ApplyConfiguration of
  internal/app/machined/internal/server/v1alpha1/v1alpha1_server.go, on the functions of Runtime that hold
  the configuration and the timer that rolls it back (M/runtime/v1alpha1/v1alpha1_runtime.go), over GetConfig
  and SetConfig of M/runtime/v1alpha2/v1alpha2_state.go. A handler runs as one step; the timer may fire, and
  the function it starts may run, between any two of them.
\<close>

section \<open>The v1alpha1 configuration\<close>

text \<open>The fields of Config, MachineConfig and FeaturesConfig (pkg/machinery/config/types/v1alpha1); what is in a
  field is opaque, and compared as reflect.DeepEqual does.\<close>

record 'x FeaturesConfig =
  RBAC :: 'x
  StableHostname :: 'x
  ApidCheckExtKeyUsage :: 'x
  DiskQuotaSupport :: 'x
  HostDNSSupport :: 'x
  ImageCacheSupport :: 'x
  FeatureNodeAddressSortAlgorithm :: 'x

record 'x MachineConfig =
  MachineTypeField :: 'x
  MachineToken :: 'x
  MachineCA :: 'x
  MachineAcceptedCAs :: 'x
  MachineCertSANs :: 'x
  MachineNetwork :: 'x
  MachineDisks :: 'x
  MachineInstall :: 'x
  MachineFiles :: 'x
  MachineEnv :: 'x
  MachineTime :: 'x
  MachineSysctls :: 'x
  MachineSysfs :: 'x
  MachineRegistries :: 'x
  MachineSystemDiskEncryption :: 'x
  MachineFeatures :: "'x FeaturesConfig option"
  MachineUdev :: 'x
  MachineLogging :: 'x
  MachineKernel :: 'x
  MachineSeccompProfiles :: 'x
  MachineBaseRuntimeSpecOverrides :: 'x

record 'x Config =
  ConfigVersion :: 'x
  ConfigDebug :: 'x
  ConfigPersist :: 'x
  MachineConfigOf :: "'x MachineConfig option"
  ClusterConfig :: 'x

type_synonym ('x, 'd) provider = "('x Config, 'd) container"

section \<open>The state\<close>

text \<open>The resources MachineConfig with the ids ActiveID and PersistentID, and the calls made on the store.\<close>

datatype ('x, 'd) store_op = GetActive | SetActive "('x, 'd) provider" | SetPersistent "('x, 'd) provider"

text \<open>\<open>RollbackTimer\<close> is the configuration of the armed timer, \<open>Fired\<close> those of the functions that timers have
  started and that have not run yet. \<open>Reboots\<close> counts the sequences Reboot that were started.\<close>

record ('x, 'd) apply_state =
  ActiveConfig :: "('x, 'd) provider option"
  PersistentConfig :: "('x, 'd) provider option"
  RollbackTimer :: "('x, 'd) provider option"
  Fired :: "('x, 'd) provider list"
  Reboots :: nat
  StoreCalls :: "('x, 'd) store_op list"

datatype apply_mode = ApplyReboot | ApplyAuto | ApplyNoReboot | ApplyStaged | ApplyTry | ApplyOther

datatype immediate_error = NoCurrentConfig | CurrentNotV1Alpha1 | NewNotV1Alpha1 | NeedsReboot

datatype 'e apply_error =
    InvalidArgument "'e load_error"
  | NoV1Alpha1Config
  | NotImmediate immediate_error
  | DiffFailed
  | ConfigStoreError
  | IncorrectMode
  | HandlerPanic

record ('x, 'd) apply_request =
  ReqData :: bytes
  ReqMode :: apply_mode
  DryRun :: bool

record apply_response =
  RespMode :: apply_mode
  RespWarnings :: "string list"
  RespDetails :: string

text \<open>The environment: the documents and their decoder, the mode that is validated against, whether a call
  on the store succeeds, and whether the diff of a dry run can be computed.\<close>

record ('x, 'd, 'm, 'e) apply_env =
  ConfigMethods :: "('x Config, 'd, 'm, 'e) doc_methods"
  DecodeConfig :: "bytes \<Rightarrow> 'e + ('x Config, 'd) document list"
  ValidationMode :: 'm
  StoreOk :: "('x, 'd) store_op list \<Rightarrow> ('x, 'd) store_op \<Rightarrow> bool"
  DiffOk :: "('x, 'd) provider option \<Rightarrow> ('x, 'd) provider \<Rightarrow> bool"

type_synonym ('x, 'd, 'e, 'a) config_handler = "('x, 'd) apply_state \<Rightarrow> ('e apply_error + 'a) \<times> ('x, 'd) apply_state"

definition aret :: "'a \<Rightarrow> ('x, 'd, 'e, 'a) config_handler" where
  "aret x s = (Inr x, s)"

definition afail :: "'e apply_error \<Rightarrow> ('x, 'd, 'e, 'a) config_handler" where
  "afail e s = (Inl e, s)"

definition abind :: "('x, 'd, 'e, 'a) config_handler \<Rightarrow> ('a \<Rightarrow> ('x, 'd, 'e, 'b) config_handler) \<Rightarrow> ('x, 'd, 'e, 'b) config_handler" where
  "abind m f s = (case m s of (Inl e, s') \<Rightarrow> (Inl e, s') | (Inr x, s') \<Rightarrow> f x s')"

definition aseq :: "('x, 'd, 'e, 'a) config_handler \<Rightarrow> ('x, 'd, 'e, 'b) config_handler \<Rightarrow> ('x, 'd, 'e, 'b) config_handler" where
  "aseq m k = abind m (\<lambda>_. k)"

section \<open>Runtime\<close>

text \<open>GetConfig: a missing resource is no configuration; configProvider panics on any other error.\<close>

definition configProvider :: "('x, 'd, 'm, 'e) apply_env \<Rightarrow> ('x, 'd, 'e, ('x, 'd) provider option) config_handler" where
  "configProvider env s =
     (let s' = s\<lparr>StoreCalls := StoreCalls s @ [GetActive]\<rparr>
      in if StoreOk env (StoreCalls s) GetActive then (Inr (ActiveConfig s), s') else (Inl HandlerPanic, s'))"

text \<open>SetConfig of the state, for either id: the resource is created or updated, or nothing changes.\<close>

definition Runtime_SetConfig :: "('x, 'd, 'm, 'e) apply_env \<Rightarrow> ('x, 'd) provider \<Rightarrow> ('x, 'd, 'e, unit) config_handler" where
  "Runtime_SetConfig env cfg s =
     (let s' = s\<lparr>StoreCalls := StoreCalls s @ [SetActive cfg]\<rparr>
      in if StoreOk env (StoreCalls s) (SetActive cfg) then (Inr (), s'\<lparr>ActiveConfig := Some cfg\<rparr>) else (Inl ConfigStoreError, s'))"

definition Runtime_SetPersistedConfig :: "('x, 'd, 'm, 'e) apply_env \<Rightarrow> ('x, 'd) provider \<Rightarrow> ('x, 'd, 'e, unit) config_handler" where
  "Runtime_SetPersistedConfig env cfg s =
     (let s' = s\<lparr>StoreCalls := StoreCalls s @ [SetPersistent cfg]\<rparr>
      in if StoreOk env (StoreCalls s) (SetPersistent cfg) then (Inr (), s'\<lparr>PersistentConfig := Some cfg\<rparr>) else (Inl ConfigStoreError, s'))"

text \<open>Stop keeps a timer from firing; a function that has been started runs all the same.\<close>

definition CancelConfigRollbackTimeout :: "('x, 'd, 'e, unit) config_handler" where
  "CancelConfigRollbackTimeout s = (Inr (), s\<lparr>RollbackTimer := None\<rparr>)"

text \<open>The timer is armed with the configuration that is active now. There is one whenever the handler comes
  here, because CanApplyImmediate has found it.\<close>

definition RollbackToConfigAfter :: "('x, 'd, 'm, 'e) apply_env \<Rightarrow> ('x, 'd, 'e, unit) config_handler" where
  "RollbackToConfigAfter env =
     abind (configProvider env) (\<lambda>cfgProvider.
     aseq CancelConfigRollbackTimeout
     (\<lambda>s. (Inr (), s\<lparr>RollbackTimer := cfgProvider\<rparr>)))"

text \<open>The copy of the new configuration with the fields that may change at once taken from the current one.\<close>

definition keep_features :: "'x FeaturesConfig \<Rightarrow> 'x FeaturesConfig \<Rightarrow> 'x FeaturesConfig" where
  "keep_features cur new =
     new\<lparr>HostDNSSupport := HostDNSSupport cur, ImageCacheSupport := ImageCacheSupport cur,
         FeatureNodeAddressSortAlgorithm := FeatureNodeAddressSortAlgorithm cur\<rparr>"

definition keep_machine :: "'x MachineConfig \<Rightarrow> 'x MachineConfig \<Rightarrow> 'x MachineConfig" where
  "keep_machine cur new =
     new\<lparr>MachineCA := MachineCA cur, MachineAcceptedCAs := MachineAcceptedCAs cur, MachineTime := MachineTime cur,
         MachineCertSANs := MachineCertSANs cur, MachineInstall := MachineInstall cur, MachineNetwork := MachineNetwork cur,
         MachineSysfs := MachineSysfs cur, MachineSysctls := MachineSysctls cur, MachineLogging := MachineLogging cur,
         MachineKernel := MachineKernel cur, MachineRegistries := MachineRegistries cur,
         MachineSeccompProfiles := MachineSeccompProfiles cur,
         MachineFeatures := (case (MachineFeatures new, MachineFeatures cur) of
             (Some n, Some c) \<Rightarrow> Some (keep_features c n)
           | _ \<Rightarrow> MachineFeatures new)\<rparr>"

definition keep_immediate :: "'x Config \<Rightarrow> 'x Config \<Rightarrow> 'x Config" where
  "keep_immediate cur new =
     new\<lparr>ConfigDebug := ConfigDebug cur, ClusterConfig := ClusterConfig cur,
         MachineConfigOf := (case (MachineConfigOf new, MachineConfigOf cur) of
             (Some n, Some c) \<Rightarrow> Some (keep_machine c n)
           | _ \<Rightarrow> MachineConfigOf new)\<rparr>"

text \<open>An error of the diff is an error as well, so it makes no difference.\<close>

definition immediate_check :: "('x, 'd) provider option \<Rightarrow> ('x, 'd) provider \<Rightarrow> immediate_error option" where
  "immediate_check cfgProv cfg =
     (case cfgProv of
        None \<Rightarrow> Some NoCurrentConfig
      | Some c \<Rightarrow>
          (case RawV1Alpha1 c of
             None \<Rightarrow> Some CurrentNotV1Alpha1
           | Some currentV1 \<Rightarrow>
               (case RawV1Alpha1 cfg of
                  None \<Rightarrow> Some NewNotV1Alpha1
                | Some newV1 \<Rightarrow> if currentV1 \<noteq> keep_immediate currentV1 newV1 then Some NeedsReboot else None)))"

definition CanApplyImmediate :: "('x, 'd, 'm, 'e) apply_env \<Rightarrow> ('x, 'd) provider \<Rightarrow> ('x, 'd, 'e, immediate_error option) config_handler" where
  "CanApplyImmediate env cfg = abind (configProvider env) (\<lambda>c. aret (immediate_check c cfg))"

section \<open>ApplyConfiguration\<close>

definition load_request ::
    "('x, 'd, 'm, 'e) apply_env \<Rightarrow> bytes \<Rightarrow> 'e apply_error + ('x, 'd) provider \<times> string list" where
  "load_request env data =
     (case newConfig (ConfigMethods env) (DecodeConfig env) data of
        Inl e \<Rightarrow> Inl (InvalidArgument e)
      | Inr cfg \<Rightarrow>
          if RawV1Alpha1 cfg = None then Inl NoV1Alpha1Config
          else
            (let (warnings, errs) = Validate (ConfigMethods env) (ValidationMode env) cfg;
                 (more, errs') = RuntimeValidate (ConfigMethods env) (ValidationMode env) cfg
             in if errs \<noteq> [] then Inl (InvalidArgument (InvalidConfig errs))
                else if errs' \<noteq> [] then Inl (InvalidArgument (InvalidConfig errs'))
                else Inr (cfg, warnings @ more)))"

text \<open>The mode that is carried out, with its description.\<close>

definition with_reboot :: string where
  "with_reboot = ''Applied configuration with a reboot''"

definition without_reboot :: string where
  "without_reboot = ''Applied configuration without a reboot''"

definition resolve_mode ::
    "('x, 'd, 'm, 'e) apply_env \<Rightarrow> ('x, 'd) provider \<Rightarrow> apply_mode \<Rightarrow> ('x, 'd, 'e, apply_mode \<times> string) config_handler" where
  "resolve_mode env cfg mode =
     (case mode of
        ApplyStaged \<Rightarrow> aret (mode, ''Staged configuration to be applied after the next reboot'')
      | ApplyReboot \<Rightarrow> aret (mode, with_reboot)
      | ApplyOther \<Rightarrow> aret (mode, with_reboot)
      | ApplyAuto \<Rightarrow> abind (CanApplyImmediate env cfg) (\<lambda>r.
          aret (if r \<noteq> None then (ApplyReboot, with_reboot) else (ApplyNoReboot, without_reboot)))
      | _ \<Rightarrow> abind (CanApplyImmediate env cfg) (\<lambda>r.
          case r of Some e \<Rightarrow> afail (NotImmediate e) | None \<Rightarrow> aret (mode, without_reboot)))"

definition start_reboot :: "('x, 'd, 'e, unit) config_handler" where
  "start_reboot s = (Inr (), s\<lparr>Reboots := Reboots s + 1\<rparr>)"

definition carry_out :: "('x, 'd, 'm, 'e) apply_env \<Rightarrow> ('x, 'd) provider \<Rightarrow> apply_mode \<Rightarrow> ('x, 'd, 'e, unit) config_handler" where
  "carry_out env cfg mode =
     (case mode of
        ApplyTry \<Rightarrow> aseq (RollbackToConfigAfter env) (Runtime_SetConfig env cfg)
      | ApplyNoReboot \<Rightarrow> aseq (Runtime_SetPersistedConfig env cfg) (Runtime_SetConfig env cfg)
      | ApplyStaged \<Rightarrow> Runtime_SetPersistedConfig env cfg
      | ApplyReboot \<Rightarrow> aseq (Runtime_SetPersistedConfig env cfg) start_reboot
      | _ \<Rightarrow> afail IncorrectMode)"

definition ApplyConfiguration ::
    "('x, 'd, 'm, 'e) apply_env \<Rightarrow> ('x, 'd) apply_request \<Rightarrow> ('x, 'd, 'e, apply_response) config_handler" where
  "ApplyConfiguration env req =
     aseq (if ReqMode req \<noteq> ApplyTry then CancelConfigRollbackTimeout else aret ())
     (case load_request env (ReqData req) of
        Inl e \<Rightarrow> afail e
      | Inr (cfg, warnings) \<Rightarrow>
          abind (resolve_mode env cfg (ReqMode req)) (\<lambda>(mode, details).
            if DryRun req then
              abind (configProvider env) (\<lambda>current.
                if DiffOk env current cfg then aret \<lparr>RespMode = mode, RespWarnings = [], RespDetails = ''Dry run summary'' @ details\<rparr>
                else afail DiffFailed)
            else
              aseq (carry_out env cfg mode)
              (aret \<lparr>RespMode = mode, RespWarnings = warnings, RespDetails = details\<rparr>)))"

section \<open>Runs\<close>

text \<open>What happens on a machine: a request, the timer fires, a started function runs (its error is only
  logged).\<close>

datatype ('x, 'd) config_event = Request "('x, 'd) apply_request" | TimerFires | RollbackRuns nat

fun apply_event :: "('x, 'd, 'm, 'e) apply_env \<Rightarrow> ('x, 'd) config_event \<Rightarrow> ('x, 'd) apply_state \<Rightarrow> ('x, 'd) apply_state" where
  "apply_event env (Request req) s = snd (ApplyConfiguration env req s)"
| "apply_event env TimerFires s =
     (case RollbackTimer s of
        None \<Rightarrow> s
      | Some cfg \<Rightarrow> s\<lparr>RollbackTimer := None, Fired := Fired s @ [cfg]\<rparr>)"
| "apply_event env (RollbackRuns i) s =
     (if i < length (Fired s)
      then snd (Runtime_SetConfig env (Fired s ! i) (s\<lparr>Fired := take i (Fired s) @ drop (Suc i) (Fired s)\<rparr>))
      else s)"

definition apply_run :: "('x, 'd, 'm, 'e) apply_env \<Rightarrow> ('x, 'd) config_event list \<Rightarrow> ('x, 'd) apply_state \<Rightarrow> ('x, 'd) apply_state" where
  "apply_run env es s = foldl (\<lambda>s e. apply_event env e s) s es"


section \<open>Which changes are immediate\<close>

text \<open>Two configurations that differ only in what the comment of CanApplyImmediate allows.\<close>

definition same_features :: "'x FeaturesConfig \<Rightarrow> 'x FeaturesConfig \<Rightarrow> bool" where
  "same_features a b \<longleftrightarrow> RBAC a = RBAC b \<and> StableHostname a = StableHostname b \<and>
     ApidCheckExtKeyUsage a = ApidCheckExtKeyUsage b \<and> DiskQuotaSupport a = DiskQuotaSupport b"

definition same_machine :: "'x MachineConfig \<Rightarrow> 'x MachineConfig \<Rightarrow> bool" where
  "same_machine a b \<longleftrightarrow>
     MachineTypeField a = MachineTypeField b \<and> MachineToken a = MachineToken b \<and> MachineDisks a = MachineDisks b \<and>
     MachineFiles a = MachineFiles b \<and> MachineEnv a = MachineEnv b \<and>
     MachineSystemDiskEncryption a = MachineSystemDiskEncryption b \<and> MachineUdev a = MachineUdev b \<and>
     MachineBaseRuntimeSpecOverrides a = MachineBaseRuntimeSpecOverrides b \<and>
     rel_option same_features (MachineFeatures a) (MachineFeatures b)"

definition same_but_immediate :: "'x Config \<Rightarrow> 'x Config \<Rightarrow> bool" where
  "same_but_immediate a b \<longleftrightarrow>
     ConfigVersion a = ConfigVersion b \<and> ConfigPersist a = ConfigPersist b \<and>
     rel_option same_machine (MachineConfigOf a) (MachineConfigOf b)"

lemma keep_features_iff: "keep_features c n = c \<longleftrightarrow> same_features c n"
  by (cases c; cases n) (auto simp: keep_features_def same_features_def)

lemma keep_machine_iff: "keep_machine c n = c \<longleftrightarrow> same_machine c n"
proof -
  have "(case (MachineFeatures n, MachineFeatures c) of (Some n, Some c) \<Rightarrow> Some (keep_features c n) | _ \<Rightarrow> MachineFeatures n) =
      MachineFeatures c \<longleftrightarrow> rel_option same_features (MachineFeatures c) (MachineFeatures n)"
    by (cases "MachineFeatures n"; cases "MachineFeatures c") (simp_all add: keep_features_iff)
  then show ?thesis
    by (cases c; cases n) (auto simp: keep_machine_def same_machine_def)
qed

lemma keep_immediate_iff: "keep_immediate c n = c \<longleftrightarrow> same_but_immediate c n"
proof -
  have "(case (MachineConfigOf n, MachineConfigOf c) of (Some n, Some c) \<Rightarrow> Some (keep_machine c n) | _ \<Rightarrow> MachineConfigOf n) =
      MachineConfigOf c \<longleftrightarrow> rel_option same_machine (MachineConfigOf c) (MachineConfigOf n)"
    by (cases "MachineConfigOf n"; cases "MachineConfigOf c") (simp_all add: keep_machine_iff)
  then show ?thesis
    by (cases c; cases n) (auto simp: keep_immediate_def same_but_immediate_def)
qed

text \<open>C39: A change can be applied without a reboot exactly when both configurations have a v1alpha1 document and
  these agree in everything but the fields that may change at once; the other documents are not looked at.\<close>

theorem immediate_changes:
  "immediate_check cur new = None \<longleftrightarrow>
     (\<exists>c cv nv. cur = Some c \<and> RawV1Alpha1 c = Some cv \<and> RawV1Alpha1 new = Some nv \<and> same_but_immediate cv nv)"
  by (auto simp: immediate_check_def eq_commute [of _ "keep_immediate _ _"] keep_immediate_iff split: option.splits)

section \<open>What a request does to the state\<close>

definition usable :: "('x, 'd, 'm, 'e) apply_env \<Rightarrow> ('x, 'd) apply_request \<Rightarrow> ('x, 'd) provider \<Rightarrow> bool" where
  "usable env req cfg \<longleftrightarrow> (\<exists>ws. load_request env (ReqData req) = Inr (cfg, ws)) \<and> \<not> DryRun req"

text \<open>The steps a handler may make: it drops or arms the timer, sets one configuration or the other, and
  starts a reboot. The calls of the store are left out.\<close>

definition timer_dropped :: "('x, 'd) apply_request \<Rightarrow> ('x, 'd) apply_state \<Rightarrow> ('x, 'd) provider option" where
  "timer_dropped req s = (if ReqMode req = ApplyTry then RollbackTimer s else None)"

text \<open>A step that only calls the store.\<close>

definition only_calls :: "('x, 'd) apply_state \<Rightarrow> ('x, 'd) apply_state \<Rightarrow> bool" where
  "only_calls s s' \<longleftrightarrow> ActiveConfig s' = ActiveConfig s \<and> PersistentConfig s' = PersistentConfig s \<and>
     RollbackTimer s' = RollbackTimer s \<and> Fired s' = Fired s \<and> Reboots s' = Reboots s"

lemma only_calls_refl: "only_calls s s"
  by (simp add: only_calls_def)

lemma provider_frame:
  assumes "configProvider env s = (r, s')"
  shows "only_calls s s'" "\<And>c. r = Inr c \<Longrightarrow> c = ActiveConfig s"
  using assms by (auto simp: configProvider_def only_calls_def Let_def split: if_splits)

lemma immediate_frame:
  assumes "CanApplyImmediate env cfg s = (r, s')"
  shows "only_calls s s'" "\<And>q. r = Inr q \<Longrightarrow> q = immediate_check (ActiveConfig s) cfg"
  using assms provider_frame [of env s]
  by (cases "configProvider env s"; auto simp: CanApplyImmediate_def abind_def aret_def split: sum.splits)+

lemma resolve_frame:
  assumes "resolve_mode env cfg mode s = (r, s')"
  shows "only_calls s s'"
proof -
  obtain q s1 where q: "CanApplyImmediate env cfg s = (q, s1)" by (cases "CanApplyImmediate env cfg s")
  note f = immediate_frame(1) [OF q] only_calls_refl [of s]
  show ?thesis
    using assms q f
    by (cases mode; cases q) (auto simp: resolve_mode_def aret_def afail_def abind_def split: option.splits if_splits)
qed

lemma resolved_mode:
  assumes "resolve_mode env cfg mode s = (Inr (m, d), s')"
  shows "m = mode \<or> mode = ApplyAuto \<and> (m = ApplyReboot \<or> m = ApplyNoReboot)"
    and "m = ApplyTry \<or> m = ApplyNoReboot \<Longrightarrow> immediate_check (ActiveConfig s) cfg = None"
proof -
  obtain q s1 where q: "CanApplyImmediate env cfg s = (q, s1)" by (cases "CanApplyImmediate env cfg s")
  show "m = mode \<or> mode = ApplyAuto \<and> (m = ApplyReboot \<or> m = ApplyNoReboot)"
    using assms q by (cases mode; cases q) (auto simp: resolve_mode_def aret_def afail_def abind_def split: option.splits if_splits)
  show "m = ApplyTry \<or> m = ApplyNoReboot \<Longrightarrow> immediate_check (ActiveConfig s) cfg = None"
    using assms q immediate_frame(2) [OF q] by (cases mode; cases q) (auto simp: resolve_mode_def aret_def afail_def abind_def split: option.splits if_splits)
qed


text \<open>What carrying out a mode does, when it succeeds and when it fails.\<close>

definition untouched :: "('x, 'd) apply_state \<Rightarrow> ('x, 'd) apply_state \<Rightarrow> bool" where
  "untouched s s' \<longleftrightarrow> PersistentConfig s' = PersistentConfig s \<and> ActiveConfig s' = ActiveConfig s \<and> Fired s' = Fired s \<and> Reboots s' = Reboots s"

fun carried_out :: "apply_mode \<Rightarrow> ('x, 'd) provider \<Rightarrow> ('x, 'd) apply_state \<Rightarrow> ('x, 'd) apply_state \<Rightarrow> bool" where
  "carried_out ApplyTry cfg s s' = (ActiveConfig s' = Some cfg \<and> PersistentConfig s' = PersistentConfig s \<and>
     RollbackTimer s' = ActiveConfig s \<and> Reboots s' = Reboots s)"
| "carried_out ApplyNoReboot cfg s s' = (ActiveConfig s' = Some cfg \<and> PersistentConfig s' = Some cfg \<and>
     RollbackTimer s' = RollbackTimer s \<and> Reboots s' = Reboots s)"
| "carried_out ApplyStaged cfg s s' = (ActiveConfig s' = ActiveConfig s \<and> PersistentConfig s' = Some cfg \<and>
     RollbackTimer s' = RollbackTimer s \<and> Reboots s' = Reboots s)"
| "carried_out ApplyReboot cfg s s' = (ActiveConfig s' = ActiveConfig s \<and> PersistentConfig s' = Some cfg \<and>
     RollbackTimer s' = RollbackTimer s \<and> Reboots s' = Reboots s + 1)"
| "carried_out m cfg s s' = False"

lemma carry_out_ok:
  "carry_out env cfg m s = (Inr u, s') \<Longrightarrow> carried_out m cfg s s' \<and> Fired s' = Fired s"
  by (cases m) (auto simp: carry_out_def aseq_def abind_def afail_def RollbackToConfigAfter_def configProvider_def CancelConfigRollbackTimeout_def
      Runtime_SetConfig_def Runtime_SetPersistedConfig_def start_reboot_def Let_def split: if_splits)

lemma carry_out_failed:
  "carry_out env cfg m s = (Inl e, s') \<Longrightarrow> ActiveConfig s' = ActiveConfig s \<and> Fired s' = Fired s \<and> Reboots s' = Reboots s \<and>
     (RollbackTimer s' = RollbackTimer s \<or> m = ApplyTry \<and> RollbackTimer s' = ActiveConfig s) \<and>
     (PersistentConfig s' = PersistentConfig s \<or> m \<noteq> ApplyTry \<and> PersistentConfig s' = Some cfg)"
  by (cases m) (auto simp: carry_out_def aseq_def abind_def afail_def RollbackToConfigAfter_def configProvider_def CancelConfigRollbackTimeout_def
      Runtime_SetConfig_def Runtime_SetPersistedConfig_def start_reboot_def Let_def split: if_splits)

text \<open>The handler after its first step, which drops the timer unless the mode is TRY.\<close>

definition after_cancel :: "('x, 'd) apply_request \<Rightarrow> ('x, 'd) apply_state \<Rightarrow> ('x, 'd) apply_state" where
  "after_cancel req s = (if ReqMode req = ApplyTry then s else s\<lparr>RollbackTimer := None\<rparr>)"

lemma apply_steps:
  assumes "ApplyConfiguration env req s = (r, s')"
  obtains (rejected) e where "r = Inl e" "only_calls (after_cancel req s) s'"
    | (dry) resp where "r = Inr resp" "DryRun req" "only_calls (after_cancel req s) s'"
    | (carried) cfg m s1 q where "usable env req cfg" "m = ReqMode req \<or> ReqMode req = ApplyAuto \<and> (m = ApplyReboot \<or> m = ApplyNoReboot)"
      "m = ApplyTry \<or> m = ApplyNoReboot \<Longrightarrow> immediate_check (ActiveConfig s) cfg = None"
      "only_calls (after_cancel req s) s1" "carry_out env cfg m s1 = (q, s')"
      "case r of Inl e \<Rightarrow> q = Inl e | Inr resp \<Rightarrow> q = Inr () \<and> RespMode resp = m"
proof -
  let ?s = "after_cancel req s"
  have cancel: "ApplyConfiguration env req s =
      (case load_request env (ReqData req) of
        Inl e \<Rightarrow> afail e
      | Inr (cfg, warnings) \<Rightarrow>
          abind (resolve_mode env cfg (ReqMode req)) (\<lambda>(mode, details).
            if DryRun req then
              abind (configProvider env) (\<lambda>current.
                if DiffOk env current cfg then aret \<lparr>RespMode = mode, RespWarnings = [], RespDetails = ''Dry run summary'' @ details\<rparr>
                else afail DiffFailed)
            else
              aseq (carry_out env cfg mode)
              (aret \<lparr>RespMode = mode, RespWarnings = warnings, RespDetails = details\<rparr>))) ?s"
    by (cases "ReqMode req = ApplyTry")
      (simp_all add: ApplyConfiguration_def aseq_def abind_def [of "CancelConfigRollbackTimeout"] abind_def [of "aret ()"]
        CancelConfigRollbackTimeout_def aret_def after_cancel_def)
  show ?thesis
  proof (cases "load_request env (ReqData req)")
    case (Inl e)
    then show ?thesis using assms cancel rejected [of e] only_calls_refl [of ?s] by (auto simp: afail_def)
  next
    case (Inr cw)
    obtain cfg ws where cw: "cw = (cfg, ws)" by (cases cw)
    obtain t s1 where t: "resolve_mode env cfg (ReqMode req) ?s = (t, s1)" by (cases "resolve_mode env cfg (ReqMode req) ?s")
    note frame = resolve_frame [OF t]
    show ?thesis
    proof (cases t)
      case (Inl e)
      then show ?thesis using assms cancel Inr cw t frame rejected [of e] by (auto simp: abind_def)
    next
      case tr: (Inr md)
      obtain m d where md: "md = (m, d)" by (cases md)
      note res = resolved_mode [OF t [unfolded tr md]]
      have act: "ActiveConfig ?s = ActiveConfig s" by (simp add: after_cancel_def)
      show ?thesis
      proof (cases "DryRun req")
        case True
        obtain c s2 where c: "configProvider env s1 = (c, s2)" by (cases "configProvider env s1")
        have "only_calls ?s s2" using frame provider_frame(1) [OF c] by (simp add: only_calls_def)
        then show ?thesis
          using assms cancel Inr cw t tr md c True rejected dry
          by (cases c) (auto simp: abind_def aret_def afail_def split: if_splits)
      next
        case False
        obtain q s2 where q: "carry_out env cfg m s1 = (q, s2)" by (cases "carry_out env cfg m s1")
        have u: "usable env req cfg" using Inr cw False by (auto simp: usable_def)
        have fin: "s2 = s'" "case r of Inl e \<Rightarrow> q = Inl e | Inr resp \<Rightarrow> q = Inr () \<and> RespMode resp = m"
          using assms cancel Inr cw t tr md q False by (cases q; auto simp: abind_def aseq_def aret_def afail_def)+
        show ?thesis
          by (rule carried [OF u res(1) _ frame q [unfolded fin(1)] fin(2)]) (use res(2) act in simp)
      qed
    qed
  qed
qed


section \<open>Properties\<close>

text \<open>What an accepted request has done. A dry run has changed nothing but the timer; any other request was
  usable, and its configuration is active, persisted or both, as the mode says; an immediate mode was
  allowed by the check of the changes, and AUTO stands for REBOOT or NO_REBOOT.\<close>

theorem apply_outcome:
  assumes "ApplyConfiguration env req s = (Inr resp, s')"
  shows "if DryRun req then only_calls (after_cancel req s) s'
    else \<exists>cfg. usable env req cfg \<and> carried_out (RespMode resp) cfg (after_cancel req s) s' \<and> Fired s' = Fired s \<and>
      (RespMode resp = ReqMode req \<or> ReqMode req = ApplyAuto \<and> RespMode resp \<in> {ApplyReboot, ApplyNoReboot}) \<and>
      (RespMode resp \<in> {ApplyTry, ApplyNoReboot} \<longrightarrow> immediate_check (ActiveConfig s) cfg = None)"
  using assms
proof (cases rule: apply_steps)
  case (rejected e)
  then show ?thesis by simp
next
  case (dry resp')
  then show ?thesis by simp
next
  case (carried cfg m s1 q)
  then have q: "q = Inr ()" "RespMode resp = m" by simp_all
  from carry_out_ok [OF carried(5) [unfolded q(1)]] carried(4)
  have "carried_out m cfg (after_cancel req s) s' \<and> Fired s' = Fired s"
    by (cases m) (auto simp: only_calls_def after_cancel_def)
  moreover have "\<not> DryRun req" using carried(1) by (simp add: usable_def)
  ultimately show ?thesis using carried(1-3) q(2) by auto
qed

text \<open>A run is a sequence of events; the configurations it may use.\<close>

lemma apply_run_simps [simp]:
  "apply_run env [] s = s" "apply_run env (e # es) s = apply_run env es (apply_event env e s)"
  "apply_run env (es @ es') s = apply_run env es' (apply_run env es s)"
  by (simp_all add: apply_run_def)

definition requested :: "('x, 'd, 'm, 'e) apply_env \<Rightarrow> apply_mode set \<Rightarrow> ('x, 'd) config_event list \<Rightarrow> ('x, 'd) provider set" where
  "requested env modes es = {cfg. \<exists>req. Request req \<in> set es \<and> ReqMode req \<in> modes \<and> usable env req cfg}"

definition confirming :: "apply_mode set" where
  "confirming = {ApplyReboot, ApplyAuto, ApplyNoReboot, ApplyStaged}"

definition immediate :: "apply_mode set" where
  "immediate = {ApplyAuto, ApplyNoReboot, ApplyTry}"

text \<open>One event: the persisted configuration is kept or comes from a confirming request; the active one, the
  timer and the started functions have a configuration that was active or comes from an immediate one.\<close>

definition configs_held :: "('x, 'd) apply_state \<Rightarrow> ('x, 'd) provider set" where
  "configs_held s = set_option (ActiveConfig s) \<union> set_option (RollbackTimer s) \<union> set (Fired s)"

lemma take_drop_set: "set (take i xs @ drop j xs) \<subseteq> set xs"
  using set_take_subset set_drop_subset by fastforce

lemma event_sources:
  "set_option (PersistentConfig (apply_event env e s)) \<subseteq> set_option (PersistentConfig s) \<union> requested env confirming [e]"
  "configs_held (apply_event env e s) \<subseteq> configs_held s \<union> requested env immediate [e]"
proof -
  have "set_option (PersistentConfig (apply_event env e s)) \<subseteq> set_option (PersistentConfig s) \<union> requested env confirming [e] \<and>
    configs_held (apply_event env e s) \<subseteq> configs_held s \<union> requested env immediate [e]"
  proof (cases e)
    case TimerFires
    then show ?thesis by (auto simp: configs_held_def split: option.splits)
  next
    case (RollbackRuns i)
    have "i < length (Fired s) \<Longrightarrow> Fired s ! i \<in> configs_held s" by (simp add: configs_held_def)
    then show ?thesis
      using RollbackRuns take_drop_set [of i "Fired s" "Suc i"] by (auto simp: Runtime_SetConfig_def Let_def configs_held_def)
  next
    case (Request req)
    obtain r s' where run: "ApplyConfiguration env req s = (r, s')" by (cases "ApplyConfiguration env req s")
    have same: "configs_held (after_cancel req s) \<subseteq> configs_held s" "PersistentConfig (after_cancel req s) = PersistentConfig s"
      by (auto simp: after_cancel_def configs_held_def)
    have calls: "configs_held s2 = configs_held s1 \<and> PersistentConfig s2 = PersistentConfig s1" if "only_calls s1 s2" for s1 s2 :: "('a, 'b) apply_state"
      using that by (simp add: only_calls_def configs_held_def)
    have req: "requested env modes [e] = (if ReqMode req \<in> modes then {cfg. usable env req cfg} else {})" for modes
      using Request by (auto simp: requested_def)
    from run show ?thesis
    proof (cases rule: apply_steps)
      case (rejected err)
      then show ?thesis using calls [OF rejected(2)] same Request run by auto
    next
      case (dry resp)
      then show ?thesis using calls [OF dry(3)] same Request run by auto
    next
      case (carried cfg m s1 q)
      have s': "apply_event env e s = s'" using Request run by simp
      note c = calls [OF carried(4)]
      have modes: "(m \<noteq> ApplyTry \<and> m \<noteq> ApplyOther \<longrightarrow> ReqMode req \<in> confirming) \<and>
          (m = ApplyTry \<or> m = ApplyNoReboot \<longrightarrow> ReqMode req \<in> immediate)"
        using carried(2) by (cases m; cases "ReqMode req") (auto simp: confirming_def immediate_def)
      show ?thesis
      proof (cases q)
        case (Inl err)
        note f = carry_out_failed [OF carried(5) [unfolded Inl]]
        have "m \<noteq> ApplyOther \<or> PersistentConfig s' = PersistentConfig s1"
          using carried(5) Inl by (auto simp: carry_out_def afail_def)
        then have "set_option (PersistentConfig s') \<subseteq> set_option (PersistentConfig s) \<union> requested env confirming [e]"
          unfolding req using f c same modes carried(1) by auto
        moreover have "configs_held s' \<subseteq> configs_held s1" using f by (auto simp: configs_held_def)
        ultimately show ?thesis using c same s' by auto
      next
        case (Inr u)
        note f = carry_out_ok [OF carried(5) [unfolded Inr]]
        show ?thesis unfolding s' req using f c same modes carried(1)
          by (cases m) (auto simp: configs_held_def)
      qed
    qed
  qed
  then show "set_option (PersistentConfig (apply_event env e s)) \<subseteq> set_option (PersistentConfig s) \<union> requested env confirming [e]"
    "configs_held (apply_event env e s) \<subseteq> configs_held s \<union> requested env immediate [e]" by simp_all
qed

lemma requested_Cons: "requested env modes (e # es) = requested env modes [e] \<union> requested env modes es"
  by (auto simp: requested_def)

text \<open>C10: Only confirmed configurations are persisted: over any run, whatever timers do and whatever calls fail,
  the persisted configuration is the one from before or that of a request that is not a trial, is not a dry
  run and was validated; and the active configuration is one that was held before or that of a request whose
  mode is immediate.\<close>

theorem only_confirmed_persisted:
  "set_option (PersistentConfig (apply_run env es s)) \<subseteq> set_option (PersistentConfig s) \<union> requested env confirming es \<and>
   set_option (ActiveConfig (apply_run env es s)) \<subseteq> configs_held s \<union> requested env immediate es"
proof -
  have "set_option (PersistentConfig (apply_run env es s)) \<subseteq> set_option (PersistentConfig s) \<union> requested env confirming es \<and>
     configs_held (apply_run env es s) \<subseteq> configs_held s \<union> requested env immediate es"
  proof (induction es arbitrary: s)
    case Nil
    then show ?case by simp
  next
    case (Cons e es)
    show ?case
      using Cons.IH [of "apply_event env e s"] event_sources [of env e s]
      unfolding requested_Cons [of env _ e es] apply_run_simps(2) by blast
  qed
  then show ?thesis by (auto simp: configs_held_def)
qed


text \<open>An event that leaves an armed trial alone: a further trial that is not carried out.\<close>

definition leaves_trial :: "('x, 'd, 'm, 'e) apply_env \<Rightarrow> ('x, 'd) config_event \<Rightarrow> ('x, 'd) apply_state \<Rightarrow> bool" where
  "leaves_trial env e s \<longleftrightarrow> (case e of
     Request req \<Rightarrow> ReqMode req = ApplyTry \<and> (DryRun req \<or> (\<exists>err. load_request env (ReqData req) = Inl err) \<or>
       (\<exists>cfg ws. load_request env (ReqData req) = Inr (cfg, ws) \<and> immediate_check (ActiveConfig s) cfg \<noteq> None))
   | TimerFires \<Rightarrow> False
   | RollbackRuns i \<Rightarrow> False)"

fun leave_trial :: "('x, 'd, 'm, 'e) apply_env \<Rightarrow> ('x, 'd) config_event list \<Rightarrow> ('x, 'd) apply_state \<Rightarrow> bool" where
  "leave_trial env [] s = True"
| "leave_trial env (e # es) s = (leaves_trial env e s \<and> leave_trial env es (apply_event env e s))"

lemma leaves_trial_kept:
  assumes "leaves_trial env e s"
  shows "only_calls s (apply_event env e s)"
proof -
  obtain req where req: "e = Request req" "ReqMode req = ApplyTry"
    and bad: "DryRun req \<or> (\<exists>err. load_request env (ReqData req) = Inl err) \<or>
       (\<exists>cfg ws. load_request env (ReqData req) = Inr (cfg, ws) \<and> immediate_check (ActiveConfig s) cfg \<noteq> None)"
    using assms by (auto simp: leaves_trial_def split: config_event.splits)
  obtain r s' where run: "ApplyConfiguration env req s = (r, s')" by (cases "ApplyConfiguration env req s")
  have s: "after_cancel req s = s" using req(2) by (simp add: after_cancel_def)
  from run show ?thesis
  proof (cases rule: apply_steps)
    case (carried cfg m s1 q)
    have "m = ApplyTry" using carried(2) req(2) by auto
    with carried(1,3) bad show ?thesis by (auto simp: usable_def)
  qed (use run req(1) s in auto)
qed

lemma leave_trial_kept: "leave_trial env es s \<Longrightarrow> only_calls s (apply_run env es s)"
proof (induction es arbitrary: s)
  case Nil
  then show ?case by (simp add: only_calls_refl)
next
  case (Cons e es)
  then have "only_calls s (apply_event env e s)" "only_calls (apply_event env e s) (apply_run env es (apply_event env e s))"
    using leaves_trial_kept by auto
  then show ?case by (simp add: only_calls_def)
qed

text \<open>C9: A trial is rolled back. After a successful request with mode TRY, if nothing else is carried out until the
  timer fires and the store takes the configuration that it sets, the active configuration is again the one
  from before the trial, no timer is left, and the persisted configuration never changed.\<close>

theorem trial_rolled_back:
  assumes "ApplyConfiguration env req s = (Inr resp, s1)" and "ReqMode req = ApplyTry" and "\<not> DryRun req" and "Fired s = []"
    and "leave_trial env es s1" and "s2 = apply_run env (es @ [TimerFires]) s1"
    and "\<forall>cfg. StoreOk env (StoreCalls s2) (SetActive cfg)"
  shows "ActiveConfig s1 \<noteq> None \<and> ActiveConfig s \<noteq> None \<and>
    ActiveConfig (apply_event env (RollbackRuns 0) s2) = ActiveConfig s \<and>
    RollbackTimer (apply_event env (RollbackRuns 0) s2) = None \<and> Fired (apply_event env (RollbackRuns 0) s2) = [] \<and>
    PersistentConfig (apply_event env (RollbackRuns 0) s2) = PersistentConfig s"
proof -
  from assms(1) obtain cfg m s0 where m: "m = ApplyTry" and imm: "immediate_check (ActiveConfig s) cfg = None"
    and calls: "only_calls (after_cancel req s) s0" and run: "carry_out env cfg m s0 = (Inr (), s1)"
  proof (cases rule: apply_steps)
    case (carried cfg m s0 q)
    then show ?thesis using that [of m cfg s0] assms(2) by auto
  qed (use assms(3) in auto)
  obtain c where c: "ActiveConfig s = Some c" using imm by (auto simp: immediate_check_def split: option.splits)
  have s1: "ActiveConfig s1 = Some cfg" "PersistentConfig s1 = PersistentConfig s" "RollbackTimer s1 = Some c" "Fired s1 = []"
    using carry_out_ok [OF run] m calls c assms(4) by (auto simp: only_calls_def after_cancel_def assms(2))
  have kept: "only_calls s1 (apply_run env es s1)" by (rule leave_trial_kept [OF assms(5)])
  then have s2: "Fired s2 = [c]" "RollbackTimer s2 = None" "PersistentConfig s2 = PersistentConfig s"
    using assms(6) s1 by (simp_all add: only_calls_def)
  show ?thesis using s2 assms(7) c s1(1) by (simp add: Runtime_SetConfig_def Let_def)
qed

text \<open>Every other request drops the timer first, also when it is then rejected or only a dry run: a trial that
  is pending becomes the active configuration for good, although it was never confirmed nor persisted.\<close>

theorem rejected_request_keeps_trial:
  assumes "ApplyConfiguration env req s = (r, s')" and "ReqMode req \<noteq> ApplyTry"
    and "DryRun req \<or> (\<exists>e. load_request env (ReqData req) = Inl e)"
  shows "RollbackTimer s' = None \<and> ActiveConfig s' = ActiveConfig s \<and> PersistentConfig s' = PersistentConfig s"
  using assms(1)
proof (cases rule: apply_steps)
  case (carried cfg m s1 q)
  then show ?thesis using assms(3) by (auto simp: usable_def)
qed (use assms(2) in \<open>simp_all add: only_calls_def after_cancel_def\<close>)

text \<open>A second trial takes the first one, which was never confirmed, as the configuration to roll back to.\<close>

theorem second_trial_rolls_back_to_first:
  assumes "ApplyConfiguration env req s = (Inr resp, s1)" and "ReqMode req = ApplyTry" and "\<not> DryRun req"
    and "ApplyConfiguration env req' s1 = (Inr resp', s2)" and "ReqMode req' = ApplyTry" and "\<not> DryRun req'"
  shows "\<exists>cfg. usable env req cfg \<and> RollbackTimer s2 = Some cfg"
proof -
  have mode: "RespMode resp = ApplyTry" "RespMode resp' = ApplyTry"
    using apply_outcome [OF assms(1)] apply_outcome [OF assms(4)] assms(2,3,5,6) by auto
  obtain cfg where "usable env req cfg" "ActiveConfig s1 = Some cfg"
    using apply_outcome [OF assms(1)] assms(3) mode by auto
  moreover have "RollbackTimer s2 = ActiveConfig s1"
    using apply_outcome [OF assms(4)] assms(5,6) mode by (auto simp: after_cancel_def)
  ultimately show ?thesis by auto
qed


text \<open>The function of a timer that has fired is not stopped: when a request without a reboot is carried out
  between the firing and the function, the configuration it confirmed is persisted and not active.\<close>

theorem fired_rollback_overrides:
  assumes "Fired s = [old]" and "ApplyConfiguration env req s = (Inr resp, s1)" and "RespMode resp = ApplyNoReboot" and "\<not> DryRun req"
    and "\<forall>cfg. StoreOk env (StoreCalls s1) (SetActive cfg)"
  shows "\<exists>cfg. usable env req cfg \<and> PersistentConfig (apply_run env [Request req, RollbackRuns 0] s) = Some cfg \<and>
    ActiveConfig (apply_run env [Request req, RollbackRuns 0] s) = Some old"
proof -
  obtain cfg where cfg: "usable env req cfg" "PersistentConfig s1 = Some cfg" "Fired s1 = [old]"
    using apply_outcome [OF assms(2)] assms(1,3,4) by auto
  then show ?thesis using assms(2,5) by (simp add: Runtime_SetConfig_def Let_def)
qed

section \<open>Witnesses\<close>

definition demo_v1 :: "u8 \<Rightarrow> u8 Config" where
  "demo_v1 n = \<lparr>ConfigVersion = 1, ConfigDebug = n, ConfigPersist = 1, MachineConfigOf = None, ClusterConfig = 0\<rparr>"

definition demo_apply_methods :: "(u8 Config, unit, unit, unit) doc_methods" where
  "demo_apply_methods = \<lparr>DKind = (\<lambda>_. ''''), DName = (\<lambda>_. None), ConflictsWithKinds = (\<lambda>_. None), IsSelector = (\<lambda>_. False),
     ToV1Alpha1 = (\<lambda>_. None), Version = ''v1alpha1'', ValidateV1 = \<lambda>_ _. ([], None), ValidateDoc = \<lambda>_ _. None,
     V1Alpha1ConflictValidate = \<lambda>_ _. None, RuntimeValidateV1 = \<lambda>_ _. ([], None), RuntimeValidateDoc = \<lambda>_ _. None,
     RedactV1 = \<lambda>_ v. v, RedactDoc = \<lambda>_ _. None\<rparr>"

definition demo_apply_env :: "(u8, unit, unit, unit) apply_env" where
  "demo_apply_env = \<lparr>ConfigMethods = demo_apply_methods,
     DecodeConfig = (\<lambda>b. case b of [] \<Rightarrow> Inl () | n # _ \<Rightarrow> Inr [V1Alpha1Document (demo_v1 n)]),
     ValidationMode = (), StoreOk = (\<lambda>_ _. True), DiffOk = (\<lambda>_ _. True)\<rparr>"

definition demo_provider :: "u8 \<Rightarrow> (u8, unit) provider" where
  "demo_provider n = \<lparr>V1Config = Some (demo_v1 n), Docs = [], RawBytes = Some [n], ReadonlyFlag = True\<rparr>"

definition demo_apply_state :: "(u8, unit) apply_state" where
  "demo_apply_state = \<lparr>ActiveConfig = Some (demo_provider 0), PersistentConfig = Some (demo_provider 0), RollbackTimer = None,
     Fired = [], Reboots = 0, StoreCalls = []\<rparr>"

definition demo_req :: "bytes \<Rightarrow> apply_mode \<Rightarrow> (u8, unit) apply_request" where
  "demo_req b m = \<lparr>ReqData = b, ReqMode = m, DryRun = False\<rparr>"



definition demo_tried :: "(u8, unit) apply_state" where
  "demo_tried = snd (ApplyConfiguration demo_apply_env (demo_req [1] ApplyTry) demo_apply_state)"

definition demo_response :: "apply_mode \<Rightarrow> apply_response" where
  "demo_response m = \<lparr>RespMode = m, RespWarnings = [], RespDetails = without_reboot\<rparr>"

definition demo_confirmed :: "(u8, unit) apply_state" where
  "demo_confirmed = snd (ApplyConfiguration demo_apply_env (demo_req [2] ApplyNoReboot) (apply_event demo_apply_env TimerFires demo_tried))"

lemma demo_runs_apply:
  "ApplyConfiguration demo_apply_env (demo_req [1] ApplyTry) demo_apply_state = (Inr (demo_response ApplyTry), demo_tried)"
  "ApplyConfiguration demo_apply_env (demo_req [2] ApplyTry) demo_tried =
     (Inr (demo_response ApplyTry), snd (ApplyConfiguration demo_apply_env (demo_req [2] ApplyTry) demo_tried))"
  "ApplyConfiguration demo_apply_env (demo_req [] ApplyNoReboot) demo_tried =
     (Inl (InvalidArgument (External ''decode'' ())), snd (ApplyConfiguration demo_apply_env (demo_req [] ApplyNoReboot) demo_tried))"
  "ApplyConfiguration demo_apply_env (demo_req [2] ApplyNoReboot) (apply_event demo_apply_env TimerFires demo_tried) =
     (Inr (demo_response ApplyNoReboot), demo_confirmed)"
  by code_simp+

lemma demo_apply_facts:
  "\<forall>cs op. StoreOk demo_apply_env cs op" "Fired (apply_event demo_apply_env TimerFires demo_tried) = [demo_provider 0]"
  "load_request demo_apply_env [] = Inl (InvalidArgument (External ''decode'' ()))"
  by (simp add: demo_apply_env_def) code_simp+

theorem apply_outcome_witness:
  "\<exists>cfg. usable demo_apply_env (demo_req [1] ApplyTry) cfg \<and> ActiveConfig demo_tried = Some cfg \<and> RollbackTimer demo_tried = Some (demo_provider 0)"
  using apply_outcome [OF demo_runs_apply(1)]
  by (auto simp: demo_req_def demo_response_def after_cancel_def demo_apply_state_def)

theorem trial_rolled_back_witness:
  "ActiveConfig (apply_event demo_apply_env (RollbackRuns 0) (apply_event demo_apply_env TimerFires demo_tried)) = Some (demo_provider 0)"
  using trial_rolled_back [OF demo_runs_apply(1) _ _ _ _ refl, of "[]"] demo_apply_facts(1)
  by (simp add: demo_req_def demo_apply_state_def)

theorem rejected_request_keeps_trial_witness:
  "RollbackTimer (snd (ApplyConfiguration demo_apply_env (demo_req [] ApplyNoReboot) demo_tried)) = None \<and>
   ActiveConfig (snd (ApplyConfiguration demo_apply_env (demo_req [] ApplyNoReboot) demo_tried)) = ActiveConfig demo_tried"
  using rejected_request_keeps_trial [OF demo_runs_apply(3)] demo_apply_facts(3) by (simp add: demo_req_def)

theorem second_trial_rolls_back_to_first_witness:
  "\<exists>cfg. usable demo_apply_env (demo_req [1] ApplyTry) cfg \<and>
     RollbackTimer (snd (ApplyConfiguration demo_apply_env (demo_req [2] ApplyTry) demo_tried)) = Some cfg"
  using second_trial_rolls_back_to_first [OF demo_runs_apply(1) _ _ demo_runs_apply(2)] by (simp add: demo_req_def)

theorem fired_rollback_overrides_witness:
  "ActiveConfig (apply_run demo_apply_env [Request (demo_req [2] ApplyNoReboot), RollbackRuns 0] (apply_event demo_apply_env TimerFires demo_tried)) =
     Some (demo_provider 0)"
  using fired_rollback_overrides [OF demo_apply_facts(2) demo_runs_apply(4)] demo_apply_facts(1)
  by (auto simp: demo_req_def demo_response_def)

end
