(* ===== verification/CallTrace.thy ===== *)
theory CallTrace
  imports Prelude
begin

text \<open>
  Programs that call something outside of the repository, in general: a computation takes a state and
  returns an error or a value with the new state. The state may be the trace of the
  calls made so far, the newest first, which the computation makes longer. A trace says
  of every call whether it succeeded; what an outside system holds is then a function of the trace. The
  rules of \<open>after\<close> compute what holds after a program, those of \<open>calls_in\<close> which calls it makes.
\<close>

section \<open>The monad\<close>

text \<open>The steps are those of any state; a trace is one kind of state.\<close>

type_synonym ('s, 'e, 'a) prog = "'s \<Rightarrow> ('e + 'a) \<times> 's"
type_synonym 'c trace = "('c \<times> bool) list"
type_synonym ('c, 'e, 'a) traced = "('c trace, 'e, 'a) prog"

named_theorems after_simps \<open>what holds after a step\<close>
named_theorems calls_intros \<open>which calls a step makes\<close>

definition tret :: "'a \<Rightarrow> ('s, 'e, 'a) prog" where
  "tret x h = (Inr x, h)"

definition tfail :: "'e \<Rightarrow> ('s, 'e, 'a) prog" where
  "tfail e h = (Inl e, h)"

definition tbind :: "('s, 'e, 'a) prog \<Rightarrow> ('a \<Rightarrow> ('s, 'e, 'b) prog) \<Rightarrow> ('s, 'e, 'b) prog" where
  "tbind m f h = (case m h of (Inl e, h') \<Rightarrow> (Inl e, h') | (Inr x, h') \<Rightarrow> f x h')"

definition tseq :: "('s, 'e, 'a) prog \<Rightarrow> ('s, 'e, 'b) prog \<Rightarrow> ('s, 'e, 'b) prog" where
  "tseq m k = tbind m (\<lambda>_. k)"

text \<open>The result of \<open>m\<close>, error or value, as a value.\<close>

definition tresult :: "('s, 'e, 'a) prog \<Rightarrow> ('s, 'e, 'e + 'a) prog" where
  "tresult m h = (case m h of (r, h') \<Rightarrow> (Inr r, h'))"

text \<open>A call, with its answer from the trace before it; None is an error.\<close>

definition tcall :: "'c \<Rightarrow> 'e \<Rightarrow> ('c trace \<Rightarrow> 'a option) \<Rightarrow> ('c, 'e, 'a) traced" where
  "tcall c err f h = (case f h of None \<Rightarrow> (Inl err, (c, False) # h) | Some x \<Rightarrow> (Inr x, (c, True) # h))"

text \<open>A program that returns a value, step by step.\<close>

named_theorems returns_simps \<open>when a step returns a value\<close>

lemma returns_tret [returns_simps]: "tret x h = (r, h') \<longleftrightarrow> r = Inr x \<and> h' = h"
  by (auto simp: tret_def)

lemma returns_tfail [returns_simps]: "tfail e h = (r, h') \<longleftrightarrow> r = Inl e \<and> h' = h"
  by (auto simp: tfail_def)

lemma returns_tbind [returns_simps]:
  "tbind m f h = (Inr y, h') \<longleftrightarrow> (\<exists>x h1. m h = (Inr x, h1) \<and> f x h1 = (Inr y, h'))"
  by (auto simp: tbind_def split: prod.splits sum.splits)

lemma returns_tseq [returns_simps]: "tseq m k h = (Inr y, h') \<longleftrightarrow> (\<exists>x h1. m h = (Inr x, h1) \<and> k h1 = (Inr y, h'))"
  by (simp add: tseq_def returns_tbind)

lemma returns_tresult [returns_simps]: "tresult m h = (r, h') \<longleftrightarrow> (\<exists>r0. r = Inr r0 \<and> m h = (r0, h'))"
  by (auto simp: tresult_def split: prod.splits)

lemma returns_tcall [returns_simps]: "tcall c err f h = (Inr x, h') \<longleftrightarrow> f h = Some x \<and> h' = (c, True) # h"
  by (auto simp: tcall_def split: option.splits)

text \<open>The same for the runs of a program whose steps are known.\<close>

lemma run_tbind: "m h = (Inr x, h1) \<Longrightarrow> tbind m f h = f x h1"
  by (simp add: tbind_def)

lemma run_tseq: "m h = (Inr x, h1) \<Longrightarrow> tseq m k h = k h1"
  by (simp add: tseq_def tbind_def)

lemma run_tcall: "f h = Some x \<Longrightarrow> tcall c err f h = (Inr x, (c, True) # h)"
  by (simp add: tcall_def)

lemma run_tresult: "m h = (r, h1) \<Longrightarrow> tresult m h = (Inr r, h1)"
  by (simp add: tresult_def)

lemma run_call: "f h = Some x \<Longrightarrow> tbind (tcall c err f) g h = g x ((c, True) # h)"
  by (simp add: tbind_def tcall_def)

lemma run_ret: "tbind (tret x) f h = f x h"
  by (simp add: tbind_def tret_def)

lemma run_result: "m h = (r, h1) \<Longrightarrow> tbind (tresult m) f h = f r h1"
  by (simp add: tbind_def tresult_def)

section \<open>What holds after a program\<close>

definition after :: "('s, 'e, 'a) prog \<Rightarrow> ('e + 'a \<Rightarrow> 's \<Rightarrow> bool) \<Rightarrow> 's \<Rightarrow> bool" where
  "after m Q h \<longleftrightarrow> Q (fst (m h)) (snd (m h))"

lemma afterD: "after m Q h \<Longrightarrow> m h = (r, h') \<Longrightarrow> Q r h'"
  by (simp add: after_def)

lemma afterI: "(\<And>r h'. m h = (r, h') \<Longrightarrow> Q r h') \<Longrightarrow> after m Q h"
  by (cases "m h") (simp add: after_def)

lemma after_mono: "after m Q h \<Longrightarrow> (\<And>r h'. Q r h' \<Longrightarrow> Q' r h') \<Longrightarrow> after m Q' h"
  by (simp add: after_def)

lemma after_conj: "after m Q h \<Longrightarrow> after m Q' h \<Longrightarrow> after m (\<lambda>r h'. Q r h' \<and> Q' r h') h"
  by (simp add: after_def)

lemma after_tret [after_simps]: "after (tret x) Q h \<longleftrightarrow> Q (Inr x) h"
  by (simp add: after_def tret_def)

lemma after_tfail [after_simps]: "after (tfail e) Q h \<longleftrightarrow> Q (Inl e) h"
  by (simp add: after_def tfail_def)

lemma after_tbind [after_simps]:
  "after (tbind m f) Q h \<longleftrightarrow> after m (\<lambda>r h'. case r of Inl e \<Rightarrow> Q (Inl e) h' | Inr x \<Rightarrow> after (f x) Q h') h"
  by (auto simp: after_def tbind_def split: prod.splits sum.splits)

lemma after_tseq [after_simps]:
  "after (tseq m k) Q h \<longleftrightarrow> after m (\<lambda>r h'. case r of Inl e \<Rightarrow> Q (Inl e) h' | Inr x \<Rightarrow> after k Q h') h"
  by (simp add: tseq_def after_tbind)

lemma after_tresult [after_simps]: "after (tresult m) Q h \<longleftrightarrow> after m (\<lambda>r. Q (Inr r)) h"
  by (simp add: after_def tresult_def split: prod.splits)

lemma after_tcall [after_simps]:
  "after (tcall c err f) Q h \<longleftrightarrow>
     (case f h of None \<Rightarrow> Q (Inl err) ((c, False) # h) | Some x \<Rightarrow> Q (Inr x) ((c, True) # h))"
  by (simp add: after_def tcall_def split: option.splits)

lemma after_if [after_simps]: "after (if b then m else k) Q h \<longleftrightarrow> (if b then after m Q h else after k Q h)"
  by simp

lemma after_option [after_simps]:
  "after (case x of None \<Rightarrow> m | Some y \<Rightarrow> f y) Q h \<longleftrightarrow> (case x of None \<Rightarrow> after m Q h | Some y \<Rightarrow> after (f y) Q h)"
  by (simp split: option.splits)

lemma after_sum [after_simps]:
  "after (case x of Inl e \<Rightarrow> m e | Inr y \<Rightarrow> f y) Q h \<longleftrightarrow> (case x of Inl e \<Rightarrow> after (m e) Q h | Inr y \<Rightarrow> after (f y) Q h)"
  by (simp split: sum.splits)

lemma after_prod [after_simps]: "after (case x of (y, z) \<Rightarrow> m y z) Q h \<longleftrightarrow> (case x of (y, z) \<Rightarrow> after (m y z) Q h)"
  by (simp split: prod.splits)

section \<open>Which calls a program makes\<close>

definition calls_in :: "('c \<Rightarrow> bool) \<Rightarrow> ('c, 'e, 'a) traced \<Rightarrow> bool" where
  "calls_in P m \<longleftrightarrow> (\<forall>h. \<exists>new. snd (m h) = new @ h \<and> (\<forall>(c, b) \<in> set new. P c))"

lemma calls_inE:
  assumes "calls_in P m" "m h = (r, h')"
  obtains new where "h' = new @ h" "\<forall>(c, b) \<in> set new. P c"
  using assms unfolding calls_in_def by (metis snd_conv)

lemma calls_in_mono: "calls_in P m \<Longrightarrow> (\<And>c. P c \<Longrightarrow> P' c) \<Longrightarrow> calls_in P' m"
  unfolding calls_in_def by fast

lemma calls_tret [calls_intros]: "calls_in P (tret x)"
  by (simp add: calls_in_def tret_def)

lemma calls_tfail [calls_intros]: "calls_in P (tfail e)"
  by (simp add: calls_in_def tfail_def)

lemma calls_tcall [calls_intros]: "P c \<Longrightarrow> calls_in P (tcall c err f)"
  by (simp add: calls_in_def tcall_def split: option.splits)

lemma calls_tbind [calls_intros]:
  assumes "calls_in P m" "\<And>x h h'. m h = (Inr x, h') \<Longrightarrow> calls_in P (f x)"
  shows "calls_in P (tbind m f)"
  unfolding calls_in_def
proof
  fix h
  obtain r h1 where m: "m h = (r, h1)" by (cases "m h")
  obtain new where new: "h1 = new @ h" "\<forall>(c, b) \<in> set new. P c" using assms(1) m by (rule calls_inE)
  show "\<exists>new. snd (tbind m f h) = new @ h \<and> (\<forall>(c, b) \<in> set new. P c)"
  proof (cases r)
    case (Inl e)
    then show ?thesis using m new by (simp add: tbind_def)
  next
    case (Inr x)
    obtain r2 h2 where f: "f x h1 = (r2, h2)" by (cases "f x h1")
    have "calls_in P (f x)" using assms(2) m Inr by blast
    then obtain new2 where "h2 = new2 @ h1" "\<forall>(c, b) \<in> set new2. P c" using f by (rule calls_inE)
    then show ?thesis using m f Inr new by (intro exI [of _ "new2 @ new"]) (auto simp: tbind_def)
  qed
qed

lemma calls_tseq [calls_intros]: "calls_in P m \<Longrightarrow> calls_in P k \<Longrightarrow> calls_in P (tseq m k)"
  unfolding tseq_def by (rule calls_tbind)

lemma calls_tresult [calls_intros]: "calls_in P m \<Longrightarrow> calls_in P (tresult m)"
proof -
  assume m: "calls_in P m"
  have "snd (tresult m h) = snd (m h)" for h by (simp add: tresult_def split: prod.splits)
  then show ?thesis using m by (simp add: calls_in_def)
qed

lemma calls_if [calls_intros]: "(b \<Longrightarrow> calls_in P m) \<Longrightarrow> (\<not> b \<Longrightarrow> calls_in P k) \<Longrightarrow> calls_in P (if b then m else k)"
  by simp

lemma calls_option [calls_intros]:
  "(x = None \<Longrightarrow> calls_in P m) \<Longrightarrow> (\<And>y. x = Some y \<Longrightarrow> calls_in P (f y)) \<Longrightarrow> calls_in P (case x of None \<Rightarrow> m | Some y \<Rightarrow> f y)"
  by (cases x) simp_all

lemma calls_sum [calls_intros]:
  "(\<And>e. x = Inl e \<Longrightarrow> calls_in P (m e)) \<Longrightarrow> (\<And>y. x = Inr y \<Longrightarrow> calls_in P (f y)) \<Longrightarrow> calls_in P (case x of Inl e \<Rightarrow> m e | Inr y \<Rightarrow> f y)"
  by (cases x) simp_all

lemma calls_prod [calls_intros]: "(\<And>y z. x = (y, z) \<Longrightarrow> calls_in P (f y z)) \<Longrightarrow> calls_in P (case x of (y, z) \<Rightarrow> f y z)"
  by (cases x) simp

end
