(* ===== verification/Strconv.thy ===== *)
theory Strconv
  imports Prelude
begin

text \<open>
  Decimal numbers as package strconv writes and reads them (Itoa, and ParseInt with base 10 and 64 bits),
  strings as bytes, and the standard encoding of encoding/base64.
\<close>

section \<open>Decimal numbers\<close>

fun digits_of :: "nat \<Rightarrow> string" where
  "digits_of n = (if n < 10 then [char_of (48 + n)] else digits_of (n div 10) @ [char_of (48 + n mod 10)])"

declare digits_of.simps [simp del]

definition Itoa :: "int \<Rightarrow> string" where
  "Itoa i = (if i < 0 then CHR ''-'' # digits_of (nat (- i)) else digits_of (nat i))"

definition is_decimal :: "char \<Rightarrow> bool" where
  "is_decimal c \<longleftrightarrow> 48 \<le> (of_char c :: nat) \<and> (of_char c :: nat) \<le> 57"

fun read_digits :: "nat \<Rightarrow> string \<Rightarrow> nat option" where
  "read_digits acc [] = Some acc"
| "read_digits acc (c # cs) = (if is_decimal c then read_digits (10 * acc + (of_char c - 48)) cs else None)"

text \<open>Either sign is accepted, and at least one digit; the result is in the range of an int64.\<close>

definition parse_unsigned :: "string \<Rightarrow> nat option" where
  "parse_unsigned s = (if s = '''' then None else read_digits 0 s)"

definition in_int64 :: "int \<Rightarrow> bool" where
  "in_int64 i \<longleftrightarrow> - (2 ^ 63) \<le> i \<and> i < 2 ^ 63"

definition ParseInt :: "string \<Rightarrow> int option" where
  "ParseInt s =
     (let r = (case s of
          [] \<Rightarrow> None
        | c # cs \<Rightarrow>
            if c = CHR ''-'' then map_option (\<lambda>n. - int n) (parse_unsigned cs)
            else if c = CHR ''+'' then map_option int (parse_unsigned cs)
            else map_option int (parse_unsigned s))
      in case r of Some i \<Rightarrow> if in_int64 i then Some i else None | None \<Rightarrow> None)"

lemma read_digits_append: "read_digits acc (s @ t) = (case read_digits acc s of None \<Rightarrow> None | Some n \<Rightarrow> read_digits n t)"
  by (induction s arbitrary: acc) auto

lemma of_char_digit: "d < 10 \<Longrightarrow> of_char (char_of (48 + d :: nat)) = (48 + d :: nat)"
  by (simp add: of_char_of)

lemma read_digits_of: "read_digits 0 (digits_of n) = Some n"
proof (induction n rule: digits_of.induct)
  case (1 n)
  show ?case
  proof (cases "n < 10")
    case True
    then show ?thesis by (subst digits_of.simps) (simp add: is_decimal_def of_char_digit)
  next
    case False
    have "48 + n mod 10 \<le> 57" using mod_less_divisor [of 10 n] by linarith
    then show ?thesis using False 1
      by (subst digits_of.simps) (simp add: read_digits_append is_decimal_def of_char_digit)
  qed
qed

lemma digits_of_not_Nil: "digits_of n \<noteq> []"
  by (subst digits_of.simps) simp

lemma digits_of_digit: "c \<in> set (digits_of n) \<Longrightarrow> is_decimal c"
proof (induction n rule: digits_of.induct)
  case (1 n)
  have "48 + n mod 10 \<le> 57" using mod_less_divisor [of 10 n] by linarith
  then show ?case using 1
    by (subst (asm) (2) digits_of.simps) (auto simp: is_decimal_def of_char_digit split: if_splits)
qed

lemma ParseInt_Itoa: "in_int64 i \<Longrightarrow> ParseInt (Itoa i) = Some i"
proof (cases "i < 0")
  case True
  assume "in_int64 i"
  then show ?thesis using True digits_of_not_Nil
    by (simp add: ParseInt_def Itoa_def parse_unsigned_def read_digits_of)
next
  case False
  assume i: "in_int64 i"
  obtain c cs where d: "digits_of (nat i) = c # cs" using digits_of_not_Nil by (cases "digits_of (nat i)") auto
  then have "is_decimal c" using digits_of_digit [of c "nat i"] by simp
  then have "c \<noteq> CHR ''-''" "c \<noteq> CHR ''+''" by (auto simp: is_decimal_def)
  then show ?thesis using False i d read_digits_of [of "nat i"]
    by (simp add: ParseInt_def Itoa_def parse_unsigned_def)
qed

lemma Itoa_inj: "Itoa i = Itoa j \<Longrightarrow> i = j"
proof -
  have neg: "Itoa i = CHR ''-'' # s \<Longrightarrow> i < 0" for i s
  proof (rule ccontr)
    assume "Itoa i = CHR ''-'' # s" "\<not> i < 0"
    then have "CHR ''-'' \<in> set (digits_of (nat i))" by (simp add: Itoa_def)
    then show False using digits_of_digit by (fastforce simp: is_decimal_def)
  qed
  assume eq: "Itoa i = Itoa j"
  show ?thesis
  proof (cases "i < 0")
    case True
    then have "Itoa j = CHR ''-'' # digits_of (nat (- i))" using eq by (simp add: Itoa_def)
    then have "j < 0" by (rule neg)
    then have "digits_of (nat (- i)) = digits_of (nat (- j))" using True eq by (simp add: Itoa_def)
    then have "nat (- i) = nat (- j)" using read_digits_of by (metis option.inject)
    then show ?thesis using True \<open>j < 0\<close> by linarith
  next
    case False
    have "\<not> j < 0"
    proof
      assume "j < 0"
      then have "Itoa i = CHR ''-'' # digits_of (nat (- j))" using eq by (simp add: Itoa_def)
      then show False using False neg by blast
    qed
    then have "digits_of (nat i) = digits_of (nat j)" using False eq by (simp add: Itoa_def)
    then have "nat i = nat j" using read_digits_of by (metis option.inject)
    then show ?thesis using False \<open>\<not> j < 0\<close> by linarith
  qed
qed

section \<open>Strings as bytes, base64\<close>

definition string_bytes :: "string \<Rightarrow> bytes" where
  "string_bytes s = map (\<lambda>c. word_of_int (int (of_char c))) s"

definition b64_digit :: "nat \<Rightarrow> u8" where
  "b64_digit n =
     (if n < 26 then of_nat (65 + n)
      else if n < 52 then of_nat (71 + n)
      else if n < 62 then of_nat (n - 4)
      else if n = 62 then 43 else 47)"

fun EncodeToString :: "bytes \<Rightarrow> bytes" where
  "EncodeToString [] = []"
| "EncodeToString [a] = [b64_digit (unat a div 4), b64_digit (unat a mod 4 * 16), 61, 61]"
| "EncodeToString [a, b] =
     [b64_digit (unat a div 4), b64_digit (unat a mod 4 * 16 + unat b div 16), b64_digit (unat b mod 16 * 4), 61]"
| "EncodeToString (a # b # c # bs) =
     b64_digit (unat a div 4) # b64_digit (unat a mod 4 * 16 + unat b div 16) #
     b64_digit (unat b mod 16 * 4 + unat c div 64) # b64_digit (unat c mod 64) # EncodeToString bs"

end
