(* ===== verification/Encryption.thy ===== *)
theory Encryption
  imports BlockTypes CallTrace Strconv
begin

text \<open>
  Encrypted volumes: internal/pkg/encryption (encryption.go) with its key handlers (keys/). The library for
  LUKS (go-blockdevice), the KMS client, the TPM, the EFI variables, the random source, the machine's UUID and
  the salt are calls in a trace, answered by an environment that sees the trace; any answer may be an error,
  a time-out of ten seconds included. Log lines are left out.
\<close>

section \<open>Configuration\<close>

text \<open>The fields of EncryptionKey and EncryptionSpec that the handlers read, on those the volumes read.\<close>

record key_config = EncryptionKey +
  StaticPassphrase :: "bytes option"
  KMSEndpoint :: string
  TPMCheckSecurebootStatusOnEnroll :: bool

record cipher_config =
  Cipher :: string
  KeySize :: nat
  BlockSize :: u64
  PerfOptions :: "string list option"
  KeyConfigs :: "key_config list"

record enc_key =
  KSlot :: int
  KValue :: bytes

text \<open>What tpm2.Seal returns; all of it goes into the token.\<close>

record sealed =
  SealedBlobPrivate :: bytes
  SealedBlobPublic :: bytes
  SealedPCRs :: "int list"
  SealedPubKeyPCRs :: "int list"
  Alg :: string
  EncryptionVersion :: string
  PolicyDigest :: bytes
  KeyName :: bytes

record tpm_token =
  KeySlots :: "int list"
  TokenSealed :: sealed

datatype luks_token = KMSToken bytes | TPMToken tpm_token

definition TokenTypeKMS :: string where
  "TokenTypeKMS = ''sideroKMS''"

definition TokenTypeTPM :: string where
  "TokenTypeTPM = ''talos-tpm2''"

text \<open>A token as it is read: its type and its user data in JSON.\<close>

datatype raw_token = NoToken | RawToken string bytes

section \<open>Calls\<close>

datatype enc_op =
    SystemInformation | Salt | RandomRead
  | KMSDial string | KMSSeal string bytes | KMSUnseal string bytes
  | GetSecureBoot | GetSetupMode | TPMSeal bytes "int list" | TPMUnseal sealed
  | LuksIsOpen string string | LuksOpen string string enc_key | LuksClose string
  | LuksReadKeyslots string | LuksReadToken string int | LuksSetToken string int luks_token
  | LuksAddKey string "enc_key option" enc_key | LuksRemoveKey string int "enc_key option"
  | LuksCheckKey string enc_key | LuksEncrypt string enc_key

datatype enc_error =
    CallFailed enc_op
  | TokenInvalid
  | TokenMalformed
  | UnknownTokenType string
  | UUIDNotPopulated
  | EntropyCheckFailed
  | SecureBootDisabled
  | SetupModeEnabled
  | BadCipher
  | BadPerfOption
  | NoStaticKey
  | NoSystemInfoGetter int
  | NoTPMLocker int
  | NoSaltGetter int
  | NoKeysFound
  | NoHandlers "enc_error list"
  | BadSlot string
  | HandlerPanic

datatype close_answer = CloseOk | DeviceNotReady | CloseFailed

type_synonym enc_trace = "enc_op trace"
type_synonym 'a enc = "(enc_op, enc_error, 'a) traced"

record enc_env =
  system_uuid :: "enc_trace \<Rightarrow> string option"
  salt_of :: "enc_trace \<Rightarrow> bytes option"
  random_key :: "enc_trace \<Rightarrow> bytes option"
  kms_dial :: "enc_trace \<Rightarrow> string \<Rightarrow> unit option"
  kms_seal :: "enc_trace \<Rightarrow> string \<Rightarrow> bytes \<Rightarrow> bytes option"
  kms_unseal :: "enc_trace \<Rightarrow> string \<Rightarrow> bytes \<Rightarrow> bytes option"
  secure_boot :: "enc_trace \<Rightarrow> bool"
  setup_mode :: "enc_trace \<Rightarrow> bool"
  tpm_seal :: "enc_trace \<Rightarrow> bytes \<Rightarrow> int list \<Rightarrow> sealed option"
  tpm_unseal :: "enc_trace \<Rightarrow> sealed \<Rightarrow> bytes option"
  luks_is_open :: "enc_trace \<Rightarrow> string \<Rightarrow> string \<Rightarrow> (bool \<times> string) option"
  open_luks :: "enc_trace \<Rightarrow> string \<Rightarrow> string \<Rightarrow> enc_key \<Rightarrow> string option"
  close_luks :: "enc_trace \<Rightarrow> string \<Rightarrow> close_answer"
  read_keyslots :: "enc_trace \<Rightarrow> string \<Rightarrow> string list option"
  read_token :: "enc_trace \<Rightarrow> string \<Rightarrow> int \<Rightarrow> raw_token option"
  check_key :: "enc_trace \<Rightarrow> string \<Rightarrow> enc_key \<Rightarrow> bool option"
  luks_done :: "enc_trace \<Rightarrow> enc_op \<Rightarrow> unit option"
  parse_kms :: "bytes \<Rightarrow> bytes option"
  parse_tpm :: "bytes \<Rightarrow> tpm_token option"

definition enc_call :: "enc_op \<Rightarrow> (enc_trace \<Rightarrow> 'a option) \<Rightarrow> 'a enc" where
  "enc_call c f = tcall c (CallFailed c) f"

definition do_luks :: "enc_env \<Rightarrow> enc_op \<Rightarrow> unit enc" where
  "do_luks E c = enc_call c (\<lambda>h. luks_done E h c)"

section \<open>Key handlers\<close>

datatype key_handler =
    StaticKeyHandler int bytes
  | NodeIDKeyHandler int string
  | KMSKeyHandler int string
  | TPMKeyHandler int bool "int list"
  | SaltedHandler key_handler

fun handler_Slot :: "key_handler \<Rightarrow> int" where
  "handler_Slot (StaticKeyHandler slot _) = slot"
| "handler_Slot (NodeIDKeyHandler slot _) = slot"
| "handler_Slot (KMSKeyHandler slot _) = slot"
| "handler_Slot (TPMKeyHandler slot _ _) = slot"
| "handler_Slot (SaltedHandler wrapped) = handler_Slot wrapped"

text \<open>The helpers a handler may need, as far as they are set.\<close>

record helpers_set =
  HasSystemInformation :: bool
  HasTPMLocker :: bool
  HasSaltGetter :: bool

definition base_handler :: "helpers_set \<Rightarrow> string \<Rightarrow> key_config \<Rightarrow> enc_error + key_handler" where
  "base_handler hs volumeID cfg =
     (case KeyType cfg of
        EncryptionKeyStatic \<Rightarrow>
          (case StaticPassphrase cfg of None \<Rightarrow> Inl NoStaticKey | Some k \<Rightarrow> Inr (StaticKeyHandler (Slot cfg) k))
      | EncryptionKeyNodeID \<Rightarrow>
          if \<not> HasSystemInformation hs then Inl (NoSystemInfoGetter (Slot cfg)) else Inr (NodeIDKeyHandler (Slot cfg) volumeID)
      | EncryptionKeyKMS \<Rightarrow>
          if \<not> HasSystemInformation hs then Inl (NoSystemInfoGetter (Slot cfg)) else Inr (KMSKeyHandler (Slot cfg) (KMSEndpoint cfg))
      | EncryptionKeyTPM \<Rightarrow>
          if \<not> HasTPMLocker hs then Inl (NoTPMLocker (Slot cfg))
          else Inr (TPMKeyHandler (Slot cfg) (TPMCheckSecurebootStatusOnEnroll cfg) (TPMPCRs cfg)))"

definition keys_NewHandler :: "helpers_set \<Rightarrow> string \<Rightarrow> key_config \<Rightarrow> enc_error + key_handler" where
  "keys_NewHandler hs volumeID cfg =
     (case base_handler hs volumeID cfg of
        Inl e \<Rightarrow> Inl e
      | Inr handler \<Rightarrow>
          if LockToSTATE cfg
          then (if \<not> HasSaltGetter hs then Inl (NoSaltGetter (Slot cfg)) else Inr (SaltedHandler handler))
          else Inr handler)"

text \<open>The check of the entropy, character by character; a UUID is ASCII.\<close>

fun entropy_loop :: "(char \<Rightarrow> nat) \<Rightarrow> nat \<Rightarrow> string \<Rightarrow> bool" where
  "entropy_loop counts n [] = True"
| "entropy_loop counts n (s # ss) =
     (let counts = counts(s := counts s + 1)
      in if counts s > n div 2 then False else entropy_loop counts n ss)"

definition node_id_key :: "enc_env \<Rightarrow> int \<Rightarrow> string \<Rightarrow> enc_key enc" where
  "node_id_key E slot partitionLabel =
     tbind (enc_call SystemInformation (system_uuid E)) (\<lambda>nodeUUID.
       if nodeUUID = '''' then tfail UUIDNotPopulated
       else if \<not> entropy_loop (\<lambda>_. 0) (length nodeUUID) nodeUUID then tfail EntropyCheckFailed
       else tret \<lparr>KSlot = slot, KValue = string_bytes (nodeUUID @ partitionLabel)\<rparr>)"

definition static_key :: "int \<Rightarrow> bytes \<Rightarrow> enc_key enc" where
  "static_key slot d = tret \<lparr>KSlot = slot, KValue = d\<rparr>"

definition kms_GetKey :: "enc_env \<Rightarrow> int \<Rightarrow> string \<Rightarrow> luks_token option \<Rightarrow> enc_key enc" where
  "kms_GetKey E slot endpoint t =
     (case t of
        Some (KMSToken sealedData) \<Rightarrow>
          tseq (enc_call (KMSDial endpoint) (\<lambda>h. kms_dial E h endpoint))
          (tbind (enc_call SystemInformation (system_uuid E)) (\<lambda>uuid.
           tbind (enc_call (KMSUnseal uuid sealedData) (\<lambda>h. kms_unseal E h uuid sealedData)) (\<lambda>d.
           tret \<lparr>KSlot = slot, KValue = EncodeToString d\<rparr>)))
      | _ \<Rightarrow> tfail TokenInvalid)"

definition tpm_GetKey :: "enc_env \<Rightarrow> int \<Rightarrow> luks_token option \<Rightarrow> enc_key enc" where
  "tpm_GetKey E slot t =
     (case t of
        Some (TPMToken u) \<Rightarrow>
          tbind (enc_call (TPMUnseal (TokenSealed u)) (\<lambda>h. tpm_unseal E h (TokenSealed u))) (\<lambda>key.
          tret \<lparr>KSlot = slot, KValue = EncodeToString key\<rparr>)
      | _ \<Rightarrow> tfail TokenInvalid)"

definition salted_GetKey :: "enc_env \<Rightarrow> enc_key enc \<Rightarrow> enc_key enc" where
  "salted_GetKey E wrapped =
     tbind wrapped (\<lambda>key.
     tbind (enc_call Salt (salt_of E)) (\<lambda>salt.
     tret (key\<lparr>KValue := KValue key @ salt\<rparr>)))"

fun GetKey :: "enc_env \<Rightarrow> key_handler \<Rightarrow> luks_token option \<Rightarrow> enc_key enc" where
  "GetKey E (StaticKeyHandler slot d) t = static_key slot d"
| "GetKey E (NodeIDKeyHandler slot partitionLabel) t = node_id_key E slot partitionLabel"
| "GetKey E (KMSKeyHandler slot endpoint) t = kms_GetKey E slot endpoint t"
| "GetKey E (TPMKeyHandler slot check pcrs) t = tpm_GetKey E slot t"
| "GetKey E (SaltedHandler wrapped) t = salted_GetKey E (GetKey E wrapped t)"

definition tpm_enroll_checks :: "enc_env \<Rightarrow> bool \<Rightarrow> unit enc" where
  "tpm_enroll_checks E check =
     (if check then
        tbind (enc_call GetSecureBoot (\<lambda>h. Some (secure_boot E h))) (\<lambda>sb.
          if \<not> sb then tfail SecureBootDisabled
          else tbind (enc_call GetSetupMode (\<lambda>h. Some (setup_mode E h))) (\<lambda>sm. if sm then tfail SetupModeEnabled else tret ()))
      else tret ())"

definition static_NewKey :: "enc_key enc \<Rightarrow> (enc_key \<times> luks_token option) enc" where
  "static_NewKey get = tbind get (\<lambda>k. tret (k, None))"

definition kms_NewKey :: "enc_env \<Rightarrow> int \<Rightarrow> string \<Rightarrow> (enc_key \<times> luks_token option) enc" where
  "kms_NewKey E slot endpoint =
     tseq (enc_call (KMSDial endpoint) (\<lambda>h. kms_dial E h endpoint))
     (tbind (enc_call RandomRead (random_key E)) (\<lambda>key.
      tbind (enc_call SystemInformation (system_uuid E)) (\<lambda>uuid.
      tbind (enc_call (KMSSeal uuid key) (\<lambda>h. kms_seal E h uuid key)) (\<lambda>d.
      tret (\<lparr>KSlot = slot, KValue = EncodeToString key\<rparr>, Some (KMSToken d))))))"

definition tpm_NewKey :: "enc_env \<Rightarrow> int \<Rightarrow> bool \<Rightarrow> int list \<Rightarrow> (enc_key \<times> luks_token option) enc" where
  "tpm_NewKey E slot check pcrs =
     tseq (tpm_enroll_checks E check)
     (tbind (enc_call RandomRead (random_key E)) (\<lambda>key.
      tbind (enc_call (TPMSeal key pcrs) (\<lambda>h. tpm_seal E h key pcrs)) (\<lambda>resp.
      tret (\<lparr>KSlot = slot, KValue = EncodeToString key\<rparr>, Some (TPMToken \<lparr>KeySlots = [slot], TokenSealed = resp\<rparr>)))))"

definition salted_NewKey :: "enc_env \<Rightarrow> (enc_key \<times> luks_token option) enc \<Rightarrow> (enc_key \<times> luks_token option) enc" where
  "salted_NewKey E wrapped =
     tbind wrapped (\<lambda>(key, token).
     tbind (enc_call Salt (salt_of E)) (\<lambda>salt.
     tret (key\<lparr>KValue := KValue key @ salt\<rparr>, token)))"

fun NewKey :: "enc_env \<Rightarrow> key_handler \<Rightarrow> (enc_key \<times> luks_token option) enc" where
  "NewKey E (StaticKeyHandler slot d) = static_NewKey (static_key slot d)"
| "NewKey E (NodeIDKeyHandler slot partitionLabel) = static_NewKey (node_id_key E slot partitionLabel)"
| "NewKey E (KMSKeyHandler slot endpoint) = kms_NewKey E slot endpoint"
| "NewKey E (TPMKeyHandler slot check pcrs) = tpm_NewKey E slot check pcrs"
| "NewKey E (SaltedHandler wrapped) = salted_NewKey E (NewKey E wrapped)"

text \<open>The handlers are unfolded in the proofs about them.\<close>

lemmas handler_keys [simp] =
  static_key_def kms_GetKey_def tpm_GetKey_def salted_GetKey_def static_NewKey_def kms_NewKey_def tpm_NewKey_def salted_NewKey_def

section \<open>NewHandler\<close>

fun new_handlers :: "helpers_set \<Rightarrow> string \<Rightarrow> key_config list \<Rightarrow> enc_error + key_handler list" where
  "new_handlers hs volumeID [] = Inr []"
| "new_handlers hs volumeID (cfg # cfgs) =
     (case keys_NewHandler hs volumeID cfg of
        Inl e \<Rightarrow> Inl e
      | Inr handler \<Rightarrow>
          (case new_handlers hs volumeID cfgs of
             Inl e \<Rightarrow> Inl e
           | Inr handlers \<Rightarrow> Inr (handler # handlers)))"

text \<open>The handlers in the order of their slots; the configuration has no slot twice, so the order is the only
  one. Which ciphers and options there are is the LUKS library's.\<close>

definition NewHandler ::
    "(string \<Rightarrow> bool) \<Rightarrow> (string \<Rightarrow> bool) \<Rightarrow> cipher_config \<Rightarrow> string \<Rightarrow> helpers_set \<Rightarrow> enc_error + key_handler list" where
  "NewHandler cipher_ok perf_ok cfg volumeID hs =
     (if \<not> cipher_ok (Cipher cfg) then Inl BadCipher
      else if (case PerfOptions cfg of None \<Rightarrow> False | Some opts \<Rightarrow> \<not> list_all perf_ok opts) then Inl BadPerfOption
      else
        (case new_handlers hs volumeID (KeyConfigs cfg) of
           Inl e \<Rightarrow> Inl e
         | Inr handlers \<Rightarrow> Inr (sort_key handler_Slot handlers)))"

section \<open>Handler\<close>

fun try_loop :: "(key_handler \<Rightarrow> 'a enc) \<Rightarrow> key_handler list \<Rightarrow> enc_error list \<Rightarrow> (key_handler \<times> 'a) enc" where
  "try_loop cb [] errs = tfail (NoHandlers errs)"
| "try_loop cb (h # hs) errs =
     tbind (tresult (cb h)) (\<lambda>r. case r of Inl e \<Rightarrow> try_loop cb hs (errs @ [e]) | Inr x \<Rightarrow> tret (h, x))"

definition tryHandlers :: "(key_handler \<Rightarrow> 'a enc) \<Rightarrow> key_handler list \<Rightarrow> (key_handler \<times> 'a) enc" where
  "tryHandlers cb hs = (if hs = [] then tfail NoKeysFound else try_loop cb hs [])"

definition readToken :: "enc_env \<Rightarrow> string \<Rightarrow> int \<Rightarrow> luks_token option enc" where
  "readToken E path i =
     tbind (enc_call (LuksReadToken path i) (\<lambda>h. read_token E h path i)) (\<lambda>t.
       case t of
         NoToken \<Rightarrow> tret None
       | RawToken ty userData \<Rightarrow>
           if ty = TokenTypeKMS then
             (case parse_kms E userData of None \<Rightarrow> tfail TokenMalformed | Some d \<Rightarrow> tret (Some (KMSToken d)))
           else if ty = TokenTypeTPM then
             (case parse_tpm E userData of None \<Rightarrow> tfail TokenMalformed | Some u \<Rightarrow> tret (Some (TPMToken u)))
           else tfail (UnknownTokenType ty))"

definition set_new_token :: "enc_env \<Rightarrow> string \<Rightarrow> enc_key \<Rightarrow> luks_token option \<Rightarrow> unit enc" where
  "set_new_token E path key token =
     (case token of None \<Rightarrow> tret () | Some t \<Rightarrow> do_luks E (LuksSetToken path (KSlot key) t))"

definition addKey :: "enc_env \<Rightarrow> string \<Rightarrow> enc_key option \<Rightarrow> key_handler \<Rightarrow> unit enc" where
  "addKey E path existingKey handler =
     tbind (NewKey E handler) (\<lambda>(key, token).
     tseq (set_new_token E path key token)
     (do_luks E (LuksAddKey path existingKey key)))"

text \<open>checkKey: a token of another type is no error, the key is not valid then.\<close>

definition checkKey :: "enc_env \<Rightarrow> string \<Rightarrow> key_handler \<Rightarrow> bool enc" where
  "checkKey E path handler =
     tbind (readToken E path (handler_Slot handler)) (\<lambda>token.
     tbind (tresult (GetKey E handler token)) (\<lambda>r.
       case r of
         Inl e \<Rightarrow> if e = TokenInvalid then tret False else tfail e
       | Inr key \<Rightarrow> enc_call (LuksCheckKey path key) (\<lambda>h. check_key E h path key)))"

definition updateKey :: "enc_env \<Rightarrow> string \<Rightarrow> enc_key option \<Rightarrow> key_handler \<Rightarrow> unit enc" where
  "updateKey E path existingKey handler =
     tbind (checkKey E path handler) (\<lambda>valid.
       if valid then tret ()
       else tseq (do_luks E (LuksRemoveKey path (handler_Slot handler) existingKey)) (addKey E path existingKey handler))"

datatype failed_sync = UpdateFailed int enc_error | AddFailed int enc_error | RemoveFailed string enc_error

text \<open>The loop over the handlers, and the loop over the slots without one, in the order of the map. The
  latter reads the used key for its log line.\<close>

fun sync_handlers :: "enc_env \<Rightarrow> string \<Rightarrow> enc_key option \<Rightarrow> string list \<Rightarrow> key_handler list \<Rightarrow> failed_sync list \<Rightarrow> failed_sync list enc" where
  "sync_handlers E path k keyslots [] failedSyncs = tret failedSyncs"
| "sync_handlers E path k keyslots (handler # hs) failedSyncs =
     (let slot = handler_Slot handler
      in if (case k of None \<Rightarrow> False | Some used \<Rightarrow> KSlot used = slot) then sync_handlers E path k keyslots hs failedSyncs
         else if Itoa slot \<in> set keyslots then
           tbind (tresult (updateKey E path k handler)) (\<lambda>r.
             sync_handlers E path k keyslots hs (failedSyncs @ (case r of Inl e \<Rightarrow> [UpdateFailed slot e] | Inr _ \<Rightarrow> [])))
         else
           tbind (tresult (addKey E path k handler)) (\<lambda>r.
             sync_handlers E path k keyslots hs (failedSyncs @ (case r of Inl e \<Rightarrow> [AddFailed slot e] | Inr _ \<Rightarrow> []))))"

fun clean_slots :: "enc_env \<Rightarrow> string \<Rightarrow> enc_key option \<Rightarrow> string list \<Rightarrow> string list \<Rightarrow> failed_sync list \<Rightarrow> failed_sync list enc" where
  "clean_slots E path k visited [] failedSyncs = tret failedSyncs"
| "clean_slots E path k visited (slot # slots) failedSyncs =
     (if slot \<in> set visited then clean_slots E path k visited slots failedSyncs
      else
        (case ParseInt slot of
           None \<Rightarrow> tfail (BadSlot slot)
         | Some s \<Rightarrow>
             tbind (tresult (do_luks E (LuksRemoveKey path s k))) (\<lambda>r.
               case r of
                 Inl e \<Rightarrow> clean_slots E path k visited slots (failedSyncs @ [RemoveFailed slot e])
               | Inr _ \<Rightarrow> if k = None then tfail HandlerPanic else clean_slots E path k visited slots failedSyncs)))"

definition syncKeys :: "enc_env \<Rightarrow> key_handler list \<Rightarrow> string \<Rightarrow> enc_key option \<Rightarrow> failed_sync list enc" where
  "syncKeys E hs path k =
     tbind (enc_call (LuksReadKeyslots path) (\<lambda>h. read_keyslots E h path)) (\<lambda>keyslots.
     tbind (sync_handlers E path k keyslots hs []) (\<lambda>failedSyncs.
     clean_slots E path k (map (\<lambda>h. Itoa (handler_Slot h)) hs) keyslots failedSyncs))"

definition open_with :: "enc_env \<Rightarrow> string \<Rightarrow> string \<Rightarrow> key_handler \<Rightarrow> (string \<times> enc_key) enc" where
  "open_with E devicePath mappedName handler =
     tbind (readToken E devicePath (handler_Slot handler)) (\<lambda>slotToken.
     tbind (GetKey E handler slotToken) (\<lambda>slotKey.
     tbind (enc_call (LuksOpen devicePath mappedName slotKey) (\<lambda>h. open_luks E h devicePath mappedName slotKey)) (\<lambda>path.
     tret (path, slotKey))))"

text \<open>Open: no key is known when the device is open already, and the result reads its slot.\<close>

definition Handler_Open :: "enc_env \<Rightarrow> key_handler list \<Rightarrow> string \<Rightarrow> string \<Rightarrow> (string \<times> int \<times> failed_sync list) enc" where
  "Handler_Open E hs devicePath mappedName =
     tbind (enc_call (LuksIsOpen devicePath mappedName) (\<lambda>h. luks_is_open E h devicePath mappedName)) (\<lambda>(isOpen, path).
     tbind (if isOpen then tret (path, None)
            else tbind (tryHandlers (open_with E devicePath mappedName) hs) (\<lambda>(_, p, key). tret (p, Some key))) (\<lambda>(path, usedKey).
     tbind (syncKeys E hs devicePath usedKey) (\<lambda>failedSyncs.
       case usedKey of
         None \<Rightarrow> tfail HandlerPanic
       | Some key \<Rightarrow> tret (path, KSlot key, failedSyncs))))"

definition Handler_Close :: "enc_env \<Rightarrow> string \<Rightarrow> unit enc" where
  "Handler_Close E encryptedPath =
     enc_call (LuksClose encryptedPath) (\<lambda>h. case close_luks E h encryptedPath of CloseFailed \<Rightarrow> None | _ \<Rightarrow> Some ())"

fun add_keys :: "enc_env \<Rightarrow> string \<Rightarrow> enc_key \<Rightarrow> key_handler list \<Rightarrow> unit enc" where
  "add_keys E path key [] = tret ()"
| "add_keys E path key (handler # hs) =
     (if handler_Slot handler = KSlot key then add_keys E path key hs
      else tseq (addKey E path (Some key) handler) (add_keys E path key hs))"

definition Handler_FormatAndEncrypt :: "enc_env \<Rightarrow> key_handler list \<Rightarrow> string \<Rightarrow> unit enc" where
  "Handler_FormatAndEncrypt E hs path =
     tbind (tryHandlers (NewKey E) hs) (\<lambda>(_, key, token).
     tseq (do_luks E (LuksEncrypt path key))
     (tseq (set_new_token E path key token)
     (add_keys E path key hs)))"

section \<open>The header of an encrypted device\<close>

text \<open>What the key slots and the tokens of a device hold, as a function of the calls that succeeded.\<close>

fun slots_step :: "string \<Rightarrow> enc_op \<Rightarrow> (int \<rightharpoonup> bytes) \<Rightarrow> (int \<rightharpoonup> bytes)" where
  "slots_step dev (LuksEncrypt d k) m = (if d = dev then [KSlot k \<mapsto> KValue k] else m)"
| "slots_step dev (LuksAddKey d e k) m = (if d = dev then m(KSlot k \<mapsto> KValue k) else m)"
| "slots_step dev (LuksRemoveKey d s e) m = (if d = dev then m(s := None) else m)"
| "slots_step dev c m = m"

primrec keyslots :: "string \<Rightarrow> (int \<rightharpoonup> bytes) \<Rightarrow> enc_trace \<Rightarrow> (int \<rightharpoonup> bytes)" where
  "keyslots dev i [] = i"
| "keyslots dev i (e # h) = (if snd e then slots_step dev (fst e) (keyslots dev i h) else keyslots dev i h)"

fun tokens_step :: "string \<Rightarrow> enc_op \<Rightarrow> (int \<rightharpoonup> luks_token) \<Rightarrow> (int \<rightharpoonup> luks_token)" where
  "tokens_step dev (LuksEncrypt d k) m = (if d = dev then Map.empty else m)"
| "tokens_step dev (LuksSetToken d s t) m = (if d = dev then m(s \<mapsto> t) else m)"
| "tokens_step dev (LuksRemoveKey d s e) m = (if d = dev then m(s := None) else m)"
| "tokens_step dev c m = m"

primrec tokens :: "string \<Rightarrow> (int \<rightharpoonup> luks_token) \<Rightarrow> enc_trace \<Rightarrow> (int \<rightharpoonup> luks_token)" where
  "tokens dev j [] = j"
| "tokens dev j (e # h) = (if snd e then tokens_step dev (fst e) (tokens dev j h) else tokens dev j h)"

fun stands_for :: "enc_env \<Rightarrow> raw_token \<Rightarrow> luks_token option \<Rightarrow> bool" where
  "stands_for E NoToken t = (t = None)"
| "stands_for E (RawToken ty u) t =
     ((\<exists>d. t = Some (KMSToken d) \<and> ty = TokenTypeKMS \<and> parse_kms E u = Some d) \<or>
      (\<exists>k. t = Some (TPMToken k) \<and> ty = TokenTypeTPM \<and> parse_tpm E u = Some k))"

text \<open>What the LUKS library documents: its answers are those of the header. \<open>i\<close> and \<open>j\<close> are the slots and the
  tokens at first.\<close>

definition luks_header :: "enc_env \<Rightarrow> string \<Rightarrow> (int \<rightharpoonup> bytes) \<Rightarrow> (int \<rightharpoonup> luks_token) \<Rightarrow> bool" where
  "luks_header E dev i j \<longleftrightarrow>
     (\<forall>h ss. read_keyslots E h dev = Some ss \<longrightarrow>
        set ss = Itoa ` dom (keyslots dev i h) \<and> (\<forall>s \<in> dom (keyslots dev i h). in_int64 s)) \<and>
     (\<forall>h s t. read_token E h dev s = Some t \<longrightarrow> stands_for E t (tokens dev j h s)) \<and>
     (\<forall>h k b. check_key E h dev k = Some b \<longrightarrow> b = (keyslots dev i h (KSlot k) = Some (KValue k))) \<and>
     (\<forall>h m k p. open_luks E h dev m k = Some p \<longrightarrow> keyslots dev i h (KSlot k) = Some (KValue k))"

fun touches :: "int \<Rightarrow> enc_op \<Rightarrow> bool" where
  "touches s (LuksEncrypt d k) = True"
| "touches s (LuksAddKey d e k) = (KSlot k = s)"
| "touches s (LuksSetToken d s' t) = (s' = s)"
| "touches s (LuksRemoveKey d s' e) = (s' = s)"
| "touches s c = False"

abbreviation spares :: "int \<Rightarrow> enc_op \<Rightarrow> bool" where
  "spares s c \<equiv> \<not> touches s c"

lemma slots_step_spared: "spares s c \<Longrightarrow> slots_step dev c m s = m s"
  by (induction s c rule: touches.induct) auto

lemma tokens_step_spared: "spares s c \<Longrightarrow> tokens_step dev c m s = m s"
  by (induction s c rule: touches.induct) auto

lemma spared: "\<forall>(c, b) \<in> set new. spares s c \<Longrightarrow>
    keyslots dev i (new @ h) s = keyslots dev i h s \<and> tokens dev j (new @ h) s = tokens dev j h s"
  by (induction new) (auto simp: slots_step_spared tokens_step_spared)

lemma spared_run:
  assumes "calls_in (spares s) m" "m h = (r, h')"
  shows "keyslots dev i h' s = keyslots dev i h s" "tokens dev j h' s = tokens dev j h s"
proof -
  obtain new where "h' = new @ h" "\<forall>(c, b) \<in> set new. spares s c" using assms by (rule calls_inE)
  then show "keyslots dev i h' s = keyslots dev i h s" "tokens dev j h' s = tokens dev j h s"
    using spared [of new s dev i h j] by simp_all
qed

section \<open>The slots that a step touches\<close>

definition reads :: "'a enc \<Rightarrow> bool" where
  "reads m \<longleftrightarrow> (\<forall>s. calls_in (spares s) m)"

lemma reads_spares: "reads m \<Longrightarrow> calls_in (spares s) m"
  by (simp add: reads_def)

lemma reads_run: "reads m \<Longrightarrow> m h = (r, h') \<Longrightarrow> keyslots dev i h' = keyslots dev i h \<and> tokens dev j h' = tokens dev j h"
  by (intro conjI ext spared_run [OF reads_spares])

lemma reads_node_id: "reads (node_id_key E slot l)"
  unfolding reads_def node_id_key_def enc_call_def by (auto intro!: calls_intros)

lemma reads_GetKey: "reads (GetKey E g t)"
proof (induction g)
  case (SaltedHandler w)
  then show ?case unfolding reads_def by (auto simp: enc_call_def intro!: calls_intros)
qed (auto simp: reads_def enc_call_def intro!: calls_intros reads_spares [OF reads_node_id] split: option.splits luks_token.splits)

lemma reads_NewKey: "reads (NewKey E g)"
proof (induction g)
  case (SaltedHandler w)
  then show ?case unfolding reads_def by (auto simp: enc_call_def intro!: calls_intros)
qed (auto simp: reads_def enc_call_def tpm_enroll_checks_def intro!: calls_intros reads_spares [OF reads_node_id])

lemma reads_readToken: "reads (readToken E path s)"
  unfolding reads_def readToken_def enc_call_def
  by (auto intro!: calls_intros split: raw_token.splits)

lemma reads_checkKey: "reads (checkKey E path g)"
  unfolding reads_def checkKey_def enc_call_def
  by (auto intro!: calls_intros reads_spares [OF reads_GetKey] reads_spares [OF reads_readToken])

lemma reads_open_with: "reads (open_with E dev m g)"
  unfolding reads_def open_with_def enc_call_def
  by (auto intro!: calls_intros reads_spares [OF reads_GetKey] reads_spares [OF reads_readToken])

lemma reads_try_loop: "(\<And>g. g \<in> set hs \<Longrightarrow> reads (cb g)) \<Longrightarrow> reads (try_loop cb hs errs)"
  unfolding reads_def by (induction hs arbitrary: errs) (auto intro!: calls_intros)

lemma reads_tryHandlers: "(\<And>g. reads (cb g)) \<Longrightarrow> reads (tryHandlers cb hs)"
  unfolding tryHandlers_def using reads_try_loop [of hs cb "[]"] by (auto simp: reads_def intro: calls_tfail)

lemma NewKey_slot: "NewKey E g h = (Inr (k, t), h') \<Longrightarrow> KSlot k = handler_Slot g"
  by (induction g arbitrary: h h' k t) (auto simp: returns_simps node_id_key_def enc_call_def split: if_splits)

lemma GetKey_slot: "GetKey E g t h = (Inr k, h') \<Longrightarrow> KSlot k = handler_Slot g"
  by (induction g arbitrary: h h' k)
    (auto simp: returns_simps node_id_key_def enc_call_def split: if_splits option.splits luks_token.splits)

lemma addKey_spares: "handler_Slot g \<noteq> s \<Longrightarrow> calls_in (spares s) (addKey E path e g)"
  unfolding addKey_def set_new_token_def do_luks_def enc_call_def
  by (auto intro!: calls_intros reads_spares [OF reads_NewKey] dest: NewKey_slot)

lemma updateKey_spares: "handler_Slot g \<noteq> s \<Longrightarrow> calls_in (spares s) (updateKey E path e g)"
  unfolding updateKey_def do_luks_def enc_call_def
  by (auto intro!: calls_intros reads_spares [OF reads_checkKey] addKey_spares)

lemma sync_handlers_spares:
  "\<forall>g \<in> set hs. handler_Slot g \<noteq> s \<or> (\<exists>used. k = Some used \<and> KSlot used = s) \<Longrightarrow>
     calls_in (spares s) (sync_handlers E path k ks hs failed)"
proof (induction hs arbitrary: failed)
  case (Cons g hs)
  then show ?case
    by (cases k) (auto simp: Let_def intro!: calls_intros updateKey_spares addKey_spares)
qed (simp add: calls_tret)

lemma clean_slots_spares:
  assumes "\<forall>slot \<in> set slots. \<exists>n. in_int64 n \<and> slot = Itoa n" and "Itoa s \<in> set visited \<or> Itoa s \<notin> set slots"
  shows "calls_in (spares s) (clean_slots E path k visited slots failed)"
  using assms
proof (induction slots arbitrary: failed)
  case (Cons slot slots)
  obtain n where n: "in_int64 n" "slot = Itoa n" using Cons.prems(1) by auto
  have "n \<noteq> s" if "slot \<notin> set visited" using that Cons.prems(2) n by auto
  then show ?case using Cons n by (auto simp: ParseInt_Itoa do_luks_def enc_call_def intro!: calls_intros)
qed (simp add: calls_tret)


lemma header_slots:
  assumes "luks_header E dev i j" "read_keyslots E h dev = Some ss"
  shows "set ss = Itoa ` dom (keyslots dev i h)" "\<forall>slot \<in> set ss. \<exists>n. in_int64 n \<and> slot = Itoa n"
proof -
  have "set ss = Itoa ` dom (keyslots dev i h) \<and> (\<forall>s \<in> dom (keyslots dev i h). in_int64 s)"
    using assms unfolding luks_header_def by blast
  then show "set ss = Itoa ` dom (keyslots dev i h)" "\<forall>slot \<in> set ss. \<exists>n. in_int64 n \<and> slot = Itoa n" by auto
qed

lemma header_open: "luks_header E dev i j \<Longrightarrow> open_luks E h dev m k = Some p \<Longrightarrow> keyslots dev i h (KSlot k) = Some (KValue k)"
  unfolding luks_header_def by blast

lemma header_check: "luks_header E dev i j \<Longrightarrow> check_key E h dev k = Some b \<Longrightarrow> b = (keyslots dev i h (KSlot k) = Some (KValue k))"
  unfolding luks_header_def by blast

lemma header_token: "luks_header E dev i j \<Longrightarrow> read_token E h dev s = Some t \<Longrightarrow> stands_for E t (tokens dev j h s)"
  unfolding luks_header_def by blast

lemma syncKeys_spares:
  assumes "luks_header E dev i j" "KSlot used \<in> handler_Slot ` set hs"
  shows "calls_in (spares (KSlot used)) (syncKeys E hs dev (Some used))"
  unfolding syncKeys_def enc_call_def
proof (intro calls_tbind calls_tcall)
  fix ss h h' assume "tcall (LuksReadKeyslots dev) (CallFailed (LuksReadKeyslots dev)) (\<lambda>h. read_keyslots E h dev) h = (Inr ss, h')"
  then have ss: "read_keyslots E h dev = Some ss" by (simp add: returns_simps)
  show "calls_in (spares (KSlot used)) (sync_handlers E dev (Some used) ss hs [])" by (rule sync_handlers_spares) auto
  fix failed
  show "calls_in (spares (KSlot used)) (clean_slots E dev (Some used) (map (\<lambda>h. Itoa (handler_Slot h)) hs) ss failed)"
    by (rule clean_slots_spares [OF header_slots(2) [OF assms(1) ss]]) (use assms(2) in auto)
qed simp

lemma try_loop_returns: "try_loop cb hs errs h = (Inr (g, x), h') \<Longrightarrow> \<exists>h0. g \<in> set hs \<and> cb g h0 = (Inr x, h')"
proof (induction hs arbitrary: errs h)
  case (Cons a hs)
  then obtain r h1 where r: "cb a h = (r, h1)"
    and rest: "(case r of Inl e \<Rightarrow> try_loop cb hs (errs @ [e]) | Inr x \<Rightarrow> tret (a, x)) h1 = (Inr (g, x), h')"
    by (auto simp: returns_simps)
  show ?case
  proof (cases r)
    case (Inl e)
    then show ?thesis using Cons.IH rest by fastforce
  next
    case (Inr y)
    then show ?thesis using r rest by (auto simp: returns_simps)
  qed
qed (simp add: returns_simps)

lemma tryHandlers_returns: "tryHandlers cb hs h = (Inr (g, x), h') \<Longrightarrow> \<exists>h0. g \<in> set hs \<and> cb g h0 = (Inr x, h')"
  by (auto simp: tryHandlers_def returns_simps dest: try_loop_returns split: if_splits)

lemma open_with_opens:
  assumes "luks_header E dev i j" "open_with E dev m g h = (Inr (p, key), h')"
  shows "KSlot key = handler_Slot g" "keyslots dev i h' (KSlot key) = Some (KValue key)"
proof -
  from assms(2) obtain h1 t h2 where k: "GetKey E g t h1 = (Inr key, h2)"
    and op: "open_luks E h2 dev m key = Some p" and h': "h' = (LuksOpen dev m key, True) # h2"
    by (auto simp: open_with_def enc_call_def returns_simps)
  show "KSlot key = handler_Slot g" by (rule GetKey_slot [OF k])
  show "keyslots dev i h' (KSlot key) = Some (KValue key)" using header_open [OF assms(1) op] h' by simp
qed

section \<open>Properties\<close>



section \<open>Which keys a handler recovers\<close>

text \<open>What the code relies on for its keys: the machine's UUID and the salt do not change, and unsealing gives
  back what was sealed (\<open>U\<close> and \<open>V\<close> are what KMS and TPM unseal). Any of the calls may fail.\<close>

definition key_laws :: "enc_env \<Rightarrow> string \<Rightarrow> bytes \<Rightarrow> (string \<Rightarrow> bytes \<Rightarrow> bytes) \<Rightarrow> (sealed \<Rightarrow> bytes) \<Rightarrow> bool" where
  "key_laws E uuid salt U V \<longleftrightarrow>
     (\<forall>h u. system_uuid E h = Some u \<longrightarrow> u = uuid) \<and> (\<forall>h s. salt_of E h = Some s \<longrightarrow> s = salt) \<and>
     (\<forall>h u d k. kms_unseal E h u d = Some k \<longrightarrow> U u d = k) \<and> (\<forall>h u k d. kms_seal E h u k = Some d \<longrightarrow> U u d = k) \<and>
     (\<forall>h r k. tpm_unseal E h r = Some k \<longrightarrow> V r = k) \<and> (\<forall>h k pcrs r. tpm_seal E h k pcrs = Some r \<longrightarrow> V r = k)"

definition uuid_usable :: "string \<Rightarrow> bool" where
  "uuid_usable uuid \<longleftrightarrow> uuid \<noteq> '''' \<and> (\<forall>c. count_list uuid c \<le> length uuid div 2)"

text \<open>The loop of the entropy check stops at the first character that makes up more than half of the UUID.\<close>

lemma entropy_loop_counts:
  "entropy_loop counts n s \<longleftrightarrow> (\<forall>c \<in> set s. counts c + count_list s c \<le> n div 2)"
proof (induction s arbitrary: counts)
  case (Cons a s)
  have eq: "(\<forall>c \<in> set s. (counts(a := counts a + 1)) c + count_list s c \<le> n div 2) \<and> counts a + 1 \<le> n div 2 \<longleftrightarrow>
      (\<forall>c \<in> set (a # s). counts c + count_list (a # s) c \<le> n div 2)"
    by (cases "a \<in> set s") (auto simp: count_notin)
  show ?case by (simp add: Let_def Cons.IH not_less del: set_simps count_list.simps flip: eq)
qed simp

lemma entropy_check: "uuid \<noteq> '''' \<and> entropy_loop (\<lambda>_. 0) (length uuid) uuid \<longleftrightarrow> uuid_usable uuid"
proof -
  have "(\<forall>c \<in> set uuid. count_list uuid c \<le> n) \<longleftrightarrow> (\<forall>c. count_list uuid c \<le> n)" for n
    by (metis count_notin zero_le)
  then show ?thesis by (simp add: entropy_loop_counts uuid_usable_def)
qed

fun key_from :: "string \<Rightarrow> bytes \<Rightarrow> (string \<Rightarrow> bytes \<Rightarrow> bytes) \<Rightarrow> (sealed \<Rightarrow> bytes) \<Rightarrow> key_handler \<Rightarrow> luks_token option \<Rightarrow> enc_key option" where
  "key_from uuid salt U V (StaticKeyHandler slot d) t = Some \<lparr>KSlot = slot, KValue = d\<rparr>"
| "key_from uuid salt U V (NodeIDKeyHandler slot l) t =
     (if uuid_usable uuid then Some \<lparr>KSlot = slot, KValue = string_bytes (uuid @ l)\<rparr> else None)"
| "key_from uuid salt U V (KMSKeyHandler slot endpoint) t =
     (case t of Some (KMSToken d) \<Rightarrow> Some \<lparr>KSlot = slot, KValue = EncodeToString (U uuid d)\<rparr> | _ \<Rightarrow> None)"
| "key_from uuid salt U V (TPMKeyHandler slot check pcrs) t =
     (case t of Some (TPMToken u) \<Rightarrow> Some \<lparr>KSlot = slot, KValue = EncodeToString (V (TokenSealed u))\<rparr> | _ \<Rightarrow> None)"
| "key_from uuid salt U V (SaltedHandler w) t = map_option (\<lambda>k. k\<lparr>KValue := KValue k @ salt\<rparr>) (key_from uuid salt U V w t)"

lemma key_lawsD:
  assumes "key_laws E uuid salt U V"
  shows "system_uuid E h = Some u \<Longrightarrow> u = uuid" "salt_of E h = Some s \<Longrightarrow> s = salt"
    "kms_unseal E h u d = Some k \<Longrightarrow> U u d = k" "kms_seal E h u k = Some d \<Longrightarrow> U u d = k"
    "tpm_unseal E h r = Some k \<Longrightarrow> V r = k" "tpm_seal E h k pcrs = Some r \<Longrightarrow> V r = k"
  using assms unfolding key_laws_def by blast+

lemma node_id_returns:
  assumes "key_laws E uuid salt U V" "node_id_key E slot l h = (Inr k, h')"
  shows "uuid_usable uuid" "k = \<lparr>KSlot = slot, KValue = string_bytes (uuid @ l)\<rparr>"
  using assms(2) entropy_check [of uuid]
  by (auto simp: node_id_key_def enc_call_def returns_simps dest!: key_lawsD(1) [OF assms(1)] split: if_splits)

lemma GetKey_from:
  assumes "key_laws E uuid salt U V"
  shows "GetKey E g t h = (Inr k, h') \<Longrightarrow> key_from uuid salt U V g t = Some k"
proof (induction g arbitrary: h h' k)
  case (NodeIDKeyHandler slot l)
  then show ?case using node_id_returns [OF assms] by auto
qed (auto simp: enc_call_def returns_simps dest!: key_lawsD(1,2,3,5) [OF assms] split: option.splits luks_token.splits)

text \<open>A new key is recovered from its token; without a token, from any.\<close>

lemma NewKey_from:
  assumes "key_laws E uuid salt U V"
  shows "NewKey E g h = (Inr (k, t), h') \<Longrightarrow>
    key_from uuid salt U V g t = Some k \<and> (t = None \<longrightarrow> (\<forall>t'. key_from uuid salt U V g t' = Some k))"
proof (induction g arbitrary: h h' k)
  case (NodeIDKeyHandler slot l)
  then show ?case using node_id_returns [OF assms] by (auto simp: returns_simps)
qed (auto simp: enc_call_def returns_simps dest!: key_lawsD(1,2,4,6) [OF assms])


text \<open>A handler opens the device when its slot has the key that it recovers from the token there.\<close>

definition unlocks :: "string \<Rightarrow> bytes \<Rightarrow> (string \<Rightarrow> bytes \<Rightarrow> bytes) \<Rightarrow> (sealed \<Rightarrow> bytes) \<Rightarrow> (int \<rightharpoonup> bytes) \<Rightarrow> (int \<rightharpoonup> luks_token) \<Rightarrow> key_handler \<Rightarrow> bool" where
  "unlocks uuid salt U V slots toks g \<longleftrightarrow>
     (\<exists>k. key_from uuid salt U V g (toks (handler_Slot g)) = Some k \<and> slots (handler_Slot g) = Some (KValue k))"

lemma unlocks_cong:
  "slots (handler_Slot g) = slots' (handler_Slot g) \<Longrightarrow> toks (handler_Slot g) = toks' (handler_Slot g) \<Longrightarrow>
     unlocks uuid salt U V slots toks g = unlocks uuid salt U V slots' toks' g"
  by (simp add: unlocks_def)

lemma addKey_unlocks:
  assumes "key_laws E uuid salt U V" "addKey E dev e g h = (Inr u, h')"
  shows "unlocks uuid salt U V (keyslots dev i h') (tokens dev j h') g"
proof -
  from assms(2) obtain k t h1 h2 where new: "NewKey E g h = (Inr (k, t), h1)"
    and tok: "set_new_token E dev k t h1 = (Inr (), h2)" and h': "h' = (LuksAddKey dev e k, True) # h2"
    by (auto simp: addKey_def do_luks_def enc_call_def returns_simps)
  have slot: "KSlot k = handler_Slot g" by (rule NewKey_slot [OF new])
  note new_key = NewKey_from [OF assms(1) new]
  show ?thesis
  proof (cases t)
    case None
    then show ?thesis using new_key slot h' by (simp add: unlocks_def)
  next
    case (Some tk)
    then have "h2 = (LuksSetToken dev (KSlot k) tk, True) # h1" using tok by (simp add: set_new_token_def do_luks_def enc_call_def returns_simps)
    then show ?thesis using new_key slot h' Some by (simp add: unlocks_def)
  qed
qed

lemma readToken_reads:
  assumes "luks_header E dev i j" "readToken E dev s h = (Inr t, h')"
  shows "t = tokens dev j h s"
proof -
  from assms(2) obtain raw h1 where raw: "read_token E h dev s = Some raw"
    and rest: "(case raw of NoToken \<Rightarrow> tret None | RawToken ty userData \<Rightarrow>
           if ty = TokenTypeKMS then (case parse_kms E userData of None \<Rightarrow> tfail TokenMalformed | Some d \<Rightarrow> tret (Some (KMSToken d)))
           else if ty = TokenTypeTPM then (case parse_tpm E userData of None \<Rightarrow> tfail TokenMalformed | Some u \<Rightarrow> tret (Some (TPMToken u)))
           else tfail (UnknownTokenType ty)) h1 = (Inr t, h')"
    by (auto simp: readToken_def enc_call_def returns_simps)
  have "stands_for E raw (tokens dev j h s)" by (rule header_token [OF assms(1) raw])
  then show ?thesis
  proof (cases raw)
    case NoToken
    then show ?thesis using rest \<open>stands_for E raw (tokens dev j h s)\<close> by (simp add: returns_simps)
  next
    case (RawToken ty u)
    have "TokenTypeKMS \<noteq> TokenTypeTPM" by (simp add: TokenTypeKMS_def TokenTypeTPM_def)
    then show ?thesis
      using rest RawToken \<open>stands_for E raw (tokens dev j h s)\<close>
      by (auto simp: returns_simps split: if_split_asm option.split_asm)
  qed
qed

lemma checkKey_unlocks:
  assumes "luks_header E dev i j" "key_laws E uuid salt U V" "checkKey E dev g h = (Inr True, h')"
  shows "unlocks uuid salt U V (keyslots dev i h) (tokens dev j h) g"
proof -
  from assms(3) obtain t h1 r h2 where tok: "readToken E dev (handler_Slot g) h = (Inr t, h1)" and k: "GetKey E g t h1 = (r, h2)"
    and check: "(case r of Inl e \<Rightarrow> if e = TokenInvalid then tret False else tfail e
       | Inr key \<Rightarrow> enc_call (LuksCheckKey dev key) (\<lambda>h. check_key E h dev key)) h2 = (Inr True, h')"
    by (auto simp: checkKey_def returns_simps)
  from check obtain key where r: "r = Inr key" and ch: "check_key E h2 dev key = Some True"
    by (cases r) (auto simp: enc_call_def returns_simps split: if_splits)
  have "keyslots dev i h2 = keyslots dev i h"
    using reads_run [OF reads_readToken tok, of dev i j] reads_run [OF reads_GetKey k, of dev i j] by simp
  then show ?thesis
    using header_check [OF assms(1) ch] GetKey_from [OF assms(2) k [unfolded r]] GetKey_slot [OF k [unfolded r]]
      readToken_reads [OF assms(1) tok] by (simp add: unlocks_def)
qed

lemma updateKey_unlocks:
  assumes "luks_header E dev i j" "key_laws E uuid salt U V" "updateKey E dev e g h = (Inr u, h')"
  shows "unlocks uuid salt U V (keyslots dev i h') (tokens dev j h') g"
proof -
  from assms(3) obtain valid h1 where check: "checkKey E dev g h = (Inr valid, h1)"
    and rest: "(if valid then tret () else tseq (do_luks E (LuksRemoveKey dev (handler_Slot g) e)) (addKey E dev e g)) h1 = (Inr u, h')"
    by (auto simp: updateKey_def returns_simps)
  show ?thesis
  proof (cases valid)
    case True
    then have "h' = h1" using rest by (simp add: returns_simps)
    then show ?thesis
      using checkKey_unlocks [OF assms(1,2)] check True reads_run [OF reads_checkKey check, of dev i j] by simp
  next
    case False
    then obtain h2 where "addKey E dev e g h2 = (Inr u, h')" using rest by (auto simp: returns_simps)
    then show ?thesis by (rule addKey_unlocks [OF assms(2)])
  qed
qed

text \<open>The loop over the handlers reports an error for each that fails; without one, all of them unlock the
  device.\<close>

lemma sync_handlers_ok:
  assumes "luks_header E dev i j" "key_laws E uuid salt U V" "distinct (map handler_Slot hs)"
    and "sync_handlers E dev (Some used) ks hs acc h = (Inr acc', h')"
  shows "\<exists>new. acc' = acc @ new \<and>
    (new = [] \<longrightarrow> (\<forall>g \<in> set hs. handler_Slot g \<noteq> KSlot used \<longrightarrow> unlocks uuid salt U V (keyslots dev i h') (tokens dev j h') g))"
  using assms(3,4)
proof (induction hs arbitrary: acc h)
  case Nil
  then show ?case by (simp add: returns_simps)
next
  case (Cons g hs)
  have later: "unlocks uuid salt U V (keyslots dev i h') (tokens dev j h') g"
    if "unlocks uuid salt U V (keyslots dev i h1) (tokens dev j h1) g" "sync_handlers E dev (Some used) ks hs acc1 h1 = (Inr acc', h')" for acc1 h1
  proof -
    have "calls_in (spares (handler_Slot g)) (sync_handlers E dev (Some used) ks hs acc1)"
      by (rule sync_handlers_spares) (use Cons.prems(1) in \<open>auto simp: image_iff\<close>)
    from spared_run(1) [OF this that(2), of dev i] spared_run(2) [OF this that(2), of dev j] that(1) show ?thesis
      using unlocks_cong by metis
  qed
  consider "KSlot used = handler_Slot g" "sync_handlers E dev (Some used) ks hs acc h = (Inr acc', h')"
    | r h1 new where "sync_handlers E dev (Some used) ks hs (acc @ new) h1 = (Inr acc', h')"
        "new = [] \<longleftrightarrow> (\<exists>u. r = Inr u)" "updateKey E dev (Some used) g h = (r, h1) \<or> addKey E dev (Some used) g h = (r, h1)"
  proof (cases "KSlot used = handler_Slot g")
    case True
    then show thesis using that(1) Cons.prems(2) by simp
  next
    case False
    obtain ru hu where u: "updateKey E dev (Some used) g h = (ru, hu)" by (metis prod.exhaust)
    obtain ra ha where a: "addKey E dev (Some used) g h = (ra, ha)" by (metis prod.exhaust)
    show thesis
    proof (cases "Itoa (handler_Slot g) \<in> set ks")
      case True
      then have "sync_handlers E dev (Some used) ks hs (acc @ (case ru of Inl e \<Rightarrow> [UpdateFailed (handler_Slot g) e] | Inr _ \<Rightarrow> [])) hu = (Inr acc', h')"
        using Cons.prems(2) False by (simp add: Let_def run_result [of "updateKey E dev (Some used) g" h, OF u])
      then show thesis by (rule that(2) [OF _ _ disjI1 [OF u]]) (cases ru; simp)
    next
      case miss: False
      then have "sync_handlers E dev (Some used) ks hs (acc @ (case ra of Inl e \<Rightarrow> [AddFailed (handler_Slot g) e] | Inr _ \<Rightarrow> [])) ha = (Inr acc', h')"
        using Cons.prems(2) False by (simp add: Let_def run_result [of "addKey E dev (Some used) g" h, OF a])
      then show thesis by (rule that(2) [OF _ _ disjI2 [OF a]]) (cases ra; simp)
    qed
  qed
  then show ?case
  proof cases
    case 1
    then show ?thesis using Cons.IH [OF _ 1(2)] Cons.prems(1) by auto
  next
    case (2 r h1 new)
    from Cons.IH [OF _ 2(1)] Cons.prems(1) obtain new2 where n: "acc' = (acc @ new) @ new2"
      "new2 = [] \<longrightarrow> (\<forall>g \<in> set hs. handler_Slot g \<noteq> KSlot used \<longrightarrow> unlocks uuid salt U V (keyslots dev i h') (tokens dev j h') g)" by auto
    have "unlocks uuid salt U V (keyslots dev i h') (tokens dev j h') g" if "new = []"
      using later [OF _ 2(1)] that 2(2,3) updateKey_unlocks [OF assms(1,2)] addKey_unlocks [OF assms(2)] by metis
    with n show ?thesis by (intro exI [of _ "new @ new2"]) auto
  qed
qed


lemma clean_slots_ok:
  assumes "\<forall>slot \<in> set slots. \<exists>n. in_int64 n \<and> slot = Itoa n" "clean_slots E dev k visited slots acc h = (Inr acc', h')"
  shows "\<exists>new. acc' = acc @ new \<and> dom (keyslots dev i h') \<subseteq> dom (keyslots dev i h) \<and>
    (new = [] \<longrightarrow> (\<forall>s. Itoa s \<in> set slots \<and> Itoa s \<notin> set visited \<longrightarrow> keyslots dev i h' s = None))"
  using assms
proof (induction slots arbitrary: acc h)
  case Nil
  then show ?case by (simp add: returns_simps)
next
  case (Cons slot slots)
  have canon: "\<forall>slot \<in> set slots. \<exists>n. in_int64 n \<and> slot = Itoa n" using Cons.prems(1) by simp
  obtain n where n: "in_int64 n" "slot = Itoa n" using Cons.prems(1) by auto
  show ?case
  proof (cases "slot \<in> set visited")
    case True
    then show ?thesis using Cons.IH [OF canon] Cons.prems(2) by (metis clean_slots.simps(2) set_ConsD)
  next
    case False
    obtain r h1 where rm: "do_luks E (LuksRemoveKey dev n k) h = (r, h1)" by (metis prod.exhaust)
    have h1: "h1 = (LuksRemoveKey dev n k, r = Inr ()) # h" using rm by (auto simp: do_luks_def enc_call_def tcall_def split: option.splits)
    have rest: "(case r of Inl e \<Rightarrow> clean_slots E dev k visited slots (acc @ [RemoveFailed slot e])
        | Inr _ \<Rightarrow> if k = None then tfail HandlerPanic else clean_slots E dev k visited slots acc) h1 = (Inr acc', h')"
      using Cons.prems(2) False n(1) unfolding n(2)
      by (simp add: ParseInt_Itoa run_result [of "do_luks E (LuksRemoveKey dev n k)" h, OF rm] split del: if_split)
    show ?thesis
    proof (cases r)
      case (Inl e)
      then have "clean_slots E dev k visited slots (acc @ [RemoveFailed slot e]) h1 = (Inr acc', h')" using rest by simp
      from Cons.IH [OF canon this] obtain new where "acc' = (acc @ [RemoveFailed slot e]) @ new"
        "dom (keyslots dev i h') \<subseteq> dom (keyslots dev i h1)" by blast
      then show ?thesis using h1 Inl by (intro exI [of _ "RemoveFailed slot e # new"]) simp
    next
      case (Inr u)
      then have "clean_slots E dev k visited slots acc h1 = (Inr acc', h')" using rest by (simp add: returns_simps split: if_splits)
      from Cons.IH [OF canon this] obtain new where new: "acc' = acc @ new" "dom (keyslots dev i h') \<subseteq> dom (keyslots dev i h1)"
        "new = [] \<longrightarrow> (\<forall>s. Itoa s \<in> set slots \<and> Itoa s \<notin> set visited \<longrightarrow> keyslots dev i h' s = None)" by blast
      have k1: "keyslots dev i h1 = (keyslots dev i h)(n := None)" using h1 Inr by simp
      then have "keyslots dev i h' n = None" "dom (keyslots dev i h') \<subseteq> dom (keyslots dev i h)" using new(2) by auto
      then show ?thesis using new(1,3) n(2) by (intro exI [of _ new]) (auto dest: Itoa_inj)
    qed
  qed
qed

lemma syncKeys_ok:
  assumes hdr: "luks_header E dev i j" and laws: "key_laws E uuid salt U V" and dist: "distinct (map handler_Slot hs)"
    and used: "g0 \<in> set hs" "handler_Slot g0 = KSlot used" "unlocks uuid salt U V (keyslots dev i h) (tokens dev j h) g0"
    and sync: "syncKeys E hs dev (Some used) h = (Inr [], h')"
  shows "dom (keyslots dev i h') = handler_Slot ` set hs"
    "\<forall>g \<in> set hs. unlocks uuid salt U V (keyslots dev i h') (tokens dev j h') g"
proof -
  let ?visited = "map (\<lambda>h. Itoa (handler_Slot h)) hs" and ?h1 = "(LuksReadKeyslots dev, True) # h"
  from sync obtain ss failed h2 where ss: "read_keyslots E h dev = Some ss"
    and sh: "sync_handlers E dev (Some used) ss hs [] ?h1 = (Inr failed, h2)"
    and cl: "clean_slots E dev (Some used) ?visited ss failed h2 = (Inr [], h')"
    by (auto simp: syncKeys_def enc_call_def returns_simps)
  note canon = header_slots [OF hdr ss]
  from clean_slots_ok [OF canon(2) cl, of i] have failed: "failed = []" and sub: "dom (keyslots dev i h') \<subseteq> dom (keyslots dev i h2)"
    and gone: "\<forall>s. Itoa s \<in> set ss \<and> Itoa s \<notin> set ?visited \<longrightarrow> keyslots dev i h' s = None" by auto
  have unl2: "unlocks uuid salt U V (keyslots dev i h2) (tokens dev j h2) g" if g: "g \<in> set hs" for g
  proof (cases "handler_Slot g = KSlot used")
    case True
    then have "g = g0" using g used(1,2) dist by (metis distinct_map inj_onD)
    moreover have "calls_in (spares (KSlot used)) (sync_handlers E dev (Some used) ss hs [])" by (rule sync_handlers_spares) auto
    from spared_run(1) [OF this sh, of dev i] spared_run(2) [OF this sh, of dev j]
    have "keyslots dev i h2 (handler_Slot g0) = keyslots dev i h (handler_Slot g0)" "tokens dev j h2 (handler_Slot g0) = tokens dev j h (handler_Slot g0)"
      using used(2) by simp_all
    ultimately show ?thesis using used(3) unlocks_cong by metis
  next
    case False
    then show ?thesis using sync_handlers_ok [OF hdr laws dist sh] failed g by auto
  qed
  have kept: "keyslots dev i h' (handler_Slot g) = keyslots dev i h2 (handler_Slot g)" "tokens dev j h' (handler_Slot g) = tokens dev j h2 (handler_Slot g)"
    if "g \<in> set hs" for g
  proof -
    have "calls_in (spares (handler_Slot g)) (clean_slots E dev (Some used) ?visited ss failed)"
      by (rule clean_slots_spares [OF canon(2)]) (use that in auto)
    from spared_run [OF this cl] show "keyslots dev i h' (handler_Slot g) = keyslots dev i h2 (handler_Slot g)" "tokens dev j h' (handler_Slot g) = tokens dev j h2 (handler_Slot g)" by auto
  qed
  show unl: "\<forall>g \<in> set hs. unlocks uuid salt U V (keyslots dev i h') (tokens dev j h') g"
    using unl2 kept unlocks_cong by metis
  show "dom (keyslots dev i h') = handler_Slot ` set hs"
  proof
    show "handler_Slot ` set hs \<subseteq> dom (keyslots dev i h')" using unl by (auto simp: unlocks_def)
    show "dom (keyslots dev i h') \<subseteq> handler_Slot ` set hs"
    proof
      fix s assume s: "s \<in> dom (keyslots dev i h')"
      show "s \<in> handler_Slot ` set hs"
      proof (rule ccontr)
        assume out: "s \<notin> handler_Slot ` set hs"
        then have "calls_in (spares s) (sync_handlers E dev (Some used) ss hs [])" by (intro sync_handlers_spares) auto
        from spared_run(1) [OF this sh, of dev i] have "keyslots dev i h2 s = keyslots dev i h s" by simp
        then have "Itoa s \<in> set ss" using s sub canon(1) by (metis domIff image_eqI subsetD)
        moreover have "Itoa s \<notin> set ?visited" using out Itoa_inj by auto
        ultimately show False using gone s by auto
      qed
    qed
  qed
qed

lemma synchronised:
  assumes hdr: "luks_header E dev i j" and laws: "key_laws E uuid salt U V" and dist: "distinct (map handler_Slot hs)"
    and op: "Handler_Open E hs dev m h = (Inr (path, slot, []), h')"
  shows "dom (keyslots dev i h') = handler_Slot ` set hs \<and>
    (\<forall>g \<in> set hs. unlocks uuid salt U V (keyslots dev i h') (tokens dev j h') g) \<and> slot \<in> handler_Slot ` set hs"
proof -
  from op obtain isOpen p0 h1 used h2 p where
    mid: "(if isOpen then tret (p0, None) else tbind (tryHandlers (open_with E dev m) hs) (\<lambda>(_, p, key). tret (p, Some key))) h1 = (Inr (p, used), h2)"
    and sync: "tbind (syncKeys E hs dev used) (\<lambda>failedSyncs. case used of None \<Rightarrow> tfail HandlerPanic | Some key \<Rightarrow> tret (p, KSlot key, failedSyncs)) h2 =
      (Inr (path, slot, []), h')"
    by (auto simp: Handler_Open_def returns_simps)
  from sync obtain key where key: "used = Some key" by (cases used) (auto simp: returns_simps)
  then have sy: "syncKeys E hs dev (Some key) h2 = (Inr [], h')" and slot: "slot = KSlot key" using sync by (auto simp: returns_simps)
  from mid key obtain g where tr: "tryHandlers (open_with E dev m) hs h1 = (Inr (g, p, key), h2)"
    by (auto simp: returns_simps split: if_splits)
  from tryHandlers_returns [OF tr] obtain h0 where g: "g \<in> set hs" "open_with E dev m g h0 = (Inr (p, key), h2)" by blast
  note ow = open_with_opens [OF hdr g(2)]
  from g(2) obtain t h3 h4 where tok: "readToken E dev (handler_Slot g) h0 = (Inr t, h3)" and gk: "GetKey E g t h3 = (Inr key, h4)"
    by (auto simp: open_with_def returns_simps)
  have "tokens dev j h2 = tokens dev j h0" using reads_run [OF reads_open_with g(2), of dev i j] by simp
  then have "unlocks uuid salt U V (keyslots dev i h2) (tokens dev j h2) g"
    using GetKey_from [OF laws gk] readToken_reads [OF hdr tok] ow by (simp add: unlocks_def)
  from syncKeys_ok [OF hdr laws dist g(1) ow(1) [symmetric] this sy] g(1) ow(1) slot show ?thesis by auto
qed


section \<open>A new volume\<close>

lemma add_keys_ok:
  assumes laws: "key_laws E uuid salt U V" and "distinct (map handler_Slot hs)" and "add_keys E dev key hs h = (Inr u, h')"
  shows "\<forall>g \<in> set hs. handler_Slot g \<noteq> KSlot key \<longrightarrow> unlocks uuid salt U V (keyslots dev i h') (tokens dev j h') g"
    "\<forall>s. s \<notin> handler_Slot ` set hs \<or> s = KSlot key \<longrightarrow> keyslots dev i h' s = keyslots dev i h s \<and> tokens dev j h' s = tokens dev j h s"
proof -
  have spare: "calls_in (spares s) (add_keys E dev key hs)" if "\<forall>g \<in> set hs. handler_Slot g \<noteq> s \<or> s = KSlot key" for s hs
    using that by (induction hs) (auto intro!: calls_intros addKey_spares)
  show "\<forall>s. s \<notin> handler_Slot ` set hs \<or> s = KSlot key \<longrightarrow> keyslots dev i h' s = keyslots dev i h s \<and> tokens dev j h' s = tokens dev j h s"
  proof (intro allI impI)
    fix s assume "s \<notin> handler_Slot ` set hs \<or> s = KSlot key"
    then have "calls_in (spares s) (add_keys E dev key hs)" by (intro spare) auto
    from spared_run(1) [OF this assms(3)] spared_run(2) [OF this assms(3)]
    show "keyslots dev i h' s = keyslots dev i h s \<and> tokens dev j h' s = tokens dev j h s" by simp
  qed
  show "\<forall>g \<in> set hs. handler_Slot g \<noteq> KSlot key \<longrightarrow> unlocks uuid salt U V (keyslots dev i h') (tokens dev j h') g"
    using assms(2,3)
  proof (induction hs arbitrary: h)
    case (Cons g hs)
    show ?case
    proof (cases "handler_Slot g = KSlot key")
      case True
      then show ?thesis using Cons by simp
    next
      case False
      then obtain u1 h1 where a: "addKey E dev (Some key) g h = (Inr u1, h1)" and rest: "add_keys E dev key hs h1 = (Inr u, h')"
        using Cons.prems(2) by (auto simp: returns_simps)
      have "calls_in (spares (handler_Slot g)) (add_keys E dev key hs)"
        by (rule spare) (use Cons.prems(1) in \<open>auto simp: image_iff\<close>)
      from spared_run(1) [OF this rest, of dev i] spared_run(2) [OF this rest, of dev j] addKey_unlocks [OF laws a, of i j]
      have "unlocks uuid salt U V (keyslots dev i h') (tokens dev j h') g" using unlocks_cong by metis
      then show ?thesis using Cons.IH [OF _ rest] Cons.prems(1) by auto
    qed
  qed simp
qed

lemma format_unlocks:
  assumes laws: "key_laws E uuid salt U V" and dist: "distinct (map handler_Slot hs)"
    and fmt: "Handler_FormatAndEncrypt E hs dev h = (Inr u, h')"
  shows "hs \<noteq> []" "dom (keyslots dev i h') = handler_Slot ` set hs"
    "\<forall>g \<in> set hs. unlocks uuid salt U V (keyslots dev i h') (tokens dev j h') g"
proof -
  show "hs \<noteq> []" using fmt by (auto simp: Handler_FormatAndEncrypt_def tryHandlers_def returns_simps)
  from fmt obtain g0 key token h1 h3 where tr: "tryHandlers (NewKey E) hs h = (Inr (g0, key, token), h1)"
    and tok: "set_new_token E dev key token ((LuksEncrypt dev key, True) # h1) = (Inr (), h3)" and add: "add_keys E dev key hs h3 = (Inr u, h')"
    by (auto simp: Handler_FormatAndEncrypt_def do_luks_def enc_call_def returns_simps)
  from tryHandlers_returns [OF tr] obtain h0 where g0: "g0 \<in> set hs" "NewKey E g0 h0 = (Inr (key, token), h1)" by blast
  have slot: "KSlot key = handler_Slot g0" by (rule NewKey_slot [OF g0(2)])
  have hdr3: "keyslots dev i h3 = [KSlot key \<mapsto> KValue key]" "tokens dev j h3 (KSlot key) = token"
    using tok by (cases token; simp add: set_new_token_def do_luks_def enc_call_def returns_simps)+
  note added = add_keys_ok [OF laws dist add]
  have first: "unlocks uuid salt U V (keyslots dev i h') (tokens dev j h') g0"
    using added(2) [of i j] hdr3 NewKey_from [OF laws g0(2)] slot by (simp add: unlocks_def)
  show unl: "\<forall>g \<in> set hs. unlocks uuid salt U V (keyslots dev i h') (tokens dev j h') g"
  proof
    fix g assume g: "g \<in> set hs"
    show "unlocks uuid salt U V (keyslots dev i h') (tokens dev j h') g"
    proof (cases "handler_Slot g = KSlot key")
      case True
      then have "g = g0" using g g0(1) slot dist by (metis distinct_map inj_onD)
      then show ?thesis using first by simp
    next
      case False
      then show ?thesis using added(1) g by blast
    qed
  qed
  show "dom (keyslots dev i h') = handler_Slot ` set hs"
  proof
    show "handler_Slot ` set hs \<subseteq> dom (keyslots dev i h')" using unl by (auto simp: unlocks_def)
    show "dom (keyslots dev i h') \<subseteq> handler_Slot ` set hs"
    proof
      fix s assume s: "s \<in> dom (keyslots dev i h')"
      show "s \<in> handler_Slot ` set hs"
        using added(2) [of i j] s hdr3(1) slot g0(1) by (cases "s \<in> handler_Slot ` set hs") (auto split: if_splits)
    qed
  qed
qed

text \<open>Nothing fails: the key services answer, and LUKS does as long as the header stays as it is in \<open>h1\<close>.\<close>

definition key_services_up :: "enc_env \<Rightarrow> bool" where
  "key_services_up E \<longleftrightarrow>
     (\<forall>h. system_uuid E h \<noteq> None \<and> salt_of E h \<noteq> None) \<and> (\<forall>h e. kms_dial E h e \<noteq> None) \<and>
     (\<forall>h u d. kms_unseal E h u d \<noteq> None) \<and> (\<forall>h r. tpm_unseal E h r \<noteq> None)"

definition same_header :: "string \<Rightarrow> (int \<rightharpoonup> bytes) \<Rightarrow> (int \<rightharpoonup> luks_token) \<Rightarrow> enc_trace \<Rightarrow> enc_trace \<Rightarrow> bool" where
  "same_header dev i j h1 h \<longleftrightarrow> keyslots dev i h = keyslots dev i h1 \<and> tokens dev j h = tokens dev j h1"

definition luks_up :: "enc_env \<Rightarrow> string \<Rightarrow> (int \<rightharpoonup> bytes) \<Rightarrow> (int \<rightharpoonup> luks_token) \<Rightarrow> enc_trace \<Rightarrow> bool" where
  "luks_up E dev i j h1 \<longleftrightarrow>
     (\<forall>h. same_header dev i j h1 h \<longrightarrow>
        read_keyslots E h dev \<noteq> None \<and> (\<forall>s. read_token E h dev s \<noteq> None) \<and> (\<forall>k. check_key E h dev k \<noteq> None) \<and>
        (\<forall>m k. keyslots dev i h (KSlot k) = Some (KValue k) \<longrightarrow> open_luks E h dev m k \<noteq> None))"

lemma luks_upD:
  assumes "luks_up E dev i j h1" "same_header dev i j h1 h"
  shows "\<exists>ss. read_keyslots E h dev = Some ss" "\<exists>t. read_token E h dev s = Some t" "\<exists>b. check_key E h dev k = Some b"
    "keyslots dev i h (KSlot k) = Some (KValue k) \<Longrightarrow> \<exists>p. open_luks E h dev m k = Some p"
  using assms unfolding luks_up_def by (meson option.exhaust)+

lemma same_header_run: "reads m \<Longrightarrow> m h = (r, h') \<Longrightarrow> same_header dev i j h1 h \<Longrightarrow> same_header dev i j h1 h'"
  using reads_run [of m h r h' dev i j] by (simp add: same_header_def)

lemma key_services_upD:
  assumes up: "key_services_up E" and laws: "key_laws E uuid salt U V"
  shows "system_uuid E h = Some uuid" "salt_of E h = Some salt" "kms_dial E h e = Some ()"
    "kms_unseal E h u d = Some (U u d)" "tpm_unseal E h r = Some (V r)"
proof -
  have "system_uuid E h \<noteq> None" "salt_of E h \<noteq> None" "kms_dial E h e \<noteq> None" "kms_unseal E h u d \<noteq> None" "tpm_unseal E h r \<noteq> None"
    using up unfolding key_services_up_def by blast+
  then show "system_uuid E h = Some uuid" "salt_of E h = Some salt" "kms_dial E h e = Some ()"
    "kms_unseal E h u d = Some (U u d)" "tpm_unseal E h r = Some (V r)"
    using key_lawsD [OF laws] by auto
qed

lemma GetKey_runs:
  assumes up: "key_services_up E" and laws: "key_laws E uuid salt U V"
  shows "key_from uuid salt U V g t = Some k \<Longrightarrow> \<exists>h'. GetKey E g t h = (Inr k, h')"
proof (induction g arbitrary: k h)
  case (NodeIDKeyHandler slot l)
  note u = key_services_upD(1) [OF up laws]
  then show ?case using NodeIDKeyHandler entropy_check [of uuid]
    by (auto simp: node_id_key_def enc_call_def tbind_def tcall_def tret_def u split: if_splits)
next
  case (KMSKeyHandler slot e)
  then obtain d where t: "t = Some (KMSToken d)" and k: "k = \<lparr>KSlot = slot, KValue = EncodeToString (U uuid d)\<rparr>"
    by (auto split: option.splits luks_token.splits)
  show ?case using t k by (simp add: enc_call_def tseq_def tbind_def tcall_def tret_def key_services_upD [OF up laws])
next
  case (TPMKeyHandler slot c pcrs)
  then obtain u where t: "t = Some (TPMToken u)" and k: "k = \<lparr>KSlot = slot, KValue = EncodeToString (V (TokenSealed u))\<rparr>"
    by (auto split: option.splits luks_token.splits)
  show ?case using t k by (simp add: enc_call_def tbind_def tcall_def tret_def key_services_upD [OF up laws])
next
  case (SaltedHandler w)
  then obtain k0 where k0: "key_from uuid salt U V w t = Some k0" "k = k0\<lparr>KValue := KValue k0 @ salt\<rparr>" by auto
  obtain h' where "GetKey E w t h = (Inr k0, h')" using SaltedHandler.IH [OF k0(1)] by blast
  then show ?case using k0(2) by (simp add: enc_call_def tbind_def tcall_def tret_def key_services_upD [OF up laws])
qed (simp add: tret_def)


lemma readToken_runs:
  assumes hdr: "luks_header E dev i j" and up: "luks_up E dev i j h1" and same: "same_header dev i j h1 h"
  shows "\<exists>h'. readToken E dev s h = (Inr (tokens dev j h s), h')"
proof -
  obtain t where t: "read_token E h dev s = Some t" using luks_upD(2) [OF up same] by blast
  have st: "stands_for E t (tokens dev j h s)" by (rule header_token [OF hdr t])
  have "TokenTypeKMS \<noteq> TokenTypeTPM" by (simp add: TokenTypeKMS_def TokenTypeTPM_def)
  then show ?thesis using t st
    by (cases t) (auto simp: readToken_def enc_call_def tbind_def tcall_def tret_def)
qed

lemma key_from_slot: "key_from uuid salt U V g t = Some k \<Longrightarrow> KSlot k = handler_Slot g"
  by (induction g arbitrary: k) (auto split: if_splits option.splits luks_token.splits)

lemma open_with_runs:
  assumes hdr: "luks_header E dev i j" and laws: "key_laws E uuid salt U V" and services: "key_services_up E"
    and up: "luks_up E dev i j h1" and same: "same_header dev i j h1 h"
    and unl: "unlocks uuid salt U V (keyslots dev i h) (tokens dev j h) g"
  shows "\<exists>p key h'. open_with E dev m g h = (Inr (p, key), h') \<and> KSlot key = handler_Slot g \<and> same_header dev i j h1 h'"
proof -
  let ?s = "handler_Slot g"
  from unl obtain k where k: "key_from uuid salt U V g (tokens dev j h ?s) = Some k" "keyslots dev i h ?s = Some (KValue k)"
    by (auto simp: unlocks_def)
  obtain h2 where tok: "readToken E dev ?s h = (Inr (tokens dev j h ?s), h2)" using readToken_runs [OF hdr up same] by blast
  obtain h3 where gk: "GetKey E g (tokens dev j h ?s) h2 = (Inr k, h3)" using GetKey_runs [OF services laws k(1)] by blast
  have same3: "same_header dev i j h1 h3" by (rule same_header_run [OF reads_GetKey gk same_header_run [OF reads_readToken tok same]])
  have slot: "KSlot k = ?s" by (rule key_from_slot [OF k(1)])
  have "keyslots dev i h3 (KSlot k) = Some (KValue k)" using same same3 k(2) slot by (simp add: same_header_def)
  then obtain p where p: "open_luks E h3 dev m k = Some p" using luks_upD(4) [OF up same3] by blast
  have run: "open_with E dev m g h = (Inr (p, k), (LuksOpen dev m k, True) # h3)"
    unfolding open_with_def by (simp add: run_tbind [of "readToken E dev ?s" h, OF tok] run_tbind [of "GetKey E g (tokens dev j h ?s)" h2, OF gk] enc_call_def run_call [of "\<lambda>h. open_luks E h dev m k" h3, OF p] tret_def)
  then show ?thesis using slot same_header_run [OF reads_open_with run same] by blast
qed

lemma updateKey_runs:
  assumes hdr: "luks_header E dev i j" and laws: "key_laws E uuid salt U V" and services: "key_services_up E"
    and up: "luks_up E dev i j h1" and same: "same_header dev i j h1 h"
    and unl: "unlocks uuid salt U V (keyslots dev i h) (tokens dev j h) g"
  shows "\<exists>h'. updateKey E dev e g h = (Inr (), h') \<and> same_header dev i j h1 h'"
proof -
  let ?s = "handler_Slot g"
  from unl obtain k where k: "key_from uuid salt U V g (tokens dev j h ?s) = Some k" "keyslots dev i h ?s = Some (KValue k)"
    by (auto simp: unlocks_def)
  obtain h2 where tok: "readToken E dev ?s h = (Inr (tokens dev j h ?s), h2)" using readToken_runs [OF hdr up same] by blast
  obtain h3 where gk: "GetKey E g (tokens dev j h ?s) h2 = (Inr k, h3)" using GetKey_runs [OF services laws k(1)] by blast
  have same3: "same_header dev i j h1 h3" by (rule same_header_run [OF reads_GetKey gk same_header_run [OF reads_readToken tok same]])
  obtain b where b: "check_key E h3 dev k = Some b" using luks_upD(3) [OF up same3] by blast
  have "keyslots dev i h3 (KSlot k) = Some (KValue k)" using same same3 k(2) key_from_slot [OF k(1)] by (simp add: same_header_def)
  then have b: "check_key E h3 dev k = Some True" using header_check [OF hdr b] b by simp
  then have run: "checkKey E dev g h = (Inr True, (LuksCheckKey dev k, True) # h3)"
    unfolding checkKey_def
    by (simp add: run_tbind [of "readToken E dev ?s" h, OF tok] run_result [of "GetKey E g (tokens dev j h ?s)" h2, OF gk] enc_call_def tcall_def)
  then have "updateKey E dev e g h = (Inr (), (LuksCheckKey dev k, True) # h3)"
    unfolding updateKey_def by (simp add: run_tbind [of "checkKey E dev g" h, OF run] tret_def)
  then show ?thesis using same_header_run [OF reads_checkKey run same] by blast
qed

lemma sync_handlers_runs:
  assumes hdr: "luks_header E dev i j" and laws: "key_laws E uuid salt U V" and services: "key_services_up E" and up: "luks_up E dev i j h1"
    and "same_header dev i j h1 h" and "\<forall>g \<in> set hs. unlocks uuid salt U V (keyslots dev i h1) (tokens dev j h1) g \<and> Itoa (handler_Slot g) \<in> set ks"
  shows "\<exists>h'. sync_handlers E dev (Some used) ks hs acc h = (Inr acc, h') \<and> same_header dev i j h1 h'"
  using assms(5,6)
proof (induction hs arbitrary: h)
  case Nil
  then show ?case by (simp add: tret_def)
next
  case (Cons g hs)
  show ?case
  proof (cases "KSlot used = handler_Slot g")
    case True
    then show ?thesis using Cons by simp
  next
    case False
    have "unlocks uuid salt U V (keyslots dev i h) (tokens dev j h) g" using Cons.prems by (simp add: same_header_def)
    then obtain h2 where u: "updateKey E dev (Some used) g h = (Inr (), h2)" "same_header dev i j h1 h2"
      using updateKey_runs [OF hdr laws services up Cons.prems(1)] by blast
    then show ?thesis using False Cons.prems(2) Cons.IH [OF u(2)]
      by (simp add: Let_def run_result [of "updateKey E dev (Some used) g" h, OF u(1)])
  qed
qed

lemma clean_slots_none: "set slots \<subseteq> set visited \<Longrightarrow> clean_slots E dev k visited slots acc h = (Inr acc, h)"
  by (induction slots) (simp_all add: tret_def)

lemma formatted_opens:
  assumes hdr: "luks_header E dev i j" and laws: "key_laws E uuid salt U V" and dist: "distinct (map handler_Slot hs)"
    and fmt: "Handler_FormatAndEncrypt E hs dev h = (Inr (), h1)"
    and services: "key_services_up E" and up: "luks_up E dev i j h1" and shut: "luks_is_open E h1 dev m = Some (False, p0)"
  shows "dom (keyslots dev i h1) = handler_Slot ` set hs \<and> (\<forall>g \<in> set hs. unlocks uuid salt U V (keyslots dev i h1) (tokens dev j h1) g) \<and>
    (\<exists>p h2. Handler_Open E hs dev m h1 = (Inr (p, handler_Slot (hd hs), []), h2) \<and> same_header dev i j h1 h2)"
proof -
  note formatted = format_unlocks(1) [OF laws dist fmt] format_unlocks(2) [OF laws dist fmt, of i] format_unlocks(3) [OF laws dist fmt, of i j]
  from formatted(1) obtain g rest where hs: "hs = g # rest" by (cases hs) auto
  let ?h = "(LuksIsOpen dev m, True) # h1"
  have same: "same_header dev i j h1 ?h" by (simp add: same_header_def)
  have unl: "unlocks uuid salt U V (keyslots dev i ?h) (tokens dev j ?h) g" using formatted(3) hs by simp
  from open_with_runs [OF hdr laws services up same unl] obtain p key h2 where
    ow: "open_with E dev m g ?h = (Inr (p, key), h2)" and slot: "KSlot key = handler_Slot g" and same2: "same_header dev i j h1 h2" by blast
  have tr: "tryHandlers (open_with E dev m) hs ?h = (Inr (g, p, key), h2)"
    by (simp add: tryHandlers_def hs run_result [of "open_with E dev m g" ?h, OF ow] tret_def)
  obtain ss where ss: "read_keyslots E h2 dev = Some ss" using luks_upD(1) [OF up same2] by blast
  have slots: "set ss = (\<lambda>g. Itoa (handler_Slot g)) ` set hs"
    using header_slots(1) [OF hdr ss] same2 formatted(2) by (simp add: same_header_def image_image)
  let ?h3 = "(LuksReadKeyslots dev, True) # h2"
  have same3: "same_header dev i j h1 ?h3" using same2 by (simp add: same_header_def)
  obtain h4 where sh: "sync_handlers E dev (Some key) ss hs [] ?h3 = (Inr [], h4)" "same_header dev i j h1 h4"
    using sync_handlers_runs [OF hdr laws services up same3, of hs ss] formatted(3) slots by blast
  have sync: "syncKeys E hs dev (Some key) h2 = (Inr [], h4)"
    unfolding syncKeys_def enc_call_def
    by (simp add: run_call [of "\<lambda>h. read_keyslots E h dev" h2, OF ss] run_tbind [of "sync_handlers E dev (Some key) ss hs []" ?h3, OF sh(1)] clean_slots_none slots)
  have "Handler_Open E hs dev m h1 = (Inr (p, handler_Slot g, []), h4)"
    unfolding Handler_Open_def enc_call_def
    by (simp add: run_call [of "\<lambda>h. luks_is_open E h dev m" h1, OF shut])
      (simp add: tbind_def tr tret_def sync slot)
  then show ?thesis using formatted(2,3) sh(2) hs by auto
qed

text \<open>An Open of a device that is open already never returns: when the synchronisation of the keys has no
  error, the slot of the key that was never used is read, which panics.\<close>

theorem already_open_fails:
  assumes "luks_is_open E h dev m = Some (True, p)"
  shows "\<exists>e h'. Handler_Open E hs dev m h = (Inl e, h') \<and>
    (e = HandlerPanic \<or> fst (syncKeys E hs dev None ((LuksIsOpen dev m, True) # h)) = Inl e)"
proof -
  obtain r h' where s: "syncKeys E hs dev None ((LuksIsOpen dev m, True) # h) = (r, h')" by (metis prod.exhaust)
  have "Handler_Open E hs dev m h = (case r of Inl e \<Rightarrow> Inl e | Inr _ \<Rightarrow> Inl HandlerPanic, h')"
    using assms s by (simp add: Handler_Open_def enc_call_def tbind_def tcall_def tret_def tfail_def split: sum.splits)
  then show ?thesis using s by (cases r) auto
qed


section \<open>The handlers of a configuration\<close>

lemma new_handlers_slots: "new_handlers hs volumeID cfgs = Inr gs \<Longrightarrow> map handler_Slot gs = map Slot cfgs"
proof (induction cfgs arbitrary: gs)
  case (Cons cfg cfgs)
  then obtain g gs' where g: "keys_NewHandler hs volumeID cfg = Inr g" "new_handlers hs volumeID cfgs = Inr gs'" "gs = g # gs'"
    by (auto split: sum.splits)
  have "base_handler hs volumeID cfg = Inr w \<Longrightarrow> handler_Slot w = Slot cfg" for w
    by (auto simp: base_handler_def split: EncryptionKeyType.splits option.splits if_splits)
  then have "handler_Slot g = Slot cfg" using g(1) by (auto simp: keys_NewHandler_def split: sum.splits if_splits)
  then show ?case using Cons.IH [OF g(2)] g(3) by simp
qed simp

lemma NewHandler_slots:
  assumes "NewHandler cipher_ok perf_ok cfg volumeID hs = Inr gs"
  shows "map handler_Slot gs = sort (map Slot (KeyConfigs cfg))"
proof -
  obtain us where us: "new_handlers hs volumeID (KeyConfigs cfg) = Inr us" "gs = sort_key handler_Slot us"
    using assms by (auto simp: NewHandler_def split: if_splits sum.splits)
  have "sorted (map handler_Slot gs)" "mset (map handler_Slot gs) = mset (map handler_Slot us)" using us(2) by simp_all
  then show ?thesis using new_handlers_slots [OF us(1)] by (metis properties_for_sort)
qed

lemma NewHandler_distinct:
  assumes "NewHandler cipher_ok perf_ok cfg volumeID hs = Inr gs" "distinct (map Slot (KeyConfigs cfg))"
  shows "distinct (map handler_Slot gs)" "handler_Slot ` set gs = Slot ` set (KeyConfigs cfg)"
proof -
  show "distinct (map handler_Slot gs)" using NewHandler_slots [OF assms(1)] assms(2) by (metis distinct_sort)
  have "set (map handler_Slot gs) = set (map Slot (KeyConfigs cfg))" by (simp only: NewHandler_slots [OF assms(1)] set_sort)
  then show "handler_Slot ` set gs = Slot ` set (KeyConfigs cfg)" by simp
qed

text \<open>C12: An Open that reports no failed synchronisation has brought the device in line with the configuration:
  its key slots are those of the configured keys, and the handler of every key alone can open the device, from
  the token in its slot.\<close>

theorem open_synchronises:
  assumes "NewHandler cipher_ok perf_ok cfg volumeID hs = Inr gs" and "distinct (map Slot (KeyConfigs cfg))"
    and "luks_header E dev i j" and "key_laws E uuid salt U V"
    and "Handler_Open E gs dev m h = (Inr (path, slot, []), h')"
  shows "dom (keyslots dev i h') = Slot ` set (KeyConfigs cfg) \<and>
    (\<forall>g \<in> set gs. unlocks uuid salt U V (keyslots dev i h') (tokens dev j h') g) \<and> slot \<in> Slot ` set (KeyConfigs cfg)"
  using synchronised [OF assms(3,4) NewHandler_distinct(1) [OF assms(1,2)] assms(5)] NewHandler_distinct(2) [OF assms(1,2)] by simp

text \<open>C13: A volume that FormatAndEncrypt has made can be opened again: its slots are those of the configured keys,
  each of which can open it alone; and when nothing fails, Open uses the key with the lowest slot, reports no
  failed synchronisation and leaves the header as it is.\<close>

theorem format_then_open:
  assumes "NewHandler cipher_ok perf_ok cfg volumeID hs = Inr gs" and "distinct (map Slot (KeyConfigs cfg))"
    and "luks_header E dev i j" and "key_laws E uuid salt U V"
    and "Handler_FormatAndEncrypt E gs dev h = (Inr (), h1)"
    and "key_services_up E" and "luks_up E dev i j h1" and "luks_is_open E h1 dev m = Some (False, p0)"
  shows "dom (keyslots dev i h1) = Slot ` set (KeyConfigs cfg) \<and>
    (\<forall>g \<in> set gs. unlocks uuid salt U V (keyslots dev i h1) (tokens dev j h1) g) \<and>
    (\<exists>p h2. Handler_Open E gs dev m h1 = (Inr (p, Min (Slot ` set (KeyConfigs cfg)), []), h2) \<and> same_header dev i j h1 h2)"
proof -
  note dist = NewHandler_distinct [OF assms(1,2)]
  have "gs \<noteq> []" by (rule format_unlocks(1) [OF assms(4) dist(1) assms(5)])
  moreover have "sorted (map handler_Slot gs)" using NewHandler_slots [OF assms(1)] by simp
  ultimately have "handler_Slot (hd gs) = Min (handler_Slot ` set gs)"
    by (cases gs) (auto intro!: Min_eqI [symmetric])
  then show ?thesis using formatted_opens [OF assms(3,4) dist(1) assms(5-8)] dist(2) by simp
qed

section \<open>Witnesses\<close>

fun named_slot :: "enc_op \<Rightarrow> int list" where
  "named_slot (LuksEncrypt d k) = [KSlot k]"
| "named_slot (LuksAddKey d e k) = [KSlot k]"
| "named_slot c = []"

definition slot_list :: "string \<Rightarrow> enc_trace \<Rightarrow> int list" where
  "slot_list dev h = filter (\<lambda>s. keyslots dev Map.empty h s \<noteq> None) (remdups (concat (map (named_slot \<circ> fst) h)))"

lemma slot_list_dom: "set (slot_list dev h) = dom (keyslots dev Map.empty h)"
proof -
  have step: "slots_step dev c m s = Some v \<Longrightarrow> s \<in> set (named_slot c) \<or> m s = Some v" for c m s v
    by (induction dev c m rule: slots_step.induct) (auto split: if_splits)
  have "keyslots dev Map.empty h s = Some v \<Longrightarrow> s \<in> set (concat (map (named_slot \<circ> fst) h))" for s v
    by (induction h arbitrary: v) (auto split: if_splits dest!: step)
  then show ?thesis by (auto simp: slot_list_def)
qed

definition demo_enc :: enc_env where
  "demo_enc =
     \<lparr>system_uuid = (\<lambda>h. Some ''d2f7''), salt_of = (\<lambda>h. Some [7]), random_key = (\<lambda>h. Some [1, 2]),
      kms_dial = (\<lambda>h e. Some ()), kms_seal = (\<lambda>h u k. Some (rev k)), kms_unseal = (\<lambda>h u d. Some (rev d)),
      secure_boot = (\<lambda>h. True), setup_mode = (\<lambda>h. False),
      tpm_seal = (\<lambda>h k pcrs. Some \<lparr>SealedBlobPrivate = k, SealedBlobPublic = [], SealedPCRs = pcrs, SealedPubKeyPCRs = [],
         Alg = '''', EncryptionVersion = '''', PolicyDigest = [], KeyName = []\<rparr>),
      tpm_unseal = (\<lambda>h r. Some (SealedBlobPrivate r)),
      luks_is_open = (\<lambda>h d m. Some (False, '''')),
      open_luks = (\<lambda>h d m k. if keyslots d Map.empty h (KSlot k) = Some (KValue k) then Some (''/dev/mapper/'' @ m) else None),
      close_luks = (\<lambda>h p. CloseOk),
      read_keyslots = (\<lambda>h d. if list_all in_int64 (slot_list d h) then Some (map Itoa (slot_list d h)) else None),
      read_token = (\<lambda>h d s. case tokens d Map.empty h s of None \<Rightarrow> Some NoToken
         | Some (KMSToken t) \<Rightarrow> Some (RawToken TokenTypeKMS t) | Some (TPMToken t) \<Rightarrow> None),
      check_key = (\<lambda>h d k. Some (keyslots d Map.empty h (KSlot k) = Some (KValue k))),
      luks_done = (\<lambda>h c. Some ()), parse_kms = Some, parse_tpm = (\<lambda>b. None)\<rparr>"

lemma demo_header: "luks_header demo_enc dev Map.empty Map.empty"
proof -
  have slots: "set (map Itoa (slot_list dev h)) = Itoa ` dom (keyslots dev Map.empty h) \<and> (\<forall>s \<in> dom (keyslots dev Map.empty h). in_int64 s)"
    if "list_all in_int64 (slot_list dev h)" for h
    using that by (simp add: list_all_iff flip: slot_list_dom)
  show ?thesis
    unfolding luks_header_def demo_enc_def using slots
    by (auto split: if_splits option.splits luks_token.splits simp del: set_map)
qed

lemma demo_laws: "key_laws demo_enc ''d2f7'' [7] (\<lambda>u. rev) SealedBlobPrivate"
  unfolding key_laws_def demo_enc_def by auto

lemma demo_services: "key_services_up demo_enc"
  unfolding key_services_up_def demo_enc_def by simp

definition demo_keys :: cipher_config where
  "demo_keys =
     \<lparr>Cipher = ''aes-xts-plain64'', KeySize = 0, BlockSize = 0, PerfOptions = None,
      KeyConfigs =
        [\<lparr>Slot = 1, KeyType = EncryptionKeyKMS, LockToSTATE = False, TPMPCRs = [], TPMPubKeyPCRs = [],
          StaticPassphrase = None, KMSEndpoint = ''kms'', TPMCheckSecurebootStatusOnEnroll = False\<rparr>,
         \<lparr>Slot = 0, KeyType = EncryptionKeyNodeID, LockToSTATE = True, TPMPCRs = [], TPMPubKeyPCRs = [],
          StaticPassphrase = None, KMSEndpoint = '''', TPMCheckSecurebootStatusOnEnroll = False\<rparr>]\<rparr>"

definition demo_handlers :: "key_handler list" where
  "demo_handlers = [SaltedHandler (NodeIDKeyHandler 0 ''EPHEMERAL''), KMSKeyHandler 1 ''kms'']"

lemma demo_new: "NewHandler (\<lambda>c. True) (\<lambda>p. True) demo_keys ''EPHEMERAL'' \<lparr>HasSystemInformation = True, HasTPMLocker = True, HasSaltGetter = True\<rparr> =
    Inr demo_handlers"
  by code_simp

definition demo_formatted :: enc_trace where
  "demo_formatted = snd (Handler_FormatAndEncrypt demo_enc demo_handlers ''sda5'' [])"

lemma demo_format: "Handler_FormatAndEncrypt demo_enc demo_handlers ''sda5'' [] = (Inr (), demo_formatted)"
proof -
  have "fst (Handler_FormatAndEncrypt demo_enc demo_handlers ''sda5'' []) = Inr ()" by code_simp
  then show ?thesis unfolding demo_formatted_def by (metis prod.collapse)
qed


fun sets_tpm :: "enc_op \<Rightarrow> bool" where
  "sets_tpm (LuksSetToken d s (TPMToken t)) = True"
| "sets_tpm c = False"

lemma no_tpm_tokens: "list_all (\<lambda>e. \<not> sets_tpm (fst e)) h \<Longrightarrow> tokens dev Map.empty h s \<noteq> Some (TPMToken t)"
proof (induction h)
  case (Cons e h)
  have "\<not> sets_tpm c \<Longrightarrow> m s \<noteq> Some (TPMToken t) \<Longrightarrow> tokens_step dev c m s \<noteq> Some (TPMToken t)" for c m
    by (induction dev c m rule: tokens_step.induct) (auto split: if_splits)
  with Cons show ?case by simp
qed simp

lemma demo_distinct: "distinct (map Slot (KeyConfigs demo_keys))"
  by (simp add: demo_keys_def)

lemma demo_up: "luks_up demo_enc ''sda5'' Map.empty Map.empty demo_formatted"
proof -
  have "dom (keyslots ''sda5'' Map.empty demo_formatted) = handler_Slot ` set demo_handlers"
    by (rule format_unlocks(2) [OF demo_laws NewHandler_distinct(1) [OF demo_new demo_distinct] demo_format])
  then have "dom (keyslots ''sda5'' Map.empty demo_formatted) = {0, 1}" by (simp add: demo_handlers_def)
  then have slots: "list_all in_int64 (slot_list ''sda5'' h)" if "same_header ''sda5'' Map.empty Map.empty demo_formatted h" for h
    using that slot_list_dom [of "''sda5''" h] by (simp add: same_header_def list_all_iff in_int64_def)
  have "list_all (\<lambda>e. \<not> sets_tpm (fst e)) demo_formatted" unfolding demo_formatted_def by code_simp
  then have toks: "tokens ''sda5'' Map.empty demo_formatted s \<noteq> Some (TPMToken t)" for s t by (rule no_tpm_tokens)
  have "read_token demo_enc h ''sda5'' s \<noteq> None" if "same_header ''sda5'' Map.empty Map.empty demo_formatted h" for h s
    using toks [of s] that by (auto simp: same_header_def demo_enc_def split: option.splits luks_token.splits)
  then show ?thesis using slots unfolding luks_up_def by (simp add: demo_enc_def)
qed

theorem format_then_open_witness:
  "\<exists>p h2. Handler_Open demo_enc demo_handlers ''sda5'' ''luks2-EPHEMERAL'' demo_formatted = (Inr (p, 0, []), h2)"
proof -
  have shut: "luks_is_open demo_enc demo_formatted ''sda5'' ''luks2-EPHEMERAL'' = Some (False, '''')" by (simp add: demo_enc_def)
  show ?thesis
    using format_then_open [OF demo_new demo_distinct demo_header demo_laws demo_format demo_services demo_up shut]
    by (auto simp: demo_keys_def)
qed

definition demo_opened :: "(enc_error + (string \<times> int \<times> failed_sync list)) \<times> enc_trace" where
  "demo_opened = Handler_Open demo_enc [KMSKeyHandler 1 ''kms'', StaticKeyHandler 2 [5]] ''sda5'' ''luks2-EPHEMERAL'' demo_formatted"

text \<open>The configuration has changed: the key in slot 0 is gone, and there is a new one in slot 2.\<close>

lemma demo_new_keys:
  "NewHandler (\<lambda>c. True) (\<lambda>p. True)
     (demo_keys\<lparr>KeyConfigs := [hd (KeyConfigs demo_keys), (hd (KeyConfigs demo_keys))\<lparr>Slot := 2, KeyType := EncryptionKeyStatic, StaticPassphrase := Some [5]\<rparr>]\<rparr>)
     ''EPHEMERAL'' \<lparr>HasSystemInformation = True, HasTPMLocker = True, HasSaltGetter = True\<rparr> =
    Inr [KMSKeyHandler 1 ''kms'', StaticKeyHandler 2 [5]]"
  by code_simp

theorem open_synchronises_witness:
  "fst demo_opened = Inr (''/dev/mapper/luks2-EPHEMERAL'', 1, []) \<and> dom (keyslots ''sda5'' Map.empty (snd demo_opened)) = {1, 2}"
proof -
  have r: "fst demo_opened = Inr (''/dev/mapper/luks2-EPHEMERAL'', 1, [])" by code_simp
  then have op: "Handler_Open demo_enc [KMSKeyHandler 1 ''kms'', StaticKeyHandler 2 [5]] ''sda5'' ''luks2-EPHEMERAL'' demo_formatted =
      (Inr (''/dev/mapper/luks2-EPHEMERAL'', 1, []), snd demo_opened)"
    unfolding demo_opened_def by (metis prod.collapse)
  show ?thesis
    using open_synchronises [OF demo_new_keys _ demo_header demo_laws op] r by (simp add: demo_keys_def insert_commute)
qed


theorem already_open_fails_witness:
  "\<exists>e. fst (Handler_Open (demo_enc\<lparr>luks_is_open := \<lambda>h d m. Some (True, ''/dev/mapper/x'')\<rparr>) demo_handlers ''sda5'' ''x'' demo_formatted) = Inl e"
proof -
  have "luks_is_open (demo_enc\<lparr>luks_is_open := \<lambda>h d m. Some (True, ''/dev/mapper/x'')\<rparr>) demo_formatted ''sda5'' ''x'' = Some (True, ''/dev/mapper/x'')" by simp
  from already_open_fails [OF this, of demo_handlers] show ?thesis by auto
qed

end
