(* ===== verification/Spec2Isabelle.thy ===== *)
theory Spec2Isabelle
  imports AdvChubo AdvSyslinux Meta VolumeManager PriorityLock Controller Services EventStream Acquire Authz TimeSync LinkMerge MergeController Grub MountRequests WipeAPI MetaAPI ConfigApply Encryption
begin

text \<open>
  Verification of the core of Chubo, a single-purpose Linux init and machine manager.

  \<^bold>\<open>The program.\<close> The init process machined (internal/app/machined) brings a machine up: it runs
  sequences of tasks (boot, install, reset, upgrade, shutdown) under a lock that lets one sequence run
  and a more urgent one take over; it locates, makes and opens the volumes of the machine's disks; it
  acquires a machine configuration from several sources; it starts and stops the services with their
  dependencies; and it publishes events to its clients. Small persistent values, among them a staged
  upgrade, are kept in the META partition (internal/pkg/meta). Controllers talk to each other through
  resources of the COSI runtime, a library outside of the repository.

  \<^bold>\<open>The parts and their theories.\<close> The order is the one in which they depend on each other; paths are
  under src/, and M stands for internal/app/machined/pkg.

    \<^item> Prelude: Go's outcomes (a value or a panic), Go maps with their unspecified order, byte slices,
      the encodings of encoding/binary; no code of the repository.
    \<^item> AdvInterface, AdvChubo, AdvSyslinux: the formats of META, internal/pkg/meta/internal/adv. An ADV
      is a store of tagged values; the locales \<open>adv_reader\<close> and \<open>adv_store\<close> state what the store Meta
      relies on, and both formats interpret what holds of them.
    \<^item> Meta: internal/pkg/meta/meta.go and MachineState of M/runtime/v1alpha1/v1alpha1_state.go. The
      record \<open>meta\<close> is the Go struct, \<open>meta_world\<close> the MetaKey resources and the device.
    \<^item> BlockTypes, VolumeOps, VolumeProps, VolumeManager: the volumes, pkg/machinery/resources/block and
      M/controllers/block. The operations of internal/volumes are definitions of their Go names in a
      state of the volume's status and the history of outside calls; \<open>processVolumeConfig\<close> is the
      automaton of one volume, \<open>run_pass\<close> a pass of the controller over all of them.
    \<^item> Sequences, PriorityLock, Sequencer, Controller: M/runtime/sequencer.go, mode.go and
      v1alpha1_priority_lock.go, v1alpha1_sequencer.go, v1alpha1_controller.go. The lock is a
      transition system over goroutines, the sequences are lists of phases of task names, and the
      controller runs them with the results of the tasks as parameters. The locale \<open>priority\<close> is what
      the lock needs of the take-over relation; CanTakeOver interprets it.
    \<^item> ServiceEvents, ServiceRunner, Services: M/system. The health and the event ring of a service, one
      run of a service with its reports and wake-ups, and the table of services with the procedure that
      stops them in the order of their dependencies.
    \<^item> EventStream: M/runtime/events.go and v1alpha1_events.go, the ring of runtime events and its
      watchers, as a system with one step for every section under the mutex. The locale \<open>bounded_log\<close>
      is what a watcher relies on; the ring interprets it.
    \<^item> Automaton: M/automaton, the automata that controllers run at every reconciliation, and the one
      that mounts a volume for a callback.
    \<^item> Container: pkg/machinery/config/container, the container of configuration documents.
    \<^item> Acquire: M/controllers/config/acquire.go, the acquisition of the machine configuration. It uses
      the container for configurations, the mounter for the STATE volume and the phases of BlockTypes.

    \<^item> Authz: pkg/machinery/role, pkg/grpc/middleware/authz, the servers of machined and apid with their
      rules and chains of interceptors, the routing of a call between nodes (internal/app/apid), and the
      access policy of resources.

    \<^item> Ntp, TimeSync: internal/pkg/ntp and M/controllers/time/sync.go, the NTP client as a goroutine among
      others, and the controller that runs it and says when the time is in sync.

    \<^item> NetMerge, LinkMerge, MergeController: the layers of the network configuration, their merges
      (pkg/machinery/resources/network and M/controllers/network/*_merge.go) and the generic controller
      that publishes a merge.

    \<^item> GoText, Grub: M/runtime/v1alpha1/bootloader/grub, the configuration file of GRUB: what install,
      upgrade and revert write into it, its quoting, and the parser that reads it back. GoText has what it
      uses of packages strings and regexp, and the cleaning of paths.

    \<^item> Mounts, MountProps, MountRequests: M/controllers/block/mount.go, mount_request.go, mount_status.go
      and the mount points of internal/pkg/mount/v3 they use. Users ask for volumes
      (VolumeMountRequest), one controller gathers the requests of a volume, one mounts and unmounts it,
      and one reports the result to every user (VolumeMountStatus). The mount controller is a state of
      its activeMounts and the history of calls, whose answers an environment gives.

    \<^item> Wiping, ResetAPI, WipeAPI: internal/pkg/partition, the tasks of a reset in
      M/runtime/v1alpha1/v1alpha1_sequencer_tasks.go, and the three requests that wipe disks, Reset of
      machined, Reset of the maintenance service and BlockDeviceWipe of internal/app/storaged. A use of a
      device is a call in a history; \<open>reset_machine\<close> is a reset from its request on, through Sequencer,
      Controller and the tasks, to the calls on the devices.

    \<^item> MetaAPI: MetaWrite and MetaDelete of both services on the store of Meta.

    \<^item> CallTrace, Strconv, Encryption: internal/pkg/encryption, the handler of an encrypted volume with the
      keys of its slots. CallTrace is the monad of the calls, newest first; the key slots and the tokens
      of a device are a function of the trace (\<open>keyslots\<close>, \<open>tokens\<close>). Strconv has decimal numbers and base64.

    \<^item> ConfigApply: ApplyConfiguration of machined and the functions of Runtime that hold the
      configuration and its rollback timer (M/runtime/v1alpha1/v1alpha1_runtime.go). A run is a sequence
      of requests, firings of the timer and runs of the functions it starts.

  A struct is a record with fields of the Go names where they are not taken, an enumeration a datatype,
  an operation a definition of its Go name. Errors are values (\<open>Inl\<close> or an option), panics the outcome
  \<open>Panic\<close>. Sizes and checksums keep their width as words; positions and counters that only grow by one
  per event (int64 in the event stream) are unbounded.

  \<^bold>\<open>Parameters.\<close> What is not in the repository or not modelled is an argument: SHA-256, the visiting order
  of a Go map, the block devices, file systems, LUKS and GPT (\<open>vol_env\<close>, \<open>dev_env\<close>), the COSI runtime, the clock,
  the tasks of the sequences, the services and their runners, YAML, gzip and zstd, the methods of the
  configuration documents (\<open>doc_methods\<close>), xid identifiers, the metadata of gRPC (\<open>md_lib\<close>). An answer of an environment may depend on the
  whole history of calls, so nothing is assumed of what other goroutines, controllers and devices do in
  between; laws that are needed are named hypotheses (\<open>cosi_laws\<close>, 32 bytes of a hash, and the like).

  \<^bold>\<open>What the theorems show.\<close>
    \<^item> META: a stored block is read back, a broken one is recovered from its copy, a Flush that is cut off
      at any byte leaves all old or all new tags; tags and resources agree after every operation; a
      staged upgrade is acted on once. Two panics on damaged or long values are shown as such.
    \<^item> Volumes: the automaton ends in a settled phase; partitions are allocated and file systems made
      only after the checks, whatever the devices answer and wherever a step fails; the waves of
      provisioning and the release of the volume lifecycle are respected by the controller.
    \<^item> Sequences: one sequence at a time, interrupted only by one that may take over; every sequence tears
      the machine down in the same order; a failing task stops a sequence, but not a reset.
    \<^item> Services: no lost wake-up, every run ends in the right state, services stop after their dependents,
      and the stop procedure cannot block when the dependencies have no cycle.
    \<^item> Events: the watchers refine the log of published events.
    \<^item> Configuration: which documents may be together, rebuilding and patching a container, the order of
      the sources, and that the boot goes on only with a complete, persisted configuration.
    \<^item> API: which calls machined runs, as a function of the caller's certificate alone, across nodes; the
      one hole, certificates without roles, is shown as such.
    \<^item> Time: the poll interval and the requests to the kernel stay within their bounds, the clock moves by
      the measured offset, and the time is reported in sync only for one of three reasons.
    \<^item> Network: the highest layer wins, for whole specifications or setting by setting, and the output
      resources become the merged specifications.
    \<^item> GRUB: a written configuration is read back, an upgrade keeps the running system as the fallback,
      and a revert returns to it; the one loss, an empty command line, is shown as such.
    \<^item> Mounts: the controller knows the mounts it has made, makes none twice, with the label and type the
      volume asks for, under the finalizers of volume and parent, and takes one away only after its status is gone; every user of a
      ready volume is answered. A request that returns in the turn of its unmount is mounted without
      finalizers; this is shown as such.
    \<^item> Reset: it writes only devices that the request asks for and the checks allow, and without an error it
      has wiped all of them; BlockDeviceWipe touches nothing before all its checks have passed. The system
      disk that the maintenance service always wipes, and the disk that an empty label wipes, are shown as such.
    \<^item> Encryption: an Open never locks a volume out, without a failed synchronisation its key slots are those
      of the configuration, and what FormatAndEncrypt made is opened again. What is needed of LUKS, KMS and
      TPM are the hypotheses \<open>luks_header\<close> and \<open>key_laws\<close>.
    \<^item> META through the API: a write that succeeds is read at the next boot; the key zero, which hides
      others, is shown as such.
    \<^item> Applying a configuration: the changes that need no reboot, that only confirmed configurations are
      persisted, and that a trial is rolled back. Three ways around the rollback are shown as such.

  \<^bold>\<open>Bounds and fuel.\<close> \<open>process_loop\<close> takes a number of turns; \<open>process_settles\<close> shows that the eight turns of
  \<open>processVolumeConfig\<close> always suffice. \<open>Run_automaton\<close> and \<open>expand_loop\<close> are partial functions that may
  not return in general; \<open>mounter_returns\<close> and \<open>stop_closure\<close> show that they do where they are used. The
  other loops are total, \<open>run_machine\<close> because no state of the acquisition is entered twice in a pass.

  \<^bold>\<open>Not modelled.\<close> The bodies of the sequencer's tasks other than those that wipe, and the service
  implementations (calls of the kernel, containerd and files); the other controllers (the rest of network, cluster, secrets, siderolink, runtime,
  hardware, files), the configuration types and their decoding, the clients of the API and the methods that
  list, copy or stream (logs, statistics, packets), the other boot loaders, the imager, installer and provisioner, the platforms, the dashboard and the CLI; generated code
  (enumerations, deep copies, protobuf, documentation). Log lines, metrics and encodings for the wire
  are left out everywhere. Real time is left out: a time-out may happen at any wait.
\<close>

end
